(* ===== verification/CPrelude.thy ===== *)
theory CPrelude
  imports Main "HOL-Library.Word"
begin

unbundle bit_operations_syntax

text \<open>
  Shared vocabulary of the development: the machine types of the C sources, the faults a C
  function can run into, memory blocks as byte lists, and the list and word lemmas that the
  component theories use.

  Conventions of all theories:
  \<^item> \<open>char\<close> data is a list of \<open>8 word\<close>; \<open>uint32_t\<close> and \<open>int32_t\<close> are \<open>32 word\<close> (a signed
    value is read with \<open>sint\<close>), \<open>uint64_t\<close> and the bit pattern of a \<open>double\<close> are \<open>64 word\<close>.
  \<^item> a pointer that the code reads through is the list of the bytes it may read, a pointer
    that the code writes through is the list of the bytes it has stored, counted from the
    pointer;
  \<^item> the servers are built without \<open>NDEBUG\<close>, so a failed \<open>assert\<close> ends the process: the
    model returns the fault \<open>Assertion\<close>. Reads through null, outside a block, of an
    uninitialised variable or of the wrong union member are faults too;
  \<^item> where the code tests the result of an allocation the model takes the outcome as an
    argument; where the code uses the block at once the model's allocation succeeds.
\<close>

section \<open>Machine types and faults\<close>

type_synonym byte = "8 word"
type_synonym u32 = "32 word"
type_synonym u64 = "64 word"
type_synonym i32 = "32 word"

datatype c_fault =
    Assertion | NullDeref | OutOfBounds | Uninitialised | BadUnion | BadCast | UseAfterFree | DivByZero
  | SignedOverflow

type_synonym 'a res = "c_fault + 'a"

text \<open>Collections: \<open>c_defs\<close> gathers definitions a component unfolds by default,
  \<open>c_bounds\<close> the size facts of its operations.\<close>

named_theorems c_defs
named_theorems c_bounds

definition ok :: "'a res \<Rightarrow> bool" where
  "ok r \<longleftrightarrow> (case r of Inl _ \<Rightarrow> False | Inr _ \<Rightarrow> True)"

lemma ok_simps [simp]: "ok (Inr x)" "\<not> ok (Inl f)"
  by (simp_all add: ok_def)

lemma ok_iff: "ok r \<longleftrightarrow> (\<exists>x. r = Inr x)"
  by (cases r) simp_all

section \<open>C strings and memory blocks\<close>

text \<open>The conversion of a \<open>size_t\<close> to \<open>int\<close>.\<close>

definition int_of_size :: "nat \<Rightarrow> int" where
  "int_of_size n = (let m = n mod 2 ^ 32 in if m < 2 ^ 31 then int m else int m - 2 ^ 32)"

lemma int_of_size_small: "n < 2 ^ 31 \<Longrightarrow> int_of_size n = int n"
  by (simp add: int_of_size_def Let_def)

text \<open>\<open>strlen\<close>: the bytes before the first zero byte; running off the block is a fault.\<close>

fun c_strlen :: "byte list \<Rightarrow> nat res" where
  "c_strlen [] = Inl OutOfBounds"
| "c_strlen (c # cs) =
     (if c = 0 then Inr 0
      else (case c_strlen cs of Inl f \<Rightarrow> Inl f | Inr n \<Rightarrow> Inr (Suc n)))"

text \<open>Storing a block at an offset of another one.\<close>

definition store_at :: "'a list \<Rightarrow> nat \<Rightarrow> 'a list \<Rightarrow> 'a list" where
  "store_at m off w = take off m @ w @ drop (off + length w) m"

lemma store_at_end [simp]: "store_at m (length m) w = m @ w"
  by (simp add: store_at_def)

lemma length_store_at:
  "off \<le> length m \<Longrightarrow> length (store_at m off w) = max (length m) (off + length w)"
  by (auto simp: store_at_def)

lemma length_store_at_inside [simp]:
  "off + length w \<le> length m \<Longrightarrow> length (store_at m off w) = length m"
  by (simp add: store_at_def)

lemma nth_store_at:
  assumes "off + length w \<le> length m" and "i < length m"
  shows "store_at m off w ! i =
    (if off \<le> i \<and> i < off + length w then w ! (i - off) else m ! i)"
  using assms by (auto simp: store_at_def nth_append)

lemma take_store_at_before [simp]:
  "n \<le> off \<Longrightarrow> off \<le> length m \<Longrightarrow> take n (store_at m off w) = take n m"
  by (simp add: store_at_def min_def)

text \<open>Little-endian encoding of an unsigned integer in \<open>k\<close> bytes, as the servers' machines store it.\<close>

fun le_bytes :: "nat \<Rightarrow> nat \<Rightarrow> byte list" where
  "le_bytes 0 v = []"
| "le_bytes (Suc k) v = word_of_nat v # le_bytes k (v div 256)"

fun le_nat :: "byte list \<Rightarrow> nat" where
  "le_nat [] = 0"
| "le_nat (c # cs) = unat c + 256 * le_nat cs"

lemma length_le_bytes [simp]: "length (le_bytes k v) = k"
  by (induction k arbitrary: v) simp_all

lemma le_nat_bytes: "v < 256 ^ k \<Longrightarrow> le_nat (le_bytes k v) = v"
proof (induction k arbitrary: v)
  case (Suc k)
  then have "v div 256 < 256 ^ k" by (simp add: less_mult_imp_div_less mult.commute)
  with Suc.IH show ?case by (simp add: unsigned_of_nat take_bit_eq_mod)
qed simp

lemma take_le_bytes: "j \<le> k \<Longrightarrow> take j (le_bytes k v) = le_bytes j v"
proof (induction k arbitrary: j v)
  case (Suc k)
  then show ?case by (cases j) simp_all
qed simp

lemma c_strlen_append: "0 \<notin> set s \<Longrightarrow> c_strlen (s @ 0 # t) = Inr (length s)"
  by (induction s) auto

section \<open>Bits of small words\<close>

text \<open>Equality of words bit by bit, with the indices as a list that the simplifier unrolls.\<close>

lemma upt_32:
  "[0..<32] =
    [0, 1, 2, 3, 4, 5, 6, 7, 8, 9, 10, 11, 12, 13, 14, 15, 16, 17, 18, 19, 20, 21, 22, 23,
     24, 25, 26, 27, 28, 29, 30, 31]"
  by code_simp

lemma word32_eqI:
  fixes a b :: u32
  assumes "list_all (\<lambda>n. bit a n = bit b n) [0..<32]"
  shows "a = b"
  using assms by (intro bit_word_eqI) (simp add: list_all_iff)

lemma upt_64:
  "[0..<64] =
    [0, 1, 2, 3, 4, 5, 6, 7, 8, 9, 10, 11, 12, 13, 14, 15, 16, 17, 18, 19, 20, 21, 22, 23,
     24, 25, 26, 27, 28, 29, 30, 31, 32, 33, 34, 35, 36, 37, 38, 39, 40, 41, 42, 43, 44,
     45, 46, 47, 48, 49, 50, 51, 52, 53, 54, 55, 56, 57, 58, 59, 60, 61, 62, 63]"
  by code_simp

lemma word64_eqI:
  fixes a b :: u64
  assumes "list_all (\<lambda>n. bit a n = bit b n) [0..<64]"
  shows "a = b"
  using assms by (intro bit_word_eqI) (simp add: list_all_iff)

lemma word_bit_bound:
  fixes v :: "'a::len word"
  assumes "uint v < 2 ^ k" and "bit v n"
  shows "n < k"
proof -
  from assms(2) have "bit (uint v) n"
    by (simp add: bit_uint_iff bit_imp_le_length)
  moreover from assms(1) have "take_bit k (uint v) = uint v"
    by (simp add: take_bit_int_eq_self)
  ultimately have "bit (take_bit k (uint v)) n"
    by simp
  then show ?thesis by (simp add: bit_take_bit_iff)
qed

lemma byte_and_80 [simp]: "(c :: byte) AND 0x80 = 0 \<longleftrightarrow> \<not> bit c 7"
  using and_exp_eq_0_iff_not_bit [of c 7] by simp

lemma unat32_less: "unat (w :: u32) < 2 ^ 32"
  by (rule order_less_le_trans [OF unsigned_less]) simp

lemma no_bit_from: "uint (v::'a::len word) < 2 ^ k \<Longrightarrow> k \<le> n \<Longrightarrow> \<not> bit v n"
  using word_bit_bound[of v k n] by auto

lemma uint_less_if_no_bits:
  fixes v :: "'a::len word"
  assumes "\<And>n. k \<le> n \<Longrightarrow> \<not> bit v n"
  shows "uint v < 2 ^ k"
proof -
  have "take_bit k v = v"
    using assms by (intro bit_word_eqI) (metis bit_take_bit_iff not_le)
  then have "uint v = take_bit k (uint v)"
    by (metis unsigned_take_bit_eq)
  then show ?thesis by (metis take_bit_int_less_exp)
qed

lemma u32_and_bit28 [simp]: "(u :: u32) AND 0x10000000 = 0 \<longleftrightarrow> \<not> bit u 28"
  using and_exp_eq_0_iff_not_bit [of u 28] by simp

lemma uint_not32: "uint (NOT (i :: u32)) = 2 ^ 32 - 1 - uint i"
proof -
  have m: "uint (-1 :: u32) = 2 ^ 32 - 1"
    by (simp add: unsigned_minus_1_eq_mask mask_eq_exp_minus_1)
  have "uint (-1 - i) = uint (-1 :: u32) - uint i"
    using uint_bounded [of i] by (intro uint_sub_lem [THEN iffD1]) (simp add: m)
  moreover have "NOT i = -1 - i" by (simp add: not_eq_complement)
  ultimately show ?thesis by (simp only: m)
qed

lemma sint_cases32:
  fixes i :: u32
  obtains "0 \<le> sint i" "uint i = sint i" "\<not> bit i 31"
    | "sint i < 0" "uint (NOT i) = - sint i - 1" "bit i 31"
proof -
  have "sint i = uint i - 2 ^ 32 * of_bool (bit i 31)"
  proof -
    have "sint i = signed_take_bit 31 (uint i)" by (simp add: sint_uint)
    also have "\<dots> = take_bit 32 (uint i) - 2 ^ 32 * of_bool (bit (uint i) 31)"
      by (simp add: signed_take_bit_eq_take_bit_minus)
    also have "take_bit 32 (uint i) = uint i"
      using uint_bounded [of i] by (intro take_bit_int_eq_self) simp_all
    finally show ?thesis by (simp add: bit_uint_iff)
  qed
  moreover have "uint i < 2 ^ 32" using uint_bounded [of i] by simp
  moreover have "0 \<le> uint i" by simp
  ultimately show ?thesis
    by (cases "bit i 31"; intro that(2) that(1)) (auto simp: uint_not32)
qed

section \<open>Doubling a size\<close>

text \<open>The loop \<open>while(ns < nr) ns *= 2\<close> on \<open>size_t\<close>, which several containers use to find
  their new size: \<open>None\<close> when it does not end.\<close>

partial_function (option) double_until :: "nat \<Rightarrow> nat \<Rightarrow> nat option" where
  "double_until ns nr = (if ns < nr then double_until (ns * 2 mod 2 ^ 64) nr else Some ns)"

lemma double_until_ok:
  assumes "0 < ns" and "ns < 2 ^ 64" and "nr \<le> 2 ^ 63"
  shows "\<exists>m. double_until ns nr = Some m \<and> ns \<le> m \<and> nr \<le> m \<and> m < 2 ^ 64"
  using assms
proof (induction "nr - ns" arbitrary: ns rule: less_induct)
  case less
  show ?case
  proof (cases "ns < nr")
    case True
    then have s: "ns * 2 mod 2 ^ 64 = ns * 2" "ns * 2 < 2 ^ 64" using less.prems by simp_all
    obtain m where "double_until (ns * 2) nr = Some m" "ns * 2 \<le> m" "nr \<le> m" "m < 2 ^ 64"
      using less.hyps [of "ns * 2"] True less.prems s diff_less_mono2 [of ns "ns * 2" nr] by auto
    then show ?thesis using True s by (subst double_until.simps) auto
  next
    case False
    then show ?thesis using less.prems by (subst double_until.simps) auto
  qed
qed


lemma double_until_small:
  assumes "0 < ns" and "nr \<le> 2 ^ 63" and "double_until ns nr = Some m"
  shows "m = ns \<or> m < 2 * nr"
  using assms(1,3)
proof (induction "nr - ns" arbitrary: ns rule: less_induct)
  case less
  show ?case
  proof (cases "ns < nr")
    case True
    then have "ns * 2 mod 2 ^ 64 = ns * 2" using assms(2) by simp
    then have m: "double_until (ns * 2) nr = Some m"
      using less.prems True by (subst (asm) double_until.simps) simp
    have "nr - ns * 2 < nr - ns" using True less.prems by simp
    with less.hyps m less.prems have "m = ns * 2 \<or> m < 2 * nr" by simp
    with True show ?thesis by auto
  next
    case False
    with less.prems show ?thesis by (subst (asm) double_until.simps) simp
  qed
qed

lemma double_until_id: "nr \<le> ns \<Longrightarrow> double_until ns nr = Some ns"
  by (subst double_until.simps) simp

lemma double_until_zero:
  assumes "0 < nr"
  shows "double_until 0 nr = None"
proof (cases "double_until 0 nr")
  case (Some m)
  have "0 = (0::nat) \<longrightarrow> nr = 0"
    by (rule double_until.raw_induct [where P = "\<lambda>ns nr m. ns = 0 \<longrightarrow> nr = 0", OF _ Some])
       (auto split: if_splits)
  with assms show ?thesis by simp
qed

section \<open>Chaining operations that may fault or not return\<close>

definition run_bind :: "'a res option \<Rightarrow> ('a \<Rightarrow> 'b res option) \<Rightarrow> 'b res option" where
  "run_bind r f = (case r of None \<Rightarrow> None | Some (Inl e) \<Rightarrow> Some (Inl e) | Some (Inr x) \<Rightarrow> f x)"

lemma run_bind_simps [simp]:
  "run_bind None f = None" "run_bind (Some (Inl e)) f = Some (Inl e)" "run_bind (Some (Inr x)) f = f x"
  by (simp_all add: run_bind_def)

text \<open>The same for functions that always return, and a loop over a list that stops at the first fault.\<close>

definition res_bind :: "'a res \<Rightarrow> ('a \<Rightarrow> 'b res) \<Rightarrow> 'b res" where
  "res_bind r f = (case r of Inl e \<Rightarrow> Inl e | Inr x \<Rightarrow> f x)"

lemma res_bind_simps [simp]: "res_bind (Inl e) f = Inl e" "res_bind (Inr x) f = f x"
  by (simp_all add: res_bind_def)

lemma res_bind_Inr_iff: "res_bind r f = Inr y \<longleftrightarrow> (\<exists>x. r = Inr x \<and> f x = Inr y)"
  by (cases r) simp_all

lemma res_bind_assoc: "res_bind (res_bind r f) g = res_bind r (\<lambda>x. res_bind (f x) g)"
  by (cases r) simp_all

fun res_fold :: "('a \<Rightarrow> 's \<Rightarrow> 's res) \<Rightarrow> 'a list \<Rightarrow> 's \<Rightarrow> 's res" where
  "res_fold f [] s = Inr s"
| "res_fold f (x # xs) s = res_bind (f x s) (res_fold f xs)"

lemma res_fold_append: "res_fold f (xs @ ys) s = res_bind (res_fold f xs s) (res_fold f ys)"
  by (induction xs arbitrary: s) (simp_all add: res_bind_def split: sum.splits)

text \<open>Division and remainder of C, which truncate towards zero.\<close>

definition c_div :: "int \<Rightarrow> int \<Rightarrow> int" where
  "c_div a b = sgn a * sgn b * (\<bar>a\<bar> div \<bar>b\<bar>)"

definition c_mod :: "int \<Rightarrow> int \<Rightarrow> int" where
  "c_mod a b = a - c_div a b * b"

lemma c_div_nonneg: "0 \<le> a \<Longrightarrow> 0 < b \<Longrightarrow> c_div a b = a div b"
  by (cases "a = 0") (simp_all add: c_div_def)

lemma c_mod_nonneg: "0 \<le> a \<Longrightarrow> 0 < b \<Longrightarrow> c_mod a b = a mod b"
  by (simp add: c_mod_def c_div_nonneg minus_div_mult_eq_mod)

end
