(* ===== verification/AmfCodec.thy ===== *)
theory AmfCodec
  imports CPrelude
begin

unbundle bit_operations_syntax

text \<open>
  The AMF3 primitives of \<open>framework/amf.c\<close>: type tags, the 29-bit variable-length integer,
  the signed variant, doubles, strings, byte arrays and array headers, each with its encoder
  and decoder.

  An encoder gets the room \<open>len\<close> it was told about and returns the pair of its return value
  and the bytes it stored from \<open>data\<close> on (which can be more than it reports, or more than the
  room). A decoder gets the bytes it may read (\<open>len\<close> is their number) and returns how many it
  consumed, 0 for failure, and the value it wrote through its out parameter, if it wrote one.
\<close>

section \<open>Type tags\<close>

datatype amf_type =
    amf_undefine | amf_null | amf_false | amf_true | amf_integer | amf_double | amf_string
  | amf_xml_doc | amf_date | amf_array | amf_object | amf_xml | amf_byte_array | amf_sinteger

fun amf_code :: "amf_type \<Rightarrow> byte" where
  "amf_code amf_undefine = 0x00"
| "amf_code amf_null = 0x01"
| "amf_code amf_false = 0x02"
| "amf_code amf_true = 0x03"
| "amf_code amf_integer = 0x04"
| "amf_code amf_double = 0x05"
| "amf_code amf_string = 0x06"
| "amf_code amf_xml_doc = 0x07"
| "amf_code amf_date = 0x08"
| "amf_code amf_array = 0x09"
| "amf_code amf_object = 0x0A"
| "amf_code amf_xml = 0x0B"
| "amf_code amf_byte_array = 0x0C"
| "amf_code amf_sinteger = 0x0D"

text \<open>\<open>amf_next_type\<close> returns the tag byte itself, cast to the enumeration.\<close>

fun amf_next_type :: "byte list \<Rightarrow> byte" where
  "amf_next_type [] = amf_code amf_undefine"
| "amf_next_type (c # _) = c"

definition AMF_INTEGER_MAX :: u32 where
  "AMF_INTEGER_MAX = 0x1FFFFFFF"

section \<open>Doubles as bit patterns\<close>

text \<open>
  \<open>double\<close> is IEEE 754 binary64. The conversions the code relies on are the exact ones from
  32-bit integers, and the truncation back, which is undefined outside the integer's range.
\<close>

fun msb_index :: "nat \<Rightarrow> nat" where
  "msb_index n = (if n \<le> 1 then 0 else Suc (msb_index (n div 2)))"

definition double_of_int :: "int \<Rightarrow> u64" where
  "double_of_int i =
     (let m = nat \<bar>i\<bar>; e = msb_index m
      in if m = 0 then 0
         else word_of_nat ((if i < 0 then 2 ^ 63 else 0) + (1023 + e) * 2 ^ 52
                           + (m - 2 ^ e) * 2 ^ (52 - e)))"

definition trunc_double :: "u64 \<Rightarrow> int option" where
  "trunc_double d =
     (let n = unat d; ex = n div 2 ^ 52 mod 2048; frac = n mod 2 ^ 52;
          mag = (if ex < 1023 then 0
                 else if ex < 1075 then (2 ^ 52 + frac) div 2 ^ (1075 - ex)
                 else (2 ^ 52 + frac) * 2 ^ (ex - 1075))
      in if ex = 2047 then None
         else Some (if n div 2 ^ 63 = 0 then int mag else - int mag))"

definition u32_of_double :: "u64 \<Rightarrow> u32 res" where
  "u32_of_double d =
     (case trunc_double d of
        None \<Rightarrow> Inl BadCast
      | Some i \<Rightarrow> if 0 \<le> i \<and> i < 2 ^ 32 then Inr (word_of_int i) else Inl BadCast)"

definition s32_of_double :: "u64 \<Rightarrow> u32 res" where
  "s32_of_double d =
     (case trunc_double d of
        None \<Rightarrow> Inl BadCast
      | Some i \<Rightarrow> if - (2 ^ 31) \<le> i \<and> i < 2 ^ 31 then Inr (word_of_int i) else Inl BadCast)"

section \<open>29-bit integers\<close>

definition S2UInt29 :: "u32 \<Rightarrow> u32 res" where
  "S2UInt29 i =
     (if sint i > 0xFFFFFFF \<or> sint i < - 0x10000000 then Inl Assertion
      else Inr ((i AND 0xFFFFFFF) OR (i AND drop_bit 3 0x80000000)))"

definition U2SInt29 :: "u32 \<Rightarrow> u32 res" where
  "U2SInt29 i =
     (if i > 0x1FFFFFFF then Inl Assertion
      else if i AND 0x10000000 \<noteq> 0 then Inr (i OR 0xFF000000)
      else Inr i)"

type_synonym enc = "nat \<times> byte list"

definition amf_encode_u29 :: "nat \<Rightarrow> u32 \<Rightarrow> enc res" where
  "amf_encode_u29 len val =
     (if val \<le> 0x0000007F then
        (if len < 1 then Inr (0, []) else Inr (1, [ucast (val AND 0x7F)]))
      else if val \<le> 0x00003FFF then
        (if len < 2 then Inr (0, [])
         else Inr (2, [ucast (drop_bit 7 val OR 0x80), ucast (val AND 0x7F)]))
      else if val \<le> 0x001FFFFF then
        (if len < 3 then Inr (0, [])
         else Inr (3, [ucast (drop_bit 14 val OR 0x80),
                       ucast ((drop_bit 7 val AND 0x7F) OR 0x80),
                       ucast (val AND 0x7F)]))
      else if val \<le> 0x1FFFFFFF then
        (if len < 4 then Inr (0, [])
         else Inr (4, [ucast (drop_bit 22 val OR 0x80),
                       ucast ((drop_bit 15 val AND 0x7F) OR 0x80),
                       ucast ((drop_bit 8 val AND 0x7F) OR 0x80),
                       ucast (val AND 0xFF)]))
      else Inl Assertion)"

fun amf_decode_u29_loop :: "nat \<Rightarrow> u32 \<Rightarrow> nat \<Rightarrow> byte list \<Rightarrow> nat \<times> u32 option" where
  "amf_decode_u29_loop i n skip [] = (0, None)"
| "amf_decode_u29_loop i n skip (c # data) =
     (if i \<noteq> 3 then
        (let n = n OR (ucast c AND 0x7F)
         in if c AND 0x80 \<noteq> 0
            then amf_decode_u29_loop (i + 1) (push_bit (if i \<noteq> 2 then 7 else 8) n) (skip + 1) data
            else (skip + 1, Some n))
      else (skip + 1, Some (n OR ucast c)))"

definition amf_decode_u29 :: "byte list \<Rightarrow> nat \<times> u32 option" where
  "amf_decode_u29 data = amf_decode_u29_loop 0 0 0 data"

section \<open>Encoders\<close>

definition double_byte :: "u64 \<Rightarrow> nat \<Rightarrow> byte" where
  "double_byte d i = ucast (drop_bit (8 * i) d)"

text \<open>The eight bytes are stored before the room for them is checked.\<close>

definition amf_encode_double :: "nat \<Rightarrow> u64 \<Rightarrow> enc" where
  "amf_encode_double len d =
     (if len < 1 then (0, [])
      else (let w = amf_code amf_double # map (double_byte d) [7, 6, 5, 4, 3, 2, 1, 0]
            in if len - 1 < 8 then (0, w) else (9, w)))"

definition amf_encode_i29 :: "nat \<Rightarrow> u32 \<Rightarrow> enc res" where
  "amf_encode_i29 len val =
     (if sint val \<ge> 0x1FFFFFFF \<or> sint val \<le> - 0x1FFFFFFF
      then Inr (amf_encode_double len (double_of_int (sint val)))
      else (case S2UInt29 val of
              Inl f \<Rightarrow> Inl f
            | Inr un \<Rightarrow> amf_encode_u29 len ((un AND 0xFFFFFFF) OR drop_bit 3 (un AND 0x80000000))))"

definition amf_encode_array :: "nat \<Rightarrow> u64 \<Rightarrow> enc res" where
  "amf_encode_array len sz =
     (if len < 1 then Inr (0, [])
      else (case amf_encode_u29 (len - 1) (ucast (push_bit 1 sz OR 1)) of
              Inl f \<Rightarrow> Inl f
            | Inr (offset, w) \<Rightarrow>
                if offset = 0 \<or> len - 1 < offset \<or> len - 1 - offset < 1
                then Inr (0, amf_code amf_array # w)
                else Inr (1 + offset + 1, amf_code amf_array # w @ [0x01])))"

definition amf_encode_integer_with_type :: "nat \<Rightarrow> u32 \<Rightarrow> amf_type \<Rightarrow> enc res" where
  "amf_encode_integer_with_type len integer ty =
     (if \<not> (ty = amf_integer \<or> ty = amf_sinteger) then Inl Assertion
      else if integer > AMF_INTEGER_MAX then
        Inr (amf_encode_double len (double_of_int (uint integer)))
      else if len < 1 then Inr (0, [])
      else (case amf_encode_u29 (len - 1) integer of
              Inl f \<Rightarrow> Inl f
            | Inr (offset, w) \<Rightarrow>
                if offset = 0 \<or> len - 1 < offset then Inr (0, amf_code ty # w)
                else Inr (1 + offset, amf_code ty # w)))"

definition amf_encode_integer :: "nat \<Rightarrow> u32 \<Rightarrow> enc res" where
  "amf_encode_integer len integer = amf_encode_integer_with_type len integer amf_integer"

definition amf_encode_sinteger :: "nat \<Rightarrow> u32 \<Rightarrow> enc res" where
  "amf_encode_sinteger len integer =
     (case S2UInt29 integer of
        Inl f \<Rightarrow> Inl f
      | Inr u \<Rightarrow> amf_encode_integer_with_type len u amf_sinteger)"

text \<open>
  Strings and byte arrays share the code after the tag: the length word, the room check and
  the copy. \<open>ptr\<close> is the block the source pointer points into.
\<close>

definition amf_encode_block :: "nat \<Rightarrow> amf_type \<Rightarrow> byte list \<Rightarrow> u64 \<Rightarrow> enc res" where
  "amf_encode_block len ty ptr sz =
     (if len < 1 then Inr (0, [])
      else (case amf_encode_u29 (len - 1) (ucast (push_bit 1 sz OR 1)) of
              Inl f \<Rightarrow> Inl f
            | Inr (offset, w) \<Rightarrow>
                if offset = 0 \<or> len - 1 < offset \<or> len - 1 - offset < unat sz
                then Inr (0, amf_code ty # w)
                else if length ptr < unat sz then Inl OutOfBounds
                else Inr (1 + offset + unat sz, amf_code ty # w @ take (unat sz) ptr)))"

definition amf_encode_string :: "nat \<Rightarrow> byte list \<Rightarrow> u64 \<Rightarrow> enc res" where
  "amf_encode_string len string str_len =
     (if str_len = 0
      then (case c_strlen string of
              Inl f \<Rightarrow> Inl f
            | Inr n \<Rightarrow> amf_encode_block len amf_string string (word_of_nat n))
      else amf_encode_block len amf_string string str_len)"

definition amf_encode_byte_array :: "nat \<Rightarrow> byte list \<Rightarrow> u64 \<Rightarrow> enc res" where
  "amf_encode_byte_array len ptr sz = amf_encode_block len amf_byte_array ptr sz"

definition amf_encode_undefine :: "nat \<Rightarrow> enc" where
  "amf_encode_undefine dlen = (if dlen < 1 then (0, []) else (1, [amf_code amf_undefine]))"

definition amf_encode_null :: "nat \<Rightarrow> enc" where
  "amf_encode_null dlen = (if dlen < 1 then (0, []) else (1, [amf_code amf_null]))"

definition amf_encode_false :: "nat \<Rightarrow> enc" where
  "amf_encode_false dlen = (if dlen < 1 then (0, []) else (1, [amf_code amf_false]))"

definition amf_encode_true :: "nat \<Rightarrow> enc" where
  "amf_encode_true dlen = (if dlen < 1 then (0, []) else (1, [amf_code amf_true]))"

section \<open>Decoders\<close>

definition amf_decode_i29 :: "byte list \<Rightarrow> (nat \<times> u32) res" where
  "amf_decode_i29 data =
     (case amf_decode_u29 data of
        (s, u) \<Rightarrow> (case U2SInt29 (case u of None \<Rightarrow> 0 | Some u \<Rightarrow> u) of
                     Inl f \<Rightarrow> Inl f
                   | Inr v \<Rightarrow> Inr (s, v)))"

definition double_of_bytes :: "byte list \<Rightarrow> u64" where
  "double_of_bytes c =
     (ucast (c ! 0) OR push_bit 8 (ucast (c ! 1)) OR push_bit 16 (ucast (c ! 2))
      OR push_bit 24 (ucast (c ! 3)) OR push_bit 32 (ucast (c ! 4)) OR push_bit 40 (ucast (c ! 5))
      OR push_bit 48 (ucast (c ! 6)) OR push_bit 56 (ucast (c ! 7)))"

definition amf_decode_double :: "byte list \<Rightarrow> nat \<times> u64 option" where
  "amf_decode_double data =
     (if length data < 9 then (0, None)
      else (9, Some (double_of_bytes
             [data ! 8, data ! 7, data ! 6, data ! 5, data ! 4, data ! 3, data ! 2, data ! 1])))"

definition amf_decode_integer :: "byte list \<Rightarrow> nat \<times> u32 option" where
  "amf_decode_integer data =
     (if length data = 1 \<or> length data < 1 then (0, None)
      else (case amf_decode_u29 (drop 1 data) of
              (cur_len, v) \<Rightarrow>
                if cur_len = 0 \<or> length data - 1 < cur_len then (0, v)
                else (1 + cur_len, v)))"

definition amf_decode_sinteger :: "byte list \<Rightarrow> (nat \<times> u32) res" where
  "amf_decode_sinteger data =
     (case amf_decode_integer data of
        (s, u) \<Rightarrow> (case U2SInt29 (case u of None \<Rightarrow> 0 | Some u \<Rightarrow> u) of
                     Inl f \<Rightarrow> Inl f
                   | Inr v \<Rightarrow> Inr (s, v)))"

text \<open>
  \<open>string_ref[1024]\<close> and \<open>cur_ref\<close>: the strings decoded so far in the current message, as the
  list of the referenced bytes. The bound check of the table is commented out in the code, so
  the 1025th entry is an out-of-bounds store.
\<close>

type_synonym string_ref = "byte list list"

definition STRING_REF_MAX :: nat where
  "STRING_REF_MAX = 1024"

text \<open>The out parameter \<open>slice\<close> may be null; three error branches write through it anyway.\<close>

definition amf_decode_string ::
  "string_ref \<Rightarrow> byte list \<Rightarrow> bool \<Rightarrow> (nat \<times> byte list option \<times> string_ref) res" where
  "amf_decode_string refs data has_slice =
     (let fail = (if has_slice then Inr (0, Some [], refs) else Inl NullDeref)
      in if length data = 0 then fail
         else if data ! 0 \<noteq> amf_code amf_string then Inl Assertion
         else (case amf_decode_u29 (drop 1 data) of
                 (cur_len, string_size) \<Rightarrow>
                   if cur_len = 0 then fail
                   else if length data - 1 < cur_len then Inr (0, None, refs)
                   else (let string_size = (case string_size of None \<Rightarrow> 0 | Some n \<Rightarrow> n);
                             skip = 1 + cur_len; data' = drop skip data
                         in if string_size AND 1 = 0 then
                              (let ref = unat (drop_bit 1 string_size)
                               in if ref \<ge> length refs then fail
                                  else Inr (skip, (if has_slice then Some (refs ! ref) else None), refs))
                            else
                              (let string_size = unat (drop_bit 1 string_size)
                               in if length data' < string_size then Inr (0, None, refs)
                                  else if length refs \<ge> STRING_REF_MAX then Inl OutOfBounds
                                  else Inr (skip + string_size,
                                            (if has_slice then Some (take string_size data') else None),
                                            refs @ [take string_size data'])))))"

definition amf_decode_byte_array :: "byte list \<Rightarrow> bool \<Rightarrow> (nat \<times> byte list option) res" where
  "amf_decode_byte_array data has_slice =
     (let fail = (if has_slice then Inr (0, Some []) else Inl NullDeref)
      in if length data = 0 then fail
         else if data ! 0 \<noteq> amf_code amf_byte_array then Inl Assertion
         else (case amf_decode_u29 (drop 1 data) of
                 (cur_len, string_size) \<Rightarrow>
                   if cur_len = 0 then fail
                   else if length data - 1 < cur_len then Inr (0, None)
                   else (let string_size = unat (drop_bit 1 (case string_size of None \<Rightarrow> 0 | Some n \<Rightarrow> n));
                             skip = 1 + cur_len; data' = drop skip data
                         in if length data' < string_size then Inr (0, None)
                            else Inr (skip + string_size,
                                      (if has_slice then Some (take string_size data') else None)))))"

definition amf_decode_undefine :: "byte list \<Rightarrow> nat" where
  "amf_decode_undefine data = (if length data = 0 then 0 else 1)"

definition amf_decode_null :: "byte list \<Rightarrow> nat" where
  "amf_decode_null data = (if length data < 1 then 0 else 1)"

definition amf_decode_false :: "byte list \<Rightarrow> nat" where
  "amf_decode_false data = (if length data < 1 then 0 else 1)"

definition amf_decode_true :: "byte list \<Rightarrow> nat" where
  "amf_decode_true data = (if length data < 1 then 0 else 1)"

definition amf_decode_array :: "byte list \<Rightarrow> (nat \<times> nat option) res" where
  "amf_decode_array data =
     (if length data = 0 then Inr (0, None)
      else if data ! 0 \<noteq> amf_code amf_array then Inl Assertion
      else (case amf_decode_u29 (drop 1 data) of
              (cur_len, array_size) \<Rightarrow>
                if cur_len = 0 \<or> length data - 1 < cur_len then Inr (0, None)
                else (let array_size = (case array_size of None \<Rightarrow> 0 | Some n \<Rightarrow> n);
                          data' = drop (1 + cur_len) data
                      in if array_size AND 1 = 0 then Inr (0, None)
                         else if length data' = 0 then Inr (0, None)
                         else if data' ! 0 \<noteq> 1 then Inr (0, None)
                         else Inr (1 + cur_len + 1, Some (unat (drop_bit 1 array_size))))))"

section \<open>Encoded lengths\<close>

definition amf_get_length_u29 :: "u32 \<Rightarrow> nat res" where
  "amf_get_length_u29 val =
     (if val \<le> 0x0000007F then Inr 1
      else if val \<le> 0x00003FFF then Inr 2
      else if val \<le> 0x001FFFFF then Inr 3
      else if val \<le> 0x1FFFFFFF then Inr 4
      else Inl Assertion)"

definition amf_get_length_i29 :: "u32 \<Rightarrow> nat res" where
  "amf_get_length_i29 val =
     (case S2UInt29 val of
        Inl f \<Rightarrow> Inl f
      | Inr un \<Rightarrow> amf_get_length_u29 ((un AND 0xFFFFFFF) OR drop_bit 3 (un AND 0x80000000)))"

definition amf_get_length_array :: "u64 \<Rightarrow> nat res" where
  "amf_get_length_array sz =
     (case amf_get_length_u29 (ucast (push_bit 1 sz OR 1)) of
        Inl f \<Rightarrow> Inl f
      | Inr n \<Rightarrow> Inr (1 + n + 1))"

definition amf_get_length_double :: nat where
  "amf_get_length_double = 9"

definition amf_get_length_integer :: "u32 \<Rightarrow> nat res" where
  "amf_get_length_integer integer =
     (if integer > 0x1FFFFFFF then Inr amf_get_length_double
      else (case amf_get_length_u29 integer of Inl f \<Rightarrow> Inl f | Inr n \<Rightarrow> Inr (1 + n)))"

definition amf_get_length_sinteger :: "u32 \<Rightarrow> nat res" where
  "amf_get_length_sinteger integer =
     (case S2UInt29 integer of Inl f \<Rightarrow> Inl f | Inr u \<Rightarrow> amf_get_length_integer u)"

definition amf_get_length_string :: "u64 \<Rightarrow> nat res" where
  "amf_get_length_string str_len =
     (case amf_get_length_u29 (ucast (push_bit 1 str_len OR 1)) of
        Inl f \<Rightarrow> Inl f
      | Inr n \<Rightarrow> Inr (1 + n + unat str_len))"

definition amf_get_length_byte_array :: "u64 \<Rightarrow> nat res" where
  "amf_get_length_byte_array str_len =
     (case amf_get_length_u29 (ucast (push_bit 1 str_len OR 1)) of
        Inl f \<Rightarrow> Inl f
      | Inr n \<Rightarrow> Inr (1 + n + unat str_len))"

text \<open>The bits a partial result of the decoding loop can have in iteration \<open>i\<close>.\<close>

definition u29_width :: "nat \<Rightarrow> nat" where
  "u29_width i = (if i < 3 then 7 * (i + 1) else 29)"

section \<open>Facts about the primitives\<close>

lemma amf_u29_roundtrip:
  assumes "val \<le> 0x1FFFFFFF" and "amf_encode_u29 len val = Inr (k, w)" and "k \<noteq> 0"
  shows "amf_decode_u29 (w @ rest) = (k, Some val)"
proof -
  consider (1) "uint val < 2 ^ 7" | (2) "\<not> val \<le> 0x7F" "uint val < 2 ^ 14"
    | (3) "\<not> val \<le> 0x7F" "\<not> val \<le> 0x3FFF" "uint val < 2 ^ 21"
    | (4) "\<not> val \<le> 0x7F" "\<not> val \<le> 0x3FFF" "\<not> val \<le> 0x1FFFFF" "uint val < 2 ^ 29"
    using assms(1) by (simp add: word_le_def not_le) linarith
  then show ?thesis
  proof cases
    case 1
    have nb: "\<not> bit val n" if "7 \<le> n" for n using no_bit_from [OF 1 that] .
    have "val \<le> 0x7F" using 1 by (simp add: word_le_def)
    moreover have "ucast (ucast (val AND 0x7F) :: byte) AND 0x7F = val"
      by (intro word32_eqI) (simp only: upt_32, simp add: bit_simps nb)
    ultimately show ?thesis using assms
      by (auto simp: amf_encode_u29_def amf_decode_u29_def bit_simps nb split: if_splits)
  next
    case 2
    have nb: "\<not> bit val n" if "14 \<le> n" for n using no_bit_from [OF 2(2) that] .
    have "val \<le> 0x3FFF" using 2 by (simp add: word_le_def)
    moreover have "push_bit 7 (ucast (ucast (drop_bit 7 val OR 0x80) :: byte) AND 0x7F)
        OR (ucast (ucast (val AND 0x7F) :: byte) AND 0x7F) = val"
      by (intro word32_eqI) (simp only: upt_32, simp add: bit_simps nb)
    ultimately show ?thesis using assms 2
      by (auto simp: amf_encode_u29_def amf_decode_u29_def bit_simps nb split: if_splits)
  next
    case 3
    have nb: "\<not> bit val n" if "21 \<le> n" for n using no_bit_from [OF 3(3) that] .
    have "val \<le> 0x1FFFFF" using 3 by (simp add: word_le_def)
    moreover have "push_bit 7 (push_bit 7 (ucast (ucast (drop_bit 14 val OR 0x80) :: byte) AND 0x7F)
        OR (ucast (ucast ((drop_bit 7 val AND 0x7F) OR 0x80) :: byte) AND 0x7F))
        OR (ucast (ucast (val AND 0x7F) :: byte) AND 0x7F) = val"
      by (intro word32_eqI) (simp only: upt_32, simp add: bit_simps nb)
    ultimately show ?thesis using assms 3
      by (auto simp: amf_encode_u29_def amf_decode_u29_def bit_simps nb split: if_splits)
  next
    case 4
    have nb: "\<not> bit val n" if "29 \<le> n" for n using no_bit_from [OF 4(4) that] .
    have "push_bit 8 (push_bit 7 (push_bit 7 (ucast (ucast (drop_bit 22 val OR 0x80) :: byte) AND 0x7F)
        OR (ucast (ucast ((drop_bit 15 val AND 0x7F) OR 0x80) :: byte) AND 0x7F))
        OR (ucast (ucast ((drop_bit 8 val AND 0x7F) OR 0x80) :: byte) AND 0x7F))
        OR ucast (ucast (val AND 0xFF) :: byte) = val"
      by (intro word32_eqI) (simp only: upt_32, simp add: bit_simps nb)
    with assms 4 show ?thesis
      by (auto simp: amf_encode_u29_def amf_decode_u29_def bit_simps nb split: if_splits)
  qed
qed

lemma amf_encode_u29_length:
  assumes "amf_get_length_u29 val = Inr n"
  shows "0 < n" and "n \<le> 4" and "val \<le> 0x1FFFFFFF"
    and "amf_encode_u29 len val =
      Inr (if len < n then (0, []) else (n, snd (projr (amf_encode_u29 4 val))))"
    and "length (snd (projr (amf_encode_u29 4 val))) = n"
  using assms by (auto simp: amf_get_length_u29_def amf_encode_u29_def word_le_def split: if_splits)

lemma amf_get_length_u29_ok: "val \<le> 0x1FFFFFFF \<Longrightarrow> \<exists>n. amf_get_length_u29 val = Inr n"
  by (auto simp: amf_get_length_u29_def)

lemma amf_decode_u29_loop_bits:
  assumes "amf_decode_u29_loop i n skip data = (s, Some v)" and "i \<le> 3"
    and "\<And>m. bit n m \<Longrightarrow> m < u29_width i" and "bit v m"
  shows "m < 29"
  using assms
proof (induction i n skip data arbitrary: s rule: amf_decode_u29_loop.induct)
  case (1 i n skip)
  then show ?case by simp
next
  case (2 i n skip c data)
  let ?n = "n OR (ucast c AND 0x7F)"
  have m7: "(0x7F :: u32) = mask 7" by (simp add: mask_eq_exp_minus_1)
  have n': "k < u29_width i" if "bit ?n k" for k
  proof (cases "bit n k")
    case False
    with that have "bit (ucast c AND 0x7F :: u32) k" by (simp add: bit_simps)
    then have "k < 7" by (simp add: bit_and_iff m7 bit_mask_iff)
    then show ?thesis by (simp add: u29_width_def)
  qed (rule 2(4))
  show ?case
  proof (cases "i \<noteq> 3 \<and> bit c 7")
    case True
    show ?thesis 
    proof (rule "2.IH" [of ?n s])
      fix k assume "bit (push_bit (if i \<noteq> 2 then 7 else 8) ?n) k"
      then have "bit ?n (k - (if i \<noteq> 2 then 7 else 8))" "(if i \<noteq> 2 then 7 else 8) \<le> k"
        unfolding bit_push_bit_iff by blast+
      then show "k < u29_width (i + 1)" using n' True 2(3)
        by (force simp: u29_width_def split: if_splits)
    qed (use True 2 in auto)
  next
    case False
    have c8: "k < 8" if "bit (ucast c :: u32) k" for k
      using that bit_imp_le_length [of c k] by (simp add: bit_simps)
    from False 2(2) consider "v = ?n" | "i = 3" "v = n OR ucast c"
      by (auto split: if_splits)
    then show ?thesis using 2(3,4,5) n' c8
      by cases (force simp: u29_width_def bit_or_iff split: if_splits)+
  qed
qed

lemma amf_decode_u29_loop_skip:
  assumes "amf_decode_u29_loop i n skip data = (s, v)" and "i \<le> 3"
  shows "(v = None \<longrightarrow> s = 0) \<and> (v \<noteq> None \<longrightarrow> skip < s \<and> s \<le> skip + length data \<and> s + i \<le> skip + 4)"
  using assms
  by (induction i n skip data arbitrary: s v rule: amf_decode_u29_loop.induct)
     (auto simp: Let_def split: if_splits; fastforce)+

lemma amf_decode_u29_skip:
  assumes "amf_decode_u29 data = (s, v)"
  shows "s \<le> length data" and "s \<le> 4" and "s = 0 \<longleftrightarrow> v = None"
  using amf_decode_u29_loop_skip [of 0 0 0 data s v] assms
  by (auto simp: amf_decode_u29_def)

lemma amf_decode_u29_range:
  assumes "amf_decode_u29 data = (s, Some v)"
  shows "v \<le> 0x1FFFFFFF"
proof -
  have "uint v < 2 ^ 29"
    using amf_decode_u29_loop_bits [of 0 0 0 data s v] assms
    by (intro uint_less_if_no_bits) (force simp: amf_decode_u29_def)
  then show ?thesis by (simp add: word_le_def)
qed

lemma S2UInt29_bits:
  assumes "S2UInt29 i = Inr u"
  shows "bit u n \<longleftrightarrow> n < 29 \<and> bit i n"
proof -
  have "u = i AND mask 29" using assms
    by (simp add: S2UInt29_def mask_eq_exp_minus_1 flip: bit.conj_disj_distrib split: if_splits)
  then show ?thesis by (auto simp: bit_simps)
qed

text \<open>The sign extension sets bits 24 to 31, so it is right from \<open>-0x1000000\<close> on only.\<close>

lemma sint29_roundtrip_iff:
  assumes "S2UInt29 i = Inr u"
  shows "U2SInt29 u = Inr i \<longleftrightarrow> - 0x1000000 \<le> sint i"
proof -
  note ub = S2UInt29_bits [OF assms]
  have "uint u < 2 ^ 29" by (rule uint_less_if_no_bits) (simp add: ub)
  then have u29: "\<not> u > 0x1FFFFFFF" by (simp add: word_less_def)
  have range: "sint i \<le> 0xFFFFFFF" "- 0x10000000 \<le> sint i"
    using assms by (auto simp: S2UInt29_def split: if_splits)
  show ?thesis
  proof (cases i rule: sint_cases32)
    case 1
    then have "uint i < 2 ^ 28" using range by simp
    then have nb: "\<not> bit i n" if "28 \<le> n" for n using that by (rule no_bit_from)
    have "bit u n = bit i n" for n
      using ub [of n] nb [of n] by (cases "n < 28") auto
    then have "u = i" by (intro bit_word_eqI) simp
    then show ?thesis using u29 1 nb by (auto simp: U2SInt29_def)
  next
    case 2
    then have "uint (NOT i) < 2 ^ 28" using range by simp
    then have nb: "\<not> bit (NOT i) n" if "28 \<le> n" for n using that by (rule no_bit_from)
    then have sb: "bit i n" if "28 \<le> n" "n < 32" for n using that by (force simp: bit_simps)
    have ff: "(0xFF000000 :: u32) = push_bit 24 (mask 8)" by (simp add: mask_eq_exp_minus_1)
    have "U2SInt29 u = Inr (u OR 0xFF000000)"
      using u29 ub sb by (simp add: U2SInt29_def)
    then have "U2SInt29 u = Inr i \<longleftrightarrow> (\<forall>n. 24 \<le> n \<longrightarrow> n < 32 \<longrightarrow> bit i n)"
      using sb ub by (auto simp: ff bit_eq_iff bit_simps)
    also have "\<dots> \<longleftrightarrow> (\<forall>n\<ge>24. \<not> bit (NOT i) n)"
      by (auto simp: bit_simps dest: bit_imp_le_length)
    also have "\<dots> \<longleftrightarrow> uint (NOT i) < 2 ^ 24"
      using no_bit_from uint_less_if_no_bits by blast
    finally show ?thesis using 2 by auto
  qed
qed

declare msb_index.simps [simp del]

lemma double_bytes_roundtrip:
  "double_of_bytes [double_byte d 0, double_byte d 1, double_byte d 2, double_byte d 3,
     double_byte d 4, double_byte d 5, double_byte d 6, double_byte d 7] = d"
  by (intro word64_eqI)
    (simp only: upt_64, simp add: double_of_bytes_def double_byte_def bit_simps)

lemma msb_index_bounds: "0 < n \<Longrightarrow> 2 ^ msb_index n \<le> n \<and> n < 2 ^ Suc (msb_index n)"
proof (induction n rule: msb_index.induct)
  case (1 n)
  show ?case
  proof (cases "n \<le> 1")
    case True
    with 1 show ?thesis by (simp add: msb_index.simps [of n])
  next
    case False
    with 1 have "2 ^ msb_index (n div 2) \<le> n div 2 \<and> n div 2 < 2 ^ Suc (msb_index (n div 2))" by simp
    with False show ?thesis by (auto simp: msb_index.simps [of n])
  qed
qed

lemma trunc_double_of_int:
  assumes "\<bar>i\<bar> < 2 ^ 53"
  shows "trunc_double (double_of_int i) = Some i"
proof (cases "i = 0")
  case True
  then show ?thesis by (simp add: trunc_double_def double_of_int_def)
next
  case False
  define m where "m = nat \<bar>i\<bar>"
  define e where "e = msb_index m"
  define f where "f = (m - 2 ^ e) * 2 ^ (52 - e)"
  define s :: nat where "s = (if i < 0 then 1 else 0)"
  have m: "0 < m" "m < 2 ^ 53" using False assms by (auto simp: m_def)
  have e: "2 ^ e \<le> m" "m < 2 ^ Suc e" using msb_index_bounds [OF m(1)] by (auto simp: e_def)
  have e52: "e \<le> 52"
  proof (rule ccontr)
    assume "\<not> e \<le> 52"
    then have "(2::nat) ^ 53 \<le> 2 ^ e" by (intro power_increasing) auto
    with e m show False by simp
  qed
  have pe: "(2::nat) ^ e * 2 ^ (52 - e) = 2 ^ 52" using e52 by (simp flip: power_add)
  have "m - 2 ^ e < 2 ^ e" using e by simp
  then have f: "f < 2 ^ 52" unfolding f_def using pe by (metis mult_less_mono1 zero_less_numeral zero_less_power)
  have mant: "2 ^ 52 + f = m * 2 ^ (52 - e)"
  proof -
    have "2 ^ 52 \<le> m * 2 ^ (52 - e)" using mult_le_mono1 [OF e(1)] pe by metis
    then show ?thesis using pe by (simp add: f_def diff_mult_distrib)
  qed
  define n where "n = s * 2 ^ 63 + (1023 + e) * 2 ^ 52 + f"
  have d: "double_of_int i = word_of_nat n"
    using False by (auto simp: double_of_int_def Let_def n_def s_def f_def e_def m_def)
  have n64: "n < 2 ^ 64" using f e52 by (simp add: n_def s_def)
  have u: "unat (double_of_int i) = n" using n64 by (simp add: d unsigned_of_nat take_bit_nat_eq_self)
  have n': "n = f + (s * 2048 + (1023 + e)) * 2 ^ 52" by (simp add: n_def)
  have n52: "n div 2 ^ 52 = s * 2048 + (1023 + e)"
    unfolding n' using f by (subst div_mult_self1) auto
  have n1: "n div 2 ^ 52 mod 2048 = 1023 + e" unfolding n52 using e52 by (simp add: mod_mult_self3)
  have n2: "n mod 2 ^ 52 = f" unfolding n' using f by (subst mod_mult_self1) simp
  have "n div 2 ^ 63 = n div 2 ^ 52 div 2048" by (simp flip: div_mult2_eq)
  then have n3: "n div 2 ^ 63 = s" unfolding n52 using e52 by simp
  have mag: "(if 1023 + e < 1023 then 0 else if 1023 + e < 1075 then (2 ^ 52 + f) div 2 ^ (1075 - (1023 + e))
      else (2 ^ 52 + f) * 2 ^ (1023 + e - 1075)) = m"
    using e52 mant by (simp add: le_Suc_eq)
  show ?thesis
    unfolding trunc_double_def u n1 n2 n3 Let_def mag using e52 by (auto simp: s_def m_def)
qed

lemma u32_of_double_of_u32: "u32_of_double (double_of_int (uint (v :: u32))) = Inr v"
  using uint_bounded [of v] by (simp add: u32_of_double_def trunc_double_of_int)

lemma s32_of_double_of_s32: "s32_of_double (double_of_int (sint (v :: u32))) = Inr v"
proof -
  have "- (2 ^ 31) \<le> sint v" "sint v < 2 ^ 31"
    using sint_greater_eq [of v] sint_less [of v] by simp_all
  then show ?thesis by (simp add: s32_of_double_def trunc_double_of_int)
qed

end
