(* ===== verification/AmfValue.thy ===== *)
theory AmfValue
  imports AmfCodec
begin

unbundle bit_operations_syntax

text \<open>
  The AMF value tree of \<open>framework/amf.c\<close> (\<open>struct amf_value\<close>): constructors, accessors, the
  growing child array, the encoder \<open>amf_encode\<close> with its length function, the reader
  \<open>amf_read\<close> and \<open>amf_skip\<close>.

  \<open>amf_value\<close> has one constructor per tag the code gives a value. The first argument of a
  scalar is the field \<open>size\<close>, which the setters leave as they find it; the \<open>size\<close> of a string
  or byte array is the number of its bytes; an array has its \<open>size\<close> and its \<open>child\<close> block,
  whose length is \<open>alloc_size\<close> and whose entries may be null.
\<close>

section \<open>Values\<close>

datatype amf_value =
    AVundefine nat | AVnull nat | AVfalse nat | AVtrue nat
  | AVinteger nat u32 | AVsinteger nat u32 | AVdouble nat u64
  | AVstring "byte list" | AVbytes "byte list"
  | AVarray nat "amf_value option list"

definition amf_new :: amf_value where
  "amf_new = AVundefine 0"

definition amf_new_integer :: "u32 \<Rightarrow> amf_value" where
  "amf_new_integer integer = AVinteger 1 integer"

definition amf_new_sinteger :: "u32 \<Rightarrow> amf_value" where
  "amf_new_sinteger integer = AVsinteger 1 integer"

text \<open>The source block must hold the bytes that are copied; size 0 asks for \<open>strlen\<close>.\<close>

definition amf_new_string :: "byte list \<Rightarrow> nat \<Rightarrow> amf_value res" where
  "amf_new_string string sz =
     (case (if sz = 0 then c_strlen string else Inr sz) of
        Inl f \<Rightarrow> Inl f
      | Inr n \<Rightarrow> if length string < n then Inl OutOfBounds else Inr (AVstring (take n string)))"

definition amf_new_byte_array :: "byte list \<Rightarrow> nat \<Rightarrow> amf_value res" where
  "amf_new_byte_array ptr sz =
     (if length ptr < sz then Inl OutOfBounds else Inr (AVbytes (take sz ptr)))"

definition amf_new_array :: "nat \<Rightarrow> amf_value" where
  "amf_new_array sz = AVarray sz (replicate (if sz = 0 then 32 else sz) None)"

definition amf_new_double :: "u64 \<Rightarrow> amf_value" where
  "amf_new_double d = AVdouble 1 d"

definition amf_new_null :: amf_value where
  "amf_new_null = AVnull 1"

definition amf_new_true :: amf_value where
  "amf_new_true = AVtrue 1"

definition amf_new_false :: amf_value where
  "amf_new_false = AVfalse 1"

section \<open>Accessors\<close>

text \<open>Each accessor takes a pointer that may be null.\<close>

fun amf_size :: "amf_value option \<Rightarrow> nat" where
  "amf_size None = 0"
| "amf_size (Some (AVundefine n)) = n"
| "amf_size (Some (AVnull n)) = n"
| "amf_size (Some (AVfalse n)) = n"
| "amf_size (Some (AVtrue n)) = n"
| "amf_size (Some (AVinteger n _)) = n"
| "amf_size (Some (AVsinteger n _)) = n"
| "amf_size (Some (AVdouble n _)) = n"
| "amf_size (Some (AVstring s)) = length s"
| "amf_size (Some (AVbytes s)) = length s"
| "amf_size (Some (AVarray n _)) = n"

fun amf_type_of :: "amf_value option \<Rightarrow> amf_type" where
  "amf_type_of None = amf_undefine"
| "amf_type_of (Some (AVundefine _)) = amf_undefine"
| "amf_type_of (Some (AVnull _)) = amf_null"
| "amf_type_of (Some (AVfalse _)) = amf_false"
| "amf_type_of (Some (AVtrue _)) = amf_true"
| "amf_type_of (Some (AVinteger _ _)) = amf_integer"
| "amf_type_of (Some (AVsinteger _ _)) = amf_sinteger"
| "amf_type_of (Some (AVdouble _ _)) = amf_double"
| "amf_type_of (Some (AVstring _)) = amf_string"
| "amf_type_of (Some (AVbytes _)) = amf_byte_array"
| "amf_type_of (Some (AVarray _ _)) = amf_array"

fun amf_get :: "amf_value option \<Rightarrow> nat \<Rightarrow> amf_value option res" where
  "amf_get (Some (AVarray n child)) pos =
     (if pos < n then (if pos < length child then Inr (child ! pos) else Inl OutOfBounds)
      else Inr None)"
| "amf_get _ pos = Inr None"

fun amf_get_integer :: "amf_value option \<Rightarrow> u32 res" where
  "amf_get_integer (Some (AVinteger _ i)) = Inr i"
| "amf_get_integer (Some (AVsinteger _ i)) = Inr i"
| "amf_get_integer (Some (AVdouble _ d)) = u32_of_double d"
| "amf_get_integer (Some (AVtrue _)) = Inr 1"
| "amf_get_integer _ = Inr 0"

fun amf_get_sinteger :: "amf_value option \<Rightarrow> u32 res" where
  "amf_get_sinteger (Some (AVinteger _ i)) = Inr i"
| "amf_get_sinteger (Some (AVsinteger _ i)) = Inr i"
| "amf_get_sinteger (Some (AVdouble _ d)) = s32_of_double d"
| "amf_get_sinteger (Some (AVtrue _)) = Inr 1"
| "amf_get_sinteger _ = Inr 0"

text \<open>The pointer returned for a string points at its bytes and a terminating zero, the one
  for a byte array at its bytes alone.\<close>

fun amf_get_string :: "amf_value option \<Rightarrow> byte list option" where
  "amf_get_string (Some (AVstring s)) = Some (s @ [0])"
| "amf_get_string (Some (AVbytes s)) = Some s"
| "amf_get_string _ = None"

fun amf_get_byte_array :: "amf_value option \<Rightarrow> (byte list \<times> nat) option" where
  "amf_get_byte_array (Some (AVbytes s)) = Some (s, length s)"
| "amf_get_byte_array (Some (AVstring s)) = Some (s @ [0], length s)"
| "amf_get_byte_array _ = None"

fun amf_get_double :: "amf_value option \<Rightarrow> u64" where
  "amf_get_double (Some (AVinteger _ i)) = double_of_int (uint i)"
| "amf_get_double (Some (AVsinteger _ i)) = double_of_int (sint i)"
| "amf_get_double (Some (AVdouble _ d)) = d"
| "amf_get_double (Some (AVtrue _)) = double_of_int 1"
| "amf_get_double _ = double_of_int 0"

section \<open>Child arrays\<close>

fun amf_resize :: "amf_value \<Rightarrow> nat \<Rightarrow> amf_value" where
  "amf_resize (AVarray n child) sz = AVarray n (take n (take sz child) @ replicate (sz - n) None)"
| "amf_resize v sz = v"

fun amf_set :: "amf_value \<Rightarrow> nat \<Rightarrow> amf_value option \<Rightarrow> amf_value \<times> amf_value option" where
  "amf_set (AVarray n child) pos v =
     (if pos < length child
      then (AVarray (if n < pos + 1 then pos + 1 else n) (child[pos := v]), child ! pos)
      else (AVarray n child, None))"
| "amf_set a pos v = (a, None)"

text \<open>\<open>amf_push\<close> reads \<open>alloc_size\<close>, which only an array has.\<close>

fun amf_push :: "amf_value \<Rightarrow> amf_value option \<Rightarrow> amf_value res" where
  "amf_push (AVarray n child) v =
     (let a = (if n = length child
               then (if length child = 0 then amf_resize (AVarray n child) 8
                     else amf_resize (AVarray n child) (length child * 2))
               else AVarray n child)
      in case a of
           AVarray n' child' \<Rightarrow> Inr (fst (amf_set (AVarray (n' + 1) child') n' v))
         | _ \<Rightarrow> Inl BadUnion)"
| "amf_push _ v = Inl BadUnion"

section \<open>Setters\<close>

definition amf_set_null :: "amf_value \<Rightarrow> amf_value" where
  "amf_set_null v = AVnull (amf_size (Some v))"

definition amf_set_integer :: "amf_value \<Rightarrow> u32 \<Rightarrow> amf_value" where
  "amf_set_integer v integer = AVinteger (amf_size (Some (amf_set_null v))) integer"

definition amf_set_sinteger :: "amf_value \<Rightarrow> u32 \<Rightarrow> amf_value" where
  "amf_set_sinteger v integer = AVsinteger (amf_size (Some (amf_set_null v))) integer"

definition amf_set_double :: "amf_value \<Rightarrow> u64 \<Rightarrow> amf_value" where
  "amf_set_double v d = AVdouble (amf_size (Some (amf_set_null v))) d"

section \<open>The encoder\<close>

text \<open>
  The children of an array are encoded one after another at \<open>data + wlen\<close>, each with the room
  \<open>dlen\<close> of the whole message; a child that fails adds nothing to \<open>wlen\<close> and the next one
  overwrites what it stored.
\<close>

fun amf_encode :: "nat \<Rightarrow> amf_value option \<Rightarrow> enc res"
  and amf_encode_children :: "nat \<Rightarrow> nat \<Rightarrow> amf_value option list \<Rightarrow> enc \<Rightarrow> enc res" where
  "amf_encode dlen None = Inr (amf_encode_null dlen)"
| "amf_encode dlen (Some (AVundefine _)) = Inr (amf_encode_undefine dlen)"
| "amf_encode dlen (Some (AVnull _)) = Inr (amf_encode_null dlen)"
| "amf_encode dlen (Some (AVfalse _)) = Inr (amf_encode_false dlen)"
| "amf_encode dlen (Some (AVtrue _)) = Inr (amf_encode_true dlen)"
| "amf_encode dlen (Some (AVinteger _ i)) = amf_encode_integer dlen i"
| "amf_encode dlen (Some (AVsinteger _ i)) = amf_encode_sinteger dlen i"
| "amf_encode dlen (Some (AVstring s)) =
     amf_encode_string dlen (s @ [0]) (word_of_nat (length s))"
| "amf_encode dlen (Some (AVdouble _ d)) = Inr (amf_encode_double dlen d)"
| "amf_encode dlen (Some (AVbytes s)) = amf_encode_byte_array dlen s (word_of_nat (length s))"
| "amf_encode dlen (Some (AVarray n child)) =
     (case amf_encode_array dlen (word_of_nat n) of
        Inl f \<Rightarrow> Inl f
      | Inr e \<Rightarrow> amf_encode_children dlen n child e)"
| "amf_encode_children dlen 0 child e = Inr e"
| "amf_encode_children dlen (Suc n) [] e = Inl OutOfBounds"
| "amf_encode_children dlen (Suc n) (c # cs) (wlen, m) =
     (case amf_encode dlen c of
        Inl f \<Rightarrow> Inl f
      | Inr (k, w) \<Rightarrow> amf_encode_children dlen n cs (wlen + k, store_at m wlen w))"

fun amf_get_encode_length :: "amf_value option \<Rightarrow> nat res"
  and amf_get_length_children :: "nat \<Rightarrow> amf_value option list \<Rightarrow> nat \<Rightarrow> nat res" where
  "amf_get_encode_length None = Inr 1"
| "amf_get_encode_length (Some (AVundefine _)) = Inr 1"
| "amf_get_encode_length (Some (AVnull _)) = Inr 1"
| "amf_get_encode_length (Some (AVfalse _)) = Inr 1"
| "amf_get_encode_length (Some (AVtrue _)) = Inr 1"
| "amf_get_encode_length (Some (AVinteger _ i)) = amf_get_length_integer i"
| "amf_get_encode_length (Some (AVsinteger _ i)) = amf_get_length_sinteger i"
| "amf_get_encode_length (Some (AVstring s)) = amf_get_length_string (word_of_nat (length s))"
| "amf_get_encode_length (Some (AVdouble _ d)) = Inr amf_get_length_double"
| "amf_get_encode_length (Some (AVbytes s)) =
     amf_get_length_byte_array (word_of_nat (length s))"
| "amf_get_encode_length (Some (AVarray n child)) =
     (case amf_get_length_array (word_of_nat n) of
        Inl f \<Rightarrow> Inl f
      | Inr k \<Rightarrow> amf_get_length_children n child k)"
| "amf_get_length_children 0 child wlen = Inr wlen"
| "amf_get_length_children (Suc n) [] wlen = Inl OutOfBounds"
| "amf_get_length_children (Suc n) (c # cs) wlen =
     (case amf_get_encode_length c of
        Inl f \<Rightarrow> Inl f
      | Inr k \<Rightarrow> amf_get_length_children n cs (wlen + k))"

section \<open>The reader\<close>

text \<open>
  A reader returns the new value with the number of bytes it reports, or null; the table of
  string references is threaded through. A reader that would copy an out parameter the
  decoder never wrote is the fault \<open>Uninitialised\<close>.
\<close>

type_synonym rd = "(amf_value \<times> nat) option \<times> string_ref"

definition read_integer :: "byte list \<Rightarrow> (amf_value \<times> nat) res" where
  "read_integer data =
     (case amf_decode_integer data of
        (s, None) \<Rightarrow> Inl Uninitialised
      | (s, Some u) \<Rightarrow> Inr (amf_new_integer u, s))"

definition read_sinteger :: "byte list \<Rightarrow> (amf_value \<times> nat) res" where
  "read_sinteger data =
     (case amf_decode_sinteger data of
        Inl f \<Rightarrow> Inl f
      | Inr (s, i) \<Rightarrow> Inr (amf_new_sinteger i, s))"

definition read_string :: "string_ref \<Rightarrow> byte list \<Rightarrow> ((amf_value \<times> nat) \<times> string_ref) res" where
  "read_string refs data =
     (case amf_decode_string refs data True of
        Inl f \<Rightarrow> Inl f
      | Inr (s, sl, refs') \<Rightarrow>
          (let buf = (case sl of None \<Rightarrow> [] | Some b \<Rightarrow> b)
           in case amf_new_string (if length buf = 0 then [0] else buf) (length buf) of
                Inl f \<Rightarrow> Inl f
              | Inr v \<Rightarrow> Inr ((v, s), refs')))"

definition read_byte_array :: "byte list \<Rightarrow> (amf_value \<times> nat) res" where
  "read_byte_array data =
     (case amf_decode_byte_array data True of
        Inl f \<Rightarrow> Inl f
      | Inr (s, sl) \<Rightarrow>
          (let buf = (case sl of None \<Rightarrow> [] | Some b \<Rightarrow> b)
           in case amf_new_byte_array (if length buf = 0 then [0] else buf) (length buf) of
                Inl f \<Rightarrow> Inl f
              | Inr v \<Rightarrow> Inr (v, s)))"

definition read_double :: "byte list \<Rightarrow> (amf_value \<times> nat) res" where
  "read_double data =
     (case amf_decode_double data of
        (s, None) \<Rightarrow> Inl Uninitialised
      | (s, Some d) \<Rightarrow> Inr (amf_new_double d, s))"

definition read_undefine :: "byte list \<Rightarrow> amf_value \<times> nat" where
  "read_undefine data = (amf_new, amf_decode_undefine data)"

definition read_null :: "byte list \<Rightarrow> amf_value \<times> nat" where
  "read_null data = (amf_new_null, amf_decode_null data)"

definition read_false :: "byte list \<Rightarrow> amf_value \<times> nat" where
  "read_false data = (amf_new_false, amf_decode_false data)"

definition read_true :: "byte list \<Rightarrow> amf_value \<times> nat" where
  "read_true data = (amf_new_true, amf_decode_true data)"

definition no_refs :: "string_ref \<Rightarrow> (amf_value \<times> nat) res \<Rightarrow> rd res" where
  "no_refs refs r = (case r of Inl f \<Rightarrow> Inl f | Inr vs \<Rightarrow> Inr (Some vs, refs))"

text \<open>
  \<open>read_children refs data skip i k v\<close> is the loop of \<open>_read_array\<close> at index \<open>i\<close> with
  \<open>k = v->size - i\<close> iterations left; \<open>data\<close> has been advanced past what was read.
\<close>

function (sequential) read_amf :: "string_ref \<Rightarrow> byte list \<Rightarrow> rd res"
  and read_array :: "string_ref \<Rightarrow> byte list \<Rightarrow> rd res"
  and read_children ::
    "string_ref \<Rightarrow> byte list \<Rightarrow> nat \<Rightarrow> nat \<Rightarrow> nat \<Rightarrow> amf_value \<Rightarrow> rd res" where
  "read_amf refs data =
     (case data of
        [] \<Rightarrow> Inl OutOfBounds
      | c # _ \<Rightarrow>
          if c = amf_code amf_undefine then Inr (Some (read_undefine data), refs)
          else if c = amf_code amf_null then Inr (Some (read_null data), refs)
          else if c = amf_code amf_false then Inr (Some (read_false data), refs)
          else if c = amf_code amf_true then Inr (Some (read_true data), refs)
          else if c = amf_code amf_array then read_array refs data
          else if c = amf_code amf_integer then no_refs refs (read_integer data)
          else if c = amf_code amf_sinteger then no_refs refs (read_sinteger data)
          else if c = amf_code amf_string then
            (case read_string refs data of
               Inl f \<Rightarrow> Inl f
             | Inr (vs, refs') \<Rightarrow> Inr (Some vs, refs'))
          else if c = amf_code amf_double then no_refs refs (read_double data)
          else if c = amf_code amf_byte_array then no_refs refs (read_byte_array data)
          else Inr (None, refs))"
| "read_array refs data =
     (case amf_decode_array data of
        Inl f \<Rightarrow> Inl f
      | Inr (r, sz) \<Rightarrow>
          if r = 0 \<or> length data < r then Inr (None, refs)
          else (let n = (case sz of None \<Rightarrow> 0 | Some n \<Rightarrow> n)
                in read_children refs (drop r data) r 0 n (amf_new_array n)))"
| "read_children refs data skip i 0 v = Inr (Some (v, skip), refs)"
| "read_children refs data skip i (Suc k) v =
     (case read_amf refs data of
        Inl f \<Rightarrow> Inl f
      | Inr (None, refs') \<Rightarrow> Inr (None, refs')
      | Inr (Some (c, r), refs') \<Rightarrow>
          if length data < r then Inr (None, refs')
          else read_children refs' (drop r data) (skip + r) (i + 1) k
                 (fst (amf_set v i (Some c))))"
  by pat_completeness auto
termination
  by (relation "measures
        [\<lambda>x. case x of Inl (_, data) \<Rightarrow> length data | Inr (Inl (_, data)) \<Rightarrow> length data
              | Inr (Inr (_, data, _)) \<Rightarrow> length data,
         \<lambda>x. case x of Inl _ \<Rightarrow> 1 | Inr (Inl _) \<Rightarrow> 0 | Inr (Inr _) \<Rightarrow> 2,
         \<lambda>x. case x of Inr (Inr (_, _, _, _, k, _)) \<Rightarrow> k | _ \<Rightarrow> 0]")
     auto

declare read_amf.simps [simp del] read_array.simps [simp del]

definition amf_read :: "byte list \<Rightarrow> rd res" where
  "amf_read data = read_amf [] data"

section \<open>Skipping a value\<close>

text \<open>
  \<open>amf_skip\<close> with fuel for its recursion, \<open>None\<close> when the fuel runs out. In the array case
  the code pops \<open>offset\<close>, still 0, instead of the header length \<open>c\<close>.
\<close>

fun amf_skip :: "nat \<Rightarrow> string_ref \<Rightarrow> byte list \<Rightarrow> (nat \<times> string_ref) res option"
  and amf_skip_children ::
    "nat \<Rightarrow> nat \<Rightarrow> string_ref \<Rightarrow> byte list \<Rightarrow> nat \<Rightarrow> (nat \<times> string_ref) res option" where
  "amf_skip 0 refs data = None"
| "amf_skip (Suc fuel) refs data =
     (let t = amf_next_type data
      in if t = amf_code amf_undefine then Some (Inr (amf_decode_undefine data, refs))
         else if t = amf_code amf_null then Some (Inr (amf_decode_null data, refs))
         else if t = amf_code amf_false then Some (Inr (amf_decode_false data, refs))
         else if t = amf_code amf_true then Some (Inr (amf_decode_true data, refs))
         else if t = amf_code amf_integer then Some (Inr (fst (amf_decode_integer data), refs))
         else if t = amf_code amf_sinteger then
           Some (case amf_decode_sinteger data of Inl f \<Rightarrow> Inl f | Inr (s, _) \<Rightarrow> Inr (s, refs))
         else if t = amf_code amf_double then Some (Inr (fst (amf_decode_double data), refs))
         else if t = amf_code amf_string \<or> t = amf_code amf_byte_array then
           Some (case amf_decode_string refs data False of
                   Inl f \<Rightarrow> Inl f
                 | Inr (s, _, refs') \<Rightarrow> Inr (s, refs'))
         else if t = amf_code amf_array then
           (case amf_decode_array data of
              Inl f \<Rightarrow> Some (Inl f)
            | Inr (c, sz) \<Rightarrow>
                amf_skip_children fuel (case sz of None \<Rightarrow> 0 | Some n \<Rightarrow> n) refs data 0)
         else Some (Inr (0, refs)))"
| "amf_skip_children fuel 0 refs data offset = Some (Inr (offset, refs))"
| "amf_skip_children 0 (Suc n) refs data offset = None"
| "amf_skip_children (Suc fuel) (Suc n) refs data offset =
     (case amf_skip fuel refs data of
        None \<Rightarrow> None
      | Some (Inl f) \<Rightarrow> Some (Inl f)
      | Some (Inr (c, refs')) \<Rightarrow>
          if c = 0 then Some (Inr (0, refs'))
          else if length data < c then Some (Inr (0, refs'))
          else amf_skip_children fuel n refs' (drop c data) (offset + c))"

end
