(* ===== verification/AmfRoundtrip.thy ===== *)
theory AmfRoundtrip
  imports AmfValue
begin

unbundle bit_operations_syntax

text \<open>
  The wire format of AMF values as a specification, and the proofs that \<open>amf_encode\<close> produces
  it, that \<open>amf_get_encode_length\<close> is its length, and that \<open>amf_read\<close> gets the value back.
\<close>

section \<open>The wire format\<close>

text \<open>The bytes of a 29-bit integer.\<close>

definition u29_bytes :: "u32 \<Rightarrow> byte list" where
  "u29_bytes v = (case amf_encode_u29 4 v of Inr (_, w) \<Rightarrow> w | Inl _ \<Rightarrow> [])"

text \<open>The length word of a string, byte array or array: the low bit marks a literal.\<close>

definition len_word :: "nat \<Rightarrow> u32" where
  "len_word n = word_of_nat (2 * n + 1)"

definition double_bytes :: "u64 \<Rightarrow> byte list" where
  "double_bytes d = amf_code amf_double # map (double_byte d) [7, 6, 5, 4, 3, 2, 1, 0]"

fun amf_wire :: "amf_value option \<Rightarrow> byte list"
  and amf_wires :: "nat \<Rightarrow> amf_value option list \<Rightarrow> byte list" where
  "amf_wire None = [amf_code amf_null]"
| "amf_wire (Some (AVundefine _)) = [amf_code amf_undefine]"
| "amf_wire (Some (AVnull _)) = [amf_code amf_null]"
| "amf_wire (Some (AVfalse _)) = [amf_code amf_false]"
| "amf_wire (Some (AVtrue _)) = [amf_code amf_true]"
| "amf_wire (Some (AVinteger _ i)) =
     (if i > AMF_INTEGER_MAX then double_bytes (double_of_int (uint i))
      else amf_code amf_integer # u29_bytes i)"
| "amf_wire (Some (AVsinteger _ i)) = amf_code amf_sinteger # u29_bytes (i AND mask 29)"
| "amf_wire (Some (AVdouble _ d)) = double_bytes d"
| "amf_wire (Some (AVstring s)) = amf_code amf_string # u29_bytes (len_word (length s)) @ s"
| "amf_wire (Some (AVbytes s)) = amf_code amf_byte_array # u29_bytes (len_word (length s)) @ s"
| "amf_wire (Some (AVarray n child)) =
     amf_code amf_array # u29_bytes (len_word n) @ [1] @ amf_wires n child"
| "amf_wires 0 child = []"
| "amf_wires (Suc n) [] = []"
| "amf_wires (Suc n) (c # cs) = amf_wire c @ amf_wires n cs"

text \<open>Values the encoder accepts: signed integers of 29 bits, blocks shorter than \<open>2^28\<close>,
  arrays whose \<open>size\<close> children exist.\<close>

fun amf_wf :: "amf_value option \<Rightarrow> bool"
  and amf_wfs :: "nat \<Rightarrow> amf_value option list \<Rightarrow> bool" where
  "amf_wf (Some (AVsinteger _ i)) = (- 0x10000000 \<le> sint i \<and> sint i \<le> 0xFFFFFFF)"
| "amf_wf (Some (AVstring s)) = (length s < 2 ^ 28)"
| "amf_wf (Some (AVbytes s)) = (length s < 2 ^ 28)"
| "amf_wf (Some (AVarray n child)) = (n < 2 ^ 28 \<and> amf_wfs n child)"
| "amf_wf _ = True"
| "amf_wfs 0 child = True"
| "amf_wfs (Suc n) [] = False"
| "amf_wfs (Suc n) (c # cs) = (amf_wf c \<and> amf_wfs n cs)"

text \<open>The room the encoder really checks for: the largest single step, not the sum.\<close>

fun amf_room :: "amf_value option \<Rightarrow> nat"
  and amf_rooms :: "nat \<Rightarrow> amf_value option list \<Rightarrow> nat" where
  "amf_room (Some (AVarray n child)) =
     max (1 + length (u29_bytes (len_word n)) + 1) (amf_rooms n child)"
| "amf_room v = length (amf_wire v)"
| "amf_rooms 0 child = 0"
| "amf_rooms (Suc n) [] = 0"
| "amf_rooms (Suc n) (c # cs) = max (amf_room c) (amf_rooms n cs)"

text \<open>What a value looks like after a round trip: nulls for missing children, doubles for
  integers of more than 29 bits, fresh sizes.\<close>

fun amf_norm :: "amf_value option \<Rightarrow> amf_value"
  and amf_norms :: "nat \<Rightarrow> amf_value option list \<Rightarrow> amf_value list" where
  "amf_norm None = AVnull 1"
| "amf_norm (Some (AVundefine _)) = AVundefine 0"
| "amf_norm (Some (AVnull _)) = AVnull 1"
| "amf_norm (Some (AVfalse _)) = AVfalse 1"
| "amf_norm (Some (AVtrue _)) = AVtrue 1"
| "amf_norm (Some (AVinteger _ i)) =
     (if i > AMF_INTEGER_MAX then AVdouble 1 (double_of_int (uint i)) else AVinteger 1 i)"
| "amf_norm (Some (AVsinteger _ i)) = AVsinteger 1 i"
| "amf_norm (Some (AVdouble _ d)) = AVdouble 1 d"
| "amf_norm (Some (AVstring s)) = AVstring s"
| "amf_norm (Some (AVbytes s)) = AVbytes s"
| "amf_norm (Some (AVarray n child)) =
     AVarray n (if n = 0 then replicate 32 None else map Some (amf_norms n child))"
| "amf_norms 0 child = []"
| "amf_norms (Suc n) [] = []"
| "amf_norms (Suc n) (c # cs) = amf_norm c # amf_norms n cs"

text \<open>The strings of a value in the order the reader meets them.\<close>

fun amf_strings :: "amf_value option \<Rightarrow> byte list list"
  and amf_stringss :: "nat \<Rightarrow> amf_value option list \<Rightarrow> byte list list" where
  "amf_strings (Some (AVstring s)) = [s]"
| "amf_strings (Some (AVarray n child)) = amf_stringss n child"
| "amf_strings _ = []"
| "amf_stringss 0 child = []"
| "amf_stringss (Suc n) [] = []"
| "amf_stringss (Suc n) (c # cs) = amf_strings c @ amf_stringss n cs"

text \<open>Signed integers that survive the sign extension of \<open>U2SInt29\<close>.\<close>

fun amf_exact :: "amf_value option \<Rightarrow> bool"
  and amf_exacts :: "nat \<Rightarrow> amf_value option list \<Rightarrow> bool" where
  "amf_exact (Some (AVsinteger _ i)) = (- 0x1000000 \<le> sint i)"
| "amf_exact (Some (AVarray n child)) = amf_exacts n child"
| "amf_exact _ = True"
| "amf_exacts 0 child = True"
| "amf_exacts (Suc n) [] = True"
| "amf_exacts (Suc n) (c # cs) = (amf_exact c \<and> amf_exacts n cs)"

text \<open>Every array of the value has exactly \<open>size\<close> children, all of them present, except that
  an empty array has the 32 free slots it was allocated with.\<close>

fun amf_built :: "amf_value \<Rightarrow> bool"
  and amf_built_opt :: "amf_value option \<Rightarrow> bool" where
  "amf_built (AVarray n child) =
     (if n = 0 then child = replicate 32 None
      else length child = n \<and> (\<forall>c \<in> set child. amf_built_opt c))"
| "amf_built (AVundefine _) = True"
| "amf_built (AVnull _) = True"
| "amf_built (AVfalse _) = True"
| "amf_built (AVtrue _) = True"
| "amf_built (AVinteger _ _) = True"
| "amf_built (AVsinteger _ _) = True"
| "amf_built (AVdouble _ _) = True"
| "amf_built (AVstring _) = True"
| "amf_built (AVbytes _) = True"
| "amf_built_opt None = False"
| "amf_built_opt (Some c) = amf_built c"

text \<open>The entries of an array that count: its first \<open>size\<close> children.\<close>

fun amf_items :: "amf_value \<Rightarrow> amf_value option list" where
  "amf_items (AVarray n child) = take n child"
| "amf_items _ = []"

fun amf_array_ok :: "amf_value \<Rightarrow> bool" where
  "amf_array_ok (AVarray n child) = (n \<le> length child)"
| "amf_array_ok _ = False"

section \<open>The encoder produces the wire format\<close>

lemma u29_bytes_encode:
  assumes "v \<le> 0x1FFFFFFF"
  shows "amf_get_length_u29 v = Inr (length (u29_bytes v))"
    and "0 < length (u29_bytes v)"
    and "length (u29_bytes v) \<le> len \<Longrightarrow>
      amf_encode_u29 len v = Inr (length (u29_bytes v), u29_bytes v)"
proof -
  obtain n where n: "amf_get_length_u29 v = Inr n"
    using amf_get_length_u29_ok [OF assms] by blast
  note e = amf_encode_u29_length [OF n]
  have b: "u29_bytes v = snd (projr (amf_encode_u29 4 v))"
    using e(2) e(4) [of 4] by (cases "amf_encode_u29 4 v") (auto simp: u29_bytes_def)
  show "amf_get_length_u29 v = Inr (length (u29_bytes v))" "0 < length (u29_bytes v)"
    using n e(1,5) by (simp_all add: b)
  show "amf_encode_u29 len v = Inr (length (u29_bytes v), u29_bytes v)"
    if "length (u29_bytes v) \<le> len"
    using that e(4) [of len] e(5) by (simp add: b)
qed

lemma u29_bytes_decode:
  assumes "v \<le> 0x1FFFFFFF"
  shows "amf_decode_u29 (u29_bytes v @ rest) = (length (u29_bytes v), Some v)"
  using amf_u29_roundtrip [OF assms] u29_bytes_encode(2) [OF assms] u29_bytes_encode(3) [OF assms, of 4]
    amf_encode_u29_length(2) [OF u29_bytes_encode(1) [OF assms]]
  by simp

lemma unat_len_word: "n < 2 ^ 28 \<Longrightarrow> unat (len_word n) = 2 * n + 1"
  by (simp only: len_word_def unsigned_of_nat) (simp add: take_bit_nat_eq_self)

lemma len_word_range: "n < 2 ^ 28 \<Longrightarrow> len_word n \<le> 0x1FFFFFFF"
  by (simp add: word_le_nat_alt unat_len_word)

lemma len_word_code:
  assumes "n < 2 ^ 28"
  shows "ucast (push_bit 1 (word_of_nat n :: u64) OR 1) = len_word n"
proof -
  have "push_bit 1 (word_of_nat n :: u64) OR 1 = word_of_nat (2 * n + 1)"
    by (simp add: or_one_eq push_bit_eq_mult)
  moreover have "ucast (word_of_nat (2 * n + 1) :: u64) = len_word n"
    using assms by (simp only: len_word_def unsigned_of_nat) (simp add: take_bit_nat_eq_self)
  ultimately show ?thesis by simp
qed

lemma len_word_decode:
  assumes "n < 2 ^ 28"
  shows "len_word n AND 1 \<noteq> 0" and "unat (drop_bit 1 (len_word n)) = n"
proof -
  have "unat (len_word n AND 1) = 1"
    using assms by (simp add: and_one_eq unat_mod unat_len_word)
  then show "len_word n AND 1 \<noteq> 0" by auto
  show "unat (drop_bit 1 (len_word n)) = n"
    using assms by (simp add: drop_bit_eq_div unat_div unat_len_word)
qed

lemma amf_encode_block_wire:
  assumes "length s < 2 ^ 28" and "1 + length (u29_bytes (len_word (length s))) + length s \<le> dlen"
    and "take (length s) ptr = s"
  shows "amf_encode_block dlen ty ptr (word_of_nat (length s)) =
    Inr (1 + length (u29_bytes (len_word (length s))) + length s,
         amf_code ty # u29_bytes (len_word (length s)) @ s)"
proof -
  have "unat (word_of_nat (length s) :: u64) = length s"
    using assms(1) by (simp add: unsigned_of_nat take_bit_nat_eq_self)
  moreover have "length s \<le> length ptr"
    using assms(3) by (metis length_take min.cobounded1)
  ultimately show ?thesis
    using assms u29_bytes_encode(2,3) [OF len_word_range [OF assms(1)]]
    unfolding amf_encode_block_def len_word_code [OF assms(1)] by simp linarith
qed

lemma amf_encode_string_wire:
  assumes "length s < 2 ^ 28" and "1 + length (u29_bytes (len_word (length s))) + length s \<le> dlen"
  shows "amf_encode_string dlen (s @ [0]) (word_of_nat (length s)) =
    Inr (1 + length (u29_bytes (len_word (length s))) + length s,
         amf_code amf_string # u29_bytes (len_word (length s)) @ s)"
proof (cases "s = []")
  case True
  then show ?thesis
    using amf_encode_block_wire [of "[]" dlen "[0]" amf_string] assms
    by (simp add: amf_encode_string_def)
next
  case False
  have "(word_of_nat (length s) :: u64) \<noteq> 0"
  proof
    assume "(word_of_nat (length s) :: u64) = 0"
    then have "unat (word_of_nat (length s) :: u64) = 0" by simp
    then show False using assms(1) False by (simp add: unsigned_of_nat take_bit_nat_eq_self)
  qed
  then show ?thesis using amf_encode_block_wire [OF assms, of "s @ [0]"] 
    by (simp add: amf_encode_string_def)
qed

lemma S2UInt29_mask:
  assumes "- 0x10000000 \<le> sint i" and "sint i \<le> 0xFFFFFFF"
  shows "S2UInt29 i = Inr (i AND mask 29)" and "i AND mask 29 \<le> 0x1FFFFFFF"
proof -
  show m: "S2UInt29 i = Inr (i AND mask 29)"
    using assms by (simp add: S2UInt29_def mask_eq_exp_minus_1 flip: bit.conj_disj_distrib)
  have "uint (i AND mask 29) < 2 ^ 29"
    by (rule uint_less_if_no_bits) (simp add: bit_simps)
  then show "i AND mask 29 \<le> 0x1FFFFFFF" by (simp add: word_le_def)
qed

lemma amf_encode_integer_wire:
  assumes "ty = amf_integer \<or> ty = amf_sinteger" "i \<le> AMF_INTEGER_MAX" "1 + length (u29_bytes i) \<le> dlen"
  shows "amf_encode_integer_with_type dlen i ty = Inr (1 + length (u29_bytes i), amf_code ty # u29_bytes i)"
  using assms u29_bytes_encode(2,3) [of i]
  by (auto simp: amf_encode_integer_with_type_def AMF_INTEGER_MAX_def)

lemma length_double_bytes [simp]: "length (double_bytes d) = 9"
  by (simp add: double_bytes_def)

lemma amf_encode_double_wire:
  "9 \<le> dlen \<Longrightarrow> amf_encode_double dlen d = (9, double_bytes d)"
  by (simp add: amf_encode_double_def double_bytes_def Let_def)

lemma amf_encode_array_wire:
  assumes "n < 2 ^ 28" and "1 + length (u29_bytes (len_word n)) + 1 \<le> dlen"
  shows "amf_encode_array dlen (word_of_nat n) =
    Inr (1 + length (u29_bytes (len_word n)) + 1, amf_code amf_array # u29_bytes (len_word n) @ [1])"
  using assms u29_bytes_encode(2,3) [OF len_word_range [OF assms(1)]]
  unfolding amf_encode_array_def len_word_code [OF assms(1)] by simp

lemma amf_encode_wire_aux:
  "amf_wf v \<Longrightarrow> amf_room v \<le> dlen \<Longrightarrow> amf_encode dlen v = Inr (length (amf_wire v), amf_wire v)"
  "amf_wfs n cs \<Longrightarrow> amf_rooms n cs \<le> dlen \<Longrightarrow>
     amf_encode_children dlen n cs (length m, m) =
       Inr (length (m @ amf_wires n cs), m @ amf_wires n cs)"
proof (induction v and n cs arbitrary: and m rule: amf_wire_amf_wires.induct)
  case (6 _ i)
  show ?case
  proof (cases "i > AMF_INTEGER_MAX")
    case True
    with 6 show ?thesis
      by (simp add: amf_encode_integer_def amf_encode_integer_with_type_def amf_encode_double_wire)
  next
    case False
    with 6 show ?thesis by (simp add: amf_encode_integer_def amf_encode_integer_wire)
  qed
next
  case (7 _ i)
  then show ?case
    by (simp add: amf_encode_sinteger_def S2UInt29_mask amf_encode_integer_wire AMF_INTEGER_MAX_def)
next
  case (9 s)
  then show ?case by (simp add: amf_encode_string_wire)
next
  case (10 s)
  then show ?case by (simp add: amf_encode_byte_array_def amf_encode_block_wire)
next
  case (11 n child)
  then show ?case
    using "11.IH" [of "amf_code amf_array # u29_bytes (len_word n) @ [1]"]
    by (simp add: amf_encode_array_wire)
next
  case (14 n c cs)
  then show ?case using "14.IH"(2) [of "m @ amf_wire c"] by simp
qed (simp_all add: amf_encode_null_def amf_encode_undefine_def amf_encode_false_def
    amf_encode_true_def amf_encode_double_wire)


lemma amf_length_aux:
  "amf_wf v \<Longrightarrow> amf_get_encode_length v = Inr (length (amf_wire v))"
  "amf_wfs n cs \<Longrightarrow> amf_get_length_children n cs k = Inr (k + length (amf_wires n cs))"
proof (induction v and n cs arbitrary: and k rule: amf_wire_amf_wires.induct)
  case (6 _ i)
  then show ?case using u29_bytes_encode(1) [of i]
    by (auto simp: amf_get_length_integer_def amf_get_length_double_def AMF_INTEGER_MAX_def not_less)
next
  case (7 _ i)
  then have "i AND mask 29 \<le> 0x1FFFFFFF" by (simp add: S2UInt29_mask)
  with 7 show ?case using u29_bytes_encode(1) [of "i AND mask 29"]
    by (simp add: amf_get_length_sinteger_def amf_get_length_integer_def S2UInt29_mask not_less leD
        AMF_INTEGER_MAX_def)
next
  case (9 s)
  then have "unat (word_of_nat (length s) :: u64) = length s"
    by (simp add: unsigned_of_nat take_bit_nat_eq_self)
  with 9 show ?case
    by (simp only: amf_get_encode_length.simps amf_get_length_string_def len_word_code amf_wf.simps)
       (simp add: u29_bytes_encode(1) len_word_range)
next
  case (10 s)
  then have "unat (word_of_nat (length s) :: u64) = length s"
    by (simp add: unsigned_of_nat take_bit_nat_eq_self)
  with 10 show ?case
    by (simp only: amf_get_encode_length.simps amf_get_length_byte_array_def len_word_code amf_wf.simps)
       (simp add: u29_bytes_encode(1) len_word_range)
next
  case (11 n child)
  then have "amf_get_length_array (word_of_nat n) = Inr (1 + length (u29_bytes (len_word n)) + 1)"
    by (simp only: amf_get_length_array_def len_word_code amf_wf.simps)
       (simp add: u29_bytes_encode(1) len_word_range)
  with 11 show ?case by simp
qed (simp_all add: amf_get_length_double_def)

lemma amf_room_le_wire:
  "amf_room v \<le> length (amf_wire v)"
  "amf_rooms n cs \<le> length (amf_wires n cs)"
  by (induction v and n cs rule: amf_wire_amf_wires.induct) auto

section \<open>The reader gets the value back\<close>

lemma amf_decode_integer_wire:
  assumes "i \<le> 0x1FFFFFFF"
  shows "amf_decode_integer (c # u29_bytes i @ rest) = (1 + length (u29_bytes i), Some i)"
  using u29_bytes_decode [OF assms, of rest] u29_bytes_encode(2) [OF assms]
  by (simp add: amf_decode_integer_def)

lemma amf_decode_double_wire: "amf_decode_double (double_bytes d @ rest) = (9, Some d)"
  using double_bytes_roundtrip [of d]
  by (simp add: amf_decode_double_def double_bytes_def)

lemma read_amf_double_wire:
  "read_amf refs (double_bytes d @ rest) = Inr (Some (AVdouble 1 d, 9), refs)"
proof -
  have "read_double (double_bytes d @ rest) = Inr (AVdouble 1 d, 9)"
    by (simp add: read_double_def amf_decode_double_wire amf_new_double_def)
  moreover obtain w where w: "double_bytes d @ rest = amf_code amf_double # w"
    by (simp add: double_bytes_def)
  ultimately show ?thesis by (simp add: w read_amf.simps no_refs_def)
qed

lemma read_string_wire:
  assumes "length s < 2 ^ 28" and "length refs < STRING_REF_MAX"
  shows "read_string refs (amf_code amf_string # u29_bytes (len_word (length s)) @ s @ rest) =
    Inr ((AVstring s, 1 + length (u29_bytes (len_word (length s))) + length s), refs @ [s])"
proof -
  note l = len_word_decode [OF assms(1)] u29_bytes_encode(2) [OF len_word_range [OF assms(1)]]
    u29_bytes_decode [OF len_word_range [OF assms(1)], of "s @ rest"]
  have "amf_decode_string refs (amf_code amf_string # u29_bytes (len_word (length s)) @ s @ rest) True =
    Inr (1 + length (u29_bytes (len_word (length s))) + length s, Some s, refs @ [s])"
    using l assms(2) by (simp add: amf_decode_string_def Let_def)
  then show ?thesis by (simp add: read_string_def amf_new_string_def)
qed

lemma read_string_full:
  assumes "length s < 2 ^ 28" and "STRING_REF_MAX \<le> length refs"
  shows "read_string refs (amf_code amf_string # u29_bytes (len_word (length s)) @ s @ rest) =
    Inl OutOfBounds"
proof -
  note l = len_word_decode [OF assms(1)] u29_bytes_encode(2) [OF len_word_range [OF assms(1)]]
    u29_bytes_decode [OF len_word_range [OF assms(1)], of "s @ rest"]
  then have "amf_decode_string refs (amf_code amf_string # u29_bytes (len_word (length s)) @ s @ rest)
      True = Inl OutOfBounds"
    using assms(2) by (simp add: amf_decode_string_def Let_def)
  then show ?thesis by (simp add: read_string_def)
qed

lemma read_byte_array_wire:
  assumes "length s < 2 ^ 28"
  shows "read_byte_array (amf_code amf_byte_array # u29_bytes (len_word (length s)) @ s @ rest) =
    Inr (AVbytes s, 1 + length (u29_bytes (len_word (length s))) + length s)"
proof -
  note l = len_word_decode [OF assms(1)] u29_bytes_encode(2) [OF len_word_range [OF assms(1)]]
    u29_bytes_decode [OF len_word_range [OF assms(1)], of "s @ rest"]
  have "amf_decode_byte_array (amf_code amf_byte_array # u29_bytes (len_word (length s)) @ s @ rest) True =
    Inr (1 + length (u29_bytes (len_word (length s))) + length s, Some s)"
    using l by (simp add: amf_decode_byte_array_def Let_def)
  then show ?thesis by (simp add: read_byte_array_def amf_new_byte_array_def)
qed

lemma amf_decode_array_wire:
  assumes "n < 2 ^ 28"
  shows "amf_decode_array (amf_code amf_array # u29_bytes (len_word n) @ 1 # rest) =
    Inr (1 + length (u29_bytes (len_word n)) + 1, Some n)"
proof -
  note l = len_word_decode [OF assms(1)] u29_bytes_encode(2) [OF len_word_range [OF assms(1)]]
    u29_bytes_decode [OF len_word_range [OF assms(1)], of "1 # rest"]
  then show ?thesis by (simp add: amf_decode_array_def Let_def)
qed

lemma length_amf_norms: "amf_wfs n cs \<Longrightarrow> length (amf_norms n cs) = n"
  by (induction n arbitrary: cs) (auto, metis amf_norms.simps(3) amf_wfs.simps(2,3) length_Cons neq_Nil_conv)

lemma amf_read_wire_aux:
  "amf_wf v \<Longrightarrow> amf_exact v \<Longrightarrow> length refs + length (amf_strings v) \<le> STRING_REF_MAX \<Longrightarrow>
     read_amf refs (amf_wire v @ rest) =
       Inr (Some (amf_norm v, length (amf_wire v)), refs @ amf_strings v)"
  "amf_wfs n cs \<Longrightarrow> amf_exacts n cs \<Longrightarrow> length refs + length (amf_stringss n cs) \<le> STRING_REF_MAX \<Longrightarrow>
     read_children refs (amf_wires n cs @ rest) skip (length ds) n
         (AVarray (length ds + n) (map Some ds @ replicate n None)) =
       Inr (Some (AVarray (length ds + n) (map Some (ds @ amf_norms n cs)),
                  skip + length (amf_wires n cs)), refs @ amf_stringss n cs)"
proof (induction v and n cs arbitrary: refs rest and refs rest skip ds rule: amf_wire_amf_wires.induct)
  case (6 _ i)
  show ?case
  proof (cases "i > AMF_INTEGER_MAX")
    case True
    then show ?thesis by (simp add: read_amf_double_wire)
  next
    case False
    then have "i \<le> 0x1FFFFFFF" by (simp add: AMF_INTEGER_MAX_def not_less)
    with False show ?thesis
      by (simp add: read_amf.simps no_refs_def read_integer_def amf_decode_integer_wire
          amf_new_integer_def)
  qed
next
  case (7 _ i)
  then have "U2SInt29 (i AND mask 29) = Inr i"
    by (subst sint29_roundtrip_iff [OF S2UInt29_mask(1)]) auto
  with 7 show ?case
    by (simp add: read_amf.simps no_refs_def read_sinteger_def amf_decode_sinteger_def
          amf_decode_integer_wire S2UInt29_mask amf_new_sinteger_def)
next
  case (8 _ d)
  show ?case by (simp add: read_amf_double_wire)
next
  case (9 s)
  then show ?case using read_string_wire [of s refs rest] by (simp add: read_amf.simps)
next
  case (10 s)
  then show ?case using read_byte_array_wire [of s rest] by (simp add: read_amf.simps no_refs_def)
next
  case (11 n child)
  let ?h = "1 + length (u29_bytes (len_word n)) + 1"
  have "read_array refs (amf_wire (Some (AVarray n child)) @ rest) =
      read_children refs (amf_wires n child @ rest) ?h 0 n (amf_new_array n)"
    using 11 amf_decode_array_wire [of n "amf_wires n child @ rest"]
    by (simp add: read_array.simps)
  then show ?case
    using "11.IH" [of refs rest ?h "[]"] "11.prems"
    by (cases n) (simp_all add: read_amf.simps amf_new_array_def)
next
  case (14 n c cs)
  have "map Some ds @ replicate (Suc n) None = map Some ds @ None # replicate n None" by simp
  show ?case
    using "14.IH"(1) [of refs "amf_wires n cs @ rest"] "14.prems"
      "14.IH"(2) [of "refs @ amf_strings c" rest "skip + length (amf_wire c)" "ds @ [amf_norm c]"]
    by (simp add: list_update_append)
qed (simp_all add: read_amf.simps read_undefine_def read_null_def read_false_def read_true_def
    amf_new_def amf_new_null_def amf_new_false_def amf_new_true_def amf_decode_undefine_def
    amf_decode_null_def amf_decode_false_def amf_decode_true_def)


section \<open>Values the reader builds\<close>

lemma amf_decode_integer_bound: "fst (amf_decode_integer data) \<le> length data"
  by (auto simp: amf_decode_integer_def split: prod.splits)

lemma amf_decode_double_bound: "fst (amf_decode_double data) \<le> length data"
  by (auto simp: amf_decode_double_def)

lemma read_string_bound:
  "read_string refs data = Inr ((v, s), refs') \<Longrightarrow> s \<le> length data \<and> amf_built v"
  by (auto simp: read_string_def amf_decode_string_def amf_new_string_def Let_def
      split: sum.splits prod.splits if_splits option.splits)

lemma read_byte_array_bound:
  "read_byte_array data = Inr (v, s) \<Longrightarrow> s \<le> length data \<and> amf_built v"
  by (auto simp: read_byte_array_def amf_decode_byte_array_def amf_new_byte_array_def Let_def
      split: sum.splits prod.splits if_splits option.splits)

lemma read_number_bound:
  "read_integer data = Inr (v, s) \<Longrightarrow> s \<le> length data \<and> amf_built v"
  "read_sinteger data = Inr (v, s) \<Longrightarrow> s \<le> length data \<and> amf_built v"
  "read_double data = Inr (v, s) \<Longrightarrow> s \<le> length data \<and> amf_built v"
  using amf_decode_integer_bound [of data] amf_decode_double_bound [of data]
  by (auto simp: read_integer_def read_sinteger_def read_double_def amf_decode_sinteger_def
      amf_new_integer_def amf_new_sinteger_def amf_new_double_def
      split: sum.splits prod.splits option.splits)

lemma read_amf_cases:
  assumes "read_amf refs data = Inr (Some (v, s), refs')"
  shows "data \<noteq> [] \<and> hd data = amf_code amf_array \<and> read_array refs data = Inr (Some (v, s), refs')
    \<or> s \<le> length data \<and> amf_built v"
proof (cases data)
  case Nil
  with assms show ?thesis by (simp add: read_amf.simps)
next
  case (Cons c cs)
  note b = read_number_bound [of data v s] read_byte_array_bound [of data v s]
    read_string_bound [of refs data v s]
  have "read_undefine data = (AVundefine 0, 1)" "read_null data = (AVnull 1, 1)"
    "read_false data = (AVfalse 1, 1)" "read_true data = (AVtrue 1, 1)"
    using Cons by (simp_all add: read_undefine_def read_null_def
        read_false_def read_true_def amf_new_def amf_new_null_def amf_new_false_def amf_new_true_def
        amf_decode_undefine_def amf_decode_null_def amf_decode_false_def amf_decode_true_def)
  moreover have "1 \<le> length data" using Cons by simp
  moreover have "hd data = c" "data \<noteq> []" using Cons by simp_all
  moreover have "read_amf refs data = (let c = hd data in
      if c = amf_code amf_undefine then Inr (Some (read_undefine data), refs)
          else if c = amf_code amf_null then Inr (Some (read_null data), refs)
          else if c = amf_code amf_false then Inr (Some (read_false data), refs)
          else if c = amf_code amf_true then Inr (Some (read_true data), refs)
          else if c = amf_code amf_array then read_array refs data
          else if c = amf_code amf_integer then no_refs refs (read_integer data)
          else if c = amf_code amf_sinteger then no_refs refs (read_sinteger data)
          else if c = amf_code amf_string then
            (case read_string refs data of
               Inl f \<Rightarrow> Inl f
             | Inr (vs, refs') \<Rightarrow> Inr (Some vs, refs'))
          else if c = amf_code amf_double then no_refs refs (read_double data)
          else if c = amf_code amf_byte_array then no_refs refs (read_byte_array data)
          else Inr (None, refs))"
    unfolding Let_def using Cons by (subst read_amf.simps) simp
  ultimately show ?thesis
    using assms b by (auto simp: Let_def no_refs_def split: if_splits sum.splits prod.splits)
qed

lemma amf_read_bound_aux:
  "read_amf refs data = Inr (Some (v, s), refs') \<Longrightarrow> s \<le> length data \<and> amf_built v"
  "read_array refs data = Inr (Some (v, s), refs') \<Longrightarrow> s \<le> length data \<and> amf_built v"
  "read_children refs data skip i k u = Inr (Some (v, s), refs') \<Longrightarrow>
     u = AVarray (i + k) (child @ replicate k None) \<Longrightarrow> length child = i \<Longrightarrow> 0 < k \<Longrightarrow>
     \<forall>c \<in> set child. amf_built_opt c \<Longrightarrow>
     s \<le> skip + length data \<and> amf_built v"
proof (induction refs data and refs data and refs data skip i k u
    arbitrary: v s refs' and v s refs' and v s refs' child rule: read_amf_read_array_read_children.induct)
  case (1 refs data)
  from read_amf_cases [OF "1.prems"] show ?case
  proof
    assume a: "data \<noteq> [] \<and> hd data = amf_code amf_array \<and> read_array refs data = Inr (Some (v, s), refs')"
    then obtain cs where "data = amf_code amf_array # cs" by (cases data) auto
    then show ?thesis using a "1.IH" [of "amf_code amf_array" cs v s refs'] by simp
  qed
next
  case (2 refs data)
  from "2.prems" obtain r sz where d: "amf_decode_array data = Inr (r, sz)" "r \<noteq> 0" "r \<le> length data"
    and c: "read_children refs (drop r data) r 0 (case sz of None \<Rightarrow> 0 | Some n \<Rightarrow> n)
      (amf_new_array (case sz of None \<Rightarrow> 0 | Some n \<Rightarrow> n)) = Inr (Some (v, s), refs')"
    by (auto simp: read_array.simps [of refs data] Let_def not_less
        split: sum.splits prod.splits if_splits)
  show ?case
  proof (cases "case sz of None \<Rightarrow> 0 | Some n \<Rightarrow> n")
    case 0
    then show ?thesis using c d by (auto simp: amf_new_array_def)
  next
    case (Suc m)
    then show ?thesis
      using "2.IH" [OF d(1) refl _ refl, of v s refs' "[]"] c d by (auto simp: amf_new_array_def)
  qed
next
  case (3 refs data skip i u)
  then show ?case by simp
next
  case (4 refs data skip i k u)
  from "4.prems"(1) obtain c r refs1 where r: "read_amf refs data = Inr (Some (c, r), refs1)" "r \<le> length data"
    and rest: "read_children refs1 (drop r data) (skip + r) (i + 1) k (fst (amf_set u i (Some c))) =
      Inr (Some (v, s), refs')"
    by (auto simp: not_less split: sum.splits prod.splits option.splits if_splits)
  have c: "amf_built c" using "4.IH"(1) [OF r(1)] by simp
  have u: "fst (amf_set u i (Some c)) = AVarray (i + 1 + k) ((child @ [Some c]) @ replicate k None)"
    using "4.prems" by (simp add: list_update_append)
  show ?case
  proof (cases k)
    case 0
    then show ?thesis using rest u "4.prems" c r(2) by (auto simp: Suc_le_eq)
  next
    case (Suc m)
    have "s \<le> skip + r + length (drop r data) \<and> amf_built v"
      using "4.IH"(2) [OF r(1) refl refl refl _ rest u] "4.prems"(3,5) c r(2) Suc by simp
    then show ?thesis using r(2) by simp
  qed
qed


section \<open>Evaluation on concrete messages\<close>

lemma amf_numeral_simps:
  "amf_wfs (numeral k) (c # cs) = (amf_wf c \<and> amf_wfs (pred_numeral k) cs)"
  "amf_exacts (numeral k) (c # cs) = (amf_exact c \<and> amf_exacts (pred_numeral k) cs)"
  "amf_stringss (numeral k) (c # cs) = amf_strings c @ amf_stringss (pred_numeral k) cs"
  "amf_get_length_children (numeral k) (c # cs) l =
     (case amf_get_encode_length c of
        Inl f \<Rightarrow> Inl f | Inr n \<Rightarrow> amf_get_length_children (pred_numeral k) cs (l + n))"
  "amf_encode_children dlen (numeral k) (c # cs) (n, m) =
     (case amf_encode dlen c of
        Inl f \<Rightarrow> Inl f
      | Inr (j, w) \<Rightarrow> amf_encode_children dlen (pred_numeral k) cs (n + j, store_at m n w))"
  by (simp_all add: numeral_eq_Suc)

lemmas amf_encode_eval = amf_numeral_simps amf_encode_array_def amf_encode_u29_def
  amf_encode_string_def amf_encode_block_def amf_encode_sinteger_def amf_encode_integer_def
  amf_encode_integer_with_type_def S2UInt29_def AMF_INTEGER_MAX_def store_at_def
  amf_get_length_array_def amf_get_length_string_def amf_get_length_integer_def
  amf_get_length_sinteger_def amf_get_length_u29_def STRING_REF_MAX_def

lemmas amf_read_eval = amf_read_def read_amf.simps read_array.simps amf_decode_array_def
  amf_decode_u29_def amf_new_array_def read_null_def amf_decode_null_def amf_new_null_def

lemma u32_and_7F:
  assumes "uint (v :: u32) < 2 ^ 7"
  shows "v AND 0x7F = v"
proof -
  have nb: "\<not> bit v n" if "7 \<le> n" for n using no_bit_from [OF assms that] .
  show ?thesis by (intro word32_eqI) (simp only: upt_32, simp add: bit_simps nb)
qed

lemma u29_bytes_small:
  assumes "n < 64"
  shows "u29_bytes (len_word n) = [word_of_nat (2 * n + 1)]"
proof -
  have "len_word n \<le> 0x7F" "uint (len_word n) < 2 ^ 7"
    using unat_len_word [of n] assms by (simp_all add: word_le_nat_alt uint_nat)
  moreover have "(ucast (len_word n) :: byte) = word_of_nat (2 * n + 1)"
    using assms by (intro word_unat_eq_iff [THEN iffD2])
      (simp only: len_word_def unsigned_ucast_eq unsigned_of_nat, simp add: take_bit_nat_eq_self)
  ultimately show ?thesis by (simp add: u29_bytes_def amf_encode_u29_def u32_and_7F)
qed

section \<open>Properties\<close>

text \<open>A buffer of the length that \<open>amf_get_encode_length\<close> reports is enough:
  \<open>amf_encode\<close> then returns exactly that length and stores the wire format of the value and
  nothing else, for every value whose signed integers fit 29 bits, whose blocks are shorter
  than \<open>2^28\<close> and whose arrays have all their children.\<close>

theorem amf_encode_announced_length:
  assumes "amf_wf v" and "amf_get_encode_length v = Inr n" and "n \<le> dlen"
  shows "amf_encode dlen v = Inr (n, amf_wire v) \<and> length (amf_wire v) = n"
  using amf_length_aux(1) [OF assms(1)] amf_encode_wire_aux(1) [OF assms(1), of dlen] assms(2,3)
    amf_room_le_wire(1) [of v] by simp

theorem amf_encode_announced_length_witness:
  "amf_encode 10 (Some (AVarray 2 [Some (AVstring [104, 105]), Some (AVinteger 1 300)])) =
     Inr (10, amf_wire (Some (AVarray 2 [Some (AVstring [104, 105]), Some (AVinteger 1 300)]))) \<and>
   length (amf_wire (Some (AVarray 2 [Some (AVstring [104, 105]), Some (AVinteger 1 300)]))) = 10"
  by (rule amf_encode_announced_length) (simp_all add: amf_encode_eval)

text \<open>C33: What \<open>amf_encode\<close> wrote, \<open>amf_read\<close> reads back: the value (integers above 29 bits
  as doubles, null for missing children), the number of bytes written, and the strings in the
  reference table, whatever follows in the buffer, if the message has at most 1024 strings and
  its signed integers are at least \<open>-0x1000000\<close>.\<close>

theorem amf_read_of_encode:
  assumes "amf_wf v" and "amf_exact v" and "length (amf_strings v) \<le> STRING_REF_MAX"
    and "amf_get_encode_length v = Inr n" and "n \<le> dlen" and "amf_encode dlen v = Inr (k, w)"
  shows "amf_read (w @ rest) = Inr (Some (amf_norm v, k), amf_strings v)"
  using amf_length_aux(1) [OF assms(1)] amf_encode_wire_aux(1) [OF assms(1), of dlen] assms
    amf_room_le_wire(1) [of v] amf_read_wire_aux(1) [OF assms(1,2), of "[]" rest]
  by (simp add: amf_read_def)

theorem amf_read_of_encode_witness:
  "amf_read ([9, 5, 1, 6, 5, 104, 105, 13, 130, 44] @ [7]) =
     Inr (Some (amf_norm (Some (AVarray 2 [Some (AVstring [104, 105]), Some (AVsinteger 1 300)])), 10),
          [[104, 105]])"
proof -
  have "amf_read ([9, 5, 1, 6, 5, 104, 105, 13, 130, 44] @ [7]) =
     Inr (Some (amf_norm (Some (AVarray 2 [Some (AVstring [104, 105]), Some (AVsinteger 1 300)])), 10),
          amf_strings (Some (AVarray 2 [Some (AVstring [104, 105]), Some (AVsinteger 1 300)])))"
    by (rule amf_read_of_encode [where dlen = 10 and n = 10]) (simp_all add: amf_encode_eval)
  then show ?thesis by (simp add: amf_numeral_simps)
qed

text \<open>A signed integer the encoder accepts decodes to itself exactly when it is at least
  \<open>-0x1000000\<close>: \<open>U2SInt29\<close> extends the sign from bit 24 instead of bit 28, so the smaller
  quarter of the signed 29-bit range is lost.\<close>

theorem amf_sinteger_roundtrip_iff:
  assumes "- 0x10000000 \<le> sint i" and "sint i \<le> 0xFFFFFFF"
  shows "(\<exists>k w. amf_encode_sinteger 5 i = Inr (k, w) \<and> amf_decode_sinteger w = Inr (k, i))
     \<longleftrightarrow> - 0x1000000 \<le> sint i"
proof -
  note m = S2UInt29_mask [OF assms]
  have "length (u29_bytes (i AND mask 29)) \<le> 4"
    using u29_bytes_encode(1) [OF m(2)] amf_encode_u29_length(2) by blast
  then have e: "amf_encode_sinteger 5 i =
      Inr (1 + length (u29_bytes (i AND mask 29)), amf_code amf_sinteger # u29_bytes (i AND mask 29))"
    using m by (simp add: amf_encode_sinteger_def amf_encode_integer_wire AMF_INTEGER_MAX_def)
  have d: "amf_decode_integer (amf_code amf_sinteger # u29_bytes (i AND mask 29)) =
      (1 + length (u29_bytes (i AND mask 29)), Some (i AND mask 29))"
    using amf_decode_integer_wire [OF m(2), of "amf_code amf_sinteger" "[]"] by simp
  show ?thesis
    unfolding sint29_roundtrip_iff [OF m(1), symmetric]
    using e d by (auto simp: amf_decode_sinteger_def split: sum.splits)
qed

theorem amf_sinteger_roundtrip_iff_witness:
  "\<not> (\<exists>k w. amf_encode_sinteger 5 (- 0x1000001) = Inr (k, w) \<and>
          amf_decode_sinteger w = Inr (k, - 0x1000001))"
  using amf_sinteger_roundtrip_iff [of "- 0x1000001"] by simp

text \<open>Every 32-bit unsigned integer survives encoding and reading, although those above
  29 bits travel as doubles: \<open>amf_get_integer\<close> of the value read is the integer.\<close>

theorem amf_integer_roundtrip:
  assumes "amf_encode 9 (Some (amf_new_integer i)) = Inr (k, w)"
  shows "\<exists>v. amf_read w = Inr (Some (v, k), []) \<and> amf_get_integer (Some v) = Inr i"
proof -
  let ?v = "Some (AVinteger 1 i)"
  have "amf_room ?v \<le> 9"
  proof (cases "i > AMF_INTEGER_MAX")
    case False
    then have le: "i \<le> 0x1FFFFFFF" by (simp add: AMF_INTEGER_MAX_def not_less)
    have "length (u29_bytes i) \<le> 4"
      using u29_bytes_encode(1) [OF le] amf_encode_u29_length(2) by blast
    with False show ?thesis by simp
  qed simp
  then have "k = length (amf_wire ?v)" "w = amf_wire ?v"
    using assms amf_encode_wire_aux(1) [of ?v 9] by (simp_all add: amf_new_integer_def)
  then show ?thesis
    using amf_read_wire_aux(1) [of ?v "[]" "[]"] u32_of_double_of_u32 [of i]
    by (auto simp: amf_read_def)
qed

theorem amf_integer_roundtrip_witness:
  "\<exists>v. amf_read [5, 65, 224, 0, 0, 0, 0, 0, 0] = Inr (Some (v, 9), []) \<and>
     amf_get_integer (Some v) = Inr 0x80000000"
  by (rule amf_integer_roundtrip)
     (simp add: amf_encode_eval amf_new_integer_def amf_encode_double_def double_of_int_def
       double_byte_def msb_index.simps Let_def)

text \<open>C34: The reader never reports more bytes than it was given, and every array of the value
  it returns has exactly \<open>size\<close> children, none of them null.\<close>

theorem amf_read_bounded:
  assumes "amf_read data = Inr (Some (v, n), refs)"
  shows "n \<le> length data \<and> amf_built v"
  using amf_read_bound_aux(1) [of "[]" data v n refs] assms by (simp add: amf_read_def)

theorem amf_read_bounded_witness:
  "\<exists>v. amf_read [9, 3, 1, 1] = Inr (Some (v, 4), []) \<and> amf_built v"
proof -
  have "amf_read [9, 3, 1, 1] = Inr (Some (AVarray 1 [Some (AVnull 1)], 4), [])"
    by (simp add: amf_read_eval)
  from amf_read_bounded [OF this] this show ?thesis by blast
qed

text \<open>The room check of \<open>amf_encode\<close> is per item, not for the message: an array of nulls of
  any size below 64 is accepted with room for three bytes, and \<open>3 + n\<close> bytes are stored.\<close>

theorem amf_encode_overruns_room:
  assumes "n < 64"
  shows "amf_encode 3 (Some (AVarray n (replicate n None))) =
     Inr (3 + n, [9, word_of_nat (2 * n + 1), 1] @ replicate n 1)"
proof -
  have wf: "amf_wfs n (replicate n None)" "amf_rooms n (replicate n None) \<le> 3"
    "amf_wires n (replicate n None) = replicate n 1" by (induction n) auto
  then show ?thesis
    using amf_encode_wire_aux(1) [of "Some (AVarray n (replicate n None))" 3] wf assms u29_bytes_small [OF assms]
    by simp
qed

theorem amf_encode_overruns_room_witness:
  "amf_encode 3 (Some (AVarray 5 (replicate 5 None))) = Inr (3 + 5, [9, word_of_nat (2 * 5 + 1), 1] @ replicate 5 1)"
  by (rule amf_encode_overruns_room) simp

text \<open>\<open>amf_skip\<close> never returns on a non-empty array, whatever follows the header: no
  number of recursive calls is enough, because it does not move past the header.\<close>

theorem amf_skip_array_diverges:
  assumes "amf_decode_array data = Inr (c, Some n)" and "n \<noteq> 0"
  shows "amf_skip fuel refs data = None"
proof (induction fuel rule: less_induct)
  case (less fuel)
  have t: "amf_next_type data = amf_code amf_array"
    using assms by (cases data) (auto simp: amf_decode_array_def split: if_splits)
  obtain m where m: "n = Suc m" using assms(2) by (cases n) auto
  show ?case
  proof (cases fuel)
    case (Suc f)
    have "amf_skip_children f (Suc m) refs data 0 = None"
      using less.IH [of "f - 1"] Suc by (cases f) auto
    with Suc t assms(1) m show ?thesis by simp
  qed simp
qed

theorem amf_skip_array_diverges_witness: "amf_skip 100 [] [9, 3, 1, 1] = None"
  by (rule amf_skip_array_diverges [of _ 3 1]) (simp_all add: amf_read_eval)

text \<open>A message with more than 1024 literal strings writes outside \<open>string_ref\<close>: reading
  an array of \<open>n > 1024\<close> copies of a string faults.\<close>

theorem amf_read_string_table_overflow:
  assumes "length s < 2 ^ 28" and "n < 2 ^ 28" and "STRING_REF_MAX < n"
  shows "amf_read (amf_wire (Some (AVarray n (replicate n (Some (AVstring s)))))) = Inl OutOfBounds"
proof -
  have c: "read_children refs (amf_wires k (replicate k (Some (AVstring s))) @ rest) skip i k v =
      Inl OutOfBounds" if "length refs \<le> STRING_REF_MAX" "STRING_REF_MAX < length refs + k" for refs k rest skip i v
    using that
  proof (induction k arbitrary: refs skip i v)
    case (Suc k)
    show ?case
    proof (cases "length refs < STRING_REF_MAX")
      case True
      with Suc show ?thesis
        using read_string_wire [OF assms(1) True] by (simp add: read_amf.simps)
    next
      case False
      then show ?thesis using Suc.prems assms(1) read_string_full [OF assms(1), of refs]
        by (simp add: read_amf.simps)
    qed
  qed simp
  show ?thesis
    using c [of "[]" n "[]"] assms amf_decode_array_wire [OF assms(2)]
    by (simp add: amf_read_def read_amf.simps read_array.simps)
qed

theorem amf_read_string_table_overflow_witness:
  "amf_read (amf_wire (Some (AVarray 1025 (replicate 1025 (Some (AVstring [])))))) = Inl OutOfBounds"
  by (rule amf_read_string_table_overflow) (simp_all add: STRING_REF_MAX_def)

text \<open>\<open>amf_push\<close> appends: the array stays within its block, keeps the items it had in
  their places and has the new one last; the block is doubled when it is full.\<close>

theorem amf_push_appends:
  assumes "amf_array_ok a"
  shows "\<exists>b. amf_push a v = Inr b \<and> amf_array_ok b \<and> amf_items b = amf_items a @ [v] \<and>
     amf_size (Some b) = amf_size (Some a) + 1 \<and> amf_get (Some b) (amf_size (Some a)) = Inr v"
  using assms
  by (cases a) (auto simp: Let_def list_update_append take_Suc_conv_app_nth nth_append min_def Suc_le_eq)

theorem amf_push_appends_witness:
  "\<exists>b. amf_push (amf_new_array 0) None = Inr b \<and> amf_array_ok b \<and>
     amf_items b = amf_items (amf_new_array 0) @ [None] \<and>
     amf_size (Some b) = amf_size (Some (amf_new_array 0)) + 1 \<and>
     amf_get (Some b) (amf_size (Some (amf_new_array 0))) = Inr None"
  by (rule amf_push_appends) code_simp

end
