(* ===== verification/Buffer.thy ===== *)
theory Buffer
  imports CPrelude
begin

text \<open>
  The growing byte queue of \<open>framework/buffer.c\<close> and its wrapper \<open>framework/pipe.c\<close>: the record
  \<open>buffer\<close>, the operations, the representation invariant, and the byte queue it implements,
  stated as the locale \<open>byte_fifo\<close> that the event manager relies on.

  \<open>size_t\<close> arithmetic is on \<open>nat\<close> with the reduction modulo \<open>2^64\<close> written out where a sum or
  a doubling can exceed it; the \<open>assert\<close>s keep the differences from wrapping. A pointer into
  the block is an offset where the caller writes through it and the list of the bytes from it
  to the end of the block where the caller reads. \<open>g\<close> gives the content of bytes that
  \<open>malloc\<close> and \<open>realloc\<close> leave unspecified. The doubling loop may run for ever, so its result
  and that of its callers is an option, \<open>None\<close> for not returning. The counters that only
  \<open>_agB_statistic\<close> prints are left out.
\<close>

section \<open>Operations\<close>

record buffer =
  buf_size :: nat
  rpos :: nat
  wpos :: nat
  buf_data :: "byte list"

definition SIZE_MOD :: nat where
  "SIZE_MOD = 2 ^ 64"

text \<open>\<open>ALIGN(s)\<close>: the next multiple of four, modulo \<open>2^64\<close>.\<close>

definition ALIGN :: "nat \<Rightarrow> nat" where
  "ALIGN s = (s + 3) mod SIZE_MOD div 4 * 4"

definition agB_new :: "(nat \<Rightarrow> byte) \<Rightarrow> bool \<Rightarrow> nat \<Rightarrow> buffer option" where
  "agB_new g mem sz =
     (let sz = (if sz = 0 then 64 else sz); sz = ALIGN sz
      in if mem then Some \<lparr>buf_size = sz, rpos = 0, wpos = 0, buf_data = map g [0..<sz]\<rparr> else None)"

definition CHECK :: "buffer \<Rightarrow> bool" where
  "CHECK b \<longleftrightarrow> wpos b \<le> buf_size b \<and> rpos b \<le> buf_size b \<and> wpos b \<ge> rpos b"

definition agB_size :: "buffer \<Rightarrow> nat res" where
  "agB_size b = (if CHECK b then Inr (wpos b - rpos b) else Inl Assertion)"

definition agB_align :: "buffer \<Rightarrow> buffer" where
  "agB_align b =
     (if rpos b > 0 \<and> wpos b > rpos b then
        (let s = wpos b - rpos b
         in b\<lparr>buf_data := store_at (buf_data b) 0 (take s (drop (rpos b) (buf_data b))),
              rpos := 0, wpos := s\<rparr>)
      else b)"

text \<open>The status 0 or -1 of the code is \<open>True\<close> or \<open>False\<close>.\<close>

definition agB_resize :: "(nat \<Rightarrow> byte) \<Rightarrow> bool \<Rightarrow> buffer \<Rightarrow> nat \<Rightarrow> (bool \<times> buffer) res" where
  "agB_resize g mem b sz =
     (if sz < wpos b - rpos b then Inr (False, b)
      else (let b = (if wpos b > sz then agB_align b else b)
            in if \<not> wpos b \<le> sz then Inl Assertion
               else if \<not> mem then Inr (False, b)
               else Inr (True, b\<lparr>buf_data := take sz (buf_data b) @ map g [length (buf_data b)..<sz],
                                 buf_size := sz\<rparr>)))"

definition agB_peek :: "buffer \<Rightarrow> nat \<Rightarrow> byte list option res" where
  "agB_peek b len =
     (if \<not> CHECK b then Inl Assertion
      else if wpos b - rpos b < len then Inr None
      else Inr (Some (drop (rpos b) (buf_data b))))"

definition agB_read :: "buffer \<Rightarrow> nat \<Rightarrow> (byte list option \<times> buffer) res" where
  "agB_read b len =
     (if \<not> CHECK b then Inl Assertion
      else if wpos b - rpos b < len then Inr (None, b)
      else Inr (Some (drop (rpos b) (buf_data b)), b\<lparr>rpos := rpos b + len\<rparr>))"

definition agB_buffer ::
  "(nat \<Rightarrow> byte) \<Rightarrow> bool \<Rightarrow> buffer \<Rightarrow> nat \<Rightarrow> (nat option \<times> buffer) res option" where
  "agB_buffer g mem b len =
     (if \<not> CHECK b then Some (Inl Assertion)
      else case double_until (buf_size b) ((wpos b - rpos b + len) mod SIZE_MOD) of
        None \<Rightarrow> None
      | Some ns \<Rightarrow>
          Some (case (if ns \<noteq> buf_size b then agB_resize g mem b ns else Inr (True, b)) of
            Inl f \<Rightarrow> Inl f
          | Inr (False, b) \<Rightarrow> Inr (None, b)
          | Inr (True, b) \<Rightarrow>
              (let b = (if rpos b = wpos b then b\<lparr>rpos := 0, wpos := 0\<rparr> else b);
                   b = (if buf_size b - wpos b < len then agB_align b else b)
               in if \<not> buf_size b - wpos b \<ge> len then Inl Assertion
                  else Inr (Some (wpos b), b\<lparr>wpos := wpos b + len\<rparr>))))"

definition agB_write ::
  "(nat \<Rightarrow> byte) \<Rightarrow> bool \<Rightarrow> buffer \<Rightarrow> byte list \<Rightarrow> nat \<Rightarrow> (bool \<times> buffer) res option" where
  "agB_write g mem b src len =
     (case agB_buffer g mem b len of
        None \<Rightarrow> None
      | Some r \<Rightarrow> Some (case r of
          Inl f \<Rightarrow> Inl f
        | Inr (None, b) \<Rightarrow> Inr (False, b)
        | Inr (Some ptr, b) \<Rightarrow>
            if length src < len then Inl OutOfBounds
            else Inr (True, b\<lparr>buf_data := store_at (buf_data b) ptr (take len src)\<rparr>)))"

definition agB_getc :: "buffer \<Rightarrow> (byte \<times> buffer) res" where
  "agB_getc b =
     (case agB_read b 1 of
        Inl f \<Rightarrow> Inl f
      | Inr (None, b) \<Rightarrow> Inr (0, b)
      | Inr (Some [], b) \<Rightarrow> Inl OutOfBounds
      | Inr (Some (c # _), b) \<Rightarrow> Inr (c, b))"

definition agB_putc :: "(nat \<Rightarrow> byte) \<Rightarrow> bool \<Rightarrow> buffer \<Rightarrow> byte \<Rightarrow> (bool \<times> buffer) res option" where
  "agB_putc g mem b c = agB_write g mem b [c] 1"

section \<open>Pipes\<close>

text \<open>A pipe is a structure with the pointer to its buffer, null if \<open>_agB_new\<close> failed.\<close>

record pipe =
  pipe_buf :: "buffer option"

definition agP_open :: "(nat \<Rightarrow> byte) \<Rightarrow> bool \<Rightarrow> nat \<Rightarrow> pipe" where
  "agP_open g mem sz = \<lparr>pipe_buf = agB_new g mem sz\<rparr>"

definition agP_size :: "pipe \<Rightarrow> nat res" where
  "agP_size p = (case pipe_buf p of None \<Rightarrow> Inl NullDeref | Some b \<Rightarrow> agB_size b)"

definition agP_write ::
  "(nat \<Rightarrow> byte) \<Rightarrow> bool \<Rightarrow> pipe \<Rightarrow> byte list \<Rightarrow> nat \<Rightarrow> (bool \<times> pipe) res option" where
  "agP_write g mem p src len =
     (case pipe_buf p of
        None \<Rightarrow> Some (Inl NullDeref)
      | Some b \<Rightarrow> map_option (map_sum id (\<lambda>(r, b). (r, p\<lparr>pipe_buf := Some b\<rparr>)))
                    (agB_write g mem b src len))"

definition agP_buffer ::
  "(nat \<Rightarrow> byte) \<Rightarrow> bool \<Rightarrow> pipe \<Rightarrow> nat \<Rightarrow> (nat option \<times> pipe) res option" where
  "agP_buffer g mem p len =
     (case pipe_buf p of
        None \<Rightarrow> Some (Inl NullDeref)
      | Some b \<Rightarrow> map_option (map_sum id (\<lambda>(r, b). (r, p\<lparr>pipe_buf := Some b\<rparr>)))
                    (agB_buffer g mem b len))"

definition agP_peek :: "pipe \<Rightarrow> nat \<Rightarrow> byte list option res" where
  "agP_peek p len = (case pipe_buf p of None \<Rightarrow> Inl NullDeref | Some b \<Rightarrow> agB_peek b len)"

definition agP_read :: "pipe \<Rightarrow> nat \<Rightarrow> (byte list option \<times> pipe) res" where
  "agP_read p len =
     (case pipe_buf p of
        None \<Rightarrow> Inl NullDeref
      | Some b \<Rightarrow> map_sum id (\<lambda>(r, b). (r, p\<lparr>pipe_buf := Some b\<rparr>)) (agB_read b len))"

section \<open>Invariant and abstraction\<close>

definition buf_ok :: "buffer \<Rightarrow> bool" where
  "buf_ok b \<longleftrightarrow> CHECK b \<and> length (buf_data b) = buf_size b \<and> 0 < buf_size b \<and> buf_size b < SIZE_MOD"

text \<open>The bytes waiting to be read.\<close>

definition pending :: "buffer \<Rightarrow> byte list" where
  "pending b = take (wpos b - rpos b) (drop (rpos b) (buf_data b))"

text \<open>The byte queue that the clients of the buffer see: what a successful write or read does.\<close>

definition buf_put :: "(nat \<Rightarrow> byte) \<Rightarrow> buffer \<Rightarrow> byte list \<Rightarrow> buffer option" where
  "buf_put g b d =
     (case agB_write g True b d (length d) of Some (Inr (True, b')) \<Rightarrow> Some b' | _ \<Rightarrow> None)"

definition buf_get :: "buffer \<Rightarrow> nat \<Rightarrow> (byte list \<times> buffer) option" where
  "buf_get b n = (case agB_read b n of Inr (Some q, b') \<Rightarrow> Some (take n q, b') | _ \<Rightarrow> None)"

text \<open>What a byte queue promises: \<open>put\<close> appends, \<open>get\<close> takes from the front.\<close>

locale byte_fifo =
  fixes inv :: "'s \<Rightarrow> bool"
    and contents :: "'s \<Rightarrow> byte list"
    and put :: "'s \<Rightarrow> byte list \<Rightarrow> 's option"
    and get :: "'s \<Rightarrow> nat \<Rightarrow> (byte list \<times> 's) option"
  assumes put_ok: "inv s \<Longrightarrow> length (contents s) + length d \<le> 2 ^ 63 \<Longrightarrow>
      \<exists>s'. put s d = Some s' \<and> inv s' \<and> contents s' = contents s @ d"
    and get_ok: "inv s \<Longrightarrow> n \<le> length (contents s) \<Longrightarrow>
      \<exists>s'. get s n = Some (take n (contents s), s') \<and> inv s' \<and> contents s' = drop n (contents s)"
    and get_short: "inv s \<Longrightarrow> length (contents s) < n \<Longrightarrow> get s n = None"
begin

lemma get_front:
  assumes "inv s" and "contents s = d @ rest"
  obtains s' where "get s (length d) = Some (d, s')" and "inv s'" and "contents s' = rest"
  using get_ok [of s "length d"] assms by auto

lemma put_twice:
  assumes "inv s" and "length (contents s) + length d + length e \<le> 2 ^ 63"
  obtains s1 s2 where "put s d = Some s1" and "put s1 e = Some s2" and "inv s1" and "inv s2"
    and "contents s1 = contents s @ d" and "contents s2 = contents s @ d @ e"
proof -
  obtain s1 where 1: "put s d = Some s1" "inv s1" "contents s1 = contents s @ d"
    using put_ok [of s d] assms by auto
  moreover obtain s2 where "put s1 e = Some s2" "inv s2" "contents s2 = contents s @ d @ e"
    using put_ok [of s1 e] assms 1 by auto
  ultimately show thesis using that by blast
qed

lemma put_empty_get:
  assumes "inv s" and "contents s = []" and "length d \<le> 2 ^ 63"
  obtains s1 s2 where "put s d = Some s1" and "get s1 (length d) = Some (d, s2)" and "inv s2"
    and "contents s2 = []"
proof -
  obtain s1 where 1: "put s d = Some s1" "inv s1" "contents s1 = d @ []"
    using put_ok [of s d] assms by auto
  obtain s2 where "get s1 (length d) = Some (d, s2)" "inv s2" "contents s2 = []"
    using get_front [OF 1(2,3)] .
  with 1 show thesis using that by blast
qed

end

section \<open>The operations keep the invariant\<close>

lemma length_pending [simp]: "buf_ok b \<Longrightarrow> length (pending b) = wpos b - rpos b"
  by (auto simp: pending_def buf_ok_def CHECK_def)

lemma agB_new_ok:
  assumes "sz \<le> 2 ^ 63"
  shows "\<exists>b. agB_new g True sz = Some b \<and> buf_ok b \<and> pending b = [] \<and> sz \<le> buf_size b \<and> 4 dvd buf_size b"
  using assms by (auto simp: agB_new_def ALIGN_def buf_ok_def CHECK_def pending_def SIZE_MOD_def Let_def) 

lemma agB_align_ok:
  assumes "buf_ok b"
  shows "buf_ok (agB_align b)" and "pending (agB_align b) = pending b"
    and "buf_size (agB_align b) = buf_size b"
    and "rpos b < wpos b \<Longrightarrow> wpos (agB_align b) = wpos b - rpos b \<and> rpos (agB_align b) = 0"
  using assms
  by (auto simp: agB_align_def buf_ok_def CHECK_def pending_def Let_def store_at_def)

lemma agB_resize_grow:
  assumes "buf_ok b" and "buf_size b \<le> ns" and "ns < 2 ^ 64"
  shows "\<exists>b'. agB_resize g True b ns = Inr (True, b') \<and> buf_ok b' \<and> pending b' = pending b
      \<and> rpos b' = rpos b \<and> wpos b' = wpos b \<and> buf_size b' = ns"
    and "agB_resize g False b ns = Inr (False, b)"
  using assms
  by (auto simp: agB_resize_def buf_ok_def CHECK_def pending_def SIZE_MOD_def Let_def)

text \<open>The block handed out by \<open>_agB_buffer\<close>, without the growth before it.\<close>

lemma agB_claim_ok:
  assumes "buf_ok b" and "wpos b - rpos b + len \<le> buf_size b"
  defines "c \<equiv> (if rpos b = wpos b then b\<lparr>rpos := 0, wpos := 0\<rparr> else b)"
  defines "d \<equiv> (if buf_size c - wpos c < len then agB_align c else c)"
  shows "buf_ok d \<and> pending d = pending b \<and> len \<le> buf_size d - wpos d \<and> buf_size d = buf_size b"
proof -
  have c: "buf_ok c" "pending c = pending b" "buf_size c = buf_size b"
    "wpos c - rpos c = wpos b - rpos b" "rpos c = wpos c \<longrightarrow> wpos c = 0"
    using assms(1) by (auto simp: c_def buf_ok_def CHECK_def pending_def)
  show ?thesis
    using c assms(2) agB_align_ok [OF c(1)]
    by (cases "rpos c < wpos c") (auto simp: d_def buf_ok_def CHECK_def)
qed

lemma agB_buffer_ok:
  assumes "buf_ok b" and "length (pending b) + len \<le> 2 ^ 63"
  shows "\<exists>p c. agB_buffer g True b len = Some (Inr (Some p, c\<lparr>wpos := p + len\<rparr>)) \<and>
      buf_ok c \<and> pending c = pending b \<and> p = wpos c \<and> p + len \<le> buf_size c"
proof -
  have chk: "CHECK b" using assms(1) by (simp add: buf_ok_def)
  have nr: "(wpos b - rpos b + len) mod SIZE_MOD = wpos b - rpos b + len"
    using assms by (simp add: SIZE_MOD_def)
  obtain ns where ns: "double_until (buf_size b) (wpos b - rpos b + len) = Some ns"
    "buf_size b \<le> ns" "wpos b - rpos b + len \<le> ns" "ns < 2 ^ 64"
    using double_until_ok [of "buf_size b" "wpos b - rpos b + len"] assms
    by (auto simp: buf_ok_def SIZE_MOD_def)
  obtain e where e: "(if ns \<noteq> buf_size b then agB_resize g True b ns else Inr (True, b)) = Inr (True, e)"
    "buf_ok e" "pending e = pending b" "rpos e = rpos b" "wpos e = wpos b" "buf_size e = ns"
    using agB_resize_grow(1) [OF assms(1) ns(2,4), of g] assms(1) by (cases "ns = buf_size b") auto
  define c where "c = (if rpos e = wpos e then e\<lparr>rpos := 0, wpos := 0\<rparr> else e)"
  define d where "d = (if buf_size c - wpos c < len then agB_align c else c)"
  have d: "buf_ok d" "pending d = pending b" "len \<le> buf_size d - wpos d"
    using agB_claim_ok [OF e(2), of len, folded c_def, folded d_def] e ns(3) by auto
  have "agB_buffer g True b len = Some (Inr (Some (wpos d), d\<lparr>wpos := wpos d + len\<rparr>))"
    using e(1) ns(1) chk nr d(3)
    by (cases "buf_size c - wpos c < len") (simp_all add: agB_buffer_def Let_def d_def flip: c_def)
  moreover have "wpos d + len \<le> buf_size d" using d by (auto simp: buf_ok_def CHECK_def)
  ultimately show ?thesis using d by blast
qed

lemma agB_write_ok:
  assumes "buf_ok b" and "length (pending b) + length d \<le> 2 ^ 63"
  shows "\<exists>b'. agB_write g True b d (length d) = Some (Inr (True, b')) \<and> buf_ok b' \<and>
      pending b' = pending b @ d"
proof -
  obtain p c where c: "agB_buffer g True b (length d) = Some (Inr (Some p, c\<lparr>wpos := p + length d\<rparr>))"
    "buf_ok c" "pending c = pending b" "p = wpos c" "p + length d \<le> buf_size c"
    using agB_buffer_ok [OF assms] by blast
  let ?b = "c\<lparr>wpos := p + length d, buf_data := store_at (buf_data c) p d\<rparr>"
  have "rpos c \<le> p" "length (buf_data c) = buf_size c" using c by (auto simp: buf_ok_def CHECK_def)
  then have "take (p + length d - rpos c) (drop (rpos c) (store_at (buf_data c) p d)) =
      take (p - rpos c) (drop (rpos c) (buf_data c)) @ d"
    using c(5) by (simp add: store_at_def drop_take)
  then have "pending ?b = pending b @ d" using c(3,4) by (simp add: pending_def)
  moreover have "buf_ok ?b" using c by (auto simp: buf_ok_def CHECK_def)
  moreover have "agB_write g True b d (length d) = Some (Inr (True, ?b))"
    using c(1) by (simp add: agB_write_def)
  ultimately show ?thesis by blast
qed

lemma agB_read_ok:
  assumes "buf_ok b" and "n \<le> length (pending b)"
  shows "\<exists>q b'. agB_read b n = Inr (Some q, b') \<and> take n q = take n (pending b) \<and> n \<le> length q \<and>
      buf_ok b' \<and> pending b' = drop n (pending b)"
proof -
  have n: "n \<le> wpos b - rpos b" using assms by simp
  have "CHECK b" "length (buf_data b) = buf_size b" using assms(1) by (simp_all add: buf_ok_def)
  then show ?thesis
    using n assms(1)
    by (auto simp: agB_read_def buf_ok_def CHECK_def pending_def drop_take min_def add.commute)
qed

lemma agB_read_short:
  "buf_ok b \<Longrightarrow> length (pending b) < n \<Longrightarrow> agB_read b n = Inr (None, b)"
  by (auto simp: agB_read_def buf_ok_def)

interpretation bf: byte_fifo buf_ok pending "buf_put g" buf_get for g
proof unfold_locales
  show "\<exists>s'. buf_put g s d = Some s' \<and> buf_ok s' \<and> pending s' = pending s @ d"
    if "buf_ok s" "length (pending s) + length d \<le> 2 ^ 63" for s d
    using agB_write_ok [OF that, of g] by (auto simp: buf_put_def)
  show "\<exists>s'. buf_get s n = Some (take n (pending s), s') \<and> buf_ok s' \<and> pending s' = drop n (pending s)"
    if "buf_ok s" "n \<le> length (pending s)" for s n
    using agB_read_ok [OF that] by (auto simp: buf_get_def)
  show "buf_get s n = None" if "buf_ok s" "length (pending s) < n" for s n
    using agB_read_short [OF that] by (simp add: buf_get_def)
qed


lemma agB_buffer_no_memory:
  assumes "buf_ok b" and "length (pending b) + len \<le> 2 ^ 63" and "buf_size b < length (pending b) + len"
  shows "agB_buffer g False b len = Some (Inr (None, b))"
proof -
  have nr: "(wpos b - rpos b + len) mod SIZE_MOD = wpos b - rpos b + len"
    using assms by (simp add: SIZE_MOD_def)
  obtain ns where ns: "double_until (buf_size b) (wpos b - rpos b + len) = Some ns"
    "buf_size b \<le> ns" "wpos b - rpos b + len \<le> ns" "ns < 2 ^ 64"
    using double_until_ok [of "buf_size b" "wpos b - rpos b + len"] assms
    by (auto simp: buf_ok_def SIZE_MOD_def)
  then show ?thesis
    using agB_resize_grow(2) [OF assms(1) ns(2,4), of g] assms nr
    by (simp add: agB_buffer_def buf_ok_def)
qed

section \<open>Properties\<close>

text \<open>C2: The buffer is a byte queue: after any write whose pending bytes stay within
  \<open>2^63\<close>, \<open>_agB_write\<close> returns 0, no assertion fails, the invariant holds, and reading all
  pending bytes gives those that were waiting followed by the new ones, however the block was
  moved or grown, and leaves the buffer empty.\<close>

theorem agB_write_read_fifo:
  assumes "buf_ok b" and "length (pending b) + length d \<le> 2 ^ 63"
  shows "\<exists>b1 q b2. agB_write g True b d (length d) = Some (Inr (True, b1)) \<and> buf_ok b1 \<and>
     agB_size b1 = Inr (length (pending b) + length d) \<and>
     agB_read b1 (length (pending b) + length d) = Inr (Some q, b2) \<and>
     take (length (pending b) + length d) q = pending b @ d \<and> buf_ok b2 \<and> agB_size b2 = Inr 0"
proof -
  obtain b1 where b1: "agB_write g True b d (length d) = Some (Inr (True, b1))" "buf_ok b1"
    "pending b1 = pending b @ d"
    using agB_write_ok [OF assms] by blast
  have sz: "agB_size c = Inr (length (pending c))" if "buf_ok c" for c
    using that by (simp add: agB_size_def buf_ok_def)
  obtain q b2 where "agB_read b1 (length (pending b1)) = Inr (Some q, b2)"
    "take (length (pending b1)) q = pending b1" "buf_ok b2" "pending b2 = []"
    using agB_read_ok [OF b1(2), of "length (pending b1)"] by auto
  then show ?thesis using b1 sz [of b1] sz [of b2] by auto
qed

theorem agB_write_read_fifo_witness:
  "\<exists>b1 q b2. agB_write (\<lambda>_. 0) True
       \<lparr>buf_size = 4, rpos = 1, wpos = 3, buf_data = [9, 7, 8, 9]\<rparr> [5, 6, 4] (length [5, 6, 4 :: byte]) =
       Some (Inr (True, b1)) \<and> buf_ok b1 \<and> agB_size b1 = Inr (length [7, 8 :: byte] + length [5, 6, 4 :: byte]) \<and>
     agB_read b1 (length [7, 8 :: byte] + length [5, 6, 4 :: byte]) = Inr (Some q, b2) \<and>
     take (length [7, 8 :: byte] + length [5, 6, 4 :: byte]) q = [7, 8] @ [5, 6, 4] \<and>
     buf_ok b2 \<and> agB_size b2 = Inr 0"
proof -
  let ?b = "\<lparr>buf_size = 4, rpos = 1, wpos = 3, buf_data = [9, 7, 8, 9]\<rparr>"
  have "buf_ok ?b" by (simp add: buf_ok_def CHECK_def SIZE_MOD_def)
  moreover have "pending ?b = [7, 8]" by (simp add: pending_def)
  ultimately show ?thesis using agB_write_read_fifo [of ?b "[5, 6, 4]" "\<lambda>_. 0"] by simp
qed

text \<open>A write that needs a larger block and finds no memory returns -1 and leaves the
  buffer as it was, pending bytes included.\<close>

theorem agB_write_no_memory:
  assumes "buf_ok b" and "length (pending b) + length d \<le> 2 ^ 63"
    and "buf_size b < length (pending b) + length d"
  shows "agB_write g False b d (length d) = Some (Inr (False, b))"
  using agB_buffer_no_memory [OF assms] by (simp add: agB_write_def)

theorem agB_write_no_memory_witness:
  "agB_write (\<lambda>_. 0) False \<lparr>buf_size = 4, rpos = 0, wpos = 3, buf_data = [9, 7, 8, 9]\<rparr> [5, 6] (length [5, 6 :: byte]) =
     Some (Inr (False, \<lparr>buf_size = 4, rpos = 0, wpos = 3, buf_data = [9, 7, 8, 9]\<rparr>))"
  by (rule agB_write_no_memory) (simp_all add: buf_ok_def CHECK_def pending_def SIZE_MOD_def)

text \<open>The doubling loop of \<open>_agB_buffer\<close> returns for every request of at most \<open>2^63\<close>
  bytes, with a size that is large enough and below \<open>2^64\<close>; above that a buffer of 64 bytes,
  the default size, wraps to 0 and the call never returns.\<close>

theorem agB_grow_returns:
  assumes "0 < ns" and "ns < 2 ^ 64"
  shows "(nr \<le> 2 ^ 63 \<longrightarrow> (\<exists>m. double_until ns nr = Some m \<and> ns \<le> m \<and> nr \<le> m \<and> m < 2 ^ 64)) \<and>
     (2 ^ 63 < nr \<longrightarrow> double_until 64 nr = None)"
proof -
  have step: "double_until (2 ^ k) nr = double_until (2 ^ (k + 1) mod 2 ^ 64) nr"
    if "k \<le> 63" "2 ^ 63 < nr" for k
  proof -
    have "(2::nat) ^ k \<le> 2 ^ 63" using that by (intro power_increasing) auto
    then show ?thesis using that by (subst double_until.simps) (simp add: mult.commute)
  qed
  have pow: "double_until (2 ^ (63 - j)) nr = None" if "2 ^ 63 < nr" "j \<le> 63" for j
    using that(2)
  proof (induction j)
    case 0
    then show ?case using step [of 63] double_until_zero [of nr] that(1) by simp
  next
    case (Suc j)
    have "(2::nat) ^ (63 - Suc j + 1) mod 2 ^ 64 = 2 ^ (63 - j)"
    proof -
      have "(2::nat) ^ (63 - j) < 2 ^ 64" by (rule power_strict_increasing) auto
      moreover have "63 - Suc j + 1 = 63 - j" using Suc.prems by simp
      ultimately show ?thesis by (simp only: mod_less)
    qed
    then show ?case using step [of "63 - Suc j"] that(1) Suc by simp
  qed
  show ?thesis
    using double_until_ok [OF assms] pow [of 57] by simp
qed

theorem agB_grow_returns_witness:
  "\<exists>m. double_until 64 1000 = Some m \<and> 64 \<le> m \<and> 1000 \<le> m \<and> m < 2 ^ 64"
  using agB_grow_returns [of 64 1000] by simp

end
