(* ===== verification/EventManager.thy ===== *)
theory EventManager
  imports Buffer
begin

text \<open>
  The event manager of \<open>world/event_manager.c\<close>: watchers in linked lists, one list per event id,
  and a byte queue of dispatched events that \<open>agEvent_schedule\<close> drains.

  The watcher nodes live in an explicit store from addresses (0 is null) to records, since
  the lists share it with the free list. The field \<open>prev\<close> is never used and left out. A
  callback is a parameter: \<open>run\<close> gets the callback, the event id, the pointer \<open>param\<close> as an
  offset into the block of the event buffer (\<open>None\<close> for null), the length and the watcher's
  context, and transforms the state of the event manager together with the rest of the
  program's state \<open>'w\<close>. The loops over watchers and over events may not end when callbacks
  keep watching or dispatching, so they run on fuel, \<open>None\<close> when it is used up.
\<close>

section \<open>State\<close>

record ('cb, 'ctx) watcher =
  w_next :: nat
  w_cb :: 'cb
  w_ctx :: 'ctx

record WatcherList =
  wl_head :: nat
  wl_tail :: nat

record ('cb, 'ctx) EventManager =
  ev_heap :: "nat \<Rightarrow> ('cb, 'ctx) watcher option"
  ev_fresh :: nat
  free_watcher :: nat
  events :: "WatcherList list"
  eventBuffer :: "buffer option"
  eventBuffer_freed :: bool

definition MAX_EVENT_ID :: nat where
  "MAX_EVENT_ID = 1024"

definition no_watchers :: WatcherList where
  "no_watchers = \<lparr>wl_head = 0, wl_tail = 0\<rparr>"

section \<open>Watchers\<close>

text \<open>The address returned by \<open>malloc\<close> is one that was never handed out. With a free watcher
  at hand the code stores its own successor into it and leaves \<open>free_watcher\<close> as it is.\<close>

definition alloc_watcher ::
  "('cb, 'ctx) EventManager \<Rightarrow> (nat \<times> ('cb, 'ctx) EventManager) res" where
  "alloc_watcher st =
     (if free_watcher st = 0 then Inr (ev_fresh st, st\<lparr>ev_fresh := ev_fresh st + 1\<rparr>)
      else (let w = free_watcher st
            in case ev_heap st w of
                 None \<Rightarrow> Inl UseAfterFree
               | Some n \<Rightarrow> Inr (w, st\<lparr>ev_heap := (ev_heap st)(w \<mapsto> n\<lparr>w_next := w_next n\<rparr>)\<rparr>)))"

definition release_watcher ::
  "('cb, 'ctx) EventManager \<Rightarrow> nat \<Rightarrow> ('cb, 'ctx) EventManager res" where
  "release_watcher st w =
     (case ev_heap st w of
        None \<Rightarrow> Inl UseAfterFree
      | Some n \<Rightarrow> Inr (st\<lparr>ev_heap := (ev_heap st)(w \<mapsto> n\<lparr>w_next := free_watcher st\<rparr>),
                         free_watcher := w\<rparr>))"

partial_function (option) cleanup_wather ::
  "(nat \<Rightarrow> ('cb, 'ctx) watcher option) \<Rightarrow> nat \<Rightarrow> (nat \<Rightarrow> ('cb, 'ctx) watcher option) res option" where
  "cleanup_wather h l =
     (if l = 0 then Some (Inr h)
      else case h l of
        None \<Rightarrow> Some (Inl UseAfterFree)
      | Some n \<Rightarrow> cleanup_wather (h(l := None)) (w_next n))"

section \<open>Module functions\<close>

definition module_event_manager_load ::
  "('cb, 'ctx) EventManager \<Rightarrow> int \<times> ('cb, 'ctx) EventManager" where
  "module_event_manager_load st = (0, st\<lparr>events := replicate MAX_EVENT_ID no_watchers\<rparr>)"

fun cleanup_events :: "nat \<Rightarrow> ('cb, 'ctx) EventManager \<Rightarrow> ('cb, 'ctx) EventManager res option" where
  "cleanup_events 0 st = Some (Inr st)"
| "cleanup_events (Suc k) st =
     (let i = MAX_EVENT_ID - Suc k; l = events st ! i
      in if wl_head l \<noteq> 0 then
           (case cleanup_wather (ev_heap st) (wl_head l) of
              None \<Rightarrow> None
            | Some (Inl f) \<Rightarrow> Some (Inl f)
            | Some (Inr h) \<Rightarrow>
                cleanup_events k (st\<lparr>ev_heap := h, events := (events st)[i := no_watchers]\<rparr>))
         else cleanup_events k st)"

text \<open>\<open>_agB_free\<close> frees the buffer; the pointer to it stays.\<close>

definition module_event_manager_unload ::
  "('cb, 'ctx) EventManager \<Rightarrow> ('cb, 'ctx) EventManager res option" where
  "module_event_manager_unload st =
     (case cleanup_events MAX_EVENT_ID st of
        None \<Rightarrow> None
      | Some (Inl f) \<Rightarrow> Some (Inl f)
      | Some (Inr st) \<Rightarrow>
          if eventBuffer st \<noteq> None \<and> eventBuffer_freed st then Some (Inl UseAfterFree)
          else (let st = st\<lparr>eventBuffer_freed := eventBuffer st \<noteq> None\<rparr>
                in case cleanup_wather (ev_heap st) (free_watcher st) of
                     None \<Rightarrow> None
                   | Some (Inl f) \<Rightarrow> Some (Inl f)
                   | Some (Inr h) \<Rightarrow> Some (Inr (st\<lparr>ev_heap := h, free_watcher := 0\<rparr>))))"

section \<open>Events\<close>

text \<open>The three writes ignore their status; \<open>mem i\<close> is the outcome of the i-th allocation.\<close>

definition ev_write ::
  "(nat \<Rightarrow> byte) \<Rightarrow> bool \<Rightarrow> buffer res option \<Rightarrow> byte list \<Rightarrow> nat \<Rightarrow> buffer res option" where
  "ev_write g mem r d len =
     (case r of
        None \<Rightarrow> None
      | Some (Inl f) \<Rightarrow> Some (Inl f)
      | Some (Inr b) \<Rightarrow> map_option (map_sum id snd) (agB_write g mem b d len))"

definition agEvent_dispatch ::
  "(nat \<Rightarrow> byte) \<Rightarrow> (nat \<Rightarrow> bool) \<Rightarrow> ('cb, 'ctx) EventManager \<Rightarrow> nat \<Rightarrow> byte list \<Rightarrow> nat \<Rightarrow>
   (int \<times> ('cb, 'ctx) EventManager) res option" where
  "agEvent_dispatch g mem st eid param len =
     (if eid \<ge> MAX_EVENT_ID then Some (Inr (-1, st))
      else case (case eventBuffer st of
                   None \<Rightarrow> agB_new g (mem 0) 4096 | Some b \<Rightarrow> Some b) of
        None \<Rightarrow> Some (Inl NullDeref)
      | Some b \<Rightarrow>
          if eventBuffer st \<noteq> None \<and> eventBuffer_freed st then Some (Inl UseAfterFree)
          else (let r = Some (Inr b);
                    r = ev_write g (mem 1) r (le_bytes 4 eid) 4;
                    r = ev_write g (mem 2) r (le_bytes 8 len) 8;
                    r = ev_write g (mem 3) r param len
                in map_option (map_sum id (\<lambda>b. (0, st\<lparr>eventBuffer := Some b\<rparr>))) r))"

definition agEvent_watch ::
  "('cb, 'ctx) EventManager \<Rightarrow> nat \<Rightarrow> 'cb \<Rightarrow> 'ctx \<Rightarrow> (int \<times> ('cb, 'ctx) EventManager) res" where
  "agEvent_watch st eid cb ctx =
     (if eid \<ge> MAX_EVENT_ID then Inr (-1, st)
      else case alloc_watcher st of
        Inl f \<Rightarrow> Inl f
      | Inr (w, st) \<Rightarrow>
          (let st = st\<lparr>ev_heap := (ev_heap st)(w \<mapsto> \<lparr>w_next = 0, w_cb = cb, w_ctx = ctx\<rparr>)\<rparr>;
               l = events st ! eid;
               l = (if wl_head l = 0 then l\<lparr>wl_head := w\<rparr> else l)
           in if wl_tail l \<noteq> 0 then
                (case ev_heap st (wl_tail l) of
                   None \<Rightarrow> Inl UseAfterFree
                 | Some t \<Rightarrow>
                     Inr (0, st\<lparr>ev_heap := (ev_heap st)(wl_tail l \<mapsto> t\<lparr>w_next := w\<rparr>),
                                events := (events st)[eid := l\<lparr>wl_tail := w\<rparr>]\<rparr>))
              else Inr (0, st\<lparr>events := (events st)[eid := l\<lparr>wl_tail := w\<rparr>]\<rparr>)))"

text \<open>Reading an \<open>int\<close> through the pointer \<open>_agB_read\<close> returned, sign-extended to \<open>size_t\<close>
  when it is assigned to one.\<close>

definition read_int :: "byte list option \<Rightarrow> nat res" where
  "read_int q =
     (case q of
        None \<Rightarrow> Inl NullDeref
      | Some q \<Rightarrow> if length q < 4 then Inl OutOfBounds else Inr (le_nat (take 4 q)))"

definition sign_extend :: "nat \<Rightarrow> nat" where
  "sign_extend i = (if i < 2 ^ 31 then i else i + 2 ^ 64 - 2 ^ 32)"

type_synonym ('cb, 'ctx, 'w) callback =
  "'cb \<Rightarrow> nat \<Rightarrow> nat option \<Rightarrow> nat \<Rightarrow> 'ctx \<Rightarrow>
   ('cb, 'ctx) EventManager \<times> 'w \<Rightarrow> ('cb, 'ctx) EventManager \<times> 'w"

fun ev_walk ::
  "('cb, 'ctx, 'w) callback \<Rightarrow> nat \<Rightarrow> nat \<Rightarrow> nat option \<Rightarrow> nat \<Rightarrow> nat \<Rightarrow>
   ('cb, 'ctx) EventManager \<times> 'w \<Rightarrow> (('cb, 'ctx) EventManager \<times> 'w) res option" where
  "ev_walk run fuel eid param len ite sw =
     (if ite = 0 then Some (Inr sw)
      else case fuel of
        0 \<Rightarrow> None
      | Suc fuel \<Rightarrow>
          (case ev_heap (fst sw) ite of
             None \<Rightarrow> Some (Inl UseAfterFree)
           | Some n \<Rightarrow>
               (let sw = run (w_cb n) eid param len (w_ctx n) sw
                in case ev_heap (fst sw) ite of
                     None \<Rightarrow> Some (Inl UseAfterFree)
                   | Some n \<Rightarrow> ev_walk run fuel eid param len (w_next n) sw)))"

declare ev_walk.simps [simp del]

text \<open>One event: read the id, the length and the parameter, then walk the list.\<close>

definition ev_next :: "buffer \<Rightarrow> (nat \<times> nat \<times> nat option \<times> buffer) res" where
  "ev_next b =
     (case agB_read b 4 of
        Inl f \<Rightarrow> Inl f
      | Inr (q, b) \<Rightarrow>
          (case read_int q of
             Inl f \<Rightarrow> Inl f
           | Inr eid \<Rightarrow>
               (case agB_read b 8 of
                  Inl f \<Rightarrow> Inl f
                | Inr (q, b) \<Rightarrow>
                    (case read_int q of
                       Inl f \<Rightarrow> Inl f
                     | Inr len \<Rightarrow>
                         (case agB_read b (sign_extend len) of
                            Inl f \<Rightarrow> Inl f
                          | Inr (q, b') \<Rightarrow>
                              Inr (eid, sign_extend len,
                                   (case q of None \<Rightarrow> None | Some _ \<Rightarrow> Some (rpos b)), b'))))))"

fun ev_loop ::
  "('cb, 'ctx, 'w) callback \<Rightarrow> nat \<Rightarrow> ('cb, 'ctx) EventManager \<times> 'w \<Rightarrow>
   (('cb, 'ctx) EventManager \<times> 'w) res option" where
  "ev_loop run 0 sw = None"
| "ev_loop run (Suc fuel) (st, w) =
     (case eventBuffer st of
        None \<Rightarrow> Some (Inl NullDeref)
      | Some b \<Rightarrow>
          if eventBuffer_freed st then Some (Inl UseAfterFree)
          else (case agB_size b of
            Inl f \<Rightarrow> Some (Inl f)
          | Inr n \<Rightarrow>
              if n = 0 then Some (Inr (st, w))
              else (case ev_next b of
                Inl f \<Rightarrow> Some (Inl f)
              | Inr (eid, len, param, b) \<Rightarrow>
                  if eid \<ge> length (events st) then Some (Inl OutOfBounds)
                  else (case ev_walk run fuel eid param len (wl_head (events st ! eid))
                               (st\<lparr>eventBuffer := Some b\<rparr>, w) of
                    None \<Rightarrow> None
                  | Some (Inl f) \<Rightarrow> Some (Inl f)
                  | Some (Inr sw) \<Rightarrow> ev_loop run fuel sw))))"

definition agEvent_schedule ::
  "('cb, 'ctx, 'w) callback \<Rightarrow> nat \<Rightarrow> ('cb, 'ctx) EventManager \<times> 'w \<Rightarrow>
   (int \<times> ('cb, 'ctx) EventManager \<times> 'w) res option" where
  "agEvent_schedule run fuel sw =
     (if eventBuffer (fst sw) = None then Some (Inr (0, sw))
      else map_option (map_sum id (\<lambda>sw. (0, sw))) (ev_loop run fuel sw))"

definition module_event_manager_update ::
  "('cb, 'ctx, 'w) callback \<Rightarrow> nat \<Rightarrow> ('cb, 'ctx) EventManager \<times> 'w \<Rightarrow>
   (('cb, 'ctx) EventManager \<times> 'w) res option" where
  "module_event_manager_update run fuel sw =
     map_option (map_sum id snd) (agEvent_schedule run fuel sw)"

section \<open>Invariant and abstraction\<close>

text \<open>The nodes of a watcher list, followed from its head to null.\<close>

fun wchain :: "(nat \<Rightarrow> ('cb, 'ctx) watcher option) \<Rightarrow> nat \<Rightarrow> nat list \<Rightarrow> bool" where
  "wchain h a [] = (a = 0)"
| "wchain h a (x # xs) =
     (a = x \<and> x \<noteq> 0 \<and> (case h x of None \<Rightarrow> False | Some n \<Rightarrow> wchain h (w_next n) xs))"

text \<open>\<open>ls i\<close> are the addresses of the watchers of event \<open>i\<close>, in the order they were added.\<close>

definition ev_inv :: "('cb, 'ctx) EventManager \<Rightarrow> (nat \<Rightarrow> nat list) \<Rightarrow> bool" where
  "ev_inv st ls \<longleftrightarrow>
     free_watcher st = 0 \<and> 0 < ev_fresh st \<and> length (events st) = MAX_EVENT_ID \<and>
     (\<forall>i < MAX_EVENT_ID.
        wchain (ev_heap st) (wl_head (events st ! i)) (ls i) \<and>
        wl_tail (events st ! i) = (if ls i = [] then 0 else last (ls i)) \<and>
        distinct (ls i) \<and> (\<forall>a \<in> set (ls i). a < ev_fresh st) \<and>
        (\<forall>j < MAX_EVENT_ID. i \<noteq> j \<longrightarrow> set (ls i) \<inter> set (ls j) = {}))"

definition ev_sub :: "('cb, 'ctx) EventManager \<Rightarrow> nat \<Rightarrow> ('cb \<times> 'ctx) option" where
  "ev_sub st a = map_option (\<lambda>n. (w_cb n, w_ctx n)) (ev_heap st a)"

text \<open>The callbacks and contexts registered for event \<open>i\<close>.\<close>

definition ev_subs ::
  "('cb, 'ctx) EventManager \<Rightarrow> (nat \<Rightarrow> nat list) \<Rightarrow> nat \<Rightarrow> ('cb \<times> 'ctx) option list" where
  "ev_subs st ls i = map (ev_sub st) (ls i)"

fun ev_frame :: "nat \<times> byte list \<Rightarrow> byte list" where
  "ev_frame (eid, param) = le_bytes 4 eid @ le_bytes 8 (length param) @ param"

definition ev_ok :: "nat \<times> byte list \<Rightarrow> bool" where
  "ev_ok e \<longleftrightarrow> fst e < MAX_EVENT_ID \<and> length (snd e) < 2 ^ 31"

text \<open>The events waiting in the queue.\<close>

definition ev_queued :: "('cb, 'ctx) EventManager \<Rightarrow> (nat \<times> byte list) list \<Rightarrow> bool" where
  "ev_queued st evs \<longleftrightarrow>
     \<not> eventBuffer_freed st \<and> (\<forall>e \<in> set evs. ev_ok e) \<and>
     (case eventBuffer st of
        None \<Rightarrow> evs = []
      | Some b \<Rightarrow> buf_ok b \<and> pending b = concat (map ev_frame evs))"

text \<open>The bytes a callback sees at \<open>param\<close>.\<close>

definition ev_param :: "('cb, 'ctx) EventManager \<Rightarrow> nat option \<Rightarrow> nat \<Rightarrow> byte list" where
  "ev_param st p len =
     (case (eventBuffer st, p) of
        (Some b, Some p) \<Rightarrow> take len (drop p (buf_data b))
      | _ \<Rightarrow> [])"

text \<open>Callbacks that leave the event manager alone; \<open>f\<close> is what they do to the rest.\<close>

definition cb_passive ::
  "('cb, 'ctx, 'w) callback \<Rightarrow> ('cb \<times> 'ctx \<Rightarrow> nat \<Rightarrow> byte list \<Rightarrow> 'w \<Rightarrow> 'w) \<Rightarrow> bool" where
  "cb_passive run f \<longleftrightarrow>
     (\<forall>cb eid p len ctx st w. run cb eid p len ctx (st, w) = (st, f (cb, ctx) eid (ev_param st p len) w))"

text \<open>Delivery of one event to a list of subscribers.\<close>

fun deliver ::
  "('cb \<times> 'ctx \<Rightarrow> nat \<Rightarrow> byte list \<Rightarrow> 'w \<Rightarrow> 'w) \<Rightarrow> ('cb \<times> 'ctx) option list \<Rightarrow>
   nat \<times> byte list \<Rightarrow> 'w \<Rightarrow> 'w" where
  "deliver f [] e w = w"
| "deliver f (None # ss) e w = w"
| "deliver f (Some s # ss) e w = deliver f ss e (f s (fst e) (snd e) w)"

section \<open>Watcher lists\<close>

lemma wchain_frame:
  "wchain h a xs \<Longrightarrow> w \<notin> set xs \<Longrightarrow> wchain (h(w \<mapsto> n)) a xs"
  by (induction h a xs rule: wchain.induct) (auto split: option.splits)

lemma wchain_append:
  assumes "wchain h a (xs @ [t])" and "w \<notin> set (xs @ [t])" and "w \<noteq> 0" and "distinct (xs @ [t])"
    and "h t = Some tn" and "w_next n = 0"
  shows "wchain (h(w \<mapsto> n, t \<mapsto> tn\<lparr>w_next := w\<rparr>)) a (xs @ [t, w])"
  using assms by (induction xs arbitrary: a) (auto split: option.splits)

lemma wchain_last: "wchain h a (xs @ [t]) \<Longrightarrow> \<exists>n. h t = Some n"
  by (induction xs arbitrary: a) (auto split: option.splits)

lemma wchain_head: "wchain h a xs \<Longrightarrow> a = 0 \<longleftrightarrow> xs = []"
  by (cases xs) auto

lemma wchain_nonzero: "wchain h a xs \<Longrightarrow> 0 \<notin> set xs"
  by (induction h a xs rule: wchain.induct) (auto split: option.splits)

lemma ev_watch_ok:
  assumes inv: "ev_inv st ls" and i: "i < MAX_EVENT_ID"
  defines "w \<equiv> ev_fresh st"
  shows "\<exists>st'. agEvent_watch st i cb ctx = Inr (0, st') \<and> ev_inv st' (ls(i := ls i @ [w])) \<and>
     (\<forall>j < MAX_EVENT_ID. ev_subs st' (ls(i := ls i @ [w])) j =
        ev_subs st ls j @ (if j = i then [Some (cb, ctx)] else [])) \<and>
     eventBuffer st' = eventBuffer st \<and> eventBuffer_freed st' = eventBuffer_freed st"
proof -
  let ?n = "\<lparr>w_next = 0, w_cb = cb, w_ctx = ctx\<rparr>"
  have w: "w \<notin> set (ls j)" "w \<noteq> 0" if "j < MAX_EVENT_ID" for j
    using inv that by (auto simp: ev_inv_def w_def)
  have c: "wchain (ev_heap st) (wl_head (events st ! j)) (ls j)" if "j < MAX_EVENT_ID" for j
    using inv that by (simp add: ev_inv_def)
  show ?thesis
  proof (cases "ls i = []")
    case True
    then have h0: "wl_head (events st ! i) = 0" "wl_tail (events st ! i) = 0"
      using inv i by (auto simp: ev_inv_def)
    let ?st = "st\<lparr>ev_fresh := w + 1, ev_heap := (ev_heap st)(w \<mapsto> ?n),
      events := (events st)[i := (events st ! i)\<lparr>wl_head := w, wl_tail := w\<rparr>]\<rparr>"
    have "agEvent_watch st i cb ctx = Inr (0, ?st)"
      using inv i h0 by (simp add: agEvent_watch_def alloc_watcher_def ev_inv_def w_def Let_def)
    moreover have "ev_inv ?st (ls(i := ls i @ [w]))"
      using inv i True w wchain_frame [OF c w(1)]
      by (auto simp: ev_inv_def nth_list_update less_Suc_eq w_def)
    moreover have "ev_subs ?st (ls(i := ls i @ [w])) j =
        ev_subs st ls j @ (if j = i then [Some (cb, ctx)] else [])" if "j < MAX_EVENT_ID" for j
      using w that True by (auto simp: ev_subs_def ev_sub_def)
    ultimately show ?thesis by auto
  next
    case False
    then obtain xs t where t: "ls i = xs @ [t]" by (metis append_butlast_last_id)
    have tl: "wl_tail (events st ! i) = t" "wl_head (events st ! i) \<noteq> 0"
      using inv i t c [OF i] wchain_head by (auto simp: ev_inv_def)
    obtain tn where tn: "ev_heap st t = Some tn" using wchain_last c [OF i] t by metis
    have tw: "t \<noteq> w" "t \<noteq> 0" using w [OF i] t wchain_nonzero [OF c [OF i]] by auto
    let ?h = "(ev_heap st)(w \<mapsto> ?n, t \<mapsto> tn\<lparr>w_next := w\<rparr>)"
    let ?st = "st\<lparr>ev_fresh := w + 1, ev_heap := ?h,
      events := (events st)[i := (events st ! i)\<lparr>wl_tail := w\<rparr>]\<rparr>"
    have step: "agEvent_watch st i cb ctx = Inr (0, ?st)"
      using inv i tl tn tw by (simp add: agEvent_watch_def alloc_watcher_def ev_inv_def w_def Let_def)
    have dst: "distinct (ls i)" using inv i by (simp add: ev_inv_def)
    have other: "t \<notin> set (ls j)" if "j < MAX_EVENT_ID" "j \<noteq> i" for j
      using inv i t that by (auto simp: ev_inv_def)
    moreover have "wchain ?h (wl_head (events st ! i)) (ls i @ [w])"
      using wchain_append [OF c [OF i, unfolded t] _ w(2) [OF i] _ tn, of ?n] w(1) [OF i] t dst
      by simp
    moreover have "wchain ?h (wl_head (events st ! j)) (ls j)" if "j < MAX_EVENT_ID" "j \<noteq> i" for j
      using wchain_frame [OF wchain_frame [OF c w(1)] other] that by blast
    ultimately have "ev_inv ?st (ls(i := ls i @ [w]))"
      using inv i w by (auto simp: ev_inv_def nth_list_update less_Suc_eq w_def)
    moreover have "ev_subs ?st (ls(i := ls i @ [w])) j =
        ev_subs st ls j @ (if j = i then [Some (cb, ctx)] else [])" if "j < MAX_EVENT_ID" for j
      using w [OF that] tn tw by (auto simp: ev_subs_def ev_sub_def)
    ultimately show ?thesis using step by auto
  qed
qed


section \<open>The queue\<close>

lemma buf_getD:
  assumes "buf_get b n = Some (d, b')"
  shows "\<exists>q. agB_read b n = Inr (Some q, b') \<and> take n q = d \<and> q = drop (rpos b) (buf_data b) \<and>
    buf_data b' = buf_data b"
  using assms by (auto simp: buf_get_def agB_read_def split: sum.splits prod.splits option.splits if_splits)

lemma buf_putD: "buf_put g b d = Some b' \<Longrightarrow> agB_write g True b d (length d) = Some (Inr (True, b'))"
  by (auto simp: buf_put_def split: option.splits sum.splits prod.splits bool.splits)

lemma ev_next_ok:
  assumes "buf_ok b" and "pending b = ev_frame (i, d) @ rest" and "ev_ok (i, d)"
  shows "\<exists>p b'. ev_next b = Inr (i, length d, Some p, b') \<and> buf_ok b' \<and> pending b' = rest \<and>
    take (length d) (drop p (buf_data b')) = d"
proof -
  obtain b1 where b1: "buf_get b 4 = Some (le_bytes 4 i, b1)" "buf_ok b1"
    "pending b1 = le_bytes 8 (length d) @ d @ rest"
    using bf.get_front [of b "le_bytes 4 i" "le_bytes 8 (length d) @ d @ rest"] assms by auto
  obtain b2 where b2: "buf_get b1 8 = Some (le_bytes 8 (length d), b2)" "buf_ok b2" "pending b2 = d @ rest"
    using bf.get_front [of b1 "le_bytes 8 (length d)" "d @ rest"] b1 by auto
  obtain b3 where b3: "buf_get b2 (length d) = Some (d, b3)" "buf_ok b3" "pending b3 = rest"
    using bf.get_front [of b2 d rest] b2 by auto
  have i: "le_nat (le_bytes 4 i) = i" and d: "le_nat (le_bytes 4 (length d)) = length d"
    "length d < 2 ^ 31"
    using assms(3) by (simp_all add: ev_ok_def MAX_EVENT_ID_def le_nat_bytes)
  obtain q1 where q1: "agB_read b 4 = Inr (Some q1, b1)" "take 4 q1 = le_bytes 4 i"
    using buf_getD [OF b1(1)] by auto
  obtain q2 where q2: "agB_read b1 8 = Inr (Some q2, b2)" "take 8 q2 = le_bytes 8 (length d)"
    using buf_getD [OF b2(1)] by auto
  obtain q3 where q3: "agB_read b2 (length d) = Inr (Some q3, b3)" "take (length d) q3 = d"
    "q3 = drop (rpos b2) (buf_data b2)" "buf_data b3 = buf_data b2"
    using buf_getD [OF b3(1)] by auto
  have "take 4 q2 = le_bytes 4 (length d)"
    using arg_cong [OF q2(2), of "take 4"] take_le_bytes [of 4 8 "length d"] by simp
  moreover have "4 \<le> length q1" "4 \<le> length q2"
    using arg_cong [OF q1(2), of length] arg_cong [OF q2(2), of length] by simp_all
  ultimately have "ev_next b = Inr (i, length d, Some (rpos b2), b3)"
    using q1 q2(1) q3(1) i d by (simp add: ev_next_def read_int_def sign_extend_def)
  then show ?thesis using b3 q3 by auto
qed

lemma ev_write_put:
  assumes "buf_put g b d = Some b'"
  shows "ev_write g True (Some (Inr b)) d (length d) = Some (Inr b')"
  using buf_putD [OF assms] by (simp add: ev_write_def)

lemma ev_dispatch_ok:
  assumes "ev_queued st evs" and "ev_ok (i, d)" and "length (concat (map ev_frame evs)) + length d < 2 ^ 62"
  shows "\<exists>b. agEvent_dispatch g (\<lambda>_. True) st i d (length d) = Some (Inr (0, st\<lparr>eventBuffer := Some b\<rparr>)) \<and>
     ev_queued (st\<lparr>eventBuffer := Some b\<rparr>) (evs @ [(i, d)])"
proof -
  obtain b where b: "(case eventBuffer st of None \<Rightarrow> agB_new g True 4096 | Some b \<Rightarrow> Some b) = Some b"
    "buf_ok b" "pending b = concat (map ev_frame evs)"
    using assms(1) agB_new_ok [of 4096 g] by (cases "eventBuffer st") (auto simp: ev_queued_def)
  have room: "length (pending b) + length (le_bytes 4 i) + length (le_bytes 8 (length d)) \<le> 2 ^ 63"
    using b(3) assms(3) by simp
  obtain b1 b2 where b2: "buf_put g b (le_bytes 4 i) = Some b1" "buf_put g b1 (le_bytes 8 (length d)) = Some b2"
    "buf_ok b2" "pending b2 = pending b @ le_bytes 4 i @ le_bytes 8 (length d)"
    using bf.put_twice [OF b(2) room] by blast
  obtain b3 where b3: "buf_put g b2 d = Some b3" "buf_ok b3" "pending b3 = pending b2 @ d"
    using bf.put_ok [OF b2(3), of d g] b2(4) b(3) assms(3) by auto
  have "agEvent_dispatch g (\<lambda>_. True) st i d (length d) = Some (Inr (0, st\<lparr>eventBuffer := Some b3\<rparr>))"
    using b(1) assms(1,2) ev_write_put [OF b2(1)] ev_write_put [OF b2(2)] ev_write_put [OF b3(1)]
    by (simp add: agEvent_dispatch_def ev_ok_def ev_queued_def Let_def)
  moreover have "ev_queued (st\<lparr>eventBuffer := Some b3\<rparr>) (evs @ [(i, d)])"
    using assms(1,2) b b2 b3 by (simp add: ev_queued_def)
  ultimately show ?thesis by blast
qed

section \<open>Delivery\<close>

lemma ev_walk_ok:
  assumes "cb_passive run f" and "wchain (ev_heap st) a xs" and "length xs \<le> fuel"
  shows "ev_walk run fuel eid p len a (st, w) =
    Some (Inr (st, deliver f (map (ev_sub st) xs) (eid, ev_param st p len) w))"
  using assms(2,3)
proof (induction xs arbitrary: a fuel w)
  case Nil
  then show ?case by (simp add: ev_walk.simps)
next
  case (Cons x xs)
  then obtain n fuel' where n: "ev_heap st x = Some n" "wchain (ev_heap st) (w_next n) xs" "fuel = Suc fuel'"
    by (cases fuel) (auto split: option.splits)
  then have "ev_sub st x = Some (w_cb n, w_ctx n)" by (simp add: ev_sub_def)
  then show ?case
    using n Cons assms(1) by (subst ev_walk.simps) (simp add: cb_passive_def Let_def)
qed

lemma ev_inv_buffer [simp]: "ev_inv (st\<lparr>eventBuffer := b\<rparr>) ls = ev_inv st ls"
  by (simp add: ev_inv_def)

lemma ev_sub_buffer [simp]: "ev_sub (st\<lparr>eventBuffer := b\<rparr>) = ev_sub st"
  by (simp add: ev_sub_def fun_eq_iff)

lemma ev_loop_ok:
  assumes "cb_passive run f" and "ev_inv st ls" and "eventBuffer st = Some b" and "ev_queued st evs"
    and "\<forall>i < MAX_EVENT_ID. length (ls i) + length evs < fuel"
  shows "\<exists>b'. ev_loop run fuel (st, w) = Some (Inr (st\<lparr>eventBuffer := Some b'\<rparr>,
      fold (\<lambda>e. deliver f (ev_subs st ls (fst e)) e) evs w)) \<and> buf_ok b' \<and> pending b' = []"
  using assms(2-)
proof (induction evs arbitrary: st b w fuel)
  case Nil
  then have "agB_size b = Inr 0" "buf_ok b" "pending b = []"
    using length_pending [of b] by (auto simp: ev_queued_def agB_size_def buf_ok_def)
  moreover obtain fuel' where "fuel = Suc fuel'"
    using Nil(4) [rule_format, of 0] by (cases fuel) (auto simp: MAX_EVENT_ID_def)
  moreover have "st\<lparr>eventBuffer := Some b\<rparr> = st" using Nil(2) by (cases st) simp
  ultimately show ?case using Nil by (intro exI [of _ b]) (auto simp: ev_queued_def)
next
  case (Cons e evs)
  obtain i d where e: "e = (i, d)" by force
  have b: "buf_ok b" "pending b = ev_frame (i, d) @ concat (map ev_frame evs)" "ev_ok (i, d)"
    using Cons.prems(2,3) e by (auto simp: ev_queued_def)
  have i: "i < MAX_EVENT_ID" "i < length (events st)"
    using b(3) Cons.prems(1) by (simp_all add: ev_ok_def ev_inv_def)
  obtain fuel' where fuel: "fuel = Suc fuel'" "length (ls i) \<le> fuel'"
    using Cons.prems(4) i(1) by (cases fuel) fastforce+
  obtain p b1 where b1: "ev_next b = Inr (i, length d, Some p, b1)" "buf_ok b1"
    "pending b1 = concat (map ev_frame evs)" "take (length d) (drop p (buf_data b1)) = d"
    using ev_next_ok [OF b] by blast
  let ?st = "st\<lparr>eventBuffer := Some b1\<rparr>"
  have chain: "wchain (ev_heap ?st) (wl_head (events st ! i)) (ls i)"
    using Cons.prems(1) i by (simp add: ev_inv_def)
  have prm: "ev_param ?st (Some p) (length d) = d" using b1(4) by (simp add: ev_param_def)
  have "0 < length (pending b)" by (simp add: b(2) del: length_pending)
  then obtain k where sz: "agB_size b = Inr k" "k \<noteq> 0"
    using length_pending [OF b(1)] b(1) by (simp add: agB_size_def buf_ok_def)
  have freed: "\<not> eventBuffer_freed st" using Cons.prems(3) by (simp add: ev_queued_def)
  have step: "ev_loop run fuel (st, w) = ev_loop run fuel' (?st, deliver f (ev_subs st ls i) (i, d) w)"
    using ev_walk_ok [OF assms(1) chain fuel(2), of i "Some p" "length d" w] Cons.prems(2) freed sz b1(1) i(2) fuel prm
    by (simp add: ev_subs_def not_le)
  have "ev_queued ?st evs" using Cons.prems(3) b1 by (simp add: ev_queued_def)
  moreover have "\<forall>i < MAX_EVENT_ID. length (ls i) + length evs < fuel'"
    using Cons.prems(4) fuel by auto
  ultimately show ?case
    using Cons.IH [of ?st b1 fuel' "deliver f (ev_subs st ls i) (i, d) w"] Cons.prems(1) step e
    by (simp add: ev_subs_def)
qed


section \<open>Properties\<close>

text \<open>\<open>agEvent_watch\<close> keeps the watcher lists intact and appends the callback to the list
  of its event: the subscribers of every other event stay as they were, and so does the queue.\<close>

theorem agEvent_watch_appends:
  assumes "ev_inv st ls" and "i < MAX_EVENT_ID"
  shows "\<exists>st' ls'. agEvent_watch st i cb ctx = Inr (0, st') \<and> ev_inv st' ls' \<and>
     (\<forall>j < MAX_EVENT_ID. ev_subs st' ls' j = ev_subs st ls j @ (if j = i then [Some (cb, ctx)] else [])) \<and>
     eventBuffer st' = eventBuffer st"
  using ev_watch_ok [OF assms] by blast

definition ev_empty :: "('cb, 'ctx) EventManager" where
  "ev_empty = \<lparr>ev_heap = \<lambda>_. None, ev_fresh = 1, free_watcher = 0,
     events = replicate MAX_EVENT_ID no_watchers, eventBuffer = None, eventBuffer_freed = False\<rparr>"

lemma ev_inv_empty: "ev_inv ev_empty (\<lambda>_. [])"
  by (simp add: ev_inv_def ev_empty_def no_watchers_def)

lemma ev_queued_empty: "ev_queued ev_empty []"
  by (simp add: ev_queued_def ev_empty_def)

theorem agEvent_watch_appends_witness:
  "\<exists>st' ls'. agEvent_watch ev_empty 3 ''cb'' (7::nat) = Inr (0, st') \<and> ev_inv st' ls' \<and>
     (\<forall>j < MAX_EVENT_ID. ev_subs st' ls' j =
        ev_subs (ev_empty :: (string, nat) EventManager) (\<lambda>_. []) j @ (if j = 3 then [Some (''cb'', 7)] else [])) \<and>
     eventBuffer st' = eventBuffer (ev_empty :: (string, nat) EventManager)"
  by (rule agEvent_watch_appends [OF ev_inv_empty]) (simp add: MAX_EVENT_ID_def)

text \<open>\<open>agEvent_dispatch\<close> appends the event to the queue and nothing else, whether or not
  the event buffer existed; the watchers are untouched.\<close>

theorem agEvent_dispatch_appends:
  assumes "ev_inv st ls" and "ev_queued st evs" and "i < MAX_EVENT_ID" and "length d < 2 ^ 31"
    and "length (concat (map ev_frame evs)) < 2 ^ 61"
  shows "\<exists>st'. agEvent_dispatch g (\<lambda>_. True) st i d (length d) = Some (Inr (0, st')) \<and>
     ev_inv st' ls \<and> ev_queued st' (evs @ [(i, d)]) \<and>
     (\<forall>j. ev_subs st' ls j = ev_subs st ls j)"
  using ev_dispatch_ok [OF assms(2), of i d g] assms by (auto simp: ev_ok_def ev_subs_def)

theorem agEvent_dispatch_appends_witness:
  "\<exists>st'. agEvent_dispatch (\<lambda>_. 0) (\<lambda>_. True) (ev_empty :: (string, nat) EventManager) 2 [1, 2] (length [1, 2 :: byte]) =
       Some (Inr (0, st')) \<and>
     ev_inv st' (\<lambda>_. []) \<and> ev_queued st' ([] @ [(2, [1, 2])]) \<and>
     (\<forall>j. ev_subs st' (\<lambda>_. []) j = ev_subs (ev_empty :: (string, nat) EventManager) (\<lambda>_. []) j)"
  by (rule agEvent_dispatch_appends [OF ev_inv_empty ev_queued_empty]) (simp_all add: MAX_EVENT_ID_def)

text \<open>C3: \<open>agEvent_schedule\<close> returns, delivers every queued event to every watcher of its id,
  events in the order they were dispatched and watchers in the order they were added, each
  with the bytes it was dispatched with, and leaves the queue empty, when the callbacks do not
  change the event manager. Fuel for one step per event and the longest list is enough.\<close>

theorem agEvent_schedule_delivers:
  assumes "cb_passive run f" and "ev_inv st ls" and "ev_queued st evs"
    and "\<forall>i < MAX_EVENT_ID. length (ls i) + length evs < fuel"
  shows "\<exists>st'. agEvent_schedule run fuel (st, w) =
       Some (Inr (0, st', fold (\<lambda>e. deliver f (ev_subs st ls (fst e)) e) evs w)) \<and>
     ev_inv st' ls \<and> ev_queued st' []"
proof (cases "eventBuffer st")
  case None
  then show ?thesis using assms(2,3) by (auto simp: agEvent_schedule_def ev_queued_def)
next
  case (Some b)
  obtain b' where "ev_loop run fuel (st, w) = Some (Inr (st\<lparr>eventBuffer := Some b'\<rparr>,
      fold (\<lambda>e. deliver f (ev_subs st ls (fst e)) e) evs w))" "buf_ok b'" "pending b' = []"
    using ev_loop_ok [OF assms(1,2) Some assms(3,4)] by blast
  then show ?thesis using Some assms(2,3) by (auto simp: agEvent_schedule_def ev_queued_def)
qed

theorem agEvent_schedule_delivers_witness:
  "\<exists>st st' ls. agEvent_schedule (\<lambda>cb eid p len ctx (st, w). (st, w @ [(cb, eid, ev_param st p len)])) 9 (st, []) =
       Some (Inr (0, st', fold (\<lambda>e. deliver (\<lambda>s eid d w. w @ [(fst s, eid, d)]) (ev_subs st ls (fst e)) e)
          [(2, [1, 2])] [])) \<and>
     ev_inv st' ls \<and> ev_queued st' [] \<and> ev_subs st ls 2 = [Some (''cb'', 7::nat)]"
proof -
  let ?run = "\<lambda>cb eid p len ctx (st, w). (st, w @ [(cb, eid, ev_param st p len)])"
  let ?f = "\<lambda>s eid d w. w @ [(fst s, eid, d)]"
  let ?st = "ev_empty :: (string, nat) EventManager"
  let ?ls = "(\<lambda>_. [])(2 := [] @ [ev_fresh ?st]) :: nat \<Rightarrow> nat list"
  have two: "2 < MAX_EVENT_ID" by (simp add: MAX_EVENT_ID_def)
  obtain s1 where s: "ev_inv s1 ?ls" "eventBuffer s1 = eventBuffer ?st"
    "eventBuffer_freed s1 = eventBuffer_freed ?st"
    "\<forall>j < MAX_EVENT_ID. ev_subs s1 ?ls j = ev_subs ?st (\<lambda>_. []) j @ (if j = 2 then [Some (''cb'', 7::nat)] else [])"
    using ev_watch_ok [OF ev_inv_empty two, of "''cb''" "7::nat"] by blast
  then have s1: "ev_inv s1 ?ls" "ev_subs s1 ?ls 2 = [Some (''cb'', 7)]" "eventBuffer s1 = None"
    "\<not> eventBuffer_freed s1"
    using s(4) [rule_format, OF two] by (simp_all add: ev_empty_def ev_subs_def)
  have "ev_queued s1 []" using s1 by (simp add: ev_queued_def)
  then obtain b where q: "ev_queued (s1\<lparr>eventBuffer := Some b\<rparr>) [(2, [1, 2])]"
    using ev_dispatch_ok [of s1 "[]" 2 "[1, 2]" "\<lambda>_. 0"] two by (auto simp: ev_ok_def)
  have inv: "ev_inv (s1\<lparr>eventBuffer := Some b\<rparr>) ?ls" using s1(1) by simp
  have p: "cb_passive ?run ?f" by (simp add: cb_passive_def)
  have sub: "ev_subs (s1\<lparr>eventBuffer := Some b\<rparr>) ?ls 2 = [Some (''cb'', 7)]"
    using s1(2) by (simp add: ev_subs_def)
  have "\<forall>i < MAX_EVENT_ID. length (?ls i) + length [(2 :: nat, [1, 2 :: byte])] < 9" by simp
  from agEvent_schedule_delivers [OF p inv q this, of "[]"] sub show ?thesis by blast
qed

end
