(* ===== verification/HeapPool.thy ===== *)
theory HeapPool
  imports CPrelude
begin

text \<open>
  The page allocator of \<open>framework/memory.c\<close> (\<open>struct heap\<close>): blocks are carved off the current
  page, a new page is added when the current one is full, and everything is freed at once.

  A page is the number of its bytes; \<open>hp_pages\<close> has the current page first. An address is the
  number of the page, counted from the oldest, and the offset in it. \<open>int\<close> arithmetic is on
  \<open>int\<close>, an overflow is a fault.
\<close>

section \<open>Operations\<close>

record heap =
  hp_pages :: "int list"
  hp_size :: int
  hp_used :: int

type_synonym addr = "nat \<times> int"

definition INT_MAX :: int where
  "INT_MAX = 2 ^ 31 - 1"

definition int_res :: "int \<Rightarrow> int res" where
  "int_res i = (if - INT_MAX - 1 \<le> i \<and> i \<le> INT_MAX then Inr i else Inl SignedOverflow)"

text \<open>The loop \<open>while(cap < pagesize) cap *= 2\<close> on \<open>int\<close>; \<open>cap\<close> starts at 1024, so it is positive.\<close>

function cap_loop :: "int \<Rightarrow> int \<Rightarrow> int res" where
  "cap_loop cap pagesize =
     (if cap < pagesize \<and> 0 < cap
      then (if cap * 2 \<le> INT_MAX then cap_loop (cap * 2) pagesize else Inl SignedOverflow)
      else Inr cap)"
  by auto
termination
  by (relation "measure (\<lambda>(cap, pagesize). nat (INT_MAX - cap))") (auto simp: INT_MAX_def)

declare cap_loop.simps [simp del]

definition agMH_new :: "int \<Rightarrow> heap res" where
  "agMH_new pagesize =
     (case cap_loop 1024 pagesize of
        Inl f \<Rightarrow> Inl f
      | Inr cap \<Rightarrow> Inr \<lparr>hp_pages = [cap], hp_size = cap, hp_used = 0\<rparr>)"

text \<open>\<open>(size + 3) & ~3\<close> on \<open>int\<close>.\<close>

definition align4 :: "int \<Rightarrow> int res" where
  "align4 sz = (case int_res (sz + 3) of Inl f \<Rightarrow> Inl f | Inr s \<Rightarrow> Inr (s div 4 * 4))"

definition agMH_alloc :: "heap \<Rightarrow> int \<Rightarrow> (addr \<times> heap) res" where
  "agMH_alloc h sz =
     (case align4 sz of
        Inl f \<Rightarrow> Inl f
      | Inr sz \<Rightarrow>
          if hp_size h - hp_used h < sz then
            (let page = (if sz < hp_size h then hp_size h else sz)
             in Inr ((length (hp_pages h), 0),
                     h\<lparr>hp_pages := page # hp_pages h, hp_used := sz\<rparr>))
          else
            Inr ((length (hp_pages h) - 1, hp_used h), h\<lparr>hp_used := hp_used h + sz\<rparr>))"

text \<open>\<open>_agMH_delete\<close> frees the pages one after another, the current one first: the loop reads
  \<open>p->next\<close> before \<open>p\<close> is freed and stops after the last page. The result is the list of the
  pages freed.\<close>

fun free_pages :: "int list \<Rightarrow> nat list" where
  "free_pages [] = []"
| "free_pages (p # ps) = length ps # free_pages ps"

definition agMH_delete :: "heap \<Rightarrow> nat list res" where
  "agMH_delete h = (if hp_pages h = [] then Inl NullDeref else Inr (free_pages (hp_pages h)))"

section \<open>Invariant\<close>

text \<open>The current page exists and holds what is used of it.\<close>

definition heap_ok :: "heap \<Rightarrow> bool" where
  "heap_ok h \<longleftrightarrow>
     (case hp_pages h of
        [] \<Rightarrow> False
      | p # _ \<Rightarrow> 0 \<le> hp_used h \<and> hp_used h \<le> p \<and> hp_size h \<le> p \<and> 1024 \<le> hp_size h \<and> p \<le> INT_MAX)"

text \<open>The bytes of the page that an address lies in.\<close>

definition page_bytes :: "heap \<Rightarrow> nat \<Rightarrow> int" where
  "page_bytes h k = rev (hp_pages h) ! k"

text \<open>Bytes handed out so far: everything of the older pages, the used part of the current one.\<close>

definition handed_out :: "heap \<Rightarrow> addr \<Rightarrow> bool" where
  "handed_out h a \<longleftrightarrow>
     fst a < length (hp_pages h) - 1 \<or> (fst a = length (hp_pages h) - 1 \<and> 0 \<le> snd a \<and> snd a < hp_used h)"

lemma cap_loop_ok:
  "0 < cap \<Longrightarrow> cap \<le> INT_MAX \<Longrightarrow> pagesize \<le> 2 ^ 30 \<Longrightarrow>
     \<exists>c. cap_loop cap pagesize = Inr c \<and> cap \<le> c \<and> pagesize \<le> c \<and> c \<le> INT_MAX"
proof (induction cap pagesize rule: cap_loop.induct)
  case (1 cap pagesize)
  show ?case
  proof (cases "cap < pagesize")
    case True
    then have "cap * 2 \<le> INT_MAX" using 1 by (simp add: INT_MAX_def)
    with 1 True show ?thesis by (subst cap_loop.simps) auto
  next
    case False
    with 1 show ?thesis by (subst cap_loop.simps) auto
  qed
qed

lemma agMH_new_ok:
  assumes "pagesize \<le> 2 ^ 30"
  shows "\<exists>h. agMH_new pagesize = Inr h \<and> heap_ok h \<and> pagesize \<le> hp_size h \<and> hp_used h = 0"
  using cap_loop_ok [of 1024 pagesize] assms by (auto simp: agMH_new_def heap_ok_def INT_MAX_def)

lemma align4_ok:
  assumes "0 \<le> sz" and "sz \<le> INT_MAX - 3"
  shows "\<exists>s. align4 sz = Inr s \<and> sz \<le> s \<and> s \<le> sz + 3 \<and> 4 dvd s"
  using assms by (auto simp: align4_def int_res_def INT_MAX_def) 


lemma agMH_alloc_ok:
  assumes "heap_ok h" and "0 \<le> sz" and "sz \<le> INT_MAX - 3"
  shows "\<exists>k off h'. agMH_alloc h sz = Inr ((k, off), h') \<and> heap_ok h' \<and>
     0 \<le> off \<and> off + sz \<le> page_bytes h' k \<and> k < length (hp_pages h') \<and>
     (\<forall>i. off \<le> i \<and> i < off + sz \<longrightarrow> \<not> handed_out h (k, i) \<and> handed_out h' (k, i)) \<and>
     (\<forall>a. handed_out h a \<longrightarrow> handed_out h' a)"
proof -
  obtain s where s: "align4 sz = Inr s" "sz \<le> s" "s \<le> sz + 3" using align4_ok [OF assms(2,3)] by auto
  obtain p ps where p: "hp_pages h = p # ps" "0 \<le> hp_used h" "hp_used h \<le> p" "hp_size h \<le> p"
    "1024 \<le> hp_size h" "p \<le> INT_MAX"
    using assms(1) by (cases "hp_pages h") (auto simp: heap_ok_def)
  show ?thesis
  proof (cases "hp_size h - hp_used h < s")
    case True
    let ?page = "if s < hp_size h then hp_size h else s"
    let ?h = "h\<lparr>hp_pages := ?page # hp_pages h, hp_used := s\<rparr>"
    have "agMH_alloc h sz = Inr ((length (hp_pages h), 0), ?h)"
      using s True by (simp add: agMH_alloc_def)
    then have eq: "agMH_alloc h sz = Inr ((k, off), h') \<longleftrightarrow> k = length (hp_pages h) \<and> off = 0 \<and> h' = ?h"
      for k off h' by auto
    have "heap_ok ?h" using p s assms by (auto simp: heap_ok_def INT_MAX_def)
    moreover have "page_bytes ?h (length (hp_pages h)) = ?page"
      by (simp add: page_bytes_def nth_append)
    ultimately show ?thesis
      using p s by (simp add: eq handed_out_def)
  next
    case False
    let ?h = "h\<lparr>hp_used := hp_used h + s\<rparr>"
    have "agMH_alloc h sz = Inr ((length ps, hp_used h), ?h)"
      using s p False by (simp add: agMH_alloc_def)
    then have eq: "agMH_alloc h sz = Inr ((k, off), h') \<longleftrightarrow> k = length ps \<and> off = hp_used h \<and> h' = ?h"
      for k off h' by auto
    have "heap_ok ?h" using p s False assms by (auto simp: heap_ok_def)
    moreover have "page_bytes ?h (length ps) = p" using p by (simp add: page_bytes_def nth_append)
    ultimately show ?thesis
      using p s False assms(2) by (auto simp: eq handed_out_def)
  qed
qed

section \<open>Properties\<close>

text \<open>A block returned by \<open>_agMH_alloc\<close> lies within one page, starts at a non-negative
  offset, overlaps no block handed out before, and no earlier block is given up; the
  invariant of the heap is kept.\<close>

theorem agMH_alloc_disjoint:
  assumes "heap_ok h" and "0 \<le> sz" and "sz \<le> INT_MAX - 3"
  shows "\<exists>k off h'. agMH_alloc h sz = Inr ((k, off), h') \<and> heap_ok h' \<and>
     0 \<le> off \<and> off + sz \<le> page_bytes h' k \<and> k < length (hp_pages h') \<and>
     (\<forall>i. off \<le> i \<and> i < off + sz \<longrightarrow> \<not> handed_out h (k, i) \<and> handed_out h' (k, i)) \<and>
     (\<forall>a. handed_out h a \<longrightarrow> handed_out h' a)"
  by (rule agMH_alloc_ok [OF assms])

theorem agMH_alloc_disjoint_witness:
  "\<exists>k off h'. agMH_alloc \<lparr>hp_pages = [1024], hp_size = 1024, hp_used = 1000\<rparr> 30 = Inr ((k, off), h') \<and>
     heap_ok h' \<and> 0 \<le> off \<and> off + 30 \<le> page_bytes h' k \<and> k < length (hp_pages h') \<and>
     (\<forall>i. off \<le> i \<and> i < off + 30 \<longrightarrow>
        \<not> handed_out \<lparr>hp_pages = [1024], hp_size = 1024, hp_used = 1000\<rparr> (k, i) \<and> handed_out h' (k, i)) \<and>
     (\<forall>a. handed_out \<lparr>hp_pages = [1024], hp_size = 1024, hp_used = 1000\<rparr> a \<longrightarrow> handed_out h' a)"
  by (rule agMH_alloc_disjoint) (simp_all add: heap_ok_def INT_MAX_def)

end
