(* ===== verification/AgMap.thy ===== *)
theory AgMap
  imports HeapPool
begin

unbundle bit_operations_syntax

text \<open>
  The chained hash map of \<open>framework/map.c\<close>, for integer keys (\<open>_agMap_ip_*\<close>) and for strings
  (\<open>_agMap_sp_*\<close>), and the contract of a finite map as the locale \<open>finite_map\<close>.

  Every element is in exactly one chain, so a bucket is the list of its elements; the parent
  pointer of an element is the index before it. \<open>buckets\<close> is empty exactly when the pointer is
  null, and its length is \<open>buckets_size\<close>. The null pointer as a value is \<open>None\<close>. String keys
  are the bytes before the terminating zero, which the map relies on its callers not to
  change. A map made on a \<open>heap\<close> takes its memory from there.
\<close>

section \<open>Data\<close>

record ('k, 'v) map_element =
  el_hash :: u64
  el_key :: 'k
  el_value :: 'v

record ('k, 'v) agmap =
  m_heap :: "heap option"
  item_count :: nat
  buckets :: "('k, 'v) map_element list list"

abbreviation buckets_size :: "('k, 'v) agmap \<Rightarrow> nat" where
  "buckets_size m \<equiv> length (buckets m)"

text \<open>\<open>_alloc\<close>: from the heap, whose state changes and whose size argument is an \<open>int\<close>, or by
  \<open>malloc\<close>.\<close>

definition map_alloc :: "heap option \<Rightarrow> nat \<Rightarrow> heap option res" where
  "map_alloc h sz =
     (case h of
        None \<Rightarrow> Inr None
      | Some h \<Rightarrow> map_sum (\<lambda>f. f) (\<lambda>(a, h). Some h) (agMH_alloc h (int_of_size sz)))"

definition agMap_new :: "heap option \<Rightarrow> ('k, 'v) agmap res" where
  "agMap_new h =
     map_sum (\<lambda>f. f) (\<lambda>h. \<lparr>m_heap = h, item_count = 0, buckets = []\<rparr>) (map_alloc h 32)"

text \<open>\<open>_agMap_empty\<close> frees every element, with the values in the order \<open>cb_free\<close> gets them. It
  does not reset \<open>item_count\<close>.\<close>

definition agMap_empty :: "('k, 'v) agmap option \<Rightarrow> 'v list \<times> ('k, 'v) agmap option" where
  "agMap_empty mp =
     (case mp of
        None \<Rightarrow> ([], None)
      | Some m \<Rightarrow> (map el_value (concat (buckets m)),
                  Some (m\<lparr>buckets := map (\<lambda>_. []) (buckets m)\<rparr>)))"

definition agMap_size :: "('k, 'v) agmap \<Rightarrow> nat" where
  "agMap_size m = item_count m"

section \<open>Elements and buckets\<close>

definition insert_element :: "('k, 'v) agmap \<Rightarrow> ('k, 'v) map_element \<Rightarrow> ('k, 'v) agmap res" where
  "insert_element m e =
     (if \<not> buckets_size m > 0 then Inl Assertion
      else (let pos = unat (el_hash e) mod buckets_size m
            in Inr (m\<lparr>buckets := (buckets m)[pos := e # buckets m ! pos],
                      item_count := item_count m + 1\<rparr>)))"

text \<open>The inner loop of \<open>_resize\<close>: the elements of the old buckets in their order.\<close>

fun reinsert :: "('k, 'v) agmap \<Rightarrow> ('k, 'v) map_element list \<Rightarrow> ('k, 'v) agmap res" where
  "reinsert m [] = Inr m"
| "reinsert m (e # es) =
     (case insert_element m e of Inl f \<Rightarrow> Inl f | Inr m \<Rightarrow> reinsert m es)"

definition map_resize :: "('k, 'v) agmap \<Rightarrow> nat \<Rightarrow> ('k, 'v) agmap res option" where
  "map_resize m s =
     (if buckets_size m \<ge> s then Some (Inr m)
      else case double_until (if buckets_size m = 0 then 32 else buckets_size m) s of
        None \<Rightarrow> None
      | Some ns \<Rightarrow>
          Some (case map_alloc (m_heap m) (8 * ns) of
            Inl f \<Rightarrow> Inl f
          | Inr h \<Rightarrow>
              reinsert (m\<lparr>m_heap := h, buckets := replicate ns [], item_count := 0\<rparr>)
                (concat (buckets m))))"

text \<open>The walk along a chain: the index of the first element with this hash and key.\<close>

fun chain_find :: "u64 \<Rightarrow> 'k \<Rightarrow> ('k, 'v) map_element list \<Rightarrow> nat \<Rightarrow> nat option" where
  "chain_find hash key [] i = None"
| "chain_find hash key (e # es) i =
     (if el_hash e \<noteq> hash \<or> el_key e \<noteq> key then chain_find hash key es (i + 1) else Some i)"

definition map_find :: "('k, 'v) agmap option \<Rightarrow> u64 \<Rightarrow> 'k \<Rightarrow> (nat \<times> nat) option" where
  "map_find mp hash key =
     (case mp of
        None \<Rightarrow> None
      | Some m \<Rightarrow>
          if item_count m = 0 \<or> buckets_size m = 0 then None
          else (let pos = unat hash mod buckets_size m
                in map_option (\<lambda>i. (pos, i)) (chain_find hash key (buckets m ! pos) 0)))"

text \<open>The part of the two set functions after the search: \<open>cur\<close> is the bucket and the index
  of the element found.\<close>

definition map_store ::
  "('k, 'v) agmap option \<Rightarrow> (nat \<times> nat) option \<Rightarrow> u64 \<Rightarrow> 'k \<Rightarrow> 'v option \<Rightarrow>
   ('v option \<times> ('k, 'v) agmap option) res option" where
  "map_store mp cur hash key p =
     (case (cur, mp) of
        (Some (pos, i), Some m) \<Rightarrow>
          Some (if \<not> buckets_size m > 0 then Inl Assertion
                else (let chain = buckets m ! pos; o' = el_value (chain ! i)
                      in case p of
                           None \<Rightarrow>
                             Inr (Some o', Some (m\<lparr>buckets := (buckets m)[pos := take i chain @ drop (i + 1) chain],
                                                   item_count := item_count m - 1\<rparr>))
                         | Some v \<Rightarrow>
                             Inr (Some o', Some (m\<lparr>buckets := (buckets m)[pos :=
                                                     chain[i := (chain ! i)\<lparr>el_value := v\<rparr>]]\<rparr>))))
      | _ \<Rightarrow>
          (case (p, mp) of
             (None, _) \<Rightarrow> Some (Inr (None, mp))
           | (Some v, None) \<Rightarrow> Some (Inl NullDeref)
           | (Some v, Some m) \<Rightarrow>
               (case map_resize m (item_count m + 1) of
                  None \<Rightarrow> None
                | Some (Inl f) \<Rightarrow> Some (Inl f)
                | Some (Inr m) \<Rightarrow>
                    Some (case map_alloc (m_heap m) 32 of
                      Inl f \<Rightarrow> Inl f
                    | Inr h \<Rightarrow>
                        map_sum (\<lambda>f. f) (\<lambda>m. (None, Some m))
                          (insert_element (m\<lparr>m_heap := h\<rparr>)
                             \<lparr>el_hash = hash, el_key = key, el_value = v\<rparr>)))))"

section \<open>Integer keys\<close>

definition ip_find :: "(u64, 'v) agmap option \<Rightarrow> u64 \<Rightarrow> (nat \<times> nat) option" where
  "ip_find mp key = map_find mp key key"

definition value_at :: "('k, 'v) agmap option \<Rightarrow> nat \<times> nat \<Rightarrow> 'v option" where
  "value_at mp c = map_option (\<lambda>m. el_value (buckets m ! fst c ! snd c)) mp"

definition agMap_ip_get :: "(u64, 'v) agmap option \<Rightarrow> u64 \<Rightarrow> 'v option" where
  "agMap_ip_get mp key = (case ip_find mp key of None \<Rightarrow> None | Some c \<Rightarrow> value_at mp c)"

definition agMap_ip_set ::
  "(u64, 'v) agmap option \<Rightarrow> u64 \<Rightarrow> 'v option \<Rightarrow> ('v option \<times> (u64, 'v) agmap option) res option" where
  "agMap_ip_set mp key p = map_store mp (ip_find mp key) key key p"

definition agMap_ip_foreach :: "(u64, 'v) agmap \<Rightarrow> (u64 \<Rightarrow> 'v \<Rightarrow> 'w \<Rightarrow> 'w) \<Rightarrow> 'w \<Rightarrow> 'w" where
  "agMap_ip_foreach m func ctx =
     fold (\<lambda>chain ctx. fold (\<lambda>e. func (el_key e) (el_value e)) chain ctx) (buckets m) ctx"

section \<open>String keys\<close>

text \<open>The loop of \<open>_s_calc_hash\<close>; \<open>char\<close> is signed, so a byte is sign-extended.\<close>

function s_hash_loop :: "byte list \<Rightarrow> nat \<Rightarrow> nat \<Rightarrow> u64 \<Rightarrow> u64" where
  "s_hash_loop name step i h =
     (if 0 < step \<and> i \<ge> step
      then s_hash_loop name step (i - step)
             (h XOR (push_bit 5 h + drop_bit 2 h + scast (name ! (i - 1))))
      else h)"
  by auto
termination by (relation "measure (\<lambda>(name, step, i, h). i)") auto

declare s_hash_loop.simps [simp del]

definition s_calc_hash :: "byte list \<Rightarrow> u64" where
  "s_calc_hash name =
     (let len = length name; step = len div 32 + 1
      in s_hash_loop name step len (word_of_nat len))"

definition sp_find :: "(byte list, 'v) agmap option \<Rightarrow> u64 \<Rightarrow> byte list \<Rightarrow> (nat \<times> nat) option" where
  "sp_find mp hash key = map_find mp hash key"

definition agMap_sp_get :: "(byte list, 'v) agmap option \<Rightarrow> byte list \<Rightarrow> 'v option" where
  "agMap_sp_get mp key =
     (case sp_find mp (s_calc_hash key) key of None \<Rightarrow> None | Some c \<Rightarrow> value_at mp c)"

definition agMap_sp_set ::
  "(byte list, 'v) agmap option \<Rightarrow> byte list \<Rightarrow> 'v option \<Rightarrow>
   ('v option \<times> (byte list, 'v) agmap option) res option" where
  "agMap_sp_set mp key p =
     (let hash = s_calc_hash key in map_store mp (sp_find mp hash key) hash key p)"

definition agMap_sp_foreach :: "(byte list, 'v) agmap \<Rightarrow> (byte list \<Rightarrow> 'v \<Rightarrow> 'w \<Rightarrow> 'w) \<Rightarrow> 'w \<Rightarrow> 'w" where
  "agMap_sp_foreach m func ctx =
     fold (\<lambda>chain ctx. fold (\<lambda>e. func (el_key e) (el_value e)) chain ctx) (buckets m) ctx"

section \<open>Iteration\<close>

text \<open>An element is named by its bucket and its index.\<close>

fun find_first :: "('k, 'v) map_element list list \<Rightarrow> nat \<Rightarrow> (nat \<times> nat) option" where
  "find_first [] i = None"
| "find_first (c # cs) i = (if c \<noteq> [] then Some (i, 0) else find_first cs (i + 1))"

definition find_first_from :: "('k, 'v) agmap \<Rightarrow> nat \<Rightarrow> (nat \<times> nat) option" where
  "find_first_from m from = find_first (drop from (buckets m)) from"

definition agMap_next :: "('k, 'v) agmap \<Rightarrow> (nat \<times> nat) option \<Rightarrow> (nat \<times> nat) option" where
  "agMap_next m ite =
     (case ite of
        None \<Rightarrow> find_first_from m 0
      | Some (pos, i) \<Rightarrow>
          if i + 1 < length (buckets m ! pos) then Some (pos, i + 1)
          else find_first_from m (unat (el_hash (buckets m ! pos ! i)) mod buckets_size m + 1))"

definition agMap_sp_next ::
  "(byte list, 'v) agmap option \<Rightarrow> byte list option \<Rightarrow> (nat \<times> nat) option res" where
  "agMap_sp_next mp key =
     (case (mp, key) of
        (None, _) \<Rightarrow> Inr None
      | (Some m, None) \<Rightarrow> Inr (find_first_from m 0)
      | (Some m, Some k) \<Rightarrow>
          (case sp_find mp (s_calc_hash k) k of
             None \<Rightarrow> Inl NullDeref
           | Some (pos, i) \<Rightarrow>
               if i + 1 < length (buckets m ! pos) then Inr (Some (pos, i + 1))
               else Inr (find_first_from m (unat (s_calc_hash k) mod buckets_size m + 1))))"

section \<open>Invariant and contract\<close>

text \<open>Every element is in the bucket of its hash, the hash is that of its key, no key is twice
  in a bucket, and \<open>item_count\<close> is at least the number of elements.\<close>

definition bucket_ok :: "('k \<Rightarrow> u64) \<Rightarrow> nat \<Rightarrow> nat \<Rightarrow> ('k, 'v) map_element list \<Rightarrow> bool" where
  "bucket_ok H n i c \<longleftrightarrow>
     distinct (map el_key c) \<and> (\<forall>e \<in> set c. el_hash e = H (el_key e) \<and> unat (H (el_key e)) mod n = i)"

definition map_ok :: "('k \<Rightarrow> u64) \<Rightarrow> ('k, 'v) agmap \<Rightarrow> bool" where
  "map_ok H m \<longleftrightarrow>
     (\<forall>i < buckets_size m. bucket_ok H (buckets_size m) i (buckets m ! i)) \<and>
     length (concat (buckets m)) \<le> item_count m \<and>
     (case m_heap m of None \<Rightarrow> True | Some h \<Rightarrow> heap_ok h)"

definition elems :: "('k, 'v) agmap \<Rightarrow> ('k, 'v) map_element set" where
  "elems m = set (concat (buckets m))"

definition entries :: "('k, 'v) agmap \<Rightarrow> ('k \<times> 'v) list" where
  "entries m = map (\<lambda>e. (el_key e, el_value e)) (concat (buckets m))"

text \<open>The number of elements the proofs allow, so that the size of the bucket block is an \<open>int\<close>.\<close>

definition map_room :: "('k, 'v) agmap \<Rightarrow> bool" where
  "map_room m \<longleftrightarrow> item_count m < 2 ^ 26"

text \<open>The heap of a map only grows while elements are added.\<close>

definition heap_le :: "heap option \<Rightarrow> heap option \<Rightarrow> bool" where
  "heap_le h h' \<longleftrightarrow>
     (case (h, h') of
        (Some h, Some h') \<Rightarrow> (\<forall>a. handed_out h a \<longrightarrow> handed_out h' a)
      | (None, None) \<Rightarrow> True
      | _ \<Rightarrow> False)"

text \<open>Lookup and update for a hash function \<open>H\<close>: with the identity they are the functions for
  integer keys, with \<open>s_calc_hash\<close> those for strings.\<close>

definition map_get :: "('k \<Rightarrow> u64) \<Rightarrow> ('k, 'v) agmap option \<Rightarrow> 'k \<Rightarrow> 'v option" where
  "map_get H mp k = (case map_find mp (H k) k of None \<Rightarrow> None | Some c \<Rightarrow> value_at mp c)"

definition map_upd ::
  "('k \<Rightarrow> u64) \<Rightarrow> ('k, 'v) agmap \<Rightarrow> 'k \<Rightarrow> 'v option \<Rightarrow> ('v option \<times> ('k, 'v) agmap) option" where
  "map_upd H m k v =
     (case map_store (Some m) (map_find (Some m) (H k) k) (H k) k v of
        Some (Inr (r, Some m')) \<Rightarrow> Some (r, m')
      | _ \<Rightarrow> None)"

text \<open>The contract of a finite map with a partial update: \<open>upd s k None\<close> removes the key. The
  old value is returned.\<close>

locale finite_map =
  fixes inv :: "'s \<Rightarrow> bool"
    and room :: "'s \<Rightarrow> bool"
    and get :: "'s \<Rightarrow> 'k \<Rightarrow> 'v option"
    and upd :: "'s \<Rightarrow> 'k \<Rightarrow> 'v option \<Rightarrow> ('v option \<times> 's) option"
  assumes upd_ok: "inv s \<Longrightarrow> room s \<Longrightarrow>
      \<exists>s'. upd s k v = Some (get s k, s') \<and> inv s' \<and> (\<forall>k'. get s' k' = (if k' = k then v else get s k'))"
begin

lemma upd_same:
  assumes "inv s" and "room s" and "upd s k v = Some (r, s')"
  shows "r = get s k" and "inv s'" and "get s' k = v" and "k' \<noteq> k \<Longrightarrow> get s' k' = get s k'"
  using upd_ok [OF assms(1,2), of k v] assms(3) by auto

lemma upd_twice:
  assumes "inv s" and "room s" and "upd s k v = Some (r, s1)" and "room s1" and "upd s1 k w = Some (q, s2)"
  shows "q = v" and "get s2 k' = (if k' = k then w else get s k')"
  using upd_ok [OF assms(1,2), of k v] upd_ok [of s1 k w] assms(3-) by auto

lemma upd_remove_absent:
  assumes "inv s" and "room s" and "get s k = None" and "upd s k None = Some (r, s')"
  shows "r = None" and "get s' = get s"
  using upd_ok [OF assms(1,2), of k None] assms(3,4) by (auto simp: fun_eq_iff)

end

section \<open>Chains\<close>

lemma chain_find_Some:
  "chain_find h k c i = Some j \<Longrightarrow> i \<le> j \<and> j - i < length c \<and> el_key (c ! (j - i)) = k"
proof (induction c arbitrary: i)
  case (Cons e c)
  then show ?case
    by (fastforce simp: nth_Cons' Suc_diff_le split: if_splits)
qed simp

lemma chain_find_None:
  "(\<forall>e \<in> set c. el_hash e = H (el_key e)) \<Longrightarrow> chain_find (H k) k c i = None \<Longrightarrow> k \<notin> el_key ` set c"
  by (induction c arbitrary: i) (auto split: if_splits)

lemma map_ok_bucket: "map_ok H m \<Longrightarrow> i < buckets_size m \<Longrightarrow> bucket_ok H (buckets_size m) i (buckets m ! i)"
  by (simp add: map_ok_def)

lemma elems_bucket:
  assumes "map_ok H m" and "e \<in> elems m"
  shows "el_hash e = H (el_key e)" and "0 < buckets_size m"
    and "e \<in> set (buckets m ! (unat (H (el_key e)) mod buckets_size m))"
proof -
  obtain i where i: "i < buckets_size m" "e \<in> set (buckets m ! i)"
    using assms(2) by (auto simp: elems_def in_set_conv_nth [of _ "buckets m"])
  then have h: "el_hash e = H (el_key e)" and p: "unat (H (el_key e)) mod buckets_size m = i"
    using assms(1) by (simp_all add: map_ok_def bucket_ok_def)
  show "el_hash e = H (el_key e)" by (fact h)
  show "0 < buckets_size m" using i(1) by (cases "buckets m") auto
  show "e \<in> set (buckets m ! (unat (H (el_key e)) mod buckets_size m))" unfolding p by (fact i(2))
qed

lemma elems_unique:
  assumes "map_ok H m" and "e \<in> elems m" and "d \<in> elems m" and "el_key e = el_key d"
  shows "e = d"
proof -
  let ?p = "unat (H (el_key e)) mod buckets_size m"
  have "e \<in> set (buckets m ! ?p)" "d \<in> set (buckets m ! ?p)" "?p < buckets_size m"
    using elems_bucket(2,3) [OF assms(1,2)] elems_bucket(3) [OF assms(1,3)] assms(4) by simp_all
  moreover have "distinct (map el_key (buckets m ! ?p))"
    using map_ok_bucket [OF assms(1)] calculation(3) unfolding bucket_ok_def by blast
  ultimately show ?thesis using assms(4) by (auto simp: distinct_map dest: inj_onD)
qed

lemma map_find_cases:
  assumes "map_ok H m"
  shows "(map_find (Some m) (H k) k = None \<and> k \<notin> el_key ` elems m) \<or>
    (\<exists>i. map_find (Some m) (H k) k = Some (unat (H k) mod buckets_size m, i) \<and> 0 < buckets_size m \<and>
       i < length (buckets m ! (unat (H k) mod buckets_size m)) \<and>
       el_key (buckets m ! (unat (H k) mod buckets_size m) ! i) = k)"
proof (cases "item_count m = 0 \<or> buckets_size m = 0")
  case True
  then have "elems m = {}" using assms by (auto simp: elems_def map_ok_def)
  with True show ?thesis by (simp add: map_find_def)
next
  case False
  let ?p = "unat (H k) mod buckets_size m"
  have p: "?p < buckets_size m" using False by simp
  show ?thesis
  proof (cases "chain_find (H k) k (buckets m ! ?p) 0")
    case None
    then have "k \<notin> el_key ` set (buckets m ! ?p)"
      using chain_find_None [of "buckets m ! ?p" H k 0] assms p
      unfolding map_ok_def bucket_ok_def by blast
    then have "k \<notin> el_key ` elems m" using elems_bucket(3) [OF assms] by auto
    with None False show ?thesis by (simp add: map_find_def)
  next
    case (Some i)
    then show ?thesis using chain_find_Some [OF Some] False by (simp add: map_find_def Let_def)
  qed
qed


lemma map_get_iff:
  assumes "map_ok H m"
  shows "map_get H (Some m) k = Some v \<longleftrightarrow> (\<exists>e \<in> elems m. el_key e = k \<and> el_value e = v)"
  using map_find_cases [OF assms, of k]
proof
  assume "map_find (Some m) (H k) k = None \<and> k \<notin> el_key ` elems m"
  then show ?thesis by (auto simp: map_get_def)
next
  let ?p = "unat (H k) mod buckets_size m"
  assume "\<exists>i. map_find (Some m) (H k) k = Some (?p, i) \<and> 0 < buckets_size m \<and>
       i < length (buckets m ! ?p) \<and> el_key (buckets m ! ?p ! i) = k"
  then obtain i where i: "map_find (Some m) (H k) k = Some (?p, i)" "?p < buckets_size m"
    "i < length (buckets m ! ?p)" "el_key (buckets m ! ?p ! i) = k" by auto
  then have e: "buckets m ! ?p ! i \<in> elems m" by (auto simp: elems_def intro!: bexI [OF _ nth_mem])
  have "map_get H (Some m) k = Some (el_value (buckets m ! ?p ! i))"
    using i by (simp add: map_get_def value_at_def)
  with e i(4) elems_unique [OF assms e] show ?thesis by auto
qed

lemma map_get_eqI:
  assumes "map_ok H m" and "map_ok H m'"
    and "\<And>v. (\<exists>e \<in> elems m. el_key e = k \<and> el_value e = v) \<longleftrightarrow> (\<exists>e \<in> elems m'. el_key e = k \<and> el_value e = v)"
  shows "map_get H (Some m) k = map_get H (Some m') k"
  using map_get_iff [OF assms(1), of k] map_get_iff [OF assms(2), of k] assms(3)
  by (metis not_None_eq)

section \<open>Replacing one bucket\<close>

lemma set_concat_nth: "set (concat xs) = (\<Union>j < length xs. set (xs ! j))"
  by (induction xs) (auto simp: lessThan_Suc_eq_insert_0)

lemma set_concat_update:
  "i < length bs \<Longrightarrow> set (concat (bs[i := c])) = (\<Union>j \<in> {..<length bs} - {i}. set (bs ! j)) \<union> set c"
  unfolding set_concat_nth by (auto simp: nth_list_update split: if_splits)

lemma length_concat_update:
  fixes bs :: "'a list list"
  assumes "i < length bs"
  shows "length (concat (bs[i := c])) + length (bs ! i) = length (concat bs) + length c"
proof -
  have "length (bs ! i) \<le> sum_list (map length bs)"
    using assms by (intro member_le_sum_list) simp_all
  then show ?thesis using assms by (simp add: length_concat map_update sum_list_update)
qed

lemma bucket_ok_Cons:
  "bucket_ok H n i c \<Longrightarrow> el_key e \<notin> el_key ` set c \<Longrightarrow> el_hash e = H (el_key e) \<Longrightarrow>
     unat (H (el_key e)) mod n = i \<Longrightarrow> bucket_ok H n i (e # c)"
  by (simp add: bucket_ok_def)

lemma map_ok_update:
  assumes "map_ok H m" and "p < buckets_size m" and "bucket_ok H (buckets_size m) p c"
    and "length (concat ((buckets m)[p := c])) \<le> n"
  shows "map_ok H (m\<lparr>buckets := (buckets m)[p := c], item_count := n\<rparr>)"
  using assms by (auto simp: map_ok_def nth_list_update simp del: length_concat)

lemma insert_element_ok:
  assumes "map_ok H m" and "0 < buckets_size m" and "el_hash e = H (el_key e)"
    and "el_key e \<notin> el_key ` elems m"
  shows "\<exists>m'. insert_element m e = Inr m' \<and> map_ok H m' \<and> elems m' = insert e (elems m) \<and>
    item_count m' = item_count m + 1 \<and> buckets_size m' = buckets_size m \<and> m_heap m' = m_heap m \<and>
    length (concat (buckets m')) = length (concat (buckets m)) + 1"
proof -
  let ?p = "unat (el_hash e) mod buckets_size m"
  let ?m = "m\<lparr>buckets := (buckets m)[?p := e # buckets m ! ?p], item_count := item_count m + 1\<rparr>"
  have p: "?p < buckets_size m" using assms(2) by simp
  have l: "length (concat (buckets ?m)) = length (concat (buckets m)) + 1"
    using length_concat_update [OF p, of "e # buckets m ! ?p"] by simp
  have "set (buckets m ! ?p) \<subseteq> elems m" using p by (auto simp only: elems_def set_concat_nth)
  then have k: "el_key e \<notin> el_key ` set (buckets m ! ?p)" using assms(4) by auto
  have "bucket_ok H (buckets_size m) ?p (buckets m ! ?p)" using assms(1) p by (simp add: map_ok_def)
  then have "bucket_ok H (buckets_size m) ?p (e # buckets m ! ?p)"
    using k assms(3) by (intro bucket_ok_Cons) simp_all
  then have "map_ok H ?m"
    using l assms(1) by (intro map_ok_update [OF assms(1) p]) (simp_all add: map_ok_def)
  moreover have "elems ?m = insert e (elems m)"
    using p set_concat_update [OF p, of "e # buckets m ! ?p"] set_concat_update [OF p, of "buckets m ! ?p"]
    by (simp add: elems_def)
  moreover have "insert_element m e = Inr ?m"
    using assms(2) by (simp add: insert_element_def Let_def)
  ultimately show ?thesis using l by auto
qed

lemma reinsert_ok:
  assumes "map_ok H m" and "0 < buckets_size m" and "\<forall>e \<in> set es. el_hash e = H (el_key e)"
    and "distinct (map el_key es)" and "el_key ` set es \<inter> el_key ` elems m = {}"
  shows "\<exists>m'. reinsert m es = Inr m' \<and> map_ok H m' \<and> elems m' = elems m \<union> set es \<and>
    item_count m' = item_count m + length es \<and> buckets_size m' = buckets_size m \<and> m_heap m' = m_heap m \<and>
    length (concat (buckets m')) = length (concat (buckets m)) + length es"
  using assms
proof (induction es arbitrary: m)
  case (Cons e es)
  obtain m1 where m1: "insert_element m e = Inr m1" "map_ok H m1" "elems m1 = insert e (elems m)"
    "item_count m1 = item_count m + 1" "buckets_size m1 = buckets_size m" "m_heap m1 = m_heap m"
    "length (concat (buckets m1)) = length (concat (buckets m)) + 1"
    using insert_element_ok [OF Cons.prems(1,2), of e] Cons.prems by auto
  have "el_key ` set es \<inter> el_key ` elems m1 = {}" using Cons.prems(4,5) m1(3) by auto
  then show ?case using Cons.IH [of m1] m1 Cons.prems by auto
qed simp


lemma distinct_concat_pos:
  assumes "\<And>i. i < length bs \<Longrightarrow> distinct (map f (bs ! i)) \<and> (\<forall>x \<in> set (bs ! i). p (f x) = off + i)"
  shows "distinct (map f (concat bs))"
  using assms
proof (induction bs arbitrary: off)
  case (Cons b bs)
  have "distinct (map f (concat bs))"
    using Cons.prems [of "Suc _"] by (intro Cons.IH [of "off + 1"]) auto
  moreover have "distinct (map f b)" and b: "\<forall>x \<in> set b. p (f x) = off" using Cons.prems [of 0] by auto
  moreover have bs: "p (f x) \<noteq> off" if x: "x \<in> set (concat bs)" for x
  proof -
    obtain i where "i < length bs" "x \<in> set (bs ! i)"
      using x unfolding set_concat_nth by blast
    then show ?thesis using Cons.prems [of "Suc i"] by auto
  qed
  moreover have "f ` set b \<inter> f ` set (concat bs) = {}"
  proof (rule equals0I)
    fix y assume "y \<in> f ` set b \<inter> f ` set (concat bs)"
    then obtain x z where "x \<in> set b" "z \<in> set (concat bs)" "f x = f z" by (elim IntE imageE) simp
    then show False using b bs [of z] by metis
  qed
  ultimately show ?case
    by (simp only: concat.simps map_append distinct_append set_map)
qed simp

lemma map_ok_distinct:
  assumes "map_ok H m"
  shows "distinct (map el_key (concat (buckets m)))"
  using assms
  by (intro distinct_concat_pos [where p = "\<lambda>k. unat (H k) mod buckets_size m" and off = 0])
     (auto simp: map_ok_def bucket_ok_def)

lemma heap_le_refl [simp]: "heap_le h h"
  by (simp add: heap_le_def split: option.splits)

lemma heap_le_trans: "heap_le a b \<Longrightarrow> heap_le b c \<Longrightarrow> heap_le a c"
  by (auto simp: heap_le_def split: option.splits prod.splits)

lemma map_alloc_ok:
  assumes "case h of None \<Rightarrow> True | Some h \<Rightarrow> heap_ok h" and "n < 2 ^ 31 - 4"
  shows "\<exists>h'. map_alloc h n = Inr h' \<and> (case h' of None \<Rightarrow> True | Some h \<Rightarrow> heap_ok h) \<and> heap_le h h'"
proof (cases h)
  case (Some hp)
  then show ?thesis
    using agMH_alloc_ok [of hp "int n"] assms
    by (auto simp: map_alloc_def int_of_size_small INT_MAX_def heap_le_def)
qed (simp add: map_alloc_def heap_le_def)

lemma map_resize_ok:
  assumes "map_ok H m" and "s \<le> 2 ^ 26" and "0 < s"
  shows "\<exists>m'. map_resize m s = Some (Inr m') \<and> map_ok H m' \<and> elems m' = elems m \<and>
    s \<le> buckets_size m' \<and> length (concat (buckets m')) = length (concat (buckets m)) \<and>
    item_count m' \<le> item_count m \<and> heap_le (m_heap m) (m_heap m')"
proof (cases "buckets_size m \<ge> s")
  case True
  with assms show ?thesis by (simp add: map_resize_def)
next
  case False
  let ?n = "if buckets_size m = 0 then 32 else buckets_size m"
  obtain ns where ns: "double_until ?n s = Some ns" "s \<le> ns"
    using double_until_ok [of ?n s] False assms by (cases "buckets_size m = 0") auto
  then have "ns = ?n \<or> ns < 2 * s" using double_until_small [of ?n s ns] assms by auto
  then have "8 * ns < 2 ^ 31 - 4" using assms False by (auto split: if_splits)
  then obtain h where h: "map_alloc (m_heap m) (8 * ns) = Inr h" "case h of None \<Rightarrow> True | Some h \<Rightarrow> heap_ok h"
    "heap_le (m_heap m) h"
    using map_alloc_ok [of "m_heap m" "8 * ns"] assms(1) by (auto simp: map_ok_def)
  let ?m = "m\<lparr>m_heap := h, buckets := replicate ns [], item_count := 0\<rparr>"
  have "map_ok H ?m" "elems ?m = {}" using h by (auto simp: map_ok_def bucket_ok_def elems_def)
  then obtain m' where m': "reinsert ?m (concat (buckets m)) = Inr m'" "map_ok H m'"
    "elems m' = elems ?m \<union> set (concat (buckets m))" "item_count m' = length (concat (buckets m))"
    "buckets_size m' = ns" "length (concat (buckets m')) = length (concat (buckets m))" "m_heap m' = h"
    using reinsert_ok [of H ?m "concat (buckets m)"] map_ok_distinct [OF assms(1)] elems_bucket(1) [OF assms(1)]
      ns(2) assms(3) by (auto simp: elems_def)
  then have "map_resize m s = Some (Inr m')"
    using False ns(1) h(1) by (simp add: map_resize_def)
  moreover have "elems m' = elems m" using m'(3) \<open>elems ?m = {}\<close> by (simp add: elems_def)
  moreover have "item_count m' \<le> item_count m" using m'(4) assms(1) by (simp add: map_ok_def)
  ultimately show ?thesis using m' ns h(3) by auto
qed


section \<open>The set functions\<close>

lemma bucket_ok_remove:
  assumes "bucket_ok H n p c" and "i < length c"
  shows "bucket_ok H n p (take i c @ drop (i + 1) c)"
    and "set (take i c @ drop (i + 1) c) = {e \<in> set c. el_key e \<noteq> el_key (c ! i)}"
proof -
  have c: "c = take i c @ c ! i # drop (i + 1) c" using assms(2) by (simp add: id_take_nth_drop)
  have d: "distinct (map el_key (take i c @ c ! i # drop (i + 1) c))"
    using assms(1) c unfolding bucket_ok_def by metis
  have s: "set c = insert (c ! i) (set (take i c @ drop (i + 1) c))"
    by (subst c) auto
  show "bucket_ok H n p (take i c @ drop (i + 1) c)"
    using assms(1) d s unfolding bucket_ok_def by auto
  show "set (take i c @ drop (i + 1) c) = {e \<in> set c. el_key e \<noteq> el_key (c ! i)}"
  proof -
    have "el_key (c ! i) \<notin> el_key ` set (take i c @ drop (i + 1) c)" using d by auto
    then show ?thesis unfolding s by (auto simp del: set_append) (metis image_eqI)
  qed
qed

lemma bucket_ok_replace:
  assumes "bucket_ok H n p c" and "i < length c"
  shows "bucket_ok H n p (c[i := (c ! i)\<lparr>el_value := v\<rparr>])"
    and "set (c[i := (c ! i)\<lparr>el_value := v\<rparr>]) =
      insert ((c ! i)\<lparr>el_value := v\<rparr>) {e \<in> set c. el_key e \<noteq> el_key (c ! i)}"
proof -
  have c: "c[i := (c ! i)\<lparr>el_value := v\<rparr>] = take i c @ (c ! i)\<lparr>el_value := v\<rparr> # drop (i + 1) c"
    using assms(2) by (simp add: upd_conv_take_nth_drop)
  have "map el_key (c[i := (c ! i)\<lparr>el_value := v\<rparr>]) = map el_key c"
    using assms(2) by (simp add: map_update list_update_same_conv)
  then show "bucket_ok H n p (c[i := (c ! i)\<lparr>el_value := v\<rparr>])"
    using assms set_update_subset_insert [of c i "(c ! i)\<lparr>el_value := v\<rparr>"] nth_mem [OF assms(2)]
    unfolding bucket_ok_def by fastforce
  show "set (c[i := (c ! i)\<lparr>el_value := v\<rparr>]) =
      insert ((c ! i)\<lparr>el_value := v\<rparr>) {e \<in> set c. el_key e \<noteq> el_key (c ! i)}"
    using bucket_ok_remove(2) [OF assms] by (simp add: c)
qed


text \<open>Replacing a bucket by one with the same elements under other keys than \<open>k\<close>.\<close>

lemma elems_update:
  assumes "map_ok H m" and "p < buckets_size m" and "p = unat (H k) mod buckets_size m"
    and "set c = X \<union> {e \<in> set (buckets m ! p). el_key e \<noteq> k}"
  shows "elems (m\<lparr>buckets := (buckets m)[p := c], item_count := n\<rparr>) = X \<union> {e \<in> elems m. el_key e \<noteq> k}"
proof -
  have "el_key e \<noteq> k" if "j < buckets_size m" "j \<noteq> p" "e \<in> set (buckets m ! j)" for e j
    using map_ok_bucket [OF assms(1) that(1)] that assms(3) unfolding bucket_ok_def by auto
  then have "{e \<in> elems m. el_key e \<noteq> k} =
      (\<Union>j \<in> {..<buckets_size m} - {p}. set (buckets m ! j)) \<union> {e \<in> set (buckets m ! p). el_key e \<noteq> k}"
    using assms(2) unfolding elems_def set_concat_nth by auto
  then show ?thesis
    using set_concat_update [OF assms(2), of c] assms(4) by (auto simp: elems_def simp del: set_concat)
qed

lemma map_store_ok:
  assumes "map_ok H m" and "map_room m"
  shows "\<exists>m'. map_store (Some m) (map_find (Some m) (H k) k) (H k) k v =
      Some (Inr (map_get H (Some m) k, Some m')) \<and> map_ok H m' \<and>
    elems m' = (case v of None \<Rightarrow> {} | Some w \<Rightarrow> {\<lparr>el_hash = H k, el_key = k, el_value = w\<rparr>})
      \<union> {e \<in> elems m. el_key e \<noteq> k} \<and>
    (item_count m = length (concat (buckets m)) \<longrightarrow> item_count m' = length (concat (buckets m'))) \<and>
    heap_le (m_heap m) (m_heap m')"
  using map_find_cases [OF assms(1), of k]
proof
  assume nf: "map_find (Some m) (H k) k = None \<and> k \<notin> el_key ` elems m"
  then have g: "map_get H (Some m) k = None" and k: "{e \<in> elems m. el_key e \<noteq> k} = elems m"
    by (auto simp: map_get_def)
  show ?thesis
  proof (cases v)
    case None
    with nf g k assms show ?thesis by (simp add: map_store_def)
  next
    case (Some w)
    obtain m1 where m1: "map_resize m (item_count m + 1) = Some (Inr m1)" "map_ok H m1" "elems m1 = elems m"
      "item_count m + 1 \<le> buckets_size m1" "length (concat (buckets m1)) = length (concat (buckets m))"
      "item_count m1 \<le> item_count m" "heap_le (m_heap m) (m_heap m1)"
      using map_resize_ok [OF assms(1), of "item_count m + 1"] assms(2) by (auto simp: map_room_def)
    obtain h where h: "map_alloc (m_heap m1) 32 = Inr h" "case h of None \<Rightarrow> True | Some h \<Rightarrow> heap_ok h"
      "heap_le (m_heap m1) h"
      using map_alloc_ok [of "m_heap m1" 32] m1(2) by (auto simp: map_ok_def)
    let ?m = "m1\<lparr>m_heap := h\<rparr>" and ?e = "\<lparr>el_hash = H k, el_key = k, el_value = w\<rparr>"
    have ok: "map_ok H ?m" "elems ?m = elems m" using m1(2,3) h(2) by (simp_all add: map_ok_def elems_def)
    have "0 < buckets_size ?m" using m1(4) by (cases "buckets m1") auto
    with ok obtain m2 where m2: "insert_element ?m ?e = Inr m2" "map_ok H m2" "elems m2 = insert ?e (elems m)"
      "item_count m2 = item_count m1 + 1" "length (concat (buckets m2)) = length (concat (buckets m1)) + 1"
      "m_heap m2 = h"
      using insert_element_ok [OF ok(1), of ?e] m1(4) nf by auto
    have "item_count m1 = length (concat (buckets m1))" if "item_count m = length (concat (buckets m))"
      using m1(2,5,6) that by (simp add: map_ok_def)
    then show ?thesis
      using m1 h m2 nf g k Some heap_le_trans [OF m1(7) h(3)] by (auto simp: map_store_def)
  qed
next
  let ?p = "unat (H k) mod buckets_size m"
  let ?c = "buckets m ! ?p"
  assume "\<exists>i. map_find (Some m) (H k) k = Some (?p, i) \<and> 0 < buckets_size m \<and>
       i < length ?c \<and> el_key (?c ! i) = k"
  then obtain i where i: "map_find (Some m) (H k) k = Some (?p, i)" "0 < buckets_size m" "?p < buckets_size m"
    "i < length ?c" "el_key (?c ! i) = k" by auto
  have g: "map_get H (Some m) k = Some (el_value (?c ! i))" using i by (simp add: map_get_def value_at_def)
  note b = map_ok_bucket [OF assms(1) i(3)]
  note len = length_concat_update [OF i(3)]
  have le: "length (concat (buckets m)) \<le> item_count m" using assms(1) by (simp add: map_ok_def)
  show ?thesis
  proof (cases v)
    case None
    let ?d = "take i ?c @ drop (i + 1) ?c"
    let ?m = "m\<lparr>buckets := (buckets m)[?p := ?d], item_count := item_count m - 1\<rparr>"
    have l: "length (concat ((buckets m)[?p := ?d])) + 1 = length (concat (buckets m))"
      using len [of ?d] i(4) by simp
    then have "map_ok H ?m"
      using le by (intro map_ok_update [OF assms(1) i(3) bucket_ok_remove(1) [OF b i(4)]]) linarith
    moreover have "elems ?m = {} \<union> {e \<in> elems m. el_key e \<noteq> k}"
      using bucket_ok_remove(2) [OF b i(4)] i(5) by (intro elems_update [OF assms(1) i(3) refl]) simp
    moreover have "map_store (Some m) (map_find (Some m) (H k) k) (H k) k v =
        Some (Inr (map_get H (Some m) k, Some ?m))"
      using i(1,2) g None by (simp add: map_store_def Let_def)
    moreover have "item_count ?m = length (concat (buckets ?m))" if "item_count m = length (concat (buckets m))"
      using that l by simp
    ultimately show ?thesis using None by auto
  next
    case (Some w)
    let ?d = "?c[i := (?c ! i)\<lparr>el_value := w\<rparr>]"
    let ?m = "m\<lparr>buckets := (buckets m)[?p := ?d], item_count := item_count m\<rparr>"
    have l: "length (concat ((buckets m)[?p := ?d])) = length (concat (buckets m))"
      using len [of ?d] by simp
    then have "map_ok H ?m"
      using le by (intro map_ok_update [OF assms(1) i(3) bucket_ok_replace(1) [OF b i(4)]]) linarith
    moreover have "(?c ! i)\<lparr>el_value := w\<rparr> = \<lparr>el_hash = H k, el_key = k, el_value = w\<rparr>"
      using b i(4,5) nth_mem [OF i(4)] unfolding bucket_ok_def by (cases "?c ! i") auto
    moreover have "elems ?m = {(?c ! i)\<lparr>el_value := w\<rparr>} \<union> {e \<in> elems m. el_key e \<noteq> k}"
      using bucket_ok_replace(2) [OF b i(4)] i(5) by (intro elems_update [OF assms(1) i(3) refl]) simp
    moreover have "map_store (Some m) (map_find (Some m) (H k) k) (H k) k v =
        Some (Inr (map_get H (Some m) k, Some ?m))"
      using i(1,2) g Some by (simp add: map_store_def Let_def)
    moreover have "item_count ?m = length (concat (buckets ?m))" if "item_count m = length (concat (buckets m))"
      using that l by simp
    ultimately show ?thesis using Some by auto
  qed
qed


lemma map_get_upd:
  assumes "map_ok H m" and "map_ok H m'"
    and "elems m' = (case v of None \<Rightarrow> {} | Some w \<Rightarrow> {\<lparr>el_hash = H k, el_key = k, el_value = w\<rparr>})
      \<union> {e \<in> elems m. el_key e \<noteq> k}"
  shows "map_get H (Some m') k' = (if k' = k then v else map_get H (Some m) k')"
proof (cases "k' = k")
  case True
  have "map_get H (Some m') k = Some w \<longleftrightarrow> v = Some w" for w
    using map_get_iff [OF assms(2), of k w] assms(3) by (cases v) auto
  with True show ?thesis by (metis not_None_eq)
next
  case False
  then have "map_get H (Some m') k' = map_get H (Some m) k'"
    using assms by (intro map_get_eqI) (auto split: option.splits)
  with False show ?thesis by simp
qed

interpretation am: finite_map "map_ok H" map_room "\<lambda>m. map_get H (Some m)" "map_upd H" for H
proof unfold_locales
  fix m k v
  assume a: "map_ok H m" "map_room m"
  obtain m' where m': "map_store (Some m) (map_find (Some m) (H k) k) (H k) k v =
      Some (Inr (map_get H (Some m) k, Some m'))" "map_ok H m'"
    "elems m' = (case v of None \<Rightarrow> {} | Some w \<Rightarrow> {\<lparr>el_hash = H k, el_key = k, el_value = w\<rparr>})
      \<union> {e \<in> elems m. el_key e \<noteq> k}"
    using map_store_ok [OF a, of k v] by blast
  then have "map_upd H m k v = Some (map_get H (Some m) k, m')" by (simp add: map_upd_def)
  then show "\<exists>m'. map_upd H m k v = Some (map_get H (Some m) k, m') \<and> map_ok H m' \<and>
      (\<forall>k'. map_get H (Some m') k' = (if k' = k then v else map_get H (Some m) k'))"
    using m'(2) map_get_upd [OF a(1) m'(2,3)] by blast
qed

lemma ip_is_map:
  "agMap_ip_get mp k = map_get (\<lambda>k. k) mp k"
  "agMap_ip_set mp k v = map_store mp (map_find mp k k) k k v"
  by (simp_all add: agMap_ip_get_def agMap_ip_set_def ip_find_def map_get_def)

lemma sp_is_map:
  "agMap_sp_get mp k = map_get s_calc_hash mp k"
  "agMap_sp_set mp k v = map_store mp (map_find mp (s_calc_hash k) k) (s_calc_hash k) k v"
  by (simp_all add: agMap_sp_get_def agMap_sp_set_def sp_find_def map_get_def Let_def)

lemma map_updD: "map_upd H m k v = Some (r, m') \<Longrightarrow>
    map_store (Some m) (map_find (Some m) (H k) k) (H k) k v = Some (Inr (r, Some m'))"
  by (auto simp: map_upd_def split: option.splits sum.splits prod.splits)

lemma agMap_new_ok:
  assumes "case h of None \<Rightarrow> True | Some h \<Rightarrow> heap_ok h"
  shows "\<exists>m. agMap_new h = Inr m \<and> map_ok H m \<and> map_room m \<and> elems m = {} \<and> (\<forall>k. map_get H (Some m) k = None)"
proof -
  obtain h' where "map_alloc h 32 = Inr h'" "case h' of None \<Rightarrow> True | Some h \<Rightarrow> heap_ok h"
    using map_alloc_ok [OF assms, of 32] by auto
  then show ?thesis
    by (auto simp: agMap_new_def map_ok_def map_room_def elems_def map_get_def map_find_def)
qed

lemma concat_map_Nil [simp]: "concat (map (\<lambda>_. []) bs) = []"
  by (induction bs) simp_all

lemma foldl_buckets: "fold (\<lambda>c w. fold f c w) bs w = fold f (concat bs) w"
  by (induction bs arbitrary: w) simp_all

section \<open>Properties\<close>

text \<open>C8: The integer map is a finite map. \<open>_agMap_ip_set\<close> returns the old value, keeps the
  invariant through insertion, replacement, removal and rehashing, and afterwards
  \<open>_agMap_ip_get\<close> gives the new value for the key (null after a removal) and the old one for
  every other key.\<close>

theorem agMap_ip_set_get:
  assumes "map_ok (\<lambda>k. k) m" and "map_room m"
  shows "\<exists>m'. agMap_ip_set (Some m) k v = Some (Inr (agMap_ip_get (Some m) k, Some m')) \<and>
     map_ok (\<lambda>k. k) m' \<and>
     (\<forall>k'. agMap_ip_get (Some m') k' = (if k' = k then v else agMap_ip_get (Some m) k'))"
proof -
  obtain m' where m': "map_upd (\<lambda>k. k) m k v = Some (map_get (\<lambda>k. k) (Some m) k, m')" "map_ok (\<lambda>k. k) m'"
    "\<forall>k'. map_get (\<lambda>k. k) (Some m') k' = (if k' = k then v else map_get (\<lambda>k. k) (Some m) k')"
    using am.upd_ok [OF assms] by blast
  from map_updD [OF m'(1)] m'(2,3) show ?thesis by (auto simp: ip_is_map)
qed

text \<open>The string map is a finite map, in the same sense, with its own hash function.\<close>

theorem agMap_sp_set_get:
  assumes "map_ok s_calc_hash m" and "map_room m"
  shows "\<exists>m'. agMap_sp_set (Some m) k v = Some (Inr (agMap_sp_get (Some m) k, Some m')) \<and>
     map_ok s_calc_hash m' \<and>
     (\<forall>k'. agMap_sp_get (Some m') k' = (if k' = k then v else agMap_sp_get (Some m) k'))"
proof -
  obtain m' where m': "map_upd s_calc_hash m k v = Some (map_get s_calc_hash (Some m) k, m')"
    "map_ok s_calc_hash m'"
    "\<forall>k'. map_get s_calc_hash (Some m') k' = (if k' = k then v else map_get s_calc_hash (Some m) k')"
    using am.upd_ok [OF assms] by blast
  from map_updD [OF m'(1)] m'(2,3) show ?thesis by (auto simp: sp_is_map)
qed

definition map_of_one :: "('k \<Rightarrow> u64) \<Rightarrow> 'k \<Rightarrow> 'v \<Rightarrow> ('k, 'v) agmap" where
  "map_of_one H k v = \<lparr>m_heap = None, item_count = 1, buckets = [[\<lparr>el_hash = H k, el_key = k, el_value = v\<rparr>]]\<rparr>"

lemma map_of_one_ok: "map_ok H (map_of_one H k v)" "map_room (map_of_one H k v)"
  by (simp_all add: map_ok_def bucket_ok_def map_room_def map_of_one_def)

theorem agMap_ip_set_get_witness:
  "\<exists>m'. agMap_ip_set (Some (map_of_one (\<lambda>k. k) 7 ''a'')) 39 (Some ''b'') =
       Some (Inr (agMap_ip_get (Some (map_of_one (\<lambda>k. k) 7 ''a'')) 39, Some m')) \<and> map_ok (\<lambda>k. k) m' \<and>
     (\<forall>k'. agMap_ip_get (Some m') k' =
        (if k' = 39 then Some ''b'' else agMap_ip_get (Some (map_of_one (\<lambda>k. k) 7 ''a'')) k'))"
  by (rule agMap_ip_set_get [OF map_of_one_ok])

theorem agMap_sp_set_get_witness:
  "\<exists>m'. agMap_sp_set (Some (map_of_one s_calc_hash [65] ''a'')) [65] None =
       Some (Inr (agMap_sp_get (Some (map_of_one s_calc_hash [65] ''a'')) [65], Some m')) \<and> map_ok s_calc_hash m' \<and>
     (\<forall>k'. agMap_sp_get (Some m') k' =
        (if k' = [65] then None else agMap_sp_get (Some (map_of_one s_calc_hash [65] ''a'')) k'))"
  by (rule agMap_sp_set_get [OF map_of_one_ok])

text \<open>\<open>_agMap_ip_foreach\<close> calls the function once for every key of the map, with the value
  \<open>_agMap_ip_get\<close> gives, and \<open>_agMap_size\<close> is the number of calls when \<open>item_count\<close> counts the
  elements; that holds of a new map and \<open>_agMap_ip_set\<close> keeps it.\<close>

theorem agMap_ip_foreach_visits:
  assumes "map_ok (\<lambda>k. k) m" and "item_count m = length (entries m)" and "map_room m"
  shows "agMap_ip_foreach m (\<lambda>k v. (#) (k, v)) [] = rev (entries m) \<and> distinct (map fst (entries m)) \<and>
     (\<forall>k v. (k, v) \<in> set (entries m) \<longleftrightarrow> agMap_ip_get (Some m) k = Some v) \<and>
     agMap_size m = length (entries m) \<and>
     (\<forall>k v. \<exists>r m'. agMap_ip_set (Some m) k v = Some (Inr (r, Some m')) \<and>
        item_count m' = length (entries m'))"
proof -
  have "fold (\<lambda>e. (#) (el_key e, el_value e)) es ys = rev (map (\<lambda>e. (el_key e, el_value e)) es) @ ys"
    for es :: "(u64, 'a) map_element list" and ys by (induction es arbitrary: ys) simp_all
  then have 1: "agMap_ip_foreach m (\<lambda>k v. (#) (k, v)) [] = rev (entries m)"
    unfolding agMap_ip_foreach_def foldl_buckets by (simp add: entries_def)
  have 2: "distinct (map fst (entries m))"
    using map_ok_distinct [OF assms(1)] by (simp add: entries_def comp_def)
  have 3: "(k, v) \<in> set (entries m) \<longleftrightarrow> agMap_ip_get (Some m) k = Some v" for k v
    using map_get_iff [OF assms(1), of k v] by (auto simp: ip_is_map entries_def elems_def)
  have 4: "\<exists>r m'. agMap_ip_set (Some m) k v = Some (Inr (r, Some m')) \<and> item_count m' = length (entries m')" for k v
    using map_store_ok [OF assms(1,3), of k v] assms(2)
    by (auto simp: ip_is_map entries_def simp del: length_concat)
  show ?thesis using 1 2 3 4 assms(2) by (simp add: agMap_size_def)
qed

theorem agMap_ip_foreach_visits_witness:
  "agMap_ip_foreach (map_of_one (\<lambda>k. k) 7 ''a'') (\<lambda>k v. (#) (k, v)) [] = rev (entries (map_of_one (\<lambda>k. k) 7 ''a''))"
  using agMap_ip_foreach_visits [OF map_of_one_ok(1) _ map_of_one_ok(2), of 7 "''a''"]
  by (simp add: entries_def map_of_one_def)

text \<open>\<open>_agMap_empty\<close> removes every key but leaves \<open>item_count\<close> as it was: \<open>_agMap_size\<close> of
  the emptied map is still the old number of elements.\<close>

theorem agMap_empty_keeps_size:
  assumes "map_ok (\<lambda>k. k) m"
  shows "\<exists>m'. agMap_empty (Some m) = (map snd (entries m), Some m') \<and>
     (\<forall>k. agMap_ip_get (Some m') k = None) \<and> map_ok (\<lambda>k. k) m' \<and> agMap_size m' = agMap_size m"
proof -
  let ?m = "m\<lparr>buckets := map (\<lambda>_. []) (buckets m)\<rparr>"
  have ok: "map_ok (\<lambda>k. k) ?m" using assms by (auto simp: map_ok_def bucket_ok_def)
  have "elems ?m = {}" by (auto simp: elems_def)
  then have "agMap_ip_get (Some ?m) k = None" for k
    using map_get_iff [OF ok, of k] by (auto simp: ip_is_map)
  then show ?thesis
    using ok by (auto simp: agMap_empty_def agMap_size_def entries_def)
qed

theorem agMap_empty_keeps_size_witness:
  "\<exists>m'. agMap_empty (Some (map_of_one (\<lambda>k. k) 7 ''a'')) = (map snd (entries (map_of_one (\<lambda>k. k) 7 ''a'')), Some m') \<and>
     (\<forall>k. agMap_ip_get (Some m') k = None) \<and> map_ok (\<lambda>k. k) m' \<and>
     agMap_size m' = agMap_size (map_of_one (\<lambda>k. k) 7 ''a'')"
  by (rule agMap_empty_keeps_size [OF map_of_one_ok(1)])

end
