(* ===== verification/StringCache.thy ===== *)
theory StringCache
  imports AgMap
begin

text \<open>
  The string cache of \<open>world/stringCache.c\<close>: equal strings are kept once, in a page heap, and
  found through the string map. The map and \<open>_h\<close> point to the same heap, which the model keeps
  in the map. A string is the bytes before its terminating zero; \<open>sc_mem\<close> gives the string
  stored at an address of the heap.
\<close>

record string_cache =
  sc_m :: "(byte list, addr) agmap option"
  sc_mem :: "addr \<Rightarrow> byte list option"

text \<open>The bytes copied are read from the string and its terminator; what the map takes as the
  key is the C string at the new address.\<close>

definition agSC_insert ::
  "string_cache \<Rightarrow> (byte list, addr) agmap \<Rightarrow> byte list \<Rightarrow> nat \<Rightarrow> (addr \<times> string_cache) res option" where
  "agSC_insert st m str len =
     (let len = (if len = 0 then length str else len)
      in case m_heap m of
           None \<Rightarrow> Some (Inl NullDeref)
         | Some h \<Rightarrow>
             (case agMH_alloc h (int_of_size (len + 1)) of
                Inl f \<Rightarrow> Some (Inl f)
              | Inr (ptr, h) \<Rightarrow>
                  if len > length str + 1 then Some (Inl OutOfBounds)
                  else (let s = takeWhile (\<lambda>c. c \<noteq> 0) (take len (str @ [0]))
                        in case agMap_sp_set (Some (m\<lparr>m_heap := Some h\<rparr>)) s (Some ptr) of
                             None \<Rightarrow> None
                           | Some (Inl f) \<Rightarrow> Some (Inl f)
                           | Some (Inr (_, mp)) \<Rightarrow>
                               Some (Inr (ptr, \<lparr>sc_m = mp, sc_mem = (sc_mem st)(ptr \<mapsto> s)\<rparr>)))))"

definition agSC_get :: "string_cache \<Rightarrow> byte list \<Rightarrow> nat \<Rightarrow> (addr \<times> string_cache) res option" where
  "agSC_get st str len =
     (case (case sc_m st of
              Some m \<Rightarrow> Inr m
            | None \<Rightarrow> (case agMH_new 4096 of Inl f \<Rightarrow> Inl f | Inr h \<Rightarrow> agMap_new (Some h))) of
        Inl f \<Rightarrow> Some (Inl f)
      | Inr m \<Rightarrow>
          (case agMap_sp_get (Some m) str of
             Some ptr \<Rightarrow> Some (Inr (ptr, st\<lparr>sc_m := Some m\<rparr>))
           | None \<Rightarrow> agSC_insert st m str len))"

definition agSC_release :: "string_cache \<Rightarrow> string_cache" where
  "agSC_release st = \<lparr>sc_m = None, sc_mem = \<lambda>_. None\<rparr>"

section \<open>Invariant\<close>

text \<open>Every string the map knows is stored at its address, in memory the heap has handed out.\<close>

definition sc_ok :: "string_cache \<Rightarrow> bool" where
  "sc_ok st \<longleftrightarrow>
     (case sc_m st of
        None \<Rightarrow> True
      | Some m \<Rightarrow>
          map_ok s_calc_hash m \<and> map_room m \<and>
          (case m_heap m of
             None \<Rightarrow> False
           | Some h \<Rightarrow> (\<forall>s a. agMap_sp_get (Some m) s = Some a \<longrightarrow> sc_mem st a = Some s \<and> handed_out h a)))"

lemma agSC_insert_ok:
  assumes "map_ok s_calc_hash m" and "map_room m" and "m_heap m = Some h"
    and "\<forall>s a. agMap_sp_get (Some m) s = Some a \<longrightarrow> sc_mem st a = Some s \<and> handed_out h a"
    and "agMap_sp_get (Some m) str = None" and "0 \<notin> set str" and "length str < 2 ^ 31 - 5"
  shows "\<exists>a m'. agSC_insert st m str 0 = Some (Inr (a, \<lparr>sc_m = Some m', sc_mem = (sc_mem st)(a \<mapsto> str)\<rparr>)) \<and>
    map_ok s_calc_hash m' \<and> (\<forall>s. agMap_sp_get (Some m') s = (if s = str then Some a else agMap_sp_get (Some m) s)) \<and>
    (\<exists>h'. m_heap m' = Some h' \<and>
       (\<forall>s b. agMap_sp_get (Some m') s = Some b \<longrightarrow> ((sc_mem st)(a \<mapsto> str)) b = Some s \<and> handed_out h' b))"
proof -
  have hok: "heap_ok h" using assms(1,3) by (simp add: map_ok_def)
  have sz: "int_of_size (length str + 1) = int (length str) + 1" using assms(7) by (simp add: int_of_size_small)
  obtain k off h1 where h1: "agMH_alloc h (int (length str) + 1) = Inr ((k, off), h1)" "heap_ok h1"
    "\<not> handed_out h (k, off)" "handed_out h1 (k, off)" "\<forall>a. handed_out h a \<longrightarrow> handed_out h1 a"
    using agMH_alloc_ok [OF hok, of "int (length str) + 1"] assms(7) by (auto simp: INT_MAX_def)
  let ?m = "m\<lparr>m_heap := Some h1\<rparr>" and ?a = "(k, off)"
  have va: "value_at (Some ?m) = value_at (Some m)" by (simp add: value_at_def fun_eq_iff)
  have mf: "map_find (Some ?m) = map_find (Some m)" by (simp add: map_find_def fun_eq_iff)
  have m: "map_ok s_calc_hash ?m" "map_room ?m" "agMap_sp_get (Some ?m) s = agMap_sp_get (Some m) s" for s
    using assms(1,2) h1(2) unfolding agMap_sp_get_def sp_find_def mf va
    by (simp_all add: map_ok_def map_room_def)
  obtain m' where m': "agMap_sp_set (Some ?m) str (Some ?a) = Some (Inr (map_get s_calc_hash (Some ?m) str, Some m'))"
    "map_ok s_calc_hash m'" "heap_le (Some h1) (m_heap m')"
    "elems m' = {\<lparr>el_hash = s_calc_hash str, el_key = str, el_value = ?a\<rparr>} \<union> {e \<in> elems ?m. el_key e \<noteq> str}"
    using map_store_ok [OF m(1,2), of str "Some ?a"] by (auto simp: sp_is_map)
  have g: "agMap_sp_get (Some m') s = (if s = str then Some ?a else agMap_sp_get (Some m) s)" for s
    using map_get_upd [OF m(1) m'(2), of str "Some ?a" s] m'(4) m(3) by (simp add: sp_is_map)
  obtain h' where h': "m_heap m' = Some h'" "\<forall>a. handed_out h1 a \<longrightarrow> handed_out h' a"
    using m'(3) by (auto simp: heap_le_def split: option.splits)
  have "\<forall>c \<in> set str. c \<noteq> 0" using assms(6) by blast
  then have str: "takeWhile (\<lambda>c. c \<noteq> 0) str = str" by (simp add: takeWhile_eq_all_conv)
  have "agSC_insert st m str 0 = Some (Inr (?a, \<lparr>sc_m = Some m', sc_mem = (sc_mem st)(?a \<mapsto> str)\<rparr>))"
    using assms(3) h1(1) m'(1) sz by (simp add: agSC_insert_def Let_def str)
  moreover have "((sc_mem st)(?a \<mapsto> str)) b = Some s \<and> handed_out h' b"
    if "agMap_sp_get (Some m') s = Some b" for s b
  proof (cases "s = str")
    case True
    then show ?thesis using that g h1(4) h'(2) by auto
  next
    case False
    then have "sc_mem st b = Some s" "handed_out h b" using that g assms(4) by metis+
    moreover have "b \<noteq> ?a" using calculation(2) h1(3) by auto
    moreover have "handed_out h' b" using calculation(2) h1(5) h'(2) by blast
    ultimately show ?thesis by simp
  qed
  ultimately show ?thesis using m'(2) g h'(1) by blast
qed

section \<open>Properties\<close>

text \<open>Interning. For a zero-terminated string and length 0, \<open>agSC_get\<close> returns an address
  at which the string is stored; the strings cached before keep their addresses and their
  bytes; asking again for the string returns the same address and changes nothing.\<close>

theorem agSC_get_interns:
  assumes "sc_ok st" and "sc_m st = Some m" and "0 \<notin> set str" and "length str < 2 ^ 31 - 5"
  shows "\<exists>a st'. agSC_get st str 0 = Some (Inr (a, st')) \<and> sc_mem st' a = Some str \<and>
     agSC_get st' str 0 = Some (Inr (a, st')) \<and>
     (\<forall>s b. agMap_sp_get (Some m) s = Some b \<longrightarrow>
        agMap_sp_get (sc_m st') s = Some b \<and> sc_mem st' b = Some s)"
proof -
  have ok: "map_ok s_calc_hash m" "map_room m" using assms(1,2) by (simp_all add: sc_ok_def)
  obtain h where h: "m_heap m = Some h"
    "\<forall>s a. agMap_sp_get (Some m) s = Some a \<longrightarrow> sc_mem st a = Some s \<and> handed_out h a"
    using assms(1,2) by (auto simp: sc_ok_def split: option.splits)
  show ?thesis
  proof (cases "agMap_sp_get (Some m) str")
    case None
    obtain a m' where r: "agSC_insert st m str 0 = Some (Inr (a, \<lparr>sc_m = Some m', sc_mem = (sc_mem st)(a \<mapsto> str)\<rparr>))"
      "\<forall>s. agMap_sp_get (Some m') s = (if s = str then Some a else agMap_sp_get (Some m) s)"
      "\<forall>s b. agMap_sp_get (Some m') s = Some b \<longrightarrow> ((sc_mem st)(a \<mapsto> str)) b = Some s"
      using agSC_insert_ok [OF ok h None assms(3,4)] by blast
    then show ?thesis using None assms(2) h(2) by (auto simp: agSC_get_def)
  next
    case (Some a)
    then have "sc_mem st a = Some str" using h(2) by blast
    moreover have "st\<lparr>sc_m := Some m\<rparr> = st" using assms(2) by (cases st) simp
    ultimately have "agSC_get st str 0 = Some (Inr (a, st)) \<and> sc_mem st a = Some str"
      using Some assms(2) by (simp add: agSC_get_def)
    then show ?thesis using h(2) assms(2) by (intro exI [of _ a] exI [of _ st]) simp
  qed
qed

definition sc_one :: string_cache where
  "sc_one = \<lparr>sc_m = Some \<lparr>m_heap = Some \<lparr>hp_pages = [4096], hp_size = 4096, hp_used = 40\<rparr>, item_count = 0,
     buckets = []\<rparr>, sc_mem = \<lambda>_. None\<rparr>"

theorem agSC_get_interns_witness:
  "\<exists>a st'. agSC_get sc_one [97, 98] 0 = Some (Inr (a, st')) \<and> sc_mem st' a = Some [97, 98] \<and>
     agSC_get st' [97, 98] 0 = Some (Inr (a, st'))"
proof -
  have "sc_ok sc_one"
    by (simp add: sc_ok_def sc_one_def map_ok_def map_room_def heap_ok_def INT_MAX_def agMap_sp_get_def
        sp_find_def map_find_def)
  moreover have "\<exists>m. sc_m sc_one = Some m" by (simp add: sc_one_def)
  ultimately show ?thesis using agSC_get_interns [of sc_one _ "[97, 98]"] by fastforce
qed

end
