(* ===== verification/HashTable.thy ===== *)
theory HashTable
  imports AgMap
begin

unbundle bit_operations_syntax

text \<open>
  The hash table of \<open>framework/hash.c\<close>, with chains kept in the order of the key comparison.

  The table stores data of its clients; the functions that give the key of a datum, hash a key
  and compare two keys are fields of the table, as in the code. Their order is the contract
  \<open>cmp_order\<close>, which \<open>default_cmp_key\<close> meets. An element is in exactly one chain, so a bucket
  is the list of its elements, and \<open>buckets_size\<close> is their number. The result of \<open>malloc\<close>
  in \<open>hash_resize\<close>, which the code tests, is the argument \<open>mem\<close>.
\<close>

section \<open>Keys\<close>

text \<open>\<open>memcmp\<close> of two blocks of the same length: the sign of the first difference.\<close>

fun memcmp :: "byte list \<Rightarrow> byte list \<Rightarrow> int" where
  "memcmp (a # as) (b # bs) = (if a < b then - 1 else if b < a then 1 else memcmp as bs)"
| "memcmp _ _ = 0"

definition default_cmp_key :: "byte list \<Rightarrow> byte list \<Rightarrow> int" where
  "default_cmp_key key1 key2 =
     (if length key1 < length key2 then - 1
      else if length key1 > length key2 then 1
      else memcmp key1 key2)"

text \<open>\<open>char\<close> is signed: a byte is sign-extended before it is added.\<close>

definition default_hash_key :: "byte list \<Rightarrow> u32" where
  "default_hash_key key = foldl (\<lambda>nhash p. nhash + (push_bit 5 nhash + nhash + scast p)) 0 key"

text \<open>On a little-endian machine.\<close>

definition hash_number_key :: "byte list \<Rightarrow> u32" where
  "hash_number_key key = foldr (\<lambda>t v. push_bit 8 v + scast t) key 0"

section \<open>The table\<close>

record 'd element =
  he_data :: 'd
  he_hash_val :: u32

record 'd hash =
  get_key :: "'d \<Rightarrow> byte list"
  hash_key :: "byte list \<Rightarrow> u32"
  cmp_key :: "byte list \<Rightarrow> byte list \<Rightarrow> int"
  h_item_count :: nat
  h_buckets :: "'d element list list"

abbreviation h_buckets_size :: "'d hash \<Rightarrow> nat" where
  "h_buckets_size h \<equiv> length (h_buckets h)"

definition h_index :: "'d hash \<Rightarrow> u32 \<Rightarrow> nat" where
  "h_index h v = unat v mod h_buckets_size h"

text \<open>The walk of \<open>find_element\<close>: how many elements it passed, and whether the next one has
  the key. The element before that place is \<open>*pprev\<close>.\<close>

fun find_element ::
  "('d \<Rightarrow> byte list) \<Rightarrow> (byte list \<Rightarrow> byte list \<Rightarrow> int) \<Rightarrow> byte list \<Rightarrow> 'd element list \<Rightarrow> nat \<times> bool" where
  "find_element kf cmp key [] = (0, False)"
| "find_element kf cmp key (p # ps) =
     (let c = cmp key (kf (he_data p))
      in if c = 0 then (0, True)
         else if c > 0 then (let (i, found) = find_element kf cmp key ps in (i + 1, found))
         else (0, False))"

definition h_find :: "'d hash \<Rightarrow> nat \<Rightarrow> byte list \<Rightarrow> nat \<times> bool" where
  "h_find h index key = find_element (get_key h) (cmp_key h) key (h_buckets h ! index)"

definition link_element :: "'d hash \<Rightarrow> nat \<Rightarrow> nat \<Rightarrow> 'd element \<Rightarrow> 'd hash" where
  "link_element h index i e =
     h\<lparr>h_buckets := (h_buckets h)[index :=
        take i (h_buckets h ! index) @ e # drop i (h_buckets h ! index)]\<rparr>"

definition hash_insert_element :: "'d hash \<Rightarrow> 'd element \<Rightarrow> 'd hash res" where
  "hash_insert_element h e =
     (let key = get_key h (he_data e);
          index = h_index h (he_hash_val e);
          (i, found) = h_find h index key
      in if found then Inl Assertion else Inr (link_element h index i e))"

fun hash_reinsert :: "'d hash \<Rightarrow> 'd element list \<Rightarrow> 'd hash res" where
  "hash_reinsert h [] = Inr h"
| "hash_reinsert h (e # es) =
     (case hash_insert_element h e of Inl f \<Rightarrow> Inl f | Inr h \<Rightarrow> hash_reinsert h es)"

definition hash_resize :: "bool \<Rightarrow> 'd hash \<Rightarrow> nat \<Rightarrow> 'd hash res" where
  "hash_resize mem h new_size =
     (if \<not> mem then Inr h
      else hash_reinsert (h\<lparr>h_buckets := replicate new_size []\<rparr>) (concat (h_buckets h)))"

definition hash_create ::
  "bool \<Rightarrow> ('d \<Rightarrow> byte list) \<Rightarrow> (byte list \<Rightarrow> u32) option \<Rightarrow> (byte list \<Rightarrow> byte list \<Rightarrow> int) option \<Rightarrow> 'd hash res" where
  "hash_create mem gk hk ck =
     hash_resize mem
       \<lparr>get_key = gk,
        hash_key = (case hk of None \<Rightarrow> default_hash_key | Some f \<Rightarrow> f),
        cmp_key = (case ck of None \<Rightarrow> default_cmp_key | Some f \<Rightarrow> f),
        h_item_count = 0, h_buckets = []\<rparr> 128"

definition hash_size :: "'d hash \<Rightarrow> nat" where
  "hash_size h = h_item_count h"

text \<open>\<open>hash_val % buckets_size\<close> with no buckets, after a failed \<open>malloc\<close> in \<open>hash_create\<close>, is a
  division by zero.\<close>

definition hash_insert :: "bool \<Rightarrow> 'd hash \<Rightarrow> 'd \<Rightarrow> ('d option \<times> 'd hash) res" where
  "hash_insert mem h data =
     (if h_buckets_size h = 0 then Inl DivByZero
      else
        (let key = get_key h data;
             hash_val = hash_key h key;
             index = h_index h hash_val;
             (i, found) = h_find h index key
         in if found then
              (let e = h_buckets h ! index ! i
               in Inr (Some (he_data e),
                       h\<lparr>h_buckets := (h_buckets h)[index :=
                          (h_buckets h ! index)[i := \<lparr>he_data = data, he_hash_val = hash_val\<rparr>]]\<rparr>))
            else
              (let h = link_element h index i \<lparr>he_data = data, he_hash_val = hash_val\<rparr>;
                   h = h\<lparr>h_item_count := (h_item_count h + 1) mod 2 ^ 32\<rparr>
               in if h_item_count h \<ge> h_buckets_size h
                  then map_sum (\<lambda>f. f) (\<lambda>h. (None, h))
                         (hash_resize mem h (h_buckets_size h * 2 mod 2 ^ 32))
                  else Inr (None, h))))"

definition hash_remove :: "'d hash \<Rightarrow> byte list \<Rightarrow> ('d option \<times> 'd hash) res" where
  "hash_remove h key =
     (if h_buckets_size h = 0 then Inl DivByZero
      else
        (let index = h_index h (hash_key h key);
             (i, found) = h_find h index key
         in if \<not> found then Inr (None, h)
            else Inr (Some (he_data (h_buckets h ! index ! i)),
                      h\<lparr>h_buckets := (h_buckets h)[index :=
                           take i (h_buckets h ! index) @ drop (i + 1) (h_buckets h ! index)],
                        h_item_count := (h_item_count h + (2 ^ 32 - 1)) mod 2 ^ 32\<rparr>)))"

definition hash_get :: "'d hash \<Rightarrow> byte list \<Rightarrow> 'd option res" where
  "hash_get h key =
     (if h_buckets_size h = 0 then Inl DivByZero
      else
        (let index = h_index h (hash_key h key);
             (i, found) = h_find h index key
         in Inr (if found then Some (he_data (h_buckets h ! index ! i)) else None)))"

text \<open>An iterator is an element, named by its bucket and its index.\<close>

fun next_bucket :: "'d element list list \<Rightarrow> nat \<Rightarrow> (nat \<times> nat) option" where
  "next_bucket [] i = None"
| "next_bucket (c # cs) i = (if c \<noteq> [] then Some (i, 0) else next_bucket cs (i + 1))"

definition hash_next :: "'d hash \<Rightarrow> (nat \<times> nat) option \<Rightarrow> (nat \<times> nat) option" where
  "hash_next h ite =
     (case ite of
        None \<Rightarrow> next_bucket (h_buckets h) 0
      | Some (b, i) \<Rightarrow>
          if i + 1 < length (h_buckets h ! b) then Some (b, i + 1)
          else (let n = h_index h (he_hash_val (h_buckets h ! b ! i)) + 1
                in next_bucket (drop n (h_buckets h)) n))"

definition hash_create_with_string_key :: "bool \<Rightarrow> ('d \<Rightarrow> byte list) \<Rightarrow> 'd hash res" where
  "hash_create_with_string_key mem gk = hash_create mem gk None None"

definition hash_create_with_number_key :: "bool \<Rightarrow> ('d \<Rightarrow> byte list) \<Rightarrow> 'd hash res" where
  "hash_create_with_number_key mem gk = hash_create mem gk (Some hash_number_key) None"

section \<open>Invariant\<close>

text \<open>A chain: ascending keys, hash values that are those of the keys and belong to the bucket.\<close>

definition chain_ok ::
  "('d \<Rightarrow> byte list) \<Rightarrow> (byte list \<Rightarrow> u32) \<Rightarrow> (byte list \<Rightarrow> byte list \<Rightarrow> int) \<Rightarrow> nat \<Rightarrow> nat \<Rightarrow> 'd element list \<Rightarrow> bool" where
  "chain_ok kf hf cmp n b c \<longleftrightarrow>
     sorted_wrt (\<lambda>d e. cmp (kf (he_data d)) (kf (he_data e)) < 0) c \<and>
     (\<forall>e \<in> set c. he_hash_val e = hf (kf (he_data e)) \<and> unat (hf (kf (he_data e))) mod n = b)"

definition hash_chains :: "'d hash \<Rightarrow> bool" where
  "hash_chains h \<longleftrightarrow>
     0 < h_buckets_size h \<and>
     (\<forall>b < h_buckets_size h.
        chain_ok (get_key h) (hash_key h) (cmp_key h) (h_buckets_size h) b (h_buckets h ! b))"

definition hash_ok :: "'d hash \<Rightarrow> bool" where
  "hash_ok h \<longleftrightarrow>
     hash_chains h \<and> cmp_key h = default_cmp_key \<and> h_item_count h = length (concat (h_buckets h))"

definition h_data :: "'d hash \<Rightarrow> 'd set" where
  "h_data h = he_data ` set (concat (h_buckets h))"

text \<open>What the table needs of a comparison: a strict total order given by the sign.\<close>

locale cmp_order =
  fixes cmp :: "byte list \<Rightarrow> byte list \<Rightarrow> int"
  assumes cmp_zero: "cmp a b = 0 \<longleftrightarrow> a = b"
    and cmp_swap: "0 < cmp a b \<longleftrightarrow> cmp b a < 0"
    and cmp_trans: "cmp a b < 0 \<Longrightarrow> cmp b c < 0 \<Longrightarrow> cmp a c < 0"
begin

lemma find_found:
  "find_element kf cmp key c = (i, True) \<Longrightarrow> i < length c \<and> kf (he_data (c ! i)) = key"
  by (induction c arbitrary: i) (auto simp: Let_def cmp_zero split: if_splits prod.splits)

lemma find_absent:
  assumes "find_element kf cmp key c = (i, False)"
    and "sorted_wrt (\<lambda>d e. cmp (kf (he_data d)) (kf (he_data e)) < 0) c"
  shows "i \<le> length c \<and> (\<forall>d \<in> set (take i c). cmp (kf (he_data d)) key < 0) \<and>
    (\<forall>d \<in> set (drop i c). cmp key (kf (he_data d)) < 0)"
  using assms
proof (induction c arbitrary: i)
  case (Cons p ps)
  show ?case
  proof (cases "0 < cmp key (kf (he_data p))")
    case True
    with Cons obtain j where j: "find_element kf cmp key ps = (j, False)" "i = Suc j"
      by (auto simp: Let_def split: if_splits prod.splits)
    with Cons True show ?thesis by (auto simp: cmp_swap)
  next
    case False
    with Cons.prems have "i = 0" "cmp key (kf (he_data p)) < 0"
      by (auto simp: Let_def split: if_splits prod.splits)
    with Cons.prems(2) show ?thesis by (auto intro: cmp_trans)
  qed
qed simp

lemma absent_key:
  assumes "find_element kf cmp key c = (i, False)"
    and "sorted_wrt (\<lambda>d e. cmp (kf (he_data d)) (kf (he_data e)) < 0) c" and "d \<in> set c"
  shows "kf (he_data d) \<noteq> key"
proof -
  have "d \<in> set (take i c) \<union> set (drop i c)" using assms(3) by (metis append_take_drop_id set_append)
  then have "cmp (kf (he_data d)) key < 0 \<or> cmp key (kf (he_data d)) < 0"
    using find_absent [OF assms(1,2)] by blast
  then show ?thesis using cmp_zero [of key key] by auto
qed

lemma link_sorted:
  assumes "find_element kf cmp (kf (he_data e)) c = (i, False)"
    and "sorted_wrt (\<lambda>d e. cmp (kf (he_data d)) (kf (he_data e)) < 0) c"
  shows "sorted_wrt (\<lambda>d e. cmp (kf (he_data d)) (kf (he_data e)) < 0) (take i c @ e # drop i c)"
proof -
  have "sorted_wrt (\<lambda>d e. cmp (kf (he_data d)) (kf (he_data e)) < 0) (take i c @ drop i c)"
    using assms(2) by simp
  then show ?thesis
    using find_absent [OF assms] by (auto simp: sorted_wrt_append intro: cmp_trans)
qed

lemma sorted_unique:
  assumes "sorted_wrt (\<lambda>d e. cmp (kf (he_data d)) (kf (he_data e)) < 0) c" and "i < length c" and "j < length c"
    and "kf (he_data (c ! i)) = kf (he_data (c ! j))"
  shows "i = j"
proof (rule ccontr)
  assume "i \<noteq> j"
  then have "cmp (kf (he_data (c ! i))) (kf (he_data (c ! j))) < 0 \<or>
      cmp (kf (he_data (c ! j))) (kf (he_data (c ! i))) < 0"
    using sorted_wrt_nth_less [OF assms(1)] assms(2,3) by (meson linorder_neqE_nat)
  then show False using cmp_zero [of "kf (he_data (c ! i))" "kf (he_data (c ! i))"] assms(4) by simp
qed

end

section \<open>The default comparison\<close>

lemma memcmp_zero: "length a = length b \<Longrightarrow> memcmp a b = 0 \<longleftrightarrow> a = b"
  by (induction a b rule: memcmp.induct) auto

lemma memcmp_swap: "length a = length b \<Longrightarrow> 0 < memcmp a b \<longleftrightarrow> memcmp b a < 0"
  by (induction a b rule: memcmp.induct) auto

lemma memcmp_trans:
  "length a = length b \<Longrightarrow> length b = length c \<Longrightarrow> memcmp a b < 0 \<Longrightarrow> memcmp b c < 0 \<Longrightarrow> memcmp a c < 0"
proof (induction a b arbitrary: c rule: memcmp.induct)
  case (1 a as b bs)
  then show ?case by (cases c) (auto split: if_splits)
qed auto

interpretation dc: cmp_order default_cmp_key
proof unfold_locales
  show "default_cmp_key a b = 0 \<longleftrightarrow> a = b" for a b
    using memcmp_zero [of a b] by (auto simp: default_cmp_key_def)
  show "0 < default_cmp_key a b \<longleftrightarrow> default_cmp_key b a < 0" for a b
    using memcmp_swap [of a b] by (auto simp: default_cmp_key_def)
  show "default_cmp_key a c < 0" if "default_cmp_key a b < 0" "default_cmp_key b c < 0" for a b c
    using that memcmp_trans [of a b c] by (auto simp: default_cmp_key_def split: if_splits)
qed


section \<open>Lookup\<close>

text \<open>The bucket of a key.\<close>

abbreviation key_bucket :: "'d hash \<Rightarrow> byte list \<Rightarrow> nat" where
  "key_bucket h key \<equiv> unat (hash_key h key) mod h_buckets_size h"

lemma concat_nthI: "b < length bs \<Longrightarrow> i < length (bs ! b) \<Longrightarrow> bs ! b ! i \<in> set (concat bs)"
  unfolding set_concat_nth by (rule UN_I [of b]) simp_all

lemma hash_chains_nth:
  "hash_chains h \<Longrightarrow> b < h_buckets_size h \<Longrightarrow>
     chain_ok (get_key h) (hash_key h) (cmp_key h) (h_buckets_size h) b (h_buckets h ! b)"
  by (simp add: hash_chains_def)

lemma hash_element_bucket:
  assumes "hash_chains h" and "e \<in> set (concat (h_buckets h))"
  shows "e \<in> set (h_buckets h ! key_bucket h (get_key h (he_data e)))"
    and "he_hash_val e = hash_key h (get_key h (he_data e))"
proof -
  obtain b where b: "b < h_buckets_size h" "e \<in> set (h_buckets h ! b)"
    using assms(2) unfolding set_concat_nth by blast
  have p: "key_bucket h (get_key h (he_data e)) = b"
    and v: "he_hash_val e = hash_key h (get_key h (he_data e))"
    using hash_chains_nth [OF assms(1) b(1)] b(2) by (simp_all add: chain_ok_def)
  show "e \<in> set (h_buckets h ! key_bucket h (get_key h (he_data e)))" unfolding p by (fact b(2))
  show "he_hash_val e = hash_key h (get_key h (he_data e))" by (fact v)
qed

lemma h_find_cases:
  assumes "hash_chains h" and "cmp_key h = default_cmp_key"
  obtains (absent) i where "h_find h (key_bucket h key) key = (i, False)"
      and "\<forall>e \<in> set (concat (h_buckets h)). get_key h (he_data e) \<noteq> key"
    | (present) i where "h_find h (key_bucket h key) key = (i, True)" and "i < length (h_buckets h ! key_bucket h key)"
      and "get_key h (he_data (h_buckets h ! key_bucket h key ! i)) = key"
proof -
  have b: "key_bucket h key < h_buckets_size h" using assms(1) by (simp add: hash_chains_def)
  have c: "sorted_wrt (\<lambda>d e. default_cmp_key (get_key h (he_data d)) (get_key h (he_data e)) < 0)
      (h_buckets h ! key_bucket h key)"
    using hash_chains_nth [OF assms(1) b] assms(2) by (simp add: chain_ok_def)
  obtain i f where f: "h_find h (key_bucket h key) key = (i, f)" by force
  show thesis
  proof (cases f)
    case True
    then show ?thesis
      using f dc.find_found [of "get_key h" key "h_buckets h ! key_bucket h key" i] assms(2) present
      by (simp add: h_find_def)
  next
    case False
    have "get_key h (he_data e) \<noteq> key" if e: "e \<in> set (concat (h_buckets h))" for e
    proof
      assume k: "get_key h (he_data e) = key"
      have "e \<in> set (h_buckets h ! key_bucket h key)"
        using hash_element_bucket(1) [OF assms(1) e] unfolding k .
      then show False
        using dc.absent_key [of "get_key h" key "h_buckets h ! key_bucket h key" i e] c f False k assms(2)
        by (simp add: h_find_def)
    qed
    then show ?thesis using absent [of i] f False by simp
  qed
qed

lemma hash_element_unique:
  assumes "hash_chains h" and "cmp_key h = default_cmp_key" and "d \<in> h_data h" and "e \<in> h_data h"
    and "get_key h d = get_key h e"
  shows "d = e"
proof -
  obtain x y where x: "x \<in> set (concat (h_buckets h))" "d = he_data x"
    and y: "y \<in> set (concat (h_buckets h))" "e = he_data y"
    using assms(3,4) by (auto simp only: h_data_def)
  let ?b = "key_bucket h (get_key h d)"
  have "x \<in> set (h_buckets h ! ?b)" using hash_element_bucket(1) [OF assms(1) x(1)] unfolding x(2) .
  moreover have "y \<in> set (h_buckets h ! ?b)"
    using hash_element_bucket(1) [OF assms(1) y(1)] unfolding assms(5) y(2) .
  moreover have "?b < h_buckets_size h" using assms(1) by (simp add: hash_chains_def)
  then have "sorted_wrt (\<lambda>d e. default_cmp_key (get_key h (he_data d)) (get_key h (he_data e)) < 0)
      (h_buckets h ! ?b)"
    using hash_chains_nth [OF assms(1)] assms(2) by (simp add: chain_ok_def)
  ultimately show ?thesis
    using dc.sorted_unique [of "get_key h"] assms(5) x(2) y(2) by (metis in_set_conv_nth)
qed

lemma hash_get_iff:
  assumes "hash_chains h" and "cmp_key h = default_cmp_key"
  shows "\<exists>r. hash_get h key = Inr r \<and> (\<forall>d. r = Some d \<longleftrightarrow> d \<in> h_data h \<and> get_key h d = key)"
proof -
  have n: "h_buckets_size h \<noteq> 0" and b: "key_bucket h key < h_buckets_size h"
    using assms(1) by (auto simp: hash_chains_def)
  show ?thesis
  proof (rule h_find_cases [OF assms, of key], goal_cases absent present)
    case (absent i)
    then have "hash_get h key = Inr None" using n by (simp add: hash_get_def h_index_def)
    moreover have "\<not> (d \<in> h_data h \<and> get_key h d = key)" for d using absent(2) by (auto simp: h_data_def)
    ultimately show ?thesis by simp
  next
    case (present i)
    let ?e = "h_buckets h ! key_bucket h key ! i"
    have "hash_get h key = Inr (Some (he_data ?e))" using present(1) n by (simp add: hash_get_def h_index_def)
    moreover have d: "he_data ?e \<in> h_data h"
      unfolding h_data_def by (rule imageI) (rule concat_nthI [OF b present(2)])
    moreover have "he_data ?e = d \<longleftrightarrow> d \<in> h_data h \<and> get_key h d = key" for d
      using d present(3) hash_element_unique [OF assms d, of d] by metis
    ultimately show ?thesis by (intro exI [of _ "Some (he_data ?e)"]) simp
  qed
qed


section \<open>Changing one chain\<close>

lemma hash_chains_update:
  assumes "hash_chains h" and "b < h_buckets_size h"
    and "chain_ok (get_key h) (hash_key h) (cmp_key h) (h_buckets_size h) b c"
  shows "hash_chains (h\<lparr>h_buckets := (h_buckets h)[b := c]\<rparr>)"
  using assms by (simp add: hash_chains_def nth_list_update)

lemma hash_chains_count [simp]: "hash_chains (h\<lparr>h_item_count := c\<rparr>) = hash_chains h"
  by (simp add: hash_chains_def)

lemma hash_link_ok:
  assumes "hash_chains h" and "cmp_key h = default_cmp_key"
    and "he_hash_val e = hash_key h (get_key h (he_data e))"
    and "h_find h (key_bucket h (get_key h (he_data e))) (get_key h (he_data e)) = (i, False)"
  defines "h' \<equiv> link_element h (key_bucket h (get_key h (he_data e))) i e"
  shows "hash_chains h' \<and> set (concat (h_buckets h')) = insert e (set (concat (h_buckets h))) \<and>
    length (concat (h_buckets h')) = length (concat (h_buckets h)) + 1 \<and> h_buckets_size h' = h_buckets_size h"
proof -
  let ?b = "key_bucket h (get_key h (he_data e))"
  let ?c = "h_buckets h ! ?b"
  let ?d = "take i ?c @ e # drop i ?c"
  have b: "?b < h_buckets_size h" using assms(1) by (simp add: hash_chains_def)
  note c = hash_chains_nth [OF assms(1) b]
  have "i \<le> length ?c"
    using dc.find_absent [of "get_key h" "get_key h (he_data e)" ?c i] assms(2,4) c by (simp add: h_find_def chain_ok_def)
  then have l: "length ?d = length ?c + 1" by simp
  have s: "set ?d = insert e (set ?c)"
    using arg_cong [OF append_take_drop_id [of i ?c], of set] by (simp del: append_take_drop_id)
  have "chain_ok (get_key h) (hash_key h) (cmp_key h) (h_buckets_size h) ?b ?d"
    unfolding chain_ok_def s
    using c assms(2,3,4) dc.link_sorted [of "get_key h" e ?c i] unfolding chain_ok_def h_find_def by simp
  then have "hash_chains h'"
    using hash_chains_update [OF assms(1) b] by (simp add: h'_def link_element_def)
  moreover have "set (concat (h_buckets h')) = insert e (set (concat (h_buckets h)))"
    using set_concat_update [OF b, of ?d, unfolded s] set_concat_update [OF b, of ?c]
    by (simp add: h'_def link_element_def del: set_concat)
  moreover have "length (concat (h_buckets h')) = length (concat (h_buckets h)) + 1"
    using length_concat_update [OF b, of ?d] l by (simp add: h'_def link_element_def)
  ultimately show ?thesis by (simp add: h'_def link_element_def)
qed

lemma hash_link_fields [simp]:
  "get_key (link_element h b i e) = get_key h" "hash_key (link_element h b i e) = hash_key h"
  "cmp_key (link_element h b i e) = cmp_key h" "h_item_count (link_element h b i e) = h_item_count h"
  by (simp_all add: link_element_def)

lemma hash_reinsert_ok:
  assumes "hash_chains h" and "cmp_key h = default_cmp_key"
    and "\<forall>e \<in> set es. he_hash_val e = hash_key h (get_key h (he_data e))"
    and "distinct (map (\<lambda>e. get_key h (he_data e)) es)"
    and "\<forall>e \<in> set es. \<forall>d \<in> set (concat (h_buckets h)). get_key h (he_data d) \<noteq> get_key h (he_data e)"
  shows "\<exists>h'. hash_reinsert h es = Inr h' \<and> hash_chains h' \<and> get_key h' = get_key h \<and> hash_key h' = hash_key h \<and>
    cmp_key h' = cmp_key h \<and> h_item_count h' = h_item_count h \<and>
    set (concat (h_buckets h')) = set (concat (h_buckets h)) \<union> set es \<and>
    length (concat (h_buckets h')) = length (concat (h_buckets h)) + length es"
  using assms
proof (induction es arbitrary: h)
  case (Cons e es)
  let ?k = "get_key h (he_data e)"
  have v: "he_hash_val e = hash_key h ?k" using Cons.prems(3) by simp
  obtain i where i: "h_find h (key_bucket h ?k) ?k = (i, False)"
  proof (rule h_find_cases [OF Cons.prems(1,2), of ?k])
    show thesis if "h_find h (key_bucket h ?k) ?k = (i, True)" "i < length (h_buckets h ! key_bucket h ?k)"
      "get_key h (he_data (h_buckets h ! key_bucket h ?k ! i)) = ?k" for i
    proof -
      have "key_bucket h ?k < h_buckets_size h" using Cons.prems(1) by (simp add: hash_chains_def)
      then show thesis using concat_nthI [OF _ that(2)] that(3) Cons.prems(5) by (metis list.set_intros(1))
    qed
  qed
  define h1 where "h1 = link_element h (key_bucket h ?k) i e"
  have step: "hash_reinsert h (e # es) = hash_reinsert h1 es"
    using i v by (simp add: hash_insert_element_def h_index_def h1_def)
  note l = hash_link_ok [OF Cons.prems(1,2) v i, folded h1_def]
  have f: "get_key h1 = get_key h" "hash_key h1 = hash_key h" "cmp_key h1 = cmp_key h"
    "h_item_count h1 = h_item_count h" by (simp_all add: h1_def)
  have "\<forall>d \<in> set es. \<forall>c \<in> set (concat (h_buckets h1)). get_key h (he_data c) \<noteq> get_key h (he_data d)"
    using Cons.prems(4,5) conjunct1 [OF conjunct2 [OF l]] by (auto simp del: set_concat)
  then show ?case
    using Cons.IH [of h1] Cons.prems l unfolding step f by (auto simp del: set_concat length_concat)
qed simp


lemma hash_distinct:
  assumes "hash_chains h" and "cmp_key h = default_cmp_key"
  shows "distinct (map (\<lambda>e. get_key h (he_data e)) (concat (h_buckets h)))"
proof (rule distinct_concat_pos [where p = "key_bucket h" and off = 0])
  fix b assume b: "b < h_buckets_size h"
  note c = hash_chains_nth [OF assms(1) b, unfolded chain_ok_def assms(2)]
  have "distinct (map (\<lambda>e. get_key h (he_data e)) (h_buckets h ! b))"
    using dc.sorted_unique [OF conjunct1 [OF c]] by (auto simp: distinct_conv_nth)
  with c show "distinct (map (\<lambda>e. get_key h (he_data e)) (h_buckets h ! b)) \<and>
      (\<forall>x \<in> set (h_buckets h ! b). key_bucket h (get_key h (he_data x)) = 0 + b)" by simp
qed

lemma hash_resize_ok:
  assumes "hash_chains h" and "cmp_key h = default_cmp_key" and "0 < n"
  shows "\<exists>h'. hash_resize mem h n = Inr h' \<and> hash_chains h' \<and> get_key h' = get_key h \<and> hash_key h' = hash_key h \<and>
    cmp_key h' = cmp_key h \<and> h_item_count h' = h_item_count h \<and> h_data h' = h_data h \<and>
    length (concat (h_buckets h')) = length (concat (h_buckets h))"
proof (cases mem)
  case True
  let ?h = "h\<lparr>h_buckets := replicate n []\<rparr>"
  have "hash_chains ?h" "set (concat (h_buckets ?h)) = {}"
    using assms(3) by (simp_all add: hash_chains_def chain_ok_def)
  then obtain h' where "hash_reinsert ?h (concat (h_buckets h)) = Inr h'" "hash_chains h'" "get_key h' = get_key h"
    "hash_key h' = hash_key h" "cmp_key h' = cmp_key h" "h_item_count h' = h_item_count h"
    "set (concat (h_buckets h')) = set (concat (h_buckets h))"
    "length (concat (h_buckets h')) = length (concat (h_buckets h))"
    using hash_reinsert_ok [of ?h "concat (h_buckets h)"] hash_distinct [OF assms(1,2)]
      hash_element_bucket(2) [OF assms(1)] assms(2) by (auto simp del: set_concat length_concat)
  with True show ?thesis by (simp add: hash_resize_def h_data_def del: set_concat length_concat)
qed (use assms in \<open>simp add: hash_resize_def\<close>)

section \<open>The operations\<close>

lemma hash_insert_new_ok:
  assumes "hash_ok h" and "h_item_count h < 2 ^ 30" and "h_buckets_size h < 2 ^ 31" and "d \<notin> h_data h"
    and "\<forall>e \<in> h_data h. get_key h e \<noteq> get_key h d"
  shows "\<exists>h'. hash_insert mem h d = Inr (None, h') \<and> hash_ok h' \<and> get_key h' = get_key h \<and>
    hash_key h' = hash_key h \<and> h_data h' = insert d (h_data h) \<and> h_item_count h' = h_item_count h + 1"
proof -
  let ?k = "get_key h d"
  have ch: "hash_chains h" "cmp_key h = default_cmp_key" "h_item_count h = length (concat (h_buckets h))"
    using assms(1) by (simp_all add: hash_ok_def)
  have n: "h_buckets_size h \<noteq> 0" "key_bucket h ?k < h_buckets_size h" using ch(1) by (auto simp: hash_chains_def)
  obtain i where i: "h_find h (key_bucket h ?k) ?k = (i, False)"
  proof (rule h_find_cases [OF ch(1,2), of ?k])
    show thesis if "h_find h (key_bucket h ?k) ?k = (i, True)" "i < length (h_buckets h ! key_bucket h ?k)"
      "get_key h (he_data (h_buckets h ! key_bucket h ?k ! i)) = ?k" for i
      using concat_nthI [OF n(2) that(2)] that(3) assms(5) unfolding h_data_def by blast
  qed
  let ?e = "\<lparr>he_data = d, he_hash_val = hash_key h ?k\<rparr>"
  define h1 where "h1 = (link_element h (key_bucket h ?k) i ?e)\<lparr>h_item_count := h_item_count h + 1\<rparr>"
  have l: "hash_chains h1 \<and> set (concat (h_buckets h1)) = insert ?e (set (concat (h_buckets h))) \<and>
    length (concat (h_buckets h1)) = length (concat (h_buckets h)) + 1 \<and> h_buckets_size h1 = h_buckets_size h"
    using hash_link_ok [OF ch(1,2), of ?e i] i by (simp add: h1_def del: set_concat length_concat)
  have f: "get_key h1 = get_key h" "hash_key h1 = hash_key h" "cmp_key h1 = cmp_key h"
    "h_item_count h1 = h_item_count h + 1" by (simp_all add: h1_def)
  have d1: "h_data h1 = insert d (h_data h)" using l unfolding h_data_def by simp
  have step: "hash_insert mem h d = (if h_item_count h1 \<ge> h_buckets_size h1
      then map_sum (\<lambda>f. f) (\<lambda>h. (None, h)) (hash_resize mem h1 (h_buckets_size h1 * 2))
      else Inr (None, h1))"
    using n(1) i l assms(2,3) unfolding h1_def by (simp add: hash_insert_def h_index_def Let_def)
  obtain h2 where "hash_resize mem h1 (h_buckets_size h1 * 2) = Inr h2" "hash_chains h2" "get_key h2 = get_key h1"
    "hash_key h2 = hash_key h1" "cmp_key h2 = cmp_key h1" "h_item_count h2 = h_item_count h1" "h_data h2 = h_data h1"
    "length (concat (h_buckets h2)) = length (concat (h_buckets h1))"
    using hash_resize_ok [of h1 "h_buckets_size h1 * 2" mem] l f n ch(2) by auto
  then show ?thesis using step l f d1 ch by (auto simp: hash_ok_def simp del: length_concat)
qed


lemma chain_ok_split:
  assumes "chain_ok kf hf default_cmp_key n b c" and "i < length c"
  shows "chain_ok kf hf default_cmp_key n b (take i c @ drop (i + 1) c)"
    and "set (take i c @ drop (i + 1) c) = {e \<in> set c. kf (he_data e) \<noteq> kf (he_data (c ! i))}"
    and "kf d = kf (he_data (c ! i)) \<Longrightarrow>
      chain_ok kf hf default_cmp_key n b (c[i := \<lparr>he_data = d, he_hash_val = hf (kf d)\<rparr>])"
    and "set (c[i := e']) = insert e' {e \<in> set c. kf (he_data e) \<noteq> kf (he_data (c ! i))}"
proof -
  let ?R = "\<lambda>a b. default_cmp_key a b < 0"
  have c: "c = take i c @ c ! i # drop (i + 1) c" using assms(2) by (simp add: id_take_nth_drop)
  have u: "c[i := e'] = take i c @ e' # drop (i + 1) c" for e' using assms(2) by (simp add: upd_conv_take_nth_drop)
  have srt: "sorted_wrt ?R (map (\<lambda>e. kf (he_data e)) c)"
    using assms(1) by (simp add: chain_ok_def sorted_wrt_map)
  have srt': "sorted_wrt ?R (map (\<lambda>e. kf (he_data e)) (take i c) @ kf (he_data (c ! i)) #
      map (\<lambda>e. kf (he_data e)) (drop (i + 1) c))"
    using srt arg_cong [OF c, of "map (\<lambda>e. kf (he_data e))"] by simp
  have st: "set c = insert (c ! i) (set (take i c @ drop (i + 1) c))"
    using arg_cong [OF c, of set] by simp
  have "kf (he_data e) \<noteq> kf (he_data (c ! i))" if "e \<in> set (take i c @ drop (i + 1) c)" for e
  proof -
    have "?R (kf (he_data e)) (kf (he_data (c ! i))) \<or> ?R (kf (he_data (c ! i))) (kf (he_data e))"
      using that srt' by (auto simp: sorted_wrt_append)
    then show ?thesis using dc.cmp_zero [of "kf (he_data e)" "kf (he_data e)"] by auto
  qed
  then show s: "set (take i c @ drop (i + 1) c) = {e \<in> set c. kf (he_data e) \<noteq> kf (he_data (c ! i))}"
    unfolding st by (auto simp del: set_append)
  show "chain_ok kf hf default_cmp_key n b (take i c @ drop (i + 1) c)"
    unfolding chain_ok_def s
    using srt' assms(1) by (auto simp: sorted_wrt_append sorted_wrt_map chain_ok_def)
  show "set (c[i := e']) = insert e' {e \<in> set c. kf (he_data e) \<noteq> kf (he_data (c ! i))}"
    unfolding u s [symmetric] by simp
  show "chain_ok kf hf default_cmp_key n b (c[i := \<lparr>he_data = d, he_hash_val = hf (kf d)\<rparr>])"
    if "kf d = kf (he_data (c ! i))"
  proof -
    let ?e = "\<lparr>he_data = d, he_hash_val = hf (kf d)\<rparr>"
    have "map (\<lambda>e. kf (he_data e)) (c[i := ?e]) = map (\<lambda>e. kf (he_data e)) c"
      using that assms(2) by (simp add: map_update list_update_same_conv)
    then have "sorted_wrt ?R (map (\<lambda>e. kf (he_data e)) (c[i := ?e]))" using srt by simp
    moreover have "\<forall>e \<in> set (c[i := ?e]). he_hash_val e = hf (kf (he_data e)) \<and> unat (hf (kf (he_data e))) mod n = b"
      using assms that nth_mem [OF assms(2)] set_update_subset_insert [of c i ?e] by (fastforce simp: chain_ok_def)
    ultimately show ?thesis unfolding chain_ok_def sorted_wrt_map by blast
  qed
qed

text \<open>Replacing the chain of a key by one whose other elements are the same.\<close>

lemma h_data_update:
  assumes "hash_chains h" and "set c = X \<union> {e \<in> set (h_buckets h ! key_bucket h k). get_key h (he_data e) \<noteq> k}"
  shows "h_data (h\<lparr>h_buckets := (h_buckets h)[key_bucket h k := c]\<rparr>) =
    he_data ` X \<union> {d \<in> h_data h. get_key h d \<noteq> k}"
proof -
  have b: "key_bucket h k < h_buckets_size h" using assms(1) by (simp add: hash_chains_def)
  have "get_key h (he_data e) \<noteq> k" if "j < h_buckets_size h" "j \<noteq> key_bucket h k" "e \<in> set (h_buckets h ! j)" for e j
    using hash_chains_nth [OF assms(1) that(1)] that unfolding chain_ok_def by auto
  then have "{e \<in> set (concat (h_buckets h)). get_key h (he_data e) \<noteq> k} =
      (\<Union>j \<in> {..<h_buckets_size h} - {key_bucket h k}. set (h_buckets h ! j)) \<union>
      {e \<in> set (h_buckets h ! key_bucket h k). get_key h (he_data e) \<noteq> k}"
    using b unfolding set_concat_nth by auto
  moreover have "{d \<in> h_data h. get_key h d \<noteq> k} = he_data ` {e \<in> set (concat (h_buckets h)). get_key h (he_data e) \<noteq> k}"
    unfolding h_data_def by auto
  ultimately show ?thesis
    using set_concat_update [OF b, of c] assms(2) by (auto simp: h_data_def simp del: set_concat)
qed

lemma hash_present:
  assumes "hash_ok h" and "d \<in> h_data h"
  obtains i where "h_find h (key_bucket h (get_key h d)) (get_key h d) = (i, True)"
    and "i < length (h_buckets h ! key_bucket h (get_key h d))"
    and "he_data (h_buckets h ! key_bucket h (get_key h d) ! i) = d"
proof -
  have ch: "hash_chains h" "cmp_key h = default_cmp_key" using assms(1) by (simp_all add: hash_ok_def)
  show thesis
  proof (rule h_find_cases [OF ch, of "get_key h d"], goal_cases absent present)
    case (absent i)
    then show ?case using assms(2) by (auto simp: h_data_def)
  next
    case (present i)
    have "he_data (h_buckets h ! key_bucket h (get_key h d) ! i) \<in> h_data h"
      unfolding h_data_def using ch(1) by (intro imageI concat_nthI present(2)) (simp add: hash_chains_def)
    then show ?case using that present hash_element_unique [OF ch _ assms(2) present(3)] by blast
  qed
qed


lemma hash_get_eqI:
  assumes "hash_ok h" and "hash_ok h'" and "get_key h' = get_key h"
    and "\<And>d. get_key h d = k \<Longrightarrow> d \<in> h_data h \<longleftrightarrow> d \<in> h_data h'"
  shows "hash_get h' k = hash_get h k"
proof -
  obtain r where r: "hash_get h k = Inr r" "\<forall>d. r = Some d \<longleftrightarrow> d \<in> h_data h \<and> get_key h d = k"
    using hash_get_iff [of h k] assms(1) unfolding hash_ok_def by blast
  obtain r' where r': "hash_get h' k = Inr r'" "\<forall>d. r' = Some d \<longleftrightarrow> d \<in> h_data h' \<and> get_key h' d = k"
    using hash_get_iff [of h' k] assms(2) unfolding hash_ok_def by blast
  have "r = Some d \<longleftrightarrow> r' = Some d" for d using r(2) r'(2) assms(3,4) by auto
  then have "r' = r" by (metis not_None_eq)
  with r r' show ?thesis by simp
qed

lemma hash_get_Some: "hash_ok h \<Longrightarrow> hash_get h k = Inr (Some d) \<longleftrightarrow> d \<in> h_data h \<and> get_key h d = k"
proof -
  assume "hash_ok h"
  then obtain r where "hash_get h k = Inr r" "\<forall>d. r = Some d \<longleftrightarrow> d \<in> h_data h \<and> get_key h d = k"
    using hash_get_iff [of h k] unfolding hash_ok_def by blast
  then show ?thesis by simp
qed

lemma hash_get_None: "hash_ok h \<Longrightarrow> hash_get h k = Inr None \<longleftrightarrow> (\<forall>d \<in> h_data h. get_key h d \<noteq> k)"
proof -
  assume "hash_ok h"
  then obtain r where r: "hash_get h k = Inr r" "\<forall>d. r = Some d \<longleftrightarrow> d \<in> h_data h \<and> get_key h d = k"
    using hash_get_iff [of h k] unfolding hash_ok_def by blast
  show ?thesis by (cases r) (use r in auto)
qed

lemma hash_insert_old_ok:
  assumes "hash_ok h" and "c \<in> h_data h" and "get_key h c = get_key h d"
  shows "\<exists>h'. hash_insert mem h d = Inr (Some c, h') \<and> hash_ok h' \<and> get_key h' = get_key h \<and>
    h_data h' = insert d {x \<in> h_data h. get_key h x \<noteq> get_key h d} \<and> h_item_count h' = h_item_count h"
proof -
  let ?k = "get_key h d"
  let ?b = "key_bucket h ?k"
  have ch: "hash_chains h" "cmp_key h = default_cmp_key" "h_item_count h = length (concat (h_buckets h))"
    using assms(1) by (simp_all add: hash_ok_def)
  have n: "h_buckets_size h \<noteq> 0" "?b < h_buckets_size h" using ch(1) by (auto simp: hash_chains_def)
  obtain i where i: "h_find h ?b ?k = (i, True)" "i < length (h_buckets h ! ?b)" "he_data (h_buckets h ! ?b ! i) = c"
    using hash_present [OF assms(1,2)] unfolding assms(3) by blast
  let ?c = "(h_buckets h ! ?b)[i := \<lparr>he_data = d, he_hash_val = hash_key h ?k\<rparr>]"
  let ?h = "h\<lparr>h_buckets := (h_buckets h)[?b := ?c]\<rparr>"
  note cs = chain_ok_split [OF hash_chains_nth [OF ch(1) n(2), unfolded ch(2)] i(2)]
  have "hash_chains ?h"
    using cs(3) [of d] i(3) assms(3) ch(2) by (intro hash_chains_update [OF ch(1) n(2)]) simp
  moreover have "length (concat (h_buckets ?h)) = length (concat (h_buckets h))"
    using length_concat_update [OF n(2), of ?c] by simp
  ultimately have "hash_ok ?h" using ch by (simp add: hash_ok_def)
  moreover have "h_data ?h = he_data ` {\<lparr>he_data = d, he_hash_val = hash_key h ?k\<rparr>} \<union> {x \<in> h_data h. get_key h x \<noteq> ?k}"
    using cs(4) i(3) assms(3) by (intro h_data_update [OF ch(1)]) simp
  moreover have "hash_insert mem h d = Inr (Some c, ?h)"
    using n(1) i(1,3) by (simp add: hash_insert_def h_index_def Let_def)
  ultimately show ?thesis by auto
qed

lemma hash_remove_ok:
  assumes "hash_ok h" and "c \<in> h_data h" and "h_item_count h < 2 ^ 32"
  shows "\<exists>h'. hash_remove h (get_key h c) = Inr (Some c, h') \<and> hash_ok h' \<and> get_key h' = get_key h \<and>
    h_data h' = {x \<in> h_data h. get_key h x \<noteq> get_key h c} \<and> h_item_count h' + 1 = h_item_count h"
proof -
  let ?k = "get_key h c"
  let ?b = "key_bucket h ?k"
  have ch: "hash_chains h" "cmp_key h = default_cmp_key" "h_item_count h = length (concat (h_buckets h))"
    using assms(1) by (simp_all add: hash_ok_def)
  have n: "h_buckets_size h \<noteq> 0" "?b < h_buckets_size h" using ch(1) by (auto simp: hash_chains_def)
  obtain i where i: "h_find h ?b ?k = (i, True)" "i < length (h_buckets h ! ?b)" "he_data (h_buckets h ! ?b ! i) = c"
    using hash_present [OF assms(1,2)] by blast
  let ?c = "take i (h_buckets h ! ?b) @ drop (i + 1) (h_buckets h ! ?b)"
  let ?m = "(h_item_count h + (2 ^ 32 - 1)) mod 2 ^ 32"
  let ?h1 = "h\<lparr>h_buckets := (h_buckets h)[?b := ?c]\<rparr>"
  let ?h = "?h1\<lparr>h_item_count := ?m\<rparr>"
  note cs = chain_ok_split [OF hash_chains_nth [OF ch(1) n(2), unfolded ch(2)] i(2)]
  have chs: "hash_chains ?h"
    using cs(1) ch(2) hash_chains_update [OF ch(1) n(2), of ?c] by simp
  have l: "length (concat (h_buckets ?h)) + 1 = length (concat (h_buckets h))"
    using length_concat_update [OF n(2), of ?c] i(2) by simp
  have m: "?m + 1 = h_item_count h"
  proof -
    obtain x where x: "h_item_count h = x + 1" using l ch(3) by (metis add.commute)
    then have "?m = (x + 2 ^ 32) mod 2 ^ 32" by simp
    also have "\<dots> = x" using x assms(3) by simp
    finally show ?thesis using x by simp
  qed
  have "hash_ok ?h" using ch chs l m by (simp add: hash_ok_def del: length_concat) 
  moreover have "h_data ?h1 = {x \<in> h_data h. get_key h x \<noteq> ?k}"
    using h_data_update [OF ch(1), of ?c "{}" ?k] cs(2) i(3) by simp
  then have "h_data ?h = {x \<in> h_data h. get_key h x \<noteq> ?k}" by (simp add: h_data_def)
  moreover have "hash_remove h ?k = Inr (Some c, ?h)"
    using n(1) i(1,3) by (simp add: hash_remove_def h_index_def Let_def)
  ultimately show ?thesis using m by (intro exI [of _ ?h]) simp
qed

section \<open>Properties\<close>

text \<open>C29: \<open>hash_insert\<close> on a table with the default comparison returns the datum that had the
  key (null if there was none), and afterwards \<open>hash_get\<close> finds the new datum under its key
  and every other key as before; the chains stay sorted, the count is right, and no assertion
  fails when the table grows, whether or not \<open>malloc\<close> succeeds.\<close>

theorem hash_insert_get:
  assumes "hash_ok h" and "h_item_count h < 2 ^ 30" and "h_buckets_size h < 2 ^ 31"
  shows "\<exists>r h'. hash_insert mem h d = Inr (r, h') \<and> hash_ok h' \<and> hash_get h (get_key h d) = Inr r \<and>
     hash_get h' (get_key h d) = Inr (Some d) \<and>
     (\<forall>k. k \<noteq> get_key h d \<longrightarrow> hash_get h' k = hash_get h k) \<and>
     hash_size h' = hash_size h + (if r = None then 1 else 0)"
proof (cases "\<exists>c \<in> h_data h. get_key h c = get_key h d")
  case True
  then obtain c where c: "c \<in> h_data h" "get_key h c = get_key h d" by blast
  obtain h' where h': "hash_insert mem h d = Inr (Some c, h')" "hash_ok h'" "get_key h' = get_key h"
    "h_data h' = insert d {x \<in> h_data h. get_key h x \<noteq> get_key h d}" "h_item_count h' = h_item_count h"
    using hash_insert_old_ok [OF assms(1) c] by blast
  moreover have "hash_get h' k = hash_get h k" if "k \<noteq> get_key h d" for k
    using that h'(4) by (intro hash_get_eqI [OF assms(1) h'(2,3)]) auto
  ultimately show ?thesis
    using c hash_get_Some [OF assms(1)] hash_get_Some [OF h'(2)] by (auto simp: hash_size_def)
next
  case False
  obtain h' where h': "hash_insert mem h d = Inr (None, h')" "hash_ok h'" "get_key h' = get_key h"
    "h_data h' = insert d (h_data h)" "h_item_count h' = h_item_count h + 1"
    using hash_insert_new_ok [OF assms, of d mem] False by blast
  moreover have "hash_get h' k = hash_get h k" if "k \<noteq> get_key h d" for k
    using that h'(4) by (intro hash_get_eqI [OF assms(1) h'(2,3)]) auto
  ultimately show ?thesis
    using False hash_get_None [OF assms(1)] hash_get_Some [OF h'(2)] by (auto simp: hash_size_def)
qed

text \<open>\<open>hash_remove\<close> returns what \<open>hash_get\<close> would, and afterwards the key is gone, every
  other key is as before, and the count is one less if there was something to remove.\<close>

theorem hash_remove_get:
  assumes "hash_ok h" and "h_item_count h < 2 ^ 32"
  shows "\<exists>r h'. hash_remove h k = Inr (r, h') \<and> hash_ok h' \<and> hash_get h k = Inr r \<and> hash_get h' k = Inr None \<and>
     (\<forall>k'. k' \<noteq> k \<longrightarrow> hash_get h' k' = hash_get h k') \<and>
     hash_size h = hash_size h' + (if r = None then 0 else 1)"
proof (cases "\<exists>c \<in> h_data h. get_key h c = k")
  case True
  then obtain c where c: "c \<in> h_data h" "get_key h c = k" by blast
  obtain h' where h': "hash_remove h k = Inr (Some c, h')" "hash_ok h'" "get_key h' = get_key h"
    "h_data h' = {x \<in> h_data h. get_key h x \<noteq> k}" "h_item_count h' + 1 = h_item_count h"
    using hash_remove_ok [OF assms(1) c(1) assms(2)] c(2) by blast
  moreover have "hash_get h' k' = hash_get h k'" if "k' \<noteq> k" for k'
    using that h'(4) by (intro hash_get_eqI [OF assms(1) h'(2,3)]) auto
  ultimately show ?thesis
    using c hash_get_Some [OF assms(1)] hash_get_None [OF h'(2)] by (auto simp: hash_size_def)
next
  case False
  have ch: "hash_chains h" "cmp_key h = default_cmp_key" using assms(1) by (simp_all add: hash_ok_def)
  have "hash_get h k = Inr None" using False hash_get_None [OF assms(1)] by blast
  moreover from this have "hash_remove h k = Inr (None, h)"
    by (auto simp: hash_get_def hash_remove_def Let_def split: if_splits prod.splits)
  ultimately show ?thesis using assms(1) by auto
qed

definition hash_example :: "byte list hash" where
  "hash_example = \<lparr>get_key = (\<lambda>d. d), hash_key = default_hash_key, cmp_key = default_cmp_key, h_item_count = 1,
     h_buckets = [[\<lparr>he_data = [7], he_hash_val = default_hash_key [7]\<rparr>]]\<rparr>"

lemma hash_example_ok: "hash_ok hash_example"
  by (simp add: hash_ok_def hash_chains_def hash_example_def chain_ok_def)

theorem hash_insert_get_witness:
  "\<exists>r h'. hash_insert True hash_example [9] = Inr (r, h') \<and> hash_ok h' \<and>
     hash_get hash_example (get_key hash_example [9]) = Inr r \<and>
     hash_get h' (get_key hash_example [9]) = Inr (Some [9]) \<and>
     (\<forall>k. k \<noteq> get_key hash_example [9] \<longrightarrow> hash_get h' k = hash_get hash_example k) \<and>
     hash_size h' = hash_size hash_example + (if r = None then 1 else 0)"
  by (rule hash_insert_get [OF hash_example_ok]) (simp_all add: hash_example_def)

theorem hash_remove_get_witness:
  "\<exists>r h'. hash_remove hash_example [7] = Inr (r, h') \<and> hash_ok h' \<and> hash_get hash_example [7] = Inr r \<and>
     hash_get h' [7] = Inr None \<and> (\<forall>k'. k' \<noteq> [7] \<longrightarrow> hash_get h' k' = hash_get hash_example k') \<and>
     hash_size hash_example = hash_size h' + (if r = None then 0 else 1)"
  by (rule hash_remove_get [OF hash_example_ok]) (simp add: hash_example_def)

end
