(* ===== verification/SlotArray.thy ===== *)
theory SlotArray
  imports CPrelude
begin

text \<open>
  The fixed array of pointers of \<open>framework/array.c\<close>: \<open>s\<close> slots, the count \<open>c\<close> of those that
  are not null, and the slots themselves; the null pointer is \<open>None\<close>.
\<close>

record 'a array =
  arr_s :: nat
  arr_c :: nat
  arr_p :: "'a option list"

definition array_new :: "nat \<Rightarrow> 'a array" where
  "array_new s = \<lparr>arr_s = s, arr_c = 0, arr_p = replicate s None\<rparr>"

definition array_get :: "'a array \<Rightarrow> nat \<Rightarrow> 'a option" where
  "array_get a i = (if i < arr_s a then arr_p a ! i else None)"

definition array_set :: "'a array \<Rightarrow> nat \<Rightarrow> 'a option \<Rightarrow> 'a option \<times> 'a array" where
  "array_set a i p =
     (if i \<ge> arr_s a then (None, a)
      else (let r = arr_p a ! i
            in if r = p then (None, a)
               else (let c = arr_c a;
                         c = (if r \<noteq> None then c - 1 else c);
                         c = (if p \<noteq> None then c + 1 else c)
                     in (r, a\<lparr>arr_c := c, arr_p := (arr_p a)[i := p]\<rparr>))))"

text \<open>The search for the first free slot from \<open>i\<close> on; \<open>size_t\<close> -1 is \<open>SIZE_MAX\<close>.\<close>

definition SIZE_MAX :: nat where
  "SIZE_MAX = 2 ^ 64 - 1"

fun first_free :: "'a option list \<Rightarrow> nat \<Rightarrow> nat option" where
  "first_free [] i = None"
| "first_free (x # xs) i = (if x = None then Some i else first_free xs (i + 1))"

definition array_push :: "'a array \<Rightarrow> 'a option \<Rightarrow> nat \<times> 'a array" where
  "array_push a p =
     (if p = None then (SIZE_MAX, a)
      else (case first_free (take (arr_s a) (arr_p a)) 0 of
              None \<Rightarrow> (SIZE_MAX, a)
            | Some i \<Rightarrow> (i, a\<lparr>arr_p := (arr_p a)[i := p], arr_c := arr_c a + 1\<rparr>)))"

definition array_size :: "'a array \<Rightarrow> nat" where
  "array_size a = arr_s a"

definition array_count :: "'a array \<Rightarrow> nat" where
  "array_count a = arr_c a"

definition array_full :: "'a array \<Rightarrow> bool" where
  "array_full a \<longleftrightarrow> arr_c a \<ge> arr_s a"

definition array_empty :: "'a array \<Rightarrow> bool" where
  "array_empty a \<longleftrightarrow> arr_c a = 0"

section \<open>Invariant\<close>

definition array_ok :: "'a array \<Rightarrow> bool" where
  "array_ok a \<longleftrightarrow> length (arr_p a) = arr_s a \<and> arr_c a = length (filter (\<lambda>x. x \<noteq> None) (arr_p a))"

lemma count_update:
  assumes "i < length xs"
  shows "length (filter P (xs[i := y])) + of_bool (P (xs ! i)) = length (filter P xs) + of_bool (P y)"
proof -
  have "length (filter P xs) = length (filter P (take i xs @ xs ! i # drop (Suc i) xs))"
    using assms by (simp add: id_take_nth_drop [symmetric])
  then have "length (filter P xs) =
      length (filter P (take i xs)) + of_bool (P (xs ! i)) + length (filter P (drop (Suc i) xs))"
    by simp
  moreover have "length (filter P (xs[i := y])) =
      length (filter P (take i xs)) + of_bool (P y) + length (filter P (drop (Suc i) xs))"
    using assms by (simp add: upd_conv_take_nth_drop)
  ultimately show ?thesis by simp
qed

lemma first_free_Some:
  "first_free xs i = Some j \<Longrightarrow>
     i \<le> j \<and> j - i < length xs \<and> xs ! (j - i) = None \<and> (\<forall>k < j - i. xs ! k \<noteq> None)"
proof (induction xs arbitrary: i)
  case (Cons x xs)
  show ?case
  proof (cases "x = None")
    case False
    with Cons have "Suc i \<le> j \<and> j - Suc i < length xs \<and> xs ! (j - Suc i) = None \<and> (\<forall>k < j - Suc i. xs ! k \<noteq> None)"
      by simp
    then show ?thesis using False by (auto simp: nth_Cons' less_diff_conv)
  qed (use Cons in simp)
qed simp

lemma first_free_None: "first_free xs i = None \<longleftrightarrow> None \<notin> set xs"
  by (induction xs arbitrary: i) auto

lemma array_ok_full:
  assumes "array_ok a"
  shows "array_full a \<longleftrightarrow> None \<notin> set (arr_p a)"
proof
  assume "array_full a"
  then show "None \<notin> set (arr_p a)"
    using length_filter_less [of None "arr_p a" "\<lambda>x. x \<noteq> None"] assms
    by (auto simp: array_ok_def array_full_def)
next
  assume "None \<notin> set (arr_p a)"
  then have "filter (\<lambda>x. x \<noteq> None) (arr_p a) = arr_p a"
    by (intro filter_True ballI) metis
  then show "array_full a" using assms by (simp add: array_ok_def array_full_def)
qed

section \<open>Properties\<close>

text \<open>\<open>array_set\<close> changes one slot: afterwards \<open>array_get\<close> gives the new pointer there and
  the old ones elsewhere, and the count is that of the slots in use. It returns the pointer
  that was replaced, or null when the index is out of range or nothing changed.\<close>

theorem array_set_get:
  assumes "array_ok a" and "array_set a i p = (r, b)"
  shows "array_ok b \<and> (\<forall>j. array_get b j = (if j = i \<and> i < arr_s a then p else array_get a j)) \<and>
     r = (if i < arr_s a \<and> array_get a i \<noteq> p then array_get a i else None) \<and>
     array_count b = length (filter (\<lambda>x. x \<noteq> None) (arr_p b))"
proof (cases "i < arr_s a \<and> arr_p a ! i \<noteq> p")
  case True
  then show ?thesis
    using assms count_update [of i "arr_p a" "\<lambda>x. x \<noteq> None" p]
      count_update [of i "arr_p a" "\<lambda>x. x \<noteq> None" None]
    by (auto simp: array_set_def array_ok_def array_get_def array_count_def Let_def split: if_splits)
next
  case False
  then show ?thesis
    using assms by (auto simp: array_set_def array_ok_def array_get_def array_count_def Let_def split: if_splits)
qed

theorem array_set_get_witness:
  "array_ok (snd (array_set (array_new 3) 1 (Some ''x'')))"
  using array_set_get [of "array_new 3" 1 "Some ''x''" "fst (array_set (array_new 3) 1 (Some ''x''))"
      "snd (array_set (array_new 3) 1 (Some ''x''))"]
  by (simp add: array_ok_def array_new_def)

text \<open>\<open>array_push\<close> of a pointer fails exactly when the array is full; otherwise it fills the
  first free slot, returns its index and keeps every other slot.\<close>

theorem array_push_first_free:
  assumes "array_ok a" and "arr_s a < SIZE_MAX" and "array_push a (Some x) = (i, b)"
  shows "if array_full a then i = SIZE_MAX \<and> b = a
     else i < arr_s a \<and> array_get a i = None \<and> (\<forall>j < i. array_get a j \<noteq> None) \<and> array_ok b \<and>
       (\<forall>j. array_get b j = (if j = i then Some x else array_get a j)) \<and>
       array_count b = array_count a + 1"
proof (cases "first_free (arr_p a) 0")
  case None
  then have "array_full a" using first_free_None [of "arr_p a" 0] array_ok_full [OF assms(1)] by blast
  with None show ?thesis using assms by (simp add: array_push_def array_ok_def)
next
  case (Some k)
  then have "first_free (arr_p a) 0 \<noteq> None" by simp
  then have "\<not> array_full a" using first_free_None [of "arr_p a" 0] array_ok_full [OF assms(1)] by simp
  then show ?thesis
    using Some first_free_Some [OF Some] assms count_update [of k "arr_p a" "\<lambda>x. x \<noteq> None" "Some x"]
    by (auto simp: array_push_def array_ok_def array_get_def array_count_def)
qed

theorem array_push_first_free_witness:
  "\<not> array_full (array_new 2 :: nat array) \<and> array_ok (snd (array_push (array_new 2) (Some (5::nat)))) \<and>
     array_count (snd (array_push (array_new 2) (Some (5::nat)))) = array_count (array_new 2 :: nat array) + 1"
proof -
  have e: "array_push (array_new 2) (Some (5::nat)) =
      (0, \<lparr>arr_s = 2, arr_c = 1, arr_p = [Some 5, None]\<rparr>)"
    by (simp add: array_push_def array_new_def numeral_2_eq_2)
  have "\<not> array_full (array_new 2 :: nat array)" by (simp add: array_full_def array_new_def)
  with array_push_first_free [OF _ _ e] e show ?thesis
    by (simp add: array_ok_def array_new_def SIZE_MAX_def)
qed

end
