(* ===== verification/CodeQueue.thy ===== *)
theory CodeQueue
  imports CPrelude
begin

text \<open>
  The ring of length-prefixed messages of \<open>framework/codequeue.c\<close>, which processes share.

  The structure is the read position \<open>begin\<close>, the write position \<open>end\<close>, the size, and the bytes
  after the header (\<open>queue + 1\<close>). A message is its length in four bytes, little-endian, and its
  bytes. The \<open>size_t\<close> sum of the room check is taken modulo \<open>2^64\<close>.
\<close>

section \<open>Operations\<close>

record codequeue =
  cq_begin :: nat
  cq_end :: nat
  cq_size :: nat
  cq_mem :: "byte list"

definition AG_CODEQUEEU_RESERVE :: nat where
  "AG_CODEQUEEU_RESERVE = 4"

text \<open>\<open>sizeof(CQ)\<close> is 24. \<open>aligned\<close> is the test of \<open>agCQ_attach\<close> on the pointer; \<open>mem\<close> are the
  bytes behind the header.\<close>

definition agCQ_attach :: "bool \<Rightarrow> codequeue \<Rightarrow> codequeue option" where
  "agCQ_attach aligned q = (if aligned then Some q else None)"

definition agCQ_open :: "bool \<Rightarrow> codequeue \<Rightarrow> nat \<Rightarrow> codequeue option" where
  "agCQ_open aligned q sz =
     (if sz < 24 + AG_CODEQUEEU_RESERVE then None
      else map_option (\<lambda>q. q\<lparr>cq_size := sz - 24, cq_begin := 0, cq_end := 0\<rparr>) (agCQ_attach aligned q))"

text \<open>\<open>None\<close> stands for the position \<open>(size_t)-1\<close>.\<close>

definition SetCriticalData :: "codequeue \<Rightarrow> nat option \<Rightarrow> nat option \<Rightarrow> codequeue" where
  "SetCriticalData q b e =
     (let q = (case b of None \<Rightarrow> q | Some b \<Rightarrow> if b < cq_size q then q\<lparr>cq_begin := b\<rparr> else q)
      in case e of None \<Rightarrow> q | Some e \<Rightarrow> if e < cq_size q then q\<lparr>cq_end := e\<rparr> else q)"

definition CQSize :: "codequeue \<Rightarrow> nat" where
  "CQSize q = (if cq_size q \<ge> AG_CODEQUEEU_RESERVE then cq_size q - AG_CODEQUEEU_RESERVE else 0)"

definition CQLength :: "codequeue \<Rightarrow> nat \<Rightarrow> nat \<Rightarrow> nat" where
  "CQLength q b e = (if e \<ge> b then e - b else cq_size q + e - b)"

text \<open>The bytes read and the position after them.\<close>

definition CQRead :: "codequeue \<Rightarrow> nat \<Rightarrow> nat \<Rightarrow> byte list \<times> nat" where
  "CQRead q b len =
     ((if cq_size q - b > len then take len (drop b (cq_mem q))
       else (let l1 = cq_size q - b
             in take l1 (drop b (cq_mem q)) @ take (len - l1) (cq_mem q))),
      (b + len) mod cq_size q)"

definition CQWrite :: "codequeue \<Rightarrow> nat \<Rightarrow> byte list \<Rightarrow> codequeue \<times> nat" where
  "CQWrite q e data =
     (let len = length data
      in ((if cq_size q - e > len then q\<lparr>cq_mem := store_at (cq_mem q) e data\<rparr>
           else (let l1 = cq_size q - e;
                     m = store_at (cq_mem q) e (take l1 data)
                 in q\<lparr>cq_mem := store_at m 0 (drop l1 data)\<rparr>)),
          (e + len) mod cq_size q))"

text \<open>The result is the return value and what was stored through \<open>data\<close>, if anything.\<close>

definition agCQ_pop :: "codequeue \<Rightarrow> nat \<Rightarrow> nat \<times> byte list option \<times> codequeue" where
  "agCQ_pop q len =
     (let b = cq_begin q; e = cq_end q
      in if b = e then (0, None, q)
         else (let n = CQLength q b e
               in if n < 4 then (0, None, SetCriticalData q (Some e) None)
                  else (let (h, b) = CQRead q b 4; rlen = le_nat h
                        in if len = 0 \<or> rlen > len then (rlen, None, q)
                           else if rlen > 0 then
                             (if n - 4 < rlen then (0, None, SetCriticalData q (Some e) None)
                              else (let (d, b) = CQRead q b rlen
                                    in (rlen, Some d, SetCriticalData q (Some b) None)))
                           else (rlen, Some [], SetCriticalData q (Some b) None))))"

definition agCQ_push :: "codequeue \<Rightarrow> byte list \<Rightarrow> nat \<times> codequeue" where
  "agCQ_push q data =
     (let b = cq_begin q; e = cq_end q; sz = CQSize q; n = CQLength q b e; len = length data
      in if (n + len + 4) mod 2 ^ 64 > sz then (0, q)
         else (let (q, e) = CQWrite q e (le_bytes 4 (len mod 2 ^ 32));
                   (q, e) = (if len > 0 then CQWrite q e data else (q, e))
               in (len, SetCriticalData q None (Some e))))"

text \<open>The argument list of \<open>agCQ_pushv\<close> as a list of blocks. \<open>s_end\<close> is 0 and stays it.\<close>

fun pushv_loop :: "codequeue \<Rightarrow> nat \<Rightarrow> nat \<Rightarrow> nat \<Rightarrow> byte list list \<Rightarrow> (codequeue \<times> nat \<times> nat) option \<times> codequeue" where
  "pushv_loop q b e tlen [] = (Some (q, e, tlen), q)"
| "pushv_loop q b e tlen (data # args) =
     (let len = length data; n = CQLength q b e
      in if (n + len) mod 2 ^ 64 > CQSize q then (None, q)
         else (let (q, e) = CQWrite q e data in pushv_loop q b e (tlen + len) args))"

definition agCQ_pushv :: "codequeue \<Rightarrow> byte list list \<Rightarrow> nat \<times> codequeue" where
  "agCQ_pushv q args =
     (let b = cq_begin q; s_end = 0; e = (cq_end q + 4) mod cq_size q
      in case pushv_loop q b e 0 args of
           (None, q) \<Rightarrow> (0, q)
         | (Some (q, e, tlen), _) \<Rightarrow>
             (let (q, _) = CQWrite q s_end (le_bytes 4 (tlen mod 2 ^ 32))
              in (tlen, SetCriticalData q None (Some e))))"

definition agCQ_pushf :: "codequeue \<Rightarrow> byte list list \<Rightarrow> nat \<times> codequeue" where
  "agCQ_pushf q args = agCQ_pushv q args"

section \<open>Invariant and abstraction\<close>

definition cq_ok :: "codequeue \<Rightarrow> bool" where
  "cq_ok q \<longleftrightarrow> length (cq_mem q) = cq_size q \<and> cq_begin q < cq_size q \<and> cq_end q < cq_size q \<and>
     4 \<le> cq_size q \<and> cq_size q < 2 ^ 32"

text \<open>\<open>n\<close> bytes of the ring from position \<open>b\<close>.\<close>

definition ring :: "codequeue \<Rightarrow> nat \<Rightarrow> nat \<Rightarrow> byte list" where
  "ring q b n = map (\<lambda>k. cq_mem q ! ((b + k) mod cq_size q)) [0..<n]"

definition cq_frame :: "byte list \<Rightarrow> byte list" where
  "cq_frame d = le_bytes 4 (length d) @ d"

text \<open>The queue holds the messages \<open>ms\<close>.\<close>

definition cq_rep :: "codequeue \<Rightarrow> byte list list \<Rightarrow> bool" where
  "cq_rep q ms \<longleftrightarrow>
     cq_ok q \<and> length (concat (map cq_frame ms)) < cq_size q \<and>
     cq_end q = (cq_begin q + length (concat (map cq_frame ms))) mod cq_size q \<and>
     ring q (cq_begin q) (length (concat (map cq_frame ms))) = concat (map cq_frame ms)"

section \<open>The ring\<close>

lemma length_ring [simp]: "length (ring q b n) = n"
  by (simp add: ring_def)

lemma ring_append: "ring q b (m + n) = ring q b m @ ring q ((b + m) mod cq_size q) n"
proof -
  have "(b + (m + k)) mod cq_size q = ((b + m) mod cq_size q + k) mod cq_size q" for k
    by (metis add.assoc mod_add_left_eq)
  moreover have "[0..<m + n] = [0..<m] @ map (\<lambda>k. m + k) [0..<n]"
    by (rule nth_equalityI) (auto simp: nth_append)
  ultimately show ?thesis by (simp add: ring_def comp_def)
qed

lemma CQRead_ring:
  assumes "length (cq_mem q) = cq_size q" and "b < cq_size q" and "len \<le> cq_size q"
  shows "CQRead q b len = (ring q b len, (b + len) mod cq_size q)"
proof -
  have "(b + k) mod cq_size q = (if b + k < cq_size q then b + k else b + k - cq_size q)" if "k < len" for k
    using assms that by (simp add: mod_if)
  then show ?thesis
    using assms by (auto simp: CQRead_def ring_def list_eq_iff_nth_eq nth_append Let_def add.commute)
qed

lemma CQWrite_nth:
  assumes "length (cq_mem q) = cq_size q" and "e < cq_size q" and "length d \<le> cq_size q"
    and "CQWrite q e d = (q', e')"
  shows "e' = (e + length d) mod cq_size q" and "length (cq_mem q') = cq_size q"
    and "cq_begin q' = cq_begin q" and "cq_end q' = cq_end q" and "cq_size q' = cq_size q"
    and "k < length d \<Longrightarrow> cq_mem q' ! ((e + k) mod cq_size q) = d ! k"
    and "j < cq_size q \<Longrightarrow> \<forall>k < length d. j \<noteq> (e + k) mod cq_size q \<Longrightarrow> cq_mem q' ! j = cq_mem q ! j"
proof -
  show "e' = (e + length d) mod cq_size q" "cq_begin q' = cq_begin q" "cq_end q' = cq_end q" "cq_size q' = cq_size q"
    using assms(4) by (auto simp: CQWrite_def Let_def split: if_splits)
  show l: "length (cq_mem q') = cq_size q"
    using assms by (auto simp: CQWrite_def Let_def split: if_splits)
  have md: "(e + k) mod cq_size q = (if e + k < cq_size q then e + k else e + k - cq_size q)" if "k < length d" for k
    using assms that by (simp add: mod_if)
  show "cq_mem q' ! ((e + k) mod cq_size q) = d ! k" if "k < length d"
    using assms that md [OF that] by (auto simp: CQWrite_def Let_def nth_store_at split: if_splits)
  show "cq_mem q' ! j = cq_mem q ! j" if "j < cq_size q" "\<forall>k < length d. j \<noteq> (e + k) mod cq_size q"
  proof -
    have "\<not> (e \<le> j \<and> j < e + length d)"
    proof
      assume "e \<le> j \<and> j < e + length d"
      then have "j - e < length d" "(e + (j - e)) mod cq_size q = j" using that(1) by simp_all linarith
      with that(2) show False by metis
    qed
    moreover have "\<not> j + cq_size q < e + length d"
    proof
      assume "j + cq_size q < e + length d"
      then have "j + cq_size q - e < length d" "(e + (j + cq_size q - e)) mod cq_size q = j"
        using that(1) assms(2) by simp_all
      with that(2) show False by metis
    qed
    ultimately show ?thesis
      using assms that(1) by (auto simp: CQWrite_def Let_def nth_store_at split: if_splits)
  qed
qed


lemma ring_write:
  assumes "length (cq_mem q) = cq_size q" and "b < cq_size q" and "n + length d \<le> cq_size q"
    and "CQWrite q ((b + n) mod cq_size q) d = (q', e')"
  shows "ring q' b (n + length d) = ring q b n @ d" and "e' = (b + (n + length d)) mod cq_size q"
proof -
  let ?e = "(b + n) mod cq_size q"
  have e: "?e < cq_size q" "length d \<le> cq_size q" using assms(2,3) by simp_all
  note w = CQWrite_nth [OF assms(1) e assms(4)]
  have pos: "(?e + k) mod cq_size q = (b + (n + k)) mod cq_size q" for k
    by (metis add.assoc mod_add_left_eq)
  have inj: "(b + i) mod cq_size q \<noteq> (b + (n + k)) mod cq_size q" if "i < n" "k < length d" for i k
  proof
    assume "(b + i) mod cq_size q = (b + (n + k)) mod cq_size q"
    then have "cq_size q dvd b + (n + k) - (b + i)"
      using that mod_eq_dvd_iff_nat [of "b + i" "b + (n + k)" "cq_size q"] by simp
    then have "cq_size q \<le> n + k - i" using that by (intro dvd_imp_le) simp_all
    with that assms(3) show False by simp
  qed
  have old: "ring q' b n = ring q b n"
  proof -
    have "cq_mem q' ! ((b + i) mod cq_size q) = cq_mem q ! ((b + i) mod cq_size q)" if "i < n" for i
    proof (rule w(7))
      show "(b + i) mod cq_size q < cq_size q" using assms(2) by simp
      show "\<forall>k < length d. (b + i) mod cq_size q \<noteq> (?e + k) mod cq_size q"
        unfolding pos using inj [OF that] by blast
    qed
    then show ?thesis using w(5) by (simp add: ring_def)
  qed
  have new: "ring q' ?e (length d) = d"
    by (rule nth_equalityI) (use w(5,6) in \<open>simp_all add: ring_def\<close>)
  show "ring q' b (n + length d) = ring q b n @ d"
    unfolding ring_append w(5) old new ..
  show "e' = (b + (n + length d)) mod cq_size q" using w(1) by (simp only: pos)
qed


lemma drop_store_at_front: "length w \<le> e \<Longrightarrow> drop e (store_at m 0 w) = drop e m"
  by (simp add: store_at_def)

section \<open>Messages\<close>

lemma CQLength_mod:
  assumes "b < cq_size q" and "n < cq_size q"
  shows "CQLength q b ((b + n) mod cq_size q) = n"
  using assms by (auto simp: CQLength_def mod_if)

lemma SetCriticalData_end:
  "e < cq_size q \<Longrightarrow> SetCriticalData q None (Some e) = q\<lparr>cq_end := e\<rparr>"
  by (simp add: SetCriticalData_def)

lemma SetCriticalData_begin:
  "b < cq_size q \<Longrightarrow> SetCriticalData q (Some b) None = q\<lparr>cq_begin := b\<rparr>"
  by (simp add: SetCriticalData_def)

lemma ring_upd [simp]: "ring (q\<lparr>cq_end := e\<rparr>) b n = ring q b n" "ring (q\<lparr>cq_begin := c\<rparr>) b n = ring q b n"
  by (simp_all add: ring_def)

lemma length_frame [simp]: "length (cq_frame d) = length d + 4"
  by (simp add: cq_frame_def)

lemma cq_rep_length:
  assumes "cq_rep q ms"
  shows "CQLength q (cq_begin q) (cq_end q) = length (concat (map cq_frame ms))"
  using assms CQLength_mod [of "cq_begin q" q "length (concat (map cq_frame ms))"]
  by (simp add: cq_rep_def cq_ok_def)

text \<open>Writing a frame as the code does it, header first.\<close>

lemma write_frame:
  assumes "cq_rep q ms" and "length (concat (map cq_frame ms)) + length d + 4 < cq_size q"
    and "CQWrite q (cq_end q) (le_bytes 4 (length d)) = (q1, e1)" and "CQWrite q1 e1 d = (q2, e2)"
  shows "cq_rep (q2\<lparr>cq_end := e2\<rparr>) (ms @ [d])" and "e2 < cq_size q2" and "cq_size q2 = cq_size q"
proof -
  let ?n = "length (concat (map cq_frame ms))"
  have q: "length (cq_mem q) = cq_size q" "cq_begin q < cq_size q" "cq_end q = (cq_begin q + ?n) mod cq_size q"
    "ring q (cq_begin q) ?n = concat (map cq_frame ms)" "4 \<le> cq_size q" "cq_size q < 2 ^ 32"
    using assms(1) by (simp_all add: cq_rep_def cq_ok_def)
  have w1: "ring q1 (cq_begin q) (?n + 4) = concat (map cq_frame ms) @ le_bytes 4 (length d)"
    "e1 = (cq_begin q + (?n + 4)) mod cq_size q"
    using ring_write [OF q(1,2), of ?n "le_bytes 4 (length d)" q1 e1] assms(2,3) q(3,4) by simp_all
  have f1: "length (cq_mem q1) = cq_size q1" "cq_size q1 = cq_size q" "cq_begin q1 = cq_begin q"
    using CQWrite_nth(2,3,5) [OF q(1) _ _ assms(3)] q(2,3,5) by simp_all
  have w2: "ring q2 (cq_begin q) (?n + 4 + length d) = concat (map cq_frame ms) @ le_bytes 4 (length d) @ d"
    "e2 = (cq_begin q + (?n + 4 + length d)) mod cq_size q"
    using ring_write [OF f1(1), of "cq_begin q" "?n + 4" d q2 e2] assms(2,4) f1(2) q(2) w1 by simp_all
  have f2: "length (cq_mem q2) = cq_size q2" "cq_size q2 = cq_size q" "cq_begin q2 = cq_begin q"
    using CQWrite_nth(2,3,5) [OF f1(1) _ _ assms(4)] f1 q(2) assms(2) w1(2) by simp_all
  show "cq_size q2 = cq_size q" by (fact f2(2))
  show e2: "e2 < cq_size q2" using w2(2) f2(2) q(2) by simp
  have len: "length (concat (map cq_frame (ms @ [d]))) = ?n + 4 + length d" by simp
  show "cq_rep (q2\<lparr>cq_end := e2\<rparr>) (ms @ [d])"
    unfolding cq_rep_def len
    using w2 f2 q assms(2) e2 by (simp add: cq_ok_def cq_frame_def)
qed

lemma CQWrite_Nil:
  "length (cq_mem q) = cq_size q \<Longrightarrow> e < cq_size q \<Longrightarrow> CQWrite q e [] = (q, e)"
  by (simp add: CQWrite_def Let_def store_at_def)

lemma agCQ_push_ok:
  assumes "cq_rep q ms" and "length (concat (map cq_frame ms)) + length d + 4 \<le> CQSize q"
  shows "\<exists>q'. agCQ_push q d = (length d, q') \<and> cq_rep q' (ms @ [d]) \<and> cq_size q' = cq_size q"
proof -
  have q: "length (cq_mem q) = cq_size q" "cq_begin q < cq_size q" "cq_end q < cq_size q" "4 \<le> cq_size q" "cq_size q < 2 ^ 32"
    using assms(1) by (simp_all add: cq_rep_def cq_ok_def)
  have room: "length (concat (map cq_frame ms)) + length d + 4 < cq_size q"
    using assms(2) q(4) by (simp add: CQSize_def AG_CODEQUEEU_RESERVE_def)
  have sz: "CQSize q < 2 ^ 32" using q(5) unfolding CQSize_def by auto
  obtain q1 e1 where w1: "CQWrite q (cq_end q) (le_bytes 4 (length d)) = (q1, e1)" by fastforce
  obtain q2 e2 where w2: "CQWrite q1 e1 d = (q2, e2)" by fastforce
  note w = write_frame [OF assms(1) room w1 w2]
  have f1: "length (cq_mem q1) = cq_size q1" "e1 < cq_size q1"
    using CQWrite_nth(1,2,5) [OF q(1) q(3) _ w1] q(2,4) by simp_all
  have "(if 0 < length d then CQWrite q1 e1 d else (q1, e1)) = (q2, e2)"
    using w2 CQWrite_Nil [OF f1] by (cases d) simp_all
  then have "agCQ_push q d = (length d, q2\<lparr>cq_end := e2\<rparr>)"
    using w1 assms(2) sz cq_rep_length [OF assms(1)] room q(5) SetCriticalData_end [OF w(2)]
    by (simp add: agCQ_push_def Let_def)
  then show ?thesis using w(1,3) by (intro exI [of _ "q2\<lparr>cq_end := e2\<rparr>"]) simp
qed

lemma agCQ_pop_ok:
  assumes "cq_rep q (d # ms)" and "len \<noteq> 0"
  shows "agCQ_pop q len =
    (if length d > len then (length d, None, q)
     else (length d, Some d, q\<lparr>cq_begin := (cq_begin q + (length d + 4)) mod cq_size q\<rparr>))"
    and "cq_rep (q\<lparr>cq_begin := (cq_begin q + (length d + 4)) mod cq_size q\<rparr>) ms"
proof -
  let ?n = "length (concat (map cq_frame ms))"
  let ?b = "cq_begin q"
  have len: "length (concat (map cq_frame (d # ms))) = 4 + (length d + ?n)" by simp
  have q: "length (cq_mem q) = cq_size q" "?b < cq_size q" "4 + (length d + ?n) < cq_size q" "cq_size q < 2 ^ 32"
    "cq_end q = (?b + (4 + (length d + ?n))) mod cq_size q" "4 \<le> cq_size q"
    "ring q ?b (4 + (length d + ?n)) = le_bytes 4 (length d) @ d @ concat (map cq_frame ms)"
    using assms(1) unfolding cq_rep_def len by (simp_all add: cq_ok_def cq_frame_def)
  define b1 where "b1 = (?b + 4) mod cq_size q"
  define b2 where "b2 = (?b + (length d + 4)) mod cq_size q"
  have b2: "b2 = (b1 + length d) mod cq_size q"
    unfolding b1_def b2_def by (metis add.assoc add.commute mod_add_left_eq)
  have r: "ring q ?b 4 = le_bytes 4 (length d)" "ring q b1 (length d) = d" "ring q b2 ?n = concat (map cq_frame ms)"
    using q(7) unfolding ring_append b1_def [symmetric] b2 [symmetric] by simp_all
  have lt: "b1 < cq_size q" "b2 < cq_size q" using q(2) by (simp_all add: b1_def b2_def)
  have L: "CQLength q ?b (cq_end q) = 4 + (length d + ?n)" using cq_rep_length [OF assms(1)] len by simp
  then have ne: "?b \<noteq> cq_end q" by (auto simp: CQLength_def)
  have h: "CQRead q ?b 4 = (le_bytes 4 (length d), b1)"
    using CQRead_ring [OF q(1,2,6)] r(1) by (simp add: b1_def)
  have d: "CQRead q b1 (length d) = (d, b2)"
    using CQRead_ring [OF q(1) lt(1), of "length d"] r(2) q(3) b2 by simp
  have "le_nat (le_bytes 4 (length d)) = length d" using q(3,4) by (intro le_nat_bytes) simp
  then show "agCQ_pop q len = (if length d > len then (length d, None, q)
     else (length d, Some d, q\<lparr>cq_begin := (?b + (length d + 4)) mod cq_size q\<rparr>))"
    using ne L h d assms(2) SetCriticalData_begin [OF lt(1)] SetCriticalData_begin [OF lt(2)] b2
    by (cases "d = []") (simp_all add: agCQ_pop_def Let_def b1_def b2_def)
  have "?b + (4 + (length d + ?n)) = ?b + (length d + 4) + ?n" by simp
  then have "(?b + (4 + (length d + ?n))) mod cq_size q = (b2 + ?n) mod cq_size q"
    unfolding b2_def by (simp only: mod_add_left_eq)
  then show "cq_rep (q\<lparr>cq_begin := (?b + (length d + 4)) mod cq_size q\<rparr>) ms"
    using assms(1) q lt r(3) unfolding cq_rep_def b2_def [symmetric] by (simp add: cq_ok_def)
qed


section \<open>Properties\<close>

text \<open>The ring is a queue of messages. \<open>agCQ_push\<close> appends the message when it fits below
  the reserve and otherwise returns 0 and changes nothing, wherever the positions wrap.\<close>

theorem agCQ_push_queue:
  assumes "cq_rep q ms"
  shows "if length (concat (map cq_frame ms)) + length d + 4 \<le> CQSize q
     then \<exists>q'. agCQ_push q d = (length d, q') \<and> cq_rep q' (ms @ [d]) \<and> cq_size q' = cq_size q
     else length d < 2 ^ 63 \<longrightarrow> agCQ_push q d = (0, q)"
proof (cases "length (concat (map cq_frame ms)) + length d + 4 \<le> CQSize q")
  case True
  with agCQ_push_ok [OF assms True] show ?thesis by simp
next
  case False
  moreover have "length (concat (map cq_frame ms)) < 2 ^ 32" using assms by (simp add: cq_rep_def cq_ok_def)
  ultimately show ?thesis
    using cq_rep_length [OF assms] by (auto simp: agCQ_push_def Let_def)
qed

text \<open>\<open>agCQ_pop\<close> takes the oldest message: into a large enough buffer it copies the message
  and removes it; into one that is too small it copies nothing, returns the length that is
  needed and keeps the queue; on an empty queue it returns 0.\<close>

theorem agCQ_pop_queue:
  assumes "cq_rep q ms" and "len \<noteq> 0"
  shows "case ms of
     [] \<Rightarrow> agCQ_pop q len = (0, None, q)
   | d # ds \<Rightarrow>
       if length d > len then agCQ_pop q len = (length d, None, q)
       else \<exists>q'. agCQ_pop q len = (length d, Some d, q') \<and> cq_rep q' ds"
proof (cases ms)
  case Nil
  then have "cq_end q = cq_begin q" using assms(1) by (simp add: cq_rep_def cq_ok_def)
  with Nil show ?thesis by (simp add: agCQ_pop_def)
next
  case (Cons d ds)
  with agCQ_pop_ok [of q d ds len] assms show ?thesis by auto
qed

definition cq_example :: codequeue where
  "cq_example = \<lparr>cq_begin = 10, cq_end = 10, cq_size = 16, cq_mem = replicate 16 0\<rparr>"

lemma cq_example_rep: "cq_rep cq_example []"
  by (simp add: cq_rep_def cq_ok_def cq_example_def ring_def)

theorem agCQ_push_queue_witness:
  "\<exists>q'. agCQ_push cq_example [1, 2, 3] = (3, q') \<and> cq_rep q' ([] @ [[1, 2, 3]])"
proof -
  have "CQSize cq_example = 12" by (simp add: CQSize_def AG_CODEQUEEU_RESERVE_def cq_example_def)
  with agCQ_push_queue [OF cq_example_rep, of "[1, 2, 3]"] show ?thesis by (auto simp: numeral_3_eq_3)
qed

theorem agCQ_pop_queue_witness: "agCQ_pop cq_example 9 = (0, None, cq_example)"
  using agCQ_pop_queue [OF cq_example_rep, of 9] by simp

text \<open>\<open>agCQ_pushv\<close> stores the length of the message at offset 0 of the ring and not where the
  message starts: away from offset 0 the four bytes in front of the message, which
  \<open>agCQ_pop\<close> reads as its length, are whatever was there before.\<close>

theorem agCQ_pushv_misplaces_length:
  assumes "cq_ok q" and "cq_begin q = cq_end q" and "4 \<le> cq_end q"
    and "cq_end q + 4 + length d < cq_size q" and "4 + length d \<le> CQSize q"
  shows "\<exists>q'. agCQ_pushv q [d] = (length d, q') \<and>
     take 4 (cq_mem q') = le_bytes 4 (length d) \<and>
     fst (CQRead q' (cq_end q) 4) = fst (CQRead q (cq_end q) 4) \<and>
     cq_begin q' = cq_end q \<and> cq_end q' = cq_end q + 4 + length d"
proof -
  let ?e = "cq_end q"
  have q: "length (cq_mem q) = cq_size q" "cq_size q < 2 ^ 32" using assms(1) by (simp_all add: cq_ok_def)
  let ?m1 = "store_at (cq_mem q) (?e + 4) d"
  let ?m2 = "store_at ?m1 0 (le_bytes 4 (length d))"
  have sz: "CQSize q < 2 ^ 32" using q(2) unfolding CQSize_def by auto
  have w1: "CQWrite q (?e + 4) d = (q\<lparr>cq_mem := ?m1\<rparr>, ?e + 4 + length d)"
    using assms(4) by (simp add: CQWrite_def Let_def)
  have w2: "CQWrite (q\<lparr>cq_mem := ?m1\<rparr>) 0 (le_bytes 4 (length d)) = (q\<lparr>cq_mem := ?m2\<rparr>, 4)"
    using assms(3,4) by (simp add: CQWrite_def Let_def)
  have "CQLength q ?e (?e + 4) = 4" by (simp add: CQLength_def)
  then have "agCQ_pushv q [d] = (length d, q\<lparr>cq_mem := ?m2, cq_end := ?e + 4 + length d\<rparr>)"
    using assms w1 w2 sz q(2) by (simp add: agCQ_pushv_def Let_def SetCriticalData_def)
  moreover have "length ?m1 = cq_size q" using q(1) assms(4) by simp
  moreover have "take 4 ?m2 = le_bytes 4 (length d)" by (simp add: store_at_def)
  moreover have "take 4 (drop ?e ?m2) = take 4 (drop ?e (cq_mem q))"
  proof -
    have "drop ?e ?m2 = drop ?e ?m1" using assms(3) by (intro drop_store_at_front) simp
    moreover have "take 4 (drop ?e ?m1) = take 4 (drop ?e (cq_mem q))"
      using q(1) assms(4) by (simp only: take_drop) simp
    ultimately show ?thesis by simp
  qed
  ultimately show ?thesis using assms(2,4) by (auto simp: CQRead_def)
qed

theorem agCQ_pushv_misplaces_length_witness:
  "\<exists>q'. agCQ_pushv \<lparr>cq_begin = 8, cq_end = 8, cq_size = 32, cq_mem = replicate 32 7\<rparr> [[1, 2]] = (length [1, 2 :: byte], q') \<and>
     take 4 (cq_mem q') = le_bytes 4 (length [1, 2 :: byte]) \<and>
     fst (CQRead q' (cq_end \<lparr>cq_begin = 8, cq_end = 8, cq_size = 32, cq_mem = replicate 32 7\<rparr>) 4) =
       fst (CQRead \<lparr>cq_begin = 8, cq_end = 8, cq_size = 32, cq_mem = replicate 32 7\<rparr>
         (cq_end \<lparr>cq_begin = 8, cq_end = 8, cq_size = 32, cq_mem = replicate 32 7\<rparr>) 4) \<and>
     cq_begin q' = cq_end \<lparr>cq_begin = 8, cq_end = 8, cq_size = 32, cq_mem = replicate 32 7\<rparr> \<and>
     cq_end q' = cq_end \<lparr>cq_begin = 8, cq_end = 8, cq_size = 32, cq_mem = replicate 32 7\<rparr> + 4 + length [1, 2 :: byte]"
  by (rule agCQ_pushv_misplaces_length)
     (simp_all add: cq_ok_def CQSize_def AG_CODEQUEEU_RESERVE_def)

end
