(* ===== verification/Matrix.thy ===== *)
theory Matrix
  imports CPrelude
begin

text \<open>
  The table reader of \<^verbatim>\<open>src/framework/matrix.c\<close>, which loads configuration tables: rows and
  fields are kept in arrays that double in size, and the file is read through a buffer of
  4096 bytes in which an unfinished field is moved to the front before the next read.

  A file is the list of its bytes. \<open>fread\<close> returns as many bytes as asked for unless the
  file ends, and sets the end-of-file mark only when it returns fewer (the C standard); a
  read error is not modelled. The loop runs on fuel, because it may not end: the
  theorems say exactly when it does.
\<close>

section \<open>Rows and fields\<close>

record MatrixField =
  mf_value :: "byte list"

record MatrixRow =
  mr_count :: nat
  mr_alloced :: nat
  mr_field :: "MatrixField option list"

record Matrix =
  mx_count :: nat
  mx_alloced :: nat
  mx_row :: "MatrixRow option list"

definition MatrixFieldNew :: "byte list \<Rightarrow> nat \<Rightarrow> MatrixField" where
  "MatrixFieldNew msg len = \<lparr>mf_value = take len msg @ [0]\<rparr>"

definition MatrixRowResize :: "MatrixRow \<Rightarrow> MatrixRow" where
  "MatrixRowResize row =
     (if mr_count row < mr_alloced row then row
      else
        let new_alloc = (if mr_alloced row = 0 then 32 else mr_alloced row * 2)
        in row\<lparr>mr_field := take (mr_count row) (mr_field row) @ replicate (new_alloc - mr_count row) None,
               mr_alloced := new_alloc\<rparr>)"

definition MatrixRowNew :: MatrixRow where
  "MatrixRowNew = \<lparr>mr_count = 0, mr_alloced = 0, mr_field = []\<rparr>"

definition MatrixRowPush :: "MatrixRow \<Rightarrow> MatrixField \<Rightarrow> MatrixRow res" where
  "MatrixRowPush row0 field =
     (let row = MatrixRowResize row0
      in if \<not> mr_count row < mr_alloced row then Inl Assertion
         else Inr (row\<lparr>mr_field := (mr_field row)[mr_count row := Some field],
                       mr_count := mr_count row + 1\<rparr>))"

definition MatrixResize :: "Matrix \<Rightarrow> Matrix" where
  "MatrixResize matrix =
     (if mx_count matrix < mx_alloced matrix then matrix
      else
        let new_alloc = (if mx_alloced matrix = 0 then 32 else mx_alloced matrix * 2)
        in matrix\<lparr>mx_row := take (mx_count matrix) (mx_row matrix) @ replicate (new_alloc - mx_count matrix) None,
                  mx_alloced := new_alloc\<rparr>)"

definition MatrixNew :: Matrix where
  "MatrixNew = \<lparr>mx_count = 0, mx_alloced = 0, mx_row = []\<rparr>"

definition MatrixPush :: "Matrix \<Rightarrow> MatrixRow \<Rightarrow> Matrix res" where
  "MatrixPush matrix0 row =
     (let matrix = MatrixResize matrix0
      in if \<not> mx_count matrix < mx_alloced matrix then Inl Assertion
         else Inr (matrix\<lparr>mx_row := (mx_row matrix)[mx_count matrix := Some row],
                          mx_count := mx_count matrix + 1\<rparr>))"

definition MatrixSize :: "Matrix \<Rightarrow> nat" where
  "MatrixSize matrix = mx_count matrix"

definition MatrixGet :: "Matrix \<Rightarrow> nat \<Rightarrow> MatrixRow option" where
  "MatrixGet matrix row = (if row \<ge> mx_count matrix then None else mx_row matrix ! row)"

definition MatrixRowSize :: "MatrixRow \<Rightarrow> nat" where
  "MatrixRowSize row = mr_count row"

definition MatrixRowGet :: "MatrixRow \<Rightarrow> nat \<Rightarrow> MatrixField option" where
  "MatrixRowGet row field = (if field \<ge> mr_count row then None else mr_field row ! field)"

definition MatrixFieldValue :: "MatrixField \<Rightarrow> byte list" where
  "MatrixFieldValue field = mf_value field"

section \<open>Loading a file\<close>

text \<open>The scan of the buffer: \<open>i\<close> is the loop counter, \<open>ptr\<close> the start of the current field and
  \<open>n\<close> its length so far (the variable \<open>strlen\<close>).\<close>

function scan_buffer ::
  "byte \<Rightarrow> byte \<Rightarrow> byte list \<Rightarrow> nat \<Rightarrow> nat \<Rightarrow> nat \<Rightarrow> MatrixRow \<Rightarrow> Matrix
    \<Rightarrow> (nat \<times> nat \<times> MatrixRow \<times> Matrix) res" where
  "scan_buffer sep_field sep_row buff i ptr n cur_row matrix =
     (if i \<ge> length buff then Inr (ptr, n, cur_row, matrix)
      else if buff ! i = sep_field \<or> buff ! i = sep_row then
        (case MatrixRowPush cur_row (MatrixFieldNew (drop ptr buff) n) of
           Inl f \<Rightarrow> Inl f
         | Inr cur_row \<Rightarrow>
             if buff ! i = sep_row \<and> mr_count cur_row > 0 then
               (case MatrixPush matrix cur_row of
                  Inl f \<Rightarrow> Inl f
                | Inr matrix \<Rightarrow>
                    scan_buffer sep_field sep_row buff (i + 1) (i + 1) 0 MatrixRowNew matrix)
             else scan_buffer sep_field sep_row buff (i + 1) (i + 1) 0 cur_row matrix)
      else scan_buffer sep_field sep_row buff (i + 1) ptr (n + 1) cur_row matrix)"
  by pat_completeness auto
termination
  by (relation "measure (\<lambda>(_, _, buff, i, _). length buff - i)") auto

declare scan_buffer.simps [simp del]

definition BUFF_SIZE :: nat where
  "BUFF_SIZE = 4096"

text \<open>The read loop: \<open>rest\<close> is what the file still holds, \<open>buff\<close> the first \<open>len\<close> bytes of the buffer.
  The result holds the buffer, \<open>ptr\<close>, \<open>strlen\<close>, the current row and the table at the end of the file.\<close>

fun read_loop ::
  "nat \<Rightarrow> byte \<Rightarrow> byte \<Rightarrow> byte list \<Rightarrow> bool \<Rightarrow> byte list \<Rightarrow> nat \<times> nat \<times> MatrixRow \<times> Matrix
    \<Rightarrow> (byte list \<times> nat \<times> nat \<times> MatrixRow \<times> Matrix) res option" where
  "read_loop 0 sf sr rest eof buff st = None"
| "read_loop (Suc fuel) sf sr rest eof buff (ptr, n, cur_row, matrix) =
     (if eof then Some (Inr (buff, ptr, n, cur_row, matrix))
      else
        let want = BUFF_SIZE - length buff;
            buff = buff @ take want rest;
            eof = length rest < want;
            rest = drop want rest
        in case scan_buffer sf sr buff 0 0 0 cur_row matrix of
             Inl f \<Rightarrow> Some (Inl f)
           | Inr (ptr, n, cur_row, matrix) \<Rightarrow>
               if ptr \<noteq> length buff
               then read_loop fuel sf sr rest eof (drop ptr buff) (0, n, cur_row, matrix)
               else read_loop fuel sf sr rest eof [] (ptr, n, cur_row, matrix))"

definition LoadMatrix :: "nat \<Rightarrow> byte list option \<Rightarrow> byte \<Rightarrow> byte \<Rightarrow> Matrix option res option" where
  "LoadMatrix fuel file sep_field sep_row =
     (case file of
        None \<Rightarrow> Some (Inr None)
      | Some bytes \<Rightarrow>
          (case read_loop fuel sep_field sep_row bytes False [] (0, 0, MatrixRowNew, MatrixNew) of
             None \<Rightarrow> None
           | Some (Inl f) \<Rightarrow> Some (Inl f)
           | Some (Inr (buff, ptr, n, cur_row, matrix)) \<Rightarrow>
               (case (if n > 0 then MatrixRowPush cur_row (MatrixFieldNew (drop ptr buff) n) else Inr cur_row) of
                  Inl f \<Rightarrow> Some (Inl f)
                | Inr cur_row \<Rightarrow>
                    if mr_count cur_row > 0
                    then (case MatrixPush matrix cur_row of
                            Inl f \<Rightarrow> Some (Inl f)
                          | Inr matrix \<Rightarrow> Some (Inr (Some matrix)))
                    else Some (Inr (Some matrix)))))"

section \<open>What a table holds\<close>

text \<open>The text of a field is its block without the closing zero byte; the abstract value of a row
  is the list of its texts and that of a table the list of its rows, read with the accessors.\<close>

definition field_text :: "MatrixField \<Rightarrow> byte list" where
  "field_text f = butlast (MatrixFieldValue f)"

definition row_fields :: "MatrixRow \<Rightarrow> byte list list" where
  "row_fields row = map (\<lambda>i. field_text (the (MatrixRowGet row i))) [0..<MatrixRowSize row]"

definition matrix_rows :: "Matrix \<Rightarrow> byte list list list" where
  "matrix_rows m = map (\<lambda>i. row_fields (the (MatrixGet m i))) [0..<MatrixSize m]"

definition row_ok :: "MatrixRow \<Rightarrow> bool" where
  "row_ok row \<longleftrightarrow> mr_count row \<le> mr_alloced row \<and> length (mr_field row) = mr_alloced row
     \<and> (\<forall>i < mr_count row. mr_field row ! i \<noteq> None)"

definition matrix_ok :: "Matrix \<Rightarrow> bool" where
  "matrix_ok m \<longleftrightarrow> mx_count m \<le> mx_alloced m \<and> length (mx_row m) = mx_alloced m
     \<and> (\<forall>i < mx_count m. mx_row m ! i \<noteq> None)"

text \<open>The specification: cutting a byte list into rows and fields in one pass. A file that does
  not end with the row separator still gives its last field and its last row.\<close>

fun cut_table :: "byte \<Rightarrow> byte \<Rightarrow> byte list \<Rightarrow> byte list list \<Rightarrow> byte list \<Rightarrow> byte list list list" where
  "cut_table sf sr fld row [] =
     (let row = (if fld \<noteq> [] then row @ [fld] else row) in if row \<noteq> [] then [row] else [])"
| "cut_table sf sr fld row (c # cs) =
     (if c = sr then (row @ [fld]) # cut_table sf sr [] [] cs
      else if c = sf then cut_table sf sr [] (row @ [fld]) cs
      else cut_table sf sr (fld @ [c]) row cs)"

text \<open>The length of the longest field, the first one counted from \<open>n\<close> bytes on.\<close>

fun longest_field :: "byte \<Rightarrow> byte \<Rightarrow> nat \<Rightarrow> byte list \<Rightarrow> nat" where
  "longest_field sf sr n [] = n"
| "longest_field sf sr n (c # cs) =
     (if c = sf \<or> c = sr then max n (longest_field sf sr 0 cs) else longest_field sf sr (n + 1) cs)"

section \<open>Pushing\<close>

lemma row_fields_push:
  assumes "row_ok row"
  shows "\<exists>row'. MatrixRowPush row f = Inr row' \<and> row_ok row' \<and> mr_count row' = mr_count row + 1
    \<and> row_fields row' = row_fields row @ [field_text f]"
proof -
  let ?r = "MatrixRowResize row"
  have r: "mr_count ?r = mr_count row" "mr_count row < mr_alloced ?r" "length (mr_field ?r) = mr_alloced ?r"
    "\<And>i. i < mr_count row \<Longrightarrow> mr_field ?r ! i = mr_field row ! i"
    using assms by (auto simp: MatrixRowResize_def row_ok_def Let_def nth_append)
  let ?r' = "?r\<lparr>mr_field := (mr_field ?r)[mr_count ?r := Some f], mr_count := mr_count ?r + 1\<rparr>"
  have "row_ok ?r'"
    using assms r by (auto simp: row_ok_def nth_list_update less_Suc_eq)
  moreover have "row_fields ?r' = row_fields row @ [field_text f]"
    using r by (simp add: row_fields_def MatrixRowSize_def MatrixRowGet_def)
  ultimately show ?thesis
    using r by (simp add: MatrixRowPush_def Let_def)
qed

lemma matrix_rows_push:
  assumes "matrix_ok m"
  shows "\<exists>m'. MatrixPush m row = Inr m' \<and> matrix_ok m' \<and> matrix_rows m' = matrix_rows m @ [row_fields row]"
proof -
  let ?r = "MatrixResize m"
  have r: "mx_count ?r = mx_count m" "mx_count m < mx_alloced ?r" "length (mx_row ?r) = mx_alloced ?r"
    "\<And>i. i < mx_count m \<Longrightarrow> mx_row ?r ! i = mx_row m ! i"
    using assms by (auto simp: MatrixResize_def matrix_ok_def Let_def nth_append)
  let ?r' = "?r\<lparr>mx_row := (mx_row ?r)[mx_count ?r := Some row], mx_count := mx_count ?r + 1\<rparr>"
  have "matrix_ok ?r'"
    using assms r by (auto simp: matrix_ok_def nth_list_update less_Suc_eq)
  moreover have "matrix_rows ?r' = matrix_rows m @ [row_fields row]"
    using r by (simp add: matrix_rows_def MatrixSize_def MatrixGet_def)
  ultimately show ?thesis
    using r by (simp add: MatrixPush_def Let_def)
qed

lemma row_new [simp]: "row_ok MatrixRowNew" "row_fields MatrixRowNew = []"
  by (simp_all add: row_ok_def MatrixRowNew_def row_fields_def MatrixRowSize_def)

lemma matrix_new [simp]: "matrix_ok MatrixNew" "matrix_rows MatrixNew = []"
  by (simp_all add: matrix_ok_def MatrixNew_def matrix_rows_def MatrixSize_def)

lemma field_text_new [simp]: "field_text (MatrixFieldNew msg n) = take n msg"
  by (simp add: field_text_def MatrixFieldNew_def MatrixFieldValue_def)

lemma row_fields_Nil_iff [simp]: "row_fields row = [] \<longleftrightarrow> mr_count row = 0"
  by (simp add: row_fields_def MatrixRowSize_def)

section \<open>The scan\<close>

text \<open>What a scan leaves: the unfinished field is the end of the buffer and holds no separator,
  and the table together with what is still to be cut stays the same.\<close>

definition scan_post ::
  "byte \<Rightarrow> byte \<Rightarrow> byte list \<Rightarrow> byte list \<Rightarrow> nat \<Rightarrow> MatrixRow \<Rightarrow> Matrix \<Rightarrow> nat \<times> nat \<times> MatrixRow \<times> Matrix \<Rightarrow> bool" where
  "scan_post sf sr buff fld i row m r \<longleftrightarrow>
     (case r of (ptr, n, row', m') \<Rightarrow>
        ptr + n = length buff \<and> row_ok row' \<and> matrix_ok m'
      \<and> sf \<notin> set (drop ptr buff) \<and> sr \<notin> set (drop ptr buff)
      \<and> (\<forall>tail. matrix_rows m @ cut_table sf sr fld (row_fields row) (drop i buff @ tail)
               = matrix_rows m' @ cut_table sf sr (drop ptr buff) (row_fields row') tail)
      \<and> (\<forall>tail. longest_field sf sr (length fld) (drop i buff @ tail) < BUFF_SIZE \<longrightarrow>
               longest_field sf sr n tail < BUFF_SIZE)
      \<and> (\<forall>tail. length buff \<le> BUFF_SIZE \<longrightarrow> BUFF_SIZE \<le> longest_field sf sr (length fld) (drop i buff @ tail) \<longrightarrow>
               BUFF_SIZE \<le> longest_field sf sr n tail))"

lemma scan_post_step:
  assumes "i < length buff" and "scan_post sf sr buff fld' (Suc i) row' m' r"
    and "\<And>tail. matrix_rows m @ cut_table sf sr fld (row_fields row) (buff ! i # tail)
            = matrix_rows m' @ cut_table sf sr fld' (row_fields row') tail"
    and "\<And>tail. longest_field sf sr (length fld) (buff ! i # tail)
            = (if buff ! i = sf \<or> buff ! i = sr then max (length fld) (longest_field sf sr (length fld') tail)
               else longest_field sf sr (length fld') tail)"
    and "length fld \<le> i"
  shows "scan_post sf sr buff fld i row m r"
proof -
  have d: "drop i buff = buff ! i # drop (Suc i) buff"
    using assms(1) by (simp add: Cons_nth_drop_Suc)
  obtain p n row2 m2 where r: "r = (p, n, row2, m2)"
    by (cases r) auto
  have "length fld < BUFF_SIZE" if "length buff \<le> BUFF_SIZE"
    using assms(1,5) that by linarith
  with assms(2) show ?thesis
    unfolding scan_post_def r d append_Cons assms(3,4) by (auto split: if_splits)
qed

lemma scan_buffer_ok:
  assumes "row_ok row" and "matrix_ok m" and "ptr + n = i" and "i \<le> length buff"
    and "sf \<notin> set (take n (drop ptr buff))" and "sr \<notin> set (take n (drop ptr buff))"
  shows "\<exists>r. scan_buffer sf sr buff i ptr n row m = Inr r \<and> scan_post sf sr buff (take n (drop ptr buff)) i row m r"
  using assms
proof (induction sf sr buff i ptr n row m rule: scan_buffer.induct)
  case (1 sf sr buff i ptr n row m)
  let ?fld = "take n (drop ptr buff)"
  show ?case
  proof (cases "i < length buff")
    case False
    then have "i = length buff" and "?fld = drop ptr buff" and "length buff - ptr = n"
      using "1.prems" by simp_all
    then show ?thesis
      using "1.prems" by (simp add: scan_buffer.simps scan_post_def)
  next
    case i: True
    have len: "length ?fld = n" "n \<le> i"
      using "1.prems" i by auto
    show ?thesis
    proof (cases "buff ! i = sf \<or> buff ! i = sr")
      case False
      have fld: "take (n + 1) (drop ptr buff) = ?fld @ [buff ! i]"
        using "1.prems" i by (simp add: take_Suc_conv_app_nth)
      obtain r where r: "scan_buffer sf sr buff (i + 1) ptr (n + 1) row m = Inr r"
        "scan_post sf sr buff (?fld @ [buff ! i]) (i + 1) row m r"
        using "1.IH"(3)[OF _ False] "1.prems" i False unfolding fld by fastforce
      have "scan_post sf sr buff ?fld i row m r"
        using scan_post_step[OF i, of sf sr "?fld @ [buff ! i]" row m r m ?fld row] r(2) False len by simp
      then show ?thesis
        using r(1) i False by (simp add: scan_buffer.simps[of _ _ _ i])
    next
      case sep: True
      obtain row' where push: "MatrixRowPush row (MatrixFieldNew (drop ptr buff) n) = Inr row'" "row_ok row'"
          "mr_count row' = mr_count row + 1" "row_fields row' = row_fields row @ [?fld]"
        using row_fields_push[OF "1.prems"(1)] by fastforce
      show ?thesis
      proof (cases "buff ! i = sr")
        case True
        obtain m' where m': "MatrixPush m row' = Inr m'" "matrix_ok m'" "matrix_rows m' = matrix_rows m @ [row_fields row']"
          using matrix_rows_push[OF "1.prems"(2)] by blast
        obtain r where r: "scan_buffer sf sr buff (i + 1) (i + 1) 0 MatrixRowNew m' = Inr r"
          "scan_post sf sr buff [] (i + 1) MatrixRowNew m' r"
          using "1.IH"(1)[OF _ sep push(1) _ m'(1)] push(3) m'(2) i True by fastforce
        have "scan_post sf sr buff ?fld i row m r"
          using scan_post_step[OF i, of sf sr "[]" MatrixRowNew m' r m ?fld row] r(2) True len m'(3) push(4) by simp
        then show ?thesis
          using r(1) i sep True push m'(1) by (simp add: scan_buffer.simps[of _ _ _ i])
      next
        case False
        obtain r where r: "scan_buffer sf sr buff (i + 1) (i + 1) 0 row' m = Inr r"
          "scan_post sf sr buff [] (i + 1) row' m r"
          using "1.IH"(2)[OF _ sep push(1)] push(2) "1.prems"(2) i False by fastforce
        have "scan_post sf sr buff ?fld i row m r"
          using scan_post_step[OF i, of sf sr "[]" row' m r m ?fld row] r(2) False sep len push(4) by simp
        then show ?thesis
          using r(1) i sep False push by (simp add: scan_buffer.simps[of _ _ _ i])
      qed
    qed
  qed
qed

section \<open>The read loop\<close>

lemma cut_table_plain:
  "sf \<notin> set xs \<Longrightarrow> sr \<notin> set xs \<Longrightarrow> cut_table sf sr fld row (xs @ tail) = cut_table sf sr (fld @ xs) row tail"
  by (induction xs arbitrary: fld) auto

lemma longest_field_plain:
  "sf \<notin> set xs \<Longrightarrow> sr \<notin> set xs \<Longrightarrow> longest_field sf sr n (xs @ tail) = longest_field sf sr (n + length xs) tail"
  by (induction xs arbitrary: n) auto

lemma longest_field_ge: "n \<le> longest_field sf sr n xs"
proof (induction xs arbitrary: n)
  case (Cons c xs)
  from Cons[of "n + 1"] show ?case by simp
qed simp

text \<open>One round of the loop, stated over the bytes that are not yet in the table: what is left of
  the buffer followed by what is left of the file.\<close>

lemma read_round:
  assumes "row_ok row" and "matrix_ok m" and "length buff \<le> BUFF_SIZE"
  defines "want \<equiv> BUFF_SIZE - length buff"
  obtains p n row' m' left where
    "scan_buffer sf sr (buff @ take want rest) 0 0 0 row m = Inr (p, n, row', m')"
    "left = drop p (buff @ take want rest)" "length left = n" "sf \<notin> set left" "sr \<notin> set left"
    "p \<le> length (buff @ take want rest)" "row_ok row'" "matrix_ok m'"
    "matrix_rows m @ cut_table sf sr [] (row_fields row) (buff @ rest)
       = matrix_rows m' @ cut_table sf sr [] (row_fields row') (left @ drop want rest)"
    "longest_field sf sr 0 (buff @ rest) < BUFF_SIZE \<Longrightarrow> longest_field sf sr 0 (left @ drop want rest) < BUFF_SIZE"
    "BUFF_SIZE \<le> longest_field sf sr 0 (buff @ rest) \<Longrightarrow> BUFF_SIZE \<le> longest_field sf sr 0 (left @ drop want rest)"
proof -
  let ?b = "buff @ take want rest"
  have b: "buff @ rest = ?b @ drop want rest" and bl: "length ?b \<le> BUFF_SIZE"
    using assms(3) by (simp_all add: want_def)
  obtain p n row' m' where s: "scan_buffer sf sr ?b 0 0 0 row m = Inr (p, n, row', m')"
    and post: "scan_post sf sr ?b [] 0 row m (p, n, row', m')"
    using scan_buffer_ok[OF assms(1,2), of 0 0 0 ?b sf sr] by auto
  have left: "length (drop p ?b) = n" "sf \<notin> set (drop p ?b)" "sr \<notin> set (drop p ?b)"
    using post unfolding scan_post_def by auto
  note plain = cut_table_plain[OF left(2,3), of "[]" "row_fields row'" "drop want rest"]
    longest_field_plain[OF left(2,3), of 0 "drop want rest"]
  show thesis
    by (rule that[OF s refl left]) (use post bl plain left(1) in \<open>auto simp: scan_post_def b simp del: append_assoc\<close>)
qed

lemma read_loop_ok:
  assumes "row_ok row" and "matrix_ok m" and "length buff \<le> BUFF_SIZE"
    and "longest_field sf sr 0 (buff @ rest) < BUFF_SIZE" and "length buff < BUFF_SIZE"
    and "fuel \<ge> length rest + 2"
  shows "\<exists>buff' p n row' m'. read_loop fuel sf sr rest False buff (p0, n0, row, m) = Some (Inr (buff', p, n, row', m'))
     \<and> row_ok row' \<and> matrix_ok m'
     \<and> matrix_rows m @ cut_table sf sr [] (row_fields row) (buff @ rest)
         = matrix_rows m' @ cut_table sf sr (take n (drop p buff')) (row_fields row') [] 
     \<and> (n > 0 \<longrightarrow> take n (drop p buff') \<noteq> [])"
  using assms
proof (induction fuel arbitrary: rest buff p0 n0 row m)
  case 0
  then show ?case by simp
next
  case (Suc fuel)
  let ?want = "BUFF_SIZE - length buff"
  obtain p n row' m' left where r:
    "scan_buffer sf sr (buff @ take ?want rest) 0 0 0 row m = Inr (p, n, row', m')"
    "left = drop p (buff @ take ?want rest)" "length left = n" "sf \<notin> set left" "sr \<notin> set left"
    "p \<le> length (buff @ take ?want rest)" "row_ok row'" "matrix_ok m'"
    "matrix_rows m @ cut_table sf sr [] (row_fields row) (buff @ rest)
       = matrix_rows m' @ cut_table sf sr [] (row_fields row') (left @ drop ?want rest)"
    "longest_field sf sr 0 (left @ drop ?want rest) < BUFF_SIZE"
    using read_round[OF Suc.prems(1,2,3)] Suc.prems(4) by metis
  define p' where "p' = (if p \<noteq> length (buff @ take ?want rest) then 0 else p)"
  have step: "read_loop (Suc fuel) sf sr rest False buff (p0, n0, row, m)
      = read_loop fuel sf sr (drop ?want rest) (length rest < ?want) left (p', n, row', m')"
    using r(1,2) by (auto simp: Let_def p'_def)
  have n: "n < BUFF_SIZE"
    using longest_field_ge[of n sf sr "drop ?want rest"] longest_field_plain[OF r(4,5), of 0] r(3,10) by simp
  show ?case
  proof (cases "length rest < ?want")
    case True
    have left0: "n = 0 \<and> left = []" if "p = length (buff @ take ?want rest)"
      using that r(2,3) by simp
    obtain f where f: "fuel = Suc f"
      using Suc.prems(6) by (cases fuel) auto
    have field: "take n (drop p' left) = left"
      using left0 r(3) by (cases "p = length (buff @ take ?want rest)") (simp_all add: p'_def)
    have "cut_table sf sr [] (row_fields row') left = cut_table sf sr left (row_fields row') []"
      using cut_table_plain[OF r(4,5), of "[]" "row_fields row'" "[]"] by simp
    moreover have "read_loop fuel sf sr (drop ?want rest) True left (p', n, row', m') = Some (Inr (left, p', n, row', m'))"
      by (simp add: f)
    ultimately show ?thesis
      unfolding step using True field r(3,7,8,9) by (simp del: read_loop.simps cut_table.simps) fastforce
  next
    case False
    have "drop ?want rest = [] \<or> length (drop ?want rest) < length rest"
      using Suc.prems(5) by (cases rest) auto
    then have "fuel \<ge> length (drop ?want rest) + 2"
      using Suc.prems(5,6) False by auto
    from Suc.IH[OF r(7,8) _ r(10) _ this, of p' n] n r(3,9) show ?thesis
      unfolding step using False by simp
  qed
qed

lemma LoadMatrix_ok:
  assumes "longest_field sf sr 0 bytes < BUFF_SIZE" and "fuel \<ge> length bytes + 2"
  shows "\<exists>m. LoadMatrix fuel (Some bytes) sf sr = Some (Inr (Some m)) \<and> matrix_ok m
    \<and> matrix_rows m = cut_table sf sr [] [] bytes"
proof -
  obtain buff p n row m where r:
    "read_loop fuel sf sr bytes False [] (0, 0, MatrixRowNew, MatrixNew) = Some (Inr (buff, p, n, row, m))"
    "row_ok row" "matrix_ok m" 
    "cut_table sf sr [] [] bytes = matrix_rows m @ cut_table sf sr (take n (drop p buff)) (row_fields row) []"
    "n > 0 \<longrightarrow> take n (drop p buff) \<noteq> []"
    using read_loop_ok[of MatrixRowNew MatrixNew "[]" sf sr bytes fuel 0 0] assms
    by (auto simp: BUFF_SIZE_def)
  let ?fld = "take n (drop p buff)"
  define last where "last = (if n > 0 then MatrixRowPush row (MatrixFieldNew (drop p buff) n) else Inr row)"
  obtain row' where row': "last = Inr row'" "row_fields row' = (if ?fld \<noteq> [] then row_fields row @ [?fld] else row_fields row)"
  proof (cases "n > 0")
    case True
    with row_fields_push[OF r(2), of "MatrixFieldNew (drop p buff) n"] r(5) that show ?thesis
      by (auto simp: last_def)
  qed (use that in \<open>simp add: last_def\<close>)
  have "cut_table sf sr [] [] bytes = matrix_rows m @ (if mr_count row' > 0 then [row_fields row'] else [])"
    unfolding r(4) using row'(2) row_fields_Nil_iff[of row'] by (auto simp: Let_def split: if_splits)
  then show ?thesis
    using matrix_rows_push[OF r(3), of row'] r(3)
    by (auto simp: LoadMatrix_def r(1) last_def[symmetric] row'(1))
qed

lemma read_loop_stuck:
  assumes "row_ok row" and "matrix_ok m" and "length buff \<le> BUFF_SIZE"
    and "BUFF_SIZE \<le> longest_field sf sr 0 (buff @ rest)"
  shows "read_loop fuel sf sr rest False buff (p0, n0, row, m) = None"
  using assms
proof (induction fuel arbitrary: rest buff p0 n0 row m)
  case (Suc fuel)
  let ?want = "BUFF_SIZE - length buff"
  obtain p n row' m' left where r:
    "scan_buffer sf sr (buff @ take ?want rest) 0 0 0 row m = Inr (p, n, row', m')"
    "left = drop p (buff @ take ?want rest)" "length left = n"
    "p \<le> length (buff @ take ?want rest)" "row_ok row'" "matrix_ok m'"
    "BUFF_SIZE \<le> longest_field sf sr 0 (left @ drop ?want rest)"
    using read_round[OF Suc.prems(1,2,3)] Suc.prems(4) by metis
  have lf: "longest_field sf sr 0 xs \<le> length xs" for xs
  proof -
    have "longest_field sf sr k xs \<le> k + length xs" for k
    proof (induction xs arbitrary: k)
      case (Cons c xs)
      from Cons[of 0] Cons[of "k + 1"] show ?case by auto
    qed simp
    from this[of 0] show ?thesis by simp
  qed
  have "\<not> length rest < ?want"
    using lf[of "buff @ rest"] Suc.prems(3,4) by simp
  moreover have "length left \<le> BUFF_SIZE"
    using Suc.prems(3) by (auto simp: r(2))
  ultimately show ?case
    using r(1) Suc.IH[OF r(5,6) _ r(7)] r(2) by (auto simp: Let_def)
qed simp

section \<open>Printing a table and loading it\<close>

fun print_row :: "byte \<Rightarrow> byte list list \<Rightarrow> byte list" where
  "print_row sf [] = []"
| "print_row sf [fld] = fld"
| "print_row sf (fld # flds) = fld @ sf # print_row sf flds"

definition print_table :: "byte \<Rightarrow> byte \<Rightarrow> byte list list list \<Rightarrow> byte list" where
  "print_table sf sr rows = concat (map (\<lambda>row. print_row sf row @ [sr]) rows)"

definition printable :: "byte \<Rightarrow> byte \<Rightarrow> byte list list \<Rightarrow> bool" where
  "printable sf sr row \<longleftrightarrow> row \<noteq> [] \<and> list_all (\<lambda>fld. sf \<notin> set fld \<and> sr \<notin> set fld \<and> length fld < BUFF_SIZE) row"

lemma cut_print_row:
  assumes "printable sf sr row" and "sf \<noteq> sr"
  shows "cut_table sf sr [] acc (print_row sf row @ sr # tail) = (acc @ row) # cut_table sf sr [] [] tail"
    and "longest_field sf sr 0 (print_row sf row @ sr # tail) < BUFF_SIZE \<longleftrightarrow> longest_field sf sr 0 tail < BUFF_SIZE"
  using assms
  by (induction sf row arbitrary: acc rule: print_row.induct)
     (simp_all add: printable_def cut_table_plain longest_field_plain)

lemma BUFF_SIZE_pos: "0 < BUFF_SIZE"
  by (simp add: BUFF_SIZE_def)

lemma cut_print_table:
  assumes "list_all (printable sf sr) rows" and "sf \<noteq> sr"
  shows "cut_table sf sr [] [] (print_table sf sr rows) = rows"
    and "longest_field sf sr 0 (print_table sf sr rows) < BUFF_SIZE"
  using assms BUFF_SIZE_pos by (induction rows) (simp_all add: print_table_def cut_print_row)

section \<open>Properties\<close>

text \<open>Loading a file whose fields are all shorter than the read buffer ends, trips no assertion and
  gives the table that cutting the whole file at the separators gives, whatever the
  positions at which the 4096-byte reads fall.\<close>

theorem LoadMatrix_cuts_file:
  assumes "longest_field sep_field sep_row 0 bytes < BUFF_SIZE" and "fuel \<ge> length bytes + 2"
  shows "\<exists>m. LoadMatrix fuel (Some bytes) sep_field sep_row = Some (Inr (Some m))
    \<and> matrix_rows m = cut_table sep_field sep_row [] [] bytes"
  using LoadMatrix_ok[OF assms] by blast

theorem LoadMatrix_cuts_file_witness:
  "\<exists>m. LoadMatrix 6 (Some [49, 44, 50, 10]) 44 10 = Some (Inr (Some m)) \<and> matrix_rows m = [[[49], [50]]]"
  using LoadMatrix_cuts_file[of 44 10 "[49, 44, 50, 10]" 6] by (simp add: BUFF_SIZE_def)

text \<open>A table written with one separator between fields and one after every row is loaded back as it
  was, provided no field holds a separator or reaches the buffer size and no row is empty.\<close>

theorem LoadMatrix_reads_back:
  assumes "list_all (printable sep_field sep_row) rows" and "sep_field \<noteq> sep_row"
  shows "\<exists>fuel m. LoadMatrix fuel (Some (print_table sep_field sep_row rows)) sep_field sep_row = Some (Inr (Some m))
    \<and> MatrixSize m = length rows
    \<and> (\<forall>i < length rows. \<exists>row. MatrixGet m i = Some row \<and> row_fields row = rows ! i)"
proof -
  let ?bytes = "print_table sep_field sep_row rows"
  obtain m where m: "LoadMatrix (length ?bytes + 2) (Some ?bytes) sep_field sep_row = Some (Inr (Some m))"
    "matrix_ok m" "matrix_rows m = rows"
    using LoadMatrix_ok[OF cut_print_table(2)[OF assms], of "length ?bytes + 2"] cut_print_table(1)[OF assms] by auto
  have len: "MatrixSize m = length rows"
    using arg_cong[OF m(3), of length] by (simp add: matrix_rows_def)
  have "\<exists>row. MatrixGet m i = Some row \<and> row_fields row = rows ! i" if i: "i < length rows" for i
  proof -
    have "row_fields (the (MatrixGet m i)) = rows ! i"
      using arg_cong[OF m(3), of "\<lambda>xs. xs ! i"] i len by (simp add: matrix_rows_def)
    moreover have "MatrixGet m i \<noteq> None"
      using m(2) i len by (simp add: MatrixGet_def matrix_ok_def MatrixSize_def)
    ultimately show ?thesis by auto
  qed
  with m(1) len show ?thesis by blast
qed

theorem LoadMatrix_reads_back_witness:
  "\<exists>fuel m. LoadMatrix fuel (Some (print_table 44 10 [[[49, 50], []], [[51]]])) 44 10 = Some (Inr (Some m))
    \<and> MatrixSize m = 2"
  using LoadMatrix_reads_back[of 44 10 "[[[49, 50], []], [[51]]]"] by (fastforce simp: printable_def BUFF_SIZE_def)

text \<open>A field of 4096 bytes or more fills the buffer, the next read asks for no bytes and never meets
  the end of the file: LoadMatrix does not return.\<close>

theorem LoadMatrix_long_field_never_ends:
  assumes "BUFF_SIZE \<le> longest_field sep_field sep_row 0 bytes"
  shows "LoadMatrix fuel (Some bytes) sep_field sep_row = None"
  using read_loop_stuck[of MatrixRowNew MatrixNew "[]" sep_field sep_row bytes fuel 0 0] assms
  by (simp add: LoadMatrix_def)

theorem LoadMatrix_long_field_never_ends_witness:
  "\<forall>fuel. LoadMatrix fuel (Some (replicate 4096 65)) 44 10 = None"
  using LoadMatrix_long_field_never_ends[of 44 10 "replicate 4096 65"]
    longest_field_plain[of 44 "replicate 4096 65" 10 0 "[]"]
  by (simp add: BUFF_SIZE_def)

end
