(* ===== verification/DList.thy ===== *)
theory DList
  imports CPrelude
begin

text \<open>
  The ring lists of \<^verbatim>\<open>src/framework/dlist.h\<close>: macros that keep objects of any type in a circular
  doubly linked list through their \<open>prev\<close> and \<open>next\<close> members. Timers and the per-player module
  data are kept in such lists.

  An address is a natural number, 0 the null pointer; \<open>dlinks\<close> holds the two members of the
  objects at all addresses. The macros assign the list head given to them, so each operation
  returns the new head with the new links. The predicate \<open>dring h l xs\<close> says that the list
  with head \<open>l\<close> holds the objects \<open>xs\<close> in order: the operations are proved to append to and
  to remove from that list.
\<close>

section \<open>Operations\<close>

type_synonym addr = nat

record dlinks =
  dl_prev :: "addr \<Rightarrow> addr"
  dl_next :: "addr \<Rightarrow> addr"

definition set_prev :: "addr \<Rightarrow> addr \<Rightarrow> dlinks \<Rightarrow> dlinks" where
  "set_prev n v h = h\<lparr>dl_prev := (dl_prev h)(n := v)\<rparr>"

definition set_next :: "addr \<Rightarrow> addr \<Rightarrow> dlinks \<Rightarrow> dlinks" where
  "set_next n v h = h\<lparr>dl_next := (dl_next h)(n := v)\<rparr>"

definition dlist_init :: "dlinks \<Rightarrow> addr \<Rightarrow> dlinks" where
  "dlist_init h n = set_prev n 0 (set_next n 0 h)"

definition dlist_insert_before :: "dlinks \<Rightarrow> addr \<Rightarrow> addr \<Rightarrow> dlinks res" where
  "dlist_insert_before h l n =
     (if n = 0 then Inl NullDeref
      else if \<not> (dl_next h n = 0 \<and> dl_prev h n = 0) then Inl Assertion
      else if l = 0 then Inl NullDeref
      else
        let h = set_next n l h;
            h = set_prev n (dl_prev h l) h
        in if dl_prev h l = 0 then Inl NullDeref
           else
             let h = set_next (dl_prev h l) n h;
                 h = set_prev l n h
             in Inr h)"

definition dlist_insert_after :: "dlinks \<Rightarrow> addr \<Rightarrow> addr \<Rightarrow> dlinks res" where
  "dlist_insert_after h l n =
     (if n = 0 then Inl NullDeref
      else if \<not> (dl_next h n = 0 \<and> dl_prev h n = 0) then Inl Assertion
      else if l = 0 then Inl NullDeref
      else
        let h = set_prev n l h;
            h = set_next n (dl_next h l) h
        in if dl_next h l = 0 then Inl NullDeref
           else
             let h = set_prev (dl_next h l) n h;
                 h = set_next l n h
             in Inr h)"

definition dlist_insert_head :: "dlinks \<Rightarrow> addr \<Rightarrow> addr \<Rightarrow> (addr \<times> dlinks) res" where
  "dlist_insert_head h l n =
     (if n = 0 then Inl NullDeref
      else if \<not> (dl_next h n = 0 \<and> dl_prev h n = 0) then Inl Assertion
      else if l = 0 then Inr (n, set_next n n (set_prev n n h))
      else (case dlist_insert_before h l n of Inl f \<Rightarrow> Inl f | Inr h \<Rightarrow> Inr (n, h)))"

definition dlist_insert_tail :: "dlinks \<Rightarrow> addr \<Rightarrow> addr \<Rightarrow> (addr \<times> dlinks) res" where
  "dlist_insert_tail h l n =
     (if n = 0 then Inl NullDeref
      else if \<not> (dl_next h n = 0 \<and> dl_prev h n = 0) then Inl Assertion
      else if l = 0 then Inr (n, set_next n n (set_prev n n h))
      else (case dlist_insert_before h l n of Inl f \<Rightarrow> Inl f | Inr h \<Rightarrow> Inr (l, h)))"

definition dlist_remove :: "dlinks \<Rightarrow> addr \<Rightarrow> addr \<Rightarrow> (addr \<times> dlinks) res" where
  "dlist_remove h l n =
     (if n = 0 then Inl NullDeref
      else if dl_next h n = n then Inr (0, dlist_init h n)
      else if dl_next h n = 0 \<or> dl_prev h n = 0 then Inr (l, dlist_init h n)
      else
        let h = set_prev (dl_next h n) (dl_prev h n) h;
            h = set_next (dl_prev h n) (dl_next h n) h;
            l = (if l = n then dl_next h n else l)
        in Inr (l, dlist_init h n))"

definition dlist_next :: "dlinks \<Rightarrow> addr \<Rightarrow> addr \<Rightarrow> addr" where
  "dlist_next h head cur =
     (if head = 0 \<or> cur = 0 then head else if dl_next h cur \<noteq> head then dl_next h cur else 0)"

definition dlist_prev :: "dlinks \<Rightarrow> addr \<Rightarrow> addr \<Rightarrow> addr" where
  "dlist_prev h head cur =
     (if head = 0 \<or> cur = head then 0 else if cur = 0 then dl_prev h head else dl_prev h cur)"

section \<open>Segments and rings\<close>

text \<open>\<open>dseg h p xs q\<close>: following \<open>next\<close> from \<open>p\<close> gives \<open>xs\<close> and then \<open>q\<close>, and \<open>prev\<close> leads back.\<close>

fun dseg :: "dlinks \<Rightarrow> addr \<Rightarrow> addr list \<Rightarrow> addr \<Rightarrow> bool" where
  "dseg h p [] q \<longleftrightarrow> dl_next h p = q \<and> dl_prev h q = p"
| "dseg h p (x # xs) q \<longleftrightarrow> dl_next h p = x \<and> dl_prev h x = p \<and> dseg h x xs q"

definition dring :: "dlinks \<Rightarrow> addr \<Rightarrow> addr list \<Rightarrow> bool" where
  "dring h l xs \<longleftrightarrow> 0 \<notin> set xs \<and> distinct xs
     \<and> (case xs of [] \<Rightarrow> l = 0 | x # xs' \<Rightarrow> l = x \<and> dseg h l xs' l)"

definition detached :: "dlinks \<Rightarrow> addr \<Rightarrow> bool" where
  "detached h n \<longleftrightarrow> dl_next h n = 0 \<and> dl_prev h n = 0"

lemma dlinks_sel [simp]:
  "dl_prev (set_prev n v h) = (dl_prev h)(n := v)" "dl_next (set_prev n v h) = dl_next h"
  "dl_prev (set_next n v h) = dl_prev h" "dl_next (set_next n v h) = (dl_next h)(n := v)"
  by (simp_all add: set_prev_def set_next_def)

lemma dlist_init_sel [simp]:
  "dl_prev (dlist_init h n) = (dl_prev h)(n := 0)" "dl_next (dlist_init h n) = (dl_next h)(n := 0)"
  by (simp_all add: dlist_init_def)

lemma dseg_append: "dseg h p (xs @ y # ys) q \<longleftrightarrow> dseg h p xs y \<and> dseg h y ys q"
  by (induction xs arbitrary: p) auto

lemma dseg_cong:
  "dl_next h' p = dl_next h p \<Longrightarrow> dl_prev h' q = dl_prev h q \<Longrightarrow>
   (\<And>x. x \<in> set xs \<Longrightarrow> dl_next h' x = dl_next h x \<and> dl_prev h' x = dl_prev h x) \<Longrightarrow>
   dseg h' p xs q = dseg h p xs q"
  by (induction xs arbitrary: p) auto

lemma dseg_last: "dseg h p xs q \<Longrightarrow> dl_prev h q = last (p # xs)"
  by (induction xs arbitrary: p) auto

lemma dseg_first: "dseg h p xs q \<Longrightarrow> dl_next h p = hd (xs @ [q])"
  by (cases xs) auto

lemma dring_cong:
  assumes "\<And>x. x \<in> set xs \<Longrightarrow> dl_next h' x = dl_next h x \<and> dl_prev h' x = dl_prev h x"
  shows "dring h' l xs = dring h l xs"
proof (cases xs)
  case (Cons x xs')
  then show ?thesis
    using assms dseg_cong[of h' x h x xs'] unfolding dring_def by auto
qed (simp add: dring_def)

lemma dring_Nil_iff: "dring h l xs \<Longrightarrow> l = 0 \<longleftrightarrow> xs = []"
  by (cases xs) (auto simp: dring_def)

lemma dring_hd: "dring h l (x # xs) \<Longrightarrow> l = x \<and> x \<noteq> 0"
  by (auto simp: dring_def)

lemma dring_links_nonnull:
  assumes "dring h l xs" and "n \<in> set xs"
  shows "dl_next h n \<noteq> 0 \<and> dl_prev h n \<noteq> 0"
proof -
  obtain xs' where xs: "xs = l # xs'" and seg: "dseg h l xs' l" and nz: "0 \<notin> set xs"
    using assms by (cases xs) (auto simp: dring_def)
  show ?thesis
  proof (cases "n = l")
    case True
    have "hd (xs' @ [l]) \<in> set xs" "last (l # xs') \<in> set xs"
      unfolding xs by (cases xs') auto
    with True show ?thesis
      using dseg_first[OF seg] dseg_last[OF seg] nz by metis
  next
    case False
    then obtain as bs where n: "xs' = as @ n # bs"
      using assms(2) xs by (auto simp: in_set_conv_decomp)
    then have seg2: "dseg h l as n" "dseg h n bs l"
      using seg by (simp_all add: dseg_append)
    have "hd (bs @ [l]) \<in> set xs" "last (l # as) \<in> set xs"
      unfolding xs n by (cases bs; auto)+
    then show ?thesis
      using dseg_first[OF seg2(2)] dseg_last[OF seg2(1)] nz by metis
  qed
qed

section \<open>Appending\<close>

lemma dseg_insert_end:
  assumes "dseg h p xs q" and "n \<notin> set (p # xs)" and "n \<noteq> q" and "p \<notin> set xs" and "q \<notin> set xs" and "distinct xs"
    and "dl_next h' = (dl_next h)(n := q, dl_prev h q := n)" and "dl_prev h' = (dl_prev h)(n := dl_prev h q, q := n)"
  shows "dseg h' p (xs @ [n]) q"
  using assms(1-6)
proof (induction xs arbitrary: p)
  case Nil
  then show ?case by (auto simp: assms(7,8))
next
  case (Cons x xs)
  then have "dl_prev h q \<in> set (x # xs)"
    using dseg_last[of h x xs q] by auto
  with Cons show ?case
    by (auto simp: assms(7,8))
qed

lemma dlist_insert_tail_ring:
  assumes "dring h l xs" and "detached h n" and "n \<noteq> 0" and "n \<notin> set xs"
  shows "\<exists>l' h'. dlist_insert_tail h l n = Inr (l', h') \<and> dring h' l' (xs @ [n])
    \<and> (\<forall>y. y \<notin> set xs \<longrightarrow> y \<noteq> n \<longrightarrow> dl_next h' y = dl_next h y \<and> dl_prev h' y = dl_prev h y)"
proof (cases xs)
  case Nil
  then show ?thesis
    using assms by (auto simp: dring_def detached_def dlist_insert_tail_def)
next
  case (Cons x xs')
  then have l: "l = x" "l \<noteq> 0" and seg: "dseg h l xs' l" and d: "distinct (l # xs')" "0 \<notin> set xs"
    using assms(1) by (auto simp: dring_def)
  have p: "dl_prev h l \<noteq> 0" "dl_prev h l \<in> set xs"
    using dring_links_nonnull[OF assms(1), of l] dseg_last[OF seg] Cons l by auto
  define h' where "h' = set_prev l n (set_next (dl_prev h l) n (set_prev n (dl_prev h l) (set_next n l h)))"
  have nl: "n \<noteq> l" using assms(4) Cons l by auto
  have ins: "dlist_insert_tail h l n = Inr (l, h')"
    using assms(2,3) l(2) p(1) nl
    by (simp add: dlist_insert_tail_def dlist_insert_before_def detached_def h'_def Let_def)
  have "dseg h' l (xs' @ [n]) l"
    using dseg_insert_end[OF seg, of n h'] assms(4) Cons l(1) d nl
    by (simp add: h'_def)
  moreover have "dl_next h' y = dl_next h y \<and> dl_prev h' y = dl_prev h y" if "y \<notin> set xs" "y \<noteq> n" for y
    using that p(2) Cons l(1) by (auto simp: h'_def)
  moreover have "distinct (xs @ [n])" "0 \<notin> set (xs @ [n])"
    using assms Cons d l(1) by auto
  ultimately show ?thesis
    using ins Cons l(1) by (simp add: dring_def)
qed

section \<open>Removing\<close>

lemma dseg_unlink:
  assumes "dseg h p as n" and "dseg h n bs q"
    and "distinct (p # as @ n # bs)" and "q \<notin> set (as @ n # bs)"
    and "dl_next h' = (dl_next h)(dl_prev h n := dl_next h n)" and "dl_prev h' = (dl_prev h)(dl_next h n := dl_prev h n)"
  shows "dseg h' p (as @ bs) q"
  using assms(1,3,4)
proof (induction as arbitrary: p)
  case Nil
  show ?case
  proof (cases bs)
    case (Cons b bs')
    then have "dseg h' b bs' q = dseg h b bs' q"
      using assms(2) Nil by (intro dseg_cong) (auto simp: assms(5,6))
    with Cons Nil assms(2) show ?thesis
      by (auto simp: assms(5,6))
  qed (use Nil assms(2) in \<open>auto simp: assms(5,6)\<close>)
next
  case (Cons a as)
  have "dl_prev h n \<in> set (a # as)"
    using dseg_last[of h a as n] Cons.prems(1) by auto
  moreover have "dl_next h n \<in> set (bs @ [q])"
    using dseg_first[OF assms(2)] by (cases bs) auto
  ultimately show ?case
    using Cons by (auto simp: assms(5,6))
qed

lemma dlist_remove_ring:
  assumes "dring h l xs" and "n \<in> set xs"
  shows "\<exists>l' h'. dlist_remove h l n = Inr (l', h') \<and> dring h' l' (remove1 n xs) \<and> detached h' n
    \<and> (\<forall>y. y \<notin> set xs \<longrightarrow> dl_next h' y = dl_next h y \<and> dl_prev h' y = dl_prev h y)"
proof -
  obtain xs' where xs: "xs = l # xs'" and seg: "dseg h l xs' l" and d: "distinct xs" "0 \<notin> set xs"
    using assms by (cases xs) (auto simp: dring_def)
  note nn = dring_links_nonnull[OF assms]
  have n0: "n \<noteq> 0" using d(2) assms(2) by metis
  define g where "g = set_next (dl_prev h n) (dl_next h n) (set_prev (dl_next h n) (dl_prev h n) h)"
  have rem: "dlist_remove h l n = Inr (if l = n then dl_next h n else l, dlist_init g n)" if "dl_next h n \<noteq> n" "dl_prev h n \<noteq> n"
    using that nn n0 by (simp add: dlist_remove_def Let_def g_def fun_upd_same fun_upd_other)
  have out: "dl_next (dlist_init g n) y = dl_next h y \<and> dl_prev (dlist_init g n) y = dl_prev h y"
    if "y \<notin> set xs" "dl_prev h n \<in> set xs" "dl_next h n \<in> set xs" for y
    using that assms(2) by (auto simp: g_def)
  have det: "detached (dlist_init g n) n"
    by (simp add: detached_def)
  have init: "dring (dlist_init g n) l' ys = dring g l' ys" if "n \<notin> set ys" for l' ys
    using that by (intro dring_cong) auto
  show ?thesis
  proof (cases "n = l")
    case l: True
    show ?thesis
    proof (cases xs')
      case Nil
      then show ?thesis
        using seg l n0 xs by (auto simp: dlist_remove_def dring_def detached_def)
    next
      case (Cons y ys)
      have s: "dl_next h l = y" "dl_prev h y = l" "dseg h y ys l"
        using seg Cons by auto
      have p: "dl_prev h l \<in> set (y # ys)"
        using dseg_last[OF s(3)] by auto
      have "dseg g y (ys @ []) y"
        using dseg_unlink[OF s(3), of "[]" y g] s d l Cons xs p by (auto simp: g_def)
      then have "dring g y (y # ys)"
        using d Cons xs by (auto simp: dring_def)
      then have "dring (dlist_init g n) y (remove1 n xs)"
        using init[of "y # ys" y] d l Cons xs by auto
      moreover have "dl_next h n \<noteq> n" "dl_prev h n \<noteq> n" "dl_prev h n \<in> set xs" "dl_next h n \<in> set xs"
        using s p d l Cons xs by auto
      ultimately show ?thesis
        using rem out det s(1) l by auto
    qed
  next
    case l: False
    then obtain as bs where n: "xs' = as @ n # bs"
      using assms(2) xs by (auto simp: in_set_conv_decomp)
    have s: "dseg h l as n" "dseg h n bs l"
      using seg by (simp_all add: n dseg_append)
    have p: "dl_prev h n \<in> set (l # as)" "dl_next h n \<in> set (bs @ [l])"
      using dseg_last[OF s(1)] dseg_first[OF s(2)] by (auto simp: hd_append)
    have "dseg g l (as @ bs) l"
      by (rule dseg_unlink[OF s]) (use d n l xs p in \<open>auto simp: g_def\<close>)
    then have "dring g l (l # as @ bs)"
      using d n xs by (auto simp: dring_def)
    moreover have "remove1 n xs = l # as @ bs" "n \<notin> set (l # as @ bs)"
      using d n xs l by (auto simp: remove1_append)
    ultimately have "dring (dlist_init g n) l (remove1 n xs)"
      using init[of "l # as @ bs" l] by simp
    moreover have "dl_next h n \<noteq> n" "dl_prev h n \<noteq> n" "dl_prev h n \<in> set xs" "dl_next h n \<in> set xs"
      using p d n xs l by auto
    ultimately show ?thesis
      using rem out det l by auto
  qed
qed

section \<open>Iteration\<close>

text \<open>Starting from null, \<open>dlist_next\<close> gives the objects of the list in order and then null.\<close>

lemma dlist_next_ring:
  assumes "dring h l (as @ n # bs)"
  shows "dlist_next h l n = (case bs of [] \<Rightarrow> 0 | b # _ \<Rightarrow> b)" and "dlist_next h l 0 = hd (as @ n # bs)"
proof -
  have l: "l = hd (as @ n # bs)" "l \<noteq> 0" "n \<noteq> 0" "distinct (as @ n # bs)"
    using assms by (cases as; auto simp: dring_def)+
  show "dlist_next h l 0 = hd (as @ n # bs)"
    using l by (simp add: dlist_next_def)
  have "dseg h n bs l"
    using assms l by (cases as) (auto simp: dring_def dseg_append)
  then have "dl_next h n = hd (bs @ [l])"
    by (rule dseg_first)
  moreover have "b \<noteq> l" if "bs = b # bs'" for b bs'
    using that l(1,4) by (cases as) auto
  ultimately show "dlist_next h l n = (case bs of [] \<Rightarrow> 0 | b # _ \<Rightarrow> b)"
    using l by (cases bs) (auto simp: dlist_next_def)
qed

section \<open>Properties\<close>

text \<open>Ring lists behave as lists. Appending a detached object puts it at the end, removing a member
  takes it out and detaches it;
  neither touches the links of objects outside the list.\<close>

theorem dlist_ring_operations:
  assumes "dring h l xs" and "n \<noteq> 0" and "n \<notin> set xs" and "detached h n" and "x \<in> set xs"
  shows "\<exists>l1 h1 l2 h2. dlist_insert_tail h l n = Inr (l1, h1) \<and> dring h1 l1 (xs @ [n])
    \<and> dlist_remove h1 l1 x = Inr (l2, h2) \<and> dring h2 l2 (remove1 x xs @ [n]) \<and> detached h2 x
    \<and> (\<forall>y. y \<notin> set xs \<longrightarrow> y \<noteq> n \<longrightarrow> dl_next h2 y = dl_next h y \<and> dl_prev h2 y = dl_prev h y)"
proof -
  obtain l1 h1 where i: "dlist_insert_tail h l n = Inr (l1, h1)" "dring h1 l1 (xs @ [n])"
    "\<And>y. y \<notin> set xs \<Longrightarrow> y \<noteq> n \<Longrightarrow> dl_next h1 y = dl_next h y \<and> dl_prev h1 y = dl_prev h y"
    using dlist_insert_tail_ring[OF assms(1,4,2,3)] by blast
  obtain l2 h2 where r: "dlist_remove h1 l1 x = Inr (l2, h2)" "dring h2 l2 (remove1 x (xs @ [n]))" "detached h2 x"
    "\<And>y. y \<notin> set (xs @ [n]) \<Longrightarrow> dl_next h2 y = dl_next h1 y \<and> dl_prev h2 y = dl_prev h1 y"
    using dlist_remove_ring[OF i(2), of x] assms(5) by auto
  have "remove1 x (xs @ [n]) = remove1 x xs @ [n]"
    using assms(5) by (simp add: remove1_append)
  with i r show ?thesis by (metis Un_iff empty_iff empty_set list.set(2) set_append insert_iff)
qed

definition ring_example :: dlinks where
  "ring_example = \<lparr>dl_prev = (\<lambda>_. 0)(1 := 2, 2 := 1), dl_next = (\<lambda>_. 0)(1 := 2, 2 := 1)\<rparr>"

theorem dlist_ring_operations_witness:
  "\<exists>l1 h1 l2 h2. dlist_insert_tail ring_example 1 3 = Inr (l1, h1)
    \<and> dlist_remove h1 l1 1 = Inr (l2, h2) \<and> dring h2 l2 [2, 3]"
proof -
  have "dring ring_example 1 [1, 2]" "detached ring_example 3"
    by (simp_all add: dring_def ring_example_def detached_def)
  from dlist_ring_operations[OF this(1), of 3 1] this(2) show ?thesis by auto
qed

end
