(* ===== verification/Timer.thy ===== *)
theory Timer
  imports DList
begin

text \<open>
  The timer wheel of \<^verbatim>\<open>src/world/timer.c\<close>: one ring list of timers for each second of an hour;
  \<open>module_timer_update\<close> advances second by second, empties the list of that second and calls
  the callbacks.

  Times are seconds since the epoch (\<open>nat\<close>; \<open>time_t\<close> values before the epoch do not occur).
  Timers live in a heap from addresses to timers; a freed timer is removed from it, so that an
  access to it is the fault \<open>UseAfterFree\<close>. The address \<open>malloc\<close> returns is an argument of
  \<open>timer_add\<close>. A callback is code of other modules, which may itself add and remove timers: it is
  the parameter \<open>run\<close>, a function on the manager and the rest of the world. As such code
  can do anything to the manager, the loops run on fuel.
\<close>

section \<open>Operations\<close>

record ('c, 'd) Timer =
  t_at :: nat
  t_cb :: 'c
  t_data :: 'd

definition MAX_TIMER :: nat where
  "MAX_TIMER = 3600 * 1"

record ('c, 'd) TimerManger =
  tm_next :: nat
  tm_list :: "addr list"
  tm_links :: dlinks
  tm_heap :: "addr \<Rightarrow> ('c, 'd) Timer option"

definition module_timer_load :: "('c, 'd) TimerManger \<Rightarrow> nat \<Rightarrow> ('c, 'd) TimerManger" where
  "module_timer_load m now = m\<lparr>tm_list := replicate MAX_TIMER 0, tm_next := now\<rparr>"

definition timer_max_sec :: nat where
  "timer_max_sec = MAX_TIMER - 1"

text \<open>\<open>alloc\<close> is the block that \<open>MALLOC_N\<close> returns, \<open>None\<close> when there is no memory; the result is the
  address of the timer, 0 when none was made.\<close>

definition timer_add ::
  "addr option \<Rightarrow> ('c, 'd) TimerManger \<Rightarrow> nat \<Rightarrow> 'c \<Rightarrow> 'd \<Rightarrow> (addr \<times> ('c, 'd) TimerManger) res" where
  "timer_add alloc m at cb data =
     (if at < tm_next m \<or> at \<ge> tm_next m + MAX_TIMER then Inr (0, m)
      else case alloc of
        None \<Rightarrow> Inr (0, m)
      | Some timer \<Rightarrow>
          let links = dlist_init (tm_links m) timer;
              links = set_next timer 0 links;
              heap = (tm_heap m)(timer \<mapsto> \<lparr>t_at = at, t_cb = cb, t_data = data\<rparr>);
              pos = at mod MAX_TIMER
          in case dlist_insert_tail links (tm_list m ! pos) timer of
               Inl f \<Rightarrow> Inl f
             | Inr (l, links) \<Rightarrow>
                 Inr (timer, m\<lparr>tm_links := links, tm_heap := heap, tm_list := (tm_list m)[pos := l]\<rparr>))"

definition timer_remove :: "('c, 'd) TimerManger \<Rightarrow> addr \<Rightarrow> ('c, 'd) TimerManger res" where
  "timer_remove m timer =
     (case tm_heap m timer of
        None \<Rightarrow> Inl UseAfterFree
      | Some t \<Rightarrow>
          let pos = t_at t mod MAX_TIMER
          in if \<not> (timer \<noteq> 0 \<and> dl_next (tm_links m) timer \<noteq> 0 \<and> dl_prev (tm_links m) timer \<noteq> 0)
             then Inl Assertion
             else case dlist_remove (tm_links m) (tm_list m ! pos) timer of
               Inl f \<Rightarrow> Inl f
             | Inr (l, links) \<Rightarrow>
                 Inr (m\<lparr>tm_links := links, tm_list := (tm_list m)[pos := l],
                        tm_heap := (tm_heap m)(timer := None)\<rparr>))"

type_synonym ('c, 'd, 'w) callback =
  "'c \<Rightarrow> nat \<Rightarrow> 'd \<Rightarrow> ('c, 'd) TimerManger \<times> 'w \<Rightarrow> (('c, 'd) TimerManger \<times> 'w) res"

text \<open>The inner loop: \<open>list\<close> is the local variable that holds the detached list.\<close>

fun fire_list ::
  "nat \<Rightarrow> ('c, 'd, 'w) callback \<Rightarrow> addr \<Rightarrow> ('c, 'd) TimerManger \<times> 'w
    \<Rightarrow> (('c, 'd) TimerManger \<times> 'w) res option" where
  "fire_list 0 run list mw = None"
| "fire_list (Suc fuel) run list (m, w) =
     (if list = 0 then Some (Inr (m, w))
      else case tm_heap m list of
        None \<Rightarrow> Some (Inl UseAfterFree)
      | Some t \<Rightarrow>
          let timer = list
          in case dlist_remove (tm_links m) list timer of
               Inl f \<Rightarrow> Some (Inl f)
             | Inr (list, links) \<Rightarrow>
                 (case run (t_cb t) (t_at t) (t_data t) (m\<lparr>tm_links := links\<rparr>, w) of
                    Inl f \<Rightarrow> Some (Inl f)
                  | Inr (m, w) \<Rightarrow>
                      if tm_heap m timer = None then Some (Inl UseAfterFree)
                      else fire_list fuel run list (m\<lparr>tm_heap := (tm_heap m)(timer := None)\<rparr>, w)))"

fun module_timer_update ::
  "nat \<Rightarrow> ('c, 'd, 'w) callback \<Rightarrow> nat \<Rightarrow> ('c, 'd) TimerManger \<times> 'w
    \<Rightarrow> (('c, 'd) TimerManger \<times> 'w) res option" where
  "module_timer_update 0 run now mw = None"
| "module_timer_update (Suc fuel) run now (m, w) =
     (if \<not> tm_next m \<le> now then Some (Inr (m, w))
      else
        let pos = tm_next m mod MAX_TIMER;
            list = tm_list m ! pos
        in case fire_list (Suc fuel) run list (m\<lparr>tm_list := (tm_list m)[pos := 0]\<rparr>, w) of
             None \<Rightarrow> None
           | Some (Inl f) \<Rightarrow> Some (Inl f)
           | Some (Inr (m, w)) \<Rightarrow>
               module_timer_update fuel run now (m\<lparr>tm_next := tm_next m + 1\<rparr>, w))"

text \<open>\<open>module_timer_unload\<close> frees the timers of every slot but leaves the heads of the slots as they are.\<close>

fun free_list :: "nat \<Rightarrow> addr \<Rightarrow> ('c, 'd) TimerManger \<Rightarrow> ('c, 'd) TimerManger res option" where
  "free_list 0 list m = None"
| "free_list (Suc fuel) list m =
     (if list = 0 then Some (Inr m)
      else if tm_heap m list = None then Some (Inl UseAfterFree)
      else
        let timer = list
        in case dlist_remove (tm_links m) list timer of
             Inl f \<Rightarrow> Some (Inl f)
           | Inr (list, links) \<Rightarrow>
               free_list fuel list (m\<lparr>tm_links := links, tm_heap := (tm_heap m)(timer := None)\<rparr>))"

fun unload_slots :: "nat \<Rightarrow> nat list \<Rightarrow> ('c, 'd) TimerManger \<Rightarrow> ('c, 'd) TimerManger res option" where
  "unload_slots fuel [] m = Some (Inr m)"
| "unload_slots fuel (i # is) m =
     (case free_list fuel (tm_list m ! i) m of
        None \<Rightarrow> None
      | Some (Inl f) \<Rightarrow> Some (Inl f)
      | Some (Inr m) \<Rightarrow> unload_slots fuel is m)"

definition module_timer_unload :: "nat \<Rightarrow> ('c, 'd) TimerManger \<Rightarrow> ('c, 'd) TimerManger res option" where
  "module_timer_unload fuel m = unload_slots fuel [0..<MAX_TIMER] m"

section \<open>The wheel as lists\<close>

text \<open>\<open>wheel_ok m S\<close>: the ring of slot \<open>p\<close> holds the live timers \<open>S p\<close>, each of them due in that slot
  within the hour that starts at \<open>tm_next\<close>.\<close>

definition slot_timer :: "('c, 'd) TimerManger \<Rightarrow> nat \<Rightarrow> addr \<Rightarrow> bool" where
  "slot_timer m p a \<longleftrightarrow> (case tm_heap m a of None \<Rightarrow> False
     | Some t \<Rightarrow> t_at t mod MAX_TIMER = p \<and> tm_next m \<le> t_at t \<and> t_at t < tm_next m + MAX_TIMER)"

definition wheel_ok :: "('c, 'd) TimerManger \<Rightarrow> (nat \<Rightarrow> addr list) \<Rightarrow> bool" where
  "wheel_ok m S \<longleftrightarrow> length (tm_list m) = MAX_TIMER
     \<and> (\<forall>p < MAX_TIMER. dring (tm_links m) (tm_list m ! p) (S p) \<and> (\<forall>a \<in> set (S p). slot_timer m p a))"

definition at_of :: "('c, 'd) TimerManger \<Rightarrow> addr \<Rightarrow> nat" where
  "at_of m a = t_at (the (tm_heap m a))"

definition call_of :: "('c, 'd) TimerManger \<Rightarrow> addr \<Rightarrow> 'c \<times> nat \<times> 'd" where
  "call_of m a = (case the (tm_heap m a) of t \<Rightarrow> (t_cb t, t_at t, t_data t))"

text \<open>A callback that leaves the manager alone and whose call is written to a log.\<close>

definition log_call :: "('c, 'd, ('c \<times> nat \<times> 'd) list) callback" where
  "log_call cb at data mw = Inr (fst mw, snd mw @ [(cb, at, data)])"

lemma MAX_TIMER_pos [simp]: "0 < MAX_TIMER"
  by (simp add: MAX_TIMER_def)

lemma mod_window:
  assumes "(a :: nat) mod k = n mod k" and "n \<le> a" and "a < n + k"
  shows "a = n"
proof -
  have "k dvd a - n"
    using assms(1,2) mod_eq_dvd_iff_nat[of n a k] by simp
  then show ?thesis
    using assms(2,3) dvd_imp_le[of k "a - n"] by (cases "a - n = 0") auto
qed

lemma slot_timer_iff:
  "slot_timer m p a \<longleftrightarrow> (\<exists>t. tm_heap m a = Some t \<and> t_at t mod MAX_TIMER = p \<and> tm_next m \<le> t_at t
     \<and> t_at t < tm_next m + MAX_TIMER)"
  by (simp add: slot_timer_def split: option.splits)

lemma wheel_disjoint:
  "wheel_ok m S \<Longrightarrow> p < MAX_TIMER \<Longrightarrow> q < MAX_TIMER \<Longrightarrow> a \<in> set (S p) \<Longrightarrow> a \<in> set (S q) \<Longrightarrow> p = q"
  unfolding wheel_ok_def slot_timer_iff by (metis option.inject)

lemma wheel_slot:
  "wheel_ok m S \<Longrightarrow> p < MAX_TIMER \<Longrightarrow> a \<in> set (S p) \<Longrightarrow> slot_timer m p a"
  by (simp add: wheel_ok_def)

lemma slot_now:
  assumes "slot_timer m (tm_next m mod MAX_TIMER) a"
  shows "at_of m a = tm_next m"
  using assms mod_window[of _ MAX_TIMER "tm_next m"] by (auto simp: slot_timer_iff at_of_def)

section \<open>Adding and removing\<close>

lemma timer_add_wheel:
  assumes "wheel_ok m S" and "tm_next m \<le> at" and "at < tm_next m + MAX_TIMER"
    and "a \<noteq> 0" and "tm_heap m a = None"
  shows "\<exists>m'. timer_add (Some a) m at cb data = Inr (a, m')
     \<and> wheel_ok m' (S(at mod MAX_TIMER := S (at mod MAX_TIMER) @ [a]))
     \<and> tm_heap m' = (tm_heap m)(a \<mapsto> \<lparr>t_at = at, t_cb = cb, t_data = data\<rparr>) \<and> tm_next m' = tm_next m"
proof -
  let ?pos = "at mod MAX_TIMER"
  let ?h = "set_next a 0 (dlist_init (tm_links m) a)"
  have pos: "?pos < MAX_TIMER" by simp
  have fresh: "a \<notin> set (S p)" if "p < MAX_TIMER" for p
    using wheel_slot[OF assms(1) that, of a] assms(5) by (auto simp: slot_timer_iff)
  have ring: "dring ?h (tm_list m ! p) (S p)" if "p < MAX_TIMER" for p
  proof -
    have "dring ?h (tm_list m ! p) (S p) = dring (tm_links m) (tm_list m ! p) (S p)"
      using fresh[OF that] by (intro dring_cong) auto
    with assms(1) that show ?thesis by (simp add: wheel_ok_def)
  qed
  have "detached ?h a" by (simp add: detached_def)
  from dlist_insert_tail_ring[OF ring[OF pos] this assms(4) fresh[OF pos]]
  obtain l h where ins: "dlist_insert_tail ?h (tm_list m ! ?pos) a = Inr (l, h)" "dring h l (S ?pos @ [a])"
    and out: "\<And>y. y \<notin> set (S ?pos) \<Longrightarrow> y \<noteq> a \<Longrightarrow> dl_next h y = dl_next ?h y \<and> dl_prev h y = dl_prev ?h y"
    by blast
  have other: "dring h (tm_list m ! p) (S p)" if "p < MAX_TIMER" "p \<noteq> ?pos" for p
  proof -
    have "y \<notin> set (S ?pos) \<and> y \<noteq> a" if "y \<in> set (S p)" for y
      using wheel_disjoint[OF assms(1) \<open>p < MAX_TIMER\<close> pos that] fresh[OF \<open>p < MAX_TIMER\<close>] that \<open>p \<noteq> ?pos\<close> by blast
    then show ?thesis
      using dring_cong[of "S p" h ?h] out ring[OF that(1)] by blast
  qed
  let ?m = "m\<lparr>tm_links := h, tm_heap := (tm_heap m)(a \<mapsto> \<lparr>t_at = at, t_cb = cb, t_data = data\<rparr>),
    tm_list := (tm_list m)[?pos := l]\<rparr>"
  have "timer_add (Some a) m at cb data = Inr (a, ?m)"
    using assms(2,3) ins(1) by (simp add: timer_add_def Let_def)
  moreover have "wheel_ok ?m (S(?pos := S ?pos @ [a]))"
    using assms(1-3) ins(2) other fresh
    by (auto simp: wheel_ok_def slot_timer_iff nth_list_update)
  ultimately show ?thesis by simp
qed

lemma timer_remove_wheel:
  assumes "wheel_ok m S" and "p < MAX_TIMER" and "a \<in> set (S p)"
  shows "\<exists>m'. timer_remove m a = Inr m' \<and> wheel_ok m' (S(p := remove1 a (S p)))
     \<and> tm_heap m' = (tm_heap m)(a := None) \<and> tm_next m' = tm_next m"
proof -
  obtain t where t: "tm_heap m a = Some t" "t_at t mod MAX_TIMER = p"
    using wheel_slot[OF assms] by (auto simp: slot_timer_iff)
  have ring: "dring (tm_links m) (tm_list m ! q) (S q)" if "q < MAX_TIMER" for q
    using assms(1) that by (simp add: wheel_ok_def)
  from dlist_remove_ring[OF ring[OF assms(2)] assms(3)] obtain l h where
    rem: "dlist_remove (tm_links m) (tm_list m ! p) a = Inr (l, h)" "dring h l (remove1 a (S p))"
    and out: "\<And>y. y \<notin> set (S p) \<Longrightarrow> dl_next h y = dl_next (tm_links m) y \<and> dl_prev h y = dl_prev (tm_links m) y"
    by blast
  have "a \<noteq> 0" and d: "distinct (S p)"
    using ring[OF assms(2)] assms(3) by (auto simp: dring_def intro: ccontr)
  have other: "dring h (tm_list m ! q) (S q)" if "q < MAX_TIMER" "q \<noteq> p" for q
    using dring_cong[of "S q" h "tm_links m"] out wheel_disjoint[OF assms(1) that(1) assms(2)] that(2) ring[OF that(1)]
    by blast
  let ?m = "m\<lparr>tm_links := h, tm_list := (tm_list m)[p := l], tm_heap := (tm_heap m)(a := None)\<rparr>"
  have "timer_remove m a = Inr ?m"
    using t rem(1) dring_links_nonnull[OF ring[OF assms(2)] assms(3)] \<open>a \<noteq> 0\<close> by (simp add: timer_remove_def Let_def)
  moreover have "wheel_ok ?m (S(p := remove1 a (S p)))"
  proof -
    have "slot_timer ?m q b" if "q < MAX_TIMER" "b \<in> set ((S(p := remove1 a (S p))) q)" for q b
    proof -
      have b: "b \<in> set (S q)" using that(2) by (auto split: if_splits dest: in_set_remove1[THEN iffD1, rotated] notin_set_remove1)
      have "b \<noteq> a"
        using that(2) d wheel_disjoint[OF assms(1) that(1) assms(2) b] assms(3) by (auto split: if_splits)
      with wheel_slot[OF assms(1) that(1) b] show ?thesis by (simp add: slot_timer_iff)
    qed
    then show ?thesis
      using assms(1) rem(2) other by (auto simp: wheel_ok_def nth_list_update)
  qed
  ultimately show ?thesis by simp
qed

section \<open>Firing\<close>

text \<open>The inner loop, on a list that has been taken out of the wheel. The timers of the wheel, which
  the loop does not touch, are those of \<open>S\<close>.\<close>

lemma fire_list_log:
  assumes "wheel_ok m S" and "dring (tm_links m) l xs" and "\<And>a. a \<in> set xs \<Longrightarrow> tm_heap m a \<noteq> None"
    and "\<And>p. p < MAX_TIMER \<Longrightarrow> set xs \<inter> set (S p) = {}" and "length xs < fuel"
  shows "\<exists>m'. fire_list fuel log_call l (m, w) = Some (Inr (m', w @ map (call_of m) xs))
     \<and> wheel_ok m' S \<and> tm_next m' = tm_next m \<and> tm_heap m' = (\<lambda>a. if a \<in> set xs then None else tm_heap m a)"
  using assms
proof (induction xs arbitrary: m l w fuel)
  case Nil
  then obtain f where "fuel = Suc f" by (cases fuel) auto
  with Nil show ?case by (auto simp: dring_def)
next
  case (Cons x xs)
  then obtain f where f: "fuel = Suc f" by (cases fuel) auto
  have l: "l = x" "x \<noteq> 0" and d: "distinct (x # xs)"
    using dring_hd[OF Cons.prems(2)] Cons.prems(2) by (simp_all add: dring_def)
  obtain t where t: "tm_heap m x = Some t"
    using Cons.prems(3)[of x] by auto
  from dlist_remove_ring[OF Cons.prems(2), of x] obtain l' h where
    rem: "dlist_remove (tm_links m) l x = Inr (l', h)" "dring h l' xs"
    and out: "\<And>y. y \<notin> set (x # xs) \<Longrightarrow> dl_next h y = dl_next (tm_links m) y \<and> dl_prev h y = dl_prev (tm_links m) y"
    using d by auto
  let ?m = "m\<lparr>tm_links := h, tm_heap := (tm_heap m)(x := None)\<rparr>"
  have step: "fire_list fuel log_call l (m, w) = fire_list f log_call l' (?m, w @ [call_of m x])"
    using l t rem(1) by (simp add: f log_call_def call_of_def Let_def)
  have "wheel_ok ?m S"
    unfolding wheel_ok_def
  proof (intro conjI allI impI ballI)
    fix p assume p: "p < MAX_TIMER"
    have "y \<notin> set (x # xs)" if "y \<in> set (S p)" for y
      using Cons.prems(4)[OF p] that by blast
    then show "dring (tm_links ?m) (tm_list ?m ! p) (S p)"
      using out dring_cong[of "S p" h "tm_links m"] Cons.prems(1) p by (auto simp: wheel_ok_def)
    fix a assume a: "a \<in> set (S p)"
    with Cons.prems(4)[OF p] have "a \<noteq> x" by auto
    with wheel_slot[OF Cons.prems(1) p a] show "slot_timer ?m p a" by (simp add: slot_timer_iff)
  qed (use Cons.prems(1) in \<open>simp add: wheel_ok_def\<close>)
  moreover have "tm_heap ?m a \<noteq> None" if "a \<in> set xs" for a
    using Cons.prems(3)[of a] d that by auto
  moreover have "set xs \<inter> set (S p) = {}" if "p < MAX_TIMER" for p
    using Cons.prems(4)[OF that] by auto
  ultimately obtain m' where m': "fire_list f log_call l' (?m, w @ [call_of m x])
      = Some (Inr (m', (w @ [call_of m x]) @ map (call_of ?m) xs))"
    "wheel_ok m' S" "tm_next m' = tm_next m" "tm_heap m' = (\<lambda>a. if a \<in> set xs then None else tm_heap ?m a)"
    using Cons.IH[of ?m l' f "w @ [call_of m x]"] rem(2) Cons.prems(5) f by auto
  have "map (call_of ?m) xs = map (call_of m) xs"
    using d by (auto simp: call_of_def)
  with m' show ?case
    unfolding step by (auto simp: fun_eq_iff)
qed

text \<open>One second of the wheel.\<close>

definition clear_slot :: "nat \<Rightarrow> (nat \<Rightarrow> addr list) \<Rightarrow> nat \<Rightarrow> addr list" where
  "clear_slot t S = S(t mod MAX_TIMER := [])"

lemma timer_second:
  assumes "wheel_ok m S" and "tm_next m \<le> now" and "length (S (tm_next m mod MAX_TIMER)) \<le> fuel"
  defines "due \<equiv> S (tm_next m mod MAX_TIMER)"
  shows "\<exists>m'. module_timer_update (Suc fuel) log_call now (m, w)
        = module_timer_update fuel log_call now (m', w @ map (call_of m) due)
     \<and> wheel_ok m' (clear_slot (tm_next m) S) \<and> tm_next m' = tm_next m + 1
     \<and> tm_heap m' = (\<lambda>a. if a \<in> set due then None else tm_heap m a)"
proof -
  let ?p = "tm_next m mod MAX_TIMER" and ?S = "clear_slot (tm_next m) S"
  let ?m = "m\<lparr>tm_list := (tm_list m)[?p := 0]\<rparr>"
  have p: "?p < MAX_TIMER" by simp
  have "wheel_ok ?m ?S"
    using assms(1) by (auto simp: wheel_ok_def clear_slot_def nth_list_update slot_timer_iff dring_def)
  moreover have "dring (tm_links ?m) (tm_list m ! ?p) due"
    using assms(1) p by (simp add: wheel_ok_def due_def)
  moreover have "tm_heap ?m a \<noteq> None" if "a \<in> set due" for a
    using wheel_slot[OF assms(1) p] that by (auto simp: due_def slot_timer_iff)
  moreover have "set due \<inter> set (?S q) = {}" if "q < MAX_TIMER" for q
    using wheel_disjoint[OF assms(1) p that] by (auto simp: due_def clear_slot_def)
  ultimately obtain m' where m': "fire_list (Suc fuel) log_call (tm_list m ! ?p) (?m, w)
      = Some (Inr (m', w @ map (call_of ?m) due))"
    "wheel_ok m' ?S" "tm_next m' = tm_next m" "tm_heap m' = (\<lambda>a. if a \<in> set due then None else tm_heap ?m a)"
    using fire_list_log[of ?m ?S "tm_list m ! ?p" due "Suc fuel" w] assms(3) by (auto simp: due_def)
  let ?m2 = "m'\<lparr>tm_next := tm_next m + 1\<rparr>"
  have eq: "call_of ?m = call_of m" by (simp add: call_of_def fun_eq_iff)
  have "wheel_ok ?m2 ?S"
  proof -
    have "slot_timer ?m2 q a" if b: "q < MAX_TIMER" "a \<in> set (?S q)" for q a
    proof -
      have q: "q \<noteq> ?p" using b(2) by (auto simp: clear_slot_def)
      obtain t where t: "tm_heap m' a = Some t" "t_at t mod MAX_TIMER = q" "tm_next m \<le> t_at t" "t_at t < tm_next m + MAX_TIMER"
        using wheel_slot[OF m'(2) b] by (auto simp: slot_timer_iff m'(3))
      with q have "t_at t \<noteq> tm_next m" by auto
      with t show ?thesis by (simp add: slot_timer_iff)
    qed
    with m'(2) show ?thesis by (simp add: wheel_ok_def)
  qed
  then show ?thesis
    using m' assms(2) by (intro exI[of _ ?m2]) (simp add: Let_def eq fun_eq_iff del: fire_list.simps)
qed

text \<open>The seconds from \<open>tm_next\<close> to \<open>now\<close>, at most one turn of the wheel.\<close>

lemma timer_update_log:
  assumes "wheel_ok m S" and "k \<le> MAX_TIMER" and "tm_next m + k = Suc now"
    and "\<And>p. length (S p) < n" and "n + k \<le> fuel"
  shows "\<exists>m'. module_timer_update fuel log_call now (m, w)
        = Some (Inr (m', w @ map (call_of m) (concat (map (\<lambda>t. S (t mod MAX_TIMER)) [tm_next m..<tm_next m + k]))))
     \<and> wheel_ok m' (fold clear_slot [tm_next m..<tm_next m + k] S) \<and> tm_next m' = Suc now"
  using assms
proof (induction k arbitrary: m S w fuel)
  case 0
  then obtain f where "fuel = Suc f" using less_nat_zero_code[of "length (S 0)"] by (cases fuel) auto
  with 0 show ?case by auto
next
  case (Suc k)
  obtain f where f: "fuel = Suc f" using Suc.prems(5) by (cases fuel) auto
  let ?t = "tm_next m" and ?S = "clear_slot (tm_next m) S"
  have "length (S (?t mod MAX_TIMER)) \<le> f"
    using Suc.prems(4)[of "?t mod MAX_TIMER"] Suc.prems(5) f by simp
  then obtain m1 where m1: "module_timer_update fuel log_call now (m, w)
        = module_timer_update f log_call now (m1, w @ map (call_of m) (S (?t mod MAX_TIMER)))"
     "wheel_ok m1 ?S" "tm_next m1 = ?t + 1"
     "tm_heap m1 = (\<lambda>a. if a \<in> set (S (?t mod MAX_TIMER)) then None else tm_heap m a)"
    using timer_second[OF Suc.prems(1), of now f w] Suc.prems(3) f by auto
  have len: "length (?S p) < n" for p
    using Suc.prems(4)[of p] by (auto simp: clear_slot_def intro: le_less_trans)
  have k: "k \<le> MAX_TIMER" "tm_next m1 + k = Suc now" "n + k \<le> f"
    using Suc.prems(2,3,5) f m1(3) by simp_all
  obtain m2 where m2: "module_timer_update f log_call now (m1, w @ map (call_of m) (S (?t mod MAX_TIMER)))
      = Some (Inr (m2, (w @ map (call_of m) (S (?t mod MAX_TIMER))) @
          map (call_of m1) (concat (map (\<lambda>t. ?S (t mod MAX_TIMER)) [tm_next m1..<tm_next m1 + k]))))"
     "wheel_ok m2 (fold clear_slot [tm_next m1..<tm_next m1 + k] ?S)" "tm_next m2 = Suc now"
    using Suc.IH[OF m1(2) k(1,2) len k(3)] by blast
  have ne: "t mod MAX_TIMER \<noteq> ?t mod MAX_TIMER" if "t \<in> set [?t + 1..<?t + 1 + k]" for t
    using mod_window[of t MAX_TIMER ?t] that Suc.prems(2) by auto
  have same: "call_of m1 a = call_of m a" if "t \<in> set [?t + 1..<?t + 1 + k]" "a \<in> set (S (t mod MAX_TIMER))" for t a
    using wheel_disjoint[OF Suc.prems(1) _ _ that(2), of "?t mod MAX_TIMER"] ne[OF that(1)]
    by (auto simp: call_of_def m1(4))
  have "map (call_of m1) (concat (map (\<lambda>t. ?S (t mod MAX_TIMER)) [tm_next m1..<tm_next m1 + k]))
      = map (call_of m) (concat (map (\<lambda>t. S (t mod MAX_TIMER)) [?t + 1..<?t + 1 + k]))"
    unfolding map_concat map_map m1(3) using ne same
    by (intro arg_cong[of _ _ concat] map_cong refl) (auto simp: clear_slot_def)
  moreover have "[?t..<?t + Suc k] = ?t # [?t + 1..<?t + 1 + k]"
    by (simp add: upt_conv_Cons)
  ultimately show ?case
    unfolding m1(1) m2(1) using m2(2,3) by (auto simp: m1(3))
qed

lemma fold_clear_slot: "fold clear_slot ts S p = (if p \<in> (\<lambda>t. t mod MAX_TIMER) ` set ts then [] else S p)"
  by (induction ts arbitrary: S) (auto simp: clear_slot_def)

text \<open>Within the window of the wheel a slot is due exactly when its timers are.\<close>

lemma slot_due:
  assumes "wheel_ok m S" and "p < MAX_TIMER" and "a \<in> set (S p)"
    and "tm_next m \<le> t" and "t < tm_next m + MAX_TIMER"
  shows "p = t mod MAX_TIMER \<longleftrightarrow> at_of m a = t"
proof -
  obtain u where u: "at_of m a = u" "u mod MAX_TIMER = p" "tm_next m \<le> u" "u < tm_next m + MAX_TIMER"
    using wheel_slot[OF assms(1-3)] by (auto simp: slot_timer_iff at_of_def)
  have "u mod MAX_TIMER = t mod MAX_TIMER \<Longrightarrow> u = t"
    using mod_window[of u MAX_TIMER t] mod_window[of t MAX_TIMER u] u assms(4,5) by (cases "t \<le> u") auto
  with u show ?thesis by auto
qed

lemma wheel_ok_cong: "wheel_ok m S \<Longrightarrow> (\<And>p. p < MAX_TIMER \<Longrightarrow> S' p = S p) \<Longrightarrow> wheel_ok m S'"
  by (simp add: wheel_ok_def)

section \<open>Properties\<close>

text \<open>\<open>timer_add\<close> accepts a time within the hour that starts at the next second to be processed,
  puts the timer behind those already due at that second and keeps the wheel well formed;
  any other time is refused and nothing changes. \<open>timer_remove\<close> of the timer then gives back
  the wheel without it, with its memory freed.\<close>

theorem timer_add_remove:
  assumes "wheel_ok m S" and "a \<noteq> 0" and "tm_heap m a = None"
  shows "if tm_next m \<le> at \<and> at < tm_next m + MAX_TIMER
     then \<exists>m' m''. timer_add (Some a) m at cb data = Inr (a, m')
        \<and> wheel_ok m' (S(at mod MAX_TIMER := S (at mod MAX_TIMER) @ [a]))
        \<and> timer_remove m' a = Inr m'' \<and> wheel_ok m'' S \<and> tm_heap m'' = tm_heap m
     else timer_add (Some a) m at cb data = Inr (0, m)"
proof (cases "tm_next m \<le> at \<and> at < tm_next m + MAX_TIMER")
  case True
  let ?p = "at mod MAX_TIMER" and ?S = "S(at mod MAX_TIMER := S (at mod MAX_TIMER) @ [a])"
  obtain m' where m': "timer_add (Some a) m at cb data = Inr (a, m')" "wheel_ok m' ?S"
    "tm_heap m' = (tm_heap m)(a \<mapsto> \<lparr>t_at = at, t_cb = cb, t_data = data\<rparr>)"
    using timer_add_wheel[OF assms(1)] True assms(2,3) by blast
  have "a \<notin> set (S ?p)"
    using wheel_slot[OF assms(1), of ?p a] assms(3) by (auto simp: slot_timer_iff)
  then have "?S(?p := remove1 a (?S ?p)) = S"
    by (simp add: remove1_append)
  moreover obtain m'' where "timer_remove m' a = Inr m''" "wheel_ok m'' (?S(?p := remove1 a (?S ?p)))"
    "tm_heap m'' = (tm_heap m')(a := None)"
    using timer_remove_wheel[OF m'(2), of ?p a] by auto
  ultimately show ?thesis
    using True m' assms(3) by (auto simp: fun_upd_idem)
qed (auto simp: timer_add_def)

definition timer_example :: "(nat, nat) TimerManger" where
  "timer_example = module_timer_load
     \<lparr>tm_next = 0, tm_list = [], tm_links = \<lparr>dl_prev = \<lambda>_. 0, dl_next = \<lambda>_. 0\<rparr>, tm_heap = Map.empty\<rparr> 5000"

lemma timer_example_ok: "wheel_ok timer_example (\<lambda>_. [])"
  by (simp add: wheel_ok_def timer_example_def module_timer_load_def dring_def)

lemma timer_example_sel [simp]: "tm_next timer_example = 5000" "tm_heap timer_example = Map.empty"
  by (simp_all add: timer_example_def module_timer_load_def)

theorem timer_add_remove_witness:
  "\<exists>m' m''. timer_add (Some 7) timer_example 5003 1 2 = Inr (7, m') \<and> timer_remove m' 7 = Inr m''
     \<and> wheel_ok m'' (\<lambda>_. [])"
  using timer_add_remove[OF timer_example_ok, of 7 5003 1 2] by (auto simp: MAX_TIMER_def)



text \<open>A callback that adds a timer for the second being processed is told that the timer was
  added, but the list of that second has already been taken out of the wheel: the timer is not
  called, and it stays behind in a slot that is visited again only after a full turn.\<close>

theorem timer_added_for_current_second_is_late:
  assumes "wheel_ok m S" and "S (tm_next m mod MAX_TIMER) = [a]" and "b \<noteq> 0" and "tm_heap m b = None"
    and "\<And>cb at data m w. run cb at data (m, w) =
      (case timer_add (Some b) m (tm_next m) cb data of Inl f \<Rightarrow> Inl f | Inr (_, m) \<Rightarrow> Inr (m, w))"
  shows "\<exists>m'. module_timer_update (Suc (Suc fuel)) run (tm_next m) (m, w) = Some (Inr (m', w))
     \<and> tm_next m' = tm_next m + 1 \<and> at_of m' b = tm_next m \<and> tm_heap m' b \<noteq> None
     \<and> tm_list m' ! (tm_next m mod MAX_TIMER) = b"
proof -
  let ?t = "tm_next m" and ?p = "tm_next m mod MAX_TIMER"
  have p: "?p < MAX_TIMER" by simp
  let ?m1 = "m\<lparr>tm_list := (tm_list m)[?p := 0]\<rparr>"
  have ring: "dring (tm_links m) (tm_list m ! ?p) [a]" and lm: "length (tm_list m) = MAX_TIMER"
    using assms(1,2) p unfolding wheel_ok_def by metis+
  obtain t where t: "tm_heap m a = Some t"
    using wheel_slot[OF assms(1) p, of a] assms(2) by (auto simp: slot_timer_iff)
  have a: "tm_list m ! ?p = a" "a \<noteq> 0" "dl_next (tm_links m) a = a" "a \<noteq> b"
    using ring t assms(4) by (auto simp: dring_def)
  let ?h = "dlist_init (tm_links m) a" and ?b = "\<lparr>t_at = ?t, t_cb = t_cb t, t_data = t_data t\<rparr>"
  have add: "timer_add (Some b) (?m1\<lparr>tm_links := ?h\<rparr>) ?t (t_cb t) (t_data t)
      = Inr (b, ?m1\<lparr>tm_links := set_next b b (set_prev b b (set_next b 0 (dlist_init ?h b))),
                tm_heap := (tm_heap m)(b \<mapsto> ?b), tm_list := (tm_list m)[?p := b]\<rparr>)"
    using assms(3) lm by (simp add: timer_add_def Let_def dlist_insert_tail_def)
  have rem: "dlist_remove (tm_links m) a a = Inr (0, ?h)"
    using a by (simp add: dlist_remove_def)
  show ?thesis
    using a t add rem lm p assms(4)
    by (simp add: Let_def assms(5) at_of_def)
qed

theorem timer_added_for_current_second_is_late_witness:
  "\<exists>m m'. timer_add (Some 7) timer_example 5000 1 2 = Inr (7, m) \<and>
     module_timer_update 2 (\<lambda>cb at data (m, w). case timer_add (Some 8) m (tm_next m) cb data of
         Inl f \<Rightarrow> Inl f | Inr (_, m) \<Rightarrow> Inr (m, w)) (tm_next m) (m, ()) = Some (Inr (m', ()))
     \<and> tm_next m' = tm_next m + 1 \<and> at_of m' 8 = tm_next m"
proof -
  let ?run = "\<lambda>cb at data (m :: (nat, nat) TimerManger, w :: unit). case timer_add (Some 8) m (tm_next m) cb data of
         Inl f \<Rightarrow> Inl f | Inr (_, m) \<Rightarrow> Inr (m, w)"
  obtain m where m: "timer_add (Some 7) timer_example 5000 1 2 = Inr (7, m)"
    "wheel_ok m ((\<lambda>_. [])(5000 mod MAX_TIMER := [7]))" "tm_next m = 5000" "tm_heap m 8 = None"
    using timer_add_wheel[OF timer_example_ok, of 5000 7 1 2] by auto
  show ?thesis
    using timer_added_for_current_second_is_late[OF m(2), of 7 8 ?run 0 "()"] m by (fastforce simp: numeral_2_eq_2)
qed

end
