(* ===== verification/Registry.thy ===== *)
theory Registry
  imports AgMap DList
begin

text \<open>
  The pattern by which the servers keep a set of objects: a hash map from a key to the object and a
  ring list of all objects. The gateway's clients and waiting connections and the per-player
  module data are kept this way. This theory states once what the two structures together
  represent and how adding, removing and moving an object changes it.
\<close>

section \<open>Objects by key and in a list\<close>

text \<open>\<open>key\<close> gives the key of the live object at an address.\<close>

definition tight_map :: "(u64, addr) agmap \<Rightarrow> bool" where
  "tight_map m \<longleftrightarrow> map_ok (\<lambda>k. k) m \<and> item_count m = length (entries m)"

definition reg_ok ::
  "(u64, addr) agmap option \<Rightarrow> dlinks \<Rightarrow> addr \<Rightarrow> (addr \<Rightarrow> u64 option) \<Rightarrow> addr list \<Rightarrow> bool" where
  "reg_ok mp h l key xs \<longleftrightarrow>
     (\<exists>m. mp = Some m \<and> tight_map m) \<and> dring h l xs \<and> (\<forall>a \<in> set xs. key a \<noteq> None)
     \<and> (\<forall>k a. agMap_ip_get mp k = Some a \<longleftrightarrow> a \<in> set xs \<and> key a = Some k)"

text \<open>The number of objects the proofs allow (the memory of a map is counted in an \<open>int\<close>).\<close>

definition REG_MAX :: nat where
  "REG_MAX = 2 ^ 26"

lemma ip_set_ok:
  assumes "tight_map m" and "map_room m"
  obtains m' where "agMap_ip_set (Some m) k v = Some (Inr (agMap_ip_get (Some m) k, Some m'))" and "tight_map m'"
    and "\<And>k'. agMap_ip_get (Some m') k' = (if k' = k then v else agMap_ip_get (Some m) k')"
proof -
  have ok: "map_ok (\<lambda>k. k) m" using assms(1) by (simp add: tight_map_def)
  obtain m' where m': "map_store (Some m) (map_find (Some m) k k) k k v = Some (Inr (map_get (\<lambda>k. k) (Some m) k, Some m'))"
    "map_ok (\<lambda>k. k) m'"
    "item_count m = length (concat (buckets m)) \<longrightarrow> item_count m' = length (concat (buckets m'))"
    using map_store_ok[OF ok assms(2), of k v] by blast
  obtain m2 where m2: "map_upd (\<lambda>k. k) m k v = Some (map_get (\<lambda>k. k) (Some m) k, m2)"
    "\<forall>k'. map_get (\<lambda>k. k) (Some m2) k' = (if k' = k then v else map_get (\<lambda>k. k) (Some m) k')"
    using am.upd_ok [OF ok assms(2), of k v] by blast
  have "m2 = m'" using map_updD[OF m2(1)] m'(1) by simp
  moreover have "tight_map m'" using m'(2,3) assms(1) by (simp add: tight_map_def entries_def)
  ultimately show thesis using that[of m'] m'(1) m2(2) by (simp add: ip_is_map)
qed

text \<open>The number of elements is the number of keys.\<close>

lemma tight_count:
  assumes "tight_map m"
  shows "item_count m = card (dom (agMap_ip_get (Some m)))"
proof -
  have ok: "map_ok (\<lambda>k. k) m" "item_count m = length (entries m)" using assms by (simp_all add: tight_map_def)
  have d: "distinct (map fst (entries m))"
    using map_ok_distinct[OF ok(1)] by (simp add: entries_def comp_def)
  have "(k, a) \<in> set (entries m) \<longleftrightarrow> agMap_ip_get (Some m) k = Some a" for k a
    using map_get_iff[OF ok(1), of k a] by (auto simp: ip_is_map entries_def elems_def)
  then have "dom (agMap_ip_get (Some m)) = set (map fst (entries m))" by force
  with distinct_card[OF d] ok(2) show ?thesis by simp
qed

text \<open>A new map.\<close>

lemma new_map:
  obtains m where "agMap_new None = Inr m" and "tight_map m" and "elems m = {}" and "map_room m"
    and "\<And>k. agMap_ip_get (Some m) k = None"
proof -
  let ?m = "\<lparr>m_heap = None, item_count = 0, buckets = []\<rparr> :: (u64, addr) agmap"
  have "agMap_new None = Inr ?m" by (simp add: agMap_new_def map_alloc_def)
  moreover have "tight_map ?m" by (simp add: tight_map_def map_ok_def entries_def)
  ultimately show thesis using that[of ?m]
    by (simp add: elems_def map_room_def agMap_ip_get_def ip_find_def map_find_def)
qed

lemma reg_count:
  assumes "reg_ok (Some m) h l key xs"
  shows "item_count m = length xs"
proof -
  have ok: "map_ok (\<lambda>k. k) m" "item_count m = length (entries m)" and d: "distinct xs"
    using assms by (auto simp: reg_ok_def tight_map_def dring_def)
  have "distinct (entries m)"
    using map_ok_distinct [OF ok(1)] by (auto simp: entries_def comp_def distinct_map inj_on_def)
  then have "length (entries m) = card (set (entries m))"
    by (simp add: distinct_card)
  also have "set (entries m) = (\<lambda>a. (the (key a), a)) ` set xs"
  proof -
    have "(k, a) \<in> set (entries m) \<longleftrightarrow> a \<in> set xs \<and> key a = Some k" for k a
      using map_get_iff [OF ok(1), of k a] assms by (auto simp: reg_ok_def ip_is_map entries_def elems_def)
    moreover have "\<exists>k. key a = Some k" if "a \<in> set xs" for a
      using assms that by (auto simp: reg_ok_def)
    ultimately show ?thesis by force
  qed
  also have "card \<dots> = length xs"
    using d by (subst card_image) (auto simp: inj_on_def distinct_card)
  finally show ?thesis using ok(2) by simp
qed

lemma reg_room:
  assumes "reg_ok mp h l key xs" and "length xs < REG_MAX"
  obtains m where "mp = Some m" and "tight_map m" and "map_room m"
proof -
  obtain m where m: "mp = Some m" "tight_map m" using assms(1) by (auto simp: reg_ok_def)
  with reg_count[of m h l key xs] assms that[of m] show thesis by (simp add: map_room_def REG_MAX_def)
qed

lemma reg_okD:
  assumes "reg_ok mp h l key xs"
  shows "dring h l xs" and "a \<in> set xs \<Longrightarrow> \<exists>k. key a = Some k"
    and "agMap_ip_get mp k = Some a \<longleftrightarrow> a \<in> set xs \<and> key a = Some k"
  using assms by (auto simp: reg_ok_def)

lemma reg_get_None:
  assumes "reg_ok mp h l key xs"
  shows "agMap_ip_get mp k = None \<longleftrightarrow> (\<forall>a \<in> set xs. key a \<noteq> Some k)"
  using reg_okD(3)[OF assms, of k] by (cases "agMap_ip_get mp k") auto

lemma reg_add:
  assumes "reg_ok mp h l key xs" and "length xs < REG_MAX" and "detached h a" and "a \<noteq> 0" and "a \<notin> set xs"
    and "agMap_ip_get mp k = None"
  obtains mp' l' h' where "agMap_ip_set mp k (Some a) = Some (Inr (None, mp'))" and "dlist_insert_tail h l a = Inr (l', h')"
    and "reg_ok mp' h' l' (key(a := Some k)) (xs @ [a])"
    and "\<And>y. y \<notin> set xs \<Longrightarrow> y \<noteq> a \<Longrightarrow> dl_next h' y = dl_next h y \<and> dl_prev h' y = dl_prev h y"
proof -
  obtain m where m: "mp = Some m" "tight_map m" "map_room m"
    by (rule reg_room[OF assms(1,2)])
  obtain m' where m': "agMap_ip_set mp k (Some a) = Some (Inr (None, Some m'))" "tight_map m'"
    "\<And>k'. agMap_ip_get (Some m') k' = (if k' = k then Some a else agMap_ip_get mp k')"
    using ip_set_ok[OF m(2,3), of k "Some a"] assms(6) m(1) by auto
  obtain l' h' where r: "dlist_insert_tail h l a = Inr (l', h')" "dring h' l' (xs @ [a])"
    "\<And>y. y \<notin> set xs \<Longrightarrow> y \<noteq> a \<Longrightarrow> dl_next h' y = dl_next h y \<and> dl_prev h' y = dl_prev h y"
    using dlist_insert_tail_ring[OF reg_okD(1)[OF assms(1)] assms(3,4,5)] by blast
  have "\<forall>b \<in> set xs. key b \<noteq> Some k"
    using reg_get_None[OF assms(1), of k] assms(6) by simp
  then have "reg_ok (Some m') h' l' (key(a := Some k)) (xs @ [a])"
    using assms(1,5) m'(2,3) r(2) reg_okD(3)[OF assms(1)] by (auto simp: reg_ok_def)
  with that[OF m'(1) r(1)] r(3) show thesis by blast
qed

lemma reg_del:
  assumes "reg_ok mp h l key xs" and "length xs < REG_MAX" and "a \<in> set xs" and "key a = Some k"
  obtains mp' l' h' where "agMap_ip_set mp k None = Some (Inr (Some a, mp'))" and "dlist_remove h l a = Inr (l', h')"
    and "reg_ok mp' h' l' (key(a := None)) (remove1 a xs)" and "detached h' a"
    and "\<And>y. y \<notin> set xs \<Longrightarrow> dl_next h' y = dl_next h y \<and> dl_prev h' y = dl_prev h y"
proof -
  obtain m where m: "mp = Some m" "tight_map m" "map_room m"
    by (rule reg_room[OF assms(1,2)])
  have get: "agMap_ip_get mp k = Some a"
    using reg_okD(3)[OF assms(1)] assms(3,4) by simp
  obtain m' where m': "agMap_ip_set mp k None = Some (Inr (Some a, Some m'))" "tight_map m'"
    "\<And>k'. agMap_ip_get (Some m') k' = (if k' = k then None else agMap_ip_get mp k')"
    using ip_set_ok[OF m(2,3), of k None] get m(1) by auto
  obtain l' h' where r: "dlist_remove h l a = Inr (l', h')" "dring h' l' (remove1 a xs)" "detached h' a"
    "\<And>y. y \<notin> set xs \<Longrightarrow> dl_next h' y = dl_next h y \<and> dl_prev h' y = dl_prev h y"
    using dlist_remove_ring[OF reg_okD(1)[OF assms(1)] assms(3)] by blast
  have d: "distinct xs" using reg_okD(1)[OF assms(1)] by (simp add: dring_def)
  have uniq: "b = a" if "b \<in> set xs" "key b = Some k" for b
    using reg_okD(3)[OF assms(1), of k b] get that by simp
  have look: "agMap_ip_get (Some m') q = Some b \<longleftrightarrow> b \<in> set (remove1 a xs) \<and> (key(a := None)) b = Some q" for q b
  proof (cases "q = k")
    case True
    then have "agMap_ip_get (Some m') q = None" using m'(3)[of q] by simp
    moreover have "\<not> (b \<in> set (remove1 a xs) \<and> (key(a := None)) b = Some q)"
      using uniq[of b] True d notin_set_remove1[of b xs a] by (cases "b = a") auto
    ultimately show ?thesis by simp
  next
    case False
    then show ?thesis using m'(3)[of q] reg_okD(3)[OF assms(1), of q b] assms(4) d by (cases "b = a") simp_all
  qed
  have "\<forall>b \<in> set (remove1 a xs). (key(a := None)) b \<noteq> None"
    using assms(1) d by (auto simp: reg_ok_def)
  with look have "reg_ok (Some m') h' l' (key(a := None)) (remove1 a xs)"
    using m'(2) r(2) unfolding reg_ok_def by blast
  with that[OF m'(1) r(1)] r(3,4) show thesis by blast
qed

text \<open>Moving an object to the end of the list.\<close>

lemma reg_touch:
  assumes "reg_ok mp h l key xs" and "a \<in> set xs"
  obtains l1 h1 l' h' where "dlist_remove h l a = Inr (l1, h1)" and "dlist_insert_tail h1 l1 a = Inr (l', h')"
    and "reg_ok mp h' l' key (remove1 a xs @ [a])"
    and "\<And>y. y \<notin> set xs \<Longrightarrow> dl_next h' y = dl_next h y \<and> dl_prev h' y = dl_prev h y"
proof -
  obtain l1 h1 where r: "dlist_remove h l a = Inr (l1, h1)" "dring h1 l1 (remove1 a xs)" "detached h1 a"
    "\<And>y. y \<notin> set xs \<Longrightarrow> dl_next h1 y = dl_next h y \<and> dl_prev h1 y = dl_prev h y"
    using dlist_remove_ring[OF reg_okD(1)[OF assms(1)] assms(2)] by blast
  have d: "distinct xs" "0 \<notin> set xs" using reg_okD(1)[OF assms(1)] by (simp_all add: dring_def)
  then have a: "a \<noteq> 0" "a \<notin> set (remove1 a xs)" using assms(2) by (auto intro: ccontr)
  obtain l' h' where i: "dlist_insert_tail h1 l1 a = Inr (l', h')" "dring h' l' (remove1 a xs @ [a])"
    "\<And>y. y \<notin> set (remove1 a xs) \<Longrightarrow> y \<noteq> a \<Longrightarrow> dl_next h' y = dl_next h1 y \<and> dl_prev h' y = dl_prev h1 y"
    using dlist_insert_tail_ring[OF r(2,3) a] by blast
  have set: "set (remove1 a xs @ [a]) = set xs"
    using d assms(2) by auto
  have "reg_ok mp h' l' key (remove1 a xs @ [a])"
    using assms(1) i(2) unfolding reg_ok_def set by blast
  moreover have "dl_next h' y = dl_next h y \<and> dl_prev h' y = dl_prev h y" if "y \<notin> set xs" for y
    using that r(4)[OF that] i(3)[of y] set by auto
  ultimately show thesis using that[OF r(1) i(1)] by blast
qed

text \<open>An object that is not registered may be changed freely.\<close>

lemma reg_ok_cong:
  assumes "reg_ok mp h l key xs" and "\<And>a. a \<in> set xs \<Longrightarrow> key' a = key a"
    and "\<And>a. a \<in> set xs \<Longrightarrow> dl_next h' a = dl_next h a \<and> dl_prev h' a = dl_prev h a"
  shows "reg_ok mp h' l key' xs"
proof -
  have "dring h' l xs" using dring_cong[of xs h' h l] assms(1,3) by (auto simp: reg_ok_def)
  then show ?thesis using assms(1,2) unfolding reg_ok_def by auto
qed

lemma reg_empty:
  assumes "tight_map m" and "elems m = {}"
  shows "reg_ok (Some m) h 0 key []"
  using assms map_get_iff[of "\<lambda>k. k" m] by (auto simp: reg_ok_def dring_def ip_is_map tight_map_def)

end
