(* ===== verification/NetConn.thy ===== *)
theory NetConn
  imports Buffer
begin

text \<open>
  The byte streams of one connection of \<^verbatim>\<open>src/framework/network.c\<close>: sending through the write buffer
  (\<open>_agN_send\<close>, \<open>_agN_writev\<close>, \<open>do_conn_write\<close>) and receiving through the read buffer
  (\<open>do_conn_read\<close>, \<open>process_conn_message\<close>).

  What the kernel answers is an argument: the number of bytes that \<open>send\<close> and \<open>writev\<close> take (negative for
  an error), whether \<open>epoll_ctl\<close> succeeds, and the list of results that \<open>recv\<close> will give. An operation
  that gives bytes to the kernel returns them. The message handlers are the argument
  \<open>h\<close>: for a connection, a function on the connection and the rest of the world. \<open>g\<close> and the results of allocations are those of the theory \<open>Buffer\<close>.
\<close>

section \<open>Connections\<close>

datatype conn_status =
  cs_closed | cs_listening | cs_connecting | cs_connected | cs_closing | cs_connected_wait_cb

type_synonym resid_t = u32

record conn =
  c_next :: "nat option"
  in_active_list :: bool
  c_id :: resid_t
  c_status :: conn_status
  c_fd :: int
  c_events :: nat
  c_rbuf :: "buffer option"
  c_wbuf :: "buffer option"
  c_handler :: nat
  c_ctx :: nat

definition EPOLLIN :: nat where "EPOLLIN = 1"
definition EPOLLOUT :: nat where "EPOLLOUT = 4"

definition DEFAULT_BUFFER_SIZE :: nat where
  "DEFAULT_BUFFER_SIZE = 1024"

text \<open>The status 0 of \<open>epoll_ctl\<close> is \<open>True\<close>.\<close>

definition conn_set_event :: "bool \<Rightarrow> conn \<Rightarrow> nat \<Rightarrow> bool \<times> conn" where
  "conn_set_event ctl c events =
     (if events = c_events c then (True, c)
      else if ctl then (True, c\<lparr>c_events := events\<rparr>)
      else (False, c))"

definition wbuf_size :: "conn \<Rightarrow> nat res" where
  "wbuf_size c = (case c_wbuf c of None \<Rightarrow> Inr 0 | Some b \<Rightarrow> agB_size b)"

section \<open>Sending\<close>

text \<open>The bytes that go to the kernel at once: only when nothing is waiting, and only if \<open>send\<close> took some.\<close>

definition send_now :: "int \<Rightarrow> nat \<Rightarrow> byte list \<Rightarrow> byte list \<times> byte list" where
  "send_now ret waiting buff =
     (if waiting = 0 \<and> ret > 0 then (take (nat ret) buff, drop (nat ret) buff) else ([], buff))"

text \<open>\<open>_agN_send\<close> on the connection that \<open>_agR_get\<close> found: the status (0 is \<open>True\<close>, -1 is
  \<open>False\<close>), the bytes given to the kernel and the connection.\<close>

definition agN_send ::
  "(nat \<Rightarrow> byte) \<Rightarrow> bool \<Rightarrow> bool \<Rightarrow> bool \<Rightarrow> int \<Rightarrow> conn option \<Rightarrow> byte list
    \<Rightarrow> (bool \<times> byte list \<times> conn option) res option" where
  "agN_send g mem_new mem_grow ctl ret conn buff =
     (case conn of
        None \<Rightarrow> Some (Inr (False, [], None))
      | Some c \<Rightarrow>
          if c_status c \<noteq> cs_connected then Some (Inr (False, [], Some c))
          else if buff = [] then
            (let (r, c) = conn_set_event ctl c (EPOLLIN + EPOLLOUT) in Some (Inr (r, [], Some c)))
          else case wbuf_size c of
            Inl f \<Rightarrow> Some (Inl f)
          | Inr waiting \<Rightarrow>
              let (sent, buff) = send_now ret waiting buff
              in if buff = [] then Some (Inr (True, sent, Some c))
                 else case (case c_wbuf c of None \<Rightarrow> agB_new g mem_new DEFAULT_BUFFER_SIZE | Some b \<Rightarrow> Some b) of
                   None \<Rightarrow> Some (Inr (False, sent, Some c))
                 | Some b \<Rightarrow>
                     (case agB_buffer g mem_grow b (length buff) of
                        None \<Rightarrow> None
                      | Some (Inl f) \<Rightarrow> Some (Inl f)
                      | Some (Inr (None, b)) \<Rightarrow> Some (Inr (False, sent, Some (c\<lparr>c_wbuf := Some b\<rparr>)))
                      | Some (Inr (Some ptr, b)) \<Rightarrow>
                          let b = b\<lparr>buf_data := store_at (buf_data b) ptr buff\<rparr>;
                              c = c\<lparr>c_wbuf := Some b\<rparr>
                          in Some (Inr (True, sent, Some (snd (conn_set_event ctl c (EPOLLIN + EPOLLOUT)))))))"

text \<open>The loop of \<open>_agN_writev\<close> that takes what \<open>writev\<close> has written off the front of the vector.\<close>

fun consume_iov :: "int \<Rightarrow> byte list list \<Rightarrow> byte list list" where
  "consume_iov ret [] = []"
| "consume_iov ret (v # vs) =
     (if \<not> ret > 0 then v # vs
      else if ret > int (length v) then [] # consume_iov (ret - int (length v)) vs
      else drop (nat ret) v # vs)"

text \<open>The loop that puts the rest of the vector into the write buffer. The status of \<open>_agB_write\<close> is
  ignored by the code.\<close>

fun write_iov ::
  "(nat \<Rightarrow> byte) \<Rightarrow> bool \<Rightarrow> bool \<Rightarrow> conn \<Rightarrow> byte list list \<Rightarrow> (bool \<times> conn) res option" where
  "write_iov g mem_new mem_grow c [] = Some (Inr (True, c))"
| "write_iov g mem_new mem_grow c (v # vs) =
     (if v = [] then write_iov g mem_new mem_grow c vs
      else case (case c_wbuf c of None \<Rightarrow> agB_new g mem_new DEFAULT_BUFFER_SIZE | Some b \<Rightarrow> Some b) of
        None \<Rightarrow> Some (Inr (False, c))
      | Some b \<Rightarrow>
          (case agB_write g mem_grow b v (length v) of
             None \<Rightarrow> None
           | Some (Inl f) \<Rightarrow> Some (Inl f)
           | Some (Inr (_, b)) \<Rightarrow> write_iov g mem_new mem_grow (c\<lparr>c_wbuf := Some b\<rparr>) vs))"

definition agN_writev ::
  "(nat \<Rightarrow> byte) \<Rightarrow> bool \<Rightarrow> bool \<Rightarrow> bool \<Rightarrow> int \<Rightarrow> conn option \<Rightarrow> byte list list
    \<Rightarrow> (bool \<times> byte list \<times> conn option) res option" where
  "agN_writev g mem_new mem_grow ctl ret conn iov =
     (case conn of
        None \<Rightarrow> Some (Inr (False, [], None))
      | Some c \<Rightarrow>
          if c_status c \<noteq> cs_connected then Some (Inr (False, [], Some c))
          else case wbuf_size c of
            Inl f \<Rightarrow> Some (Inl f)
          | Inr waiting \<Rightarrow>
              let sent = (if waiting = 0 then take (nat ret) (concat iov) else []);
                  iov = (if waiting = 0 then consume_iov ret iov else iov)
              in case write_iov g mem_new mem_grow c iov of
                   None \<Rightarrow> None
                 | Some (Inl f) \<Rightarrow> Some (Inl f)
                 | Some (Inr (False, c)) \<Rightarrow> Some (Inr (False, sent, Some c))
                 | Some (Inr (True, c)) \<Rightarrow>
                     (case wbuf_size c of
                        Inl f \<Rightarrow> Some (Inl f)
                      | Inr n \<Rightarrow>
                          Some (Inr (True, sent,
                            Some (if n > 0 then snd (conn_set_event ctl c (EPOLLIN + EPOLLOUT)) else c)))))"

text \<open>\<open>do_conn_write\<close>, called when the socket can be written to.\<close>

definition do_conn_write :: "bool \<Rightarrow> int \<Rightarrow> conn \<Rightarrow> (byte list \<times> conn) res" where
  "do_conn_write ctl ret c =
     (if c_status c \<noteq> cs_connected then Inr ([], c)
      else case c_wbuf c of
        None \<Rightarrow> Inr ([], snd (conn_set_event ctl c EPOLLIN))
      | Some b \<Rightarrow>
          (case agB_size b of
             Inl f \<Rightarrow> Inl f
           | Inr s \<Rightarrow>
               (case (if s > 0
                      then (case agB_peek b s of
                              Inl f \<Rightarrow> Inl f
                            | Inr None \<Rightarrow> Inl NullDeref
                            | Inr (Some ptr) \<Rightarrow>
                                if ret > 0
                                then (case agB_read b (nat ret) of
                                        Inl f \<Rightarrow> Inl f
                                      | Inr (_, b) \<Rightarrow> Inr (take (nat ret) (take s ptr), c\<lparr>c_wbuf := Some b\<rparr>))
                                else Inr ([], c))
                      else Inr ([], c)) of
                  Inl f \<Rightarrow> Inl f
                | Inr (sent, c) \<Rightarrow>
                    (case wbuf_size c of
                       Inl f \<Rightarrow> Inl f
                     | Inr n \<Rightarrow> Inr (sent, if n = 0 then snd (conn_set_event ctl c EPOLLIN) else c)))))"

section \<open>What is waiting to be sent\<close>

definition wr_pending :: "conn \<Rightarrow> byte list" where
  "wr_pending c = (case c_wbuf c of None \<Rightarrow> [] | Some b \<Rightarrow> pending b)"

definition rd_pending :: "conn \<Rightarrow> byte list" where
  "rd_pending c = (case c_rbuf c of None \<Rightarrow> [] | Some b \<Rightarrow> pending b)"

definition conn_ok :: "conn \<Rightarrow> bool" where
  "conn_ok c \<longleftrightarrow> (case c_wbuf c of None \<Rightarrow> True | Some b \<Rightarrow> buf_ok b) \<and> (case c_rbuf c of None \<Rightarrow> True | Some b \<Rightarrow> buf_ok b)"

lemma agB_size_ok: "buf_ok b \<Longrightarrow> agB_size b = Inr (length (pending b))"
  by (simp add: agB_size_def buf_ok_def)

lemma take_pending: "buf_ok b \<Longrightarrow> take (length (pending b)) (drop (rpos b) (buf_data b)) = pending b"
  unfolding length_pending by (simp add: pending_def)

lemma agB_peek_ok: "buf_ok b \<Longrightarrow> agB_peek b (length (pending b)) = Inr (Some (drop (rpos b) (buf_data b)))"
  by (simp add: agB_peek_def buf_ok_def)

lemma wbuf_size_ok: "conn_ok c \<Longrightarrow> wbuf_size c = Inr (length (wr_pending c))"
  by (simp add: wbuf_size_def wr_pending_def conn_ok_def agB_size_ok split: option.splits)

lemma set_event_sel [simp]:
  "c_wbuf (snd (conn_set_event ctl c ev)) = c_wbuf c" "c_rbuf (snd (conn_set_event ctl c ev)) = c_rbuf c"
  "c_status (snd (conn_set_event ctl c ev)) = c_status c" "c_fd (snd (conn_set_event ctl c ev)) = c_fd c"
  by (simp_all add: conn_set_event_def)

lemma set_event_pending [simp]:
  "wr_pending (snd (conn_set_event ctl c ev)) = wr_pending c" "rd_pending (snd (conn_set_event ctl c ev)) = rd_pending c"
  "conn_ok (snd (conn_set_event ctl c ev)) = conn_ok c"
  by (simp_all add: wr_pending_def rd_pending_def conn_ok_def)

text \<open>The buffer that the code makes on first use.\<close>

lemma wbuf_get:
  assumes "conn_ok c"
  shows "\<exists>b. (case c_wbuf c of None \<Rightarrow> agB_new g True DEFAULT_BUFFER_SIZE | Some b \<Rightarrow> Some b) = Some b
    \<and> buf_ok b \<and> pending b = wr_pending c"
proof (cases "c_wbuf c")
  case None
  then show ?thesis
    using agB_new_ok[of DEFAULT_BUFFER_SIZE g] by (auto simp: DEFAULT_BUFFER_SIZE_def wr_pending_def)
qed (use assms in \<open>simp add: conn_ok_def wr_pending_def\<close>)

lemma send_now_split:
  "\<exists>sent rest. send_now ret (length p) buff = (sent, rest) \<and> sent @ p @ rest = p @ buff \<and> length rest \<le> length buff"
  by (cases "p = [] \<and> 0 < ret") (auto simp: send_now_def)

lemma agN_send_stream:
  assumes "conn_ok c" and "c_status c = cs_connected" and "length (wr_pending c) + length buff \<le> 2 ^ 63"
  shows "\<exists>sent c'. agN_send g True True ctl ret (Some c) buff = Some (Inr (if buff = [] then fst (conn_set_event ctl c (EPOLLIN + EPOLLOUT)) else True, sent, Some c'))
    \<and> sent @ wr_pending c' = wr_pending c @ buff \<and> conn_ok c' \<and> c_status c' = cs_connected \<and> c_rbuf c' = c_rbuf c"
proof -
  obtain sent rest where s: "send_now ret (length (wr_pending c)) buff = (sent, rest)"
    "sent @ wr_pending c @ rest = wr_pending c @ buff" "length rest \<le> length buff"
    using send_now_split[of ret "wr_pending c" buff] by auto
  obtain b where b: "(case c_wbuf c of None \<Rightarrow> agB_new g True DEFAULT_BUFFER_SIZE | Some b \<Rightarrow> Some b) = Some b"
    "buf_ok b" "pending b = wr_pending c"
    using wbuf_get[OF assms(1)] by blast
  have len: "length (pending b) + length rest \<le> 2 ^ 63"
    using assms(3) s(3) b(3) by simp
  obtain p d where d: "agB_buffer g True b (length rest) = Some (Inr (Some p, d))"
    and b': "buf_ok (d\<lparr>buf_data := store_at (buf_data d) p rest\<rparr>)"
      "pending (d\<lparr>buf_data := store_at (buf_data d) p rest\<rparr>) = pending b @ rest"
  proof -
    obtain p c where c: "agB_buffer g True b (length rest) = Some (Inr (Some p, c\<lparr>wpos := p + length rest\<rparr>))"
      using agB_buffer_ok[OF b(2) len] by blast
    moreover obtain b1 where "agB_write g True b rest (length rest) = Some (Inr (True, b1))" "buf_ok b1" "pending b1 = pending b @ rest"
      using agB_write_ok[OF b(2) len] by blast
    ultimately show thesis
      using that[of p "c\<lparr>wpos := p + length rest\<rparr>"] by (auto simp: agB_write_def)
  qed
  show ?thesis
  proof (cases "buff = [] \<or> rest = []")
    case True
    then show ?thesis
      using assms(1,2) s by (auto simp: agN_send_def wbuf_size_ok case_prod_beta)
  next
    case False
    let ?c = "c\<lparr>c_wbuf := Some (d\<lparr>buf_data := store_at (buf_data d) p rest\<rparr>)\<rparr>"
    have "agN_send g True True ctl ret (Some c) buff
        = Some (Inr (True, sent, Some (snd (conn_set_event ctl ?c (EPOLLIN + EPOLLOUT)))))"
      using assms(1,2) s(1) False b(1) d by (simp add: agN_send_def wbuf_size_ok)
    moreover have "sent @ wr_pending ?c = wr_pending c @ buff" "conn_ok ?c"
      using s(2) b' b(3) assms(1) by (auto simp: wr_pending_def[of ?c] conn_ok_def)
    ultimately show ?thesis
      using False assms(2) by auto
  qed
qed

lemma concat_consume_iov: "concat (consume_iov ret iov) = drop (nat ret) (concat iov)"
proof (induction ret iov rule: consume_iov.induct)
  case (2 ret v vs)
  then show ?case by (auto simp: nat_diff_distrib')
qed simp

lemma write_iov_stream:
  assumes "conn_ok c" and "length (wr_pending c) + length (concat iov) \<le> 2 ^ 63"
  shows "\<exists>c'. write_iov g True True c iov = Some (Inr (True, c')) \<and> wr_pending c' = wr_pending c @ concat iov
    \<and> conn_ok c' \<and> c_status c' = c_status c \<and> c_rbuf c' = c_rbuf c \<and> c_fd c' = c_fd c"
  using assms
proof (induction iov arbitrary: c)
  case (Cons v vs)
  obtain b where b: "(case c_wbuf c of None \<Rightarrow> agB_new g True DEFAULT_BUFFER_SIZE | Some b \<Rightarrow> Some b) = Some b"
    "buf_ok b" "pending b = wr_pending c"
    using wbuf_get[OF Cons.prems(1)] by blast
  obtain b' where b': "agB_write g True b v (length v) = Some (Inr (True, b'))" "buf_ok b'" "pending b' = pending b @ v"
    using agB_write_ok[OF b(2), of v g] Cons.prems(2) b(3) by auto
  let ?c = "c\<lparr>c_wbuf := Some b'\<rparr>"
  have "conn_ok ?c" "wr_pending ?c = wr_pending c @ v"
    using Cons.prems(1) b' b(3) by (simp_all add: conn_ok_def wr_pending_def)
  with Cons.IH[of c] Cons.IH[of ?c] Cons.prems b b'(1) show ?case
    by (cases "v = []") auto
qed auto

lemma agN_writev_stream:
  assumes "conn_ok c" and "c_status c = cs_connected" and "length (wr_pending c) + length (concat iov) \<le> 2 ^ 63"
  shows "\<exists>sent c'. agN_writev g True True ctl ret (Some c) iov = Some (Inr (True, sent, Some c'))
    \<and> sent @ wr_pending c' = wr_pending c @ concat iov \<and> conn_ok c' \<and> c_status c' = cs_connected \<and> c_rbuf c' = c_rbuf c
    \<and> c_fd c' = c_fd c"
proof -
  define sent where "sent = (if wr_pending c = [] then take (nat ret) (concat iov) else [])"
  define rest where "rest = (if wr_pending c = [] then consume_iov ret iov else iov)"
  have s: "sent @ wr_pending c @ concat rest = wr_pending c @ concat iov" "length (concat rest) \<le> length (concat iov)"
    by (simp_all add: sent_def rest_def concat_consume_iov)
  obtain c' where c': "write_iov g True True c rest = Some (Inr (True, c'))" "wr_pending c' = wr_pending c @ concat rest"
    "conn_ok c'" "c_status c' = c_status c" "c_rbuf c' = c_rbuf c" "c_fd c' = c_fd c"
    using write_iov_stream[OF assms(1), of rest g] assms(3) s(2) by auto
  have "agN_writev g True True ctl ret (Some c) iov
      = Some (Inr (True, sent, Some (if wr_pending c' \<noteq> [] then snd (conn_set_event ctl c' (EPOLLIN + EPOLLOUT)) else c')))"
    using assms(1,2) c'(1) wbuf_size_ok[OF c'(3)]
    by (simp add: agN_writev_def wbuf_size_ok sent_def rest_def Let_def)
  with c' s(1) assms(2) show ?thesis by auto
qed

lemma do_conn_write_stream:
  assumes "conn_ok c" and "ret \<le> int (length (wr_pending c))"
  shows "\<exists>sent c'. do_conn_write ctl ret c = Inr (sent, c') \<and> sent @ wr_pending c' = wr_pending c \<and> conn_ok c'
    \<and> c_status c' = c_status c \<and> c_rbuf c' = c_rbuf c
    \<and> (c_status c = cs_connected \<longrightarrow> ret > 0 \<longrightarrow> length sent = nat ret)"
proof (cases "c_status c = cs_connected \<and> wr_pending c \<noteq> [] \<and> ret > 0")
  case False
  have nr: "c_status c = cs_connected \<longrightarrow> \<not> ret > 0"
    using False assms(2) by auto
  have "do_conn_write ctl ret c \<in> {Inr ([], c), Inr ([], snd (conn_set_event ctl c EPOLLIN))}"
  proof (cases "c_wbuf c")
    case (Some b)
    then have b: "buf_ok b" "wr_pending c = pending b"
      using assms(1) by (simp_all add: conn_ok_def wr_pending_def)
    with nr Some show ?thesis
      using agB_peek_ok[OF b(1)] wbuf_size_ok[OF assms(1)] agB_size_ok[OF b(1)] by (auto simp: do_conn_write_def)
  qed (simp add: do_conn_write_def)
  with nr show ?thesis
    using assms(1) by auto
next
  case True
  then obtain b where b: "c_wbuf c = Some b" "pending b = wr_pending c" "buf_ok b"
    using assms(1) by (auto simp: wr_pending_def conn_ok_def split: option.splits)
  have "nat ret \<le> length (pending b)"
    using assms(2) b(2) True by simp
  then obtain q b' where r: "agB_read b (nat ret) = Inr (Some q, b')" "buf_ok b'" "pending b' = drop (nat ret) (pending b)"
    using agB_read_ok[OF b(3), of "nat ret"] by blast
  let ?c = "c\<lparr>c_wbuf := Some b'\<rparr>"
  have ok: "conn_ok ?c" "wr_pending ?c = drop (nat ret) (wr_pending c)"
    using assms(1) r(2,3) b(2) by (simp_all add: conn_ok_def wr_pending_def)
  have peek: "agB_peek b (length (wr_pending c)) = Inr (Some (drop (rpos b) (buf_data b)))"
    using agB_peek_ok[OF b(3)] by (simp add: b(2))
  have pend: "take (length (wr_pending c)) (drop (rpos b) (buf_data b)) = wr_pending c"
    using take_pending[OF b(3)] by (simp add: b(2))
  have "do_conn_write ctl ret c = Inr (take (nat ret) (wr_pending c),
      if drop (nat ret) (wr_pending c) = [] then snd (conn_set_event ctl ?c EPOLLIN) else ?c)"
    using True b(1) r(1) peek pend wbuf_size_ok[OF ok(1)] ok(2) agB_size_ok[OF b(3)]
    by (simp add: do_conn_write_def b(2))
  with ok True assms(2) show ?thesis by (auto simp: min_def)
qed

section \<open>The output stream\<close>

text \<open>A connection with the bytes the kernel has taken from it and the bytes its users have sent.
  The memory is sufficient, and the kernel never takes more than it is offered.\<close>

record wire =
  w_conn :: conn
  w_out :: "byte list"
  w_sent :: "byte list"

inductive out_step :: "wire \<Rightarrow> wire \<Rightarrow> bool" where
  Send: "agN_send g True True ctl ret (Some (w_conn w)) buff = Some (Inr (st, sent, Some c)) \<Longrightarrow>
    c_status (w_conn w) = cs_connected \<Longrightarrow> length (wr_pending (w_conn w)) + length buff \<le> 2 ^ 63 \<Longrightarrow>
    out_step w \<lparr>w_conn = c, w_out = w_out w @ sent, w_sent = w_sent w @ buff\<rparr>"
| Writev: "agN_writev g True True ctl ret (Some (w_conn w)) iov = Some (Inr (st, sent, Some c)) \<Longrightarrow>
    c_status (w_conn w) = cs_connected \<Longrightarrow> length (wr_pending (w_conn w)) + length (concat iov) \<le> 2 ^ 63 \<Longrightarrow>
    out_step w \<lparr>w_conn = c, w_out = w_out w @ sent, w_sent = w_sent w @ concat iov\<rparr>"
| Drain: "do_conn_write ctl ret (w_conn w) = Inr (sent, c) \<Longrightarrow> ret \<le> int (length (wr_pending (w_conn w))) \<Longrightarrow>
    out_step w \<lparr>w_conn = c, w_out = w_out w @ sent, w_sent = w_sent w\<rparr>"

inductive_cases out_stepE: "out_step w w'"

definition wire_ok :: "wire \<Rightarrow> bool" where
  "wire_ok w \<longleftrightarrow> conn_ok (w_conn w) \<and> w_out w @ wr_pending (w_conn w) = w_sent w"

lemma out_step_ok:
  assumes "out_step w w'" and "wire_ok w"
  shows "wire_ok w'"
  using assms(1)
proof cases
  case (Send g ctl ret buff st sent c)
  with agN_send_stream[of "w_conn w" buff g ctl ret] assms(2) show ?thesis
    by (auto simp: wire_ok_def)
next
  case (Writev g ctl ret iov st sent c)
  with agN_writev_stream[of "w_conn w" iov g ctl ret] assms(2) show ?thesis
    by (auto simp: wire_ok_def)
next
  case (Drain ctl ret sent c)
  with do_conn_write_stream[of "w_conn w" ret ctl] assms(2) show ?thesis
    by (auto simp: wire_ok_def)
qed

section \<open>Receiving\<close>

type_synonym 'w on_message = "byte list \<Rightarrow> conn \<times> 'w \<Rightarrow> (nat \<times> conn \<times> 'w) res option"

text \<open>The handler of a connection is looked up anew before every call, since the handler itself may
  replace it; \<open>None\<close> is a null pointer.\<close>

type_synonym 'w handlers = "conn \<Rightarrow> 'w on_message option"

text \<open>The handler is called on the rest of the data until it returns 0 or more than there is, or the
  connection is no longer connected. The first component is the number of bytes consumed.\<close>

function process_loop :: "'w handlers \<Rightarrow> byte list \<Rightarrow> nat \<Rightarrow> conn \<times> 'w \<Rightarrow> (nat \<times> conn \<times> 'w) res option" where
  "process_loop h data tsize cw =
     (if data = [] then Some (Inr (tsize, cw))
      else case h (fst cw) of
        None \<Rightarrow> Some (Inl NullDeref)
      | Some on_message \<Rightarrow>
          (case on_message data cw of
             None \<Rightarrow> None
           | Some (Inl f) \<Rightarrow> Some (Inl f)
           | Some (Inr (s, c, w)) \<Rightarrow>
               if s = 0 \<or> s > length data \<or> c_status c \<noteq> cs_connected then Some (Inr (tsize, c, w))
               else process_loop h (drop s data) (tsize + s) (c, w)))"
  by pat_completeness auto
termination
  by (relation "measure (\<lambda>(_, data, _, _). length data)") auto

declare process_loop.simps [simp del]

definition process_conn_message ::
  "'w handlers \<Rightarrow> byte list \<Rightarrow> conn \<times> 'w \<Rightarrow> (nat \<times> conn \<times> 'w) res option" where
  "process_conn_message h data cw =
     (if h (fst cw) = None then Some (Inr (length data, cw)) else process_loop h data 0 cw)"

datatype recv_result = Data "byte list" | Eof | Interrupted | WouldBlock | RecvError int

text \<open>The part of the loop that handles the bytes waiting in the read buffer.\<close>

definition process_rbuf :: "'w handlers \<Rightarrow> buffer \<Rightarrow> conn \<times> 'w \<Rightarrow> (conn \<times> 'w) res option" where
  "process_rbuf h b cw =
     (case agB_size b of
        Inl f \<Rightarrow> Some (Inl f)
      | Inr sz \<Rightarrow>
          (case agB_peek b sz of
             Inl f \<Rightarrow> Some (Inl f)
           | Inr None \<Rightarrow> Some (Inl NullDeref)
           | Inr (Some ptr) \<Rightarrow>
               run_bind (process_conn_message h (take sz ptr) cw) (\<lambda>(s, c, w).
                 if \<not> s \<le> sz then Some (Inl Assertion)
                 else if c_status c \<noteq> cs_connected then Some (Inr (c, w))
                 else case c_rbuf c of
                   None \<Rightarrow> Some (Inl NullDeref)
                 | Some b \<Rightarrow>
                     (case agB_read b s of
                        Inl f \<Rightarrow> Some (Inl f)
                      | Inr (_, b) \<Rightarrow> Some (Inr (c\<lparr>c_rbuf := Some b\<rparr>, w))))))"

text \<open>One \<open>recv\<close> that returned \<open>buff\<close>.\<close>

definition recv_data ::
  "(nat \<Rightarrow> byte) \<Rightarrow> 'w handlers \<Rightarrow> byte list \<Rightarrow> conn \<times> 'w \<Rightarrow> (conn \<times> 'w) res option" where
  "recv_data g h buff cw =
     (if h (fst cw) = None then Some (Inr cw)
      else case (case c_rbuf (fst cw) of None \<Rightarrow> Inr 0 | Some b \<Rightarrow> agB_size b) of
        Inl f \<Rightarrow> Some (Inl f)
      | Inr n \<Rightarrow>
          if n = 0 then
            run_bind (process_conn_message h buff cw) (\<lambda>(s, c, w).
              if \<not> s \<le> length buff then Some (Inl Assertion)
              else if c_status c \<noteq> cs_connected then Some (Inr (c, w))
              else if s < length buff then
                (case (case c_rbuf c of None \<Rightarrow> agB_new g True DEFAULT_BUFFER_SIZE | Some b \<Rightarrow> Some b) of
                   None \<Rightarrow> Some (Inl NullDeref)
                 | Some b \<Rightarrow>
                     run_bind (agB_write g True b (drop s buff) (length buff - s)) (\<lambda>(_, b).
                       Some (Inr (c\<lparr>c_rbuf := Some b\<rparr>, w))))
              else Some (Inr (c, w)))
          else
            (case c_rbuf (fst cw) of
               None \<Rightarrow> Some (Inl NullDeref)
             | Some b \<Rightarrow>
                 run_bind (agB_write g True b buff (length buff)) (\<lambda>(_, b).
                   process_rbuf h b ((fst cw)\<lparr>c_rbuf := Some b\<rparr>, snd cw))))"

text \<open>\<open>do_conn_read\<close>: \<open>rs\<close> are the results that \<open>recv\<close> gives in turn, \<open>bits\<close> the bytes received so far. How
  the loop was left is reported to the caller, which calls the \<open>on_closed\<close> handler and \<open>_agN_close\<close>: at the
  end of the stream with 0, after an error with its number. \<open>None\<close>: more results are needed. Where
  nothing was handled the connection is still connected, so one test of the status serves both branches.\<close>

datatype read_end = Done | Closed int

fun read_conn_loop ::
  "(nat \<Rightarrow> byte) \<Rightarrow> 'w handlers \<Rightarrow> nat \<Rightarrow> recv_result list \<Rightarrow> conn \<times> 'w
    \<Rightarrow> (read_end \<times> conn \<times> 'w) res option" where
  "read_conn_loop g h bits [] cw = (if bits < 1024 * 10 then None else Some (Inr (Done, cw)))"
| "read_conn_loop g h bits (r # rs) cw =
     (if \<not> bits < 1024 * 10 then Some (Inr (Done, cw))
      else case r of
        Eof \<Rightarrow> Some (Inr (Closed 0, cw))
      | Interrupted \<Rightarrow> read_conn_loop g h bits rs cw
      | WouldBlock \<Rightarrow>
          (case c_rbuf (fst cw) of
             None \<Rightarrow> Some (Inr (Done, cw))
           | Some b \<Rightarrow>
               (case agB_size b of
                  Inl f \<Rightarrow> Some (Inl f)
                | Inr n \<Rightarrow>
                    if n > 0
                    then run_bind (process_rbuf h b cw) (\<lambda>cw. Some (Inr (Done, cw)))
                    else Some (Inr (Done, cw))))
      | RecvError e \<Rightarrow> Some (Inr (Closed e, cw))
      | Data buff \<Rightarrow>
          (case recv_data g h buff cw of
             None \<Rightarrow> None
           | Some (Inl f) \<Rightarrow> Some (Inl f)
           | Some (Inr (c, w)) \<Rightarrow>
               if h (fst cw) \<noteq> None \<and> c_status c \<noteq> cs_connected then Some (Inr (Done, c, w))
               else read_conn_loop g h (bits + length buff) rs (c, w)))"

definition do_conn_read ::
  "(nat \<Rightarrow> byte) \<Rightarrow> 'w handlers \<Rightarrow> recv_result list \<Rightarrow> conn \<times> 'w
    \<Rightarrow> (read_end \<times> conn \<times> 'w) res option" where
  "do_conn_read g h rs cw =
     (if c_status (fst cw) \<noteq> cs_connected then Some (Inr (Done, cw)) else read_conn_loop g h 0 rs cw)"

section \<open>Messages of a stream\<close>

text \<open>Cutting a byte list into messages with a function that gives the length of the first message, 0
  when it is not complete: the messages and what is left.\<close>

function cut_frames :: "(byte list \<Rightarrow> nat) \<Rightarrow> byte list \<Rightarrow> byte list list \<times> byte list" where
  "cut_frames frame d =
     (if frame d = 0 \<or> frame d > length d then ([], d)
      else let (fs, r) = cut_frames frame (drop (frame d) d) in (take (frame d) d # fs, r))"
  by pat_completeness auto
termination
  by (relation "measure (\<lambda>(_, d). length d)") auto

declare cut_frames.simps [simp del]

lemma concat_cut_frames: "cut_frames frame d = (fs, r) \<Longrightarrow> concat fs @ r = d"
proof (induction frame d arbitrary: fs r rule: cut_frames.induct)
  case (1 frame d)
  show ?case
  proof (cases "frame d = 0 \<or> frame d > length d")
    case True
    with "1.prems" show ?thesis by (simp add: cut_frames.simps)
  next
    case False
    then obtain fs' where "cut_frames frame (drop (frame d) d) = (fs', r)" "fs = take (frame d) d # fs'"
      using "1.prems" by (auto simp: cut_frames.simps[of frame d] split: prod.splits)
    with "1.IH"[OF False, of fs' r] show ?thesis by simp
  qed
qed

text \<open>What a protocol must offer so that its messages do not depend on how the stream is cut.\<close>

locale framing =
  fixes frame :: "byte list \<Rightarrow> nat"
  assumes frame_le: "frame d \<le> length d"
    and frame_append: "0 < frame d \<Longrightarrow> frame (d @ e) = frame d"
begin

lemma cut_step: "cut_frames frame d =
    (if frame d = 0 then ([], d) else let (fs, r) = cut_frames frame (drop (frame d) d) in (take (frame d) d # fs, r))"
  using frame_le[of d] by (subst cut_frames.simps) auto

lemma cut_rest: "cut_frames frame d = (fs, r) \<Longrightarrow> cut_frames frame r = ([], r)"
proof (induction d arbitrary: fs r rule: measure_induct_rule[of length])
  case (less d)
  show ?case
  proof (cases "frame d = 0")
    case True
    with less.prems show ?thesis by (metis cut_step prod.inject)
  next
    case False
    with less.prems less.IH[of "drop (frame d) d"] frame_le[of d] show ?thesis
      by (auto simp: cut_step[of d] split: prod.splits)
  qed
qed

lemma cut_append:
  assumes "cut_frames frame d = (fs, r)" and "cut_frames frame (r @ e) = (gs, r')"
  shows "cut_frames frame (d @ e) = (fs @ gs, r')"
  using assms
proof (induction d arbitrary: fs r rule: measure_induct_rule[of length])
  case (less d)
  show ?case
  proof (cases "frame d = 0")
    case True
    with less.prems show ?thesis by (simp add: cut_step[of d])
  next
    case False
    then obtain fs' where fs': "cut_frames frame (drop (frame d) d) = (fs', r)" "fs = take (frame d) d # fs'"
      using less.prems(1) by (auto simp: cut_step[of d] split: prod.splits)
    have "cut_frames frame (drop (frame d) d @ e) = (fs' @ gs, r')"
      using less.IH[of "drop (frame d) d" fs' r] False frame_le[of d] fs'(1) less.prems(2) by simp
    with False fs'(2) frame_append[of d e] frame_le[of d] show ?thesis
      by (simp add: cut_step[of "d @ e"])
  qed
qed

end

text \<open>What a message handler must offer on top: it leaves incomplete messages alone, and takes a complete
  one off the data and acts on the state by \<open>step\<close>, as long as \<open>live\<close> holds of the state and the message is
  \<open>good\<close>. The number says how many more messages the state can take.\<close>

locale framed_handler = framing +
  fixes h :: "'w handlers"
    and good :: "byte list \<Rightarrow> bool"
    and live :: "nat \<Rightarrow> conn \<Rightarrow> 'w \<Rightarrow> bool"
    and step :: "byte list \<Rightarrow> 'w \<Rightarrow> 'w"
  assumes handler_set: "live n c w \<Longrightarrow> \<exists>m. h c = Some m"
    and waits: "live n c w \<Longrightarrow> h c = Some m \<Longrightarrow> frame d = 0 \<Longrightarrow> m d (c, w) = Some (Inr (0, c, w))"
    and takes: "live (Suc n) c w \<Longrightarrow> h c = Some m \<Longrightarrow> 0 < frame d \<Longrightarrow> good (take (frame d) d) \<Longrightarrow>
      m d (c, w) = Some (Inr (frame d, c, step (take (frame d) d) w))"
    and keeps: "live (Suc n) c w \<Longrightarrow> good d \<Longrightarrow> live n c (step d w)"
    and any_rbuf: "live n (c\<lparr>c_rbuf := b\<rparr>) w = live n c w"
begin

lemma live_fold: "live (length fs + n) c w \<Longrightarrow> list_all good fs \<Longrightarrow> live n c (fold step fs w)"
  by (induction fs arbitrary: w) (auto simp: keeps)

lemma process_frames:
  assumes "cut_frames frame data = (fs, r)" and "c_status c = cs_connected" and "live (length fs + n) c w" and "list_all good fs"
  shows "process_loop h data t (c, w) = Some (Inr (t + length (concat fs), c, fold step fs w))"
  using assms(1,3,4)
proof (induction data arbitrary: fs r t w rule: measure_induct_rule[of length])
  case (less data)
  obtain m where m: "h c = Some m" using handler_set[OF less.prems(2)] by auto
  show ?case
  proof (cases "frame data = 0")
    case True
    with less.prems have "fs = []" by (simp add: cut_step[of data])
    with True m waits[OF less.prems(2) m True] assms(2) show ?thesis
      by (subst process_loop.simps) simp
  next
    case False
    then obtain fs' where fs': "cut_frames frame (drop (frame data) data) = (fs', r)" "fs = take (frame data) data # fs'"
      using less.prems(1) by (auto simp: cut_step[of data] split: prod.splits)
    have "data \<noteq> []" using False frame_le[of data] by auto
    moreover have "m data (c, w) = Some (Inr (frame data, c, step (take (frame data) data) w))"
      using takes[of "length fs' + n" c w m data] m False less.prems(2,3) fs'(2) by simp
    moreover have "live (length fs' + n) c (step (take (frame data) data) w)"
      using keeps[of "length fs' + n" c w] less.prems(2,3) fs'(2) by simp
    ultimately show ?thesis
      using False fs' frame_le[of data] assms(2) m less.prems(3) less.IH[of "drop (frame data) data" fs' r]
      by (simp add: process_loop.simps[of _ data])
  qed
qed

lemma process_message_frames:
  assumes "cut_frames frame data = (fs, r)" and "c_status c = cs_connected" and "live (length fs + n) c w" and "list_all good fs"
  shows "process_conn_message h data (c, w) = Some (Inr (length (concat fs), c, fold step fs w))"
  using process_frames[OF assms, of 0] handler_set[OF assms(3)] by (auto simp: process_conn_message_def)

lemma process_rbuf_frames:
  assumes "buf_ok b" and "c_rbuf c = Some b" and "c_status c = cs_connected" and "cut_frames frame (pending b) = (fs, r)"
    and "live (length fs + n) c w" and "list_all good fs"
  shows "\<exists>b'. process_rbuf h b (c, w) = Some (Inr (c\<lparr>c_rbuf := Some b'\<rparr>, fold step fs w)) \<and> buf_ok b' \<and> pending b' = r"
proof -
  have d: "pending b = concat fs @ r"
    using concat_cut_frames[OF assms(4)] by simp
  obtain q b' where r: "agB_read b (length (concat fs)) = Inr (Some q, b')" "buf_ok b'" "pending b' = r"
    using agB_read_ok[OF assms(1), of "length (concat fs)"] d by auto
  have "length (concat fs) \<le> length (pending b)"
    using d by simp
  then show ?thesis
    using assms(2,3) r(1) agB_size_ok[OF assms(1)] agB_peek_ok[OF assms(1)] take_pending[OF assms(1)]
      process_message_frames[OF assms(4,3,5,6)]
    by (intro exI[of _ b'] conjI r(2,3)) (simp add: process_rbuf_def)
qed

lemma recv_data_frames:
  assumes "conn_ok c" and "c_status c = cs_connected" and "length (rd_pending c) + length buff \<le> 2 ^ 63"
    and "cut_frames frame (rd_pending c) = ([], rd_pending c)" and "cut_frames frame (rd_pending c @ buff) = (fs, r)"
    and "live (length fs + n) c w" and "list_all good fs"
  shows "\<exists>b. recv_data g h buff (c, w) = Some (Inr (c\<lparr>c_rbuf := b\<rparr>, fold step fs w))
    \<and> conn_ok (c\<lparr>c_rbuf := b\<rparr>) \<and> rd_pending (c\<lparr>c_rbuf := b\<rparr>) = r"
proof (cases "rd_pending c = []")
  case True
  have d: "buff = concat fs @ r"
    using concat_cut_frames[OF assms(5)] True by simp
  have pr: "process_conn_message h buff (c, w) = Some (Inr (length (concat fs), c, fold step fs w))"
    using process_message_frames[of buff fs r c n w] assms(2,5-) True by simp
  have hs: "h c \<noteq> None" using handler_set[OF assms(6)] by auto
  obtain b where b: "(case c_rbuf c of None \<Rightarrow> agB_new g True DEFAULT_BUFFER_SIZE | Some b \<Rightarrow> Some b) = Some b"
    "buf_ok b" "pending b = []"
    using assms(1) True agB_new_ok[of DEFAULT_BUFFER_SIZE g]
    by (auto simp: rd_pending_def conn_ok_def DEFAULT_BUFFER_SIZE_def split: option.splits)
  obtain b' where b': "agB_write g True b r (length r) = Some (Inr (True, b'))" "buf_ok b'" "pending b' = r"
    using agB_write_ok[OF b(2), of r g] assms(3) d b(3) by auto
  have n: "(case c_rbuf c of None \<Rightarrow> Inr 0 | Some b \<Rightarrow> agB_size b) = Inr 0"
    using True assms(1) by (auto simp: rd_pending_def conn_ok_def agB_size_ok split: option.splits)
  show ?thesis
  proof (cases "r = []")
    case r: True
    then have "recv_data g h buff (c, w) = Some (Inr (c, fold step fs w))"
      using n pr assms(2) d hs by (auto simp: recv_data_def)
    with r True assms(1,2) show ?thesis by (intro exI[of _ "c_rbuf c"]) simp
  next
    case False
    then have "recv_data g h buff (c, w) = Some (Inr (c\<lparr>c_rbuf := Some b'\<rparr>, fold step fs w))"
      using n pr assms(2) b(1) b'(1) hs by (auto simp: recv_data_def d)
    with b' assms(1,2) show ?thesis by (auto simp: conn_ok_def rd_pending_def)
  qed
next
  case False
  then obtain b where b: "c_rbuf c = Some b" "buf_ok b" "pending b = rd_pending c"
    using assms(1) by (auto simp: rd_pending_def conn_ok_def split: option.splits)
  have hs: "h c \<noteq> None" using handler_set[OF assms(6)] by auto
  obtain b1 where b1: "agB_write g True b buff (length buff) = Some (Inr (True, b1))" "buf_ok b1" "pending b1 = rd_pending c @ buff"
    using agB_write_ok[OF b(2), of buff g] assms(3) b(3) by auto
  obtain b2 where b2: "process_rbuf h b1 (c\<lparr>c_rbuf := Some b1\<rparr>, w) = Some (Inr (c\<lparr>c_rbuf := Some b2\<rparr>, fold step fs w))"
    "buf_ok b2" "pending b2 = r"
    using process_rbuf_frames[OF b1(2), of "c\<lparr>c_rbuf := Some b1\<rparr>" fs r n w] assms(2,5-) b1(3) by (auto simp: any_rbuf)
  have "agB_size b = Inr (length (rd_pending c))"
    using agB_size_ok[OF b(2)] b(3) by simp
  then have "recv_data g h buff (c, w) = Some (Inr (c\<lparr>c_rbuf := Some b2\<rparr>, fold step fs w))"
    using False b(1) b1(1) b2(1) hs by (auto simp: recv_data_def)
  with b2(2,3) assms(1,2) show ?thesis by (auto simp: conn_ok_def rd_pending_def)
qed

text \<open>Whatever the pieces in which the stream arrives, the messages are those of the whole stream.\<close>

lemma read_loop_frames:
  assumes "conn_ok c" and "c_status c = cs_connected" and "bits + length (concat chunks) < 1024 * 10"
    and "length (rd_pending c) + length (concat chunks) \<le> 2 ^ 63"
    and "cut_frames frame (rd_pending c) = ([], rd_pending c)" and "cut_frames frame (rd_pending c @ concat chunks) = (fs, r)"
    and "live (length fs + n) c w" and "list_all good fs"
  shows "\<exists>b. read_conn_loop g h bits (map Data chunks @ [WouldBlock]) (c, w) = Some (Inr (Done, c\<lparr>c_rbuf := b\<rparr>, fold step fs w))
    \<and> conn_ok (c\<lparr>c_rbuf := b\<rparr>) \<and> rd_pending (c\<lparr>c_rbuf := b\<rparr>) = r"
  using assms
proof (induction chunks arbitrary: bits c w fs)
  case Nil
  then have [simp]: "fs = []" "r = rd_pending c"
    by simp_all
  show ?case
  proof (cases "rd_pending c = []")
    case True
    then show ?thesis
      using Nil by (intro exI[of _ "c_rbuf c"]) (auto simp: rd_pending_def conn_ok_def agB_size_ok split: option.splits)
  next
    case False
    then obtain b where b: "c_rbuf c = Some b" "buf_ok b" "pending b = rd_pending c"
      using Nil.prems(1) by (auto simp: rd_pending_def conn_ok_def split: option.splits)
    obtain b2 where "process_rbuf h b (c, w) = Some (Inr (c\<lparr>c_rbuf := Some b2\<rparr>, w))"
      "buf_ok b2" "pending b2 = r"
      using process_rbuf_frames[OF b(2,1) Nil.prems(2), of "[]" r n w] Nil.prems(5,7) b(3) by auto
    moreover have "agB_size b = Inr (length (rd_pending c))"
      using agB_size_ok[OF b(2)] b(3) by simp
    moreover have "0 < length (rd_pending c)" using False by simp
    ultimately show ?thesis
      using Nil.prems(1,2,3) False b(1) by (intro exI[of _ "Some b2"]) (simp add: conn_ok_def rd_pending_def del: length_greater_0_conv)
  qed
next
  case (Cons buff chunks)
  obtain fs1 r1 where 1: "cut_frames frame (rd_pending c @ buff) = (fs1, r1)"
    by (cases "cut_frames frame (rd_pending c @ buff)")
  obtain gs r' where 2: "cut_frames frame (r1 @ concat chunks) = (gs, r')"
    by (cases "cut_frames frame (r1 @ concat chunks)")
  have eq: "fs = fs1 @ gs" "r' = r"
    using cut_append[OF 1 2] Cons.prems(6) by simp_all
  have good: "list_all good fs1" "list_all good gs" using Cons.prems(8) eq(1) by simp_all
  have live: "live (length fs1 + (length gs + n)) c w" using Cons.prems(7) eq(1) by (simp add: add.assoc)
  obtain b1 where c1: "recv_data g h buff (c, w) = Some (Inr (c\<lparr>c_rbuf := b1\<rparr>, fold step fs1 w))"
    "conn_ok (c\<lparr>c_rbuf := b1\<rparr>)" "rd_pending (c\<lparr>c_rbuf := b1\<rparr>) = r1"
    using recv_data_frames[OF Cons.prems(1,2) _ Cons.prems(5) 1 live good(1), of g] Cons.prems(4) by auto
  have "length r1 \<le> length (rd_pending c @ buff)"
    using arg_cong[OF concat_cut_frames[OF 1], of length] by simp
  with Cons.IH[OF c1(2), of "bits + length buff" gs "fold step fs1 w"] Cons.prems(2,3,4) 2 eq c1(3) cut_rest[OF 1] good
    live_fold[OF live good(1)]
  obtain b where "read_conn_loop g h (bits + length buff) (map Data chunks @ [WouldBlock]) (c\<lparr>c_rbuf := b1\<rparr>, fold step fs1 w)
      = Some (Inr (Done, c\<lparr>c_rbuf := b\<rparr>, fold step fs w))" "conn_ok (c\<lparr>c_rbuf := b\<rparr>)" "rd_pending (c\<lparr>c_rbuf := b\<rparr>) = r"
    by (auto simp: any_rbuf)
  with c1(1) Cons.prems(2,3) show ?case by auto
qed

end

text \<open>A handler that takes the first message when it is complete and logs it.\<close>

definition frame_handler :: "(byte list \<Rightarrow> nat) \<Rightarrow> byte list list on_message" where
  "frame_handler frame data cw =
     Some (Inr (frame data, fst cw, if frame data = 0 then snd cw else snd cw @ [take (frame data) data]))"

lemma fold_log [simp]: "fold (\<lambda>m w. w @ [m]) fs w = w @ fs"
  by (induction fs arbitrary: w) auto

lemma logging_framed:
  assumes "framing frame"
  shows "framed_handler frame (\<lambda>_. Some (frame_handler frame)) (\<lambda>_. True) (\<lambda>_ _ _. True) (\<lambda>m w. w @ [m])"
  using assms by (auto simp: framed_handler_def framed_handler_axioms_def frame_handler_def)

section \<open>Properties\<close>

text \<open>C9: Whatever the order of sends, vector writes and write events, and however little the kernel takes at
  a time, the bytes given to the kernel followed by those in the write buffer are exactly the
  bytes that were sent, in order; and a further send on the connected socket returns 0 and keeps this.\<close>

theorem output_stream_in_order:
  assumes "out_step\<^sup>*\<^sup>* w0 w" and "conn_ok (w_conn w0)" and "wr_pending (w_conn w0) = []"
    and "w_out w0 = []" and "w_sent w0 = []"
    and "c_status (w_conn w) = cs_connected" and "length (wr_pending (w_conn w)) + length buff \<le> 2 ^ 63" and "buff \<noteq> []"
  shows "w_out w @ wr_pending (w_conn w) = w_sent w
    \<and> (\<exists>sent c'. agN_send g True True ctl ret (Some (w_conn w)) buff = Some (Inr (True, sent, Some c'))
         \<and> (w_out w @ sent) @ wr_pending c' = w_sent w @ buff)"
proof -
  have "wire_ok w"
    using assms(1)
  proof (induction rule: rtranclp_induct)
    case base
    then show ?case using assms(2-5) by (simp add: wire_ok_def)
  qed (rule out_step_ok)
  then show ?thesis
    using agN_send_stream[of "w_conn w" buff g ctl ret] assms(6-8) by (auto simp: wire_ok_def)
qed

definition conn_example :: conn where
  "conn_example = \<lparr>c_next = None, in_active_list = False, c_id = 1, c_status = cs_connected, c_fd = 5, c_events = 1,
     c_rbuf = None, c_wbuf = None, c_handler = 1, c_ctx = 0\<rparr>"

lemma conn_example_ok [simp]: "conn_ok conn_example" "wr_pending conn_example = []" "rd_pending conn_example = []"
  "c_status conn_example = cs_connected"
  by (simp_all add: conn_ok_def wr_pending_def rd_pending_def conn_example_def)

theorem output_stream_in_order_witness:
  "\<exists>w. out_step \<lparr>w_conn = conn_example, w_out = [], w_sent = []\<rparr> w \<and> w_sent w = [1, 2, 3]
     \<and> w_out w @ wr_pending (w_conn w) = [1, 2, 3]"
proof -
  let ?start = "\<lparr>w_conn = conn_example, w_out = [], w_sent = []\<rparr>"
  obtain sent c where c: "agN_send (\<lambda>_. 0) True True True 2 (Some conn_example) [1, 2, 3] = Some (Inr (True, sent, Some c))"
    "sent @ wr_pending c = [1, 2, 3]" "c_status c = cs_connected"
    using agN_send_stream[of conn_example "[1, 2, 3]" "\<lambda>_. 0" True 2] by auto
  let ?w = "\<lparr>w_conn = c, w_out = [] @ sent, w_sent = [] @ [1, 2, 3]\<rparr>"
  have step: "out_step ?start ?w"
    using out_step.Send[of "\<lambda>_. 0" True 2 ?start "[1, 2, 3]" True sent c] c(1) by simp
  have "length (wr_pending c) \<le> 3"
    using arg_cong[OF c(2), of length] by simp
  then have "w_out ?w @ wr_pending (w_conn ?w) = w_sent ?w"
    using output_stream_in_order[of ?start ?w "[9]" "\<lambda>_. 0" True 1] step c(3) by auto
  with step show ?thesis by auto
qed

end
