(* ===== verification/Package.thy ===== *)
theory Package
  imports NetConn
begin

text \<open>
  The message headers of \<^verbatim>\<open>src/framework/package.h\<close> that clients, gateway and worlds exchange, the
  composition of player ids from a server id and a number, and the framing of a byte stream into
  messages, which instantiates the interface \<open>framing\<close> of the theory \<open>NetConn\<close>.

  A header in memory is the list of its bytes; the structures are packed. The 32-bit fields are in
  network order. \<open>playerid\<close> of a \<open>translate_header\<close> has 64 bits but is assigned
  \<open>htonl(playerid)\<close>: its first four bytes are the low half of the id in network order, the
  others are zero.
\<close>

section \<open>Network order\<close>

definition htonl :: "u32 \<Rightarrow> byte list" where
  "htonl v = rev (le_bytes 4 (unat v))"

definition ntohl :: "byte list \<Rightarrow> u32" where
  "ntohl bs = word_of_nat (le_nat (rev (take 4 bs)))"

lemma length_htonl [simp]: "length (htonl v) = 4"
  by (simp add: htonl_def)

lemma ntohl_htonl [simp]: "ntohl (htonl v @ r) = v"
proof -
  have "unat v < 256 ^ 4" using unat32_less[of v] by simp
  then show ?thesis by (simp add: htonl_def ntohl_def le_nat_bytes)
qed

lemma ntohl_take: "length d \<ge> 4 \<Longrightarrow> ntohl (d @ e) = ntohl d"
  by (simp add: ntohl_def)

section \<open>Player ids\<close>

text \<open>\<open>TRANSFORM_PLAYERID\<close>: the server id (true) or the number (false) of a player id.\<close>

definition TRANSFORM_PLAYERID :: "u64 \<Rightarrow> bool \<Rightarrow> u32" where
  "TRANSFORM_PLAYERID value_64 b = (if b then ucast (drop_bit 32 value_64) else ucast value_64)"

text \<open>\<open>TRANSFORM_PLAYERID_TO_64\<close> overwrites both halves of the variable.\<close>

definition TRANSFORM_PLAYERID_TO_64 :: "u32 \<Rightarrow> u32 \<Rightarrow> u64" where
  "TRANSFORM_PLAYERID_TO_64 sid pid = push_bit 32 (ucast sid) OR ucast pid"

definition CHECK_PID_AND_TRANSFORM :: "u32 \<Rightarrow> u64 \<Rightarrow> u64" where
  "CHECK_PID_AND_TRANSFORM server_id pid =
     (if pid > 0 \<and> TRANSFORM_PLAYERID pid True = 0 \<and> pid > 100000
      then TRANSFORM_PLAYERID_TO_64 server_id (ucast pid) else pid)"

definition NTOHL_PID_AND_SID :: "u64 \<Rightarrow> u32 \<Rightarrow> u64" where
  "NTOHL_PID_AND_SID pid serverid =
     (if pid > 0 \<and> TRANSFORM_PLAYERID pid True = 0
      then TRANSFORM_PLAYERID_TO_64 serverid (ucast pid) else pid)"

lemma pid_parts:
  "TRANSFORM_PLAYERID (TRANSFORM_PLAYERID_TO_64 sid pid) True = sid"
  "TRANSFORM_PLAYERID (TRANSFORM_PLAYERID_TO_64 sid pid) False = pid"
  by (rule bit_word_eqI; auto simp: TRANSFORM_PLAYERID_def TRANSFORM_PLAYERID_TO_64_def bit_simps
      dest: bit_imp_le_length)+

lemma pid_compose:
  "TRANSFORM_PLAYERID_TO_64 (TRANSFORM_PLAYERID pid True) (TRANSFORM_PLAYERID pid False) = pid"
  by (rule bit_word_eqI) (auto simp: TRANSFORM_PLAYERID_def TRANSFORM_PLAYERID_TO_64_def bit_simps)

section \<open>Headers\<close>

record client_header =
  ch_len :: u32
  ch_flag :: u32
  ch_cmd :: u32

record translate_header =
  th_len :: u32
  th_sn :: u32
  th_playerid :: u32
  th_flag :: u32
  th_cmd :: u32
  th_serverid :: u32

definition client_header_size :: nat where
  "client_header_size = 12"

definition translate_header_size :: nat where
  "translate_header_size = 28"

definition put_client_header :: "client_header \<Rightarrow> byte list" where
  "put_client_header h = htonl (ch_len h) @ htonl (ch_flag h) @ htonl (ch_cmd h)"

definition get_client_header :: "byte list \<Rightarrow> client_header" where
  "get_client_header d = \<lparr>ch_len = ntohl d, ch_flag = ntohl (drop 4 d), ch_cmd = ntohl (drop 8 d)\<rparr>"

definition put_translate_header :: "translate_header \<Rightarrow> byte list" where
  "put_translate_header h =
     htonl (th_len h) @ htonl (th_sn h) @ htonl (th_playerid h) @ [0, 0, 0, 0]
     @ htonl (th_flag h) @ htonl (th_cmd h) @ htonl (th_serverid h)"

definition get_translate_header :: "byte list \<Rightarrow> translate_header" where
  "get_translate_header d =
     \<lparr>th_len = ntohl d, th_sn = ntohl (drop 4 d), th_playerid = ntohl (drop 8 d),
      th_flag = ntohl (drop 16 d), th_cmd = ntohl (drop 20 d), th_serverid = ntohl (drop 24 d)\<rparr>"

lemma length_put_headers [simp]:
  "length (put_client_header h) = client_header_size" "length (put_translate_header t) = translate_header_size"
  by (simp_all add: put_client_header_def put_translate_header_def client_header_size_def translate_header_size_def)

lemma get_put_client_header [simp]: "get_client_header (put_client_header h @ r) = h"
  by (simp add: get_client_header_def put_client_header_def)

lemma get_put_translate_header [simp]: "get_translate_header (put_translate_header h @ r) = h"
  by (simp add: get_translate_header_def put_translate_header_def)

section \<open>Messages in a stream\<close>

text \<open>The length of the first message as the handlers of clients (\<open>translate.c\<close>) and worlds
  (\<open>world.c\<close>) determine it: 0 while the header or the message is incomplete.\<close>

definition client_frame :: "byte list \<Rightarrow> nat" where
  "client_frame data =
     (if length data < client_header_size then 0
      else let package_len = unat (ch_len (get_client_header data))
           in if length data < package_len then 0 else package_len)"

definition translate_frame :: "byte list \<Rightarrow> nat" where
  "translate_frame msg =
     (if length msg < translate_header_size then 0
      else let package_len = unat (th_len (get_translate_header msg))
           in if length msg < package_len then 0 else package_len)"

text \<open>A message that starts with its length in network order.\<close>

definition length_frame_at :: "nat \<Rightarrow> byte list \<Rightarrow> nat" where
  "length_frame_at n d = (if length d < n \<or> length d < unat (ntohl d) then 0 else unat (ntohl d))"

lemma length_frame_framing: "4 \<le> n \<Longrightarrow> framing (length_frame_at n)"
proof (unfold_locales, goal_cases)
  case (1 d)
  then show ?case by (simp add: length_frame_at_def)
next
  case (2 d e)
  then show ?case by (simp add: length_frame_at_def ntohl_take split: if_splits)
qed

lemma frames_by_length: "client_frame = length_frame_at client_header_size" "translate_frame = length_frame_at translate_header_size"
  by (simp_all add: fun_eq_iff client_frame_def translate_frame_def length_frame_at_def get_client_header_def
      get_translate_header_def Let_def)

interpretation cf: framing client_frame
  unfolding frames_by_length by (rule length_frame_framing) (simp add: client_header_size_def)

interpretation tf: framing translate_frame
  unfolding frames_by_length by (rule length_frame_framing) (simp add: translate_header_size_def)

text \<open>The handlers that only log what arrives.\<close>

interpretation cl: framed_handler client_frame "\<lambda>_. Some (frame_handler client_frame)" "\<lambda>_. True" "\<lambda>_ _ _. True" "\<lambda>m w. w @ [m]"
  by (rule logging_framed) unfold_locales

interpretation tl: framed_handler translate_frame "\<lambda>_. Some (frame_handler translate_frame)" "\<lambda>_. True" "\<lambda>_ _ _. True" "\<lambda>m w. w @ [m]"
  by (rule logging_framed) unfold_locales

text \<open>A client message as \<open>client_send\<close> builds it.\<close>

definition client_packet :: "u32 \<Rightarrow> u32 \<Rightarrow> byte list \<Rightarrow> byte list" where
  "client_packet cmd flag msg =
     put_client_header \<lparr>ch_len = word_of_nat (client_header_size + length msg), ch_flag = flag, ch_cmd = cmd\<rparr> @ msg"

lemma unat_size: "n < 2 ^ 32 \<Longrightarrow> unat (word_of_nat n :: u32) = n"
  by (simp add: unat_of_nat)

lemma client_packet_frame:
  assumes "client_header_size + length msg < 2 ^ 32"
  shows "client_frame (client_packet cmd flag msg @ rest) = length (client_packet cmd flag msg)"
    and "0 < client_frame (client_packet cmd flag msg @ rest)"
proof -
  have "unat (ch_len (get_client_header (client_packet cmd flag msg @ rest))) = client_header_size + length msg"
    using unat_size[OF assms] by (simp add: client_packet_def)
  then show "client_frame (client_packet cmd flag msg @ rest) = length (client_packet cmd flag msg)"
    by (simp add: client_frame_def Let_def client_packet_def)
  then show "0 < client_frame (client_packet cmd flag msg @ rest)"
    by (simp add: client_packet_def client_header_size_def)
qed

lemma cut_nothing: "cut_frames client_frame [] = ([], [])"
  by (subst cf.cut_step) (simp add: client_frame_def client_header_size_def)

lemma cut_client_packets:
  assumes "list_all (\<lambda>(cmd, flag, msg). client_header_size + length msg < 2 ^ 32) ps"
  shows "cut_frames client_frame (concat (map (\<lambda>(cmd, flag, msg). client_packet cmd flag msg) ps)) =
    (map (\<lambda>(cmd, flag, msg). client_packet cmd flag msg) ps, [])"
  using assms
proof (induction ps)
  case Nil
  then show ?case by (simp add: cut_nothing)
next
  case (Cons p ps)
  obtain cmd flag msg where p: "p = (cmd, flag, msg)" by (cases p)
  have b: "client_header_size + length msg < 2 ^ 32" using Cons.prems p by simp
  show ?case
    using Cons client_packet_frame[OF b, of cmd flag] by (subst cf.cut_step) (simp add: p)
qed

section \<open>Properties\<close>



end
