(* ===== verification/ResManager.thy ===== *)
theory ResManager
  imports HeapPool
begin

text \<open>
  The resource manager of \<open>framework/lrm.c\<close>: a fixed number of slots handed out by id. The id of
  a slot grows by \<open>max\<close> each time it is freed, so that an old id no longer finds it.

  A slot is its id and its link: in use (\<open>next == 0\<close>), last of the idle list
  (\<open>&resource_list_end\<close>), or followed by another slot. Ids are \<open>unsigned int\<close>, arithmetic on
  them is modulo \<open>2^32\<close>. The bytes of the objects behind the slots are the callers' and left out:
  the pointer to an object is the index of its slot.
\<close>

type_synonym resid = u32

definition INVALID_ID :: resid where
  "INVALID_ID = - 1"

datatype res_next = InUse | ListEnd | Next nat

record lresource =
  res_id :: resid
  res_next :: res_next

record lrm =
  lrm_max :: int
  lrm_idle :: res_next
  lrm_data :: "lresource list"

text \<open>The loop of \<open>init_lrm_idle_list\<close>, from the last slot to the first.\<close>

fun init_lrm_idle_list :: "nat \<Rightarrow> lrm \<Rightarrow> lrm" where
  "init_lrm_idle_list 0 lrm = lrm"
| "init_lrm_idle_list (Suc i) lrm =
     init_lrm_idle_list i
       (lrm\<lparr>lrm_data := (lrm_data lrm)[i := \<lparr>res_id = word_of_nat i, res_next = lrm_idle lrm\<rparr>],
            lrm_idle := Next i\<rparr>)"

definition agRM_new :: "bool \<Rightarrow> int \<Rightarrow> lrm option" where
  "agRM_new mem m =
     (if mem then
        Some (init_lrm_idle_list (nat m)
          \<lparr>lrm_max = m, lrm_idle = ListEnd, lrm_data = replicate (nat m) \<lparr>res_id = 0, res_next = InUse\<rparr>\<rparr>)
      else None)"

definition get_lresource_by_index :: "lrm \<Rightarrow> int \<Rightarrow> nat option" where
  "get_lresource_by_index lrm index =
     (if index < 0 \<or> index \<ge> lrm_max lrm then None else Some (nat index))"

text \<open>\<open>max\<close> is converted to \<open>unsigned int\<close> for the remainder, the remainder back to \<open>int\<close>.\<close>

definition get_lresource :: "lrm \<Rightarrow> resid \<Rightarrow> nat option res" where
  "get_lresource lrm rid =
     (if lrm_max lrm = 0 then Inl DivByZero
      else (let idx = sint (rid mod word_of_int (lrm_max lrm))
            in case get_lresource_by_index lrm idx of
                 None \<Rightarrow> Inl NullDeref
               | Some i \<Rightarrow> if res_id (lrm_data lrm ! i) \<noteq> rid then Inr None else Inr (Some i)))"

definition agR_new :: "lrm \<Rightarrow> (resid \<times> lrm) res" where
  "agR_new lrm =
     (case lrm_idle lrm of
        ListEnd \<Rightarrow> Inr (INVALID_ID, lrm)
      | InUse \<Rightarrow> Inl NullDeref
      | Next i \<Rightarrow>
          (let r = lrm_data lrm ! i
           in Inr (res_id r, lrm\<lparr>lrm_idle := res_next r,
                                 lrm_data := (lrm_data lrm)[i := r\<lparr>res_next := InUse\<rparr>]\<rparr>)))"

definition agR_get :: "lrm \<Rightarrow> resid \<Rightarrow> nat option res" where
  "agR_get lrm rid = get_lresource lrm rid"

definition agR_free :: "lrm \<Rightarrow> resid \<Rightarrow> lrm res" where
  "agR_free lrm rid =
     (case get_lresource lrm rid of
        Inl f \<Rightarrow> Inl f
      | Inr None \<Rightarrow> Inr lrm
      | Inr (Some i) \<Rightarrow>
          (let m = word_of_int (lrm_max lrm);
               r = lrm_data lrm ! i;
               nid = res_id r + m;
               nid = (if nid = INVALID_ID then nid + m else nid)
           in Inr (lrm\<lparr>lrm_data := (lrm_data lrm)[i := \<lparr>res_id = nid, res_next = lrm_idle lrm\<rparr>],
                       lrm_idle := Next i\<rparr>)))"

fun next_used :: "lresource list \<Rightarrow> resid" where
  "next_used [] = INVALID_ID"
| "next_used (r # rs) = (if res_next r = InUse then res_id r else next_used rs)"

definition agR_next :: "lrm \<Rightarrow> resid \<Rightarrow> resid res" where
  "agR_next lrm ite =
     (if ite = INVALID_ID then Inr (next_used (lrm_data lrm))
      else if lrm_max lrm = 0 then Inl DivByZero
      else (let index = sint (ite mod word_of_int (lrm_max lrm)) + 1
            in if index < 0 then Inl NullDeref else Inr (next_used (drop (nat index) (lrm_data lrm)))))"

section \<open>Invariant\<close>

text \<open>The idle list as a list of slots.\<close>

fun idle_chain :: "lresource list \<Rightarrow> res_next \<Rightarrow> nat list \<Rightarrow> bool" where
  "idle_chain rs p [] = (p = ListEnd)"
| "idle_chain rs p (i # is) = (p = Next i \<and> i < length rs \<and> idle_chain rs (res_next (rs ! i)) is)"

text \<open>Ids stay \<open>lim\<close> below the end of their range, and are the index of their slot modulo \<open>max\<close>.\<close>

definition lrm_ok :: "lrm \<Rightarrow> nat list \<Rightarrow> bool" where
  "lrm_ok lrm is \<longleftrightarrow>
     0 < lrm_max lrm \<and> lrm_max lrm \<le> INT_MAX \<and> length (lrm_data lrm) = nat (lrm_max lrm) \<and>
     idle_chain (lrm_data lrm) (lrm_idle lrm) is \<and> distinct is \<and>
     (\<forall>i < length (lrm_data lrm).
        unat (res_id (lrm_data lrm ! i)) mod nat (lrm_max lrm) = i \<and>
        res_id (lrm_data lrm ! i) \<noteq> INVALID_ID \<and>
        (res_next (lrm_data lrm ! i) = InUse \<longleftrightarrow> i \<notin> set is))"

text \<open>The ids in use.\<close>

definition used_ids :: "lrm \<Rightarrow> resid set" where
  "used_ids lrm = (\<lambda>i. res_id (lrm_data lrm ! i)) `
     {i. i < length (lrm_data lrm) \<and> res_next (lrm_data lrm ! i) = InUse}"

section \<open>Lemmas\<close>

lemma idle_chain_frame:
  "idle_chain rs p is \<Longrightarrow> i \<notin> set is \<Longrightarrow> idle_chain (rs[i := r]) p is"
  by (induction rs p "is" rule: idle_chain.induct) auto

lemma rid_mod:
  assumes "0 < m" and "m \<le> INT_MAX"
  shows "sint ((rid :: u32) mod word_of_int m) = int (unat rid mod nat m)"
proof -
  have m: "uint (word_of_int m :: u32) = m"
    using assms by (simp add: INT_MAX_def uint_word_of_int take_bit_int_eq_self)
  then have u: "uint (rid mod word_of_int m) = uint rid mod m" by (simp add: uint_mod)
  have lt: "uint rid mod m < m" "0 \<le> uint rid mod m" using assms by simp_all
  have "sint (rid mod word_of_int m) = uint (rid mod word_of_int m)"
  proof (cases "rid mod word_of_int m" rule: sint_cases32)
    case 2
    have "- 2147483648 \<le> sint (rid mod word_of_int m)" using sint_ge [of "rid mod word_of_int m"] by simp
    moreover have "4294967295 - uint rid mod m = - sint (rid mod word_of_int m) - 1"
      using 2(2) u by (simp add: uint_not32)
    moreover have "m \<le> 2147483647" using assms(2) by (simp add: INT_MAX_def)
    ultimately have "m \<le> uint rid mod m" by linarith
    with lt show ?thesis by linarith
  qed simp
  moreover have "uint rid mod m = int (unat rid mod nat m)"
    using assms by (simp add: zmod_int)
  ultimately show ?thesis using u by simp
qed


lemma get_lresource_ok:
  assumes "lrm_ok lrm is"
  shows "agR_get lrm rid =
    Inr (if res_id (lrm_data lrm ! (unat rid mod nat (lrm_max lrm))) = rid
         then Some (unat rid mod nat (lrm_max lrm)) else None)"
proof -
  have m: "0 < lrm_max lrm" "lrm_max lrm \<le> INT_MAX" using assms by (simp_all add: lrm_ok_def)
  let ?i = "unat rid mod nat (lrm_max lrm)"
  have "int ?i < lrm_max lrm" using m by (simp add: zmod_int)
  then show ?thesis
    using m rid_mod [OF m, of rid] by (simp add: agR_get_def get_lresource_def get_lresource_by_index_def)
qed

lemma lrm_ids_unique:
  assumes "lrm_ok lrm is" and "i < length (lrm_data lrm)" and "j < length (lrm_data lrm)"
    and "res_id (lrm_data lrm ! i) = res_id (lrm_data lrm ! j)"
  shows "i = j"
  using assms unfolding lrm_ok_def by metis

lemma agR_get_iff:
  assumes "lrm_ok lrm is"
  shows "agR_get lrm rid = Inr (Some i) \<longleftrightarrow> i < length (lrm_data lrm) \<and> res_id (lrm_data lrm ! i) = rid"
proof -
  have l: "length (lrm_data lrm) = nat (lrm_max lrm)" "0 < lrm_max lrm" using assms by (simp_all add: lrm_ok_def)
  then have "unat rid mod nat (lrm_max lrm) < length (lrm_data lrm)" by simp
  moreover have "unat rid mod nat (lrm_max lrm) = i" if "i < length (lrm_data lrm)" "res_id (lrm_data lrm ! i) = rid"
    using assms that by (auto simp: lrm_ok_def)
  ultimately show ?thesis using get_lresource_ok [OF assms, of rid] by auto
qed

lemma agR_new_ok:
  assumes "lrm_ok lrm (i # is)"
  shows "\<exists>lrm'. agR_new lrm = Inr (res_id (lrm_data lrm ! i), lrm') \<and> lrm_ok lrm' is \<and>
    (\<forall>j < length (lrm_data lrm). res_id (lrm_data lrm' ! j) = res_id (lrm_data lrm ! j)) \<and>
    length (lrm_data lrm') = length (lrm_data lrm) \<and>
    used_ids lrm' = insert (res_id (lrm_data lrm ! i)) (used_ids lrm) \<and>
    res_id (lrm_data lrm ! i) \<notin> used_ids lrm"
proof -
  have i: "lrm_idle lrm = Next i" "i < length (lrm_data lrm)" "i \<notin> set is" "distinct is"
    using assms by (simp_all add: lrm_ok_def)
  let ?r = "lrm_data lrm ! i"
  let ?l = "lrm\<lparr>lrm_idle := res_next ?r, lrm_data := (lrm_data lrm)[i := ?r\<lparr>res_next := InUse\<rparr>]\<rparr>"
  have ch: "idle_chain ((lrm_data lrm)[i := ?r\<lparr>res_next := InUse\<rparr>]) (res_next ?r) is"
    using assms i by (intro idle_chain_frame) (auto simp: lrm_ok_def)
  have ok: "lrm_ok ?l is"
    using assms ch i by (auto simp: lrm_ok_def nth_list_update split: if_splits)
  have "used_ids ?l = insert (res_id ?r) (used_ids lrm)"
  proof -
    have "{j. j < length (lrm_data ?l) \<and> res_next (lrm_data ?l ! j) = InUse} =
        insert i {j. j < length (lrm_data lrm) \<and> res_next (lrm_data lrm ! j) = InUse}"
      using i(2) by (auto simp: nth_list_update)
    then show ?thesis unfolding used_ids_def using i(2) by (auto simp: nth_list_update)
  qed
  moreover have "res_id ?r \<notin> used_ids lrm"
  proof
    assume "res_id ?r \<in> used_ids lrm"
    then obtain j where j: "j < length (lrm_data lrm)" "res_next (lrm_data lrm ! j) = InUse"
      "res_id (lrm_data lrm ! j) = res_id ?r"
      unfolding used_ids_def by auto
    then have "j = i" using lrm_ids_unique [OF assms j(1) i(2)] by simp
    with j(2) i assms show False by (simp add: lrm_ok_def)
  qed
  moreover have "agR_new lrm = Inr (res_id ?r, ?l)" using i(1) by (simp add: agR_new_def Let_def)
  ultimately show ?thesis using ok i(2) by (auto simp: nth_list_update)
qed


text \<open>The id a slot gets when it is freed, while ids do not wrap.\<close>

lemma next_id:
  assumes "0 < m" and "m \<le> INT_MAX" and "unat (rid :: u32) + 2 * nat m < 2 ^ 32"
  defines "nid \<equiv> rid + word_of_int m"
  defines "nid' \<equiv> (if nid = INVALID_ID then nid + word_of_int m else nid)"
  shows "nid' \<noteq> INVALID_ID" and "unat nid' mod nat m = unat rid mod nat m" and "unat rid < unat nid'"
    and "unat nid' \<le> unat rid + 2 * nat m"
proof -
  have m: "word_of_int m = (word_of_nat (nat m) :: u32)" using assms(1) by simp
  have w: "unat (rid + word_of_nat k) = unat rid + k" if "unat rid + k < 2 ^ 32" for k
    using that by (simp add: unat_word_ariths unsigned_of_nat take_bit_nat_eq_self)
  have n: "unat nid = unat rid + nat m" using assms(3) w [of "nat m"] by (simp add: nid_def m)
  have n2: "unat (nid + word_of_int m) = unat rid + 2 * nat m"
  proof -
    have "nid + word_of_int m = rid + word_of_nat (2 * nat m)" by (simp add: nid_def m)
    then show ?thesis using w [of "2 * nat m"] assms(3) by (simp only:)
  qed
  have inv: "unat INVALID_ID = 2 ^ 32 - 1" by (simp add: INVALID_ID_def unsigned_minus_1_eq_mask mask_eq_exp_minus_1)
  show "nid' \<noteq> INVALID_ID"
    using n n2 inv assms(1,3) unfolding nid'_def by auto
  show "unat nid' mod nat m = unat rid mod nat m" "unat rid < unat nid'" "unat nid' \<le> unat rid + 2 * nat m"
    using n n2 assms(1) unfolding nid'_def by auto
qed

lemma agR_free_ok:
  assumes "lrm_ok lrm is" and "rid \<in> used_ids lrm" and "unat rid + 2 * nat (lrm_max lrm) < 2 ^ 32"
  shows "\<exists>i lrm'. agR_free lrm rid = Inr lrm' \<and> lrm_ok lrm' (i # is) \<and> used_ids lrm' = used_ids lrm - {rid} \<and>
    agR_get lrm' rid = Inr None \<and>
    (\<forall>q. q \<noteq> rid \<longrightarrow> q \<in> used_ids lrm \<longrightarrow> agR_get lrm' q = agR_get lrm q)"
proof -
  obtain i where i: "i < length (lrm_data lrm)" "res_next (lrm_data lrm ! i) = InUse" "res_id (lrm_data lrm ! i) = rid"
    using assms(2) by (auto simp: used_ids_def)
  have m: "0 < lrm_max lrm" "lrm_max lrm \<le> INT_MAX" using assms(1) by (simp_all add: lrm_ok_def)
  have g: "agR_get lrm rid = Inr (Some i)" using agR_get_iff [OF assms(1)] i by blast
  define nid where "nid = (if rid + word_of_int (lrm_max lrm) = INVALID_ID
     then rid + word_of_int (lrm_max lrm) + word_of_int (lrm_max lrm) else rid + word_of_int (lrm_max lrm))"
  note n = next_id [OF m assms(3), folded nid_def]
  let ?d = "(lrm_data lrm)[i := \<lparr>res_id = nid, res_next = lrm_idle lrm\<rparr>]"
  let ?l = "lrm\<lparr>lrm_data := ?d, lrm_idle := Next i\<rparr>"
  have step: "agR_free lrm rid = Inr ?l"
    using g i by (simp add: agR_free_def agR_get_def nid_def Let_def)
  have out: "i \<notin> set is" "unat rid mod nat (lrm_max lrm) = i" using assms(1) i by (auto simp: lrm_ok_def)
  have ch: "idle_chain ?d (lrm_idle lrm) is"
    using assms(1) out(1) by (intro idle_chain_frame) (auto simp: lrm_ok_def)
  have "lrm_idle lrm \<noteq> InUse" using assms(1) by (cases "is") (auto simp: lrm_ok_def)
  then have ok: "lrm_ok ?l (i # is)"
    using assms(1) ch out i n(1,2) by (auto simp: lrm_ok_def nth_list_update split: if_splits)
  have other: "res_id (lrm_data lrm ! j) \<noteq> rid" if "j < length (lrm_data lrm)" "j \<noteq> i" for j
    using lrm_ids_unique [OF assms(1) that(1) i(1)] that i(3) by auto
  have nr: "nid \<noteq> rid" using n(3) by auto
  have "agR_get ?l rid \<noteq> Inr (Some j)" for j
    using agR_get_iff [OF ok, of rid j] other nr i(1) by (auto simp: nth_list_update split: if_splits)
  then have gone: "agR_get ?l rid = Inr None"
    using get_lresource_ok [OF ok, of rid] by (auto split: if_splits)
  have keep: "agR_get ?l q = agR_get lrm q" if q: "q \<noteq> rid" "q \<in> used_ids lrm" for q
  proof -
    obtain j where j: "j < length (lrm_data lrm)" "res_id (lrm_data lrm ! j) = q" using q(2) by (auto simp: used_ids_def)
    moreover have "j \<noteq> i" using j q(1) i(3) by auto
    ultimately have "agR_get ?l q = Inr (Some j)" "agR_get lrm q = Inr (Some j)"
      using agR_get_iff [OF ok, of q j] agR_get_iff [OF assms(1), of q j] by auto
    then show ?thesis by simp
  qed
  have "{j. j < length ?d \<and> res_next (?d ! j) = InUse} =
      {j. j < length (lrm_data lrm) \<and> res_next (lrm_data lrm ! j) = InUse} - {i}"
    using i(1) \<open>lrm_idle lrm \<noteq> InUse\<close> by (auto simp: nth_list_update)
  then have "used_ids ?l = used_ids lrm - {rid}"
    unfolding used_ids_def using i other by (auto simp: nth_list_update)
  then show ?thesis using step ok gone keep by blast
qed

lemma init_idle_ok:
  "k \<le> length (lrm_data lrm) \<Longrightarrow> idle_chain (lrm_data lrm) (lrm_idle lrm) is \<Longrightarrow> set is \<subseteq> {k..} \<Longrightarrow>
   length (lrm_data lrm) \<le> 2 ^ 31 \<Longrightarrow> lrm_idle lrm \<noteq> InUse \<Longrightarrow>
   (let l = init_lrm_idle_list k lrm
    in idle_chain (lrm_data l) (lrm_idle l) ([0..<k] @ is) \<and> length (lrm_data l) = length (lrm_data lrm) \<and>
       lrm_max l = lrm_max lrm \<and>
       (\<forall>i < k. unat (res_id (lrm_data l ! i)) = i \<and> res_next (lrm_data l ! i) \<noteq> InUse) \<and>
       (\<forall>i. k \<le> i \<longrightarrow> lrm_data l ! i = lrm_data lrm ! i))"
proof (induction k arbitrary: lrm "is")
  case (Suc k)
  let ?l = "lrm\<lparr>lrm_data := (lrm_data lrm)[k := \<lparr>res_id = word_of_nat k, res_next = lrm_idle lrm\<rparr>], lrm_idle := Next k\<rparr>"
  have "idle_chain (lrm_data ?l) (lrm_idle lrm) is"
    using Suc.prems by (simp, intro idle_chain_frame) auto
  then have "idle_chain (lrm_data ?l) (lrm_idle ?l) (k # is)" using Suc.prems by simp
  moreover have "unat (word_of_nat k :: u32) = k"
    using Suc.prems by (simp add: unsigned_of_nat take_bit_nat_eq_self)
  moreover have "set (k # is) \<subseteq> {k..}" using Suc.prems by auto
  moreover define l where "l = init_lrm_idle_list k ?l"
  ultimately have l: "idle_chain (lrm_data l) (lrm_idle l) ([0..<k] @ k # is)" "length (lrm_data l) = length (lrm_data lrm)"
    "lrm_max l = lrm_max lrm" "\<forall>i < k. unat (res_id (lrm_data l ! i)) = i \<and> res_next (lrm_data l ! i) \<noteq> InUse"
    "\<And>i. k \<le> i \<Longrightarrow> lrm_data l ! i = lrm_data ?l ! i" "unat (word_of_nat k :: u32) = k"
    using Suc.IH [of ?l "k # is"] Suc.prems by (simp_all add: Let_def)
  have "lrm_data l ! i = lrm_data lrm ! i" if "Suc k \<le> i" for i using l(5) [of i] that by simp
  moreover have "lrm_data l ! k = \<lparr>res_id = word_of_nat k, res_next = lrm_idle lrm\<rparr>"
    using l(5) [of k] Suc.prems by simp
  ultimately show ?case using l Suc.prems(5) by (auto simp: Let_def less_Suc_eq l_def [symmetric])
qed (simp add: Let_def)


section \<open>Properties\<close>

text \<open>A new manager has every slot idle and no id in use.\<close>

theorem agRM_new_all_idle:
  assumes "0 < m" and "m \<le> INT_MAX"
  shows "\<exists>lrm. agRM_new True m = Some lrm \<and> lrm_ok lrm [0..<nat m] \<and> used_ids lrm = {}"
proof -
  let ?l = "\<lparr>lrm_max = m, lrm_idle = ListEnd, lrm_data = replicate (nat m) \<lparr>res_id = 0, res_next = InUse\<rparr>\<rparr>"
  define l where "l = init_lrm_idle_list (nat m) ?l"
  have l: "idle_chain (lrm_data l) (lrm_idle l) [0..<nat m]" "length (lrm_data l) = nat m" "lrm_max l = m"
    "\<forall>i < nat m. unat (res_id (lrm_data l ! i)) = i \<and> res_next (lrm_data l ! i) \<noteq> InUse"
    using init_idle_ok [of "nat m" ?l "[]"] assms by (simp_all add: Let_def l_def INT_MAX_def)
  have "res_id (lrm_data l ! i) \<noteq> INVALID_ID" if "i < nat m" for i
  proof
    assume "res_id (lrm_data l ! i) = INVALID_ID"
    then have "i = unat INVALID_ID" using l(4) that by metis
    then show False
      using that assms by (simp add: INVALID_ID_def unsigned_minus_1_eq_mask mask_eq_exp_minus_1 INT_MAX_def)
  qed
  then have "lrm_ok l [0..<nat m]" using l assms by (auto simp: lrm_ok_def)
  moreover have "used_ids l = {}" using l by (auto simp: used_ids_def)
  ultimately show ?thesis by (auto simp: agRM_new_def l_def)
qed

theorem agRM_new_all_idle_witness:
  "\<exists>lrm. agRM_new True 100 = Some lrm \<and> lrm_ok lrm [0..<nat 100] \<and> used_ids lrm = {}"
  by (rule agRM_new_all_idle) (simp_all add: INT_MAX_def)

text \<open>\<open>_agR_new\<close> returns the invalid id and changes nothing when no slot is idle; otherwise
  it returns an id that was not in use, is in use now, finds its slot, and differs from the
  invalid id, and all other ids find what they found before.\<close>

theorem agR_new_allocates:
  assumes "lrm_ok lrm is"
  shows "\<exists>rid lrm'. agR_new lrm = Inr (rid, lrm') \<and>
     (if is = [] then rid = INVALID_ID \<and> lrm' = lrm
      else rid \<noteq> INVALID_ID \<and> rid \<notin> used_ids lrm \<and> used_ids lrm' = insert rid (used_ids lrm) \<and>
        lrm_ok lrm' (tl is) \<and> agR_get lrm' rid = Inr (Some (hd is)) \<and>
        (\<forall>q. agR_get lrm' q = agR_get lrm q))"
proof (cases "is")
  case Nil
  then have "lrm_idle lrm = ListEnd" using assms by (simp add: lrm_ok_def)
  then show ?thesis using Nil by (simp add: agR_new_def)
next
  case (Cons i js)
  obtain l where l: "agR_new lrm = Inr (res_id (lrm_data lrm ! i), l)" "lrm_ok l js"
    "\<forall>j < length (lrm_data lrm). res_id (lrm_data l ! j) = res_id (lrm_data lrm ! j)"
    "length (lrm_data l) = length (lrm_data lrm)"
    "used_ids l = insert (res_id (lrm_data lrm ! i)) (used_ids lrm)" "res_id (lrm_data lrm ! i) \<notin> used_ids lrm"
    using agR_new_ok [OF assms [unfolded Cons]] by blast
  have i: "i < length (lrm_data lrm)" "res_id (lrm_data lrm ! i) \<noteq> INVALID_ID"
    using assms Cons by (auto simp: lrm_ok_def)
  have "agR_get l (res_id (lrm_data lrm ! i)) = Inr (Some i)"
    using agR_get_iff [OF l(2)] l(3,4) i by auto
  moreover have "agR_get l q = agR_get lrm q" for q
  proof -
    have "lrm_max l = lrm_max lrm" using l(1) by (auto simp: agR_new_def Let_def split: res_next.splits)
    moreover have "unat q mod nat (lrm_max lrm) < length (lrm_data lrm)" using assms by (simp add: lrm_ok_def)
    ultimately show ?thesis
      using get_lresource_ok [OF l(2), of q] get_lresource_ok [OF assms, of q] l(3) by simp
  qed
  ultimately show ?thesis using l i Cons by auto
qed

definition lrm_example :: lrm where
  "lrm_example = \<lparr>lrm_max = 2, lrm_idle = Next 1,
     lrm_data = [\<lparr>res_id = 4, res_next = InUse\<rparr>, \<lparr>res_id = 1, res_next = ListEnd\<rparr>]\<rparr>"

lemma lrm_example_ok: "lrm_ok lrm_example [1]"
  by (simp add: lrm_ok_def lrm_example_def INT_MAX_def INVALID_ID_def All_less_Suc)

lemma lrm_example_used: "4 \<in> used_ids lrm_example"
  unfolding used_ids_def by (rule image_eqI [of _ _ 0]) (simp_all add: lrm_example_def)

theorem agR_new_allocates_witness:
  "\<exists>rid lrm'. agR_new lrm_example = Inr (rid, lrm') \<and>
     (if [1 :: nat] = [] then rid = INVALID_ID \<and> lrm' = lrm_example
      else rid \<noteq> INVALID_ID \<and> rid \<notin> used_ids lrm_example \<and> used_ids lrm' = insert rid (used_ids lrm_example) \<and>
        lrm_ok lrm' (tl [1]) \<and> agR_get lrm' rid = Inr (Some (hd [1])) \<and>
        (\<forall>q. agR_get lrm' q = agR_get lrm_example q))"
  by (rule agR_new_allocates [OF lrm_example_ok])

text \<open>\<open>_agR_free\<close> of an id in use takes it out of use for good: the id finds nothing any
  more, every other id in use finds its slot as before, and the slot is the first idle one, as
  long as ids do not reach the end of their range.\<close>

theorem agR_free_retires:
  assumes "lrm_ok lrm is" and "rid \<in> used_ids lrm" and "unat rid + 2 * nat (lrm_max lrm) < 2 ^ 32"
  shows "\<exists>i lrm'. agR_free lrm rid = Inr lrm' \<and> lrm_ok lrm' (i # is) \<and> used_ids lrm' = used_ids lrm - {rid} \<and>
     agR_get lrm' rid = Inr None \<and>
     (\<forall>q. q \<noteq> rid \<longrightarrow> q \<in> used_ids lrm \<longrightarrow> agR_get lrm' q = agR_get lrm q)"
  by (rule agR_free_ok [OF assms])

theorem agR_free_retires_witness:
  "\<exists>i lrm'. agR_free lrm_example 4 = Inr lrm' \<and> lrm_ok lrm' (i # [1]) \<and> used_ids lrm' = used_ids lrm_example - {4} \<and>
     agR_get lrm' 4 = Inr None \<and>
     (\<forall>q. q \<noteq> 4 \<longrightarrow> q \<in> used_ids lrm_example \<longrightarrow> agR_get lrm' q = agR_get lrm_example q)"
proof -
  have "unat (4 :: resid) + 2 * nat (lrm_max lrm_example) < 2 ^ 32" by (simp add: lrm_example_def)
  from agR_free_retires [OF lrm_example_ok lrm_example_used this] show ?thesis by blast
qed

text \<open>When an id wraps and \<open>max\<close> does not divide \<open>2^32\<close>, the slot is lost: the next
  \<open>_agR_new\<close> hands out an id under which \<open>_agR_get\<close> does not find the slot.\<close>

theorem agR_free_wrap_loses_slot:
  assumes "lrm_ok lrm is" and "rid \<in> used_ids lrm" and "2 ^ 32 \<le> unat rid + nat (lrm_max lrm)"
    and "(2 ^ 32) mod nat (lrm_max lrm) \<noteq> 0"
  shows "\<exists>i lrm1 nid lrm2. agR_get lrm rid = Inr (Some i) \<and> agR_free lrm rid = Inr lrm1 \<and>
     agR_new lrm1 = Inr (nid, lrm2) \<and> agR_get lrm2 nid \<noteq> Inr (Some i)"
proof -
  obtain i where i: "i < length (lrm_data lrm)" "res_next (lrm_data lrm ! i) = InUse" "res_id (lrm_data lrm ! i) = rid"
    using assms(2) by (auto simp: used_ids_def)
  have m: "0 < lrm_max lrm" "lrm_max lrm \<le> INT_MAX" using assms(1) by (simp_all add: lrm_ok_def)
  have g: "agR_get lrm rid = Inr (Some i)" using agR_get_iff [OF assms(1)] i by blast
  define k where "k = nat (lrm_max lrm)"
  have k: "0 < k" "k < 2 ^ 31" using m by (simp_all add: k_def INT_MAX_def)
  define nid where "nid = rid + word_of_int (lrm_max lrm)"
  have w: "word_of_int (lrm_max lrm) = (word_of_nat k :: u32)" using m by (simp add: k_def)
  have u: "unat nid + 2 ^ 32 = unat rid + k"
  proof -
    have "unat nid = (unat rid + k) mod 2 ^ 32"
      using k unfolding nid_def w by (simp add: unat_word_ariths unsigned_of_nat take_bit_nat_eq_self)
    moreover have "unat rid + k < 2 ^ 32 + 2 ^ 32" using unat32_less [of rid] k by simp
    moreover have "2 ^ 32 \<le> unat rid + k" using assms(3) by (simp add: k_def)
    ultimately show ?thesis by (simp add: le_mod_geq)
  qed
  have "nid \<noteq> INVALID_ID"
  proof
    assume "nid = INVALID_ID"
    then have "unat nid = 2 ^ 32 - 1" by (simp add: INVALID_ID_def unsigned_minus_1_eq_mask mask_eq_exp_minus_1)
    with u k unat32_less [of rid] show False by simp
  qed
  let ?l1 = "lrm\<lparr>lrm_data := (lrm_data lrm)[i := \<lparr>res_id = nid, res_next = lrm_idle lrm\<rparr>], lrm_idle := Next i\<rparr>"
  have f: "agR_free lrm rid = Inr ?l1"
    using g i \<open>nid \<noteq> INVALID_ID\<close> by (simp add: agR_free_def agR_get_def nid_def Let_def)
  obtain l2 where l2: "agR_new ?l1 = Inr (nid, l2)" "lrm_max l2 = lrm_max lrm"
    using i(1) by (simp add: agR_new_def Let_def)
  have "unat nid mod k \<noteq> i"
  proof
    assume e: "unat nid mod k = i"
    have "unat rid mod k = i" using assms(1) i by (auto simp: lrm_ok_def k_def)
    then have "(unat rid + k) mod k = unat nid mod k" using e by simp
    then have "(unat nid + 2 ^ 32) mod k = unat nid mod k" using u by simp
    then have "(2 ^ 32) mod k = 0" by (metis add_diff_cancel_left' mod_eq_dvd_iff_nat dvd_imp_mod_0 le_add1)
    with assms(4) show False by (simp add: k_def)
  qed
  then have "agR_get l2 nid \<noteq> Inr (Some i)"
    using rid_mod [OF m, of nid] m l2(2)
    by (auto simp: agR_get_def get_lresource_def get_lresource_by_index_def Let_def k_def split: if_splits)
  then show ?thesis using g f l2 by blast
qed

definition lrm_worn :: lrm where
  "lrm_worn = \<lparr>lrm_max = 3, lrm_idle = ListEnd,
     lrm_data = [\<lparr>res_id = 0, res_next = InUse\<rparr>, \<lparr>res_id = 4294967293, res_next = InUse\<rparr>,
       \<lparr>res_id = 2, res_next = InUse\<rparr>]\<rparr>"

lemma lrm_worn_ok: "lrm_ok lrm_worn []" "4294967293 \<in> used_ids lrm_worn"
proof -
  show "lrm_ok lrm_worn []"
    by (simp add: lrm_ok_def lrm_worn_def INT_MAX_def INVALID_ID_def All_less_Suc)
  show "4294967293 \<in> used_ids lrm_worn"
    unfolding used_ids_def by (rule image_eqI [of _ _ 1]) (simp_all add: lrm_worn_def)
qed

theorem agR_free_wrap_loses_slot_witness:
  "\<exists>i lrm1 nid lrm2. agR_get lrm_worn 4294967293 = Inr (Some i) \<and> agR_free lrm_worn 4294967293 = Inr lrm1 \<and>
     agR_new lrm1 = Inr (nid, lrm2) \<and> agR_get lrm2 nid \<noteq> Inr (Some i)"
  by (rule agR_free_wrap_loses_slot [OF lrm_worn_ok]) (simp_all add: lrm_worn_def)

end
