(* ===== verification/GwClient.thy ===== *)
theory GwClient
  imports Registry Package ResManager
begin

text \<open>
  The gateway's table of logged-in clients, \<^verbatim>\<open>src/gateway/client.c\<close>: at most 10000 clients, found by player
  id through a hash map and kept in a queue in the order in which they were last used.

  Clients live in a heap from addresses to clients, a freed one is removed from it. \<open>alloc\<close> is the
  address \<open>malloc\<close> returns, \<open>flag0\<close> the member it leaves unset, \<open>now\<close> the value of
  \<open>agT_current()\<close>. What goes out on the network is returned: the connection and the bytes.
\<close>

section \<open>Operations\<close>

record client =
  cl_conn :: resid_t
  cl_world :: u32
  cl_playerid :: u64
  cl_last_active :: nat
  cl_protocol_flag :: u32
  cl_adult :: int
  cl_vip :: u32
  cl_vip2 :: u32

record client_table =
  client_hash :: "(u64, addr) agmap option"
  client_queue :: addr
  client_count :: int
  ct_links :: dlinks
  ct_heap :: "addr \<Rightarrow> client option"

definition INVALID_PLAYER_ID :: u64 where
  "INVALID_PLAYER_ID = 0xFFFFFFFF"

definition module_client_load :: "client_table \<Rightarrow> client_table res" where
  "module_client_load ct =
     (case agMap_new None of Inl f \<Rightarrow> Inl f | Inr m \<Rightarrow> Inr (ct\<lparr>client_hash := Some m\<rparr>))"

fun free_clients :: "nat \<Rightarrow> client_table \<Rightarrow> client_table res option" where
  "free_clients 0 ct = None"
| "free_clients (Suc fuel) ct =
     (if client_queue ct = 0 then Some (Inr ct)
      else
        let c = client_queue ct
        in if ct_heap ct c = None then Some (Inl UseAfterFree)
           else case dlist_remove (ct_links ct) (client_queue ct) c of
             Inl f \<Rightarrow> Some (Inl f)
           | Inr (q, links) \<Rightarrow>
               free_clients fuel (ct\<lparr>client_queue := q, ct_links := links, ct_heap := (ct_heap ct)(c := None)\<rparr>))"

definition module_client_unload :: "nat \<Rightarrow> client_table \<Rightarrow> client_table res option" where
  "module_client_unload fuel ct = run_bind (free_clients fuel ct) (\<lambda>ct. Some (Inr (ct\<lparr>client_hash := None\<rparr>)))"

definition hash_set :: "client_table \<Rightarrow> u64 \<Rightarrow> addr option \<Rightarrow> client_table res option" where
  "hash_set ct pid c =
     run_bind (agMap_ip_set (client_hash ct) pid c) (\<lambda>(_, mp). Some (Inr (ct\<lparr>client_hash := mp\<rparr>)))"

definition queue_tail :: "client_table \<Rightarrow> addr \<Rightarrow> client_table res option" where
  "queue_tail ct c =
     (case dlist_insert_tail (ct_links ct) (client_queue ct) c of
        Inl f \<Rightarrow> Some (Inl f)
      | Inr (q, links) \<Rightarrow> Some (Inr (ct\<lparr>client_queue := q, ct_links := links\<rparr>)))"

definition queue_remove :: "client_table \<Rightarrow> addr \<Rightarrow> client_table res option" where
  "queue_remove ct c =
     (case dlist_remove (ct_links ct) (client_queue ct) c of
        Inl f \<Rightarrow> Some (Inl f)
      | Inr (q, links) \<Rightarrow> Some (Inr (ct\<lparr>client_queue := q, ct_links := links\<rparr>)))"

definition client_new ::
  "addr option \<Rightarrow> u32 \<Rightarrow> nat \<Rightarrow> client_table \<Rightarrow> resid_t \<Rightarrow> u32 \<Rightarrow> u64 \<Rightarrow> (addr \<times> client_table) res option" where
  "client_new alloc flag0 now ct conn world playerid =
     (case (if client_count ct < 10000 then alloc else None) of
        None \<Rightarrow> Some (Inr (0, ct))
      | Some c \<Rightarrow>
          let ct = ct\<lparr>client_count := client_count ct + 1, ct_links := dlist_init (ct_links ct) c,
                      ct_heap := (ct_heap ct)(c \<mapsto>
                        \<lparr>cl_conn = conn, cl_world = world, cl_playerid = playerid, cl_last_active = now,
                         cl_protocol_flag = flag0, cl_adult = 0, cl_vip = 0, cl_vip2 = 0\<rparr>)\<rparr>
          in run_bind (hash_set ct playerid (Some c)) (\<lambda>ct.
             run_bind (queue_tail ct c) (\<lambda>ct. Some (Inr (c, ct)))))"

definition client_free :: "client_table \<Rightarrow> addr \<Rightarrow> client_table res option" where
  "client_free ct c =
     (if c = 0 then Some (Inr ct)
      else case ct_heap ct c of
        None \<Rightarrow> Some (Inl UseAfterFree)
      | Some cl \<Rightarrow>
          run_bind (hash_set ct (cl_playerid cl) None) (\<lambda>ct.
          run_bind (queue_remove ct c) (\<lambda>ct.
            Some (Inr (ct\<lparr>ct_heap := (ct_heap ct)(c := None), client_count := client_count ct - 1\<rparr>)))))"

definition client_set :: "nat \<Rightarrow> client_table \<Rightarrow> addr \<Rightarrow> resid_t \<Rightarrow> u32 \<Rightarrow> u64 \<Rightarrow> client_table res option" where
  "client_set now ct c conn world playerid =
     (if \<not> (c \<noteq> 0 \<and> playerid \<noteq> INVALID_PLAYER_ID) then Some (Inl Assertion)
      else case ct_heap ct c of
        None \<Rightarrow> Some (Inl UseAfterFree)
      | Some cl \<Rightarrow>
          run_bind (if cl_playerid cl \<noteq> INVALID_PLAYER_ID then hash_set ct (cl_playerid cl) None else Some (Inr ct)) (\<lambda>ct.
          run_bind (if dl_next (ct_links ct) c \<noteq> 0 \<and> dl_prev (ct_links ct) c \<noteq> 0 then queue_remove ct c else Some (Inr ct)) (\<lambda>ct.
            let ct = ct\<lparr>ct_heap := (ct_heap ct)(c \<mapsto>
                  cl\<lparr>cl_last_active := now, cl_conn := conn, cl_world := world, cl_playerid := playerid\<rparr>)\<rparr>
            in run_bind (hash_set ct playerid (Some c)) (\<lambda>ct. queue_tail ct c))))"

definition client_get_by_playerid :: "nat \<Rightarrow> client_table \<Rightarrow> u64 \<Rightarrow> (addr \<times> client_table) res option" where
  "client_get_by_playerid now ct playerid =
     (case agMap_ip_get (client_hash ct) playerid of
        None \<Rightarrow> Some (Inr (0, ct))
      | Some c \<Rightarrow>
          (case ct_heap ct c of
             None \<Rightarrow> Some (Inl UseAfterFree)
           | Some cl \<Rightarrow>
               run_bind (queue_remove ct c) (\<lambda>ct.
               run_bind (queue_tail (ct\<lparr>ct_heap := (ct_heap ct)(c \<mapsto> cl\<lparr>cl_last_active := now\<rparr>)\<rparr>) c) (\<lambda>ct.
                 Some (Inr (c, ct))))))"

text \<open>The loop over the queue: the addresses in the order in which \<open>dlist_next\<close> gives them.\<close>

fun queue_iter :: "nat \<Rightarrow> client_table \<Rightarrow> addr \<Rightarrow> addr list option" where
  "queue_iter 0 ct ite = None"
| "queue_iter (Suc fuel) ct ite =
     (let ite = dlist_next (ct_links ct) (client_queue ct) ite
      in if ite = 0 then Some [] else map_option ((#) ite) (queue_iter fuel ct ite))"

text \<open>The clients for which \<open>client_foreach\<close> calls its function (which does not change the table).\<close>

definition client_foreach :: "nat \<Rightarrow> client_table \<Rightarrow> addr list option" where
  "client_foreach fuel ct =
     map_option (filter (\<lambda>c. case ct_heap ct c of None \<Rightarrow> False | Some cl \<Rightarrow> cl_conn cl \<noteq> INVALID_ID)) (queue_iter fuel ct 0)"

definition client_send :: "client_table \<Rightarrow> addr \<Rightarrow> u32 \<Rightarrow> u32 \<Rightarrow> byte list \<Rightarrow> (resid_t \<times> byte list) option res" where
  "client_send ct c cmd flag msg =
     (if c = 0 then Inr None
      else case ct_heap ct c of
        None \<Rightarrow> Inl UseAfterFree
      | Some cl \<Rightarrow> Inr (Some (cl_conn cl, client_packet cmd flag msg)))"

definition client_broadcast :: "nat \<Rightarrow> client_table \<Rightarrow> u32 \<Rightarrow> u32 \<Rightarrow> byte list \<Rightarrow> (resid_t \<times> byte list) list option" where
  "client_broadcast fuel ct cmd flag msg =
     map_option (map (\<lambda>c. (cl_conn (the (ct_heap ct c)), client_packet cmd flag msg))) (client_foreach fuel ct)"

section \<open>Invariant\<close>

definition ckey :: "client_table \<Rightarrow> addr \<Rightarrow> u64 option" where
  "ckey ct a = map_option cl_playerid (ct_heap ct a)"

definition clients_ok :: "client_table \<Rightarrow> addr list \<Rightarrow> bool" where
  "clients_ok ct xs \<longleftrightarrow>
     reg_ok (client_hash ct) (ct_links ct) (client_queue ct) (ckey ct) xs \<and> client_count ct = int (length xs)"

lemma clients_ok_live: "clients_ok ct xs \<Longrightarrow> a \<in> set xs \<Longrightarrow> \<exists>cl. ct_heap ct a = Some cl"
  using reg_okD(2)[of "client_hash ct" "ct_links ct" "client_queue ct" "ckey ct" xs a]
  by (auto simp: clients_ok_def ckey_def)

lemma clients_ok_get:
  "clients_ok ct xs \<Longrightarrow> agMap_ip_get (client_hash ct) k = Some a \<longleftrightarrow> a \<in> set xs \<and> map_option cl_playerid (ct_heap ct a) = Some k"
  using reg_okD(3)[of "client_hash ct" "ct_links ct" "client_queue ct" "ckey ct" xs k a]
  by (simp add: clients_ok_def ckey_def)

lemma client_new_ok:
  assumes "clients_ok ct xs" and "length xs < 10000"
    and "c \<noteq> 0" and "ct_heap ct c = None" and "agMap_ip_get (client_hash ct) playerid = None"
  shows "\<exists>ct'. client_new (Some c) flag0 now ct conn world playerid = Some (Inr (c, ct')) \<and> clients_ok ct' (xs @ [c])
    \<and> ct_heap ct' = (ct_heap ct)(c \<mapsto> \<lparr>cl_conn = conn, cl_world = world, cl_playerid = playerid, cl_last_active = now,
         cl_protocol_flag = flag0, cl_adult = 0, cl_vip = 0, cl_vip2 = 0\<rparr>)"
proof -
  let ?cl = "\<lparr>cl_conn = conn, cl_world = world, cl_playerid = playerid, cl_last_active = now,
         cl_protocol_flag = flag0, cl_adult = 0, cl_vip = 0, cl_vip2 = 0\<rparr>"
  have c: "c \<notin> set xs"
    using clients_ok_live[OF assms(1), of c] assms(4) by auto
  have reg: "reg_ok (client_hash ct) (dlist_init (ct_links ct) c) (client_queue ct) (ckey ct) xs"
    by (rule reg_ok_cong[of _ "ct_links ct" _ "ckey ct"]) (use assms(1) c in \<open>auto simp: clients_ok_def\<close>)
  have det: "detached (dlist_init (ct_links ct) c) c" by (simp add: detached_def)
  obtain mp q links where r: "agMap_ip_set (client_hash ct) playerid (Some c) = Some (Inr (None, mp))"
    "dlist_insert_tail (dlist_init (ct_links ct) c) (client_queue ct) c = Inr (q, links)"
    "reg_ok mp links q ((ckey ct)(c := Some playerid)) (xs @ [c])"
    by (rule reg_add[OF reg _ det assms(3) c assms(5)]) (use assms(2) in \<open>simp add: REG_MAX_def\<close>, rule that)
  let ?ct = "ct\<lparr>client_count := client_count ct + 1, ct_heap := (ct_heap ct)(c \<mapsto> ?cl), client_hash := mp,
    client_queue := q, ct_links := links\<rparr>"
  have "client_new (Some c) flag0 now ct conn world playerid = Some (Inr (c, ?ct))"
    using assms(1,2) r(1,2) by (simp add: client_new_def clients_ok_def hash_set_def queue_tail_def Let_def)
  moreover have "ckey ?ct = (ckey ct)(c := Some playerid)"
    by (auto simp: ckey_def)
  then have "clients_ok ?ct (xs @ [c])"
    using assms(1) r(3) by (simp add: clients_ok_def)
  ultimately show ?thesis by auto
qed

lemma client_free_ok:
  assumes "clients_ok ct xs" and "length xs \<le> 10000" and "c \<in> set xs"
  shows "\<exists>ct'. client_free ct c = Some (Inr ct') \<and> clients_ok ct' (remove1 c xs) \<and> ct_heap ct' = (ct_heap ct)(c := None)"
proof -
  obtain cl where cl: "ct_heap ct c = Some cl"
    using clients_ok_live[OF assms(1,3)] by blast
  have reg: "reg_ok (client_hash ct) (ct_links ct) (client_queue ct) (ckey ct) xs"
    and key: "ckey ct c = Some (cl_playerid cl)"
    using assms(1) cl by (simp_all add: clients_ok_def ckey_def)
  obtain mp q links where r: "agMap_ip_set (client_hash ct) (cl_playerid cl) None = Some (Inr (Some c, mp))"
    "dlist_remove (ct_links ct) (client_queue ct) c = Inr (q, links)"
    "reg_ok mp links q ((ckey ct)(c := None)) (remove1 c xs)"
    by (rule reg_del[OF reg _ assms(3) key]) (use assms(2) in \<open>simp add: REG_MAX_def\<close>, rule that)
  have "c \<noteq> 0" using reg_okD(1)[OF reg] assms(3) by (auto simp: dring_def intro: ccontr)
  let ?ct = "ct\<lparr>client_hash := mp, client_queue := q, ct_links := links, ct_heap := (ct_heap ct)(c := None),
    client_count := client_count ct - 1\<rparr>"
  have "client_free ct c = Some (Inr ?ct)"
    using cl r(1,2) \<open>c \<noteq> 0\<close> by (simp add: client_free_def hash_set_def queue_remove_def)
  moreover have "ckey ?ct = (ckey ct)(c := None)"
    by (auto simp: ckey_def)
  then have "clients_ok ?ct (remove1 c xs)"
    using assms(1,3) r(3) length_pos_if_in_set[OF assms(3)]
    by (simp add: clients_ok_def length_remove1 of_nat_diff Suc_leI)
  ultimately show ?thesis by auto
qed

lemma client_get_ok:
  assumes "clients_ok ct xs" and "c \<in> set xs" and "ct_heap ct c = Some cl"
  shows "\<exists>ct'. client_get_by_playerid now ct (cl_playerid cl) = Some (Inr (c, ct')) \<and> clients_ok ct' (remove1 c xs @ [c])
    \<and> ct_heap ct' = (ct_heap ct)(c \<mapsto> cl\<lparr>cl_last_active := now\<rparr>) \<and> client_hash ct' = client_hash ct"
proof -
  have reg: "reg_ok (client_hash ct) (ct_links ct) (client_queue ct) (ckey ct) xs"
    and get: "agMap_ip_get (client_hash ct) (cl_playerid cl) = Some c"
    using assms clients_ok_get[OF assms(1)] by (simp_all add: clients_ok_def)
  obtain q1 l1 q links where r: "dlist_remove (ct_links ct) (client_queue ct) c = Inr (q1, l1)"
    "dlist_insert_tail l1 q1 c = Inr (q, links)" "reg_ok (client_hash ct) links q (ckey ct) (remove1 c xs @ [c])"
    by (rule reg_touch[OF reg assms(2)]) (rule that)
  let ?ct = "ct\<lparr>client_queue := q, ct_links := links, ct_heap := (ct_heap ct)(c \<mapsto> cl\<lparr>cl_last_active := now\<rparr>)\<rparr>"
  have "client_get_by_playerid now ct (cl_playerid cl) = Some (Inr (c, ?ct))"
    using get assms(3) r(1,2) by (simp add: client_get_by_playerid_def queue_remove_def queue_tail_def)
  moreover have "ckey ?ct = ckey ct"
    using assms(3) by (auto simp: ckey_def)
  then have "clients_ok ?ct (remove1 c xs @ [c])"
    using assms(1,2) r(3) length_pos_if_in_set[OF assms(2)]
    by (simp add: clients_ok_def length_remove1)
  ultimately show ?thesis by auto
qed

lemma queue_iter_suffix:
  assumes "dring (ct_links ct) (client_queue ct) (as @ n # bs)"
  shows "queue_iter (Suc (length bs)) ct n = Some bs"
  using assms
proof (induction bs arbitrary: as n)
  case Nil
  then show ?case by (simp add: dlist_next_ring(1)[OF Nil] Let_def)
next
  case (Cons b bs)
  have "b \<noteq> 0" using Cons.prems by (auto simp: dring_def)
  then show ?case
    using Cons.IH[of "as @ [n]" b] Cons.prems by (simp add: dlist_next_ring(1)[OF Cons.prems] Let_def)
qed

lemma queue_iter_all:
  assumes "dring (ct_links ct) (client_queue ct) xs"
  shows "queue_iter (Suc (length xs)) ct 0 = Some xs"
proof (cases xs)
  case Nil
  then show ?thesis using assms by (simp add: dring_def dlist_next_def Let_def)
next
  case (Cons x ys)
  have r: "dring (ct_links ct) (client_queue ct) ([] @ x # ys)" using assms Cons by simp
  have "x \<noteq> 0" using r by (auto simp: dring_def)
  then show ?thesis
    using queue_iter_suffix[OF r] dlist_next_ring(2)[OF r] Cons by (simp add: Let_def)
qed

section \<open>Properties\<close>

text \<open>The table of clients is a map by player id. Within the limit a new client for an id that is not
  registered is found under that id from then on and becomes the most recently used, the other
  clients are found as before; after it is freed the table holds what it held, and count and queue
  agree throughout. At the limit no client is made.\<close>

theorem client_table_new_get_free:
  assumes "clients_ok ct xs" and "c \<noteq> 0" and "ct_heap ct c = None" and "agMap_ip_get (client_hash ct) playerid = None"
    and "length xs \<le> 10000"
  shows "if length xs < 10000
    then \<exists>ct1 ct2 ct3. client_new (Some c) flag0 now ct conn world playerid = Some (Inr (c, ct1))
      \<and> clients_ok ct1 (xs @ [c])
      \<and> client_get_by_playerid later ct1 playerid = Some (Inr (c, ct2)) \<and> clients_ok ct2 (xs @ [c])
      \<and> (\<forall>q. q \<noteq> playerid \<longrightarrow> agMap_ip_get (client_hash ct2) q = agMap_ip_get (client_hash ct) q)
      \<and> client_free ct2 c = Some (Inr ct3) \<and> clients_ok ct3 xs \<and> ct_heap ct3 = ct_heap ct
    else client_new (Some c) flag0 now ct conn world playerid = Some (Inr (0, ct))"
proof (cases "length xs < 10000")
  case True
  have c: "c \<notin> set xs"
    using clients_ok_live[OF assms(1), of c] assms(3) by auto
  let ?cl = "\<lparr>cl_conn = conn, cl_world = world, cl_playerid = playerid, cl_last_active = now,
         cl_protocol_flag = flag0, cl_adult = 0, cl_vip = 0, cl_vip2 = 0\<rparr>"
  obtain ct1 where 1: "client_new (Some c) flag0 now ct conn world playerid = Some (Inr (c, ct1))"
    "clients_ok ct1 (xs @ [c])" "ct_heap ct1 = (ct_heap ct)(c \<mapsto> ?cl)"
    using client_new_ok[OF assms(1) True assms(2,3,4)] by blast
  obtain ct2 where 2: "client_get_by_playerid later ct1 playerid = Some (Inr (c, ct2))" "clients_ok ct2 (xs @ [c])"
    "ct_heap ct2 = (ct_heap ct)(c \<mapsto> ?cl\<lparr>cl_last_active := later\<rparr>)"
    using client_get_ok[OF 1(2), of c ?cl later] 1(3) c by (auto simp: remove1_append)
  obtain ct3 where 3: "client_free ct2 c = Some (Inr ct3)" "clients_ok ct3 xs" "ct_heap ct3 = (ct_heap ct2)(c := None)"
    using client_free_ok[OF 2(2), of c] True c by (auto simp: remove1_append)
  have "agMap_ip_get (client_hash ct2) q = agMap_ip_get (client_hash ct) q" if "q \<noteq> playerid" for q
  proof -
    have "agMap_ip_get (client_hash ct2) q = Some a \<longleftrightarrow> agMap_ip_get (client_hash ct) q = Some a" for a
      unfolding clients_ok_get[OF 2(2)] clients_ok_get[OF assms(1)] using that c 2(3) by (cases "a = c") auto
    then show ?thesis by (metis not_None_eq)
  qed
  moreover have "ct_heap ct3 = ct_heap ct"
    using 3(3) 2(3) assms(3) by (simp add: fun_upd_idem)
  ultimately show ?thesis
    using True 1 2 3 by auto
next
  case False
  then show ?thesis using assms(1) by (simp add: client_new_def clients_ok_def)
qed

definition clients_example :: client_table where
  "clients_example = \<lparr>client_hash = Some \<lparr>m_heap = None, item_count = 0, buckets = []\<rparr>, client_queue = 0, client_count = 0,
     ct_links = \<lparr>dl_prev = \<lambda>_. 0, dl_next = \<lambda>_. 0\<rparr>, ct_heap = Map.empty\<rparr>"

lemma clients_example_ok: "clients_ok clients_example []"
proof -
  have "reg_ok (client_hash clients_example) (ct_links clients_example) 0 (ckey clients_example) []"
    unfolding clients_example_def client_table.simps
    by (rule reg_empty) (simp_all add: tight_map_def map_ok_def entries_def elems_def)
  then show ?thesis by (simp add: clients_ok_def clients_example_def)
qed

theorem client_table_new_get_free_witness:
  "\<exists>ct1 ct2 ct3. client_new (Some 16) 0 100 clients_example 3 0 77 = Some (Inr (16, ct1))
      \<and> client_get_by_playerid 200 ct1 77 = Some (Inr (16, ct2)) \<and> client_free ct2 16 = Some (Inr ct3) \<and> clients_ok ct3 []"
proof -
  have "ct_heap clients_example 16 = None" "agMap_ip_get (client_hash clients_example) 77 = None"
    by (simp_all add: clients_example_def agMap_ip_get_def ip_find_def map_find_def)
  then show ?thesis
    using client_table_new_get_free[OF clients_example_ok, of 16 77 0 100 3 0 200] by auto
qed

text \<open>A broadcast goes once to every client whose connection is valid, in the order of the queue, and each
  receives the message behind a header with its length.\<close>

theorem client_broadcast_reaches_all:
  assumes "clients_ok ct xs" and "client_header_size + length msg < 2 ^ 32"
  shows "\<exists>out. client_broadcast (Suc (length xs)) ct cmd flag msg = Some out
    \<and> map fst out = filter (\<lambda>conn. conn \<noteq> INVALID_ID) (map (\<lambda>c. cl_conn (the (ct_heap ct c))) xs)
    \<and> list_all (\<lambda>(conn, bytes). cut_frames client_frame bytes = ([bytes], [])
         \<and> get_client_header bytes = \<lparr>ch_len = word_of_nat (length bytes), ch_flag = flag, ch_cmd = cmd\<rparr>
         \<and> drop client_header_size bytes = msg) out"
proof -
  let ?ok = "\<lambda>c. case ct_heap ct c of None \<Rightarrow> False | Some cl \<Rightarrow> cl_conn cl \<noteq> INVALID_ID"
  let ?out = "map (\<lambda>c. (cl_conn (the (ct_heap ct c)), client_packet cmd flag msg)) (filter ?ok xs)"
  have "queue_iter (Suc (length xs)) ct 0 = Some xs"
    using assms(1) by (intro queue_iter_all) (auto simp: clients_ok_def reg_ok_def)
  then have "client_broadcast (Suc (length xs)) ct cmd flag msg = Some ?out"
    by (simp add: client_broadcast_def client_foreach_def del: queue_iter.simps)
  moreover have "?ok c = (cl_conn (the (ct_heap ct c)) \<noteq> INVALID_ID)" if "c \<in> set xs" for c
    using clients_ok_live[OF assms(1) that] by auto
  then have "map fst ?out = filter (\<lambda>conn. conn \<noteq> INVALID_ID) (map (\<lambda>c. cl_conn (the (ct_heap ct c))) xs)"
    by (simp add: filter_map comp_def cong: filter_cong)
  moreover have "cut_frames client_frame (client_packet cmd flag msg) = ([client_packet cmd flag msg], [])"
    using cut_client_packets[of "[(cmd, flag, msg)]"] assms(2) by simp
  then have "list_all (\<lambda>(conn, bytes). cut_frames client_frame bytes = ([bytes], [])
         \<and> get_client_header bytes = \<lparr>ch_len = word_of_nat (length bytes), ch_flag = flag, ch_cmd = cmd\<rparr>
         \<and> drop client_header_size bytes = msg) ?out"
    by (simp add: list_all_iff) (simp add: client_packet_def)
  ultimately show ?thesis by blast
qed

theorem client_broadcast_reaches_all_witness:
  "client_broadcast 1 clients_example 104 1 [5] = Some []"
  using client_broadcast_reaches_all[OF clients_example_ok, of "[5]" 104 1] by (simp add: client_header_size_def)

end
