(* ===== verification/GwMsg.thy ===== *)
theory GwMsg
  imports AmfRoundtrip
begin

text \<open>
  How the gateway assembles its messages: a buffer on the stack is filled by a chain of
  \<open>offset += amf_encode_...(buff + offset, sizeof(buff) - offset, ...)\<close>. An encoder is a
  function of the room it is given. The offset moves by what it returns, its bytes are stored
  at the old offset; a store past the end of the buffer is a fault.
\<close>

section \<open>Chains of encoders\<close>

fun put_all :: "nat \<Rightarrow> (nat \<Rightarrow> enc res) list \<Rightarrow> nat \<Rightarrow> byte list \<Rightarrow> byte list res" where
  "put_all sz [] off m = Inr (take off m)"
| "put_all sz (e # es) off m =
     (case e (sz - off) of
        Inl f \<Rightarrow> Inl f
      | Inr (n, w) \<Rightarrow>
          if sz < off + length w then Inl OutOfBounds
          else put_all sz es (off + n) (store_at m off w))"

definition encode_message :: "nat \<Rightarrow> (nat \<Rightarrow> enc res) list \<Rightarrow> byte list res" where
  "encode_message sz es = put_all sz es 0 []"

text \<open>An encoder that writes \<open>w\<close> whenever there is room for it.\<close>

definition writes :: "(nat \<Rightarrow> enc res) \<Rightarrow> byte list \<Rightarrow> bool" where
  "writes e w \<longleftrightarrow> (\<forall>k. length w \<le> k \<longrightarrow> e k = Inr (length w, w))"

lemma put_all_writes:
  "list_all2 writes es ws \<Longrightarrow> length m + length (concat ws) \<le> sz \<Longrightarrow> put_all sz es (length m) m = Inr (m @ concat ws)"
proof (induction es ws arbitrary: m rule: list_all2_induct)
  case (Cons e es w ws)
  then have "e (sz - length m) = Inr (length w, w)" by (simp add: writes_def)
  then show ?case using Cons.IH[of "m @ w"] Cons.prems by simp
qed simp

lemma encode_message_writes:
  "list_all2 writes es ws \<Longrightarrow> length (concat ws) \<le> sz \<Longrightarrow> encode_message sz es = Inr (concat ws)"
  using put_all_writes[of es ws "[]" sz] by (simp add: encode_message_def)

section \<open>The encoders of the gateway\<close>

lemma writes_integer: "writes (\<lambda>k. amf_encode_integer k i) (amf_wire (Some (AVinteger 1 i)))"
proof (cases "i > AMF_INTEGER_MAX")
  case True
  then show ?thesis
    by (simp add: writes_def amf_encode_integer_def amf_encode_integer_with_type_def amf_encode_double_wire)
next
  case False
  then show ?thesis
    using amf_encode_integer_wire[of amf_integer i] by (auto simp: writes_def amf_encode_integer_def not_less leD)
qed

lemma writes_double: "writes (\<lambda>k. Inr (amf_encode_double k d)) (amf_wire (Some (AVdouble 1 d)))"
  by (simp add: writes_def amf_encode_double_wire)

lemma writes_string:
  assumes "length s < 2 ^ 28" and "0 \<notin> set s"
  shows "writes (\<lambda>k. amf_encode_string k (s @ 0 # t) 0) (amf_wire (Some (AVstring s)))"
proof (unfold writes_def, intro allI impI)
  fix k
  assume "length (amf_wire (Some (AVstring s))) \<le> k"
  then have k: "1 + length (u29_bytes (len_word (length s))) + length s \<le> k" by simp
  show "amf_encode_string k (s @ 0 # t) 0 = Inr (length (amf_wire (Some (AVstring s))), amf_wire (Some (AVstring s)))"
    using amf_encode_block_wire[OF assms(1) k, of "s @ 0 # t"] c_strlen_append[OF assms(2)]
    by (simp add: amf_encode_string_def)
qed

lemma writes_array: "n < 2 ^ 28 \<Longrightarrow>
    writes (\<lambda>k. amf_encode_array k (word_of_nat n)) (amf_code amf_array # u29_bytes (len_word n) @ [1])"
  by (simp add: writes_def amf_encode_array_wire)

text \<open>An array and its items make one value.\<close>

lemma encode_array_message:
  assumes "length es = n" and "n < 2 ^ 28" and "list_all2 writes es (map amf_wire items)"
    and "length (amf_wire (Some (AVarray n items))) \<le> sz"
  shows "encode_message sz ((\<lambda>k. amf_encode_array k (word_of_nat n)) # es) = Inr (amf_wire (Some (AVarray n items)))"
proof -
  have n: "length items = n" using assms(1,3) by (auto dest: list_all2_lengthD)
  have w: "amf_wires (length its) its = concat (map amf_wire its)" for its
    by (induction its) simp_all
  have "amf_wire (Some (AVarray n items)) =
      concat ((amf_code amf_array # u29_bytes (len_word n) @ [1]) # map amf_wire items)"
    using w[of items] n by simp
  then show ?thesis
    using encode_message_writes[of "(\<lambda>k. amf_encode_array k (word_of_nat n)) # es"
      "(amf_code amf_array # u29_bytes (len_word n) @ [1]) # map amf_wire items" sz] assms writes_array[OF assms(2)]
    by simp
qed

text \<open>Sizes of the encoded items.\<close>

lemma u29_bytes_max: "v \<le> 0x1FFFFFFF \<Longrightarrow> length (u29_bytes v) \<le> 4"
  using amf_encode_u29_length(2)[OF u29_bytes_encode(1)] by simp

lemma wire_integer_max: "length (amf_wire (Some (AVinteger 1 i))) \<le> 9"
  using u29_bytes_max[of i] by (auto simp: AMF_INTEGER_MAX_def not_less)

lemma wire_string_max: "length s < 2 ^ 28 \<Longrightarrow> length (amf_wire (Some (AVstring s))) \<le> 5 + length s"
  using u29_bytes_max[OF len_word_range[of "length s"]] by simp

section \<open>Reading a message back\<close>

lemma read_array_message:
  assumes "amf_wf v" and "amf_exact v" and "length (amf_strings v) \<le> STRING_REF_MAX"
  shows "amf_read (amf_wire v) = Inr (Some (amf_norm v, length (amf_wire v)), amf_strings v)"
  using amf_read_wire_aux(1)[of v "[]" "[]"] assms by (simp add: amf_read_def)

lemma get_integer_norm: "amf_get_integer (Some (amf_norm (Some (AVinteger n i)))) = Inr i"
  by (simp add: u32_of_double_of_u32)

end
