(* ===== verification/Expiry.thy ===== *)
theory Expiry
  imports Registry
begin

text \<open>
  Registries whose objects expire: connections that have not logged in yet (\<^verbatim>\<open>src/gateway/auth.c\<close>) and
  questions to the authentication server (\<^verbatim>\<open>src/gateway/authserver.c\<close>) are appended to a queue with the time
  at which they were made, found by a number, and thrown out from the head of the queue when they are too
  old. Both modules write these steps out; here they are stated once, over the type \<open>'o\<close> of the objects.
\<close>

section \<open>Operations\<close>

record 'o registry =
  rg_map :: "(u64, addr) agmap option"
  rg_queue :: addr
  rg_links :: dlinks
  rg_heap :: "addr \<Rightarrow> 'o option"

text \<open>\<open>dlist_remove\<close>, \<open>_agMap_ip_set(..., 0)\<close> and \<open>free\<close>, as they follow each other in both modules.\<close>

definition take_out :: "u64 \<Rightarrow> 'o registry \<Rightarrow> addr \<Rightarrow> ('o \<times> 'o registry) res option" where
  "take_out k r a =
     (case rg_heap r a of
        None \<Rightarrow> Some (Inl UseAfterFree)
      | Some x \<Rightarrow>
          (case dlist_remove (rg_links r) (rg_queue r) a of
             Inl f \<Rightarrow> Some (Inl f)
           | Inr (q, links) \<Rightarrow>
               run_bind (agMap_ip_set (rg_map r) k None) (\<lambda>(_, mp).
                 Some (Inr (x, r\<lparr>rg_map := mp, rg_queue := q, rg_links := links, rg_heap := (rg_heap r)(a := None)\<rparr>)))))"

text \<open>The loop over the head of the queue, with the objects thrown out.\<close>

fun expire :: "('o \<Rightarrow> u64) \<Rightarrow> ('o \<Rightarrow> bool) \<Rightarrow> nat \<Rightarrow> 'o registry \<Rightarrow> ('o list \<times> 'o registry) res option" where
  "expire key old 0 r = None"
| "expire key old (Suc fuel) r =
     (if rg_queue r = 0 then Some (Inr ([], r))
      else case rg_heap r (rg_queue r) of
        None \<Rightarrow> Some (Inl UseAfterFree)
      | Some x \<Rightarrow>
          if \<not> old x then Some (Inr ([], r))
          else run_bind (take_out (key x) r (rg_queue r)) (\<lambda>(x, r).
               run_bind (expire key old fuel r) (\<lambda>(xs, r). Some (Inr (x # xs, r)))))"

section \<open>Invariant\<close>

definition rg_ok :: "('o \<Rightarrow> u64) \<Rightarrow> 'o registry \<Rightarrow> addr list \<Rightarrow> bool" where
  "rg_ok key r xs \<longleftrightarrow> reg_ok (rg_map r) (rg_links r) (rg_queue r) (\<lambda>a. map_option key (rg_heap r a)) xs"

definition objs :: "'o registry \<Rightarrow> addr list \<Rightarrow> 'o list" where
  "objs r xs = map (\<lambda>a. the (rg_heap r a)) xs"

lemma rg_ok_live: "rg_ok key r xs \<Longrightarrow> a \<in> set xs \<Longrightarrow> \<exists>x. rg_heap r a = Some x"
  unfolding rg_ok_def by (drule (1) reg_okD(2)) auto

lemma rg_ok_dring: "rg_ok key r xs \<Longrightarrow> dring (rg_links r) (rg_queue r) xs"
  unfolding rg_ok_def by (rule reg_okD(1))

lemma rg_ok_get:
  "rg_ok key r xs \<Longrightarrow> agMap_ip_get (rg_map r) k = Some a \<longleftrightarrow> a \<in> set xs \<and> map_option key (rg_heap r a) = Some k"
  unfolding rg_ok_def by (rule reg_okD(3))

lemma rg_ok_distinct: "rg_ok key r xs \<Longrightarrow> distinct xs \<and> 0 \<notin> set xs"
  using rg_ok_dring[of key r xs] by (simp add: dring_def)

lemma take_out_ok:
  assumes "rg_ok key r xs" and "length xs < REG_MAX" and "a \<in> set xs" and "rg_heap r a = Some x"
  obtains r' where "take_out (key x) r a = Some (Inr (x, r'))" and "rg_ok key r' (remove1 a xs)"
    and "rg_heap r' = (rg_heap r)(a := None)"
proof -
  have reg: "reg_ok (rg_map r) (rg_links r) (rg_queue r) (\<lambda>a. map_option key (rg_heap r a)) xs"
    using assms(1) by (simp add: rg_ok_def)
  obtain mp q links where d: "agMap_ip_set (rg_map r) (key x) None = Some (Inr (Some a, mp))"
    "dlist_remove (rg_links r) (rg_queue r) a = Inr (q, links)"
    "reg_ok mp links q ((\<lambda>a. map_option key (rg_heap r a))(a := None)) (remove1 a xs)"
    by (rule reg_del[OF reg assms(2,3), of "key x"]) (simp add: assms(4), rule that)
  let ?r = "r\<lparr>rg_map := mp, rg_queue := q, rg_links := links, rg_heap := (rg_heap r)(a := None)\<rparr>"
  have "(\<lambda>b. map_option key (((rg_heap r)(a := None)) b)) = (\<lambda>a. map_option key (rg_heap r a))(a := None)"
    by auto
  then have "rg_ok key ?r (remove1 a xs)" using d(3) by (simp add: rg_ok_def)
  with that[of ?r] show thesis using d(1,2) assms(4) by (simp add: take_out_def)
qed

text \<open>The objects thrown out are those up to the first that is not too old.\<close>

lemma expire_ok:
  assumes "rg_ok key r xs" and "length xs < REG_MAX" and "length xs < fuel"
  obtains r' where "expire key old fuel r =
      Some (Inr (takeWhile old (objs r xs), r'))"
    and "rg_ok key r' (dropWhile (\<lambda>a. old (the (rg_heap r a))) xs)"
    and "\<And>a. rg_heap r' a = (if a \<in> set (takeWhile (\<lambda>a. old (the (rg_heap r a))) xs) then None else rg_heap r a)"
  using assms
proof (induction xs arbitrary: r fuel thesis)
  case Nil
  then have "rg_queue r = 0" using rg_ok_dring[of key r "[]"] dring_Nil_iff by blast
  with Nil.prems(1)[of r] Nil.prems(2,4) show ?case by (cases fuel) (simp_all add: objs_def)
next
  case (Cons b xs)
  obtain x where x: "rg_heap r b = Some x" using rg_ok_live[OF Cons.prems(2), of b] by auto
  have q: "rg_queue r = b" "b \<noteq> 0" using rg_ok_dring[OF Cons.prems(2)] dring_hd by blast+
  obtain fl where fl: "fuel = Suc fl" "length xs < fl" using Cons.prems(4) by (cases fuel) auto
  have nd: "b \<notin> set xs" using rg_ok_distinct[OF Cons.prems(2)] by simp
  show ?case
  proof (cases "old x")
    case False
    with Cons.prems(1)[of r] Cons.prems(2) x q fl show ?thesis by (simp add: objs_def)
  next
    case True
    obtain r1 where r1: "take_out (key x) r b = Some (Inr (x, r1))" "rg_ok key r1 xs" "rg_heap r1 = (rg_heap r)(b := None)"
      by (rule take_out_ok[OF Cons.prems(2,3), of b x]) (use x that in auto)
    have same: "rg_heap r1 a = rg_heap r a" if "a \<in> set xs" for a using that nd r1(3) by auto
    have o: "objs r1 xs = objs r xs" using same by (simp add: objs_def)
    have tw: "takeWhile (\<lambda>a. old (the (rg_heap r1 a))) xs = takeWhile (\<lambda>a. old (the (rg_heap r a))) xs"
      "dropWhile (\<lambda>a. old (the (rg_heap r1 a))) xs = dropWhile (\<lambda>a. old (the (rg_heap r a))) xs"
      by (rule takeWhile_cong dropWhile_cong; simp add: same)+
    obtain r2 where r2: "expire key old fl r1 = Some (Inr (takeWhile old (objs r1 xs), r2))"
      "rg_ok key r2 (dropWhile (\<lambda>a. old (the (rg_heap r1 a))) xs)"
      "\<And>a. rg_heap r2 a = (if a \<in> set (takeWhile (\<lambda>a. old (the (rg_heap r1 a))) xs) then None else rg_heap r1 a)"
      by (rule Cons.IH[OF _ r1(2) _ fl(2)]) (use Cons.prems(3) that in auto)
    have "expire key old fuel r = Some (Inr (takeWhile old (objs r (b # xs)), r2))"
      using x q True r1(1) r2(1)[unfolded o] fl(1) by (simp add: objs_def)
    then show ?thesis
      using Cons.prems(1)[of r2] r2(2,3) x True r1(3) tw by auto
  qed
qed

text \<open>When the queue is in the order of the times, exactly the old objects are thrown out.\<close>

lemma sorted_takeWhile_old:
  fixes t :: "'a \<Rightarrow> int"
  assumes "sorted (map t xs)"
  shows "takeWhile (\<lambda>x. t x < b) xs = filter (\<lambda>x. t x < b) xs" and "dropWhile (\<lambda>x. t x < b) xs = filter (\<lambda>x. b \<le> t x) xs"
  using assms
proof (induction xs)
  case (Cons x xs)
  {
    case 1
    have "b \<le> t x \<Longrightarrow> filter (\<lambda>x. t x < b) xs = []" using 1 by (auto simp: filter_empty_conv not_less)
    then show ?case using Cons.IH 1 by (auto simp: not_less)
  next
    case 2
    have "b \<le> t x \<Longrightarrow> filter (\<lambda>x. b \<le> t x) xs = xs" using 2 by (auto simp: filter_id_conv)
    then show ?case using Cons.IH 2 by (auto simp: not_less)
  }
qed simp_all

section \<open>Adding an object\<close>

definition put_in :: "'o registry \<Rightarrow> addr \<Rightarrow> 'o \<Rightarrow> 'o registry" where
  "put_in r a x = r\<lparr>rg_links := dlist_init (rg_links r) a, rg_heap := (rg_heap r)(a \<mapsto> x)\<rparr>"

lemma put_in_ok:
  assumes "rg_ok key r xs" and "length xs < REG_MAX" and "a \<noteq> 0" and "rg_heap r a = None"
    and "agMap_ip_get (rg_map r) (key x) = None"
  obtains mp q links where "agMap_ip_set (rg_map r) (key x) (Some a) = Some (Inr (None, mp))"
    and "dlist_insert_tail (rg_links (put_in r a x)) (rg_queue r) a = Inr (q, links)"
    and "rg_ok key ((put_in r a x)\<lparr>rg_map := mp, rg_queue := q, rg_links := links\<rparr>) (xs @ [a])"
proof -
  have a: "a \<notin> set xs" using rg_ok_live[OF assms(1), of a] assms(4) by auto
  have reg: "reg_ok (rg_map r) (dlist_init (rg_links r) a) (rg_queue r) (\<lambda>a. map_option key (rg_heap r a)) xs"
    by (rule reg_ok_cong[of _ "rg_links r" _ "\<lambda>a. map_option key (rg_heap r a)"]) (use assms(1) a in \<open>auto simp: rg_ok_def\<close>)
  have det: "detached (dlist_init (rg_links r) a) a" by (simp add: detached_def)
  have "(\<lambda>b. map_option key (((rg_heap r)(a \<mapsto> x)) b)) = (\<lambda>a. map_option key (rg_heap r a))(a := Some (key x))" by auto
  then show thesis
    by (rule_tac reg_add[OF reg assms(2) det assms(3) a assms(5)], rule_tac that)
      (simp_all add: rg_ok_def put_in_def)
qed

end
