(* ===== verification/GwWaiting.thy ===== *)
theory GwWaiting
  imports Expiry NetConn
begin

text \<open>
  Connections that have not logged in yet, \<^verbatim>\<open>src/gateway/auth.c\<close>: a queue in the order of arrival and a map
  by connection. Whenever a connection enters the queue those that have been waiting for more than
  ten seconds are closed; a successful login takes the connection out.

  \<open>a\<close> is the address \<open>malloc\<close> returns, \<open>now\<close> the value of \<open>agT_current()\<close>. The connections on which
  \<open>agN_close\<close> is called are returned.
\<close>

section \<open>Operations\<close>

record waiting_client =
  wt_conn :: resid_t
  wt_start :: int

type_synonym waiting = "waiting_client registry"

definition wkey :: "waiting_client \<Rightarrow> u64" where
  "wkey x = ucast (wt_conn x)"

definition clean_waiting_client :: "nat \<Rightarrow> int \<Rightarrow> waiting \<Rightarrow> (resid_t list \<times> waiting) res option" where
  "clean_waiting_client fuel now w =
     run_bind (expire wkey (\<lambda>x. now - wt_start x > 10) fuel w) (\<lambda>(xs, w). Some (Inr (map wt_conn xs, w)))"

definition new_waiting_client :: "nat \<Rightarrow> addr \<Rightarrow> int \<Rightarrow> waiting \<Rightarrow> resid_t \<Rightarrow> (resid_t list \<times> waiting) res option" where
  "new_waiting_client fuel a now w conn =
     run_bind (clean_waiting_client fuel now w) (\<lambda>(closed, w).
     run_bind (case rg_map w of
                 Some _ \<Rightarrow> Some (Inr w)
               | None \<Rightarrow> (case agMap_new None of Inl f \<Rightarrow> Some (Inl f) | Inr m \<Rightarrow> Some (Inr (w\<lparr>rg_map := Some m\<rparr>)))) (\<lambda>w.
       let w = put_in w a \<lparr>wt_conn = conn, wt_start = now\<rparr>
       in case dlist_insert_tail (rg_links w) (rg_queue w) a of
            Inl f \<Rightarrow> Some (Inl f)
          | Inr (q, links) \<Rightarrow>
              run_bind (agMap_ip_set (rg_map w) (ucast conn) (Some a)) (\<lambda>(_, mp).
                Some (Inr (closed, w\<lparr>rg_map := mp, rg_queue := q, rg_links := links\<rparr>)))))"

definition remove_waiting :: "waiting \<Rightarrow> resid_t \<Rightarrow> waiting res option" where
  "remove_waiting w conn =
     (case agMap_ip_get (rg_map w) (ucast conn) of
        None \<Rightarrow> Some (Inr w)
      | Some a \<Rightarrow> run_bind (take_out (ucast conn) w a) (\<lambda>(_, w). Some (Inr w)))"

section \<open>Invariant\<close>

definition waiting_ok :: "waiting \<Rightarrow> addr list \<Rightarrow> bool" where
  "waiting_ok w xs \<longleftrightarrow>
     (if rg_map w = None then xs = [] \<and> rg_queue w = 0 else rg_ok wkey w xs) \<and> sorted (map wt_start (objs w xs))"

lemma young_split: "(now - t > (10::int)) = (t < now - 10)"
  by auto

lemma clean_waiting_ok:
  assumes "waiting_ok w xs" and "length xs < REG_MAX" and "length xs < fuel"
  obtains w' where "clean_waiting_client fuel now w =
      Some (Inr (map wt_conn (filter (\<lambda>x. now - wt_start x > 10) (objs w xs)), w'))"
    and "waiting_ok w' (filter (\<lambda>a. now - wt_start (the (rg_heap w a)) \<le> 10) xs)"
    and "\<And>a. a \<notin> set xs \<or> now - wt_start (the (rg_heap w a)) \<le> 10 \<Longrightarrow> rg_heap w' a = rg_heap w a"
    and "rg_map w = None \<longleftrightarrow> rg_map w' = None"
proof (cases "rg_map w = None")
  case True
  then show thesis using assms that[of w] by (cases fuel) (simp_all add: waiting_ok_def clean_waiting_client_def objs_def)
next
  case False
  have ok: "rg_ok wkey w xs" and srt: "sorted (map wt_start (objs w xs))"
    using assms False by (simp_all add: waiting_ok_def)
  let ?t = "\<lambda>a. wt_start (the (rg_heap w a))"
  have st: "sorted (map ?t xs)" using srt by (simp add: objs_def comp_def)
  obtain w' where w': "expire wkey (\<lambda>x. now - wt_start x > 10) fuel w =
      Some (Inr (takeWhile (\<lambda>x. now - wt_start x > 10) (objs w xs), w'))"
    "rg_ok wkey w' (dropWhile (\<lambda>a. now - ?t a > 10) xs)"
    "\<And>a. rg_heap w' a = (if a \<in> set (takeWhile (\<lambda>a. now - ?t a > 10) xs) then None else rg_heap w a)"
    by (rule expire_ok[OF ok assms(2,3)]) (rule that)
  have tw: "takeWhile (\<lambda>x. now - wt_start x > 10) (objs w xs) = filter (\<lambda>x. now - wt_start x > 10) (objs w xs)"
    "takeWhile (\<lambda>a. now - ?t a > 10) xs = filter (\<lambda>a. now - ?t a > 10) xs"
    unfolding young_split using sorted_takeWhile_old(1)[OF srt] sorted_takeWhile_old(1)[OF st] by simp_all
  have dw: "dropWhile (\<lambda>a. now - ?t a > 10) xs = filter (\<lambda>a. now - ?t a \<le> 10) xs"
    unfolding young_split using sorted_takeWhile_old(2)[OF st, of "now - 10"] by (simp add: algebra_simps)
  have heap: "rg_heap w' a = rg_heap w a" if "a \<notin> set xs \<or> now - ?t a \<le> 10" for a
    using that w'(3)[of a] tw(2) by auto
  have o: "objs w' (filter (\<lambda>a. now - ?t a \<le> 10) xs) = objs w (filter (\<lambda>a. now - ?t a \<le> 10) xs)"
    unfolding objs_def by (rule map_cong) (auto simp: heap)
  have "sorted (map wt_start (objs w' (filter (\<lambda>a. now - ?t a \<le> 10) xs)))"
    unfolding o using sorted_filter[OF st] by (simp add: objs_def comp_def)
  moreover have m: "rg_map w' \<noteq> None" using w'(2) by (auto simp: rg_ok_def reg_ok_def)
  ultimately have "waiting_ok w' (filter (\<lambda>a. now - ?t a \<le> 10) xs)"
    using w'(2) unfolding dw waiting_ok_def if_not_P[OF m] by blast
  then show thesis
    using that[of w'] w'(1) tw(1) heap False m by (simp add: clean_waiting_client_def)
qed

lemma waiting_ok_with_map:
  assumes "waiting_ok w xs"
  obtains w' where "(case rg_map w of
                 Some _ \<Rightarrow> Some (Inr w)
               | None \<Rightarrow> (case agMap_new None of Inl f \<Rightarrow> Some (Inl f) | Inr m \<Rightarrow> Some (Inr (w\<lparr>rg_map := Some m\<rparr>))))
      = Some (Inr w')" and "rg_ok wkey w' xs" and "rg_heap w' = rg_heap w"
    and "\<And>k. agMap_ip_get (rg_map w) k = None \<Longrightarrow> agMap_ip_get (rg_map w') k = None"
proof (cases "rg_map w")
  case (Some m)
  then show thesis using assms that[of w] by (simp add: waiting_ok_def)
next
  case None
  let ?m = "\<lparr>m_heap = None, item_count = 0, buckets = []\<rparr> :: (u64, addr) agmap"
  have new: "agMap_new None = Inr ?m" by (simp add: agMap_new_def map_alloc_def)
  have "reg_ok (Some ?m) (rg_links w) 0 (\<lambda>a. map_option wkey (rg_heap w a)) []"
    by (rule reg_empty) (simp_all add: tight_map_def map_ok_def entries_def elems_def)
  then have "rg_ok wkey (w\<lparr>rg_map := Some ?m\<rparr>) xs"
    using assms None by (simp add: waiting_ok_def rg_ok_def)
  moreover have "agMap_ip_get (Some ?m) k = None" for k
    by (simp add: agMap_ip_get_def ip_find_def map_find_def)
  ultimately show thesis using that[of "w\<lparr>rg_map := Some ?m\<rparr>"] None new by simp
qed

lemma ucast_conn_inj: "(ucast (c :: u32) :: u64) = ucast d \<longleftrightarrow> c = d"
proof
  assume "(ucast c :: u64) = ucast d"
  then have "ucast (ucast c :: u64) = (ucast (ucast d :: u64) :: u32)" by simp
  moreover have "ucast (ucast e :: u64) = (e :: u32)" for e by (rule bit_word_eqI) (simp add: bit_simps)
  ultimately show "c = d" by simp
qed simp

lemma waiting_get_None:
  assumes "waiting_ok w xs"
  shows "agMap_ip_get (rg_map w) (ucast conn) = None \<longleftrightarrow> (\<forall>a \<in> set xs. wt_conn (the (rg_heap w a)) \<noteq> conn)"
proof (cases "rg_map w = None")
  case True
  then show ?thesis using assms by (simp add: waiting_ok_def agMap_ip_get_def ip_find_def map_find_def)
next
  case False
  then have ok: "rg_ok wkey w xs" using assms by (simp add: waiting_ok_def)
  have "map_option wkey (rg_heap w a) = Some (ucast conn) \<longleftrightarrow> wt_conn (the (rg_heap w a)) = conn" if "a \<in> set xs" for a
    using rg_ok_live[OF ok that] by (auto simp: wkey_def ucast_conn_inj)
  then show ?thesis
    using rg_ok_get[OF ok, of "ucast conn"] by (metis not_None_eq)
qed

lemma new_waiting_client_ok:
  assumes "waiting_ok w xs" and "Suc (length xs) < REG_MAX" and "list_all (\<lambda>x. wt_start x \<le> now) (objs w xs)"
    and "a \<noteq> 0" and "rg_heap w a = None" and "agMap_ip_get (rg_map w) (ucast conn) = None" and "length xs < fuel"
  defines "young \<equiv> filter (\<lambda>a. now - wt_start (the (rg_heap w a)) \<le> 10) xs"
  shows "\<exists>w' w''. new_waiting_client fuel a now w conn =
        Some (Inr (map wt_conn (filter (\<lambda>x. now - wt_start x > 10) (objs w xs)), w'))
     \<and> waiting_ok w' (young @ [a]) \<and> objs w' (young @ [a]) = objs w young @ [\<lparr>wt_conn = conn, wt_start = now\<rparr>]
     \<and> remove_waiting w' conn = Some (Inr w'') \<and> waiting_ok w'' young \<and> objs w'' young = objs w young"
proof -
  obtain w1 where 1: "clean_waiting_client fuel now w =
      Some (Inr (map wt_conn (filter (\<lambda>x. now - wt_start x > 10) (objs w xs)), w1))"
    "waiting_ok w1 young" "\<And>a. a \<notin> set xs \<or> now - wt_start (the (rg_heap w a)) \<le> 10 \<Longrightarrow> rg_heap w1 a = rg_heap w a"
    by (rule clean_waiting_ok[OF assms(1) Suc_lessD[OF assms(2)] assms(7), of now, folded young_def]) (rule that)
  have a: "a \<notin> set xs"
    using assms(1,5) rg_ok_live[of wkey w xs a] by (auto simp: waiting_ok_def split: if_splits)
  have y: "set young \<subseteq> set xs" "length young \<le> length xs" by (auto simp: young_def)
  have heap1: "rg_heap w1 a = None" "objs w1 young = objs w young"
    using 1(3)[of a] 1(3) a assms(5) by (auto simp: young_def objs_def)
  have no: "agMap_ip_get (rg_map w1) (ucast conn) = None"
    using waiting_get_None[OF 1(2)] waiting_get_None[OF assms(1), of conn] assms(6) y 1(3) by (auto simp: young_def)
  obtain w2 where 2: "(case rg_map w1 of Some _ \<Rightarrow> Some (Inr w1)
               | None \<Rightarrow> (case agMap_new None of Inl f \<Rightarrow> Some (Inl f) | Inr m \<Rightarrow> Some (Inr (w1\<lparr>rg_map := Some m\<rparr>))))
      = Some (Inr w2)" "rg_ok wkey w2 young" "rg_heap w2 = rg_heap w1" "\<And>k. agMap_ip_get (rg_map w1) k = None \<Longrightarrow> agMap_ip_get (rg_map w2) k = None"
    by (rule waiting_ok_with_map[OF 1(2)]) (rule that)
  let ?x = "\<lparr>wt_conn = conn, wt_start = now\<rparr>"
  have k: "wkey ?x = ucast conn" by (simp add: wkey_def)
  obtain mp q links where 3: "agMap_ip_set (rg_map w2) (ucast conn) (Some a) = Some (Inr (None, mp))"
    "dlist_insert_tail (rg_links (put_in w2 a ?x)) (rg_queue w2) a = Inr (q, links)"
    "rg_ok wkey ((put_in w2 a ?x)\<lparr>rg_map := mp, rg_queue := q, rg_links := links\<rparr>) (young @ [a])"
    by (rule put_in_ok[OF 2(2) _ assms(4), of ?x]) (use y(2) assms(2) heap1 2(3) 2(4)[OF no] k that in auto)
  let ?w = "(put_in w2 a ?x)\<lparr>rg_map := mp, rg_queue := q, rg_links := links\<rparr>"
  have new: "new_waiting_client fuel a now w conn =
        Some (Inr (map wt_conn (filter (\<lambda>x. now - wt_start x > 10) (objs w xs)), ?w))"
    unfolding new_waiting_client_def 1(1) run_bind_simps prod.case 2(1) using 3(1,2)
    by (simp add: Let_def put_in_def)
  have objs: "objs ?w young = objs w young" "objs ?w (young @ [a]) = objs w young @ [?x]"
    using heap1(2) 2(3) a y(1) by (auto simp: objs_def put_in_def subset_iff)
  have "sorted (map wt_start (objs w young))"
    using sorted_filter[of "\<lambda>a. wt_start (the (rg_heap w a))" xs] assms(1) by (simp add: waiting_ok_def objs_def comp_def young_def)
  moreover have "\<forall>x \<in> set (objs w young). wt_start x \<le> now"
    using assms(3) y(1) by (auto simp: list_all_iff objs_def)
  ultimately have s: "sorted (map wt_start (objs w young @ [?x]))" "sorted (map wt_start (objs w young))"
    by (auto simp: sorted_append)
  have m: "rg_map v \<noteq> None" if "rg_ok wkey v zs" for v zs using that by (auto simp: rg_ok_def reg_ok_def)
  have get: "agMap_ip_get (rg_map ?w) (ucast conn) = Some a"
    using rg_ok_get[OF 3(3), of "ucast conn" a] k by (simp add: put_in_def)
  obtain w'' where r: "take_out (wkey ?x) ?w a = Some (Inr (?x, w''))" "rg_ok wkey w'' (remove1 a (young @ [a]))"
    "rg_heap w'' = (rg_heap ?w)(a := None)"
    by (rule take_out_ok[OF 3(3), of a ?x]) (use y(2) assms(2) that in \<open>auto simp: put_in_def\<close>)
  have ya: "remove1 a (young @ [a]) = young" using a y(1) by (auto simp: remove1_append)
  have "objs w'' young = objs w young"
    using objs(1) r(3) a y(1) by (auto simp: objs_def subset_iff)
  then have "waiting_ok w'' young" "waiting_ok ?w (young @ [a])"
    using s objs m[OF 3(3)] m[OF r(2)] 3(3) r(2)[unfolded ya] unfolding waiting_ok_def by (simp_all only: if_not_P simp_thms)
  moreover have "remove_waiting ?w conn = Some (Inr w'')"
    unfolding remove_waiting_def get using r(1) k by simp
  ultimately show ?thesis using new objs(2) \<open>objs w'' young = objs w young\<close> by blast
qed

lemma waiting_ok_unique:
  assumes "rg_ok wkey w ws" and "a \<in> set ws" and "b \<in> set ws" and "wt_conn (the (rg_heap w a)) = wt_conn (the (rg_heap w b))"
  shows "a = b"
proof -
  obtain x y where xy: "rg_heap w a = Some x" "rg_heap w b = Some y"
    using rg_ok_live[OF assms(1,2)] rg_ok_live[OF assms(1,3)] by blast
  have k: "wkey y = wkey x" using assms(4) xy by (simp add: wkey_def)
  have "agMap_ip_get (rg_map w) (wkey x) = Some a" unfolding rg_ok_get[OF assms(1)] using assms(2) xy(1) by simp
  moreover have "agMap_ip_get (rg_map w) (wkey x) = Some b" unfolding rg_ok_get[OF assms(1)] using assms(3) xy(2) k by simp
  ultimately show ?thesis by simp
qed

lemma remove_waiting_ok:
  assumes "waiting_ok w ws" and "length ws < REG_MAX"
  obtains w' where "remove_waiting w conn = Some (Inr w')"
    and "waiting_ok w' (filter (\<lambda>a. wt_conn (the (rg_heap w a)) \<noteq> conn) ws)"
    and "\<And>a. a \<in> set ws \<Longrightarrow> wt_conn (the (rg_heap w a)) \<noteq> conn \<Longrightarrow> rg_heap w' a = rg_heap w a"
proof (cases "agMap_ip_get (rg_map w) (ucast conn)")
  case None
  then have "filter (\<lambda>a. wt_conn (the (rg_heap w a)) \<noteq> conn) ws = ws"
    using waiting_get_None[OF assms(1), of conn] by (auto simp: filter_id_conv)
  then show thesis using that[of w] None assms(1) by (simp add: remove_waiting_def)
next
  case (Some a)
  then have m: "rg_map w \<noteq> None" by (cases "rg_map w") (auto simp: agMap_ip_get_def ip_find_def map_find_def)
  then have ok: "rg_ok wkey w ws" and srt: "sorted (map wt_start (objs w ws))" using assms(1) by (simp_all add: waiting_ok_def)
  have a: "a \<in> set ws" "map_option wkey (rg_heap w a) = Some (ucast conn)" using rg_ok_get[OF ok] Some by blast+
  then obtain x where x: "rg_heap w a = Some x" "wkey x = ucast conn" by auto
  then have xc: "wt_conn x = conn" by (simp add: wkey_def ucast_conn_inj)
  obtain w' where w': "take_out (wkey x) w a = Some (Inr (x, w'))" "rg_ok wkey w' (remove1 a ws)" "rg_heap w' = (rg_heap w)(a := None)"
    by (rule take_out_ok[OF ok assms(2) a(1) x(1)])
  have d: "distinct ws" using rg_ok_distinct[OF ok] by simp
  have ab: "wt_conn (the (rg_heap w b)) \<noteq> conn \<longleftrightarrow> a \<noteq> b" if "b \<in> set ws" for b
    using waiting_ok_unique[OF ok that a(1)] x(1) xc by auto
  have f: "filter (\<lambda>b. wt_conn (the (rg_heap w b)) \<noteq> conn) ws = remove1 a ws"
    unfolding distinct_remove1_removeAll[OF d] removeAll_filter_not_eq
    by (rule filter_cong) (simp_all add: ab)
  have o: "objs w' (remove1 a ws) = objs w (remove1 a ws)"
    using w'(3) d by (auto simp: objs_def)
  have "sorted (map (\<lambda>b. wt_start (the (rg_heap w b))) ws)" using srt by (simp add: objs_def comp_def)
  then have "sorted (map wt_start (objs w' (remove1 a ws)))"
    unfolding o unfolding f[symmetric] using sorted_filter[of "\<lambda>b. wt_start (the (rg_heap w b))" ws] by (simp add: objs_def comp_def)
  moreover have m: "rg_map w' \<noteq> None" using w'(2) by (auto simp: rg_ok_def reg_ok_def)
  ultimately have "waiting_ok w' (remove1 a ws)"
    using w'(2) unfolding waiting_ok_def if_not_P[OF m] by blast
  moreover have "remove_waiting w conn = Some (Inr w')" using w'(1) x(2) Some by (simp add: remove_waiting_def)
  moreover have "rg_heap w' b = rg_heap w b" if "wt_conn (the (rg_heap w b)) \<noteq> conn" for b
    using that w'(3) x(1) xc by auto
  ultimately show thesis using that[of w'] f by simp
qed

section \<open>Properties\<close>

text \<open>C19: A connection that does not log in is closed. When a connection arrives, exactly the connections that
  have waited for more than ten seconds are closed, in the order of their arrival, and forgotten; the
  others stay in the queue, the new one goes behind them, and the steps end. Taking the new connection
  out again, when it has logged in, leaves the others.\<close>

theorem waiting_connections_expire:
  assumes "waiting_ok w xs" and "Suc (length xs) < REG_MAX" and "list_all (\<lambda>x. wt_start x \<le> now) (objs w xs)"
    and "a \<noteq> 0" and "rg_heap w a = None" and "agMap_ip_get (rg_map w) (ucast conn) = None" and "length xs < fuel"
  defines "young \<equiv> filter (\<lambda>a. now - wt_start (the (rg_heap w a)) \<le> 10) xs"
  shows "\<exists>w' w''. new_waiting_client fuel a now w conn =
        Some (Inr (map wt_conn (filter (\<lambda>x. now - wt_start x > 10) (objs w xs)), w'))
     \<and> waiting_ok w' (young @ [a]) \<and> objs w' (young @ [a]) = objs w young @ [\<lparr>wt_conn = conn, wt_start = now\<rparr>]
     \<and> remove_waiting w' conn = Some (Inr w'') \<and> waiting_ok w'' young \<and> objs w'' young = objs w young"
  unfolding young_def by (rule new_waiting_client_ok[OF assms(1-7)])

definition waiting_example :: waiting where
  "waiting_example = \<lparr>rg_map = None, rg_queue = 0, rg_links = \<lparr>dl_prev = \<lambda>_. 0, dl_next = \<lambda>_. 0\<rparr>, rg_heap = Map.empty\<rparr>"

theorem waiting_connections_expire_witness:
  "\<exists>w' w''. new_waiting_client 1 16 100 waiting_example 3 = Some (Inr ([], w')) \<and> waiting_ok w' [16]
     \<and> remove_waiting w' 3 = Some (Inr w'') \<and> waiting_ok w'' []"
proof -
  have "waiting_ok waiting_example []" by (simp add: waiting_ok_def waiting_example_def objs_def)
  moreover have "agMap_ip_get (rg_map waiting_example) (ucast (3 :: resid_t)) = None" "rg_heap waiting_example 16 = None"
    by (simp_all add: waiting_example_def agMap_ip_get_def ip_find_def map_find_def)
  ultimately show ?thesis
    using waiting_connections_expire[of waiting_example "[]" 100 16 3 1] by (auto simp: objs_def REG_MAX_def)
qed

end
