(* ===== verification/GwWorld.thy ===== *)
theory GwWorld
  imports Package ResManager HeapPool
begin

text \<open>
  The gateway's connections to the worlds, \<^verbatim>\<open>src/gateway/world.c\<close>: ten slots, each with the address of a
  world, the connection to it and an id. The id is the number of the slot plus a multiple of ten
  that grows whenever the connection is lost, so that an id that was given out before a connection
  was lost no longer names a world.

  \<open>connect i\<close> is what \<open>agN_connect\<close> returns for slot \<open>i\<close>. A node of the configuration is the record of
  the values the code reads from it (\<open>atoi\<close> applied), \<open>None\<close> where an element is missing. What is
  sent is returned: the connection and the bytes. The member \<open>sn\<close> of an outgoing header is not set
  by the code and is the argument \<open>sn0\<close>.
\<close>

section \<open>Operations\<close>

record WorldConfig =
  wc_name :: string
  wc_host :: string
  wc_port :: "16 word"
  wc_max_count :: int
  wc_id :: u32
  wc_ok :: bool
  wc_conn :: resid_t
  wc_player_count :: int

definition max_world_id :: nat where
  "max_world_id = 10"

definition INVALID_WORLD_ID :: u32 where
  "INVALID_WORLD_ID = - 1"

record cell_node =
  cn_name :: string
  cn_host :: "string option"
  cn_port :: "int option"
  cn_max :: "int option"

text \<open>\<open>strcpy\<close> into the 64 bytes of a name.\<close>

definition copy64 :: "string \<Rightarrow> string res" where
  "copy64 s = (if length s < 64 then Inr s else Inl OutOfBounds)"

definition zero_world :: WorldConfig where
  "zero_world = \<lparr>wc_name = '''', wc_host = '''', wc_port = 0, wc_max_count = 0, wc_id = 0, wc_ok = False,
     wc_conn = 0, wc_player_count = 0\<rparr>"

text \<open>With all slots taken \<open>idx\<close> stays 0, which is logged but not returned: the slot before the first
  one is accessed.\<close>

definition parseWorldConfig :: "u32 \<Rightarrow> cell_node \<Rightarrow> WorldConfig list \<Rightarrow> (int \<times> WorldConfig list) res" where
  "parseWorldConfig port_base node ws =
     (let free = length (takeWhile (\<lambda>w. wc_port w \<noteq> 0) ws);
          idx = (if free < max_world_id then free + 1 else 0);
          port = (case cn_port node of Some v \<Rightarrow> word_of_int v | None \<Rightarrow> port_base + word_of_nat idx)
      in if port = 0 then Inr (- 1, ws)
         else if idx = 0 then Inl OutOfBounds
         else case copy64 (cn_name node) of
           Inl f \<Rightarrow> Inl f
         | Inr name \<Rightarrow>
             (case copy64 (case cn_host node of Some h \<Rightarrow> h | None \<Rightarrow> ''localhost'') of
                Inl f \<Rightarrow> Inl f
              | Inr host \<Rightarrow>
                  Inr (0, ws[idx - 1 := (ws ! (idx - 1))\<lparr>wc_name := name, wc_host := host, wc_port := ucast port,
                    wc_max_count := (case cn_max node of Some m \<Rightarrow> m | None \<Rightarrow> 2000)\<rparr>])))"

fun parse_cells :: "u32 \<Rightarrow> cell_node list \<Rightarrow> WorldConfig list \<Rightarrow> (int \<times> WorldConfig list) res" where
  "parse_cells port_base [] ws = Inr (0, ws)"
| "parse_cells port_base (node # nodes) ws =
     (case parseWorldConfig port_base node ws of
        Inl f \<Rightarrow> Inl f
      | Inr (r, ws) \<Rightarrow> if r \<noteq> 0 then Inr (- 1, ws) else parse_cells port_base nodes ws)"

text \<open>The loops over the slots apply their body to every slot that is configured.\<close>

definition each_world :: "(nat \<Rightarrow> WorldConfig \<Rightarrow> WorldConfig) \<Rightarrow> WorldConfig list \<Rightarrow> WorldConfig list" where
  "each_world f ws = map (\<lambda>i. if wc_port (ws ! i) = 0 then ws ! i else f i (ws ! i)) [0..<length ws]"

definition next_id :: "u32 \<Rightarrow> u32" where
  "next_id i =
     (let i = i + word_of_nat max_world_id
      in if i = INVALID_WORLD_ID then i + word_of_nat max_world_id else i)"

definition init_world :: "(nat \<Rightarrow> resid_t) \<Rightarrow> nat \<Rightarrow> WorldConfig \<Rightarrow> WorldConfig" where
  "init_world connect i w =
     w\<lparr>wc_ok := False, wc_player_count := 0,
       wc_id := (if word_of_nat i = INVALID_WORLD_ID then word_of_nat i + word_of_nat max_world_id else word_of_nat i),
       wc_conn := connect i\<rparr>"

definition module_world_load :: "(nat \<Rightarrow> resid_t) \<Rightarrow> u32 \<Rightarrow> cell_node list option \<Rightarrow> (int \<times> WorldConfig list) res" where
  "module_world_load connect port_base cells =
     (let ws = replicate max_world_id zero_world;
          r = (case cells of
                 None \<Rightarrow> Inr (0, ws[0 := zero_world\<lparr>wc_name := ''Cell_1'', wc_host := ''localhost'',
                   wc_port := ucast (port_base + 1), wc_max_count := 200, wc_id := 1\<rparr>])
               | Some nodes \<Rightarrow> parse_cells port_base nodes ws)
      in case r of
           Inl f \<Rightarrow> Inl f
         | Inr (r, ws) \<Rightarrow>
             if r \<noteq> 0 then Inr (- 1, ws)
             else Inr (0, each_world (init_world connect) ws))"

definition module_world_update :: "(nat \<Rightarrow> resid_t) \<Rightarrow> WorldConfig list \<Rightarrow> WorldConfig list" where
  "module_world_update connect ws =
     each_world (\<lambda>i w. if wc_conn w = INVALID_ID then w\<lparr>wc_conn := connect i\<rparr> else w) ws"

text \<open>The connections that are closed, and the slots.\<close>

definition module_world_unload :: "WorldConfig list \<Rightarrow> resid_t list \<times> WorldConfig list" where
  "module_world_unload ws =
     (map wc_conn (filter (\<lambda>w. wc_port w \<noteq> 0) ws), each_world (\<lambda>i w. w\<lparr>wc_id := next_id (wc_id w)\<rparr>) ws)"

definition world_get_idle_world :: "WorldConfig list \<Rightarrow> u64 \<Rightarrow> u32 res" where
  "world_get_idle_world ws pid =
     (let wcount = length (takeWhile (\<lambda>w. wc_port w \<noteq> 0) ws)
      in if wcount = 0 then Inl DivByZero else Inr (wc_id (ws ! (unat pid mod wcount))))"

definition world_slot :: "u32 \<Rightarrow> nat" where
  "world_slot world = unat world mod max_world_id"

definition world_increase_player :: "WorldConfig list \<Rightarrow> u32 \<Rightarrow> WorldConfig list res" where
  "world_increase_player ws world =
     (let real = world_slot world
      in case int_res (wc_player_count (ws ! real) + 1) of
           Inl f \<Rightarrow> Inl f
         | Inr n \<Rightarrow> Inr (ws[real := (ws ! real)\<lparr>wc_player_count := n\<rparr>]))"

definition world_reduce_player :: "WorldConfig list \<Rightarrow> u32 \<Rightarrow> WorldConfig list" where
  "world_reduce_player ws world =
     (let real = world_slot world
      in if wc_player_count (ws ! real) > 0
         then ws[real := (ws ! real)\<lparr>wc_player_count := wc_player_count (ws ! real) - 1\<rparr>] else ws)"

definition world_is_valid :: "WorldConfig list \<Rightarrow> u32 \<Rightarrow> bool" where
  "world_is_valid ws world =
     (let real = world_slot world
      in world = wc_id (ws ! real) \<and> wc_conn (ws ! real) \<noteq> INVALID_ID \<and> wc_ok (ws ! real))"

text \<open>The message that worlds and backends receive: a header and the payload.\<close>

definition translate_packet :: "u32 \<Rightarrow> u64 \<Rightarrow> u32 \<Rightarrow> u32 \<Rightarrow> byte list \<Rightarrow> byte list" where
  "translate_packet sn0 playerid cmd flag msg =
     put_translate_header
       \<lparr>th_len = word_of_nat (translate_header_size + length msg), th_sn = sn0,
        th_playerid = ucast playerid, th_flag = flag, th_cmd = cmd,
        th_serverid = TRANSFORM_PLAYERID playerid True\<rparr> @ msg"

definition world_send_message ::
  "u32 \<Rightarrow> WorldConfig list \<Rightarrow> u32 \<Rightarrow> u64 \<Rightarrow> u32 \<Rightarrow> u32 \<Rightarrow> byte list \<Rightarrow> (resid_t \<times> byte list) option" where
  "world_send_message sn0 ws world playerid cmd flag msg =
     (if \<not> world_is_valid ws world then None
      else Some (wc_conn (ws ! world_slot world), translate_packet sn0 playerid cmd flag msg))"

definition S_SERVICE_REGISTER_REQUEST :: u32 where
  "S_SERVICE_REGISTER_REQUEST = 1004"

text \<open>\<open>request\<close> is the registration message the protocol library builds.\<close>

definition world_on_connected ::
  "u32 \<Rightarrow> byte list \<Rightarrow> WorldConfig list \<Rightarrow> nat \<Rightarrow> (resid_t \<times> byte list) option \<times> WorldConfig list" where
  "world_on_connected sn0 request ws i =
     (let ws = ws[i := (ws ! i)\<lparr>wc_ok := True, wc_max_count := 2000\<rparr>]
      in (world_send_message sn0 ws (wc_id (ws ! i)) 0 S_SERVICE_REGISTER_REQUEST 2 request, ws))"

definition world_on_closed :: "WorldConfig list \<Rightarrow> nat \<Rightarrow> WorldConfig list" where
  "world_on_closed ws i =
     ws[i := (ws ! i)\<lparr>wc_ok := False, wc_conn := INVALID_ID, wc_player_count := 0, wc_max_count := 0,
       wc_id := next_id (wc_id (ws ! i))\<rparr>]"

text \<open>The player id a receiver reads from a header.\<close>

definition translate_playerid :: "translate_header \<Rightarrow> u64" where
  "translate_playerid h = NTOHL_PID_AND_SID (ucast (th_playerid h)) (th_serverid h)"

section \<open>Ids\<close>

text \<open>Every slot in use has an id that is its own number plus ten times at most \<open>n\<close>.\<close>

definition wid :: "nat \<Rightarrow> nat \<Rightarrow> u32" where
  "wid i k = word_of_nat (i + max_world_id * k)"

definition worlds_ok :: "nat \<Rightarrow> WorldConfig list \<Rightarrow> bool" where
  "worlds_ok n ws \<longleftrightarrow>
     length ws = max_world_id
     \<and> (\<forall>i < max_world_id. wc_port (ws ! i) \<noteq> 0 \<longrightarrow> (\<exists>k \<le> n. wc_id (ws ! i) = wid i k))"

text \<open>The number of lost connections up to which ids do not wrap.\<close>

definition WORLD_LIFE :: nat where
  "WORLD_LIFE = 400000000"

text \<open>What happens to the slots between loading and unloading the module.\<close>

inductive world_step :: "WorldConfig list \<Rightarrow> WorldConfig list \<Rightarrow> bool" where
  connected: "i < max_world_id \<Longrightarrow> wc_port (ws ! i) \<noteq> 0 \<Longrightarrow> world_step ws (snd (world_on_connected sn0 request ws i))"
| closed: "i < max_world_id \<Longrightarrow> wc_port (ws ! i) \<noteq> 0 \<Longrightarrow> world_step ws (world_on_closed ws i)"
| update: "world_step ws (module_world_update connect ws)"
| increase: "world_increase_player ws world = Inr ws' \<Longrightarrow> world_step ws ws'"
| reduce: "world_step ws (world_reduce_player ws world)"

inductive_cases world_stepE: "world_step ws ws'"

lemma max_world_id_pos [simp]: "0 < max_world_id"
  by (simp add: max_world_id_def)

lemma world_slot_less [simp]: "world_slot w < max_world_id"
  by (simp add: world_slot_def)

lemma unat_wid:
  assumes "i < max_world_id" and "k \<le> WORLD_LIFE"
  shows "unat (wid i k) = i + max_world_id * k" and "i + max_world_id * k < 2 ^ 32 - 1"
proof -
  show b: "i + max_world_id * k < 2 ^ 32 - 1" using assms by (simp add: max_world_id_def WORLD_LIFE_def)
  then show "unat (wid i k) = i + max_world_id * k"
    unfolding wid_def by (subst unsigned_of_nat) (simp add: take_bit_eq_mod del: of_nat_add of_nat_mult)
qed

lemma world_slot_wid: "i < max_world_id \<Longrightarrow> k \<le> WORLD_LIFE \<Longrightarrow> world_slot (wid i k) = i"
  by (simp add: world_slot_def unat_wid)

lemma wid_not_invalid:
  assumes "i < max_world_id" and "k \<le> WORLD_LIFE"
  shows "wid i k \<noteq> INVALID_WORLD_ID"
proof
  assume e: "wid i k = INVALID_WORLD_ID"
  have "unat INVALID_WORLD_ID = 2 ^ 32 - 1" by (simp add: INVALID_WORLD_ID_def unsigned_minus_1_eq_mask mask_eq_exp_minus_1)
  then show False using unat_wid[OF assms] e by simp
qed

lemma next_id_of:
  assumes "i < max_world_id" and "k < WORLD_LIFE"
  shows "next_id (wid i k) = wid i (Suc k)"
proof -
  have "wid i k + word_of_nat max_world_id = wid i (Suc k)"
    by (simp add: wid_def add.commute add.left_commute)
  then show ?thesis using wid_not_invalid[of i "Suc k"] assms by (simp add: next_id_def Let_def)
qed

lemma nth_each_world [simp]:
  "i < length ws \<Longrightarrow> each_world f ws ! i = (if wc_port (ws ! i) = 0 then ws ! i else f i (ws ! i))"
  "length (each_world f ws) = length ws"
  by (simp_all add: each_world_def)

text \<open>A step keeps the ports, and the id of a slot stays or moves up by ten.\<close>

definition same_slots :: "WorldConfig list \<Rightarrow> WorldConfig list \<Rightarrow> bool" where
  "same_slots ws ws' \<longleftrightarrow> length ws' = length ws
     \<and> (\<forall>i < length ws. wc_port (ws' ! i) = wc_port (ws ! i) \<and> wc_id (ws' ! i) \<in> {wc_id (ws ! i), next_id (wc_id (ws ! i))})"

lemma world_step_slots: "world_step ws ws' \<Longrightarrow> length ws = max_world_id \<Longrightarrow> same_slots ws ws'"
  by (erule world_stepE)
    (auto simp: same_slots_def world_on_connected_def world_on_closed_def module_world_update_def
      world_increase_player_def world_reduce_player_def Let_def nth_list_update split: sum.splits)

lemma world_step_ok:
  assumes "world_step ws ws'" and "worlds_ok n ws" and "n < WORLD_LIFE"
  shows "worlds_ok (Suc n) ws'"
    and "i < max_world_id \<Longrightarrow> wc_port (ws ! i) \<noteq> 0 \<Longrightarrow>
      wc_port (ws' ! i) \<noteq> 0 \<and> unat (wc_id (ws ! i)) \<le> unat (wc_id (ws' ! i))"
proof -
  have len: "length ws = max_world_id" using assms(2) by (simp add: worlds_ok_def)
  have slots: "same_slots ws ws'" by (rule world_step_slots[OF assms(1) len])
  have *: "wc_port (ws' ! j) = wc_port (ws ! j)
     \<and> (wc_port (ws ! j) \<noteq> 0 \<longrightarrow> (\<exists>k \<le> Suc n. wc_id (ws' ! j) = wid j k)
           \<and> unat (wc_id (ws ! j)) \<le> unat (wc_id (ws' ! j)))" if j: "j < max_world_id" for j
  proof -
    have p: "wc_port (ws' ! j) = wc_port (ws ! j)" "wc_id (ws' ! j) \<in> {wc_id (ws ! j), next_id (wc_id (ws ! j))}"
      using slots len j by (auto simp: same_slots_def)
    have "\<exists>k \<le> n. wc_id (ws ! j) = wid j k" if "wc_port (ws ! j) \<noteq> 0"
      using assms(2) j that by (simp add: worlds_ok_def)
    then show ?thesis
      using p next_id_of[OF j] unat_wid[OF j] assms(3) by (auto 4 4 intro: le_SucI)
  qed
  then show "worlds_ok (Suc n) ws'"
    using slots len by (auto simp: worlds_ok_def same_slots_def)
  show "wc_port (ws' ! i) \<noteq> 0 \<and> unat (wc_id (ws ! i)) \<le> unat (wc_id (ws' ! i))"
    if "i < max_world_id" "wc_port (ws ! i) \<noteq> 0" using * that by auto
qed

lemma world_steps_ok:
  assumes "(world_step ^^ m) ws ws'" and "worlds_ok n ws" and "n + m \<le> WORLD_LIFE"
  shows "worlds_ok (n + m) ws' \<and> (\<forall>i < max_world_id. wc_port (ws ! i) \<noteq> 0 \<longrightarrow>
      wc_port (ws' ! i) \<noteq> 0 \<and> unat (wc_id (ws ! i)) \<le> unat (wc_id (ws' ! i)))"
  using assms
proof (induction m arbitrary: ws')
  case (Suc m)
  from Suc.prems(1) obtain wm where wm: "(world_step ^^ m) ws wm" "world_step wm ws'" by auto
  have ih: "worlds_ok (n + m) wm" "\<forall>i < max_world_id. wc_port (ws ! i) \<noteq> 0 \<longrightarrow>
      wc_port (wm ! i) \<noteq> 0 \<and> unat (wc_id (ws ! i)) \<le> unat (wc_id (wm ! i))"
    using Suc.IH[OF wm(1) Suc.prems(2)] Suc.prems(3) by auto
  show ?case
    using world_step_ok[OF wm(2) ih(1)] ih(2) Suc.prems(3) by (auto intro: order_trans)
qed simp

lemma worlds_ok_slot:
  assumes "worlds_ok n ws" and "n \<le> WORLD_LIFE" and "i < max_world_id" and "wc_port (ws ! i) \<noteq> 0"
  shows "world_slot (wc_id (ws ! i)) = i"
  using assms world_slot_wid[of i] by (force simp: worlds_ok_def)

lemma parseWorldConfig_keeps:
  "parseWorldConfig pb node ws = Inr (r, ws') \<Longrightarrow> length ws' = length ws"
  by (auto simp: parseWorldConfig_def Let_def split: if_splits sum.splits)

lemma parse_cells_keeps:
  "parse_cells pb nodes ws = Inr (r, ws') \<Longrightarrow> length ws' = length ws"
  by (induction nodes arbitrary: ws)
    (auto dest: parseWorldConfig_keeps split: if_splits sum.splits)

lemma module_world_load_ok:
  assumes "module_world_load connect port_base cells = Inr (0, ws)"
  shows "worlds_ok 0 ws"
proof -
  have "\<exists>ws0. length ws0 = max_world_id \<and> ws = each_world (init_world connect) ws0"
    using assms parse_cells_keeps[of port_base _ "replicate max_world_id zero_world"]
    by (cases cells) (auto simp: module_world_load_def Let_def intro!: exI[of _ "_ :: WorldConfig list"] split: sum.splits if_splits)
  then show ?thesis
    using wid_not_invalid[of _ 0] by (auto simp: worlds_ok_def wid_def init_world_def)
qed

section \<open>Messages\<close>

lemma translate_packet_frame:
  assumes "translate_header_size + length msg < 2 ^ 32"
  shows "translate_frame (translate_packet sn pid cmd flag msg @ rest) = length (translate_packet sn pid cmd flag msg)"
    and "get_translate_header (translate_packet sn pid cmd flag msg @ rest) =
      \<lparr>th_len = word_of_nat (translate_header_size + length msg), th_sn = sn, th_playerid = ucast pid, th_flag = flag,
       th_cmd = cmd, th_serverid = TRANSFORM_PLAYERID pid True\<rparr>"
    and "drop translate_header_size (translate_packet sn pid cmd flag msg) = msg"
    and "length (translate_packet sn pid cmd flag msg) = translate_header_size + length msg"
proof -
  show h: "get_translate_header (translate_packet sn pid cmd flag msg @ rest) =
      \<lparr>th_len = word_of_nat (translate_header_size + length msg), th_sn = sn, th_playerid = ucast pid, th_flag = flag,
       th_cmd = cmd, th_serverid = TRANSFORM_PLAYERID pid True\<rparr>"
    by (simp add: translate_packet_def)
  show l: "length (translate_packet sn pid cmd flag msg) = translate_header_size + length msg"
    by (simp add: translate_packet_def)
  show "translate_frame (translate_packet sn pid cmd flag msg @ rest) = length (translate_packet sn pid cmd flag msg)"
    using unat_size[OF assms] l by (simp add: translate_frame_def h Let_def)
  show "drop translate_header_size (translate_packet sn pid cmd flag msg) = msg"
    by (simp add: translate_packet_def)
qed

lemma playerid_decodes:
  "translate_playerid \<lparr>th_len = l, th_sn = sn, th_playerid = ucast pid, th_flag = flag, th_cmd = cmd,
     th_serverid = TRANSFORM_PLAYERID pid True\<rparr> = (if TRANSFORM_PLAYERID pid False = 0 then 0 else pid)"
proof -
  have low: "TRANSFORM_PLAYERID pid False = ucast pid" by (simp add: TRANSFORM_PLAYERID_def)
  have "TRANSFORM_PLAYERID (ucast (ucast pid :: u32)) True = 0"
    by (rule bit_word_eqI) (simp add: TRANSFORM_PLAYERID_def bit_simps)
  moreover have "(ucast (ucast pid :: u32) :: u64) = 0 \<longleftrightarrow> (ucast pid :: u32) = 0"
    by (simp add: unsigned_ucast_eq unsigned_take_bit_eq flip: unat_eq_zero)
  moreover have "ucast (ucast (ucast pid :: u32) :: u64) = (ucast pid :: u32)"
    by (rule bit_word_eqI) (simp add: bit_simps)
  ultimately show ?thesis
    using pid_compose[of pid] unfolding low
    by (auto simp: translate_playerid_def NTOHL_PID_AND_SID_def low word_gt_0)
qed

section \<open>Properties\<close>

text \<open>C20: An id of a world is good for one connection. Once the connection of a world that was valid is
  lost, the id is never valid again, whatever else happens to the slots - other connections,
  reconnections, players coming and going - and a message for it is refused; the worlds of the other
  slots are not affected by the loss. (For fewer than \<open>WORLD_LIFE\<close> events: the ids have 32 bits.)\<close>

theorem lost_world_id_never_valid:
  assumes "module_world_load connect port_base cells = Inr (0, ws0)" and "(world_step ^^ m) ws0 ws"
    and "i < max_world_id" and "wc_port (ws ! i) \<noteq> 0" and "(world_step ^^ n) (world_on_closed ws i) ws'"
    and "m + n < WORLD_LIFE"
  shows "\<not> world_is_valid ws' (wc_id (ws ! i)) \<and> world_send_message sn ws' (wc_id (ws ! i)) pid cmd flag msg = None
    \<and> (\<forall>w. world_slot w \<noteq> i \<longrightarrow> world_is_valid (world_on_closed ws i) w = world_is_valid ws w)"
proof -
  have 1: "worlds_ok m ws" using world_steps_ok[OF assms(2) module_world_load_ok[OF assms(1)]] assms(6) by simp
  have "world_step ws (world_on_closed ws i)" by (rule world_step.closed[OF assms(3,4)])
  then have 2: "worlds_ok (Suc m) (world_on_closed ws i)" using world_step_ok(1) 1 assms(6) by simp
  have len: "length ws = max_world_id" using 1 by (simp add: worlds_ok_def)
  obtain k where k: "k \<le> m" "wc_id (ws ! i) = wid i k" using 1 assms(3,4) by (auto simp: worlds_ok_def)
  have c: "wc_port (world_on_closed ws i ! i) \<noteq> 0" "wc_id (world_on_closed ws i ! i) = wid i (Suc k)"
    using assms(3,4,6) k len by (simp_all add: world_on_closed_def next_id_of)
  have "unat (wid i (Suc k)) \<le> unat (wc_id (ws' ! i))"
    using world_steps_ok[OF assms(5) 2] assms(3,6) c by force
  moreover have "unat (wid i k) < unat (wid i (Suc k))"
    using unat_wid(1)[OF assms(3)] k(1) assms(6) by simp
  ultimately have "wid i k \<noteq> wc_id (ws' ! i)" by auto
  then have "\<not> world_is_valid ws' (wc_id (ws ! i))"
    using world_slot_wid[OF assms(3), of k] k assms(6) by (simp add: world_is_valid_def Let_def)
  then show ?thesis
    by (auto simp: world_send_message_def world_is_valid_def world_on_closed_def Let_def)
qed

definition worlds_example :: "WorldConfig list" where
  "worlds_example = (replicate 10 zero_world)[0 := zero_world\<lparr>wc_name := ''Cell_1'', wc_host := ''localhost'',
     wc_port := 9811, wc_max_count := 200, wc_conn := 5\<rparr>]"

theorem lost_world_id_never_valid_witness:
  "\<not> world_is_valid (module_world_update (\<lambda>_. 7) (world_on_closed worlds_example 0)) 0"
proof -
  have load: "module_world_load (\<lambda>_. 5) 9810 None = Inr (0, worlds_example)" by code_simp
  have step: "(world_step ^^ 1) (world_on_closed worlds_example 0) (module_world_update (\<lambda>_. 7) (world_on_closed worlds_example 0))"
    using world_step.update by (simp add: eq_OO)
  from lost_world_id_never_valid[OF load _ _ _ step, of 0] show ?thesis
    by (simp add: WORLD_LIFE_def max_world_id_def zero_world_def worlds_example_def)
qed

text \<open>What is sent to a valid world for a player reaches it as one message: the receiver's framing cuts
  exactly these bytes off the stream, and the header and the payload read back are the command,
  flag and message sent. The player id read back is the one sent exactly when its number (the low
  32 bits) is not 0 or the whole id is 0; with number 0 the server id is lost.\<close>

theorem world_message_decodes:
  assumes "world_is_valid ws world" and "translate_header_size + length msg < 2 ^ 31"
  shows "\<exists>bytes. world_send_message sn ws world playerid cmd flag msg = Some (wc_conn (ws ! world_slot world), bytes)
    \<and> translate_frame (bytes @ rest) = length bytes \<and> 0 < length bytes
    \<and> th_cmd (get_translate_header bytes) = cmd \<and> th_flag (get_translate_header bytes) = flag
    \<and> drop translate_header_size bytes = msg
    \<and> (translate_playerid (get_translate_header bytes) = playerid
         \<longleftrightarrow> playerid = 0 \<or> TRANSFORM_PLAYERID playerid False \<noteq> 0)"
proof -
  have s: "translate_header_size + length msg < 2 ^ 32" using assms(2) by simp
  note f = translate_packet_frame[OF s, of sn playerid cmd flag]
  have "get_translate_header (translate_packet sn playerid cmd flag msg) = \<lparr>th_len = word_of_nat (translate_header_size + length msg),
      th_sn = sn, th_playerid = ucast playerid, th_flag = flag, th_cmd = cmd, th_serverid = TRANSFORM_PLAYERID playerid True\<rparr>"
    using f(2)[of "[]"] by simp
  moreover have "TRANSFORM_PLAYERID 0 False = 0" by (simp add: TRANSFORM_PLAYERID_def)
  ultimately show ?thesis
    using assms(1) f(1,3,4) playerid_decodes by (auto simp: world_send_message_def translate_header_size_def)
qed

theorem world_message_decodes_witness:
  "\<exists>bytes. world_send_message 0 ((replicate 10 zero_world)[3 := zero_world\<lparr>wc_id := 13, wc_ok := True\<rparr>]) 13 0x500000007 100 1 [9, 8]
      = Some (0, bytes)
    \<and> translate_playerid (get_translate_header bytes) = 0x500000007 \<and> drop translate_header_size bytes = [9, 8]"
proof -
  let ?ws = "(replicate 10 zero_world)[3 := zero_world\<lparr>wc_id := 13, wc_ok := True\<rparr>]"
  have s: "world_slot 13 = 3" by (simp add: world_slot_def max_world_id_def)
  then have "world_is_valid ?ws 13" by (simp add: world_is_valid_def zero_world_def INVALID_ID_def)
  from world_message_decodes[OF this, of "[9, 8]" 0 "0x500000007" 100 1 "[]"] s show ?thesis
    by (auto simp: translate_header_size_def zero_world_def TRANSFORM_PLAYERID_def)
qed

end
