(* ===== verification/GwBackend.thy ===== *)
theory GwBackend
  imports GwWorld
begin

text \<open>
  The gateway's connections to the backend services, \<^verbatim>\<open>src/gateway/backend.c\<close>: thirty slots, each service in
  the slot of its id minus ten, with the range of commands it serves.

  A node of the configuration is the record of the attributes and elements the code reads (\<open>atoi\<close>
  applied). \<open>connect i\<close> is what \<open>agN_connect\<close> returns for slot \<open>i\<close>, \<open>up c\<close> whether \<open>agN_writev\<close> accepts
  data for connection \<open>c\<close>.
\<close>

section \<open>Operations\<close>

record Backend =
  be_min :: u32
  be_max :: u32
  be_id :: u32
  be_name :: string
  be_host :: string
  be_port :: int
  be_timeout :: int
  be_conn :: resid_t

definition MAX_BACK_END :: nat where
  "MAX_BACK_END = 30"

record social_node =
  sn_id :: int
  sn_min :: int
  sn_max :: int
  sn_name :: "string option"
  sn_host :: "string option"
  sn_port :: "int option"
  sn_timeout :: "int option"

definition copy256 :: "string \<Rightarrow> string res" where
  "copy256 s = (if length s < 256 then Inr s else Inl OutOfBounds)"

definition zero_backend :: Backend where
  "zero_backend = \<lparr>be_min = 0, be_max = 0, be_id = 0, be_name = '''', be_host = '''', be_port = 0, be_timeout = 0, be_conn = 0\<rparr>"

definition parseBackendConfig :: "u32 \<Rightarrow> social_node \<Rightarrow> Backend list \<Rightarrow> (int \<times> Backend list) res" where
  "parseBackendConfig port_base node bs =
     (let iden = word_of_int (sn_id node) :: u32; lo = word_of_int (sn_min node) :: u32; hi = word_of_int (sn_max node) :: u32
      in if iden \<le> 10 \<or> iden \<ge> word_of_nat MAX_BACK_END \<or> lo = 0 \<or> hi < lo then Inr (- 1, bs)
         else case copy256 (case sn_host node of Some h \<Rightarrow> h | None \<Rightarrow> ''localhost'') of
           Inl f \<Rightarrow> Inl f
         | Inr host \<Rightarrow>
             (case copy256 (case sn_name node of Some n \<Rightarrow> n | None \<Rightarrow> ''UnknownService'') of
                Inl f \<Rightarrow> Inl f
              | Inr name \<Rightarrow>
                  Inr (0, bs[unat iden - 10 :=
                    \<lparr>be_min = lo, be_max = hi, be_id = iden, be_name = name, be_host = host,
                     be_port = (case sn_port node of Some p \<Rightarrow> p | None \<Rightarrow> sint (port_base + iden)),
                     be_timeout = (case sn_timeout node of Some t \<Rightarrow> t | None \<Rightarrow> 5), be_conn = INVALID_ID\<rparr>])))"

fun parse_social :: "u32 \<Rightarrow> social_node list \<Rightarrow> Backend list \<Rightarrow> (int \<times> Backend list) res" where
  "parse_social port_base [] bs = Inr (0, bs)"
| "parse_social port_base (node # nodes) bs =
     (case parseBackendConfig port_base node bs of
        Inl f \<Rightarrow> Inl f
      | Inr (r, bs) \<Rightarrow> if r \<noteq> 0 then Inr (- 1, bs) else parse_social port_base nodes bs)"

definition each_backend :: "(nat \<Rightarrow> Backend \<Rightarrow> Backend) \<Rightarrow> Backend list \<Rightarrow> Backend list" where
  "each_backend f bs = map (\<lambda>i. if be_id (bs ! i) = 0 then bs ! i else f i (bs ! i)) [0..<length bs]"

definition module_backend_load :: "(nat \<Rightarrow> resid_t) \<Rightarrow> u32 \<Rightarrow> social_node list \<Rightarrow> (int \<times> Backend list) res" where
  "module_backend_load connect port_base nodes =
     (case parse_social port_base nodes (replicate MAX_BACK_END zero_backend) of
        Inl f \<Rightarrow> Inl f
      | Inr (r, bs) \<Rightarrow>
          if r \<noteq> 0 then Inr (- 1, bs)
          else Inr (0, each_backend (\<lambda>i b. b\<lparr>be_conn := connect i\<rparr>) bs))"

definition module_backend_update :: "(nat \<Rightarrow> resid_t) \<Rightarrow> Backend list \<Rightarrow> Backend list" where
  "module_backend_update connect bs =
     each_backend (\<lambda>i b. if be_conn b = INVALID_ID then b\<lparr>be_conn := connect i\<rparr> else b) bs"

text \<open>The connections that are closed.\<close>

definition module_backend_unload :: "Backend list \<Rightarrow> resid_t list" where
  "module_backend_unload bs = map be_conn (filter (\<lambda>b. be_id b \<noteq> 0 \<and> be_conn b \<noteq> INVALID_ID) bs)"

definition backend_on_closed :: "Backend list \<Rightarrow> nat \<Rightarrow> resid_t \<Rightarrow> Backend list res" where
  "backend_on_closed bs i c =
     (if c \<noteq> be_conn (bs ! i) then Inl Assertion else Inr (bs[i := (bs ! i)\<lparr>be_conn := INVALID_ID\<rparr>]))"

definition backend_get :: "Backend list \<Rightarrow> u32 \<Rightarrow> nat option" where
  "backend_get bs cmd =
     List.find (\<lambda>i. be_id (bs ! i) \<noteq> 0 \<and> be_min (bs ! i) \<le> cmd \<and> be_max (bs ! i) \<ge> cmd) [0..<length bs]"

text \<open>\<open>None\<close> stands for a negative result.\<close>

definition backend_send ::
  "(resid_t \<Rightarrow> bool) \<Rightarrow> u32 \<Rightarrow> Backend \<Rightarrow> u64 \<Rightarrow> u32 \<Rightarrow> u32 \<Rightarrow> byte list \<Rightarrow> (resid_t \<times> byte list) option" where
  "backend_send up sn0 peer channel cmd flag msg =
     (if up (be_conn peer) then Some (be_conn peer, translate_packet sn0 channel cmd flag msg) else None)"

definition backend_broadcast :: "u32 \<Rightarrow> Backend list \<Rightarrow> u64 \<Rightarrow> u32 \<Rightarrow> u32 \<Rightarrow> byte list \<Rightarrow> (resid_t \<times> byte list) list" where
  "backend_broadcast sn0 bs channel cmd flag msg =
     map (\<lambda>b. (be_conn b, translate_packet sn0 channel cmd flag msg))
       (filter (\<lambda>b. be_id b \<noteq> 0 \<and> be_conn b \<noteq> INVALID_ID) bs)"

definition backend_on_connected ::
  "(resid_t \<Rightarrow> bool) \<Rightarrow> u32 \<Rightarrow> byte list \<Rightarrow> Backend \<Rightarrow> (resid_t \<times> byte list) option" where
  "backend_on_connected up sn0 request peer = backend_send up sn0 peer 0 S_SERVICE_REGISTER_REQUEST 2 request"

text \<open>The scan of \<open>backend_next\<close> reads the id of a slot before it compares the position with the end.\<close>

function backend_scan :: "Backend list \<Rightarrow> nat \<Rightarrow> nat res" where
  "backend_scan bs i =
     (if i \<ge> length bs then Inl OutOfBounds
      else if be_id (bs ! i) = 0 then backend_scan bs (i + 1) else Inr i)"
  by pat_completeness auto
termination by (relation "measure (\<lambda>(bs, i). length bs - i)") auto

declare backend_scan.simps [simp del]

definition backend_next :: "Backend list \<Rightarrow> nat option \<Rightarrow> nat option res" where
  "backend_next bs ite =
     (case backend_scan bs (case ite of None \<Rightarrow> 0 | Some i \<Rightarrow> i + 1) of
        Inl f \<Rightarrow> Inl f
      | Inr i \<Rightarrow> Inr (Some i))"

definition backend_avalible :: "Backend \<Rightarrow> bool" where
  "backend_avalible b = (be_conn b \<noteq> INVALID_ID)"

section \<open>Invariant\<close>

definition backend_ok :: "nat \<Rightarrow> Backend \<Rightarrow> bool" where
  "backend_ok i b \<longleftrightarrow> be_id b = 0 \<or> 0 < i \<and> unat (be_id b) = i + 10 \<and> 0 < be_min b \<and> be_min b \<le> be_max b"

definition backends_ok :: "Backend list \<Rightarrow> bool" where
  "backends_ok bs \<longleftrightarrow> length bs = MAX_BACK_END \<and> (\<forall>i < MAX_BACK_END. backend_ok i (bs ! i))"

lemma backends_ok_update: "backends_ok bs \<Longrightarrow> backend_ok j b \<Longrightarrow> backends_ok (bs[j := b])"
  by (cases "j < length bs") (auto simp: backends_ok_def nth_list_update list_update_beyond)

lemma slot_of_id:
  assumes "\<not> iden \<le> 10" and "\<not> word_of_nat MAX_BACK_END \<le> (iden :: u32)"
  shows "0 < unat iden - 10" and "unat iden = unat iden - 10 + 10"
  using assms by (simp_all add: MAX_BACK_END_def word_le_nat_alt)

lemma parseBackendConfig_ok:
  assumes "parseBackendConfig port_base node bs = Inr (r, bs')" and "backends_ok bs"
  shows "backends_ok bs'"
  using assms slot_of_id[of "word_of_int (sn_id node)"]
  by (auto simp: parseBackendConfig_def Let_def backend_ok_def not_less word_gt_0 intro!: backends_ok_update
      split: if_splits sum.splits)

lemma parse_social_ok: "parse_social port_base nodes bs = Inr (r, bs') \<Longrightarrow> backends_ok bs \<Longrightarrow> backends_ok bs'"
  by (induction nodes arbitrary: bs) (auto dest: parseBackendConfig_ok split: if_splits sum.splits)

lemma nth_each_backend [simp]:
  "i < length bs \<Longrightarrow> each_backend f bs ! i = (if be_id (bs ! i) = 0 then bs ! i else f i (bs ! i))"
  "length (each_backend f bs) = length bs"
  by (simp_all add: each_backend_def)

lemma each_backend_ok:
  assumes "backends_ok bs" and "\<And>i b. backend_ok i b \<Longrightarrow> backend_ok i (f i b)"
  shows "backends_ok (each_backend f bs)"
  using assms by (simp add: backends_ok_def)

lemma backends_ok_zero: "backends_ok (replicate MAX_BACK_END zero_backend)"
  by (simp add: backends_ok_def backend_ok_def zero_backend_def)

lemma module_backend_load_ok:
  assumes "module_backend_load connect port_base nodes = Inr (0, bs)"
  shows "backends_ok bs"
  using assms parse_social_ok[OF _ backends_ok_zero]
  by (auto simp: module_backend_load_def backend_ok_def intro!: each_backend_ok split: sum.splits if_splits)

lemma backend_get_SomeD:
  assumes "backend_get bs cmd = Some i"
  shows "i < length bs" and "be_id (bs ! i) \<noteq> 0" and "be_min (bs ! i) \<le> cmd" and "cmd \<le> be_max (bs ! i)"
  using assms by (auto simp: backend_get_def find_Some_iff)

section \<open>Properties\<close>


definition social_example :: "social_node list" where
  "social_example = [\<lparr>sn_id = 11, sn_min = 200, sn_max = 299, sn_name = None, sn_host = None, sn_port = None, sn_timeout = None\<rparr>]"

definition backends_example :: "Backend list" where
  "backends_example = (replicate MAX_BACK_END zero_backend)[1 :=
     \<lparr>be_min = 200, be_max = 299, be_id = 11, be_name = ''UnknownService'', be_host = ''localhost'', be_port = 9821,
      be_timeout = 5, be_conn = 4\<rparr>]"


end
