(* ===== verification/GwRelay.thy ===== *)
theory GwRelay
  imports GwClient GwMsg GwWaiting GwBackend
begin

text \<open>
  The gateway as a relay between clients, worlds and backend services: \<^verbatim>\<open>src/gateway/translate.c\<close> (messages
  of logged-in clients) and the message handlers of \<^verbatim>\<open>src/gateway/world.c\<close> and \<^verbatim>\<open>src/gateway/backend.c\<close>. The state
  is that of the modules together; what a handler does to the network is appended to \<open>gw_out\<close>.

  \<^item> \<open>gw_next\<close> is the next address \<open>malloc\<close> gives: addresses are not reused, so that a pointer to a
    freed client is always found out.
  \<^item> \<open>gw_accounts\<close> is \<open>account_get_by_pid\<close>, the account name of a player.
  \<^item> The record \<open>env\<close> holds what one call of a handler gets from outside: the time, the connections on
    which \<open>agN_writev\<close> succeeds, the address of a peer as text (empty when it has none) and the
    header member the code leaves unset.
  \<^item> The protocol library decodes a broadcast request; the decoded request is an argument.
  \<^item> The log and the recording of messages to files are left out.
\<close>

section \<open>State\<close>

datatype handler = AuthHandler | TranslateHandler addr | AuthServerHandler addr

datatype action = Send resid_t "byte list" | Close resid_t | SetHandler resid_t handler

record gateway =
  gw_clients :: client_table
  gw_waiting :: waiting
  gw_worlds :: "WorldConfig list"
  gw_backends :: "Backend list"
  gw_accounts :: "u64 \<Rightarrow> byte list option"
  gw_next :: addr
  gw_out :: "action list"

record env =
  e_fuel :: nat
  e_now :: int
  e_up :: "resid_t \<Rightarrow> bool"
  e_ip :: "resid_t \<Rightarrow> byte list"
  e_sn0 :: u32

definition emit :: "action list \<Rightarrow> gateway \<Rightarrow> gateway" where
  "emit acts g = g\<lparr>gw_out := gw_out g @ acts\<rparr>"

definition sends :: "(resid_t \<times> byte list) list \<Rightarrow> action list" where
  "sends xs = map (\<lambda>(c, b). Send c b) xs"

definition with_client :: "gateway \<Rightarrow> addr \<Rightarrow> (client \<Rightarrow> 'a res option) \<Rightarrow> 'a res option" where
  "with_client g c f = (case ct_heap (gw_clients g) c of None \<Rightarrow> Some (Inl UseAfterFree) | Some cl \<Rightarrow> f cl)"

definition store_client :: "gateway \<Rightarrow> addr \<Rightarrow> client \<Rightarrow> gateway" where
  "store_client g c cl = g\<lparr>gw_clients := (gw_clients g)\<lparr>ct_heap := (ct_heap (gw_clients g))(c \<mapsto> cl)\<rparr>\<rparr>"

definition free_client :: "gateway \<Rightarrow> addr \<Rightarrow> gateway res option" where
  "free_client g c = run_bind (client_free (gw_clients g) c) (\<lambda>ct. Some (Inr (g\<lparr>gw_clients := ct\<rparr>)))"

text \<open>A step whose only failure is a fault.\<close>

definition lift_res :: "'a res \<Rightarrow> 'a res option" where
  "lift_res r = Some r"

section \<open>Commands\<close>

definition C_LOGIN_REQUEST :: u32 where "C_LOGIN_REQUEST = 1"
definition C_LOGIN_RESPOND :: u32 where "C_LOGIN_RESPOND = 2"
definition C_LOGOUT_REQUEST :: u32 where "C_LOGOUT_REQUEST = 3"
definition C_LOGOUT_RESPOND :: u32 where "C_LOGOUT_RESPOND = 4"
definition C_CREATE_PLAYER_RESPOND :: u32 where "C_CREATE_PLAYER_RESPOND = 8"
definition S_SERVICE_REGISTER_RESPOND :: u32 where "S_SERVICE_REGISTER_RESPOND = 1005"
definition S_SERVICE_BROADCAST_REQUEST :: u32 where "S_SERVICE_BROADCAST_REQUEST = 1006"
definition S_SERVICE_BROADCAST_RESPOND :: u32 where "S_SERVICE_BROADCAST_RESPOND = 1007"
definition RET_SUCCESS :: u32 where "RET_SUCCESS = 0"
definition RET_CHARACTER_NOT_EXIST :: u32 where "RET_CHARACTER_NOT_EXIST = 3"
definition RET_SERVICE_STATUS_ERROR :: u32 where "RET_SERVICE_STATUS_ERROR = 14"

lemmas commands = C_LOGIN_REQUEST_def C_LOGIN_RESPOND_def C_LOGOUT_REQUEST_def C_LOGOUT_RESPOND_def
  C_CREATE_PLAYER_RESPOND_def S_SERVICE_REGISTER_RESPOND_def S_SERVICE_BROADCAST_REQUEST_def
  S_SERVICE_BROADCAST_RESPOND_def RET_SUCCESS_def RET_CHARACTER_NOT_EXIST_def RET_SERVICE_STATUS_ERROR_def

section \<open>Text\<close>

text \<open>\<open>%llu\<close> and \<open>%u\<close>.\<close>

fun dec_digits :: "nat \<Rightarrow> byte list" where
  "dec_digits n = (if n < 10 then [word_of_nat (48 + n)] else dec_digits (n div 10) @ [word_of_nat (48 + n mod 10)])"

declare dec_digits.simps [simp del]

text \<open>The conversion of an \<open>unsigned long long\<close> to \<open>double\<close>, rounding to nearest even.\<close>

definition double_of_u64 :: "u64 \<Rightarrow> u64" where
  "double_of_u64 v =
     (let m = unat v; e = msb_index m
      in if e \<le> 52 then double_of_int (int m)
         else let s = e - 52; q = m div 2 ^ s; r = m mod 2 ^ s;
                  q = (if r > 2 ^ (s - 1) \<or> r = 2 ^ (s - 1) \<and> odd q then q + 1 else q)
              in word_of_nat ((1023 + e) * 2 ^ 52 + (q - 2 ^ 52)))"

section \<open>Leaving the relay\<close>

definition start_auth :: "env \<Rightarrow> resid_t \<Rightarrow> gateway \<Rightarrow> gateway res option" where
  "start_auth e conn g =
     run_bind (new_waiting_client (e_fuel e) (gw_next g) (e_now e) (gw_waiting g) conn) (\<lambda>(closed, w).
       Some (Inr (emit (map Close closed @ [SetHandler conn AuthHandler])
         (g\<lparr>gw_waiting := w, gw_next := Suc (gw_next g)\<rparr>))))"

text \<open>The messages that announce a logout: sequence number 0 and reason 1.\<close>

definition logout_message :: "byte list res" where
  "logout_message =
     encode_message 4096
       [\<lambda>k. amf_encode_array k 2, \<lambda>k. amf_encode_integer k 0, \<lambda>k. amf_encode_integer k 1]"

text \<open>A client without a valid world is given the world of its player id.\<close>

definition pick_world :: "addr \<Rightarrow> gateway \<Rightarrow> gateway res option" where
  "pick_world c g =
     with_client g c (\<lambda>cl.
       if cl_world cl = INVALID_WORLD_ID \<or> \<not> world_is_valid (gw_worlds g) (cl_world cl) then
         (case world_get_idle_world (gw_worlds g) (cl_playerid cl) of
            Inl f \<Rightarrow> Some (Inl f)
          | Inr w \<Rightarrow>
              (case world_increase_player (gw_worlds g) w of
                 Inl f \<Rightarrow> Some (Inl f)
               | Inr ws \<Rightarrow> Some (Inr ((store_client g c (cl\<lparr>cl_world := w\<rparr>))\<lparr>gw_worlds := ws\<rparr>))))
       else Some (Inr g))"

definition send_world :: "env \<Rightarrow> client \<Rightarrow> u32 \<Rightarrow> u32 \<Rightarrow> byte list \<Rightarrow> gateway \<Rightarrow> gateway" where
  "send_world e cl cmd flag msg g =
     emit (case world_send_message (e_sn0 e) (gw_worlds g) (cl_world cl) (cl_playerid cl) cmd flag msg of
             None \<Rightarrow> [] | Some (c, b) \<Rightarrow> [Send c b]) g"

definition send_backends :: "env \<Rightarrow> client \<Rightarrow> u32 \<Rightarrow> u32 \<Rightarrow> byte list \<Rightarrow> gateway \<Rightarrow> gateway" where
  "send_backends e cl cmd flag msg g =
     emit (sends (backend_broadcast (e_sn0 e) (gw_backends g) (cl_playerid cl) cmd flag msg)) g"

definition send_logout :: "env \<Rightarrow> addr \<Rightarrow> gateway \<Rightarrow> gateway res option" where
  "send_logout e c g =
     run_bind (lift_res logout_message) (\<lambda>msg.
     run_bind (pick_world c g) (\<lambda>g.
       with_client g c (\<lambda>cl.
         if cl_world cl = INVALID_WORLD_ID then Some (Inr (emit [Close (cl_conn cl)] g))
         else
           run_bind (start_auth e (cl_conn cl)
             (send_backends e cl C_LOGOUT_REQUEST 1 msg (send_world e cl C_LOGOUT_REQUEST 1 msg g))) (\<lambda>g.
             free_client g c))))"

section \<open>Messages of a client\<close>

text \<open>The answer to the client when its service is not reachable; \<open>sn\<close> is taken from its request.\<close>

definition status_error_message :: "u32 \<Rightarrow> u32 \<Rightarrow> byte list res" where
  "status_error_message sn peer_id =
     encode_message 4096
       [\<lambda>k. amf_encode_array k 3, \<lambda>k. amf_encode_integer k sn,
        \<lambda>k. amf_encode_integer k RET_SERVICE_STATUS_ERROR, \<lambda>k. amf_encode_integer k peer_id]"

definition request_sn :: "amf_value \<Rightarrow> u32 res" where
  "request_sn req =
     (if amf_type_of (Some req) = amf_array \<and> amf_size (Some req) \<ge> 1
      then (case amf_get (Some req) 0 of Inl f \<Rightarrow> Inl f | Inr v \<Rightarrow> amf_get_integer v)
      else Inr 0)"

definition send_backend_message :: "env \<Rightarrow> addr \<Rightarrow> u32 \<Rightarrow> u32 \<Rightarrow> byte list \<Rightarrow> gateway \<Rightarrow> (bool \<times> gateway) res option" where
  "send_backend_message e c cmd flag msg g =
     with_client g c (\<lambda>cl.
       case backend_get (gw_backends g) cmd of
         None \<Rightarrow> Some (Inr (False, g))
       | Some i \<Rightarrow>
           let peer = gw_backends g ! i
           in case backend_send (e_up e) (e_sn0 e) peer (cl_playerid cl) cmd flag msg of
                Some (p, b) \<Rightarrow> Some (Inr (True, emit [Send p b] g))
              | None \<Rightarrow>
                  run_bind (lift_res (amf_read msg)) (\<lambda>(r, _).
                    case r of
                      None \<Rightarrow> Some (Inr (True, emit [Close (cl_conn cl)] g))
                    | Some (req, rlen) \<Rightarrow>
                        if rlen \<noteq> length msg then Some (Inr (True, emit [Close (cl_conn cl)] g))
                        else
                          run_bind (lift_res (request_sn req)) (\<lambda>sn.
                          run_bind (lift_res (status_error_message sn (be_id peer))) (\<lambda>respond_msg.
                          run_bind (lift_res (client_send (gw_clients g) c (cmd + 1) 1 respond_msg)) (\<lambda>out.
                            Some (Inr (True, emit (case out of None \<Rightarrow> [] | Some (p, b) \<Rightarrow> [Send p b]) g)))))))"

text \<open>The address a proxy puts in front of the fifth element of a login, \<open>ip:...\<close>.\<close>

definition proxy_ip :: "amf_value \<Rightarrow> byte list res" where
  "proxy_ip v =
     (if amf_size (Some v) \<ge> 5 then
        (case amf_get (Some v) 4 of
           Inl f \<Rightarrow> Inl f
         | Inr it \<Rightarrow>
             if amf_type_of it = amf_string then
               (case amf_get_string it of
                  None \<Rightarrow> Inr []
                | Some str \<Rightarrow>
                    if take 3 str = [105, 112, 58] then Inr (take 256 (takeWhile (\<lambda>b. b \<noteq> 0) (drop 3 str))) else Inr [])
             else Inr [])
      else Inr [])"

definition xtoken :: "u64 \<Rightarrow> int \<Rightarrow> byte list \<Rightarrow> byte list" where
  "xtoken pid adult ip = take 127 (dec_digits (unat pid) @ [58] @ dec_digits (unat (word_of_int adult :: u32)) @ [58] @ ip)"

definition login_message :: "client \<Rightarrow> byte list \<Rightarrow> byte list \<Rightarrow> byte list res" where
  "login_message cl name ip =
     encode_message 4096
       [\<lambda>k. amf_encode_array k 5, \<lambda>k. amf_encode_integer k 0, \<lambda>k. amf_encode_string k (name @ [0]) 0,
        \<lambda>k. amf_encode_string k (xtoken (cl_playerid cl) (cl_adult cl) ip @ [0]) 0,
        \<lambda>k. amf_encode_integer k (cl_vip cl), \<lambda>k. amf_encode_integer k (cl_vip2 cl)]"

text \<open>The message that is passed on: a login is replaced by one the gateway builds.\<close>

definition relayed_message :: "env \<Rightarrow> resid_t \<Rightarrow> client \<Rightarrow> u32 \<Rightarrow> u32 \<Rightarrow> byte list \<Rightarrow> byte list \<Rightarrow> gateway \<Rightarrow> (u32 \<times> byte list) res" where
  "relayed_message e conn cl cmd flag msg ip g =
     (if cmd = C_LOGIN_REQUEST then
        let ip = (if ip = [] then e_ip e conn else ip);
            name = (case gw_accounts g (cl_playerid cl) of None \<Rightarrow> [] | Some n \<Rightarrow> n)
        in if length ip \<ge> 256 then Inl OutOfBounds
           else (case login_message cl name ip of Inl f \<Rightarrow> Inl f | Inr m \<Rightarrow> Inr (1, m))
      else Inr (flag, msg))"

text \<open>The last part of \<open>process_message\<close>: to a service, or to the world.\<close>

definition forward_message ::
  "env \<Rightarrow> resid_t \<Rightarrow> addr \<Rightarrow> u32 \<Rightarrow> u32 \<Rightarrow> byte list \<Rightarrow> nat \<Rightarrow> gateway \<Rightarrow> (nat \<times> gateway) res option" where
  "forward_message e conn c cmd flag msg package_len g =
     run_bind (send_backend_message e c cmd flag msg g) (\<lambda>(taken, g).
       if taken then Some (Inr (package_len, g))
       else
         run_bind (pick_world c g) (\<lambda>g.
           with_client g c (\<lambda>cl.
             if cl_world cl = INVALID_WORLD_ID then Some (Inr (0, emit [Close conn] g))
             else
               let g = send_world e cl cmd flag msg g;
                   g = (if cmd = C_LOGOUT_REQUEST then send_backends e cl cmd flag msg g else g)
               in Some (Inr (package_len, g)))))"

definition process_message :: "env \<Rightarrow> resid_t \<Rightarrow> byte list \<Rightarrow> addr \<Rightarrow> gateway \<Rightarrow> (nat \<times> gateway) res option" where
  "process_message e conn data c g =
     (if c = 0 then Some (Inl Assertion)
      else with_client g c (\<lambda>cl.
        if cl_conn cl \<noteq> conn then Some (Inl Assertion)
        else if length data < client_header_size then Some (Inr (0, g))
        else
          let h = get_client_header data; package_len = unat (ch_len h); flag = ch_flag h; cmd = ch_cmd h
          in if length data < package_len then Some (Inr (0, g))
             else if package_len < client_header_size then Some (Inl OutOfBounds)
             else
               let msg = take (package_len - client_header_size) (drop client_header_size data)
               in run_bind (lift_res (amf_read msg)) (\<lambda>(r, _).
                    case r of
                      Some (v, read_len) \<Rightarrow>
                        if read_len = length msg \<and> amf_type_of (Some v) = amf_array then
                          run_bind (lift_res (if cmd = C_LOGIN_REQUEST then proxy_ip v else Inr [])) (\<lambda>ip.
                            let g = store_client g c (cl\<lparr>cl_protocol_flag := flag\<rparr>)
                            in if flag = 1 \<or> flag = 2 then
                                 run_bind (lift_res (relayed_message e conn cl cmd flag msg ip g)) (\<lambda>(flag, msg).
                                   forward_message e conn c cmd flag msg package_len g)
                               else
                                 run_bind (send_logout e c g) (\<lambda>g. Some (Inr (0, emit [Close conn] g))))
                        else
                          run_bind (free_client (emit [Close (cl_conn cl)] g) c) (\<lambda>g. Some (Inr (0, g)))
                    | None \<Rightarrow>
                        run_bind (free_client (emit [Close (cl_conn cl)] g) c) (\<lambda>g. Some (Inr (0, g))))))"

definition on_closed :: "env \<Rightarrow> resid_t \<Rightarrow> addr \<Rightarrow> gateway \<Rightarrow> gateway res option" where
  "on_closed e conn c g =
     (if c = 0 then Some (Inl Assertion)
      else with_client g c (\<lambda>cl.
        if conn = cl_conn cl
        then send_logout e c (g\<lparr>gw_worlds := world_reduce_player (gw_worlds g) (cl_world cl)\<rparr>)
        else Some (Inr g)))"

definition start_translate :: "env \<Rightarrow> resid_t \<Rightarrow> addr \<Rightarrow> byte list \<Rightarrow> gateway \<Rightarrow> gateway res option" where
  "start_translate e conn c package_data g =
     run_bind (process_message e conn package_data c (emit [SetHandler conn (TranslateHandler c)] g)) (\<lambda>(_, g). Some (Inr g))"

section \<open>Messages for clients\<close>

text \<open>The answer to a login that the gateway builds itself. It announces four items; the account name is
  left out unless the result is success or a missing character.\<close>

definition login_respond_message :: "u32 \<Rightarrow> u32 \<Rightarrow> u64 \<Rightarrow> byte list \<Rightarrow> byte list res" where
  "login_respond_message sn result playerid name =
     encode_message 1024
       ([\<lambda>k. amf_encode_array k 4, \<lambda>k. amf_encode_integer k sn, \<lambda>k. amf_encode_integer k result,
         \<lambda>k. Inr (amf_encode_double k (double_of_u64 playerid))]
        @ (if result = RET_SUCCESS \<or> result = RET_CHARACTER_NOT_EXIST
           then [\<lambda>k. amf_encode_string k (name @ [0]) 0] else []))"

definition login_notice_message :: "client \<Rightarrow> byte list res" where
  "login_notice_message cl =
     encode_message 1024
       [\<lambda>k. amf_encode_array k 5, \<lambda>k. amf_encode_integer k 0, \<lambda>k. amf_encode_string k [0] 0,
        \<lambda>k. amf_encode_string k [0] 0, \<lambda>k. amf_encode_integer k (cl_vip cl), \<lambda>k. amf_encode_integer k (cl_vip2 cl)]"

text \<open>Sequence number and result of the answer of a world.\<close>

definition login_result :: "byte list \<Rightarrow> (u32 \<times> u32) res" where
  "login_result msg =
     (case amf_decode_array msg of
        Inl f \<Rightarrow> Inl f
      | Inr (n, sz) \<Rightarrow>
          if (case sz of None \<Rightarrow> 0 | Some k \<Rightarrow> k) < 2 then Inl Assertion
          else
            let (n1, sn) = amf_decode_integer (drop n msg); (_, result) = amf_decode_integer (drop (n + n1) msg)
            in Inr (case sn of None \<Rightarrow> 0 | Some v \<Rightarrow> v, case result of None \<Rightarrow> 0 | Some v \<Rightarrow> v))"

text \<open>What follows a world's answer to a login or to the creation of a player. The result tells whether
  \<open>translate_to_client\<close> returns at once.\<close>

definition after_login ::
  "env \<Rightarrow> client \<Rightarrow> u64 \<Rightarrow> u32 \<Rightarrow> u32 \<Rightarrow> byte list \<Rightarrow> gateway \<Rightarrow> (bool \<times> gateway) res option" where
  "after_login e cl playerid cmd flag msg g =
     run_bind (lift_res (login_result msg)) (\<lambda>(sn, result).
     run_bind (if cmd = C_LOGIN_RESPOND then
                 run_bind (lift_res (login_respond_message sn result playerid
                   (case gw_accounts g playerid of None \<Rightarrow> [] | Some n \<Rightarrow> n))) (\<lambda>buff.
                   Some (Inr (emit [Send (cl_conn cl) (client_packet cmd flag buff)] g)))
               else Some (Inr g)) (\<lambda>g.
       if result = 0 then
         run_bind (lift_res (login_notice_message cl)) (\<lambda>buff.
           Some (Inr (False, send_backends e cl C_LOGIN_REQUEST 1 buff g)))
       else if cmd = C_LOGIN_RESPOND \<and> result \<noteq> RET_CHARACTER_NOT_EXIST then
         run_bind (start_auth e (cl_conn cl) g) (\<lambda>g. Some (Inr (True, g)))
       else Some (Inr (False, g))))"

definition translate_to_client :: "env \<Rightarrow> byte list \<Rightarrow> gateway \<Rightarrow> gateway res option" where
  "translate_to_client e pkt g =
     (let h = get_translate_header pkt; len = unat (th_len h); playerid = translate_playerid h;
          flag = th_flag h; cmd = th_cmd h
      in if len < translate_header_size then Some (Inl OutOfBounds)
         else
           let msg = take (len - translate_header_size) (drop translate_header_size pkt)
           in run_bind (client_get_by_playerid (nat (e_now e)) (gw_clients g) playerid) (\<lambda>(c, ct).
                let g = g\<lparr>gw_clients := ct\<rparr>
                in if c = 0 then Some (Inr g)
                   else with_client g c (\<lambda>cl.
                     if cl_conn cl = INVALID_ID then Some (Inr g)
                     else
                       let g = (if cmd \<noteq> C_LOGIN_RESPOND then emit [Send (cl_conn cl) (client_packet cmd flag msg)] g else g)
                       in run_bind (if cmd = C_LOGIN_RESPOND \<or> cmd = C_CREATE_PLAYER_RESPOND
                                    then after_login e cl playerid cmd flag msg g else Some (Inr (False, g))) (\<lambda>(stop, g).
                            if stop \<or> cmd \<noteq> C_LOGOUT_RESPOND then Some (Inr g)
                            else
                              run_bind (lift_res logout_message) (\<lambda>lmsg.
                                free_client (send_backends e cl C_LOGOUT_REQUEST 1 lmsg (emit [Close (cl_conn cl)] g)) c)))))"

section \<open>Broadcasts\<close>

record broadcast_request =
  br_sn :: u32
  br_cmd :: u32
  br_flag :: u32
  br_msg :: "byte list"
  br_pids :: "u64 list"

fun send_to_players :: "env \<Rightarrow> broadcast_request \<Rightarrow> u64 list \<Rightarrow> gateway \<Rightarrow> gateway res option" where
  "send_to_players e r [] g = Some (Inr g)"
| "send_to_players e r (pid # pids) g =
     run_bind (client_get_by_playerid (nat (e_now e)) (gw_clients g) pid) (\<lambda>(c, ct).
     run_bind (lift_res (client_send ct c (br_cmd r) (br_flag r) (br_msg r))) (\<lambda>out.
       send_to_players e r pids (emit (case out of None \<Rightarrow> [] | Some (p, b) \<Rightarrow> [Send p b]) (g\<lparr>gw_clients := ct\<rparr>))))"

text \<open>The common part of the two functions \<open>broadcast_to_client\<close>: to all clients when no player is named.\<close>

definition broadcast_clients :: "env \<Rightarrow> broadcast_request \<Rightarrow> gateway \<Rightarrow> gateway res option" where
  "broadcast_clients e r g =
     (if br_pids r = [] then
        (case client_broadcast (e_fuel e) (gw_clients g) (br_cmd r) (br_flag r) (br_msg r) of
           None \<Rightarrow> None
         | Some out \<Rightarrow> Some (Inr (emit (sends out) g)))
      else send_to_players e r (br_pids r) g)"

text \<open>\<open>respond\<close> is the message the protocol library builds for the sequence number.\<close>

definition world_broadcast :: "env \<Rightarrow> (u32 \<Rightarrow> byte list) \<Rightarrow> u32 \<Rightarrow> broadcast_request \<Rightarrow> gateway \<Rightarrow> gateway res option" where
  "world_broadcast e respond world r g =
     run_bind (broadcast_clients e r g) (\<lambda>g.
       Some (Inr (emit (case world_send_message (e_sn0 e) (gw_worlds g) world 0 S_SERVICE_BROADCAST_RESPOND 2 (respond (br_sn r)) of
          None \<Rightarrow> [] | Some (c, b) \<Rightarrow> [Send c b]) g)))"

definition backend_broadcast_request :: "env \<Rightarrow> (u32 \<Rightarrow> byte list) \<Rightarrow> nat \<Rightarrow> broadcast_request \<Rightarrow> gateway \<Rightarrow> gateway res option" where
  "backend_broadcast_request e respond i r g =
     run_bind (broadcast_clients e r g) (\<lambda>g.
       Some (Inr (emit (case backend_send (e_up e) (e_sn0 e) (gw_backends g ! i) 0 S_SERVICE_BROADCAST_RESPOND 2 (respond (br_sn r)) of
          None \<Rightarrow> [] | Some (c, b) \<Rightarrow> [Send c b]) g)))"

section \<open>Messages of worlds and services\<close>

text \<open>\<open>decode\<close> and \<open>respond\<close> are the protocol library. A broadcast of a world is decoded from all the bytes
  received, not only from those of its message.\<close>

definition world_process_message ::
  "env \<Rightarrow> (byte list \<Rightarrow> broadcast_request option) \<Rightarrow> (u32 \<Rightarrow> byte list) \<Rightarrow> nat \<Rightarrow> byte list \<Rightarrow> gateway \<Rightarrow> (nat \<times> gateway) res option" where
  "world_process_message e decode respond i msg g =
     (if length msg < translate_header_size then Some (Inr (0, g))
      else
        let h = get_translate_header msg; package_len = unat (th_len h); command = th_cmd h; playerid = translate_playerid h
        in if length msg < package_len then Some (Inr (0, g))
           else if command = S_SERVICE_BROADCAST_REQUEST then
             (if playerid \<noteq> 0 then Some (Inr (package_len, g))
              else case decode (drop translate_header_size msg) of
                None \<Rightarrow> Some (Inr (package_len, g))
              | Some r \<Rightarrow> run_bind (world_broadcast e respond (wc_id (gw_worlds g ! i)) r g) (\<lambda>g. Some (Inr (package_len, g))))
           else run_bind (translate_to_client e msg g) (\<lambda>g. Some (Inr (package_len, g))))"

definition backend_on_message ::
  "env \<Rightarrow> (byte list \<Rightarrow> broadcast_request option) \<Rightarrow> (u32 \<Rightarrow> byte list) \<Rightarrow> nat \<Rightarrow> byte list \<Rightarrow> gateway \<Rightarrow> (nat \<times> gateway) res option" where
  "backend_on_message e decode respond i data g =
     (if length data < translate_header_size then Some (Inr (0, g))
      else
        let h = get_translate_header data; package_len = unat (th_len h); flag = th_flag h; command = th_cmd h;
            playerid = translate_playerid h
        in if length data < package_len then Some (Inr (0, g))
           else if command = C_LOGOUT_RESPOND \<or> command = S_SERVICE_REGISTER_RESPOND then Some (Inr (package_len, g))
           else if package_len < translate_header_size then Some (Inl OutOfBounds)
           else
             let body = take (package_len - translate_header_size) (drop translate_header_size data)
             in if command = S_SERVICE_BROADCAST_REQUEST then
                  (if playerid \<noteq> 0 then Some (Inr (package_len, g))
                   else case decode body of
                     None \<Rightarrow> Some (Inl NullDeref)
                   | Some r \<Rightarrow> run_bind (backend_broadcast_request e respond i r g) (\<lambda>g. Some (Inr (package_len, g))))
                else
                  run_bind (client_get_by_playerid (nat (e_now e)) (gw_clients g) playerid) (\<lambda>(c, ct).
                    let g = g\<lparr>gw_clients := ct\<rparr>
                    in if c = 0 then Some (Inr (package_len, g))
                       else with_client g c (\<lambda>cl.
                         if cl_conn cl = INVALID_ID then Some (Inr (package_len, g))
                         else
                           run_bind (lift_res (client_send (gw_clients g) c command flag body)) (\<lambda>out.
                             Some (Inr (package_len, emit (case out of None \<Rightarrow> [] | Some (p, b) \<Rightarrow> [Send p b]) g))))))"

section \<open>Lemmas\<close>

lemma lift_res_simps [simp]: "lift_res r = Some r"
  by (simp add: lift_res_def)

lemma emit_simps [simp]:
  "gw_clients (emit acts g) = gw_clients g" "gw_waiting (emit acts g) = gw_waiting g" "gw_worlds (emit acts g) = gw_worlds g"
  "gw_backends (emit acts g) = gw_backends g" "gw_out (emit acts g) = gw_out g @ acts" "gw_accounts (emit acts g) = gw_accounts g"
  "gw_next (emit acts g) = gw_next g" "emit [] g = g"
  by (simp_all add: emit_def)

lemma with_client_Some [simp]: "ct_heap (gw_clients g) c = Some cl \<Longrightarrow> with_client g c f = f cl"
  by (simp add: with_client_def)

lemma store_client_simps [simp]:
  "ct_heap (gw_clients (store_client g c cl)) = (ct_heap (gw_clients g))(c \<mapsto> cl)" "gw_worlds (store_client g c cl) = gw_worlds g"
  "gw_backends (store_client g c cl) = gw_backends g" "gw_out (store_client g c cl) = gw_out g"
  "gw_waiting (store_client g c cl) = gw_waiting g" "gw_accounts (store_client g c cl) = gw_accounts g"
  by (simp_all add: store_client_def)

text \<open>A client may be changed as long as its player id stays.\<close>

lemma store_client_ok:
  assumes "clients_ok (gw_clients g) xs" and "ct_heap (gw_clients g) c = Some cl" and "cl_playerid cl' = cl_playerid cl"
  shows "clients_ok (gw_clients (store_client g c cl')) xs"
proof -
  have "ckey (gw_clients (store_client g c cl')) = ckey (gw_clients g)"
    using assms(2,3) by (auto simp: ckey_def store_client_def)
  then show ?thesis using assms(1) by (simp add: clients_ok_def store_client_def)
qed

lemma registered_client:
  assumes "clients_ok ct xs" and "c \<in> set xs"
  obtains cl where "ct_heap ct c = Some cl" and "c \<noteq> 0" and "agMap_ip_get (client_hash ct) (cl_playerid cl) = Some c"
proof -
  obtain cl where cl: "ct_heap ct c = Some cl" using clients_ok_live[OF assms] by blast
  moreover have "0 \<notin> set xs" using assms(1) by (simp add: clients_ok_def reg_ok_def dring_def)
  then have "c \<noteq> 0" using assms(2) by metis
  ultimately show thesis using that clients_ok_get[OF assms(1), of "cl_playerid cl" c] assms(2) by simp
qed

text \<open>A gateway with one client, one world and one service, for concrete instances.\<close>

definition client_one :: client where
  "client_one = \<lparr>cl_conn = 3, cl_world = 3, cl_playerid = 0x500000007, cl_last_active = 100, cl_protocol_flag = 0,
     cl_adult = 0, cl_vip = 0, cl_vip2 = 0\<rparr>"

definition clients_one :: client_table where
  "clients_one = snd (projr (the (client_new (Some 16) 0 100 clients_example 3 3 0x500000007)))"

definition gateway_example :: gateway where
  "gateway_example = \<lparr>gw_clients = clients_one, gw_waiting = waiting_example,
     gw_worlds = (replicate 10 zero_world)[3 := zero_world\<lparr>wc_port := 9813, wc_id := 3, wc_ok := True, wc_conn := 9\<rparr>],
     gw_backends = backends_example, gw_accounts = (\<lambda>_. None), gw_next = 32, gw_out = []\<rparr>"

definition env_example :: env where
  "env_example = \<lparr>e_fuel = 100, e_now = 200, e_up = (\<lambda>_. True), e_ip = (\<lambda>_. []), e_sn0 = 0\<rparr>"

lemma clients_one_ok: "clients_ok clients_one [16]" "ct_heap clients_one = [16 \<mapsto> client_one]"
proof -
  have "ct_heap clients_example 16 = None" "agMap_ip_get (client_hash clients_example) 0x500000007 = None"
    by (simp_all add: clients_example_def agMap_ip_get_def ip_find_def map_find_def)
  from client_new_ok[OF clients_example_ok, of 16 "0x500000007" 0 100 3 3, OF _ _ this]
  show "clients_ok clients_one [16]" "ct_heap clients_one = [16 \<mapsto> client_one]"
    by (auto simp: clients_one_def client_one_def clients_example_def)
qed

lemma gateway_example_ok:
  "clients_ok (gw_clients gateway_example) [16]" "ct_heap (gw_clients gateway_example) 16 = Some client_one"
  "world_is_valid (gw_worlds gateway_example) 3" "world_slot 3 = 3" "wc_conn (gw_worlds gateway_example ! 3) = 9"
  "agMap_ip_get (client_hash (gw_clients gateway_example)) 0x500000007 = Some 16" "gw_out gateway_example = []"
proof -
  show 1: "clients_ok (gw_clients gateway_example) [16]" "ct_heap (gw_clients gateway_example) 16 = Some client_one"
    by (simp_all add: gateway_example_def clients_one_ok)
  show 2: "world_slot 3 = 3" by (simp add: world_slot_def max_world_id_def)
  show "world_is_valid (gw_worlds gateway_example) 3" "wc_conn (gw_worlds gateway_example ! 3) = 9" "gw_out gateway_example = []"
    using 2 by (simp_all add: gateway_example_def world_is_valid_def INVALID_ID_def)
  show "agMap_ip_get (client_hash (gw_clients gateway_example)) 0x500000007 = Some 16"
    using clients_ok_get[OF 1(1), of "0x500000007" 16] 1(2) by (simp add: client_one_def)
qed

text \<open>The messages the gateway builds, as AMF values.\<close>

definition int_value :: "u32 \<Rightarrow> amf_value option" where
  "int_value i = Some (AVinteger 1 i)"

lemma int_value_wire [simp]: "amf_wire (int_value i) = amf_wire (Some (AVinteger 1 i))" "amf_wf (int_value i)" "amf_exact (int_value i)"
    "amf_strings (int_value i) = []" "amf_get_integer (Some (amf_norm (int_value i))) = Inr i"
  by (simp_all add: int_value_def u32_of_double_of_u32)

lemma int_items_length: "length (concat (map amf_wire (map int_value is))) \<le> 9 * length is"
  using wire_integer_max by (induction "is") (auto simp: add_mono simp del: amf_wire.simps)

lemma wires_concat: "amf_wires (length its) its = concat (map amf_wire its)"
  by (induction its) simp_all

lemma int_array_message:
  assumes "length is = n" and "n < 64" and "9 * n + 6 \<le> sz"
  shows "encode_message sz ((\<lambda>k. amf_encode_array k (word_of_nat n)) # map (\<lambda>i k. amf_encode_integer k i) is) =
      Inr (amf_wire (Some (AVarray n (map int_value is))))"
proof (rule encode_array_message)
  show "list_all2 writes (map (\<lambda>i k. amf_encode_integer k i) is) (map amf_wire (map int_value is))"
    by (simp add: list_all2_conv_all_nth writes_integer[unfolded One_nat_def] del: amf_wire.simps)
  have "amf_wires n (map int_value is) = concat (map amf_wire (map int_value is))"
    using wires_concat[of "map int_value is"] assms(1) by simp
  moreover have "length (u29_bytes (len_word n)) \<le> 4"
    using u29_bytes_max[OF len_word_range[of n]] assms(2) by simp
  ultimately show "length (amf_wire (Some (AVarray n (map int_value is)))) \<le> sz"
    using int_items_length[of "is"] assms(1,3) by simp
qed (use assms in simp_all)

lemma int_array_read:
  assumes "length is = n" and "n < 64"
  shows "amf_read (amf_wire (Some (AVarray n (map int_value is)))) =
      Inr (Some (amf_norm (Some (AVarray n (map int_value is))), length (amf_wire (Some (AVarray n (map int_value is))))), [])"
proof -
  have *: "amf_wfs (length ys) (map int_value ys) \<and> amf_exacts (length ys) (map int_value ys) \<and> amf_stringss (length ys) (map int_value ys) = []" for ys
    by (induction ys) simp_all
  show ?thesis
    using read_array_message[of "Some (AVarray n (map int_value is))"] *[of "is"] assms
    by (auto simp del: amf_wire.simps amf_norm.simps)
qed

lemma int_array_get:
  assumes "length is = n" and "j < n"
  shows "\<exists>v. amf_get (Some (amf_norm (Some (AVarray n (map int_value is))))) j = Inr v \<and> amf_get_integer v = Inr (is ! j)"
proof -
  have "amf_norms (length ys) (map int_value ys) = map (\<lambda>i. amf_norm (int_value i)) ys" for ys
    by (induction ys) simp_all
  then show ?thesis using assms by (auto simp: map_nth)
qed

lemma small_nats: "(3 :: nat) = Suc (Suc (Suc 0))" "(4 :: nat) = Suc (Suc (Suc (Suc 0)))"
  by simp_all

text \<open>An array that announces more items than follow makes the reader run off the message.\<close>

lemma read_children_short:
  assumes "amf_wfs n cs" and "amf_exacts n cs" and "length refs + length (amf_stringss n cs) \<le> STRING_REF_MAX"
  shows "read_children refs (amf_wires n cs) skip i (n + Suc k) v = Inl OutOfBounds"
  using assms
proof (induction n arbitrary: cs refs skip i v)
  case 0
  then show ?case by (simp add: read_amf.simps)
next
  case (Suc n)
  then obtain c cs' where cs: "cs = c # cs'" by (cases cs) auto
  have "read_amf refs (amf_wire c @ amf_wires n cs') = Inr (Some (amf_norm c, length (amf_wire c)), refs @ amf_strings c)"
    by (rule amf_read_wire_aux(1)) (use Suc.prems cs in auto)
  then show ?case using Suc.IH[of cs' "refs @ amf_strings c"] Suc.prems cs by simp
qed

lemma short_array_read:
  assumes "amf_wfs n cs" and "amf_exacts n cs" and "length (amf_stringss n cs) \<le> STRING_REF_MAX" and "n + Suc k < 2 ^ 28"
  shows "amf_read (amf_code amf_array # u29_bytes (len_word (n + Suc k)) @ 1 # amf_wires n cs) = Inl OutOfBounds"
proof -
  have "read_array [] (amf_code amf_array # u29_bytes (len_word (n + Suc k)) @ 1 # amf_wires n cs) =
      read_children [] (amf_wires n cs) (1 + length (u29_bytes (len_word (n + Suc k))) + 1) 0 (n + Suc k) (amf_new_array (n + Suc k))"
    using amf_decode_array_wire[OF assms(4), of "amf_wires n cs"] by (simp add: read_array.simps Let_def)
  then show ?thesis using read_children_short[OF assms(1,2), of "[]"] assms(3) by (simp add: amf_read_def read_amf.simps)
qed

lemma world_reduce_valid: "world_is_valid (world_reduce_player ws w) v = world_is_valid ws v"
    "wc_conn (world_reduce_player ws w ! i) = wc_conn (ws ! i)"
proof -
  have *: "wc_id (ws[j := (ws ! j)\<lparr>wc_player_count := n\<rparr>] ! i) = wc_id (ws ! i)
      \<and> wc_conn (ws[j := (ws ! j)\<lparr>wc_player_count := n\<rparr>] ! i) = wc_conn (ws ! i)
      \<and> wc_ok (ws[j := (ws ! j)\<lparr>wc_player_count := n\<rparr>] ! i) = wc_ok (ws ! i)" for i j n
    by (cases "j < length ws"; cases "j = i") (simp_all add: list_update_beyond)
  show "world_is_valid (world_reduce_player ws w) v = world_is_valid ws v"
    "wc_conn (world_reduce_player ws w ! i) = wc_conn (ws ! i)"
    by (simp_all add: world_reduce_player_def world_is_valid_def Let_def *)
qed

lemma logout_message_ok: "logout_message = Inr (amf_wire (Some (AVarray 2 (map int_value [0, 1]))))"
  using int_array_message[of "[0, 1]" 2 4096] by (simp add: logout_message_def del: amf_wire.simps)

section \<open>Properties\<close>

text \<open>C5: The answer of a world reaches the client. A message of a world for a logged-in player, other than the
  answers to login, creation and logout, is sent once, as a client message with the same command, flag
  and payload, on the connection of that player; nothing else is sent, and the table of clients stays
  well formed. A message for a player who is not logged in is dropped.\<close>

theorem world_answer_reaches_client:
  fixes sn flag :: u32
  assumes "clients_ok (gw_clients g) xs" and "translate_header_size + length msg < 2 ^ 32"
    and "TRANSFORM_PLAYERID pid False \<noteq> 0"
    and "cmd \<notin> {C_LOGIN_RESPOND, C_CREATE_PLAYER_RESPOND, C_LOGOUT_RESPOND, S_SERVICE_BROADCAST_REQUEST}"
  defines "pkt \<equiv> translate_packet sn pid cmd flag msg"
  shows "\<exists>g'. world_process_message e decode respond i (pkt @ rest) g = Some (Inr (length pkt, g'))
    \<and> (\<exists>ys. clients_ok (gw_clients g') ys \<and> set ys = set xs)
    \<and> gw_out g' = gw_out g @
        (case agMap_ip_get (client_hash (gw_clients g)) pid of
           None \<Rightarrow> []
         | Some c \<Rightarrow> let conn = cl_conn (the (ct_heap (gw_clients g) c))
                    in if conn = INVALID_ID then [] else [Send conn (client_packet cmd flag msg)])"
proof -
  note f = translate_packet_frame[OF assms(2), of sn pid cmd flag, folded pkt_def]
  have h: "get_translate_header (pkt @ rest) = \<lparr>th_len = word_of_nat (translate_header_size + length msg), th_sn = sn,
      th_playerid = ucast pid, th_flag = flag, th_cmd = cmd, th_serverid = TRANSFORM_PLAYERID pid True\<rparr>"
    using f(2) .
  have pid: "translate_playerid (get_translate_header (pkt @ rest)) = pid"
    unfolding h playerid_decodes using assms(3) by simp
  have len: "unat (th_len (get_translate_header (pkt @ rest))) = length pkt"
    using unat_size[OF assms(2)] f(4) h by simp
  have cmd: "th_cmd (get_translate_header (pkt @ rest)) = cmd" "th_flag (get_translate_header (pkt @ rest)) = flag"
    by (simp_all add: h)
  have msg: "take (length pkt - translate_header_size) (drop translate_header_size (pkt @ rest)) = msg"
    using f(3,4) by simp
  have top: "world_process_message e decode respond i (pkt @ rest) g =
      run_bind (translate_to_client e (pkt @ rest) g) (\<lambda>g. Some (Inr (length pkt, g)))"
    using f(4) assms(4) unfolding world_process_message_def Let_def len pid cmd by simp
  show ?thesis
  proof (cases "agMap_ip_get (client_hash (gw_clients g)) pid")
    case None
    then have "client_get_by_playerid (nat (e_now e)) (gw_clients g) pid = Some (Inr (0, gw_clients g))"
      by (simp add: client_get_by_playerid_def)
    then have "translate_to_client e (pkt @ rest) g = Some (Inr g)"
      unfolding translate_to_client_def Let_def len pid using f(4) by simp
    then show ?thesis using top None assms(1) by auto
  next
    case (Some c)
    then have c: "c \<in> set xs" using clients_ok_get[OF assms(1)] by simp
    obtain cl where cl: "ct_heap (gw_clients g) c = Some cl" "c \<noteq> 0" "cl_playerid cl = pid"
      using registered_client[OF assms(1) c] clients_ok_get[OF assms(1), of pid c] Some by auto
    obtain ct where ct: "client_get_by_playerid (nat (e_now e)) (gw_clients g) pid = Some (Inr (c, ct))"
      "clients_ok ct (remove1 c xs @ [c])" "ct_heap ct = (ct_heap (gw_clients g))(c \<mapsto> cl\<lparr>cl_last_active := nat (e_now e)\<rparr>)"
      using client_get_ok[OF assms(1) c cl(1), of "nat (e_now e)"] cl(3) by blast
    have "distinct xs" using assms(1) by (auto simp: clients_ok_def reg_ok_def dring_def)
    then have "set (remove1 c xs @ [c]) = set xs" using c by auto
    moreover have "translate_to_client e (pkt @ rest) g =
        Some (Inr (emit (if cl_conn cl = INVALID_ID then [] else [Send (cl_conn cl) (client_packet cmd flag msg)]) (g\<lparr>gw_clients := ct\<rparr>)))"
      unfolding translate_to_client_def Let_def len pid cmd msg
      using f(4) ct(1,3) cl(2) assms(4) by (simp add: with_client_def)
    ultimately show ?thesis using top Some ct(2) cl(1) by (auto simp: Let_def)
  qed
qed

theorem world_answer_reaches_client_witness:
  "\<exists>g'. world_process_message env_example (\<lambda>_. None) (\<lambda>_. []) 3 (translate_packet 0 0x500000007 166 1 [7, 8]) gateway_example =
      Some (Inr (30, g')) \<and> gw_out g' = [Send 3 (client_packet 166 1 [7, 8])]"
proof -
  have "TRANSFORM_PLAYERID 0x500000007 False \<noteq> 0" by (simp add: TRANSFORM_PLAYERID_def)
  from world_answer_reaches_client[OF gateway_example_ok(1) _ this, of "[7, 8]" 166 env_example "\<lambda>_. None" "\<lambda>_. []" 3 0 1 "[]"]
  show ?thesis
    using gateway_example_ok(2,6,7) by (auto simp: commands translate_header_size_def translate_packet_frame(4) client_one_def INVALID_ID_def)
qed

text \<open>What the handler does with a request that goes to the world.\<close>

lemma relayed_request:
  assumes "ct_heap (gw_clients g) c = Some cl" and "c \<noteq> 0" and "cl_conn cl = conn"
    and "amf_wf (Some (AVarray n items))" and "amf_exact (Some (AVarray n items))"
    and "length (amf_strings (Some (AVarray n items))) \<le> STRING_REF_MAX"
    and "msg = amf_wire (Some (AVarray n items))" and "translate_header_size + length msg < 2 ^ 31"
    and "flag = 1 \<or> flag = 2" and "cmd \<noteq> C_LOGIN_REQUEST" and "cmd \<noteq> C_LOGOUT_REQUEST"
    and "backend_get (gw_backends g) cmd = None"
    and "cl_world cl \<noteq> INVALID_WORLD_ID" and "world_is_valid (gw_worlds g) (cl_world cl)"
  shows "process_message e conn (client_packet cmd flag msg @ rest) c g =
      Some (Inr (length (client_packet cmd flag msg),
        emit [Send (wc_conn (gw_worlds g ! world_slot (cl_world cl))) (translate_packet (e_sn0 e) (cl_playerid cl) cmd flag msg)]
          (store_client g c (cl\<lparr>cl_protocol_flag := flag\<rparr>))))"
proof -
  have sz: "client_header_size + length msg < 2 ^ 32" "translate_header_size + length msg < 2 ^ 32"
    using assms(8) by (simp_all add: client_header_size_def translate_header_size_def)
  let ?p = "client_packet cmd flag msg"
  have h: "get_client_header (?p @ rest) = \<lparr>ch_len = word_of_nat (client_header_size + length msg), ch_flag = flag, ch_cmd = cmd\<rparr>"
    by (simp add: client_packet_def)
  have len: "length ?p = client_header_size + length msg" by (simp add: client_packet_def)
  have m: "take (client_header_size + length msg - client_header_size) (drop client_header_size (?p @ rest)) = msg"
    by (simp add: client_packet_def)
  have rd: "amf_read msg = Inr (Some (amf_norm (Some (AVarray n items)), length msg), amf_strings (Some (AVarray n items)))"
    using read_array_message[OF assms(4,5,6)] assms(7) by simp
  have arr: "amf_type_of (Some (amf_norm (Some (AVarray n items)))) = amf_array" by simp
  let ?g = "store_client g c (cl\<lparr>cl_protocol_flag := flag\<rparr>)"
  let ?b = "translate_packet (e_sn0 e) (cl_playerid cl) cmd flag msg"
  have fw: "forward_message e conn c cmd flag msg k ?g =
      Some (Inr (k, emit [Send (wc_conn (gw_worlds g ! world_slot (cl_world cl))) ?b] ?g))" for k
    using assms(11-14)
    by (simp add: forward_message_def send_backend_message_def pick_world_def send_world_def world_send_message_def Let_def)
  show ?thesis
    using assms(1-3,9,10) fw unfolding process_message_def Let_def h client_header.simps unat_size[OF sz(1)] m rd
    by (simp add: len arr relayed_message_def del: amf_norm.simps)
qed

text \<open>C4: A client's request reaches its world. A complete message that holds an AMF array, is neither a login nor
  a logout and belongs to no service is taken off the stream whole and sent once, on the connection of the
  client's world, as a message with the same command, flag and payload and the id of the player; of the
  rest of the gateway only the client's protocol flag changes.\<close>

theorem client_request_reaches_world:
  assumes "ct_heap (gw_clients g) c = Some cl" and "c \<noteq> 0" and "cl_conn cl = conn"
    and "amf_wf (Some (AVarray n items))" and "amf_exact (Some (AVarray n items))"
    and "length (amf_strings (Some (AVarray n items))) \<le> STRING_REF_MAX"
    and "msg = amf_wire (Some (AVarray n items))" and "translate_header_size + length msg < 2 ^ 31"
    and "flag = 1 \<or> flag = 2" and "cmd \<noteq> C_LOGIN_REQUEST" and "cmd \<noteq> C_LOGOUT_REQUEST"
    and "backend_get (gw_backends g) cmd = None"
    and "cl_world cl \<noteq> INVALID_WORLD_ID" and "world_is_valid (gw_worlds g) (cl_world cl)"
    and "TRANSFORM_PLAYERID (cl_playerid cl) False \<noteq> 0"
  shows "\<exists>bytes. process_message e conn (client_packet cmd flag msg @ rest) c g =
        Some (Inr (length (client_packet cmd flag msg),
          emit [Send (wc_conn (gw_worlds g ! world_slot (cl_world cl))) bytes] (store_client g c (cl\<lparr>cl_protocol_flag := flag\<rparr>))))
    \<and> translate_frame bytes = length bytes \<and> th_cmd (get_translate_header bytes) = cmd
    \<and> th_flag (get_translate_header bytes) = flag \<and> translate_playerid (get_translate_header bytes) = cl_playerid cl
    \<and> drop translate_header_size bytes = msg"
proof -
  have sz: "translate_header_size + length msg < 2 ^ 32" using assms(8) by simp
  show ?thesis
    using relayed_request[OF assms(1-14), of e rest] playerid_decodes assms(15)
      translate_packet_frame(1,2)[OF sz, of "e_sn0 e" "cl_playerid cl" cmd flag "[]"]
      translate_packet_frame(3)[OF sz, of "e_sn0 e" "cl_playerid cl" cmd flag] by auto
qed

theorem client_request_reaches_world_witness:
  "\<exists>bytes. process_message env_example 3 (client_packet 165 1 [9, 3, 1, 4, 5]) 16 gateway_example =
        Some (Inr (17, emit [Send 9 bytes] (store_client gateway_example 16 (client_one\<lparr>cl_protocol_flag := 1\<rparr>))))
    \<and> translate_playerid (get_translate_header bytes) = 0x500000007 \<and> drop translate_header_size bytes = [9, 3, 1, 4, 5]"
proof -
  have wire: "[9, 3, 1, 4, 5] = amf_wire (Some (AVarray 1 [Some (AVinteger 1 5)]))" by code_simp
  have get: "backend_get (gw_backends gateway_example) 165 = None"
    unfolding gateway_example_def gateway.simps by code_simp
  have pid: "TRANSFORM_PLAYERID (cl_playerid client_one) False \<noteq> 0" by (simp add: TRANSFORM_PLAYERID_def client_one_def)
  from client_request_reaches_world[OF gateway_example_ok(2) _ _ _ _ _ wire _ _ _ _ get _ _ pid, of 3 1 env_example "[]"]
  show ?thesis
    using gateway_example_ok(3,4,5)
    by (auto simp: client_one_def translate_header_size_def commands INVALID_WORLD_ID_def STRING_REF_MAX_def client_packet_def client_header_size_def)
qed

text \<open>C32: When the service for a command is not reachable the client is told: it receives, on its connection, an
  array with the sequence number of its own request, the code 14 and the id of the service, under the
  command of the answer, and its message counts as handled.\<close>

theorem unreachable_service_answers_client:
  assumes "ct_heap (gw_clients g) c = Some cl" and "c \<noteq> 0"
    and "amf_wf (Some (AVarray (Suc n) (int_value sn # items)))" and "amf_exact (Some (AVarray (Suc n) (int_value sn # items)))"
    and "length (amf_strings (Some (AVarray (Suc n) (int_value sn # items)))) \<le> STRING_REF_MAX"
    and "msg = amf_wire (Some (AVarray (Suc n) (int_value sn # items)))"
    and "backend_get (gw_backends g) cmd = Some i" and "\<not> e_up e (be_conn (gw_backends g ! i))"
  shows "\<exists>m v. forward_message e conn c cmd flag msg package_len g =
        Some (Inr (package_len, emit [Send (cl_conn cl) (client_packet (cmd + 1) 1 m)] g))
    \<and> amf_read m = Inr (Some (v, length m), []) \<and> amf_type_of (Some v) = amf_array \<and> amf_size (Some v) = 3
    \<and> (\<forall>j < 3. \<exists>x. amf_get (Some v) j = Inr x
         \<and> amf_get_integer x = Inr ([sn, RET_SERVICE_STATUS_ERROR, be_id (gw_backends g ! i)] ! j))"
proof -
  let ?is = "[sn, RET_SERVICE_STATUS_ERROR, be_id (gw_backends g ! i)]"
  let ?w = "amf_wire (Some (AVarray 3 (map int_value ?is)))"
  let ?v = "amf_norm (Some (AVarray 3 (map int_value ?is)))"
  have m: "status_error_message sn (be_id (gw_backends g ! i)) = Inr ?w"
    using int_array_message[of ?is 3 4096] by (simp add: status_error_message_def del: amf_wire.simps)
  have rd: "amf_read msg = Inr (Some (amf_norm (Some (AVarray (Suc n) (int_value sn # items))), length msg),
      amf_strings (Some (AVarray (Suc n) (int_value sn # items))))"
    using read_array_message[OF assms(3,4,5)] assms(6) by simp
  have "request_sn (amf_norm (Some (AVarray (Suc n) (int_value sn # items)))) = Inr sn"
    by (simp add: request_sn_def)
  then have "forward_message e conn c cmd flag msg package_len g =
      Some (Inr (package_len, emit [Send (cl_conn cl) (client_packet (cmd + 1) 1 ?w)] g))"
    using assms(1,2,7,8) rd m
    by (simp add: forward_message_def send_backend_message_def backend_send_def Let_def client_send_def del: amf_norm.simps amf_wire.simps)
  moreover have "amf_read ?w = Inr (Some (?v, length ?w), [])" by (rule int_array_read) simp_all
  moreover have "amf_type_of (Some ?v) = amf_array \<and> amf_size (Some ?v) = 3" by simp
  moreover have "\<forall>j < 3. \<exists>x. amf_get (Some ?v) j = Inr x \<and> amf_get_integer x = Inr (?is ! j)"
    by (intro allI impI int_array_get) simp_all
  ultimately show ?thesis by blast
qed

theorem unreachable_service_answers_client_witness:
  "\<exists>m v. forward_message (env_example\<lparr>e_up := \<lambda>_. False\<rparr>) 3 16 250 1 [9, 3, 1, 4, 5] 17 gateway_example =
        Some (Inr (17, emit [Send 3 (client_packet 251 1 m)] gateway_example))
    \<and> amf_read m = Inr (Some (v, length m), []) \<and> amf_size (Some v) = 3"
proof -
  have wire: "[9, 3, 1, 4, 5] = amf_wire (Some (AVarray (Suc 0) (int_value 5 # [])))" by code_simp
  have get: "backend_get (gw_backends gateway_example) 250 = Some 1"
    unfolding gateway_example_def gateway.simps by code_simp
  from unreachable_service_answers_client[OF gateway_example_ok(2) _ _ _ _ wire get, of "env_example\<lparr>e_up := \<lambda>_. False\<rparr>" 3 1 17]
  show ?thesis by (auto simp: client_one_def STRING_REF_MAX_def)
qed

text \<open>The gateway's answer to a login reads back as the four items announced - sequence number, result, player
  id and account name - when the login succeeded or the character does not exist. For any other result the
  account name is not written although four items are announced: a reader runs past the end.\<close>

theorem login_answer_reads_back:
  assumes "length name < 128" and "0 \<notin> set name"
  shows "\<exists>m. login_respond_message sn result pid name = Inr m
    \<and> (if result = RET_SUCCESS \<or> result = RET_CHARACTER_NOT_EXIST
       then amf_read m = Inr (Some (AVarray 4 (map Some
              [amf_norm (int_value sn), amf_norm (int_value result), AVdouble 1 (double_of_u64 pid), AVstring name]), length m), [name])
       else amf_read m = Inl OutOfBounds)"
proof -
  let ?three = "[int_value sn, int_value result, Some (AVdouble 1 (double_of_u64 pid))]"
  let ?es = "[\<lambda>k. amf_encode_integer k sn, \<lambda>k. amf_encode_integer k result, \<lambda>k. Inr (amf_encode_double k (double_of_u64 pid))]"
  have w3: "list_all2 writes ?es (map amf_wire ?three)"
    using writes_integer writes_double by (simp del: amf_wire.simps)
  have ws: "writes (\<lambda>k. amf_encode_string k (name @ [0]) 0) (amf_wire (Some (AVstring name)))"
    by (rule writes_string) (use assms in simp_all)
  have l4: "length (u29_bytes (len_word 4)) \<le> 4" by (rule u29_bytes_max[OF len_word_range]) simp
  have ln: "length (amf_wire (Some (AVstring name))) \<le> 133" using wire_string_max[of name] assms(1) by (simp del: amf_wire.simps)
  have li: "length (amf_wire (int_value sn)) \<le> 9" "length (amf_wire (int_value result)) \<le> 9"
    using wire_integer_max by (simp_all del: amf_wire.simps)
  show ?thesis
  proof (cases "result = RET_SUCCESS \<or> result = RET_CHARACTER_NOT_EXIST")
    case True
    let ?v = "Some (AVarray 4 (?three @ [Some (AVstring name)]))"
    have "encode_message 1024 ((\<lambda>k. amf_encode_array k (word_of_nat 4)) # ?es @ [\<lambda>k. amf_encode_string k (name @ [0]) 0]) = Inr (amf_wire ?v)"
    proof (rule encode_array_message)
      show "list_all2 writes (?es @ [\<lambda>k. amf_encode_string k (name @ [0]) 0]) (map amf_wire (?three @ [Some (AVstring name)]))"
        unfolding map_append using w3 ws by (intro list_all2_appendI) (simp_all del: amf_wire.simps)
      show "length (amf_wire ?v) \<le> 1024"
      proof -
        have "length (amf_wires 4 (?three @ [Some (AVstring name)])) \<le> 9 + 9 + 9 + 133"
          using ln li by (simp add: small_nats del: amf_wire.simps add: amf_wire.simps(8))
        then show ?thesis using l4 by simp
      qed
    qed simp_all
    then have "login_respond_message sn result pid name = Inr (amf_wire ?v)"
      using True by (simp add: login_respond_message_def del: amf_wire.simps)
    moreover have "amf_read (amf_wire ?v) = Inr (Some (amf_norm ?v, length (amf_wire ?v)), amf_strings ?v)"
      by (rule read_array_message) (use assms in \<open>simp_all add: small_nats STRING_REF_MAX_def\<close>)
    ultimately show ?thesis using True by (simp add: small_nats del: amf_wire.simps)
  next
    case False
    let ?m = "amf_code amf_array # u29_bytes (len_word (3 + Suc 0)) @ 1 # amf_wires 3 ?three"
    have "amf_wires 3 ?three = concat (map amf_wire ?three)" by (simp add: small_nats del: amf_wire.simps)
    then have m: "?m = concat ((amf_code amf_array # u29_bytes (len_word 4) @ [1]) # map amf_wire ?three)"
      by (simp del: amf_wire.simps)
    have "encode_message 1024 ((\<lambda>k. amf_encode_array k (word_of_nat 4)) # ?es) = Inr ?m"
      unfolding m by (rule encode_message_writes)
        (use w3 writes_array[of 4] l4 li in \<open>simp_all del: amf_wire.simps add: amf_wire.simps(8)\<close>)
    then have "login_respond_message sn result pid name = Inr ?m"
      using False by (simp add: login_respond_message_def del: amf_wire.simps)
    moreover have "amf_read ?m = Inl OutOfBounds"
      by (rule short_array_read) (simp_all add: small_nats STRING_REF_MAX_def)
    ultimately show ?thesis using False by auto
  qed
qed

theorem login_answer_reads_back_witness:
  "\<exists>m. login_respond_message 5 11 77 [97] = Inr m \<and> amf_read m = Inl OutOfBounds"
  using login_answer_reads_back[of "[97]" 5 11 77] by (simp add: commands)

text \<open>C17: A client whose connection is lost is logged out everywhere: its world and every connected service get a
  logout for the player, the client leaves the table and its player id is free again, the connection
  starts waiting for a login, and nothing else is sent except that connections that have waited too
  long are closed.\<close>

theorem lost_client_logs_out:
  assumes "clients_ok (gw_clients g) xs" and "length xs \<le> 10000" and "c \<in> set xs" and "ct_heap (gw_clients g) c = Some cl"
    and "waiting_ok (gw_waiting g) ws" and "Suc (length ws) < REG_MAX" and "length ws < e_fuel e"
    and "list_all (\<lambda>x. wt_start x \<le> e_now e) (objs (gw_waiting g) ws)"
    and "gw_next g \<noteq> 0" and "rg_heap (gw_waiting g) (gw_next g) = None"
    and "agMap_ip_get (rg_map (gw_waiting g)) (ucast (cl_conn cl)) = None"
    and "cl_world cl \<noteq> INVALID_WORLD_ID" and "world_is_valid (gw_worlds g) (cl_world cl)"
  shows "\<exists>g' ws' m. on_closed e (cl_conn cl) c g = Some (Inr g')
    \<and> clients_ok (gw_clients g') (remove1 c xs) \<and> agMap_ip_get (client_hash (gw_clients g')) (cl_playerid cl) = None
    \<and> waiting_ok (gw_waiting g') (ws' @ [gw_next g]) \<and> set ws' \<subseteq> set ws
    \<and> logout_message = Inr m
    \<and> gw_out g' = gw_out g
        @ [Send (wc_conn (gw_worlds g ! world_slot (cl_world cl))) (translate_packet (e_sn0 e) (cl_playerid cl) C_LOGOUT_REQUEST 1 m)]
        @ sends (backend_broadcast (e_sn0 e) (gw_backends g) (cl_playerid cl) C_LOGOUT_REQUEST 1 m)
        @ map Close (map wt_conn (filter (\<lambda>x. e_now e - wt_start x > 10) (objs (gw_waiting g) ws)))
        @ [SetHandler (cl_conn cl) AuthHandler]"
proof -
  obtain m where m: "logout_message = Inr m" using logout_message_ok by blast
  have c0: "c \<noteq> 0" using registered_client[OF assms(1,3)] by metis
  let ?ws = "filter (\<lambda>a. e_now e - wt_start (the (rg_heap (gw_waiting g) a)) \<le> 10) ws"
  let ?closed = "map wt_conn (filter (\<lambda>x. e_now e - wt_start x > 10) (objs (gw_waiting g) ws))"
  obtain w where w: "new_waiting_client (e_fuel e) (gw_next g) (e_now e) (gw_waiting g) (cl_conn cl) = Some (Inr (?closed, w))"
    "waiting_ok w (?ws @ [gw_next g])"
    using new_waiting_client_ok[OF assms(5,6,8,9,10,11,7)] by blast
  obtain ct where ct: "client_free (gw_clients g) c = Some (Inr ct)" "clients_ok ct (remove1 c xs)" "ct_heap ct = (ct_heap (gw_clients g))(c := None)"
    using client_free_ok[OF assms(1,2,3)] by blast
  let ?g = "g\<lparr>gw_worlds := world_reduce_player (gw_worlds g) (cl_world cl)\<rparr>"
  have h: "ct_heap (gw_clients ?g) c = Some cl" using assms(4) by simp
  have pick: "pick_world c ?g = Some (Inr ?g)"
    using h assms(12,13) by (simp add: pick_world_def world_reduce_valid del: gateway.select_convs)
  have "on_closed e (cl_conn cl) c g = send_logout e c ?g"
    using assms(4) c0 by (simp add: on_closed_def)
  also have "\<dots> = Some (Inr (emit ([Send (wc_conn (gw_worlds g ! world_slot (cl_world cl))) (translate_packet (e_sn0 e) (cl_playerid cl) C_LOGOUT_REQUEST 1 m)]
        @ sends (backend_broadcast (e_sn0 e) (gw_backends g) (cl_playerid cl) C_LOGOUT_REQUEST 1 m)
        @ map Close ?closed @ [SetHandler (cl_conn cl) AuthHandler])
      (?g\<lparr>gw_waiting := w, gw_next := Suc (gw_next g), gw_clients := ct\<rparr>)))"
    unfolding send_logout_def m lift_res_simps run_bind_simps pick with_client_Some[OF h]
    using assms(12,13) w(1) ct(1)
    by (simp add: start_auth_def send_backends_def send_world_def world_send_message_def world_reduce_valid free_client_def emit_def)
  finally have run: "on_closed e (cl_conn cl) c g = \<dots>" .
  have "agMap_ip_get (client_hash ct) (cl_playerid cl) \<noteq> Some a" for a
  proof
    assume "agMap_ip_get (client_hash ct) (cl_playerid cl) = Some a"
    then have "a \<in> set (remove1 c xs)" "map_option cl_playerid (ct_heap ct a) = Some (cl_playerid cl)"
      using clients_ok_get[OF ct(2)] by blast+
    then have a: "a \<in> set xs" "a \<noteq> c" "map_option cl_playerid (ct_heap (gw_clients g) a) = Some (cl_playerid cl)"
      using ct(3) notin_set_remove1 by (auto split: if_splits)
    then show False
      using clients_ok_get[OF assms(1), of "cl_playerid cl" a] clients_ok_get[OF assms(1), of "cl_playerid cl" c] assms(3,4) by simp
  qed
  then have "agMap_ip_get (client_hash ct) (cl_playerid cl) = None" by auto
  then show ?thesis
    unfolding run using w(2) ct(2) m by (intro exI[of _ ?ws] exI conjI) auto
qed

theorem lost_client_logs_out_witness:
  "\<exists>g' m. on_closed env_example 3 16 gateway_example = Some (Inr g') \<and> clients_ok (gw_clients g') []
    \<and> logout_message = Inr m
    \<and> gw_out g' = [Send 9 (translate_packet 0 0x500000007 C_LOGOUT_REQUEST 1 m),
        Send 4 (translate_packet 0 0x500000007 C_LOGOUT_REQUEST 1 m), SetHandler 3 AuthHandler]"
proof -
  have w: "gw_waiting gateway_example = waiting_example" "gw_next gateway_example = 32" "waiting_ok waiting_example []"
    "rg_heap waiting_example 32 = None" "agMap_ip_get (rg_map waiting_example) (ucast (3 :: resid_t)) = None"
    by (simp_all add: gateway_example_def waiting_ok_def waiting_example_def objs_def agMap_ip_get_def ip_find_def map_find_def)
  have b: "sends (backend_broadcast 0 (gw_backends gateway_example) 0x500000007 C_LOGOUT_REQUEST 1 m) =
      [Send 4 (translate_packet 0 0x500000007 C_LOGOUT_REQUEST 1 m)]" for m
  proof -
    have "filter (\<lambda>b. be_id b \<noteq> 0 \<and> be_conn b \<noteq> INVALID_ID) (gw_backends gateway_example) = [backends_example ! 1]"
      unfolding gateway_example_def gateway.simps by code_simp
    moreover have "be_conn (backends_example ! 1) = 4" by code_simp
    ultimately show ?thesis by (simp add: sends_def backend_broadcast_def)
  qed
  have "e_sn0 env_example = 0" "e_fuel env_example = 100" by (simp_all add: env_example_def)
  then show ?thesis
    using lost_client_logs_out[OF gateway_example_ok(1) _ _ gateway_example_ok(2), of "[]" env_example] w b gateway_example_ok(3-5,7)
    by (auto simp: client_one_def REG_MAX_def objs_def INVALID_WORLD_ID_def)
qed

end
