(* ===== verification/GwAuth.thy ===== *)
theory GwAuth
  imports GwRelay
begin

text \<open>
  Logging in: \<^verbatim>\<open>src/gateway/auth.c\<close> (the messages of a connection that has not logged in) and
  \<^verbatim>\<open>src/gateway/authserver.c\<close> (questions to the authentication server, their answers and time-outs, and the
  binding of a connection to a player).

  The state is the gateway together with the questions that are open. The protocol library (\<open>build\<close>,
  \<open>decode\<close>) and the lookup of the player id of an account (\<open>pid_of\<close>, which asks the data base) are
  arguments, as are the version and server id of the configuration.
\<close>

section \<open>State\<close>

record RPC_DATA =
  rp_sn :: u32
  rp_time :: int
  rp_conn :: resid_t
  rp_data :: "byte list"
  rp_client_sn :: u32
  rp_account :: "byte list"
  rp_token :: "byte list"
  rp_serverid :: u32

record authserver =
  as_conn :: resid_t
  as_rpc :: "RPC_DATA registry"
  as_sn :: u32

type_synonym auth_state = "gateway \<times> authserver"

definition rkey :: "RPC_DATA \<Rightarrow> u64" where
  "rkey x = ucast (rp_sn x)"

definition AUTH_SERVER_RPC_TIMEOUT :: int where "AUTH_SERVER_RPC_TIMEOUT = 5"
definition RET_PERMISSION :: u32 where "RET_PERMISSION = 11"
definition RET_VERSION_MISSMATCH :: u32 where "RET_VERSION_MISSMATCH = 812"
definition LOGOUT_ANOTHER_LOGIN :: u32 where "LOGOUT_ANOTHER_LOGIN = 1"
definition S_AUTH_REQUEST :: u32 where "S_AUTH_REQUEST = 30001"
definition S_AUTH_RESPOND :: u32 where "S_AUTH_RESPOND = 30002"

section \<open>Answers to a connection\<close>

text \<open>The message is built behind its header in a buffer of 1024 bytes.\<close>

definition short_packet :: "u32 \<Rightarrow> u32 \<Rightarrow> u32 \<Rightarrow> byte list res" where
  "short_packet cmd a b =
     (case encode_message (1024 - client_header_size)
        [\<lambda>k. amf_encode_array k 2, \<lambda>k. amf_encode_integer k a, \<lambda>k. amf_encode_integer k b] of
        Inl f \<Rightarrow> Inl f
      | Inr m \<Rightarrow> Inr (client_packet cmd 1 m))"

definition respond_auth :: "resid_t \<Rightarrow> u32 \<Rightarrow> u32 \<Rightarrow> gateway \<Rightarrow> gateway res" where
  "respond_auth conn sn result g =
     (case short_packet C_LOGIN_RESPOND sn result of
        Inl f \<Rightarrow> Inl f
      | Inr p \<Rightarrow> Inr (emit [Send conn p] g))"

definition respond_auth_fail_and_close :: "resid_t \<Rightarrow> u32 \<Rightarrow> u32 \<Rightarrow> gateway \<Rightarrow> gateway res" where
  "respond_auth_fail_and_close conn sn result g =
     (case respond_auth conn sn result g of Inl f \<Rightarrow> Inl f | Inr g \<Rightarrow> Inr (emit [Close conn] g))"

section \<open>Questions to the authentication server\<close>

definition authserver_send :: "env \<Rightarrow> resid_t \<Rightarrow> u32 \<Rightarrow> u32 \<Rightarrow> byte list \<Rightarrow> u32 \<Rightarrow> (resid_t \<times> byte list) option" where
  "authserver_send e conn cmd flag msg serverid =
     (if e_up e conn then
        Some (conn, put_translate_header
          \<lparr>th_len = word_of_nat (translate_header_size + length msg), th_sn = e_sn0 e, th_playerid = 0, th_flag = flag,
           th_cmd = cmd, th_serverid = serverid\<rparr> @ msg)
      else None)"

text \<open>\<open>strncpy\<close> into 128 bytes that are zero.\<close>

definition copy127 :: "byte list \<Rightarrow> byte list" where
  "copy127 s = take 127 (takeWhile (\<lambda>b. b \<noteq> 0) s)"

text \<open>\<open>build\<close> is \<open>None\<close> when the protocol library does not know the message. The result is 0 or -1. When the counter has wrapped around to a question that is still open, that
  question is freed but stays in the queue.\<close>

definition authserver_auth ::
  "env \<Rightarrow> (byte list \<Rightarrow> byte list \<Rightarrow> u32 \<Rightarrow> byte list) option \<Rightarrow> resid_t \<Rightarrow> byte list \<Rightarrow> byte list option \<Rightarrow> byte list \<Rightarrow> u32 \<Rightarrow> u32
     \<Rightarrow> auth_state \<Rightarrow> (int \<times> auth_state) res option" where
  "authserver_auth e build conn account token package_data client_sn serverid st =
     (case st of (g, a) \<Rightarrow>
        let sn = as_sn a + 1; a = a\<lparr>as_sn := sn\<rparr>
        in case build of
             None \<Rightarrow> Some (Inr (- 1, g, a))
           | Some build \<Rightarrow>
               (case token of
                  None \<Rightarrow> Some (Inl NullDeref)
                | Some token \<Rightarrow>
                    let p = gw_next g;
                        r = put_in (as_rpc a) p
                          \<lparr>rp_sn = sn, rp_time = e_now e, rp_conn = conn, rp_data = package_data, rp_client_sn = client_sn,
                           rp_account = copy127 account, rp_token = copy127 token, rp_serverid = serverid\<rparr>
                    in run_bind (agMap_ip_set (rg_map r) (ucast sn) (Some p)) (\<lambda>(old, mp).
                         let r = (case old of None \<Rightarrow> r | Some q \<Rightarrow> r\<lparr>rg_heap := (rg_heap r)(q := None)\<rparr>)
                         in case dlist_insert_tail (rg_links r) (rg_queue r) p of
                              Inl f \<Rightarrow> Some (Inl f)
                            | Inr (q, links) \<Rightarrow>
                                let out = authserver_send e (as_conn a) S_AUTH_REQUEST 2 (build account token sn) serverid
                                in Some (Inr (if out = None then - 1 else 0,
                                     emit (SetHandler conn (AuthServerHandler p) # (case out of None \<Rightarrow> [] | Some (c, b) \<Rightarrow> [Send c b]))
                                       (g\<lparr>gw_next := Suc p\<rparr>),
                                     a\<lparr>as_rpc := r\<lparr>rg_map := mp, rg_queue := q, rg_links := links\<rparr>\<rparr>)))))"

text \<open>The handler of a connection whose question is open.\<close>

definition on_message_client :: "byte list \<Rightarrow> nat" where
  "on_message_client msg = 0"

definition on_closed_client :: "addr \<Rightarrow> authserver \<Rightarrow> authserver res" where
  "on_closed_client p a =
     (case rg_heap (as_rpc a) p of
        None \<Rightarrow> Inl UseAfterFree
      | Some x \<Rightarrow> Inr (a\<lparr>as_rpc := (as_rpc a)\<lparr>rg_heap := (rg_heap (as_rpc a))(p \<mapsto> x\<lparr>rp_conn := INVALID_ID\<rparr>)\<rparr>\<rparr>))"

fun fail_all :: "RPC_DATA list \<Rightarrow> gateway \<Rightarrow> gateway res" where
  "fail_all [] g = Inr g"
| "fail_all (x # xs) g =
     (case respond_auth_fail_and_close (rp_conn x) (rp_client_sn x) RET_PERMISSION g of
        Inl f \<Rightarrow> Inl f
      | Inr g \<Rightarrow> fail_all xs g)"

definition module_authserver_update :: "env \<Rightarrow> resid_t \<Rightarrow> auth_state \<Rightarrow> auth_state res option" where
  "module_authserver_update e connect st =
     (case st of (g, a) \<Rightarrow>
        let a = (if as_conn a = INVALID_ID then a\<lparr>as_conn := connect\<rparr> else a)
        in run_bind (expire rkey (\<lambda>x. e_now e - rp_time x \<ge> AUTH_SERVER_RPC_TIMEOUT) (e_fuel e) (as_rpc a)) (\<lambda>(xs, r).
           run_bind (lift_res (fail_all xs g)) (\<lambda>g. Some (Inr (g, a\<lparr>as_rpc := r\<rparr>)))))"

text \<open>\<open>connect\<close> is \<open>None\<close> when the configuration has no entry for the server, otherwise what \<open>agN_connect\<close> returns.\<close>

definition module_authserver_load :: "resid_t option \<Rightarrow> authserver \<Rightarrow> (int \<times> authserver) res" where
  "module_authserver_load connect a =
     (case agMap_new None of
        Inl f \<Rightarrow> Inl f
      | Inr m \<Rightarrow>
          let a = a\<lparr>as_rpc := (as_rpc a)\<lparr>rg_queue := 0, rg_map := Some m\<rparr>, as_conn := 0\<rparr>
          in case connect of None \<Rightarrow> Inr (- 1, a) | Some c \<Rightarrow> Inr (0, a\<lparr>as_conn := c\<rparr>))"

fun free_rpcs :: "nat \<Rightarrow> RPC_DATA registry \<Rightarrow> RPC_DATA registry res option" where
  "free_rpcs 0 r = None"
| "free_rpcs (Suc fuel) r =
     (if rg_queue r = 0 then Some (Inr r)
      else if rg_heap r (rg_queue r) = None then Some (Inl UseAfterFree)
      else case dlist_remove (rg_links r) (rg_queue r) (rg_queue r) of
        Inl f \<Rightarrow> Some (Inl f)
      | Inr (q, links) \<Rightarrow> free_rpcs fuel (r\<lparr>rg_queue := q, rg_links := links, rg_heap := (rg_heap r)(rg_queue r := None)\<rparr>))"

definition module_authserver_unload :: "nat \<Rightarrow> auth_state \<Rightarrow> auth_state res option" where
  "module_authserver_unload fuel st =
     (case st of (g, a) \<Rightarrow>
        run_bind (free_rpcs fuel (as_rpc a)) (\<lambda>r.
          Some (Inr (emit [Close (as_conn a)] g, a\<lparr>as_rpc := r\<lparr>rg_map := None\<rparr>\<rparr>))))"

definition authserver_on_closed :: "resid_t \<Rightarrow> authserver \<Rightarrow> authserver res" where
  "authserver_on_closed c a = (if c \<noteq> as_conn a then Inl Assertion else Inr (a\<lparr>as_conn := INVALID_ID\<rparr>))"

section \<open>Messages before the login\<close>

definition to_lower :: "byte \<Rightarrow> byte" where
  "to_lower b = (if 65 \<le> b \<and> b \<le> 90 then b + 32 else b)"

text \<open>\<open>version\<close> and \<open>server_id\<close> are those of the configuration. The account name is read through the pointer
  that \<open>amf_get_string\<close> returns without a check. The server id of the message is overwritten.\<close>

definition do_amf_auth ::
  "env \<Rightarrow> (byte list \<Rightarrow> byte list \<Rightarrow> u32 \<Rightarrow> byte list) option \<Rightarrow> u32 \<Rightarrow> u32 \<Rightarrow> resid_t \<Rightarrow> byte list \<Rightarrow> byte list \<Rightarrow> auth_state \<Rightarrow> auth_state res option" where
  "do_amf_auth e build version server_id conn data package_data st =
     (case st of (g, a) \<Rightarrow>
        run_bind (lift_res (amf_read data)) (\<lambda>(r, _).
          case r of
            None \<Rightarrow> Some (Inr (emit [Close conn] g, a))
          | Some (v, read_len) \<Rightarrow>
              if read_len \<noteq> length data \<or> amf_type_of (Some v) \<noteq> amf_array \<or> amf_size (Some v) < 3
              then Some (Inr (emit [Close conn] g, a))
              else
                run_bind (lift_res (amf_get (Some v) 0)) (\<lambda>i0.
                run_bind (lift_res (amf_get_integer i0)) (\<lambda>sn.
                run_bind (lift_res (amf_get (Some v) 1)) (\<lambda>i1.
                run_bind (lift_res (amf_get (Some v) 2)) (\<lambda>i2.
                run_bind (lift_res (if amf_size (Some v) > 3 then
                    (case amf_get (Some v) 3 of Inl f \<Rightarrow> Inl f | Inr i3 \<Rightarrow> amf_get_integer i3) else Inr 0)) (\<lambda>ver.
                  if version \<noteq> ver then
                    run_bind (lift_res (respond_auth_fail_and_close conn sn RET_VERSION_MISSMATCH g)) (\<lambda>g. Some (Inr (g, a)))
                  else
                    case amf_get_string i1 of
                      None \<Rightarrow> Some (Inl NullDeref)
                    | Some account_name \<Rightarrow>
                        run_bind (authserver_auth e build conn (map to_lower (copy127 account_name) @ [0]) (amf_get_string i2)
                          package_data sn server_id (g, a)) (\<lambda>(ret, g, a).
                          if ret \<noteq> 0 then
                            run_bind (lift_res (respond_auth_fail_and_close conn sn RET_PERMISSION g)) (\<lambda>g. Some (Inr (g, a)))
                          else Some (Inr (g, a))))))))))"

text \<open>The bytes of \<open><policy-file-request/>\<close> with the final zero, and the answer.\<close>

definition ascii :: "string \<Rightarrow> byte list" where
  "ascii s = map of_char s"

definition policy_request :: "byte list" where
  "policy_request = ascii ''<policy-file-request/>'' @ [0]"

definition policy_file :: "byte list" where
  "policy_file = ascii (''<?xml version=\"1.0\"?>'' @ ''<cross-domain-policy>''
     @ ''<site-control permitted-cross-domain-policies=\"all\"/>''
     @ ''<allow-access-from domain=\"*\" to-ports=\"*\"/>'' @ ''</cross-domain-policy>'') @ [0]"

text \<open>The position behind the third line end.\<close>

fun third_line :: "byte list \<Rightarrow> nat \<Rightarrow> nat \<Rightarrow> nat" where
  "third_line [] i j = 0"
| "third_line (b # bs) i j = (if b = 10 then (if j + 1 = 3 then i + 1 else third_line bs (i + 1) (j + 1)) else third_line bs (i + 1) j)"

definition auth_process_message ::
  "env \<Rightarrow> (byte list \<Rightarrow> byte list \<Rightarrow> u32 \<Rightarrow> byte list) option \<Rightarrow> u32 \<Rightarrow> u32 \<Rightarrow> resid_t \<Rightarrow> byte list \<Rightarrow> auth_state \<Rightarrow> (nat \<times> auth_state) res option" where
  "auth_process_message e build version server_id conn data st =
     (case st of (g, a) \<Rightarrow>
        if data = [] then Some (Inl Assertion)
        else if take 23 data = policy_request then Some (Inr (23, emit [Send conn policy_file] g, a))
        else if take 4 data = ascii ''tgw_'' then Some (Inr (third_line data 0 0, g, a))
        else if length data < client_header_size then Some (Inr (0, g, a))
        else
          let h = get_client_header data; package_len = unat (ch_len h)
          in if package_len > length data then Some (Inr (0, g, a))
             else if ch_cmd h \<noteq> C_LOGIN_REQUEST then Some (Inr (0, emit [Close conn] g, a))
             else if ch_flag h \<noteq> 1 then Some (Inr (package_len, emit [Close conn] g, a))
             else if package_len < client_header_size then Some (Inl OutOfBounds)
             else
               run_bind (do_amf_auth e build version server_id conn
                 (take (package_len - client_header_size) (drop client_header_size data)) (take package_len data) (g, a)) (\<lambda>st.
                 Some (Inr (package_len, st))))"

section \<open>Answers of the authentication server\<close>

text \<open>A connection becomes that of the player: a client is found or made, another connection of the same
  player is told and sent back to the login.\<close>

definition bind_client :: "env \<Rightarrow> resid_t \<Rightarrow> u64 \<Rightarrow> gateway \<Rightarrow> (addr \<times> gateway) res option" where
  "bind_client e conn pid g =
     run_bind (client_get_by_playerid (nat (e_now e)) (gw_clients g) pid) (\<lambda>(c, ct).
     run_bind (if c \<noteq> 0 then Some (Inr (c, g\<lparr>gw_clients := ct\<rparr>))
               else
                 run_bind (client_new (Some (gw_next g)) 0 (nat (e_now e)) ct conn (- 1) pid) (\<lambda>(c, ct).
                   Some (Inr (c, g\<lparr>gw_clients := ct, gw_next := Suc (gw_next g)\<rparr>)))) (\<lambda>(c, g).
       if c = 0 then Some (Inl NullDeref)
       else with_client g c (\<lambda>cl.
         run_bind (if cl_conn cl \<noteq> conn \<and> cl_conn cl \<noteq> INVALID_ID then
                     run_bind (lift_res (short_packet C_LOGOUT_RESPOND 0 LOGOUT_ANOTHER_LOGIN)) (\<lambda>p.
                       start_auth e (cl_conn cl) (emit [Send (cl_conn cl) p] g))
                   else Some (Inr g)) (\<lambda>g.
           let g = store_client g c (cl\<lparr>cl_conn := conn\<rparr>)
           in run_bind (remove_waiting (gw_waiting g) conn) (\<lambda>w. Some (Inr (c, g\<lparr>gw_waiting := w\<rparr>)))))))"

definition after_auth :: "env \<Rightarrow> (byte list \<Rightarrow> u32 \<Rightarrow> u64 option) \<Rightarrow> RPC_DATA \<Rightarrow> gateway \<Rightarrow> gateway res option" where
  "after_auth e pid_of rpc g =
     (if rp_conn rpc = INVALID_ID then Some (Inr g)
      else case pid_of (rp_account rpc) (rp_serverid rpc) of
        None \<Rightarrow> lift_res (respond_auth_fail_and_close (rp_conn rpc) (rp_client_sn rpc) RET_PERMISSION g)
      | Some pid \<Rightarrow>
          run_bind (bind_client e (rp_conn rpc) pid g) (\<lambda>(c, g).
            start_translate e (rp_conn rpc) c (rp_data rpc) g))"

record AuthRespond =
  ar_sn :: u32
  ar_result :: u32
  ar_account :: "byte list"

definition authserver_on_message ::
  "env \<Rightarrow> (byte list \<Rightarrow> AuthRespond option) \<Rightarrow> (byte list \<Rightarrow> u32 \<Rightarrow> u64 option) \<Rightarrow> byte list \<Rightarrow> auth_state \<Rightarrow> (nat \<times> auth_state) res option" where
  "authserver_on_message e decode pid_of data st =
     (case st of (g, a) \<Rightarrow>
        if length data < translate_header_size then Some (Inr (0, g, a))
        else
          let h = get_translate_header data; package_len = unat (th_len h)
          in if length data < package_len then Some (Inr (0, g, a))
             else if th_cmd h \<noteq> S_AUTH_RESPOND \<or> translate_playerid h \<noteq> 0 then Some (Inr (package_len, g, a))
             else if package_len < translate_header_size then Some (Inl OutOfBounds)
             else case decode (take (package_len - translate_header_size) (drop translate_header_size data)) of
               None \<Rightarrow> Some (Inl NullDeref)
             | Some resp \<Rightarrow>
                 (case agMap_ip_get (rg_map (as_rpc a)) (ucast (ar_sn resp)) of
                    None \<Rightarrow> Some (Inr (package_len, g, a))
                  | Some p \<Rightarrow>
                      (case rg_heap (as_rpc a) p of
                         None \<Rightarrow> Some (Inl UseAfterFree)
                       | Some rpc \<Rightarrow>
                           run_bind (if ar_result resp = RET_SUCCESS
                                     then after_auth e pid_of (rpc\<lparr>rp_account := copy127 (ar_account resp)\<rparr>) g
                                     else lift_res (respond_auth_fail_and_close (rp_conn rpc) (rp_client_sn rpc) RET_PERMISSION g)) (\<lambda>g.
                           run_bind (take_out (ucast (rp_sn rpc)) (as_rpc a) p) (\<lambda>(_, r).
                             Some (Inr (package_len, g, a\<lparr>as_rpc := r\<rparr>)))))))"

section \<open>Lemmas\<close>

definition two_ints :: "u32 \<Rightarrow> u32 \<Rightarrow> amf_value option" where
  "two_ints a b = Some (AVarray 2 (map int_value [a, b]))"

lemma short_packet_ok: "short_packet cmd a b = Inr (client_packet cmd 1 (amf_wire (two_ints a b)))"
  using int_array_message[of "[a, b]" 2 1012]
  by (simp add: short_packet_def client_header_size_def two_ints_def del: amf_wire.simps)

lemma fail_ok: "respond_auth_fail_and_close conn sn result g =
    Inr (emit [Send conn (client_packet C_LOGIN_RESPOND 1 (amf_wire (two_ints sn result))), Close conn] g)"
  by (simp add: respond_auth_fail_and_close_def respond_auth_def short_packet_ok emit_def)

lemma emit_emit: "emit b (emit a g) = emit (a @ b) g"
  by (simp add: emit_def)

lemma fail_all_ok: "fail_all xs g =
    Inr (emit (concat (map (\<lambda>x. [Send (rp_conn x) (client_packet C_LOGIN_RESPOND 1 (amf_wire (two_ints (rp_client_sn x) RET_PERMISSION))),
      Close (rp_conn x)]) xs)) g)"
  by (induction xs arbitrary: g) (simp_all add: fail_ok emit_emit)

lemma htonl_nonempty: "htonl v \<noteq> []"
  using length_htonl[of v] by (metis list.size(3) zero_neq_numeral)

lemma hd_htonl_small:
  assumes "n < 2 ^ 24"
  shows "hd (htonl (word_of_nat n)) = 0"
proof -
  have "n div 256 div 256 div 256 = 0" using assms by (simp add: div_mult2_eq[symmetric])
  moreover have "unat (word_of_nat n :: u32) = n" using unat_size[of n] assms by simp
  ultimately show ?thesis by (simp add: htonl_def small_nats(2))
qed

text \<open>A question goes to the end of the queue.\<close>

lemma authserver_auth_ok:
  fixes conn client_sn serverid :: u32 and package_data account token :: "byte list"
  assumes "rg_ok rkey (as_rpc a) xs" and "length xs < REG_MAX" and "gw_next g \<noteq> 0" and "rg_heap (as_rpc a) (gw_next g) = None"
    and "agMap_ip_get (rg_map (as_rpc a)) (ucast (as_sn a + 1)) = None" and "e_up e (as_conn a)"
  defines "x \<equiv> \<lparr>rp_sn = as_sn a + 1, rp_time = e_now e, rp_conn = conn, rp_data = package_data, rp_client_sn = client_sn,
                 rp_account = copy127 account, rp_token = copy127 token, rp_serverid = serverid\<rparr>"
  obtains g' a' where "authserver_auth e (Some build) conn account (Some token) package_data client_sn serverid (g, a) = Some (Inr (0, g', a'))"
    and "rg_ok rkey (as_rpc a') (xs @ [gw_next g])" and "objs (as_rpc a') (xs @ [gw_next g]) = objs (as_rpc a) xs @ [x]"
proof -
  have k: "rkey x = ucast (as_sn a + 1)" by (simp add: rkey_def x_def)
  obtain mp q links where r: "agMap_ip_set (rg_map (as_rpc a)) (rkey x) (Some (gw_next g)) = Some (Inr (None, mp))"
    "dlist_insert_tail (rg_links (put_in (as_rpc a) (gw_next g) x)) (rg_queue (as_rpc a)) (gw_next g) = Inr (q, links)"
    "rg_ok rkey ((put_in (as_rpc a) (gw_next g) x)\<lparr>rg_map := mp, rg_queue := q, rg_links := links\<rparr>) (xs @ [gw_next g])"
    by (rule put_in_ok[OF assms(1-4), of x]) (use assms(5) k that in auto)
  have n: "gw_next g \<notin> set xs" using rg_ok_live[OF assms(1), of "gw_next g"] assms(4) by auto
  have "objs ((put_in (as_rpc a) (gw_next g) x)\<lparr>rg_map := mp, rg_queue := q, rg_links := links\<rparr>) (xs @ [gw_next g]) = objs (as_rpc a) xs @ [x]"
    using n by (auto simp: objs_def put_in_def)
  moreover have "\<exists>g'. authserver_auth e (Some build) conn account (Some token) package_data client_sn serverid (g, a) =
      Some (Inr (0, g', a\<lparr>as_sn := as_sn a + 1, as_rpc := (put_in (as_rpc a) (gw_next g) x)\<lparr>rg_map := mp, rg_queue := q, rg_links := links\<rparr>\<rparr>))"
    using r(1,2) assms(6) k unfolding authserver_auth_def x_def[symmetric] prod.case Let_def
    by (simp add: authserver_send_def put_in_def x_def)
  ultimately show thesis using that r(3) by force
qed

section \<open>Properties\<close>


definition authserver_example :: authserver where
  "authserver_example = \<lparr>as_conn = 5, as_rpc = \<lparr>rg_map = Some \<lparr>m_heap = None, item_count = 0, buckets = []\<rparr>, rg_queue = 0,
     rg_links = \<lparr>dl_prev = \<lambda>_. 0, dl_next = \<lambda>_. 0\<rparr>, rg_heap = Map.empty\<rparr>, as_sn = 0\<rparr>"

lemma authserver_example_ok: "rg_ok rkey (as_rpc authserver_example) []"
  unfolding rg_ok_def authserver_example_def authserver.simps registry.simps
  by (rule reg_empty) (simp_all add: tight_map_def map_ok_def entries_def elems_def)




text \<open>C15: A player has one connection. When a player who is logged in is authenticated on another connection, the
  old connection is told that there is another login and is sent back to the login; from then on the
  player's client belongs to the new connection, which no longer counts as waiting, and no other client
  changes hands.\<close>

theorem second_login_displaces_first:
  assumes "clients_ok (gw_clients g) xs" and "c \<in> set xs" and "ct_heap (gw_clients g) c = Some cl"
    and "cl_conn cl \<noteq> conn" and "cl_conn cl \<noteq> INVALID_ID"
    and "waiting_ok (gw_waiting g) ws" and "Suc (length ws) < REG_MAX" and "length ws < e_fuel e"
    and "list_all (\<lambda>x. wt_start x \<le> e_now e) (objs (gw_waiting g) ws)"
    and "gw_next g \<noteq> 0" and "rg_heap (gw_waiting g) (gw_next g) = None"
    and "agMap_ip_get (rg_map (gw_waiting g)) (ucast (cl_conn cl)) = None"
  shows "\<exists>g' zs. bind_client e conn (cl_playerid cl) g = Some (Inr (c, g'))
    \<and> (\<exists>ys. clients_ok (gw_clients g') ys \<and> set ys = set xs)
    \<and> ct_heap (gw_clients g') = (ct_heap (gw_clients g))(c \<mapsto> cl\<lparr>cl_last_active := nat (e_now e), cl_conn := conn\<rparr>)
    \<and> waiting_ok (gw_waiting g') zs \<and> (\<forall>p \<in> set zs. wt_conn (the (rg_heap (gw_waiting g') p)) \<noteq> conn)
    \<and> (\<exists>p \<in> set zs. wt_conn (the (rg_heap (gw_waiting g') p)) = cl_conn cl)
    \<and> gw_out g' = gw_out g
        @ [Send (cl_conn cl) (client_packet C_LOGOUT_RESPOND 1 (amf_wire (two_ints 0 LOGOUT_ANOTHER_LOGIN)))]
        @ map Close (map wt_conn (filter (\<lambda>x. e_now e - wt_start x > 10) (objs (gw_waiting g) ws)))
        @ [SetHandler (cl_conn cl) AuthHandler]"
proof -
  obtain ct where ct: "client_get_by_playerid (nat (e_now e)) (gw_clients g) (cl_playerid cl) = Some (Inr (c, ct))"
    "clients_ok ct (remove1 c xs @ [c])" "ct_heap ct = (ct_heap (gw_clients g))(c \<mapsto> cl\<lparr>cl_last_active := nat (e_now e)\<rparr>)"
    using client_get_ok[OF assms(1-3)] by blast
  have c0: "c \<noteq> 0" using registered_client[OF assms(1,2)] by metis
  let ?ws = "filter (\<lambda>a. e_now e - wt_start (the (rg_heap (gw_waiting g) a)) \<le> 10) ws @ [gw_next g]"
  let ?closed = "map wt_conn (filter (\<lambda>x. e_now e - wt_start x > 10) (objs (gw_waiting g) ws))"
  obtain w where w: "new_waiting_client (e_fuel e) (gw_next g) (e_now e) (gw_waiting g) (cl_conn cl) = Some (Inr (?closed, w))"
    "waiting_ok w ?ws" "objs w ?ws = objs (gw_waiting g) (butlast ?ws) @ [\<lparr>wt_conn = cl_conn cl, wt_start = e_now e\<rparr>]"
    using new_waiting_client_ok[OF assms(6,7,9,10,11,12,8)] by auto
  have l: "length ?ws < REG_MAX"
    by (rule le_less_trans[OF _ assms(7)]) simp
  let ?zs = "filter (\<lambda>a. wt_conn (the (rg_heap w a)) \<noteq> conn) ?ws"
  obtain w' where w': "remove_waiting w conn = Some (Inr w')" "waiting_ok w' ?zs"
    "\<And>a. a \<in> set ?ws \<Longrightarrow> wt_conn (the (rg_heap w a)) \<noteq> conn \<Longrightarrow> rg_heap w' a = rg_heap w a"
    by (rule remove_waiting_ok[OF w(2) l, of conn]) (rule that)
  have new: "wt_conn (the (rg_heap w (gw_next g))) = cl_conn cl" using w(3) by (simp add: objs_def)
  let ?cl = "cl\<lparr>cl_last_active := nat (e_now e)\<rparr>"
  define g1 where "g1 = emit ([Send (cl_conn cl) (client_packet C_LOGOUT_RESPOND 1 (amf_wire (two_ints 0 LOGOUT_ANOTHER_LOGIN)))]
      @ map Close ?closed @ [SetHandler (cl_conn cl) AuthHandler]) (g\<lparr>gw_clients := ct, gw_waiting := w, gw_next := Suc (gw_next g)\<rparr>)"
  have h: "ct_heap (gw_clients (g\<lparr>gw_clients := ct\<rparr>)) c = Some ?cl" "ct_heap (gw_clients g1) c = Some ?cl" "clients_ok (gw_clients g1) (remove1 c xs @ [c])"
    using ct(2,3) by (simp_all add: g1_def)
  let ?g' = "(store_client g1 c (?cl\<lparr>cl_conn := conn\<rparr>))\<lparr>gw_waiting := w'\<rparr>"
  have auth: "start_auth e (cl_conn cl) (emit [Send (cl_conn cl) (client_packet C_LOGOUT_RESPOND 1 (amf_wire (two_ints 0 LOGOUT_ANOTHER_LOGIN)))]
      (g\<lparr>gw_clients := ct\<rparr>)) = Some (Inr g1)"
    using w(1) by (simp add: start_auth_def g1_def emit_def)
  have run: "bind_client e conn (cl_playerid cl) g = Some (Inr (c, ?g'))"
    unfolding bind_client_def ct(1) run_bind_simps prod.case if_P[OF c0] if_not_P[OF c0] with_client_Some[OF h(1)] Let_def
    using assms(4,5) auth w'(1) by (simp add: short_packet_ok g1_def)
  have "clients_ok (gw_clients ?g') (remove1 c xs @ [c])"
    using store_client_ok[OF h(3,2)] by simp
  moreover have "set (remove1 c xs @ [c]) = set xs"
    using assms(1,2) by (auto simp: clients_ok_def reg_ok_def dring_def)
  moreover have "ct_heap (gw_clients ?g') = (ct_heap (gw_clients g))(c \<mapsto> cl\<lparr>cl_last_active := nat (e_now e), cl_conn := conn\<rparr>)"
    using ct(3) by (simp add: g1_def store_client_def)
  moreover have "waiting_ok (gw_waiting ?g') ?zs" "\<forall>p \<in> set ?zs. wt_conn (the (rg_heap (gw_waiting ?g') p)) \<noteq> conn"
    using w'(2,3) by auto
  moreover have "gw_next g \<in> set ?zs" "wt_conn (the (rg_heap (gw_waiting ?g') (gw_next g))) = cl_conn cl"
    using new assms(4) w'(3)[of "gw_next g"] by auto
  moreover have "gw_out ?g' = gw_out g
        @ [Send (cl_conn cl) (client_packet C_LOGOUT_RESPOND 1 (amf_wire (two_ints 0 LOGOUT_ANOTHER_LOGIN)))]
        @ map Close ?closed @ [SetHandler (cl_conn cl) AuthHandler]"
    by (simp add: g1_def)
  ultimately show ?thesis using run by blast
qed

theorem second_login_displaces_first_witness:
  "\<exists>g'. bind_client env_example 8 0x500000007 gateway_example = Some (Inr (16, g'))
    \<and> ct_heap (gw_clients g') = [16 \<mapsto> client_one\<lparr>cl_last_active := 200, cl_conn := 8\<rparr>]
    \<and> gw_out g' = [Send 3 (client_packet C_LOGOUT_RESPOND 1 (amf_wire (two_ints 0 LOGOUT_ANOTHER_LOGIN))), SetHandler 3 AuthHandler]"
proof -
  have w: "gw_waiting gateway_example = waiting_example" "gw_next gateway_example = 32" "waiting_ok waiting_example []"
    "rg_heap waiting_example 32 = None" "agMap_ip_get (rg_map waiting_example) (ucast (3 :: resid_t)) = None"
    "ct_heap (gw_clients gateway_example) = [16 \<mapsto> client_one]" "e_fuel env_example = 100" "e_now env_example = 200"
    by (simp_all add: gateway_example_def waiting_ok_def waiting_example_def objs_def agMap_ip_get_def ip_find_def map_find_def
        clients_one_ok env_example_def)
  have c: "cl_conn client_one = 3" "cl_playerid client_one = 0x500000007" by (simp_all add: client_one_def)
  show ?thesis
    using second_login_displaces_first[OF gateway_example_ok(1) _ gateway_example_ok(2), of 8 "[]" env_example] w c gateway_example_ok(7)
    by (auto simp: REG_MAX_def objs_def INVALID_ID_def)
qed

text \<open>At the limit of 10000 clients a player who is not logged in cannot be: the client that could not be made is
  used all the same, and the gateway ends with an access through a null pointer.\<close>

lemma login_beyond_limit_crashes:
  assumes "clients_ok (gw_clients g) xs" and "length xs = 10000"
    and "agMap_ip_get (client_hash (gw_clients g)) pid = None"
  shows "bind_client e conn pid g = Some (Inl NullDeref)"
  using assms by (simp add: bind_client_def client_get_by_playerid_def client_new_def clients_ok_def)

end
