(* ===== verification/Network.thy ===== *)
theory Network
  imports NetConn ResManager
begin

text \<open>
  The connection table of \<^verbatim>\<open>src/framework/network.c\<close>: connections live in the slots of a resource
  manager and are known by id; \<open>_agN_close\<close> only marks a connection and puts it on the closing list,
  which \<open>cleanClient\<close> empties at the end of a tick; \<open>_agN_set_handler\<close> puts a connection on the
  active list, which the next tick works off.

  A pointer to a connection is the number of its slot. Both lists are linked through the same member
  \<open>next\<close>. The loops that follow it run on fuel. File descriptors are given by the kernel:
  the outcome of \<open>connect_to\<close>, \<open>listen_on\<close>, \<open>accept\<close> and \<open>epoll_ctl\<close> is an argument.
\<close>

section \<open>Operations\<close>

text \<open>\<open>nw_shut\<close> lists the descriptors that were given to \<open>close\<close>, in order.\<close>

record network =
  nw_lrm :: lrm
  nw_stop :: bool
  nw_closing :: "nat option"
  nw_active :: "nat option"
  nw_conn :: "nat \<Rightarrow> conn"
  nw_shut :: "int list"

text \<open>\<open>stop0\<close> and \<open>mem\<close> are the members that \<open>_agN_new\<close> leaves as the allocation gave them.\<close>

definition agN_new :: "bool \<Rightarrow> int \<Rightarrow> bool \<Rightarrow> (nat \<Rightarrow> conn) \<Rightarrow> network option" where
  "agN_new efd_ok mx stop0 mem =
     (if efd_ok
      then map_option (\<lambda>r. \<lparr>nw_lrm = r, nw_stop = stop0, nw_closing = None, nw_active = None, nw_conn = mem, nw_shut = []\<rparr>) (agRM_new True mx)
      else None)"

definition upd_conn :: "network \<Rightarrow> nat \<Rightarrow> conn \<Rightarrow> network" where
  "upd_conn net i c = net\<lparr>nw_conn := (nw_conn net)(i := c)\<rparr>"

definition shut :: "network \<Rightarrow> int \<Rightarrow> network" where
  "shut net fd = net\<lparr>nw_shut := nw_shut net @ [fd]\<rparr>"

definition agN_close :: "bool \<Rightarrow> network \<Rightarrow> resid_t \<Rightarrow> network res" where
  "agN_close ctl net rid =
     (case agR_get (nw_lrm net) rid of
        Inl f \<Rightarrow> Inl f
      | Inr None \<Rightarrow> Inr net
      | Inr (Some i) \<Rightarrow>
          let c = nw_conn net i
          in if c_status c = cs_closing then Inr net
             else
               let c = c\<lparr>c_status := cs_closing\<rparr>;
                   c = snd (conn_set_event ctl c 0);
                   c = c\<lparr>c_next := nw_closing net\<rparr>
               in Inr ((upd_conn net i c)\<lparr>nw_closing := Some i\<rparr>))"

text \<open>The buffers are freed; the member pointers are not used again before the slot is cleared.\<close>

definition do_close :: "network \<Rightarrow> nat \<Rightarrow> network res" where
  "do_close net i =
     (let c = (nw_conn net i)\<lparr>c_rbuf := None, c_wbuf := None, c_status := cs_closed\<rparr>
      in case agR_free (nw_lrm net) (c_id c) of
           Inl f \<Rightarrow> Inl f
         | Inr lrm \<Rightarrow>
             let net = (if c_fd c \<ge> 0 then shut net (c_fd c) else net)
             in Inr ((upd_conn net i c)\<lparr>nw_lrm := lrm\<rparr>))"

fun cleanClient :: "nat \<Rightarrow> network \<Rightarrow> network res option" where
  "cleanClient 0 net = None"
| "cleanClient (Suc fuel) net =
     (case nw_closing net of
        None \<Rightarrow> Some (Inr net)
      | Some i \<Rightarrow>
          (case do_close (net\<lparr>nw_closing := c_next (nw_conn net i)\<rparr>) i of
             Inl f \<Rightarrow> Some (Inl f)
           | Inr net \<Rightarrow> cleanClient fuel net))"

text \<open>The check that \<open>_network_active\<close> makes on the list.\<close>

fun check_active :: "nat \<Rightarrow> network \<Rightarrow> nat option \<Rightarrow> unit res option" where
  "check_active 0 net n = None"
| "check_active (Suc fuel) net n =
     (case n of
        None \<Rightarrow> Some (Inr ())
      | Some i \<Rightarrow>
          let n = c_next (nw_conn net i)
          in if n \<noteq> nw_active net then check_active fuel net n else Some (Inl Assertion))"

definition network_active :: "nat \<Rightarrow> network \<Rightarrow> nat \<Rightarrow> network res option" where
  "network_active fuel net i =
     (let c = nw_conn net i;
          net = (if c_next c = None \<and> \<not> in_active_list c
                 then (upd_conn net i (c\<lparr>c_next := nw_active net, in_active_list := True\<rparr>))\<lparr>nw_active := Some i\<rparr>
                 else net)
      in case check_active fuel net (nw_active net) of
           None \<Rightarrow> None
         | Some (Inl f) \<Rightarrow> Some (Inl f)
         | Some (Inr _) \<Rightarrow> Some (Inr net))"

definition agN_set_handler ::
  "nat \<Rightarrow> bool \<Rightarrow> network \<Rightarrow> resid_t \<Rightarrow> nat \<Rightarrow> nat \<Rightarrow> (bool \<times> network) res option" where
  "agN_set_handler fuel ctl net rid handler ctx =
     (case agR_get (nw_lrm net) rid of
        Inl f \<Rightarrow> Some (Inl f)
      | Inr None \<Rightarrow> Some (Inr (False, net))
      | Inr (Some i) \<Rightarrow>
          let c = (nw_conn net i)\<lparr>c_handler := handler, c_ctx := ctx\<rparr>
          in case network_active fuel (upd_conn net i c) i of
               None \<Rightarrow> None
             | Some (Inl f) \<Rightarrow> Some (Inl f)
             | Some (Inr net) \<Rightarrow>
                 let c = nw_conn net i
                 in Some (case wbuf_size c of
                      Inl f \<Rightarrow> Inl f
                    | Inr n \<Rightarrow>
                        let (r, c) = conn_set_event ctl c (if n = 0 then EPOLLIN else EPOLLIN + EPOLLOUT)
                        in Inr (r, upd_conn net i c)))"

text \<open>The cleared connection of a fresh slot.\<close>

definition new_conn :: "resid_t \<Rightarrow> nat \<Rightarrow> nat \<Rightarrow> conn" where
  "new_conn rid handler ctx =
     \<lparr>c_next = None, in_active_list = False, c_id = rid, c_status = cs_closed, c_fd = 0, c_events = 0,
      c_rbuf = None, c_wbuf = None, c_handler = handler, c_ctx = ctx\<rparr>"

text \<open>The common start of \<open>_agN_connect\<close>, \<open>_agN_listen\<close>, \<open>_agN_attach\<close>: a slot with a cleared connection.
  The pointer that \<open>_agR_get\<close> returns is used unchecked.\<close>

definition alloc_conn :: "network \<Rightarrow> nat \<Rightarrow> nat \<Rightarrow> ((resid_t \<times> nat) option \<times> network) res" where
  "alloc_conn net handler ctx =
     (case agR_new (nw_lrm net) of
        Inl f \<Rightarrow> Inl f
      | Inr (rid, lrm) \<Rightarrow>
          if rid = INVALID_ID then Inr (None, net\<lparr>nw_lrm := lrm\<rparr>)
          else (case agR_get lrm rid of
                  Inl f \<Rightarrow> Inl f
                | Inr None \<Rightarrow> Inl NullDeref
                | Inr (Some i) \<Rightarrow> Inr (Some (rid, i), upd_conn (net\<lparr>nw_lrm := lrm\<rparr>) i (new_conn rid handler ctx))))"

definition agN_attach :: "bool \<Rightarrow> network \<Rightarrow> int \<Rightarrow> nat \<Rightarrow> nat \<Rightarrow> (resid_t \<times> network) res" where
  "agN_attach ctl net fd handler ctx =
     (case alloc_conn net handler ctx of
        Inl f \<Rightarrow> Inl f
      | Inr (None, net) \<Rightarrow> Inr (INVALID_ID, net)
      | Inr (Some (rid, i), net) \<Rightarrow>
          let c = (nw_conn net i)\<lparr>c_fd := fd, c_status := cs_connected\<rparr>
          in Inr (rid, upd_conn net i (snd (conn_set_event ctl c EPOLLIN))))"

text \<open>\<open>fd\<close> is the socket of \<open>connect_to\<close> with whether it is connected already, \<open>None\<close> for -1.\<close>

definition agN_connect ::
  "nat \<Rightarrow> bool \<Rightarrow> network \<Rightarrow> (int \<times> bool) option \<Rightarrow> nat \<Rightarrow> nat \<Rightarrow> (resid_t \<times> network) res option" where
  "agN_connect fuel ctl net fd handler ctx =
     (case alloc_conn net handler ctx of
        Inl f \<Rightarrow> Some (Inl f)
      | Inr (None, net) \<Rightarrow> Some (Inr (INVALID_ID, net))
      | Inr (Some (rid, i), net) \<Rightarrow>
          (case fd of
             None \<Rightarrow>
               Some (case agR_free (nw_lrm net) rid of
                       Inl f \<Rightarrow> Inl f
                     | Inr lrm \<Rightarrow> Inr (- 1, (upd_conn net i ((nw_conn net i)\<lparr>c_fd := - 1\<rparr>))\<lparr>nw_lrm := lrm\<rparr>))
           | Some (fd, done_now) \<Rightarrow>
               if done_now then
                 (case network_active fuel (upd_conn net i ((nw_conn net i)\<lparr>c_fd := fd, c_status := cs_connected_wait_cb\<rparr>)) i of
                    None \<Rightarrow> None
                  | Some (Inl f) \<Rightarrow> Some (Inl f)
                  | Some (Inr net) \<Rightarrow> Some (Inr (rid, net)))
               else
                 let c = (nw_conn net i)\<lparr>c_fd := fd, c_status := cs_connecting\<rparr>
                 in Some (Inr (rid, upd_conn net i (snd (conn_set_event ctl c EPOLLOUT))))))"

definition agN_listen :: "bool \<Rightarrow> network \<Rightarrow> int option \<Rightarrow> nat \<Rightarrow> nat \<Rightarrow> (resid_t \<times> network) res" where
  "agN_listen ctl net fd handler ctx =
     (case alloc_conn net handler ctx of
        Inl f \<Rightarrow> Inl f
      | Inr (None, net) \<Rightarrow> Inr (INVALID_ID, net)
      | Inr (Some (rid, i), net) \<Rightarrow>
          (case fd of
             None \<Rightarrow>
               (case agR_free (nw_lrm net) rid of
                  Inl f \<Rightarrow> Inl f
                | Inr lrm \<Rightarrow> Inr (- 1, (upd_conn net i ((nw_conn net i)\<lparr>c_fd := - 1\<rparr>))\<lparr>nw_lrm := lrm\<rparr>))
           | Some fd \<Rightarrow>
               let c = (nw_conn net i)\<lparr>c_fd := fd, c_status := cs_listening\<rparr>
               in Inr (rid, upd_conn net i (snd (conn_set_event ctl c EPOLLIN)))))"

text \<open>\<open>fd\<close> is the socket \<open>accept\<close> gave, \<open>None\<close> when there was none; \<open>nb\<close> whether it could be made
  non-blocking. The result says whether to try again, and the id of the new connection for which
  \<open>on_accept\<close> is to be called.\<close>

definition accept_once :: "bool \<Rightarrow> network \<Rightarrow> int option \<Rightarrow> (bool \<times> resid_t option \<times> network) res" where
  "accept_once nb net fd =
     (case fd of
        None \<Rightarrow> Inr (False, None, net)
      | Some fd \<Rightarrow>
          if \<not> nb then Inr (True, None, shut net fd)
          else (case alloc_conn net 0 0 of
                  Inl f \<Rightarrow> Inl f
                | Inr (None, net) \<Rightarrow> Inr (True, None, shut net fd)
                | Inr (Some (rid, i), net) \<Rightarrow>
                    Inr (True, Some rid, upd_conn net i ((nw_conn net i)\<lparr>c_fd := fd, c_status := cs_connected\<rparr>))))"

definition agN_detach :: "bool \<Rightarrow> network \<Rightarrow> resid_t \<Rightarrow> (int \<times> network) res" where
  "agN_detach ctl net rid =
     (case agR_get (nw_lrm net) rid of
        Inl f \<Rightarrow> Inl f
      | Inr None \<Rightarrow> Inr (- 1, net)
      | Inr (Some i) \<Rightarrow>
          let c = nw_conn net i
          in if c_status c = cs_closed \<or> c_status c = cs_closing then Inr (- 1, net)
             else case agN_close ctl (upd_conn net i (c\<lparr>c_fd := - 1\<rparr>)) rid of
               Inl f \<Rightarrow> Inl f
             | Inr net \<Rightarrow> Inr (c_fd c, net))"

definition agN_get_fd :: "network \<Rightarrow> resid_t \<Rightarrow> int res" where
  "agN_get_fd net rid =
     (case agR_get (nw_lrm net) rid of
        Inl f \<Rightarrow> Inl f
      | Inr None \<Rightarrow> Inr (- 1)
      | Inr (Some i) \<Rightarrow> Inr (c_fd (nw_conn net i)))"

definition agN_stop :: "network \<Rightarrow> network" where
  "agN_stop net = net\<lparr>nw_stop := True\<rparr>"

section \<open>The closing list\<close>

fun cchain :: "(nat \<Rightarrow> conn) \<Rightarrow> nat option \<Rightarrow> nat list \<Rightarrow> bool" where
  "cchain cs p [] \<longleftrightarrow> p = None"
| "cchain cs p (i # is) \<longleftrightarrow> p = Some i \<and> cchain cs (c_next (cs i)) is"

text \<open>Every slot in use holds a connection with the id of the slot, and the closing list holds exactly the
  connections marked as closing.\<close>

definition net_ok :: "network \<Rightarrow> nat list \<Rightarrow> nat list \<Rightarrow> bool" where
  "net_ok net idle xs \<longleftrightarrow>
     lrm_ok (nw_lrm net) idle \<and> cchain (nw_conn net) (nw_closing net) xs \<and> distinct xs
     \<and> (\<forall>i < length (lrm_data (nw_lrm net)). i \<notin> set idle \<longrightarrow>
          c_id (nw_conn net i) = res_id (lrm_data (nw_lrm net) ! i) \<and> (c_status (nw_conn net i) = cs_closing \<longleftrightarrow> i \<in> set xs))
     \<and> (\<forall>i \<in> set xs. i < length (lrm_data (nw_lrm net)) \<and> i \<notin> set idle)"

lemma cchain_cong:
  "(\<And>i. i \<in> set xs \<Longrightarrow> c_next (cs' i) = c_next (cs i)) \<Longrightarrow> cchain cs' p xs = cchain cs p xs"
  by (induction xs arbitrary: p) auto

lemma cchain_upd: "i \<notin> set xs \<Longrightarrow> cchain (cs(i := c)) p xs = cchain cs p xs"
  by (rule cchain_cong) auto

lemma upd_conn_sel [simp]:
  "nw_conn (upd_conn net i c) = (nw_conn net)(i := c)" "nw_lrm (upd_conn net i c) = nw_lrm net"
  "nw_closing (upd_conn net i c) = nw_closing net" "nw_active (upd_conn net i c) = nw_active net"
  "nw_shut (upd_conn net i c) = nw_shut net" "nw_stop (upd_conn net i c) = nw_stop net"
  by (simp_all add: upd_conn_def)

lemma shut_sel [simp]:
  "nw_conn (shut net fd) = nw_conn net" "nw_lrm (shut net fd) = nw_lrm net" "nw_closing (shut net fd) = nw_closing net"
  "nw_active (shut net fd) = nw_active net" "nw_stop (shut net fd) = nw_stop net"
  by (simp_all add: shut_def)

lemma set_event_c_sel [simp]:
  "c_next (snd (conn_set_event ctl c ev)) = c_next c" "c_id (snd (conn_set_event ctl c ev)) = c_id c"
  "in_active_list (snd (conn_set_event ctl c ev)) = in_active_list c"
  by (simp_all add: conn_set_event_def)

lemma agN_close_ok:
  assumes "net_ok net idle xs" and "i < length (lrm_data (nw_lrm net))" and "i \<notin> set idle"
    and "rid = res_id (lrm_data (nw_lrm net) ! i)"
  shows "\<exists>net'. agN_close ctl net rid = Inr net' \<and> net_ok net' idle (if i \<in> set xs then xs else i # xs)
    \<and> nw_lrm net' = nw_lrm net \<and> nw_shut net' = nw_shut net \<and> (\<forall>j. c_fd (nw_conn net' j) = c_fd (nw_conn net j))"
proof (cases "i \<in> set xs")
  case True
  have get: "agR_get (nw_lrm net) rid = Inr (Some i)"
    using agR_get_iff[of "nw_lrm net" idle rid i] assms by (simp add: net_ok_def)
  then have "agN_close ctl net rid = Inr net"
    using assms(1-3) True by (simp add: agN_close_def net_ok_def)
  with True assms(1) show ?thesis by auto
next
  case False
  have get: "agR_get (nw_lrm net) rid = Inr (Some i)"
    using agR_get_iff[of "nw_lrm net" idle rid i] assms by (simp add: net_ok_def)
  let ?c = "(snd (conn_set_event ctl ((nw_conn net i)\<lparr>c_status := cs_closing\<rparr>) 0))\<lparr>c_next := nw_closing net\<rparr>"
  let ?net = "(upd_conn net i ?c)\<lparr>nw_closing := Some i\<rparr>"
  have "agN_close ctl net rid = Inr ?net"
    using get assms(1-3) False by (simp add: agN_close_def net_ok_def Let_def)
  moreover have "cchain ((nw_conn net)(i := ?c)) (nw_closing net) xs"
    using assms(1) False by (simp add: net_ok_def cchain_upd)
  then have "net_ok ?net idle (i # xs)"
    using assms(1-3) False by (auto simp: net_ok_def)
  ultimately show ?thesis using False by auto
qed

text \<open>Freeing the slot of a connection.\<close>

lemma agR_free_slot:
  assumes "lrm_ok lrm idle" and "i < length (lrm_data lrm)" and "i \<notin> set idle" and "rid = res_id (lrm_data lrm ! i)"
    and "unat rid + 2 * nat (lrm_max lrm) < 2 ^ 32"
  shows "\<exists>lrm'. agR_free lrm rid = Inr lrm' \<and> lrm_ok lrm' (i # idle) \<and> lrm_max lrm' = lrm_max lrm
    \<and> length (lrm_data lrm') = length (lrm_data lrm) \<and> res_id (lrm_data lrm' ! i) \<noteq> rid
    \<and> (\<forall>j. j \<noteq> i \<longrightarrow> lrm_data lrm' ! j = lrm_data lrm ! j)"
proof -
  have used: "rid \<in> used_ids lrm"
    using assms(1-4) by (auto simp: used_ids_def lrm_ok_def)
  obtain k lrm' where f: "agR_free lrm rid = Inr lrm'" "lrm_ok lrm' (k # idle)" "agR_get lrm' rid = Inr None"
    using agR_free_ok[OF assms(1) used assms(5)] by blast
  have "get_lresource lrm rid = Inr (Some i)"
    using agR_get_iff[OF assms(1), of rid i] assms(2,4) by (simp add: agR_get_def)
  then obtain nid where l: "lrm' = lrm\<lparr>lrm_data := (lrm_data lrm)[i := \<lparr>res_id = nid, res_next = lrm_idle lrm\<rparr>], lrm_idle := Next i\<rparr>"
    using f(1) by (auto simp: agR_free_def Let_def)
  then have "k = i"
    using f(2) by (simp add: lrm_ok_def)
  moreover have "res_id (lrm_data lrm' ! i) \<noteq> rid"
    using f(3) agR_get_iff[OF f(2), of rid i] assms(2) l by auto
  ultimately show ?thesis using f(1,2) l by auto
qed

lemma do_close_ok:
  assumes "net_ok net idle (i # xs)" and "unat (c_id (nw_conn net i)) + 2 * nat (lrm_max (nw_lrm net)) < 2 ^ 32"
  defines "net1 \<equiv> net\<lparr>nw_closing := c_next (nw_conn net i)\<rparr>"
  shows "\<exists>net'. do_close net1 i = Inr net' \<and> net_ok net' (i # idle) xs
    \<and> lrm_max (nw_lrm net') = lrm_max (nw_lrm net)
    \<and> length (lrm_data (nw_lrm net')) = length (lrm_data (nw_lrm net))
    \<and> res_id (lrm_data (nw_lrm net') ! i) \<noteq> c_id (nw_conn net i)
    \<and> nw_shut net' = nw_shut net @ filter (\<lambda>fd. 0 \<le> fd) [c_fd (nw_conn net i)]
    \<and> (\<forall>j. j \<noteq> i \<longrightarrow> lrm_data (nw_lrm net') ! j = lrm_data (nw_lrm net) ! j \<and> nw_conn net' j = nw_conn net j)"
proof -
  have i: "i < length (lrm_data (nw_lrm net))" "i \<notin> set idle" "c_id (nw_conn net i) = res_id (lrm_data (nw_lrm net) ! i)"
    and ok: "lrm_ok (nw_lrm net) idle" and ch: "cchain (nw_conn net) (c_next (nw_conn net i)) xs" "i \<notin> set xs"
    using assms(1) by (auto simp: net_ok_def)
  obtain lrm' where l: "agR_free (nw_lrm net) (c_id (nw_conn net i)) = Inr lrm'" "lrm_ok lrm' (i # idle)"
    "lrm_max lrm' = lrm_max (nw_lrm net)" "length (lrm_data lrm') = length (lrm_data (nw_lrm net))"
    "res_id (lrm_data lrm' ! i) \<noteq> c_id (nw_conn net i)"
    "\<And>j. j \<noteq> i \<Longrightarrow> lrm_data lrm' ! j = lrm_data (nw_lrm net) ! j"
    using agR_free_slot[OF ok i assms(2)] by blast
  let ?c = "(nw_conn net i)\<lparr>c_rbuf := None, c_wbuf := None, c_status := cs_closed\<rparr>"
  let ?net = "(upd_conn (if c_fd (nw_conn net i) \<ge> 0 then shut net1 (c_fd (nw_conn net i)) else net1) i ?c)\<lparr>nw_lrm := lrm'\<rparr>"
  have "do_close net1 i = Inr ?net"
    using l(1) by (simp add: do_close_def net1_def)
  moreover have "cchain ((nw_conn net)(i := ?c)) (c_next (nw_conn net i)) xs"
    using ch by (simp add: cchain_upd)
  then have "net_ok ?net (i # idle) xs"
    using assms(1) l ch(2) by (auto simp: net_ok_def net1_def)
  moreover have "nw_shut ?net = nw_shut net @ filter (\<lambda>fd. 0 \<le> fd) [c_fd (nw_conn net i)]"
    by (simp add: net1_def shut_def)
  ultimately show ?thesis
    using l by (auto simp: net1_def)
qed

lemma cleanClient_ok:
  assumes "net_ok net idle xs"
    and "\<And>i. i \<in> set xs \<Longrightarrow> unat (c_id (nw_conn net i)) + 2 * nat (lrm_max (nw_lrm net)) < 2 ^ 32"
    and "length xs < fuel"
  shows "\<exists>net'. cleanClient fuel net = Some (Inr net') \<and> net_ok net' (rev xs @ idle) []
    \<and> length (lrm_data (nw_lrm net')) = length (lrm_data (nw_lrm net))
    \<and> nw_shut net' = nw_shut net @ filter (\<lambda>fd. 0 \<le> fd) (map (\<lambda>i. c_fd (nw_conn net i)) xs)
    \<and> (\<forall>i \<in> set xs. res_id (lrm_data (nw_lrm net') ! i) \<noteq> c_id (nw_conn net i))
    \<and> (\<forall>j. j \<notin> set xs \<longrightarrow> lrm_data (nw_lrm net') ! j = lrm_data (nw_lrm net) ! j)"
  using assms
proof (induction xs arbitrary: net idle fuel)
  case Nil
  then obtain f where "fuel = Suc f" by (cases fuel) auto
  with Nil show ?case by (auto simp: net_ok_def)
next
  case (Cons i xs)
  obtain f where f: "fuel = Suc f" using Cons.prems(3) by (cases fuel) auto
  obtain net1 where n1: "do_close (net\<lparr>nw_closing := c_next (nw_conn net i)\<rparr>) i = Inr net1" "net_ok net1 (i # idle) xs"
    "lrm_max (nw_lrm net1) = lrm_max (nw_lrm net)" "length (lrm_data (nw_lrm net1)) = length (lrm_data (nw_lrm net))"
    "res_id (lrm_data (nw_lrm net1) ! i) \<noteq> c_id (nw_conn net i)"
    "nw_shut net1 = nw_shut net @ filter (\<lambda>fd. 0 \<le> fd) [c_fd (nw_conn net i)]"
    "\<And>j. j \<noteq> i \<Longrightarrow> lrm_data (nw_lrm net1) ! j = lrm_data (nw_lrm net) ! j \<and> nw_conn net1 j = nw_conn net j"
    using do_close_ok[OF Cons.prems(1)] Cons.prems(2)[of i] by auto
  have i: "nw_closing net = Some i" "i \<notin> set xs"
    using Cons.prems(1) by (simp_all add: net_ok_def)
  have "unat (c_id (nw_conn net1 j)) + 2 * nat (lrm_max (nw_lrm net1)) < 2 ^ 32" if "j \<in> set xs" for j
  proof -
    have "j \<noteq> i" using i(2) that by auto
    then show ?thesis using Cons.prems(2)[of j] n1(3) n1(7)[of j] that by simp
  qed
  then obtain net' where n2: "cleanClient f net1 = Some (Inr net')" "net_ok net' (rev xs @ i # idle) []"
    "length (lrm_data (nw_lrm net')) = length (lrm_data (nw_lrm net1))"
    "nw_shut net' = nw_shut net1 @ filter (\<lambda>fd. 0 \<le> fd) (map (\<lambda>i. c_fd (nw_conn net1 i)) xs)"
    "\<And>j. j \<in> set xs \<Longrightarrow> res_id (lrm_data (nw_lrm net') ! j) \<noteq> c_id (nw_conn net1 j)"
    "\<And>j. j \<notin> set xs \<Longrightarrow> lrm_data (nw_lrm net') ! j = lrm_data (nw_lrm net1) ! j"
    using Cons.IH[OF n1(2), of f] Cons.prems(3) f by auto
  have "cleanClient fuel net = Some (Inr net')"
    using i(1) n1(1) n2(1) by (simp add: f)
  moreover have "res_id (lrm_data (nw_lrm net') ! j) \<noteq> c_id (nw_conn net j)" if "j \<in> set (i # xs)" for j
    using that n2(5)[of j] n2(6)[of j] n1(5) n1(7)[of j] i(2) by (cases "j = i") auto
  moreover have "map (\<lambda>i. c_fd (nw_conn net1 i)) xs = map (\<lambda>i. c_fd (nw_conn net i)) xs"
    using n1(7) i(2) by (intro map_cong refl) metis
  then have "nw_shut net' = nw_shut net @ filter (\<lambda>fd. 0 \<le> fd) (map (\<lambda>i. c_fd (nw_conn net i)) (i # xs))"
    unfolding n2(4) n1(6) by (simp del: map_eq_conv)
  ultimately show ?case
    using n1(4,7) n2(2,3,6) by auto
qed

section \<open>Properties\<close>

text \<open>Closing is deferred and final. \<open>_agN_close\<close> of a connection in use puts it on the closing list once,
  however often it is called; emptying the list ends, frees the slot of every closed connection
  and closes the descriptor of every closed connection exactly once, and from then on their ids find nothing, while all other ids find what they found
  before. (Ids are assumed not to wrap.)\<close>

theorem close_then_clean:
  assumes "net_ok net idle xs" and "i < length (lrm_data (nw_lrm net))" and "i \<notin> set idle" and "i \<notin> set xs"
    and "rid = res_id (lrm_data (nw_lrm net) ! i)"
    and "\<And>j. j < length (lrm_data (nw_lrm net)) \<Longrightarrow>
      unat (res_id (lrm_data (nw_lrm net) ! j)) + 2 * nat (lrm_max (nw_lrm net)) < 2 ^ 32"
  shows "\<exists>net1 net2. agN_close ctl net rid = Inr net1 \<and> agN_close ctl net1 rid = Inr net1
    \<and> cleanClient (length xs + 2) net1 = Some (Inr net2)
    \<and> net_ok net2 (rev xs @ [i] @ idle) []
    \<and> nw_shut net2 = nw_shut net @ filter (\<lambda>fd. 0 \<le> fd) (map (\<lambda>j. c_fd (nw_conn net j)) (i # xs))
    \<and> agR_get (nw_lrm net2) rid = Inr None
    \<and> (\<forall>j q. j < length (lrm_data (nw_lrm net)) \<longrightarrow> j \<notin> set (i # xs) \<longrightarrow>
         agR_get (nw_lrm net) q = Inr (Some j) \<longrightarrow> agR_get (nw_lrm net2) q = Inr (Some j))"
proof -
  obtain net1 where n1: "agN_close ctl net rid = Inr net1" "net_ok net1 idle (i # xs)" "nw_lrm net1 = nw_lrm net"
    "nw_shut net1 = nw_shut net" "\<And>j. c_fd (nw_conn net1 j) = c_fd (nw_conn net j)"
    using agN_close_ok[OF assms(1-3,5)] assms(4) by auto
  have again: "agN_close ctl net1 rid = Inr net1"
  proof -
    have "agR_get (nw_lrm net1) rid = Inr (Some i)"
      using agR_get_iff[of "nw_lrm net1" idle rid i] n1(2,3) assms(2,5) by (simp add: net_ok_def)
    then show ?thesis
      using n1(2,3) assms(2,3) by (simp add: agN_close_def net_ok_def)
  qed
  have wrap: "unat (c_id (nw_conn net1 j)) + 2 * nat (lrm_max (nw_lrm net1)) < 2 ^ 32" if "j \<in> set (i # xs)" for j
    using n1(2,3) assms(6)[of j] that by (auto simp: net_ok_def)
  have "length (i # xs) < length xs + 2" by simp
  from cleanClient_ok[OF n1(2) wrap this] obtain net2 where
    n2: "cleanClient (length xs + 2) net1 = Some (Inr net2)" "net_ok net2 (rev xs @ [i] @ idle) []"
    "length (lrm_data (nw_lrm net2)) = length (lrm_data (nw_lrm net))"
    "nw_shut net2 = nw_shut net @ filter (\<lambda>fd. 0 \<le> fd) (map (\<lambda>j. c_fd (nw_conn net j)) (i # xs))"
    "\<And>j. j \<in> set (i # xs) \<Longrightarrow> res_id (lrm_data (nw_lrm net2) ! j) \<noteq> c_id (nw_conn net1 j)"
    "\<And>j. j \<notin> set (i # xs) \<Longrightarrow> lrm_data (nw_lrm net2) ! j = lrm_data (nw_lrm net) ! j"
    unfolding n1(3-5) rev.simps append_assoc append_Cons append_Nil by blast
  note get2 = get_lresource_ok[of "nw_lrm net2" "rev xs @ [i] @ idle"] agR_get_iff[of "nw_lrm net2" "rev xs @ [i] @ idle"]
  have ok2: "lrm_ok (nw_lrm net2) (rev xs @ [i] @ idle)" and ok: "lrm_ok (nw_lrm net) idle"
    using n2(2) assms(1) by (simp_all add: net_ok_def)
  have keep: "agR_get (nw_lrm net2) q = Inr (Some j)"
    if "j < length (lrm_data (nw_lrm net))" "j \<notin> set (i # xs)" "agR_get (nw_lrm net) q = Inr (Some j)" for j q
    using get2(2)[OF ok2, of q j] agR_get_iff[OF ok, of q j] that n2(3) n2(6)[of j] by auto
  have "agR_get (nw_lrm net2) rid \<noteq> Inr (Some j)" for j
  proof
    assume "agR_get (nw_lrm net2) rid = Inr (Some j)"
    then have j: "j < length (lrm_data (nw_lrm net))" "res_id (lrm_data (nw_lrm net2) ! j) = rid"
      using get2(2)[OF ok2, of rid j] n2(3) by auto
    have "unat rid mod nat (lrm_max (nw_lrm net2)) = j"
      using j ok2 n2(3) unfolding lrm_ok_def by auto
    moreover have "unat rid mod nat (lrm_max (nw_lrm net)) = i"
      using ok assms(2,5) unfolding lrm_ok_def by auto
    moreover have "nat (lrm_max (nw_lrm net2)) = nat (lrm_max (nw_lrm net))"
      using ok ok2 n2(3) by (simp add: lrm_ok_def)
    ultimately have "j = i" by simp
    then show False
      using n2(5)[of i] j n1(2,3) assms(2,3,5) by (auto simp: net_ok_def)
  qed
  then have "agR_get (nw_lrm net2) rid = Inr None"
    using get2(1)[OF ok2, of rid] by (auto split: if_splits)
  with n1(1) again n2(1,2,4) keep show ?thesis by blast
qed

definition net_example :: network where
  "net_example = \<lparr>nw_lrm = lrm_example, nw_stop = False, nw_closing = None, nw_active = None, nw_conn = (\<lambda>_. conn_example\<lparr>c_id := 4\<rparr>), nw_shut = []\<rparr>"

lemma net_example_ok: "net_ok net_example [1] []"
  using lrm_example_ok
  by (auto simp: net_ok_def net_example_def lrm_example_def conn_example_def All_less_Suc less_Suc_eq)

theorem close_then_clean_witness:
  "\<exists>net1 net2. agN_close True net_example 4 = Inr net1 \<and> cleanClient (length ([] :: nat list) + 2) net1 = Some (Inr net2)
    \<and> agR_get (nw_lrm net2) 4 = Inr None"
proof -
  have d: "lrm_data (nw_lrm net_example) = [\<lparr>res_id = 4, res_next = InUse\<rparr>, \<lparr>res_id = 1, res_next = ListEnd\<rparr>]"
    "lrm_max (nw_lrm net_example) = 2"
    by (simp_all add: net_example_def lrm_example_def)
  have "unat (res_id (lrm_data (nw_lrm net_example) ! j)) + 2 * nat (lrm_max (nw_lrm net_example)) < 2 ^ 32"
    if "j < length (lrm_data (nw_lrm net_example))" for j
    using that by (auto simp: d less_Suc_eq)
  moreover have "0 < length (lrm_data (nw_lrm net_example))" "4 = res_id (lrm_data (nw_lrm net_example) ! 0)"
    by (simp_all add: d)
  ultimately show ?thesis
    using close_then_clean[OF net_example_ok, of 0 4 True] by fastforce
qed

text \<open>The active and the closing list share the member \<open>next\<close>. Closing a connection that waits on the
  active list with another one behind it cuts that other connection off the list; it still
  counts as being on the list, so that setting its handler again does not bring it back.\<close>

theorem close_cuts_active_list:
  assumes "agR_get (nw_lrm net) rid = Inr (Some i)" and "nw_active net = Some i" and "c_next (nw_conn net i) = Some j"
    and "c_next (nw_conn net j) = None" and "in_active_list (nw_conn net j)" and "nw_closing net = None"
    and "c_status (nw_conn net i) = cs_connected" and "i \<noteq> j"
  shows "\<exists>net1. agN_close ctl net rid = Inr net1 \<and> cchain (nw_conn net) (nw_active net) [i, j]
    \<and> cchain (nw_conn net1) (nw_active net1) [i]
    \<and> network_active (Suc (Suc fuel)) net1 j = Some (Inr net1)"
proof -
  let ?c = "(snd (conn_set_event ctl ((nw_conn net i)\<lparr>c_status := cs_closing\<rparr>) 0))\<lparr>c_next := None\<rparr>"
  let ?net = "(upd_conn net i ?c)\<lparr>nw_closing := Some i\<rparr>"
  have "agN_close ctl net rid = Inr ?net"
    using assms by (simp add: agN_close_def Let_def)
  moreover have "network_active (Suc (Suc fuel)) ?net j = Some (Inr ?net)"
    using assms by (simp add: network_active_def Let_def)
  ultimately show ?thesis using assms by auto
qed

theorem close_cuts_active_list_witness:
  "\<exists>net net1. cchain (nw_conn net) (nw_active net) [0, 1] \<and> agN_close True net 4 = Inr net1
    \<and> cchain (nw_conn net1) (nw_active net1) [0]"
proof -
  let ?net = "net_example\<lparr>nw_active := Some 0,
    nw_conn := (\<lambda>_. conn_example)(0 := conn_example\<lparr>c_next := Some 1\<rparr>, 1 := conn_example\<lparr>in_active_list := True\<rparr>)\<rparr>"
  have "agR_get (nw_lrm ?net) 4 = Inr (Some 0)"
    using agR_get_iff[OF lrm_example_ok, of 4 0] by (simp add: net_example_def lrm_example_def)
  then obtain net1 where "agN_close True ?net 4 = Inr net1" "cchain (nw_conn ?net) (nw_active ?net) [0, 1]"
    "cchain (nw_conn net1) (nw_active net1) [0]"
    using close_cuts_active_list[of ?net 4 0 1 True 0] by (auto simp: net_example_def conn_example_def)
  then show ?thesis by blast
qed

end
