(* ===== verification/NetLoop.thy ===== *)
theory NetLoop
  imports Network
begin

text \<open>
  The event loop of \<^verbatim>\<open>src/framework/network.c\<close>: \<open>_agN_tick\<close> works off the active list or the events that
  \<open>epoll_wait\<close> reports, calls the handlers of the connections, and empties the closing list at the end;
  \<open>_agN_loop\<close> repeats it until \<open>_agN_stop\<close>. At the end the functions on the single instance of the
  network.

  The handlers of a connection are looked up in a table by the number in the connection; number 0 is the
  cleared handler with null pointers only. A handler is a function on the network and the rest of the
  world, \<open>None\<close> when it does not return. What the kernel answers while one connection is served is a
  record; the bytes it takes are handed to \<open>put\<close> with the descriptor. \<open>ks n\<close> are the answers for the
  \<open>n\<close>th connection served in a tick.
\<close>

section \<open>Handlers\<close>

type_synonym 'w net_state = "network \<times> 'w"

record 'w net_handler =
  h_accept :: "(resid_t \<Rightarrow> resid_t \<Rightarrow> nat \<Rightarrow> 'w net_state \<Rightarrow> 'w net_state res option) option"
  h_connected :: "(resid_t \<Rightarrow> nat \<Rightarrow> 'w net_state \<Rightarrow> 'w net_state res option) option"
  h_closed :: "(resid_t \<Rightarrow> int \<Rightarrow> nat \<Rightarrow> 'w net_state \<Rightarrow> 'w net_state res option) option"
  h_message :: "(resid_t \<Rightarrow> byte list \<Rightarrow> nat \<Rightarrow> 'w net_state \<Rightarrow> (nat \<times> 'w net_state) res option) option"

definition null_handler :: "'w net_handler" where
  "null_handler = \<lparr>h_accept = None, h_connected = None, h_closed = None, h_message = None\<rparr>"

definition handler_of :: "(nat \<Rightarrow> 'w net_handler) \<Rightarrow> conn \<Rightarrow> 'w net_handler" where
  "handler_of hs c = (if c_handler c = 0 then null_handler else hs (c_handler c))"

record kernel =
  k_accept :: "(int option \<times> bool) list"
  k_error :: int
  k_recv :: "recv_result list"
  k_send :: int
  k_ctl_in :: bool
  k_ctl_out :: bool

text \<open>The surroundings of a loop: the handlers, the contents of fresh memory, what happens to bytes sent.\<close>

record 'w surround =
  sr_handlers :: "nat \<Rightarrow> 'w net_handler"
  sr_mem :: "nat \<Rightarrow> byte"
  sr_put :: "int \<Rightarrow> byte list \<Rightarrow> 'w \<Rightarrow> 'w"

section \<open>Serving one connection\<close>

definition EPOLLERR :: nat where "EPOLLERR = 8"

fun accept_loop :: "'w surround \<Rightarrow> nat \<Rightarrow> (int option \<times> bool) list \<Rightarrow> 'w net_state \<Rightarrow> 'w net_state res option" where
  "accept_loop sr i [] nw = None"
| "accept_loop sr i ((fd, nb) # as) (net, w) =
     run_bind (Some (accept_once nb net fd)) (\<lambda>(again, nid, net).
       let c = nw_conn net i
       in run_bind (case (nid, h_accept (handler_of (sr_handlers sr) c)) of
                      (Some rid, Some cb) \<Rightarrow> cb (c_id c) rid (c_ctx c) (net, w)
                    | _ \<Rightarrow> Some (Inr (net, w))) (\<lambda>nw.
            if again then accept_loop sr i as nw else Some (Inr nw)))"

definition finish_connecting :: "'w surround \<Rightarrow> bool \<Rightarrow> nat \<Rightarrow> 'w net_state \<Rightarrow> 'w net_state res option" where
  "finish_connecting sr ctl i nw =
     (let net = fst nw; c = (nw_conn net i)\<lparr>c_status := cs_connected\<rparr>
      in case wbuf_size c of
           Inl f \<Rightarrow> Some (Inl f)
         | Inr n \<Rightarrow>
             let c = snd (conn_set_event ctl c (if n > 0 then EPOLLIN + EPOLLOUT else EPOLLIN));
                 nw = (upd_conn net i c, snd nw)
             in case h_connected (handler_of (sr_handlers sr) c) of
                  None \<Rightarrow> Some (Inr nw)
                | Some cb \<Rightarrow> cb (c_id c) (c_ctx c) nw)"

text \<open>The end of a connection: \<open>on_closed\<close>, then \<open>_agN_close\<close>.\<close>

definition close_with :: "'w surround \<Rightarrow> bool \<Rightarrow> nat \<Rightarrow> int \<Rightarrow> 'w net_state \<Rightarrow> 'w net_state res option" where
  "close_with sr ctl i err nw =
     (let c = nw_conn (fst nw) i
      in run_bind (case h_closed (handler_of (sr_handlers sr) c) of
                     None \<Rightarrow> Some (Inr nw)
                   | Some cb \<Rightarrow> cb (c_id c) err (c_ctx c) nw) (\<lambda>(net, w).
           run_bind (Some (agN_close ctl net (c_id (nw_conn net i)))) (\<lambda>net. Some (Inr (net, w)))))"

definition check_connecting :: "'w surround \<Rightarrow> kernel \<Rightarrow> nat \<Rightarrow> 'w net_state \<Rightarrow> 'w net_state res option" where
  "check_connecting sr k i nw =
     (if k_error k \<noteq> 0 then close_with sr (k_ctl_in k) i (k_error k) nw
      else finish_connecting sr (k_ctl_in k) i nw)"

definition do_conn_error :: "'w surround \<Rightarrow> kernel \<Rightarrow> nat \<Rightarrow> 'w net_state \<Rightarrow> 'w net_state res option" where
  "do_conn_error sr k i nw = close_with sr (k_ctl_in k) i (- 1000) nw"

text \<open>The message handlers as \<open>do_conn_read\<close> takes them: the connection that is read is kept apart
  from the network, whose slot \<open>i\<close> is out of use meanwhile, and is put into it for every call.\<close>

definition msg_handlers :: "'w surround \<Rightarrow> nat \<Rightarrow> 'w net_state handlers" where
  "msg_handlers sr i c =
     map_option (\<lambda>cb data (c, net, w).
       run_bind (cb (c_id c) data (c_ctx c) (upd_conn net i c, w)) (\<lambda>(s, net', w).
         Some (Inr (s, nw_conn net' i, upd_conn net' i (nw_conn net i), w)))) (h_message (handler_of (sr_handlers sr) c))"

definition read_event :: "'w surround \<Rightarrow> kernel \<Rightarrow> nat \<Rightarrow> 'w net_state \<Rightarrow> 'w net_state res option" where
  "read_event sr k i nw =
     run_bind (do_conn_read (sr_mem sr) (msg_handlers sr i) (k_recv k) (nw_conn (fst nw) i, nw)) (\<lambda>(e, c, net, w).
       case e of
         Done \<Rightarrow> Some (Inr (upd_conn net i c, w))
       | Closed err \<Rightarrow> close_with sr (k_ctl_in k) i err (upd_conn net i c, w))"

definition write_event :: "'w surround \<Rightarrow> kernel \<Rightarrow> nat \<Rightarrow> 'w net_state \<Rightarrow> 'w net_state res option" where
  "write_event sr k i nw =
     run_bind (Some (do_conn_write (k_ctl_out k) (k_send k) (nw_conn (fst nw) i))) (\<lambda>(sent, c).
       Some (Inr (upd_conn (fst nw) i c, if sent = [] then snd nw else sr_put sr (c_fd c) sent (snd nw))))"

definition do_conn_event :: "'w surround \<Rightarrow> kernel \<Rightarrow> nat \<Rightarrow> nat \<Rightarrow> 'w net_state \<Rightarrow> 'w net_state res option" where
  "do_conn_event sr k i event nw =
     (if and event EPOLLERR \<noteq> 0 then do_conn_error sr k i nw
      else
        run_bind (if and event EPOLLIN \<noteq> 0 then read_event sr k i nw else Some (Inr nw)) (\<lambda>nw.
          if and event EPOLLOUT \<noteq> 0 then write_event sr k i nw else Some (Inr nw)))"

section \<open>A tick\<close>

definition serve_active :: "'w surround \<Rightarrow> kernel \<Rightarrow> nat \<Rightarrow> 'w net_state \<Rightarrow> 'w net_state res option" where
  "serve_active sr k i nw =
     (case c_status (nw_conn (fst nw) i) of
        cs_listening \<Rightarrow> accept_loop sr i (k_accept k) nw
      | cs_connecting \<Rightarrow> check_connecting sr k i nw
      | cs_connected \<Rightarrow> do_conn_event sr k i (EPOLLIN + EPOLLOUT) nw
      | cs_connected_wait_cb \<Rightarrow> finish_connecting sr (k_ctl_in k) i nw
      | _ \<Rightarrow> Some (Inr nw))"

definition serve_event :: "'w surround \<Rightarrow> kernel \<Rightarrow> nat \<Rightarrow> nat \<Rightarrow> 'w net_state \<Rightarrow> 'w net_state res option" where
  "serve_event sr k i e nw =
     (case c_status (nw_conn (fst nw) i) of
        cs_listening \<Rightarrow> if and e EPOLLIN \<noteq> 0 then accept_loop sr i (k_accept k) nw else Some (Inr nw)
      | cs_connecting \<Rightarrow> check_connecting sr k i nw
      | cs_connected \<Rightarrow> do_conn_event sr k i e nw
      | _ \<Rightarrow> Some (Inr nw))"

text \<open>The loop over the active list; the fuel bounds the connections served, since handlers may put
  connections on the list again.\<close>

fun active_loop :: "nat \<Rightarrow> 'w surround \<Rightarrow> (nat \<Rightarrow> kernel) \<Rightarrow> nat \<Rightarrow> 'w net_state \<Rightarrow> 'w net_state res option" where
  "active_loop 0 sr ks n nw = None"
| "active_loop (Suc fuel) sr ks n (net, w) =
     (case nw_active net of
        None \<Rightarrow> Some (Inr (net, w))
      | Some i \<Rightarrow>
          let c = nw_conn net i;
              net = (upd_conn net i (c\<lparr>c_next := None, in_active_list := False\<rparr>))\<lparr>nw_active := c_next c\<rparr>
          in run_bind (serve_active sr (ks n) i (net, w)) (active_loop fuel sr ks (Suc n)))"

fun event_loop :: "'w surround \<Rightarrow> (nat \<Rightarrow> kernel) \<Rightarrow> nat \<Rightarrow> (nat \<times> nat) list \<Rightarrow> 'w net_state \<Rightarrow> 'w net_state res option" where
  "event_loop sr ks n [] nw = Some (Inr nw)"
| "event_loop sr ks n ((i, e) # es) nw = run_bind (serve_event sr (ks n) i e nw) (event_loop sr ks (Suc n) es)"

text \<open>The timer and the tick of a network, with the time the timer was called last.\<close>

record 'w net_hooks =
  timer_cb :: "(int \<Rightarrow> 'w net_state \<Rightarrow> 'w net_state res option) option"
  timer_last :: int
  tick_cb :: "('w net_state \<Rightarrow> 'w net_state res option) option"

definition no_hooks :: "'w net_hooks" where
  "no_hooks = \<lparr>timer_cb = None, timer_last = 0, tick_cb = None\<rparr>"

definition agN_set_timer :: "'w net_hooks \<Rightarrow> (int \<Rightarrow> 'c \<Rightarrow> 'w net_state \<Rightarrow> 'w net_state res option) option \<Rightarrow> 'c \<Rightarrow> 'w net_hooks" where
  "agN_set_timer hk cb ctx = hk\<lparr>timer_cb := map_option (\<lambda>f now. f now ctx) cb\<rparr>"

definition agN_set_tick :: "'w net_hooks \<Rightarrow> ('c \<Rightarrow> 'w net_state \<Rightarrow> 'w net_state res option) option \<Rightarrow> 'c \<Rightarrow> 'w net_hooks" where
  "agN_set_tick hk cb ctx = hk\<lparr>tick_cb := map_option (\<lambda>f. f ctx) cb\<rparr>"

definition run_timer :: "int option \<Rightarrow> 'w net_hooks \<Rightarrow> 'w net_state \<Rightarrow> ('w net_hooks \<times> 'w net_state) res option" where
  "run_timer now hk nw =
     (case now of
        None \<Rightarrow> Some (Inr (hk, nw))
      | Some t \<Rightarrow>
          if timer_last hk < t then
            let hk = hk\<lparr>timer_last := t\<rparr>
            in (case timer_cb hk of
                  None \<Rightarrow> Some (Inr (hk, nw))
                | Some cb \<Rightarrow> run_bind (cb t nw) (\<lambda>nw. Some (Inr (hk, nw))))
          else Some (Inr (hk, nw)))"

text \<open>\<open>ret\<close> and \<open>events\<close> are the outcome of \<open>epoll_wait\<close>: events carry the pointer to their connection.
  \<open>now\<close> is the second that \<open>gettimeofday\<close> gives. The fuel serves both lists.\<close>

definition agN_tick ::
  "nat \<Rightarrow> 'w surround \<Rightarrow> (nat \<Rightarrow> kernel) \<Rightarrow> int \<Rightarrow> (nat \<times> nat) list \<Rightarrow> int option \<Rightarrow> 'w net_hooks \<Rightarrow> 'w net_state
    \<Rightarrow> (int \<times> 'w net_hooks \<times> 'w net_state) res option" where
  "agN_tick fuel sr ks ret events now hk nw =
     (if nw_active (fst nw) \<noteq> None then
        run_bind (active_loop fuel sr ks 0 nw) (\<lambda>nw. Some (Inr (0, hk, nw)))
      else if nw_stop (fst nw) then Some (Inr (0, hk, nw))
      else
        run_bind (case tick_cb hk of None \<Rightarrow> Some (Inr nw) | Some cb \<Rightarrow> cb nw) (\<lambda>nw.
        run_bind (run_timer now hk nw) (\<lambda>(hk, nw).
        run_bind (event_loop sr ks 0 (take (nat ret) events) nw) (\<lambda>(net, w).
        run_bind (cleanClient fuel net) (\<lambda>net. Some (Inr (ret, hk, net, w)))))))"

section \<open>The loop\<close>

definition timesub :: "int \<times> int \<Rightarrow> int \<times> int \<Rightarrow> int" where
  "timesub t1 t2 =
     (let sec = fst t1 - fst t2; usec = snd t1 - snd t2;
          (sec, usec) = (if usec < 0 then (sec - 1, usec + 1000 * 1000) else (sec, usec))
      in sec * 1000 + usec div 1000)"

definition loop_timeout :: "int \<times> int \<Rightarrow> int" where
  "loop_timeout now =
     (let timeout = timesub (fst now + 1, 0) now in if timeout < 1000 then 1000 else timeout)"

text \<open>What one round of the loop gets from outside; \<open>in_wait\<close> is \<open>epoll_wait\<close>, given the time to wait.\<close>

record round_input =
  in_time :: "int \<times> int"
  in_wait :: "int \<Rightarrow> int \<times> (nat \<times> nat) list"
  in_now :: "int option"
  in_kernel :: "nat \<Rightarrow> kernel"

fun loop_rounds :: "nat \<Rightarrow> 'w surround \<Rightarrow> round_input list \<Rightarrow> 'w net_hooks \<times> 'w net_state \<Rightarrow> ('w net_hooks \<times> 'w net_state) res option" where
  "loop_rounds fuel sr ins (hk, nw) =
     (if nw_stop (fst nw) then Some (Inr (hk, nw))
      else case ins of
        [] \<Rightarrow> None
      | r # rs \<Rightarrow>
          let (ret, events) = in_wait r (loop_timeout (in_time r))
          in run_bind (agN_tick fuel sr (in_kernel r) ret events (in_now r) hk nw) (\<lambda>(_, hknw). loop_rounds fuel sr rs hknw))"

declare loop_rounds.simps [simp del]

definition agN_loop :: "nat \<Rightarrow> 'w surround \<Rightarrow> round_input list \<Rightarrow> 'w net_hooks \<times> 'w net_state \<Rightarrow> (int \<times> 'w net_hooks \<times> 'w net_state) res option" where
  "agN_loop fuel sr ins st =
     (case st of (hk, net, w) \<Rightarrow>
        run_bind (loop_rounds fuel sr ins (hk, net\<lparr>nw_stop := False\<rparr>, w)) (\<lambda>st. Some (Inr (0, st))))"

section \<open>Sending by id\<close>

text \<open>The connection an id stands for, as \<open>_agN_send\<close>, \<open>_agN_writev\<close> and \<open>_agN_buffer\<close> look it up, and the
  connection written back.\<close>

definition with_conn ::
  "network \<Rightarrow> resid_t \<Rightarrow> (conn option \<Rightarrow> ('a \<times> conn option) res option) \<Rightarrow> ('a \<times> network) res option" where
  "with_conn net rid f =
     run_bind (Some (agR_get (nw_lrm net) rid)) (\<lambda>i.
       run_bind (f (map_option (nw_conn net) i)) (\<lambda>(r, c).
         Some (Inr (r, case (i, c) of (Some i, Some c) \<Rightarrow> upd_conn net i c | _ \<Rightarrow> net))))"

definition net_send ::
  "(nat \<Rightarrow> byte) \<Rightarrow> bool \<Rightarrow> bool \<Rightarrow> bool \<Rightarrow> int \<Rightarrow> network \<Rightarrow> resid_t \<Rightarrow> byte list \<Rightarrow> ((bool \<times> byte list) \<times> network) res option" where
  "net_send g mem_new mem_grow ctl ret net rid buff =
     with_conn net rid (\<lambda>c. run_bind (agN_send g mem_new mem_grow ctl ret c buff) (\<lambda>(ok, sent, c). Some (Inr ((ok, sent), c))))"

definition net_writev ::
  "(nat \<Rightarrow> byte) \<Rightarrow> bool \<Rightarrow> bool \<Rightarrow> bool \<Rightarrow> int \<Rightarrow> network \<Rightarrow> resid_t \<Rightarrow> byte list list \<Rightarrow> ((bool \<times> byte list) \<times> network) res option" where
  "net_writev g mem_new mem_grow ctl ret net rid iov =
     with_conn net rid (\<lambda>c. run_bind (agN_writev g mem_new mem_grow ctl ret c iov) (\<lambda>(ok, sent, c). Some (Inr ((ok, sent), c))))"

text \<open>Room for \<open>len\<close> bytes at the end of the write buffer; the buffer is used without a check that there is one.\<close>

definition agN_buffer ::
  "(nat \<Rightarrow> byte) \<Rightarrow> bool \<Rightarrow> bool \<Rightarrow> bool \<Rightarrow> network \<Rightarrow> resid_t \<Rightarrow> nat \<Rightarrow> (nat option \<times> network) res option" where
  "agN_buffer g mem_new mem_grow ctl net rid len =
     with_conn net rid (\<lambda>c.
       case c of
         None \<Rightarrow> Some (Inr (None, None))
       | Some c \<Rightarrow>
           if c_status c \<noteq> cs_connecting \<and> c_status c \<noteq> cs_connected then Some (Inr (None, Some c))
           else case (case c_wbuf c of None \<Rightarrow> agB_new g mem_new DEFAULT_BUFFER_SIZE | Some b \<Rightarrow> Some b) of
             None \<Rightarrow> Some (Inl NullDeref)
           | Some b \<Rightarrow>
               run_bind (agB_buffer g mem_grow b len) (\<lambda>(ptr, b).
                 Some (Inr (ptr, Some (snd (conn_set_event ctl (c\<lparr>c_wbuf := Some b\<rparr>) (EPOLLIN + EPOLLOUT)))))))"

section \<open>The end of a network\<close>

fun close_all :: "nat \<Rightarrow> bool \<Rightarrow> resid_t \<Rightarrow> network \<Rightarrow> network res option" where
  "close_all 0 ctl rid net = None"
| "close_all (Suc fuel) ctl rid net =
     run_bind (Some (agR_next (nw_lrm net) rid)) (\<lambda>rid.
       if rid = INVALID_ID then Some (Inr net)
       else run_bind (Some (agN_close ctl net rid)) (close_all fuel ctl rid))"

text \<open>The network as it is when its memory is freed. The loop over the closing list is that of
  \<open>cleanClient\<close>. \<open>epoll_ctl\<close> fails on the closed descriptor.\<close>

definition agN_free :: "nat \<Rightarrow> network \<Rightarrow> network res option" where
  "agN_free fuel net = run_bind (close_all fuel False INVALID_ID net) (cleanClient fuel)"

section \<open>The single instance\<close>

type_synonym net_instance = "network option"

definition on_instance ::
  "'a \<Rightarrow> (network \<Rightarrow> ('a \<times> network) res option) \<Rightarrow> net_instance \<Rightarrow> ('a \<times> net_instance) res option" where
  "on_instance r0 f inst =
     (case inst of
        None \<Rightarrow> Some (Inr (r0, None))
      | Some net \<Rightarrow> run_bind (f net) (\<lambda>(r, net). Some (Inr (r, Some net))))"

definition agN_init :: "bool \<Rightarrow> int \<Rightarrow> bool \<Rightarrow> (nat \<Rightarrow> conn) \<Rightarrow> net_instance \<Rightarrow> int \<times> net_instance" where
  "agN_init efd_ok mx stop0 mem inst =
     (case inst of
        Some net \<Rightarrow> (- 1, Some net)
      | None \<Rightarrow> (case agN_new efd_ok mx stop0 mem of None \<Rightarrow> (- 1, None) | Some net \<Rightarrow> (0, Some net)))"

definition agN_loop_inst :: "nat \<Rightarrow> 'w surround \<Rightarrow> round_input list \<Rightarrow> 'w net_hooks \<times> 'w \<Rightarrow> net_instance \<Rightarrow> ((int \<times> 'w net_hooks \<times> 'w) \<times> net_instance) res option" where
  "agN_loop_inst fuel sr ins hw inst =
     on_instance (- 1, hw) (\<lambda>net. run_bind (agN_loop fuel sr ins (fst hw, net, snd hw)) (\<lambda>(r, hk, net, w).
       Some (Inr ((r, hk, w), net)))) inst"

definition agN_stop_inst :: "net_instance \<Rightarrow> net_instance" where
  "agN_stop_inst inst = map_option agN_stop inst"

definition agN_free_inst :: "nat \<Rightarrow> net_instance \<Rightarrow> net_instance res option" where
  "agN_free_inst fuel inst =
     (case inst of None \<Rightarrow> Some (Inr None) | Some net \<Rightarrow> run_bind (agN_free fuel net) (\<lambda>_. Some (Inr None)))"

definition agN_connect_inst :: "nat \<Rightarrow> bool \<Rightarrow> (int \<times> bool) option \<Rightarrow> nat \<Rightarrow> nat \<Rightarrow> net_instance \<Rightarrow> (resid_t \<times> net_instance) res option" where
  "agN_connect_inst fuel ctl fd handler ctx = on_instance INVALID_ID (\<lambda>net. agN_connect fuel ctl net fd handler ctx)"

definition agN_listen_inst :: "bool \<Rightarrow> int option \<Rightarrow> nat \<Rightarrow> nat \<Rightarrow> net_instance \<Rightarrow> (resid_t \<times> net_instance) res option" where
  "agN_listen_inst ctl fd handler ctx = on_instance INVALID_ID (\<lambda>net. Some (agN_listen ctl net fd handler ctx))"

definition agN_attach_inst :: "bool \<Rightarrow> int \<Rightarrow> nat \<Rightarrow> nat \<Rightarrow> net_instance \<Rightarrow> (resid_t \<times> net_instance) res option" where
  "agN_attach_inst ctl fd handler ctx = on_instance INVALID_ID (\<lambda>net. Some (agN_attach ctl net fd handler ctx))"

definition agN_detach_inst :: "bool \<Rightarrow> resid_t \<Rightarrow> net_instance \<Rightarrow> (int \<times> net_instance) res option" where
  "agN_detach_inst ctl rid = on_instance (- 1) (\<lambda>net. Some (agN_detach ctl net rid))"

text \<open>Without a network nothing is sent and the status is -1.\<close>

definition agN_send_inst :: "(nat \<Rightarrow> byte) \<Rightarrow> bool \<Rightarrow> bool \<Rightarrow> bool \<Rightarrow> int \<Rightarrow> resid_t \<Rightarrow> byte list \<Rightarrow> net_instance \<Rightarrow> ((bool \<times> byte list) \<times> net_instance) res option" where
  "agN_send_inst g mem_new mem_grow ctl ret rid buff = on_instance (False, []) (\<lambda>net. net_send g mem_new mem_grow ctl ret net rid buff)"

definition agN_writev_inst :: "(nat \<Rightarrow> byte) \<Rightarrow> bool \<Rightarrow> bool \<Rightarrow> bool \<Rightarrow> int \<Rightarrow> resid_t \<Rightarrow> byte list list \<Rightarrow> net_instance \<Rightarrow> ((bool \<times> byte list) \<times> net_instance) res option" where
  "agN_writev_inst g mem_new mem_grow ctl ret rid iov = on_instance (False, []) (\<lambda>net. net_writev g mem_new mem_grow ctl ret net rid iov)"

definition agN_close_inst :: "bool \<Rightarrow> resid_t \<Rightarrow> net_instance \<Rightarrow> (unit \<times> net_instance) res option" where
  "agN_close_inst ctl rid = on_instance () (\<lambda>net. run_bind (Some (agN_close ctl net rid)) (\<lambda>net. Some (Inr ((), net))))"

definition agN_set_handler_inst :: "nat \<Rightarrow> bool \<Rightarrow> resid_t \<Rightarrow> nat \<Rightarrow> nat \<Rightarrow> net_instance \<Rightarrow> (bool \<times> net_instance) res option" where
  "agN_set_handler_inst fuel ctl rid handler ctx = on_instance False (\<lambda>net. agN_set_handler fuel ctl net rid handler ctx)"

definition agN_get_fd_inst :: "resid_t \<Rightarrow> net_instance \<Rightarrow> int res" where
  "agN_get_fd_inst rid inst = (case inst of None \<Rightarrow> Inr (- 1) | Some net \<Rightarrow> agN_get_fd net rid)"

text \<open>The hooks belong to the instance.\<close>

definition agN_set_timer_inst :: "(int \<Rightarrow> 'c \<Rightarrow> 'w net_state \<Rightarrow> 'w net_state res option) option \<Rightarrow> 'c \<Rightarrow> (network \<times> 'w net_hooks) option \<Rightarrow> (network \<times> 'w net_hooks) option" where
  "agN_set_timer_inst cb ctx inst = map_option (\<lambda>(net, hk). (net, agN_set_timer hk cb ctx)) inst"

definition agN_set_tick_inst :: "('c \<Rightarrow> 'w net_state \<Rightarrow> 'w net_state res option) option \<Rightarrow> 'c \<Rightarrow> (network \<times> 'w net_hooks) option \<Rightarrow> (network \<times> 'w net_hooks) option" where
  "agN_set_tick_inst cb ctx inst = map_option (\<lambda>(net, hk). (net, agN_set_tick hk cb ctx)) inst"

section \<open>Waiting\<close>

text \<open>Whatever the time, the loop waits for a whole second: the time until the next full second is at most
  that, and less is rounded up.\<close>

lemma loop_timeout_second:
  assumes "0 \<le> snd now" and "snd now < 1000 * 1000"
  shows "loop_timeout now = 1000"
proof -
  have "timesub (fst now + 1, 0) now \<le> 1000"
    using assms by (cases "snd now = 0") (auto simp: timesub_def Let_def zdiv_mono1[of _ 1000000 1000])
  then show ?thesis by (simp add: loop_timeout_def Let_def)
qed

section \<open>Closing everything\<close>

lemma next_used_cases:
  assumes "\<And>i. i < length rs \<Longrightarrow> res_id (rs ! i) \<noteq> INVALID_ID"
  obtains (none) "next_used rs = INVALID_ID" and "\<And>i. i < length rs \<Longrightarrow> res_next (rs ! i) \<noteq> InUse"
  | (slot) j where "j < length rs" and "res_next (rs ! j) = InUse" and "next_used rs = res_id (rs ! j)"
      and "\<And>i. i < j \<Longrightarrow> res_next (rs ! i) \<noteq> InUse"
  using assms
proof (induction rs arbitrary: thesis)
  case Nil
  then show ?case by simp
next
  case (Cons r rs)
  show ?case
  proof (cases "res_next r = InUse")
    case True
    then show ?thesis using Cons.prems(2)[of 0] by simp
  next
    case False
    have ids: "res_id (rs ! i) \<noteq> INVALID_ID" if "i < length rs" for i
      using Cons.prems(3)[of "Suc i"] that by simp
    show ?thesis
    proof (rule Cons.IH[OF _ _ ids])
      assume "next_used rs = INVALID_ID" "\<And>i. i < length rs \<Longrightarrow> res_next (rs ! i) \<noteq> InUse"
      then show thesis using Cons.prems(1) False by (simp add: nth_Cons split: nat.splits)
    next
      fix j assume "j < length rs" "res_next (rs ! j) = InUse" "next_used rs = res_id (rs ! j)"
        "\<And>i. i < j \<Longrightarrow> res_next (rs ! i) \<noteq> InUse"
      then show thesis using Cons.prems(2)[of "Suc j"] False by (auto simp: nth_Cons split: nat.splits)
    qed
  qed
qed

lemma idle_chain_lt: "idle_chain rs p is \<Longrightarrow> j \<in> set is \<Longrightarrow> j < length rs"
  by (induction rs p "is" rule: idle_chain.induct) auto

lemma agR_next_slot:
  assumes "lrm_ok lrm idle" and "j < length (lrm_data lrm)"
  shows "agR_next lrm (res_id (lrm_data lrm ! j)) = Inr (next_used (drop (Suc j) (lrm_data lrm)))"
proof -
  let ?id = "res_id (lrm_data lrm ! j)"
  have m: "0 < lrm_max lrm" "lrm_max lrm \<le> INT_MAX" "?id \<noteq> INVALID_ID"
    using assms by (auto simp: lrm_ok_def)
  have j: "unat ?id mod nat (lrm_max lrm) = j"
    using assms by (auto simp: lrm_ok_def)
  have "sint (?id mod word_of_int (lrm_max lrm)) = int j"
    using rid_mod[OF m(1,2), of ?id] j by simp
  then show ?thesis using m by (simp add: agR_next_def nat_add_distrib)
qed

lemma close_all_ok:
  assumes "net_ok net idle xs" and "agR_next (nw_lrm net) rid = Inr (next_used (drop k (lrm_data (nw_lrm net))))"
    and "length (lrm_data (nw_lrm net)) - k < fuel"
  shows "\<exists>net' ys. close_all fuel ctl rid net = Some (Inr net') \<and> net_ok net' idle ys \<and> nw_lrm net' = nw_lrm net
    \<and> nw_shut net' = nw_shut net \<and> (\<forall>j. c_fd (nw_conn net' j) = c_fd (nw_conn net j))
    \<and> set ys = set xs \<union> {j. k \<le> j \<and> j < length (lrm_data (nw_lrm net)) \<and> j \<notin> set idle}"
  using assms
proof (induction fuel arbitrary: net rid k xs)
  case (Suc fuel)
  let ?d = "lrm_data (nw_lrm net)"
  have lrm: "lrm_ok (nw_lrm net) idle" using Suc.prems(1) by (simp add: net_ok_def)
  have ids: "res_id (drop k ?d ! i) \<noteq> INVALID_ID" if "i < length (drop k ?d)" for i
    using lrm that by (auto simp: lrm_ok_def)
  have idle: "res_next (?d ! j) = InUse \<longleftrightarrow> j \<notin> set idle" if "j < length ?d" for j
    using lrm that by (auto simp: lrm_ok_def)
  show ?case
  proof (rule next_used_cases[OF ids])
    assume n: "next_used (drop k ?d) = INVALID_ID" "\<And>i. i < length (drop k ?d) \<Longrightarrow> res_next (drop k ?d ! i) \<noteq> InUse"
    have "j \<in> set idle" if "k \<le> j" "j < length ?d" for j
      using n(2)[of "j - k"] that idle[of j] by simp
    then show ?thesis using Suc.prems(1,2) n(1) by auto
  next
    fix i assume i: "i < length (drop k ?d)" "res_next (drop k ?d ! i) = InUse" "next_used (drop k ?d) = res_id (drop k ?d ! i)"
      "\<And>j. j < i \<Longrightarrow> res_next (drop k ?d ! j) \<noteq> InUse"
    let ?j = "k + i"
    let ?id = "res_id (?d ! ?j)"
    let ?xs = "if ?j \<in> set xs then xs else ?j # xs"
    have j: "?j < length ?d" "?j \<notin> set idle" "?id \<noteq> INVALID_ID"
      using i(1,2) idle[of ?j] ids[OF i(1)] by auto
    obtain net1 where n1: "agN_close ctl net ?id = Inr net1" "net_ok net1 idle ?xs" "nw_lrm net1 = nw_lrm net"
      "nw_shut net1 = nw_shut net" "\<And>j. c_fd (nw_conn net1 j) = c_fd (nw_conn net j)"
      using agN_close_ok[OF Suc.prems(1) j(1,2)] by blast
    have nx: "agR_next (nw_lrm net1) ?id = Inr (next_used (drop (Suc ?j) (lrm_data (nw_lrm net1))))"
      using agR_next_slot[OF lrm j(1)] n1(3) by simp
    have fuel: "length (lrm_data (nw_lrm net1)) - Suc ?j < fuel"
      using Suc.prems(3) j(1) n1(3) by simp
    obtain net' ys where r: "close_all fuel ctl ?id net1 = Some (Inr net')" "net_ok net' idle ys" "nw_lrm net' = nw_lrm net"
      "nw_shut net' = nw_shut net" "\<And>j. c_fd (nw_conn net' j) = c_fd (nw_conn net j)"
      "set ys = set ?xs \<union> {m. Suc ?j \<le> m \<and> m < length ?d \<and> m \<notin> set idle}"
      using Suc.IH[OF n1(2) nx fuel] unfolding n1(3-5) by blast
    have skip: "m \<in> set idle" if "k \<le> m" "m < ?j" for m
      using i(4)[of "m - k"] that idle[of m] j(1) by auto
    have eq: "m \<in> set ?xs \<union> {m. Suc ?j \<le> m \<and> m < length ?d \<and> m \<notin> set idle} \<longleftrightarrow>
        m \<in> set xs \<union> {m. k \<le> m \<and> m < length ?d \<and> m \<notin> set idle}" for m
      using j(1,2) skip[of m] by (cases m ?j rule: linorder_cases) auto
    have "set ys = set xs \<union> {m. k \<le> m \<and> m < length ?d \<and> m \<notin> set idle}"
      unfolding r(6) by (rule set_eqI) (rule eq)
    then show ?thesis
      using Suc.prems(2) i(1,3) j(3) n1(1,3) r by auto
  qed
qed simp

section \<open>Serving input\<close>

lemma upd_conn_twice [simp]: "upd_conn (upd_conn net i c) i c' = upd_conn net i c'" "upd_conn net i (nw_conn net i) = net"
  by (simp_all add: upd_conn_def)

text \<open>The contract of a message handler \<open>cb\<close>, registered under the number \<open>hn\<close>, that serves the connection in
  slot \<open>i\<close>: it leaves incomplete messages alone and takes complete ones off one by one; it may act
  on the rest of the network, but does not touch the slot it is called for.\<close>

locale served = framing +
  fixes sr :: "'w surround"
    and i :: nat
    and hn :: nat
    and cb :: "resid_t \<Rightarrow> byte list \<Rightarrow> nat \<Rightarrow> 'w net_state \<Rightarrow> (nat \<times> 'w net_state) res option"
    and good :: "byte list \<Rightarrow> bool"
    and live :: "nat \<Rightarrow> resid_t \<Rightarrow> nat \<Rightarrow> 'w net_state \<Rightarrow> bool"
    and step :: "byte list \<Rightarrow> 'w net_state \<Rightarrow> 'w net_state"
  assumes registered: "hn \<noteq> 0" "h_message (sr_handlers sr hn) = Some cb"
    and cb_waits: "live n rid ctx (net, w) \<Longrightarrow> frame d = 0 \<Longrightarrow>
      cb rid d ctx (upd_conn net i c, w) = Some (Inr (0, upd_conn net i c, w))"
    and cb_takes: "live (Suc n) rid ctx (net, w) \<Longrightarrow> 0 < frame d \<Longrightarrow> good (take (frame d) d) \<Longrightarrow>
      step (take (frame d) d) (net, w) = (net', w') \<Longrightarrow>
      cb rid d ctx (upd_conn net i c, w) = Some (Inr (frame d, upd_conn net' i c, w')) \<and> nw_conn net' i = nw_conn net i"
    and cb_keeps: "live (Suc n) rid ctx nw \<Longrightarrow> good d \<Longrightarrow> live n rid ctx (step d nw)"
begin

lemma msg_handler:
  assumes "c_handler c = hn"
  shows "msg_handlers sr i c = Some (\<lambda>data (c, net, w).
       run_bind (cb (c_id c) data (c_ctx c) (upd_conn net i c, w)) (\<lambda>(s, net', w).
         Some (Inr (s, nw_conn net' i, upd_conn net' i (nw_conn net i), w))))"
  using assms registered by (auto simp: msg_handlers_def handler_of_def)

end

sublocale served \<subseteq> fh: framed_handler frame "msg_handlers sr i" good
    "\<lambda>n c nw. c_handler c = hn \<and> live n (c_id c) (c_ctx c) nw" step
proof (unfold_locales, goal_cases)
  case (1 n c w)
  then show ?case by (simp add: msg_handler)
next
  case (2 n c w m d)
  then show ?case by (cases w) (auto simp: msg_handler cb_waits)
next
  case (3 n c w m d)
  obtain net x where w: "w = (net, x)" by (cases w)
  obtain net' x' where s: "step (take (frame d) d) (net, x) = (net', x')"
    by (cases "step (take (frame d) d) (net, x)")
  have "cb (c_id c) d (c_ctx c) (upd_conn net i c, x) = Some (Inr (frame d, upd_conn net' i c, x'))"
    and keep: "nw_conn net' i = nw_conn net i"
    using cb_takes[OF _ 3(3,4) s, of n "c_id c" "c_ctx c" c] 3(1) w by simp_all
  moreover have "upd_conn net' i (nw_conn net i) = net'" unfolding keep[symmetric] by simp
  ultimately show ?case using 3(1,2) s by (auto simp: w msg_handler)
next
  case (4 n c w d)
  then show ?case by (simp add: cb_keeps)
qed simp

context served
begin

lemma read_event_frames:
  assumes "c_handler (nw_conn net i) = hn" and "live (length fs + n) (c_id (nw_conn net i)) (c_ctx (nw_conn net i)) (net, w)"
    and "conn_ok (nw_conn net i)" and "c_status (nw_conn net i) = cs_connected"
    and "k_recv k = map Data chunks @ [WouldBlock]" and "length (concat chunks) < 1024 * 10"
    and "length (rd_pending (nw_conn net i)) + length (concat chunks) \<le> 2 ^ 63"
    and "cut_frames frame (rd_pending (nw_conn net i)) = ([], rd_pending (nw_conn net i))"
    and "cut_frames frame (rd_pending (nw_conn net i) @ concat chunks) = (fs, r)" and "list_all good fs"
    and "fold step fs (net, w) = (net', w')"
  shows "\<exists>b. read_event sr k i (net, w) = Some (Inr (upd_conn net' i ((nw_conn net i)\<lparr>c_rbuf := b\<rparr>), w'))
    \<and> conn_ok ((nw_conn net i)\<lparr>c_rbuf := b\<rparr>) \<and> rd_pending ((nw_conn net i)\<lparr>c_rbuf := b\<rparr>) = r"
proof -
  have bits: "0 + length (concat chunks) < 1024 * 10" using assms(6) by simp
  from fh.read_loop_frames[OF assms(3,4) bits assms(7-9) _ assms(10), of n "(net, w)" "sr_mem sr"] assms(1,2)
  obtain b where b: "read_conn_loop (sr_mem sr) (msg_handlers sr i) 0 (k_recv k) (nw_conn net i, net, w) =
      Some (Inr (Done, (nw_conn net i)\<lparr>c_rbuf := b\<rparr>, net', w'))"
    "conn_ok ((nw_conn net i)\<lparr>c_rbuf := b\<rparr>)" "rd_pending ((nw_conn net i)\<lparr>c_rbuf := b\<rparr>) = r"
    by (auto simp: assms(5,11))
  then show ?thesis
    using assms(4) by (auto simp: read_event_def do_conn_read_def)
qed

text \<open>A tick without active connections and without hooks, in which the connection has input.\<close>

lemma tick_reads:
  assumes "c_handler (nw_conn net i) = hn" and "live (length fs + n) (c_id (nw_conn net i)) (c_ctx (nw_conn net i)) (net, w)"
    and "conn_ok (nw_conn net i)" and "c_status (nw_conn net i) = cs_connected"
    and "k_recv (ks 0) = map Data chunks @ [WouldBlock]" and "length (concat chunks) < 1024 * 10"
    and "length (rd_pending (nw_conn net i)) + length (concat chunks) \<le> 2 ^ 63"
    and "cut_frames frame (rd_pending (nw_conn net i)) = ([], rd_pending (nw_conn net i))"
    and "cut_frames frame (rd_pending (nw_conn net i) @ concat chunks) = (fs, r)" and "list_all good fs"
    and "fold step fs (net, w) = (net', w')" and "nw_closing net' = None"
    and "nw_active net = None" and "\<not> nw_stop net" and "tick_cb hk = None" and "timer_cb hk = None"
  shows "\<exists>b hk'. agN_tick (Suc fuel) sr ks 1 [(i, EPOLLIN)] now hk (net, w) =
      Some (Inr (1, hk', upd_conn net' i ((nw_conn net i)\<lparr>c_rbuf := b\<rparr>), w'))
    \<and> conn_ok ((nw_conn net i)\<lparr>c_rbuf := b\<rparr>) \<and> rd_pending ((nw_conn net i)\<lparr>c_rbuf := b\<rparr>) = r"
proof -
  obtain b where b: "read_event sr (ks 0) i (net, w) = Some (Inr (upd_conn net' i ((nw_conn net i)\<lparr>c_rbuf := b\<rparr>), w'))"
    "conn_ok ((nw_conn net i)\<lparr>c_rbuf := b\<rparr>)" "rd_pending ((nw_conn net i)\<lparr>c_rbuf := b\<rparr>) = r"
    using read_event_frames[OF assms(1-11)] by blast
  have "\<exists>hk'. run_timer now hk (net, w) = Some (Inr (hk', net, w))"
    using assms(16) by (cases now; cases "timer_last hk < the now") (auto simp: run_timer_def)
  then obtain hk' where "run_timer now hk (net, w) = Some (Inr (hk', net, w))" by blast
  moreover have "serve_event sr (ks 0) i EPOLLIN (net, w) = Some (Inr (upd_conn net' i ((nw_conn net i)\<lparr>c_rbuf := b\<rparr>), w'))"
    using b(1) assms(4) by (simp add: serve_event_def do_conn_event_def EPOLLIN_def EPOLLOUT_def EPOLLERR_def)
  ultimately have "agN_tick (Suc fuel) sr ks 1 [(i, EPOLLIN)] now hk (net, w) =
      Some (Inr (1, hk', upd_conn net' i ((nw_conn net i)\<lparr>c_rbuf := b\<rparr>), w'))"
    using assms(12-15) by (simp add: agN_tick_def)
  with b(2,3) show ?thesis by blast
qed

end

section \<open>Properties\<close>

text \<open>C36: \<open>_agN_free\<close> leaves nothing open: it returns, every slot is idle afterwards, and the descriptor of every
  connection that was in use, detached ones excepted, has been closed exactly once. (Ids are assumed not
  to wrap.)\<close>

theorem agN_free_closes_all:
  assumes "net_ok net idle xs" and "length (lrm_data (nw_lrm net)) < fuel"
    and "\<And>j. j < length (lrm_data (nw_lrm net)) \<Longrightarrow>
      unat (res_id (lrm_data (nw_lrm net) ! j)) + 2 * nat (lrm_max (nw_lrm net)) < 2 ^ 32"
  shows "\<exists>net' ys. agN_free fuel net = Some (Inr net') \<and> net_ok net' (rev ys @ idle) []
    \<and> set (rev ys @ idle) = {..<length (lrm_data (nw_lrm net))} \<and> distinct (rev ys @ idle)
    \<and> nw_shut net' = nw_shut net @ filter (\<lambda>fd. 0 \<le> fd) (map (\<lambda>j. c_fd (nw_conn net j)) ys)"
proof -
  let ?n = "length (lrm_data (nw_lrm net))"
  have lrm: "lrm_ok (nw_lrm net) idle" using assms(1) by (simp add: net_ok_def)
  then have ch: "idle_chain (lrm_data (nw_lrm net)) (lrm_idle (nw_lrm net)) idle" by (simp add: lrm_ok_def)
  have "agR_next (nw_lrm net) INVALID_ID = Inr (next_used (drop 0 (lrm_data (nw_lrm net))))"
    by (simp add: agR_next_def)
  from close_all_ok[OF assms(1) this, of fuel False] assms(2) obtain net1 ys where
    n1: "close_all fuel False INVALID_ID net = Some (Inr net1)" "net_ok net1 idle ys" "nw_lrm net1 = nw_lrm net"
      "nw_shut net1 = nw_shut net" "\<And>j. c_fd (nw_conn net1 j) = c_fd (nw_conn net j)"
      "set ys = set xs \<union> {j. 0 \<le> j \<and> j < ?n \<and> j \<notin> set idle}" by auto
  have ys: "distinct ys" "set ys \<subseteq> {..<?n}" "set ys \<inter> set idle = {}"
    using n1(2,3) by (auto simp: net_ok_def)
  have "length ys \<le> ?n" using card_mono[OF _ ys(2)] distinct_card[OF ys(1)] by simp
  then have "length ys < fuel" using assms(2) by simp
  moreover have "unat (c_id (nw_conn net1 j)) + 2 * nat (lrm_max (nw_lrm net1)) < 2 ^ 32" if "j \<in> set ys" for j
    using that ys assms(3)[of j] n1(2,3) by (auto simp: net_ok_def)
  ultimately obtain net' where n2: "cleanClient fuel net1 = Some (Inr net')" "net_ok net' (rev ys @ idle) []"
    "nw_shut net' = nw_shut net1 @ filter (\<lambda>fd. 0 \<le> fd) (map (\<lambda>i. c_fd (nw_conn net1 i)) ys)"
    using cleanClient_ok[OF n1(2), of fuel] by blast
  have "agN_free fuel net = Some (Inr net')" using n1(1) n2(1) by (simp add: agN_free_def)
  moreover have "set idle \<subseteq> {..<?n}" "distinct idle" using lrm idle_chain_lt[OF ch] unfolding lrm_ok_def by blast+
  then have "set (rev ys @ idle) = {..<?n}" "distinct (rev ys @ idle)" using n1(6) ys by auto
  ultimately show ?thesis using n2(2,3) n1(4,5) by auto
qed

lemma net_example_data:
  "lrm_data (nw_lrm net_example) = [\<lparr>res_id = 4, res_next = InUse\<rparr>, \<lparr>res_id = 1, res_next = ListEnd\<rparr>]"
  "lrm_max (nw_lrm net_example) = 2" "nw_shut net_example = []" "c_fd (nw_conn net_example i) = 5"
  by (simp_all add: net_example_def lrm_example_def conn_example_def)

theorem agN_free_closes_all_witness:
  "\<exists>net'. agN_free 3 net_example = Some (Inr net') \<and> nw_shut net' = [5]"
proof -
  have "unat (res_id (lrm_data (nw_lrm net_example) ! j)) + 2 * nat (lrm_max (nw_lrm net_example)) < 2 ^ 32"
    if "j < length (lrm_data (nw_lrm net_example))" for j
    using that by (auto simp: net_example_data less_Suc_eq)
  from agN_free_closes_all[OF net_example_ok, of 3, OF _ this] obtain net' ys where
    n: "agN_free 3 net_example = Some (Inr net')" "insert (Suc 0) (set ys) = {..<Suc (Suc 0)}" "distinct ys" "Suc 0 \<notin> set ys"
    "nw_shut net' = map (\<lambda>j. 5) ys"
    by (auto simp: net_example_data)
  have "set ys = insert (Suc 0) (set ys) - {Suc 0}" using n(4) by simp
  also have "\<dots> = {0}" unfolding n(2) by (auto simp: lessThan_Suc)
  finally have "set ys = {0}" .
  then have "length ys = 1" using n(3) distinct_card[of ys] by simp
  then have "ys = [0]" using \<open>set ys = {0}\<close> by (cases ys) auto
  then show ?thesis using n(1,5) by simp
qed

text \<open>Setting the handler of a connection that is already closing (the gateway does not ask when a second
  login of a player displaces a connection) links the closing list to the active list through the shared member
  \<open>next\<close>: the end of the tick frees a connection that nobody has closed.\<close>

theorem handler_of_closing_frees_active:
  assumes "lrm_ok (nw_lrm net) idle" and "i < length (lrm_data (nw_lrm net))" and "i \<notin> set idle"
    and "j < length (lrm_data (nw_lrm net))" and "j \<notin> set idle" and "i \<noteq> j"
    and "c_id (nw_conn net i) = res_id (lrm_data (nw_lrm net) ! i)" and "c_id (nw_conn net j) = res_id (lrm_data (nw_lrm net) ! j)"
    and "nw_closing net = Some i" and "c_next (nw_conn net i) = None" and "\<not> in_active_list (nw_conn net i)"
    and "nw_active net = Some j" and "c_next (nw_conn net j) = None" and "c_status (nw_conn net j) = cs_connected"
    and "c_status (nw_conn net i) = cs_closing" and "conn_ok (nw_conn net i)"
    and "unat (c_id (nw_conn net i)) + 2 * nat (lrm_max (nw_lrm net)) < 2 ^ 32"
    and "unat (c_id (nw_conn net j)) + 2 * nat (lrm_max (nw_lrm net)) < 2 ^ 32"
  shows "\<exists>ok net1 net2. agN_set_handler 3 ctl net (c_id (nw_conn net i)) hn ctx = Some (Inr (ok, net1))
    \<and> c_status (nw_conn net1 j) = cs_connected \<and> agR_get (nw_lrm net1) (c_id (nw_conn net j)) = Inr (Some j)
    \<and> cleanClient 3 net1 = Some (Inr net2) \<and> lrm_ok (nw_lrm net2) (j # i # idle)
    \<and> c_status (nw_conn net2 j) = cs_closed"
proof -
  let ?ci = "c_id (nw_conn net i)" and ?cj = "c_id (nw_conn net j)"
  let ?h = "(nw_conn net i)\<lparr>c_handler := hn, c_ctx := ctx, c_next := Some j, in_active_list := True\<rparr>"
  have get: "agR_get (nw_lrm net) ?ci = Inr (Some i)" "agR_get (nw_lrm net) ?cj = Inr (Some j)"
    using agR_get_iff[OF assms(1)] assms(2,4,7,8) by auto
  obtain ok c where c: "conn_set_event ctl ?h (if length (wr_pending ?h) = 0 then EPOLLIN else EPOLLIN + EPOLLOUT) = (ok, c)"
    by (cases "conn_set_event ctl ?h (if length (wr_pending ?h) = 0 then EPOLLIN else EPOLLIN + EPOLLOUT)")
  have cs: "c_next c = Some j" "c_id c = ?ci" "c_fd c = c_fd (nw_conn net i)"
    using c by (auto simp: conn_set_event_def split: if_splits)
  let ?net1 = "(upd_conn net i c)\<lparr>nw_active := Some i\<rparr>"
  have act: "network_active 3 (upd_conn net i ((nw_conn net i)\<lparr>c_handler := hn, c_ctx := ctx\<rparr>)) i =
      Some (Inr ((upd_conn net i ?h)\<lparr>nw_active := Some i\<rparr>))"
    using assms(6,10-13) by (simp add: network_active_def upd_conn_def numeral_3_eq_3 Let_def)
  have "conn_ok ?h" using assms(16) by (simp add: conn_ok_def)
  then have "agN_set_handler 3 ctl net ?ci hn ctx = Some (Inr (ok, ?net1))"
    using get(1) act c wbuf_size_ok[of ?h] by (simp add: agN_set_handler_def Let_def upd_conn_def)
  moreover obtain lrm1 where l1: "agR_free (nw_lrm net) ?ci = Inr lrm1" "lrm_ok lrm1 (i # idle)" "lrm_max lrm1 = lrm_max (nw_lrm net)"
    "length (lrm_data lrm1) = length (lrm_data (nw_lrm net))" "\<And>k. k \<noteq> i \<Longrightarrow> lrm_data lrm1 ! k = lrm_data (nw_lrm net) ! k"
    using agR_free_slot[OF assms(1-3,7,17)] by blast
  moreover obtain lrm2 where l2: "agR_free lrm1 ?cj = Inr lrm2" "lrm_ok lrm2 (j # i # idle)"
    using agR_free_slot[OF l1(2), of j ?cj] assms(4-6,8,18) l1(3-5) by auto
  ultimately show ?thesis
    using get(2) assms(6,9,13,14) cs by (auto simp: numeral_3_eq_3 do_close_def Let_def)
qed

definition lrm_full :: lrm where
  "lrm_full = lrm_example\<lparr>lrm_data := [\<lparr>res_id = 4, res_next = InUse\<rparr>, \<lparr>res_id = 1, res_next = InUse\<rparr>], lrm_idle := ListEnd\<rparr>"

definition net_crossed :: network where
  "net_crossed = net_example\<lparr>nw_lrm := lrm_full, nw_closing := Some 0, nw_active := Some 1,
     nw_conn := (\<lambda>_. conn_example)(0 := conn_example\<lparr>c_id := 4, c_status := cs_closing\<rparr>, 1 := conn_example\<lparr>in_active_list := True\<rparr>)\<rparr>"

theorem handler_of_closing_frees_active_witness:
  "\<exists>ok net1 net2. agN_set_handler 3 True net_crossed 4 1 0 = Some (Inr (ok, net1))
    \<and> agR_get (nw_lrm net1) 1 = Inr (Some 1) \<and> cleanClient 3 net1 = Some (Inr net2) \<and> c_status (nw_conn net2 1) = cs_closed"
proof -
  have "lrm_ok (nw_lrm net_crossed) []"
    using lrm_example_ok by (auto simp: lrm_ok_def lrm_full_def lrm_example_def net_crossed_def less_Suc_eq)
  moreover have d: "lrm_data (nw_lrm net_crossed) = [\<lparr>res_id = 4, res_next = InUse\<rparr>, \<lparr>res_id = 1, res_next = InUse\<rparr>]"
    "lrm_max (nw_lrm net_crossed) = 2"
    by (simp_all add: net_crossed_def lrm_full_def lrm_example_def)
  moreover have "nw_conn net_crossed 0 = conn_example\<lparr>c_id := 4, c_status := cs_closing\<rparr>"
    "nw_conn net_crossed (Suc 0) = conn_example\<lparr>in_active_list := True\<rparr>"
    "nw_closing net_crossed = Some 0" "nw_active net_crossed = Some (Suc 0)"
    by (simp_all add: net_crossed_def)
  ultimately show ?thesis
    using handler_of_closing_frees_active[of net_crossed "[]" 0 1 True 1 0]
    by (auto simp: conn_ok_def conn_example_def)
qed

end
