(* ===== verification/GwNet.thy ===== *)
theory GwNet
  imports GwRelay NetLoop
begin

text \<open>
  The relay of the gateway on the network: the handler of \<^verbatim>\<open>src/gateway/translate.c\<close> registered for a
  connection, called by the event loop of \<^verbatim>\<open>src/framework/network.c\<close>, with its actions carried out on the
  connections. It ties the theories \<open>NetLoop\<close> and \<open>GwRelay\<close> together: bytes that arrive from a client
  become bytes for a world.

  The actions of one call are carried out when the handler returns; nothing the handler computes depends
  on them. \<open>K n\<close> is what the kernel answers to the \<open>n\<close>th action: the bytes \<open>writev\<close> takes and
  whether \<open>epoll_ctl\<close> succeeds. \<open>gr_wire\<close> lists what the kernel took, with the descriptor.
\<close>

section \<open>Actions on the network\<close>

record gw_run =
  gr_gw :: gateway
  gr_calls :: nat
  gr_wire :: "(int \<times> byte list) list"

record gw_setup =
  gs_env :: env
  gs_mem :: "nat \<Rightarrow> byte"
  gs_kernel :: "nat \<Rightarrow> int \<times> bool"
  gs_fuel :: nat
  gs_header :: "resid_t \<Rightarrow> nat"

fun handler_number :: "handler \<Rightarrow> nat" where
  "handler_number AuthHandler = 1"
| "handler_number (TranslateHandler c) = 2"
| "handler_number (AuthServerHandler c) = 3"

fun handler_ctx :: "handler \<Rightarrow> nat" where
  "handler_ctx AuthHandler = 0"
| "handler_ctx (TranslateHandler c) = c"
| "handler_ctx (AuthServerHandler c) = c"

text \<open>A message is written as a vector of its header and its payload; \<open>gs_header\<close> is the size of the header
  on a connection.\<close>

definition perform :: "gw_setup \<Rightarrow> action \<Rightarrow> gw_run net_state \<Rightarrow> gw_run net_state res option" where
  "perform s a nr =
     (case nr of (net, r) \<Rightarrow>
        let (ret, ctl) = gs_kernel s (gr_calls r); r = r\<lparr>gr_calls := Suc (gr_calls r)\<rparr>
        in case a of
             Send rid b \<Rightarrow>
               run_bind (net_writev (gs_mem s) True True ctl ret net rid [take (gs_header s rid) b, drop (gs_header s rid) b]) (\<lambda>((_, sent), net).
               run_bind (Some (agN_get_fd net rid)) (\<lambda>fd.
                 Some (Inr (net, r\<lparr>gr_wire := gr_wire r @ [(fd, sent)]\<rparr>))))
           | Close rid \<Rightarrow> run_bind (Some (agN_close ctl net rid)) (\<lambda>net. Some (Inr (net, r)))
           | SetHandler rid h \<Rightarrow>
               run_bind (agN_set_handler (gs_fuel s) ctl net rid (handler_number h) (handler_ctx h)) (\<lambda>(_, net). Some (Inr (net, r))))"

fun perform_all :: "gw_setup \<Rightarrow> action list \<Rightarrow> gw_run net_state \<Rightarrow> gw_run net_state res option" where
  "perform_all s [] nr = Some (Inr nr)"
| "perform_all s (a # as) nr = run_bind (perform s a nr) (perform_all s as)"

section \<open>The handler of logged-in clients\<close>

definition translate_on_message :: "gw_setup \<Rightarrow> resid_t \<Rightarrow> byte list \<Rightarrow> nat \<Rightarrow> gw_run net_state \<Rightarrow> (nat \<times> gw_run net_state) res option" where
  "translate_on_message s rid data ctx nr =
     (case nr of (net, r) \<Rightarrow>
        run_bind (process_message (gs_env s) rid data ctx ((gr_gw r)\<lparr>gw_out := []\<rparr>)) (\<lambda>(n, g).
        run_bind (perform_all s (gw_out g) (net, r\<lparr>gr_gw := g\<lparr>gw_out := []\<rparr>\<rparr>)) (\<lambda>nr. Some (Inr (n, nr)))))"

definition translate_on_closed :: "gw_setup \<Rightarrow> resid_t \<Rightarrow> int \<Rightarrow> nat \<Rightarrow> gw_run net_state \<Rightarrow> gw_run net_state res option" where
  "translate_on_closed s rid err ctx nr =
     (case nr of (net, r) \<Rightarrow>
        run_bind (on_closed (gs_env s) rid ctx ((gr_gw r)\<lparr>gw_out := []\<rparr>)) (\<lambda>g.
          perform_all s (gw_out g) (net, r\<lparr>gr_gw := g\<lparr>gw_out := []\<rparr>\<rparr>)))"

definition translate_handle :: "gw_setup \<Rightarrow> gw_run net_handler" where
  "translate_handle s =
     \<lparr>h_accept = None, h_connected = None, h_closed = Some (translate_on_closed s), h_message = Some (translate_on_message s)\<rparr>"

text \<open>\<open>others\<close> are the handlers of the other modules.\<close>

definition gateway_surround :: "gw_setup \<Rightarrow> (nat \<Rightarrow> gw_run net_handler) \<Rightarrow> gw_run surround" where
  "gateway_surround s others =
     \<lparr>sr_handlers = others(2 := translate_handle s), sr_mem = gs_mem s,
      sr_put = (\<lambda>fd b r. r\<lparr>gr_wire := gr_wire r @ [(fd, b)]\<rparr>)\<rparr>"

section \<open>Requests of one client\<close>

text \<open>What the kernel has taken for a descriptor.\<close>

definition taken_for :: "int \<Rightarrow> gw_run \<Rightarrow> byte list" where
  "taken_for fd r = concat (map snd (filter (\<lambda>p. fst p = fd) (gr_wire r)))"

text \<open>A message that goes to the world: an AMF array, no login or logout, the command of no service.\<close>

definition request_ok :: "Backend list \<Rightarrow> byte list \<Rightarrow> bool" where
  "request_ok bs m \<longleftrightarrow> length m \<le> 10240 \<and>
     (\<exists>cmd flag n items. m = client_packet cmd flag (amf_wire (Some (AVarray n items)))
        \<and> amf_wf (Some (AVarray n items)) \<and> amf_exact (Some (AVarray n items))
        \<and> length (amf_strings (Some (AVarray n items))) \<le> STRING_REF_MAX
        \<and> (flag = 1 \<or> flag = 2) \<and> cmd \<noteq> C_LOGIN_REQUEST \<and> cmd \<noteq> C_LOGOUT_REQUEST \<and> backend_get bs cmd = None)"

text \<open>The message the world gets for it.\<close>

definition relayed :: "env \<Rightarrow> client \<Rightarrow> byte list \<Rightarrow> byte list" where
  "relayed e cl m =
     translate_packet (e_sn0 e) (cl_playerid cl) (ch_cmd (get_client_header m)) (ch_flag (get_client_header m))
       (drop client_header_size m)"

text \<open>Client \<open>cl\<close> at address \<open>a\<close> is logged in at a world whose connection is in slot \<open>j\<close>, up to its protocol flag,
  and the write buffer of that connection has room for \<open>n\<close> more messages.\<close>

definition relay_live :: "client \<Rightarrow> addr \<Rightarrow> Backend list \<Rightarrow> WorldConfig list \<Rightarrow> nat \<Rightarrow> nat \<Rightarrow> nat \<Rightarrow> resid_t \<Rightarrow> nat \<Rightarrow> gw_run net_state \<Rightarrow> bool" where
  "relay_live cl a bs ws i j n rid ctx nr \<longleftrightarrow>
     ctx = a \<and> a \<noteq> 0 \<and> rid = cl_conn cl \<and> i \<noteq> j
     \<and> cl_world cl \<noteq> INVALID_WORLD_ID \<and> world_is_valid ws (cl_world cl)
     \<and> (\<exists>f. ct_heap (gw_clients (gr_gw (snd nr))) a = Some (cl\<lparr>cl_protocol_flag := f\<rparr>))
     \<and> gw_out (gr_gw (snd nr)) = [] \<and> gw_backends (gr_gw (snd nr)) = bs \<and> gw_worlds (gr_gw (snd nr)) = ws
     \<and> agR_get (nw_lrm (fst nr)) (wc_conn (ws ! world_slot (cl_world cl))) = Inr (Some j)
     \<and> conn_ok (nw_conn (fst nr) j) \<and> c_status (nw_conn (fst nr) j) = cs_connected
     \<and> length (wr_pending (nw_conn (fst nr) j)) + n * 16384 \<le> 2 ^ 63"

definition relay_step :: "gw_setup \<Rightarrow> client \<Rightarrow> addr \<Rightarrow> byte list \<Rightarrow> gw_run net_state \<Rightarrow> gw_run net_state" where
  "relay_step s cl a m nr =
     (case translate_on_message s (cl_conn cl) m a nr of Some (Inr (_, nr)) \<Rightarrow> nr | _ \<Rightarrow> nr)"

lemma upd_conn_swap: "i \<noteq> j \<Longrightarrow> upd_conn (upd_conn net i c) j d = upd_conn (upd_conn net j d) i c"
  by (simp add: upd_conn_def fun_upd_twist)

text \<open>One message written to the connection in slot \<open>j\<close>, whatever is in slot \<open>i\<close>.\<close>

lemma perform_send:
  assumes "agR_get (nw_lrm net) rid = Inr (Some j)" and "conn_ok (nw_conn net j)" and "c_status (nw_conn net j) = cs_connected"
    and "length (wr_pending (nw_conn net j)) + length b \<le> 2 ^ 63" and "i \<noteq> j"
  shows "\<exists>d sent. (\<forall>c. perform s (Send rid b) (upd_conn net i c, r) =
      Some (Inr (upd_conn (upd_conn net j d) i c, r\<lparr>gr_calls := Suc (gr_calls r), gr_wire := gr_wire r @ [(c_fd d, sent)]\<rparr>)))
    \<and> sent @ wr_pending d = wr_pending (nw_conn net j) @ b \<and> conn_ok d \<and> c_status d = cs_connected
    \<and> c_fd d = c_fd (nw_conn net j)"
proof -
  let ?iov = "[take (gs_header s rid) b, drop (gs_header s rid) b]"
  obtain ret ctl where k: "gs_kernel s (gr_calls r) = (ret, ctl)" by (cases "gs_kernel s (gr_calls r)")
  have "length (wr_pending (nw_conn net j)) + length (concat ?iov) \<le> 2 ^ 63" using assms(4) by simp
  from agN_writev_stream[OF assms(2,3) this, of "gs_mem s" ctl ret] obtain sent d where
    d: "agN_writev (gs_mem s) True True ctl ret (Some (nw_conn net j)) ?iov = Some (Inr (True, sent, Some d))"
      "sent @ wr_pending d = wr_pending (nw_conn net j) @ b" "conn_ok d" "c_status d = cs_connected" "c_fd d = c_fd (nw_conn net j)"
    by auto
  have "perform s (Send rid b) (upd_conn net i c, r) =
      Some (Inr (upd_conn (upd_conn net j d) i c, r\<lparr>gr_calls := Suc (gr_calls r), gr_wire := gr_wire r @ [(c_fd d, sent)]\<rparr>))" for c
    using assms(1,5) d(1) k upd_conn_swap[OF assms(5), of net c d]
    by (simp add: perform_def net_writev_def with_conn_def agN_get_fd_def)
  with d(2-) show ?thesis by blast
qed

lemma relay_message:
  assumes "relay_live cl a bs ws i j (Suc n) rid ctx (net, r)" and "request_ok bs m"
  shows "\<exists>net' r'. nw_conn net' i = nw_conn net i
    \<and> (\<forall>c rest. translate_on_message s rid (m @ rest) ctx (upd_conn net i c, r) = Some (Inr (length m, upd_conn net' i c, r')))
    \<and> relay_live cl a bs ws i j n rid ctx (net', r')
    \<and> taken_for (c_fd (nw_conn net j)) r' @ wr_pending (nw_conn net' j) =
        taken_for (c_fd (nw_conn net j)) r @ wr_pending (nw_conn net j) @ relayed (gs_env s) cl m
    \<and> c_fd (nw_conn net' j) = c_fd (nw_conn net j)
    \<and> nw_closing net' = nw_closing net \<and> nw_active net' = nw_active net \<and> nw_lrm net' = nw_lrm net"
proof -
  obtain cmd flag k items where m: "m = client_packet cmd flag (amf_wire (Some (AVarray k items)))"
    and ok: "amf_wf (Some (AVarray k items))" "amf_exact (Some (AVarray k items))"
      "length (amf_strings (Some (AVarray k items))) \<le> STRING_REF_MAX"
    and fl: "flag = 1 \<or> flag = 2" "cmd \<noteq> C_LOGIN_REQUEST" "cmd \<noteq> C_LOGOUT_REQUEST" "backend_get bs cmd = None"
    and len: "length m \<le> 10240"
    using assms(2) unfolding request_ok_def by blast
  define msg where "msg = amf_wire (Some (AVarray k items))"
  have m': "m = client_packet cmd flag msg" by (simp only: m msg_def)
  then have l: "length m = client_header_size + length msg" by (simp add: client_packet_def)
  obtain f where f: "ct_heap (gw_clients (gr_gw r)) a = Some (cl\<lparr>cl_protocol_flag := f\<rparr>)"
    using assms(1) by (auto simp: relay_live_def)
  have lv: "ctx = a" "a \<noteq> 0" "rid = cl_conn cl" "i \<noteq> j" "cl_world cl \<noteq> INVALID_WORLD_ID" "world_is_valid ws (cl_world cl)"
    "gw_backends (gr_gw r) = bs" "gw_worlds (gr_gw r) = ws"
    "agR_get (nw_lrm net) (wc_conn (ws ! world_slot (cl_world cl))) = Inr (Some j)"
    "conn_ok (nw_conn net j)" "c_status (nw_conn net j) = cs_connected"
    "length (wr_pending (nw_conn net j)) + Suc n * 16384 \<le> 2 ^ 63"
    using assms(1) by (simp_all add: relay_live_def)
  let ?wc = "wc_conn (ws ! world_slot (cl_world cl))"
  let ?b = "translate_packet (e_sn0 (gs_env s)) (cl_playerid cl) cmd flag msg"
  let ?g = "store_client ((gr_gw r)\<lparr>gw_out := []\<rparr>) a (cl\<lparr>cl_protocol_flag := flag\<rparr>)"
  have b: "?b = relayed (gs_env s) cl m" "length ?b \<le> 16384"
    using len by (simp_all add: m' client_packet_def relayed_def translate_packet_def translate_header_size_def)
  have sz: "translate_header_size + length msg < 2 ^ 31"
    using len l by (simp add: translate_header_size_def)
  have pm: "process_message (gs_env s) rid (m @ rest) ctx ((gr_gw r)\<lparr>gw_out := []\<rparr>) = Some (Inr (length m, emit [Send ?wc ?b] ?g))" for rest
    using relayed_request[of "(gr_gw r)\<lparr>gw_out := []\<rparr>" a "cl\<lparr>cl_protocol_flag := f\<rparr>" rid k items msg flag cmd "gs_env s" rest]
      f lv ok fl sz by (simp add: m' msg_def)
  define r1 where "r1 = r\<lparr>gr_gw := ?g\<lparr>gw_out := []\<rparr>\<rparr>"
  obtain d sent where d: "\<And>c. perform s (Send ?wc ?b) (upd_conn net i c, r1) =
      Some (Inr (upd_conn (upd_conn net j d) i c, r1\<lparr>gr_calls := Suc (gr_calls r1), gr_wire := gr_wire r1 @ [(c_fd d, sent)]\<rparr>))"
    "sent @ wr_pending d = wr_pending (nw_conn net j) @ ?b" "conn_ok d" "c_status d = cs_connected" "c_fd d = c_fd (nw_conn net j)"
    using perform_send[OF lv(9-11) _ lv(4), of ?b s r1] lv(12) b(2) by auto
  let ?r = "r1\<lparr>gr_calls := Suc (gr_calls r1), gr_wire := gr_wire r1 @ [(c_fd d, sent)]\<rparr>"
  have "translate_on_message s rid (m @ rest) ctx (upd_conn net i c, r) =
      Some (Inr (length m, upd_conn (upd_conn net j d) i c, ?r))" for c rest
    using pm[of rest] d(1)[of c] by (simp add: translate_on_message_def emit_def store_client_def r1_def)
  moreover have "length (wr_pending d) \<le> length (wr_pending (nw_conn net j)) + length ?b"
    using arg_cong[OF d(2), of length] by simp
  then have "relay_live cl a bs ws i j n rid ctx (upd_conn net j d, ?r)"
    using lv d(3,4) b(2) by (auto simp: relay_live_def r1_def store_client_def)
  moreover have "taken_for (c_fd (nw_conn net j)) ?r @ wr_pending d =
      taken_for (c_fd (nw_conn net j)) r @ wr_pending (nw_conn net j) @ relayed (gs_env s) cl m"
    using d(2,5) b(1) by (simp add: taken_for_def r1_def)
  ultimately show ?thesis
    using lv(4) d(5) by (intro exI[of _ "upd_conn net j d"] exI[of _ ?r]) simp
qed

text \<open>The length of the first message, 0 while it is incomplete. A message that announces the length 0 is no
  message; it is cut off as one byte, which is no request.\<close>

definition request_frame :: "byte list \<Rightarrow> nat" where
  "request_frame d =
     (if length d < client_header_size \<or> length d < unat (ch_len (get_client_header d)) then 0
      else max 1 (unat (ch_len (get_client_header d))))"

lemma request_framing: "framing request_frame"
proof (unfold_locales, goal_cases)
  case (1 d)
  then show ?case by (simp add: request_frame_def client_header_size_def)
next
  case (2 d e)
  then show ?case
    by (simp add: request_frame_def get_client_header_def client_header_size_def ntohl_take split: if_splits)
qed

lemma request_cut: "request_ok bs m \<Longrightarrow> request_frame (m @ rest) = length m \<and> 0 < length m \<and> client_header_size \<le> length m"
proof -
  assume "request_ok bs m"
  then obtain cmd flag msg where m: "m = client_packet cmd flag msg" and l: "length m \<le> 10240"
    unfolding request_ok_def by blast
  have "client_header_size + length msg < 2 ^ 32" using l by (simp add: m client_packet_def client_header_size_def)
  from unat_size[OF this] show ?thesis
    by (simp add: m request_frame_def client_packet_def client_header_size_def)
qed

lemma cut_requests: "list_all (request_ok bs) ms \<Longrightarrow> cut_frames request_frame (concat ms) = (ms, [])"
proof (induction ms)
  case Nil
  then show ?case
    by (subst framing.cut_step[OF request_framing]) (simp add: request_frame_def client_header_size_def)
next
  case (Cons m ms)
  then show ?case
    using request_cut[of bs m "concat ms"] by (subst framing.cut_step[OF request_framing]) simp
qed

lemma relay_step_eq:
  assumes "relay_live cl a bs ws i j (Suc n) rid ctx (net, r)" and "request_ok bs m"
    and "relay_step s cl a m (net, r) = (net', r')"
  shows "nw_conn net' i = nw_conn net i"
    and "translate_on_message s rid (m @ rest) ctx (upd_conn net i c, r) = Some (Inr (length m, upd_conn net' i c, r'))"
    and "relay_live cl a bs ws i j n rid ctx (net', r')"
    and "taken_for (c_fd (nw_conn net j)) r' @ wr_pending (nw_conn net' j) =
        taken_for (c_fd (nw_conn net j)) r @ wr_pending (nw_conn net j) @ relayed (gs_env s) cl m"
    and "c_fd (nw_conn net' j) = c_fd (nw_conn net j)"
    and "nw_closing net' = nw_closing net" and "nw_lrm net' = nw_lrm net"
proof -
  obtain net1 r1 where n: "nw_conn net1 i = nw_conn net i"
    "\<And>c rest. translate_on_message s rid (m @ rest) ctx (upd_conn net i c, r) = Some (Inr (length m, upd_conn net1 i c, r1))"
    "relay_live cl a bs ws i j n rid ctx (net1, r1)"
    "taken_for (c_fd (nw_conn net j)) r1 @ wr_pending (nw_conn net1 j) =
        taken_for (c_fd (nw_conn net j)) r @ wr_pending (nw_conn net j) @ relayed (gs_env s) cl m"
    "c_fd (nw_conn net1 j) = c_fd (nw_conn net j)" "nw_closing net1 = nw_closing net" "nw_lrm net1 = nw_lrm net"
    using relay_message[OF assms(1,2)] by blast
  have "upd_conn net1 i (nw_conn net i) = net1" unfolding n(1)[symmetric] by simp
  then have "relay_step s cl a m (net, r) = (net1, r1)"
    using n(2)[of "[]" "nw_conn net i"] assms(1) by (simp add: relay_step_def relay_live_def)
  with assms(3) have eq: "net1 = net'" "r1 = r'" by simp_all
  show "translate_on_message s rid (m @ rest) ctx (upd_conn net i c, r) = Some (Inr (length m, upd_conn net' i c, r'))"
    using n(2)[of rest c] eq by simp
  show "nw_conn net' i = nw_conn net i" "relay_live cl a bs ws i j n rid ctx (net', r')"
    "taken_for (c_fd (nw_conn net j)) r' @ wr_pending (nw_conn net' j) =
        taken_for (c_fd (nw_conn net j)) r @ wr_pending (nw_conn net j) @ relayed (gs_env s) cl m"
    "c_fd (nw_conn net' j) = c_fd (nw_conn net j)" "nw_closing net' = nw_closing net" "nw_lrm net' = nw_lrm net"
    using n(1,3-7) unfolding eq by simp_all
qed

interpretation gr: served request_frame "gateway_surround s others" i 2 "translate_on_message s" "request_ok bs"
  "relay_live cl a bs ws i j" "relay_step s cl a"
  for s others i bs cl a ws j
proof (unfold_locales, goal_cases)
  case (1 d)
  show ?case by (rule framing.frame_le[OF request_framing])
next
  case (2 d e)
  then show ?case by (rule framing.frame_append[OF request_framing])
next
  case 3
  show ?case by simp
next
  case 4
  show ?case by (simp add: gateway_surround_def translate_handle_def)
next
  case (5 n rid ctx net w d c)
  then obtain f where "ct_heap (gw_clients (gr_gw w)) ctx = Some (cl\<lparr>cl_protocol_flag := f\<rparr>)" "ctx \<noteq> 0" "rid = cl_conn cl"
    and out: "gw_out (gr_gw w) = []"
    by (auto simp: relay_live_def)
  then have "process_message (gs_env s) rid d ctx ((gr_gw w)\<lparr>gw_out := []\<rparr>) = Some (Inr (0, (gr_gw w)\<lparr>gw_out := []\<rparr>))"
    using 5(2) by (auto simp: process_message_def with_client_def request_frame_def Let_def split: if_splits)
  then show ?case using out by (simp add: translate_on_message_def)
next
  case (6 n rid ctx net w d net' w' c)
  let ?m = "take (request_frame d) d"
  have "request_frame d \<le> length d" by (rule framing.frame_le[OF request_framing])
  then have "length ?m = request_frame d" "?m @ drop (request_frame d) d = d" by simp_all
  then show ?case
    using relay_step_eq(1)[OF 6(1,3,4)] relay_step_eq(2)[OF 6(1,3,4), of "drop (request_frame d) d" c] by simp
next
  case (7 n rid ctx nw d)
  obtain net r where nw: "nw = (net, r)" by (cases nw)
  obtain net' r' where "relay_step s cl a d (net, r) = (net', r')" by (cases "relay_step s cl a d (net, r)")
  then show ?case using relay_step_eq(3)[of cl a bs ws i j n rid ctx net r d s net' r'] 7 by (simp add: nw)
qed

lemma fold_relay:
  assumes "relay_live cl a bs ws i j (length ms + n) rid ctx (net, r)" and "list_all (request_ok bs) ms"
    and "fold (relay_step s cl a) ms (net, r) = (net', r')"
  shows "taken_for (c_fd (nw_conn net j)) r' @ wr_pending (nw_conn net' j) =
      taken_for (c_fd (nw_conn net j)) r @ wr_pending (nw_conn net j) @ concat (map (relayed (gs_env s) cl) ms)
    \<and> nw_closing net' = nw_closing net"
  using assms
proof (induction ms arbitrary: net r)
  case (Cons m ms)
  obtain net1 r1 where s: "relay_step s cl a m (net, r) = (net1, r1)" by (cases "relay_step s cl a m (net, r)")
  have live: "relay_live cl a bs ws i j (Suc (length ms + n)) rid ctx (net, r)" and m: "request_ok bs m"
    using Cons.prems by simp_all
  note st = relay_step_eq[OF live m s]
  from Cons.IH[OF st(3)] Cons.prems(2,3) s st(4-6) show ?case by simp
qed simp

text \<open>The messages for the world are cut apart again by their lengths.\<close>

lemma cut_relayed:
  assumes "list_all (request_ok bs) ms"
  shows "cut_frames translate_frame (concat (map (relayed e cl) ms)) = (map (relayed e cl) ms, [])"
  using assms
proof (induction ms)
  case Nil
  then show ?case by (subst tf.cut_step) (simp add: translate_frame_def translate_header_size_def)
next
  case (Cons m ms)
  have "length m \<le> 10240" using Cons.prems by (simp add: request_ok_def)
  then have sz: "translate_header_size + length (drop client_header_size m) < 2 ^ 32"
    by (simp add: translate_header_size_def)
  have "translate_frame (relayed e cl m @ rest) = length (relayed e cl m)" "0 < length (relayed e cl m)" for rest
    using translate_packet_frame(1,4)[OF sz] by (simp_all add: relayed_def translate_header_size_def)
  with Cons show ?case by (subst tf.cut_step) simp
qed

section \<open>An example\<close>

text \<open>The client of \<open>gateway_example\<close> on connection 3 in slot 3, its world on connection 9 in slot 1.\<close>

definition lrm_four :: lrm where
  "lrm_four = \<lparr>lrm_max = 4, lrm_idle = ListEnd, lrm_data = map (\<lambda>n. \<lparr>res_id = n, res_next = InUse\<rparr>) [0, 9, 2, 3]\<rparr>"

definition net_gateway :: network where
  "net_gateway = \<lparr>nw_lrm = lrm_four, nw_stop = False, nw_closing = None, nw_active = None,
     nw_conn = (\<lambda>i. conn_example\<lparr>c_id := [0, 9, 2, 3] ! i, c_fd := 20 + int i, c_handler := 2, c_ctx := 16\<rparr>), nw_shut = []\<rparr>"

definition run_example :: gw_run where
  "run_example = \<lparr>gr_gw = gateway_example, gr_calls = 0, gr_wire = []\<rparr>"

lemma run_example_live: "n * 16384 \<le> 2 ^ 63 \<Longrightarrow>
  relay_live client_one 16 (gw_backends gateway_example) (gw_worlds gateway_example) 3 1 n 3 16 (net_gateway, run_example)"
proof -
  have "client_one = client_one\<lparr>cl_protocol_flag := 0\<rparr>" by (simp add: client_one_def)
  moreover have "agR_get (nw_lrm net_gateway) 9 = Inr (Some 1)"
    unfolding net_gateway_def network.simps lrm_four_def by code_simp
  moreover assume "n * 16384 \<le> 2 ^ 63"
  ultimately show ?thesis
    using gateway_example_ok(2-5,7)
    by (auto simp: relay_live_def run_example_def net_gateway_def client_one_def INVALID_WORLD_ID_def wr_pending_def conn_ok_def conn_example_def)
qed

lemma request_example: "request_ok (gw_backends gateway_example) (client_packet 165 1 [9, 3, 1, 4, 5])"
proof -
  have wire: "[9, 3, 1, 4, 5] = amf_wire (Some (AVarray 1 [Some (AVinteger 1 5)]))" by code_simp
  have get: "backend_get (gw_backends gateway_example) 165 = None"
    unfolding gateway_example_def gateway.simps by code_simp
  have len: "length (client_packet 165 1 [9, 3, 1, 4, 5] :: byte list) \<le> 10240"
    by (simp add: client_packet_def client_header_size_def)
  show ?thesis
    unfolding request_ok_def
    by (rule conjI[OF len], rule exI[of _ 165], rule exI[of _ 1], rule exI[of _ 1], rule exI[of _ "[Some (AVinteger 1 5)]"])
      (use get wire in \<open>simp add: commands STRING_REF_MAX_def\<close>)
qed

end
