(* ===== verification/Account.thy ===== *)
theory Account
  imports Package DList
begin

text \<open>
  The accounts a gateway knows, \<^verbatim>\<open>src/gateway/account.c\<close>: the number of the player that belongs to the name of an account, from memory or from the data
  base, where a new name gets a new number. The two tables are functions from keys to what a lookup returns, 0 for an absent key, as \<open>HashTable\<close>
  and \<open>AgMap\<close> show of theirs. The data base is the parameter \<open>db\<close>: it is given the text of the statements, its state is of type \<open>'d\<close>. \<open>a\<close> is the address
  \<open>malloc\<close> returns, 0 when there is no memory. The log line about a new account is left out. \<open>account_change\<close> is not called anywhere.
\<close>

section \<open>Names\<close>

definition bytes_of :: "string \<Rightarrow> byte list" where
  "bytes_of s = map (\<lambda>c. word_of_nat (of_char c)) s"

text \<open>\<open>strncpy\<close> of at most 96 bytes into a zeroed buffer, read as a string.\<close>

definition real_name :: "byte list \<Rightarrow> byte list" where
  "real_name name = take 96 (takeWhile (\<lambda>c. c \<noteq> 0) name)"

text \<open>\<open>strstr\<close>: what precedes the first occurrence.\<close>

fun before :: "byte list \<Rightarrow> byte list \<Rightarrow> byte list option" where
  "before pat [] = (if pat = [] then Some [] else None)"
| "before pat (c # cs) = (if take (length pat) (c # cs) = pat then Some [] else map_option (\<lambda>p. c # p) (before pat cs))"

text \<open>\<open>sscanf\<close> with \<open>%llu\<close>: white space, a sign, digits; a number that is too large becomes the largest one.\<close>

definition c_isspace :: "byte \<Rightarrow> bool" where
  "c_isspace c \<longleftrightarrow> c = 32 \<or> 9 \<le> c \<and> c \<le> 13"

definition c_isdigit :: "byte \<Rightarrow> bool" where
  "c_isdigit c \<longleftrightarrow> 48 \<le> c \<and> c \<le> 57"

definition decimal :: "byte list \<Rightarrow> nat" where
  "decimal ds = foldl (\<lambda>n c. 10 * n + (unat c - 48)) 0 ds"

definition scan_llu :: "byte list \<Rightarrow> u64 option" where
  "scan_llu s =
     (let s = dropWhile c_isspace s;
          neg = (take 1 s = [45]);
          s = (if take 1 s = [45] \<or> take 1 s = [43] then drop 1 s else s);
          ds = takeWhile c_isdigit s
      in if ds = [] then None
         else if 2 ^ 64 \<le> decimal ds then Some (- 1)
         else Some (if neg then - word_of_nat (decimal ds) else word_of_nat (decimal ds)))"

section \<open>Accounts\<close>

record account =
  ac_name :: "byte list"
  ac_playerid :: u64
  ac_last_world :: int

record accounts =
  account_hash :: "byte list \<Rightarrow> addr"
  g_account_table :: "u64 \<Rightarrow> addr"
  ac_heap :: "addr \<Rightarrow> account option"
  DISABLE_NEW_ACCOUNT :: int

definition module_account_load :: accounts where
  "module_account_load = \<lparr>account_hash = (\<lambda>_. 0), g_account_table = (\<lambda>_. 0), ac_heap = (\<lambda>_. None), DISABLE_NEW_ACCOUNT = - 1\<rparr>"

text \<open>\<open>account_new\<close>: an account that the player had before gives its last world and is freed; its name stays in \<open>account_hash\<close>.\<close>

definition account_new :: "addr \<Rightarrow> byte list \<Rightarrow> u64 \<Rightarrow> accounts \<Rightarrow> (addr \<times> accounts) res" where
  "account_new a name playerid s =
     (if a = 0 then Inr (0, s)
      else
        let acc = \<lparr>ac_name = take 127 name, ac_playerid = playerid, ac_last_world = - 1\<rparr>;
            tmp = g_account_table s playerid;
            s = s\<lparr>account_hash := (account_hash s)(ac_name acc := a), g_account_table := (g_account_table s)(playerid := a)\<rparr>
        in if tmp = 0 then Inr (a, s\<lparr>ac_heap := (ac_heap s)(a \<mapsto> acc)\<rparr>)
           else
             case ac_heap s tmp of
               None \<Rightarrow> Inl UseAfterFree
             | Some t \<Rightarrow> Inr (a, s\<lparr>ac_heap := (ac_heap s)(tmp := None, a \<mapsto> acc\<lparr>ac_last_world := ac_last_world t\<rparr>)\<rparr>))"

definition account_get :: "byte list \<Rightarrow> accounts \<Rightarrow> addr" where
  "account_get name s = account_hash s name"

definition account_get_by_pid :: "u64 \<Rightarrow> accounts \<Rightarrow> addr" where
  "account_get_by_pid pid s = g_account_table s pid"

section \<open>The data base\<close>

text \<open>\<open>load_int64\<close> gives the first column of the first row, \<open>database_update\<close> whether the statement succeeded, \<open>database_last_id\<close> the number of
  the last new row.\<close>

record 'd account_db =
  load_int64 :: "byte list \<Rightarrow> 'd \<Rightarrow> u64 option"
  database_update :: "byte list \<Rightarrow> 'd \<Rightarrow> bool \<times> 'd"
  database_last_id :: "'d \<Rightarrow> u64"

text \<open>The name goes into the statements as it is.\<close>

definition select_sql :: "byte list \<Rightarrow> byte list" where
  "select_sql name = bytes_of ''SELECT `id` FROM `account` WHERE `account`='' @ [34] @ name @ [34]"

definition insert_sql :: "byte list \<Rightarrow> byte list" where
  "insert_sql name = bytes_of ''INSERT INTO `account`(`account`, `from`, `game`)VALUES('' @ [34] @ name @ [34] @ bytes_of '', 0, 0)''"

definition disable_sql :: "byte list" where
  "disable_sql = bytes_of ''SELECT `id` FROM `account` WHERE `account`='' @ [39] @ bytes_of ''DISABLE_NEW_ACCOUNT'' @ [39]"

definition module_account_update :: "'d account_db \<Rightarrow> int \<Rightarrow> accounts \<Rightarrow> 'd \<Rightarrow> accounts" where
  "module_account_update db now s d =
     (if DISABLE_NEW_ACCOUNT s \<noteq> - 1 \<and> now mod 5 \<noteq> 0 then s
      else s\<lparr>DISABLE_NEW_ACCOUNT := (if load_int64 db disable_sql d \<noteq> None then 1 else 0)\<rparr>)"

text \<open>\<open>account_parse_pid_by_name\<close>: \<open>None\<close> when it returns -1.\<close>

definition account_parse_pid_by_name :: "'d account_db \<Rightarrow> addr \<Rightarrow> u32 \<Rightarrow> byte list \<Rightarrow> accounts \<times> 'd \<Rightarrow> (u64 option \<times> accounts \<times> 'd) res" where
  "account_parse_pid_by_name db a serverid name = (\<lambda>(s, d).
     let real_name = real_name name
     in case before (bytes_of ''@ai'') real_name of
          Some ai \<Rightarrow> Inr (scan_llu ai, s, d)
        | None \<Rightarrow>
            if account_get real_name s \<noteq> 0 then
              (case ac_heap s (account_get real_name s) of
                 None \<Rightarrow> Inl UseAfterFree
               | Some acc \<Rightarrow> Inr (Some (ac_playerid acc), s, d))
            else
              case load_int64 db (select_sql real_name) d of
                Some i \<Rightarrow>
                  let pid = NTOHL_PID_AND_SID i serverid
                  in res_bind (account_new a real_name pid s) (\<lambda>(_, s). Inr (Some pid, s, d))
              | None \<Rightarrow>
                  if DISABLE_NEW_ACCOUNT s = 1 then Inr (None, s, d)
                  else
                    let (done, d) = database_update db (insert_sql real_name) d
                    in if \<not> done then Inr (None, s, d)
                       else
                         let pid = NTOHL_PID_AND_SID (database_last_id db d) serverid
                         in res_bind (account_new a real_name pid s) (\<lambda>(_, s). Inr (Some pid, s, d)))"

section \<open>Names keep their player\<close>

definition accounts_ok :: "accounts \<Rightarrow> bool" where
  "accounts_ok s \<longleftrightarrow>
     (\<forall>n b. account_hash s n = b \<and> b \<noteq> 0 \<longrightarrow> (\<exists>x. ac_heap s b = Some x \<and> ac_name x = n \<and> g_account_table s (ac_playerid x) = b))
     \<and> (\<forall>k b. g_account_table s k = b \<and> b \<noteq> 0 \<longrightarrow> (\<exists>x. ac_heap s b = Some x \<and> ac_playerid x = k \<and> account_hash s (ac_name x) = b))"

lemma accounts_okD:
  assumes "accounts_ok s"
  shows "account_hash s n \<noteq> 0 \<Longrightarrow> \<exists>x. ac_heap s (account_hash s n) = Some x \<and> ac_name x = n \<and> g_account_table s (ac_playerid x) = account_hash s n"
    and "g_account_table s k \<noteq> 0 \<Longrightarrow> \<exists>x. ac_heap s (g_account_table s k) = Some x \<and> ac_playerid x = k \<and> account_hash s (ac_name x) = g_account_table s k"
  using assms unfolding accounts_ok_def by blast+

lemma real_name_length: "length (real_name n) \<le> 96"
  by (simp add: real_name_def)

lemma account_new_ok:
  assumes "accounts_ok s" and "a \<noteq> 0" and "ac_heap s a = None" and "account_hash s n = 0" and "g_account_table s k = 0" and "length n \<le> 96"
  shows "\<exists>s'. account_new a n k s = Inr (a, s') \<and> accounts_ok s' \<and> account_hash s' = (account_hash s)(n := a)
     \<and> ac_heap s' = (ac_heap s)(a \<mapsto> \<lparr>ac_name = n, ac_playerid = k, ac_last_world = - 1\<rparr>) \<and> g_account_table s' = (g_account_table s)(k := a)"
proof -
  let ?x = "\<lparr>ac_name = n, ac_playerid = k, ac_last_world = - 1\<rparr>"
  let ?s = "s\<lparr>account_hash := (account_hash s)(n := a), g_account_table := (g_account_table s)(k := a), ac_heap := (ac_heap s)(a \<mapsto> ?x)\<rparr>"
  have "account_new a n k s = Inr (a, ?s)" using assms(2,5,6) by (simp add: account_new_def Let_def)
  moreover have "accounts_ok ?s"
    unfolding accounts_ok_def
  proof (intro conjI allI impI)
    fix m b
    assume m: "account_hash ?s m = b \<and> b \<noteq> 0"
    show "\<exists>x. ac_heap ?s b = Some x \<and> ac_name x = m \<and> g_account_table ?s (ac_playerid x) = b"
    proof (cases "m = n")
      case False
      then obtain x where x: "ac_heap s b = Some x" "ac_name x = m" "g_account_table s (ac_playerid x) = b" using accounts_okD(1)[OF assms(1), of m] m by auto
      then have "b \<noteq> a" "ac_playerid x \<noteq> k" using assms(3,5) m by auto
      then show ?thesis using x by simp
    qed (use m assms(2) in auto)
  next
    fix m b
    assume m: "g_account_table ?s m = b \<and> b \<noteq> 0"
    show "\<exists>x. ac_heap ?s b = Some x \<and> ac_playerid x = m \<and> account_hash ?s (ac_name x) = b"
    proof (cases "m = k")
      case False
      then obtain x where x: "ac_heap s b = Some x" "ac_playerid x = m" "account_hash s (ac_name x) = b" using accounts_okD(2)[OF assms(1), of m] m by auto
      then have "b \<noteq> a" "ac_name x \<noteq> n" using assms(3,4) m by auto
      then show ?thesis using x by simp
    qed (use m assms(2) in auto)
  qed
  ultimately show ?thesis by auto
qed

text \<open>C14: The name of an account keeps its player. Once a name has been resolved to a number, by a known account, by the data base or as a new
  account, it is resolved to the same number ever after without asking the data base again, and so is every other name that was known before: provided
  the data base does not give the number of a known account to another name.\<close>

theorem login_name_keeps_player:
  assumes "accounts_ok s" and "a \<noteq> 0" and "ac_heap s a = None" and "before (bytes_of ''@ai'') (real_name name) = None"
    and "account_parse_pid_by_name db a serverid name (s, d) = Inr (Some pid, s', d')"
    and "account_get (real_name name) s = 0 \<longrightarrow> account_get_by_pid pid s = 0"
  shows "accounts_ok s'
     \<and> (\<forall>b sid d2. account_parse_pid_by_name db b sid name (s', d2) = Inr (Some pid, s', d2))
     \<and> (\<forall>other b sid d2 k. account_get (real_name other) s \<noteq> 0 \<and> account_parse_pid_by_name db b sid other (s, d2) = Inr (Some k, s, d2)
          \<longrightarrow> account_parse_pid_by_name db b sid other (s', d2) = Inr (Some k, s', d2))"
proof (cases "account_get (real_name name) s = 0")
  case False
  then have "s' = s" and p: "\<exists>x. ac_heap s (account_hash s (real_name name)) = Some x \<and> ac_playerid x = pid"
    using assms(4,5) accounts_okD(1)[OF assms(1), of "real_name name"] by (auto simp: account_parse_pid_by_name_def account_get_def)
  then show ?thesis using assms(1,4) False by (auto simp: account_parse_pid_by_name_def account_get_def)
next
  case True
  have k: "g_account_table s pid = 0" using assms(6) True by (simp add: account_get_by_pid_def)
  obtain s1 where n: "account_new a (real_name name) pid s = Inr (a, s1)" "accounts_ok s1" "account_hash s1 = (account_hash s)(real_name name := a)"
    "ac_heap s1 = (ac_heap s)(a \<mapsto> \<lparr>ac_name = real_name name, ac_playerid = pid, ac_last_world = - 1\<rparr>)"
    using account_new_ok[OF assms(1-3) _ k real_name_length] True by (auto simp: account_get_def)
  have s': "s' = s1"
    using assms(4,5) True n(1) by (auto simp: account_parse_pid_by_name_def Let_def split: option.splits if_splits prod.splits dest: res_bind_Inr_iff[THEN iffD1])
  have same: "account_parse_pid_by_name db b sid name (s1, d2) = Inr (Some pid, s1, d2)" for b sid d2
    using assms(2,4) n(3,4) by (simp add: account_parse_pid_by_name_def account_get_def)
  have "account_parse_pid_by_name db b sid other (s1, d2) = Inr (Some k, s1, d2)"
    if "account_get (real_name other) s \<noteq> 0" "account_parse_pid_by_name db b sid other (s, d2) = Inr (Some k, s, d2)" for other b sid d2 k
  proof (cases "before (bytes_of ''@ai'') (real_name other)")
    case None
    have o: "account_hash s (real_name other) \<noteq> 0" "real_name other \<noteq> real_name name" using that(1) True by (auto simp: account_get_def)
    obtain x where x: "ac_heap s (account_hash s (real_name other)) = Some x" using accounts_okD(1)[OF assms(1) o(1)] by blast
    then have "account_hash s (real_name other) \<noteq> a" using assms(3) by auto
    then show ?thesis using that(2) None o x n(3,4) by (simp add: account_parse_pid_by_name_def account_get_def)
  qed (use that(2) in \<open>simp add: account_parse_pid_by_name_def\<close>)
  then show ?thesis using n(2) same unfolding s' by blast
qed

text \<open>A data base in which every name has the number 7.\<close>

definition db_example :: "unit account_db" where
  "db_example = \<lparr>load_int64 = (\<lambda>_ _. Some 7), database_update = (\<lambda>_ d. (True, d)), database_last_id = (\<lambda>_. 0)\<rparr>"

lemma no_accounts_ok: "accounts_ok module_account_load"
  by (auto simp: accounts_ok_def module_account_load_def)

theorem login_name_keeps_player_witness:
  "\<exists>s'. account_parse_pid_by_name db_example 1 5 [97, 0] (module_account_load, ()) = Inr (Some 0x500000007, s', ())
     \<and> account_parse_pid_by_name db_example 2 9 [97, 0] (s', ()) = Inr (Some 0x500000007, s', ())"
proof -
  have b: "before (bytes_of ''@ai'') (real_name [97, 0]) = None" by (simp add: real_name_def bytes_of_def of_char_def)
  have pid: "NTOHL_PID_AND_SID 7 5 = (0x500000007 :: u64)" by (simp add: NTOHL_PID_AND_SID_def TRANSFORM_PLAYERID_def TRANSFORM_PLAYERID_TO_64_def)
  obtain s' where p: "account_parse_pid_by_name db_example 1 5 [97, 0] (module_account_load, ()) = Inr (Some 0x500000007, s', ())"
    using b pid by (simp add: account_parse_pid_by_name_def account_get_def account_new_def module_account_load_def db_example_def Let_def)
  have "ac_heap module_account_load 1 = None" "account_get_by_pid 0x500000007 module_account_load = 0"
    by (simp_all add: module_account_load_def account_get_by_pid_def)
  then show ?thesis using login_name_keeps_player[OF no_accounts_ok _ _ b p] p by auto
qed

text \<open>The proviso matters: when the data base gives the number of a known account to another name (an account that was renamed there), the old account
  is freed but stays under its old name, and a login by that name reads freed memory.\<close>

lemma renamed_account_dangles:
  assumes "accounts_ok s" and "a \<noteq> 0" and "ac_heap s a = None" and "account_hash s old = b" and "b \<noteq> 0" and "ac_heap s b = Some x"
    and "real_name name \<noteq> old" and "real_name n0 = old" and "before (bytes_of ''@ai'') old = None"
  shows "\<exists>s'. account_new a (real_name name) (ac_playerid x) s = Inr (a, s') \<and> account_parse_pid_by_name db c sid n0 (s', d) = Inl UseAfterFree"
proof -
  have t: "g_account_table s (ac_playerid x) = b" using accounts_okD(1)[OF assms(1), of old] assms(4,5,6) by auto
  have ab: "a \<noteq> b" using assms(3,6) by auto
  have "take 127 (real_name name) = real_name name" using real_name_length[of name] by simp
  then show ?thesis using assms t ab by (auto simp: account_new_def account_parse_pid_by_name_def account_get_def Let_def)
qed

text \<open>A name of digits and \<open>@ai\<close> is the player of that number, whatever the data base says.\<close>

lemma before_digits: "list_all c_isdigit ds \<Longrightarrow> before (bytes_of ''@ai'') (ds @ bytes_of ''@ai'') = Some ds"
proof (induction ds)
  case (Cons c ds)
  then have "c \<noteq> 64" by (auto simp: c_isdigit_def)
  then have "take (length (bytes_of ''@ai'')) (c # (ds @ bytes_of ''@ai'')) \<noteq> bytes_of ''@ai''"
    by (simp add: bytes_of_def of_char_def)
  then show ?case using Cons by simp
qed (simp add: bytes_of_def)

lemma ai_name_is_any_player:
  assumes "list_all c_isdigit ds" and "ds \<noteq> []" and "length ds \<le> 90" and "decimal ds < 2 ^ 64"
  shows "account_parse_pid_by_name db a sid (ds @ bytes_of ''@ai'' @ [0]) (s, d) = Inr (Some (word_of_nat (decimal ds)), s, d)"
proof -
  have ne: "c \<noteq> 0 \<and> \<not> c_isspace c \<and> c \<noteq> 45 \<and> c \<noteq> 43" if "c \<in> set ds" for c
  proof -
    have "48 \<le> unat c" using assms(1) that by (auto simp: list_all_iff c_isdigit_def word_le_nat_alt)
    then show ?thesis by (auto simp: c_isspace_def word_le_nat_alt)
  qed
  have "takeWhile (\<lambda>c. c \<noteq> 0) (ds @ bytes_of ''@ai'' @ [0]) = ds @ bytes_of ''@ai''"
    using ne by (subst takeWhile_append2) (auto simp: bytes_of_def of_char_def)
  then have r: "real_name (ds @ bytes_of ''@ai'' @ [0]) = ds @ bytes_of ''@ai''" using assms(3) by (simp add: real_name_def bytes_of_def)
  obtain c cs where c: "ds = c # cs" using assms(2) by (cases ds) auto
  have "dropWhile c_isspace ds = ds" "take 1 ds \<noteq> [45]" "take 1 ds \<noteq> [43]" using ne[of c] c by simp_all
  moreover have t: "takeWhile c_isdigit ds = ds" using assms(1) by (simp add: list_all_iff)
  ultimately have "scan_llu ds = Some (word_of_nat (decimal ds))" using assms(2,4) unfolding scan_llu_def Let_def by (simp only: t if_False simp_thms not_le[symmetric])
  then show ?thesis using before_digits[OF assms(1)] by (simp add: account_parse_pid_by_name_def r)
qed

end
