(* ===== verification/Player.thy ===== *)
theory Player
  imports ResManager NetConn DList
begin

text \<open>
  The manager of the players of a world, \<^verbatim>\<open>src/world/player.c\<close>: the players in memory, found by number while a client is connected
  (\<open>player_online\<close>) or not (\<open>player_offline\<close>) and by name; the list of all of them in the order of their last use; the list of those
  without a client, from which \<open>try_unload_player_from_zombie_list\<close> takes the players nobody has asked for in 15 minutes.

  A player is an object in a store by address. The hash maps are functions from keys to what a lookup returns, 0 for an absent key:
  that a map of \<^verbatim>\<open>src/framework/map.c\<close> answers so is shown of its own model in the theory \<open>AgMap\<close>. The table \<open>player_modules\<close> of function
  pointers is the parameter \<open>md\<close>: its functions work on the data of their module and on the rest of the world, of type \<open>'w\<close>; they do not
  call the manager back. \<open>a\<close> is the address \<open>MALLOC\<close> returns, 0 when there is no memory, \<open>now\<close> is \<open>agT_current()\<close>. The fight data of
  \<open>struct CheckData\<close>, the account and the tick time, which the manager only stores, are left out.
\<close>

section \<open>State\<close>

record 'm player =
  pl_id :: u64
  pl_conn :: resid_t
  pl_name :: "byte list"
  pl_zombie_time :: int
  pl_last_active_time :: int
  pl_update_time :: int
  pl_loading :: bool
  pl_data :: "nat \<Rightarrow> 'm option"
  pl_module_time :: "nat \<Rightarrow> int"

record ('m, 'w) modules =
  md_new :: "nat \<Rightarrow> u64 \<Rightarrow> 'w \<Rightarrow> 'm option \<times> 'w"
  md_load :: "nat \<Rightarrow> u64 \<Rightarrow> 'w \<Rightarrow> 'm option \<times> 'w"
  md_update :: "nat \<Rightarrow> u64 \<Rightarrow> 'm \<Rightarrow> int \<Rightarrow> 'w \<Rightarrow> 'm \<times> 'w"
  md_save :: "nat \<Rightarrow> u64 \<Rightarrow> 'm \<Rightarrow> 'w \<Rightarrow> 'w"
  md_release :: "nat \<Rightarrow> u64 \<Rightarrow> 'm \<Rightarrow> 'w \<Rightarrow> 'w"
  md_name :: "'m \<Rightarrow> byte list"
  md_set_head :: "int \<Rightarrow> 'm \<Rightarrow> 'm"
  md_flush :: "'w \<Rightarrow> 'w"

record ('m, 'w) manager =
  pm_heap :: "addr \<Rightarrow> 'm player option"
  pm_online :: "u64 \<Rightarrow> addr"
  pm_offline :: "u64 \<Rightarrow> addr"
  pm_not_exist :: "u64 \<Rightarrow> int"
  pm_names :: "byte list \<Rightarrow> addr"
  pm_active :: addr
  pm_links :: dlinks
  pm_zombies :: addr
  pm_zlinks :: dlinks
  pm_ztable :: "(u64 \<Rightarrow> addr) option"
  pm_world :: 'w

definition player_modules_count :: nat where
  "player_modules_count = 15"

definition PLAYER_MODULE_PROPERTY :: nat where
  "PLAYER_MODULE_PROPERTY = 0"

definition PLAYER_MODULE_REQUEST_QUEUE :: nat where
  "PLAYER_MODULE_REQUEST_QUEUE = 1"

definition YQ_MAX_ZOMBIE_TIME :: int where
  "YQ_MAX_ZOMBIE_TIME = 15 * 60"

definition with_player :: "('m, 'w) manager \<Rightarrow> addr \<Rightarrow> ('m player \<Rightarrow> 'a res) \<Rightarrow> 'a res" where
  "with_player s a f = (case pm_heap s a of None \<Rightarrow> Inl (if a = 0 then NullDeref else UseAfterFree) | Some p \<Rightarrow> f p)"

section \<open>One player and its modules\<close>

text \<open>\<open>_player_load_module\<close>; a module that does not load leaves the flag \<open>loading\<close> set.\<close>

definition player_load_module :: "('m, 'w) modules \<Rightarrow> nat \<Rightarrow> 'm player \<Rightarrow> 'w \<Rightarrow> 'm option \<times> 'm player \<times> 'w" where
  "player_load_module md m p w =
     (let p = p\<lparr>pl_loading := True\<rparr>;
          (d, w) = md_load md m (pl_id p) w;
          p = p\<lparr>pl_data := (pl_data p)(m := d)\<rparr>
      in case d of
           None \<Rightarrow> (None, p, w)
         | Some x \<Rightarrow> (Some x, p\<lparr>pl_module_time := (pl_module_time p)(m := 0), pl_loading := False\<rparr>, w))"

definition player_update_module :: "('m, 'w) modules \<Rightarrow> int \<Rightarrow> nat \<Rightarrow> 'm player \<times> 'w \<Rightarrow> ('m player \<times> 'w) res" where
  "player_update_module md now m = (\<lambda>(p, w).
     if \<not> pl_module_time p m \<le> now then Inl Assertion
     else if pl_module_time p m = now then Inr (p, w)
     else
       case pl_data p m of
         None \<Rightarrow> Inl NullDeref
       | Some d \<Rightarrow>
           let (d, w) = md_update md m (pl_id p) d now w
           in Inr (p\<lparr>pl_module_time := (pl_module_time p)(m := now), pl_data := (pl_data p)(m \<mapsto> d)\<rparr>, w))"

definition player_update_modules :: "('m, 'w) modules \<Rightarrow> int \<Rightarrow> 'm player \<Rightarrow> 'w \<Rightarrow> ('m player \<times> 'w) res" where
  "player_update_modules md now p w = res_fold (player_update_module md now) [0..<player_modules_count] (p\<lparr>pl_update_time := now\<rparr>, w)"

text \<open>\<open>player_get_module\<close> loads a module when it is first asked for and brings it up to the time.\<close>

definition player_get_module :: "('m, 'w) modules \<Rightarrow> int \<Rightarrow> nat \<Rightarrow> 'm player \<Rightarrow> 'w \<Rightarrow> ('m option \<times> 'm player \<times> 'w) res" where
  "player_get_module md now m p w =
     (if \<not> m < player_modules_count then Inl Assertion
      else
        let (d, p, w) = (case pl_data p m of None \<Rightarrow> player_load_module md m p w | Some d \<Rightarrow> (Some d, p, w))
        in case d of
             None \<Rightarrow> Inr (None, p, w)
           | Some _ \<Rightarrow> res_bind (player_update_module md now m (p\<lparr>pl_update_time := now\<rparr>, w)) (\<lambda>(p, w). Inr (pl_data p m, p, w)))"

definition player_save :: "('m, 'w) modules \<Rightarrow> 'm player \<Rightarrow> 'w \<Rightarrow> 'w" where
  "player_save md p w =
     fold (\<lambda>m w. case pl_data p m of None \<Rightarrow> w | Some d \<Rightarrow> md_save md m (pl_id p) d w) [0..<player_modules_count] w"

definition player_release :: "('m, 'w) modules \<Rightarrow> 'm player \<Rightarrow> 'w \<Rightarrow> 'w" where
  "player_release md p w =
     fold (\<lambda>m w. case pl_data p m of None \<Rightarrow> w | Some d \<Rightarrow> md_release md m (pl_id p) d w) [0..<player_modules_count] (md_flush md w)"

text \<open>\<open>afterLoad\<close> takes the name over from the property module; \<open>strncpy\<close> copies at most 32 bytes.\<close>

definition afterLoad :: "('m, 'w) modules \<Rightarrow> int \<Rightarrow> 'm player \<Rightarrow> 'w \<Rightarrow> ('m player \<times> 'w) res" where
  "afterLoad md now p w =
     res_bind (player_get_module md now PLAYER_MODULE_PROPERTY p w) (\<lambda>(d, p, w).
       case d of None \<Rightarrow> Inl NullDeref | Some x \<Rightarrow> Inr (p\<lparr>pl_name := take 32 (md_name md x), pl_update_time := 0\<rparr>, w))"

definition player_load_sample :: "('m, 'w) modules \<Rightarrow> int \<Rightarrow> 'm player \<Rightarrow> 'w \<Rightarrow> ('m player option \<times> 'w) res" where
  "player_load_sample md now p w =
     (case player_load_module md PLAYER_MODULE_PROPERTY (p\<lparr>pl_loading := True\<rparr>) w of
        (None, p, w) \<Rightarrow> Inr (None, w)
      | (Some _, p, w) \<Rightarrow> res_bind (afterLoad md now p w) (\<lambda>(p, w). Inr (Some (p\<lparr>pl_loading := False\<rparr>), w)))"

text \<open>The loop of \<open>_player_create\<close> over the modules; \<open>None\<close> when a module cannot be made, after what was made has been released.\<close>

fun create_modules :: "('m, 'w) modules \<Rightarrow> int \<Rightarrow> nat list \<Rightarrow> 'm player \<Rightarrow> 'w \<Rightarrow> 'm player option \<times> 'w" where
  "create_modules md head [] p w = (Some p, w)"
| "create_modules md head (m # ms) p w =
     (case md_new md m (pl_id p) w of
        (None, w) \<Rightarrow> (None, player_release md (p\<lparr>pl_data := (pl_data p)(m := None)\<rparr>) w)
      | (Some d, w) \<Rightarrow>
          let d = (if m = PLAYER_MODULE_PROPERTY then md_set_head md head d else d)
          in create_modules md head ms (p\<lparr>pl_data := (pl_data p)(m \<mapsto> d)\<rparr>) w)"

definition player_create_modules :: "('m, 'w) modules \<Rightarrow> int \<Rightarrow> int \<Rightarrow> 'm player \<Rightarrow> 'w \<Rightarrow> ('m player option \<times> 'w) res" where
  "player_create_modules md now head p w =
     (if (ucast (pl_id p) :: u32) > 0x1FFFFFFF then Inr (None, w)
      else
        case create_modules md head [0..<player_modules_count] (p\<lparr>pl_loading := True\<rparr>) w of
          (None, w) \<Rightarrow> Inr (None, w)
        | (Some p, w) \<Rightarrow>
            res_bind (player_update_modules md now p w) (\<lambda>(p, w). Inr (Some (p\<lparr>pl_loading := False\<rparr>), player_save md p w)))"

section \<open>The lists\<close>

definition update_player_active_list :: "int \<Rightarrow> ('m, 'w) manager \<Rightarrow> addr \<Rightarrow> ('m, 'w) manager res" where
  "update_player_active_list now s a =
     (if a = 0 then Inr s
      else with_player s a (\<lambda>p.
        res_bind (if dl_next (pm_links s) a \<noteq> 0 then dlist_remove (pm_links s) (pm_active s) a else Inr (pm_active s, pm_links s)) (\<lambda>(l, h).
        res_bind (dlist_insert_tail h l a) (\<lambda>(l, h).
          Inr (s\<lparr>pm_active := l, pm_links := h, pm_heap := (pm_heap s)(a \<mapsto> p\<lparr>pl_last_active_time := now\<rparr>)\<rparr>)))))"

definition try_add_player_to_zombie_list :: "int \<Rightarrow> ('m, 'w) manager \<Rightarrow> addr \<Rightarrow> ('m, 'w) manager res" where
  "try_add_player_to_zombie_list now s a =
     (if a = 0 then Inr s
      else with_player s a (\<lambda>p.
        res_bind (dlist_remove (pm_zlinks s) (pm_zombies s) a) (\<lambda>(l, h).
        res_bind (dlist_insert_tail (dlist_init h a) l a) (\<lambda>(l, h).
          let t = (case pm_ztable s of None \<Rightarrow> (\<lambda>_. 0) | Some t \<Rightarrow> t)
          in Inr (s\<lparr>pm_zombies := l, pm_zlinks := h, pm_heap := (pm_heap s)(a \<mapsto> p\<lparr>pl_zombie_time := now\<rparr>), pm_ztable := Some (t(pl_id p := a))\<rparr>)))))"

definition try_remove_player_from_zombie_list :: "('m, 'w) manager \<Rightarrow> addr \<Rightarrow> ('m, 'w) manager res" where
  "try_remove_player_from_zombie_list s a =
     (if a = 0 \<or> pm_zombies s = 0 then Inr s
      else with_player s a (\<lambda>p.
        res_bind (dlist_remove (pm_zlinks s) (pm_zombies s) a) (\<lambda>(l, h).
          Inr (s\<lparr>pm_ztable := map_option (\<lambda>t. t(pl_id p := 0)) (pm_ztable s), pm_zombies := l, pm_zlinks := dlist_init h a\<rparr>))))"

definition get_player_from_zombie_list :: "('m, 'w) manager \<Rightarrow> u64 \<Rightarrow> addr" where
  "get_player_from_zombie_list s pid = (case pm_ztable s of None \<Rightarrow> 0 | Some t \<Rightarrow> t pid)"

section \<open>The manager\<close>

text \<open>A name that fills the 32 bytes has no terminator: the map would read past it.\<close>

definition set_name :: "addr \<Rightarrow> addr \<Rightarrow> ('m, 'w) manager \<Rightarrow> ('m, 'w) manager res" where
  "set_name a v s = with_player s a (\<lambda>p. if 32 \<le> length (pl_name p) then Inl OutOfBounds else Inr (s\<lparr>pm_names := (pm_names s)(pl_name p := v)\<rparr>))"

definition agPM_init :: "'w \<Rightarrow> ('m, 'w) manager" where
  "agPM_init w =
     \<lparr>pm_heap = (\<lambda>_. None), pm_online = (\<lambda>_. 0), pm_offline = (\<lambda>_. 0), pm_not_exist = (\<lambda>_. 0), pm_names = (\<lambda>_. 0), pm_active = 0,
      pm_links = \<lparr>dl_prev = (\<lambda>_. 0), dl_next = (\<lambda>_. 0)\<rparr>, pm_zombies = 0, pm_zlinks = \<lparr>dl_prev = (\<lambda>_. 0), dl_next = (\<lambda>_. 0)\<rparr>,
      pm_ztable = None, pm_world = w\<rparr>"

definition agPM_SetOnline :: "('m, 'w) manager \<Rightarrow> addr \<Rightarrow> resid_t \<Rightarrow> ('m, 'w) manager res" where
  "agPM_SetOnline s a conn =
     (if a = 0 then Inr s
      else with_player s a (\<lambda>p.
        let s = (if pl_conn p = INVALID_ID then s\<lparr>pm_online := (pm_online s)(pl_id p := a), pm_offline := (pm_offline s)(pl_id p := 0)\<rparr> else s)
        in try_remove_player_from_zombie_list (s\<lparr>pm_heap := (pm_heap s)(a \<mapsto> p\<lparr>pl_conn := conn\<rparr>)\<rparr>) a))"

definition agPM_GetOnline :: "int \<Rightarrow> ('m, 'w) manager \<Rightarrow> u64 \<Rightarrow> (addr \<times> ('m, 'w) manager) res" where
  "agPM_GetOnline now s k =
     (let a = pm_online s k
      in res_bind (try_remove_player_from_zombie_list s a) (\<lambda>s.
         res_bind (update_player_active_list now s a) (\<lambda>s. Inr (a, s))))"

text \<open>The parameter of \<open>agPM_SetOffline\<close> is an \<open>unsigned int\<close>: the upper half of the number is lost.\<close>

definition agPM_SetOffline :: "int \<Rightarrow> ('m, 'w) manager \<Rightarrow> u32 \<Rightarrow> ('m, 'w) manager res" where
  "agPM_SetOffline now s k =
     res_bind (agPM_GetOnline now s (ucast k)) (\<lambda>(a, s).
       if a = 0 then Inr s
       else with_player s a (\<lambda>p.
         if pl_conn p = INVALID_ID then Inl Assertion
         else
           try_add_player_to_zombie_list now
             (s\<lparr>pm_offline := (pm_offline s)(pl_id p := a), pm_online := (pm_online s)(pl_id p := 0),
                pm_heap := (pm_heap s)(a \<mapsto> p\<lparr>pl_conn := INVALID_ID\<rparr>)\<rparr>) a))"

text \<open>A new object: zeroed memory with the number and, when the player is being created, its name.\<close>

definition blank_player :: "u64 \<Rightarrow> byte list \<Rightarrow> 'm player" where
  "blank_player k name =
     \<lparr>pl_id = k, pl_conn = 0, pl_name = take 32 name, pl_zombie_time = 0, pl_last_active_time = 0, pl_update_time = 0, pl_loading = False,
      pl_data = (\<lambda>_. None), pl_module_time = (\<lambda>_. 0)\<rparr>"

definition place_player :: "addr \<Rightarrow> 'm player \<Rightarrow> ('m, 'w) manager \<Rightarrow> ('m, 'w) manager" where
  "place_player a p s =
     s\<lparr>pm_heap := (pm_heap s)(a \<mapsto> p), pm_links := dlist_init (pm_links s) a, pm_zlinks := dlist_init (pm_zlinks s) a\<rparr>"

text \<open>The end of \<open>agPM_Create\<close> and \<open>agPM_Get\<close>: the new player has no client yet.\<close>

definition enter_player :: "int \<Rightarrow> addr \<Rightarrow> ('m, 'w) manager \<Rightarrow> ('m, 'w) manager res" where
  "enter_player now a s =
     res_bind (try_add_player_to_zombie_list now s a) (\<lambda>s.
     with_player s a (\<lambda>p.
     set_name a a (s\<lparr>pm_heap := (pm_heap s)(a \<mapsto> p\<lparr>pl_conn := INVALID_ID\<rparr>), pm_offline := (pm_offline s)(pl_id p := a)\<rparr>)))"

definition agPM_Create :: "('m, 'w) modules \<Rightarrow> int \<Rightarrow> addr \<Rightarrow> ('m, 'w) manager \<Rightarrow> u64 \<Rightarrow> byte list \<Rightarrow> int \<Rightarrow> (addr \<times> ('m, 'w) manager) res" where
  "agPM_Create md now a s k name head =
     (if k < 1 then Inr (0, s)
      else if a = 0 then Inr (0, s)
      else
        res_bind (player_create_modules md now head (blank_player k name) (pm_world s)) (\<lambda>(p, w).
          let s = s\<lparr>pm_world := w\<rparr>
          in case p of
               None \<Rightarrow> Inr (0, s)
             | Some p \<Rightarrow>
                 res_bind (enter_player now a (place_player a p s)) (\<lambda>s.
                 res_bind (update_player_active_list now (s\<lparr>pm_not_exist := (pm_not_exist s)(k := 0)\<rparr>) a) (\<lambda>s. Inr (a, s)))))"

definition agPM_Get :: "('m, 'w) modules \<Rightarrow> int \<Rightarrow> addr \<Rightarrow> ('m, 'w) manager \<Rightarrow> u64 \<Rightarrow> (addr \<times> ('m, 'w) manager) res" where
  "agPM_Get md now a s k =
     (if k < 1 then Inr (0, s)
      else if pm_online s k \<noteq> 0 then
        res_bind (try_remove_player_from_zombie_list s (pm_online s k)) (\<lambda>s'.
        res_bind (update_player_active_list now s' (pm_online s k)) (\<lambda>s'. Inr (pm_online s k, s')))
      else if pm_offline s k \<noteq> 0 then
        res_bind (try_add_player_to_zombie_list now s (pm_offline s k)) (\<lambda>s'.
        res_bind (update_player_active_list now s' (pm_offline s k)) (\<lambda>s'. Inr (pm_offline s k, s')))
      else if pm_not_exist s k + 5 \<ge> now then Inr (0, s)
      else
        let s = s\<lparr>pm_not_exist := (pm_not_exist s)(k := 0)\<rparr>
        in if a = 0 then Inr (0, s)
           else
             res_bind (player_load_sample md now (blank_player k []) (pm_world s)) (\<lambda>(p, w).
               let s = s\<lparr>pm_world := w\<rparr>
               in case p of
                    None \<Rightarrow> Inr (0, s\<lparr>pm_not_exist := (pm_not_exist s)(k := now)\<rparr>)
                  | Some p \<Rightarrow>
                      res_bind (enter_player now a (place_player a p s)) (\<lambda>s.
                      res_bind (update_player_active_list now s a) (\<lambda>s. Inr (a, s)))))"

definition agPM_Release :: "('m, 'w) modules \<Rightarrow> ('m, 'w) manager \<Rightarrow> addr \<Rightarrow> ('m, 'w) manager res" where
  "agPM_Release md s a =
     with_player s a (\<lambda>p.
       let s = (if pl_conn p = INVALID_ID then s\<lparr>pm_offline := (pm_offline s)(pl_id p := 0)\<rparr> else s\<lparr>pm_online := (pm_online s)(pl_id p := 0)\<rparr>)
       in res_bind (set_name a 0 s) (\<lambda>s.
          let s = s\<lparr>pm_world := player_release md p (pm_world s)\<rparr>
          in if dl_next (pm_links s) a = 0 then Inl Assertion
             else
               res_bind (dlist_remove (pm_links s) (pm_active s) a) (\<lambda>(l, h).
               res_bind (try_remove_player_from_zombie_list (s\<lparr>pm_active := l, pm_links := h\<rparr>) a) (\<lambda>s.
                 Inr (s\<lparr>pm_heap := (pm_heap s)(a := None)\<rparr>)))))"

text \<open>The loop of \<open>agPM_free\<close>; that of \<open>module_player_unload\<close> calls the logout of a player first.\<close>

fun release_all :: "('m, 'w) modules \<Rightarrow> nat \<Rightarrow> ('m, 'w) manager \<Rightarrow> ('m, 'w) manager res option" where
  "release_all md fuel s =
     (if pm_active s = 0 then Some (Inr s)
      else case fuel of
        0 \<Rightarrow> None
      | Suc fuel \<Rightarrow> run_bind (Some (agPM_Release md s (pm_active s))) (release_all md fuel))"

declare release_all.simps [simp del]

text \<open>\<open>try_unload_player_from_zombie_list\<close>.\<close>

fun try_unload_player_from_zombie_list :: "('m, 'w) modules \<Rightarrow> int \<Rightarrow> nat \<Rightarrow> ('m, 'w) manager \<Rightarrow> ('m, 'w) manager res option" where
  "try_unload_player_from_zombie_list md now fuel s =
     (if pm_zombies s = 0 then Some (Inr s)
      else
        case pm_heap s (pm_zombies s) of
          None \<Rightarrow> Some (Inl UseAfterFree)
        | Some p \<Rightarrow>
            if now - pl_zombie_time p \<le> YQ_MAX_ZOMBIE_TIME then Some (Inr s)
            else
              case fuel of
                0 \<Rightarrow> None
              | Suc fuel \<Rightarrow>
                  let cr = pm_zombies s
                  in run_bind (Some (try_remove_player_from_zombie_list s cr)) (\<lambda>s.
                     run_bind (Some (agPM_Release md s cr)) (try_unload_player_from_zombie_list md now fuel)))"

declare try_unload_player_from_zombie_list.simps [simp del]

section \<open>What the rest of the world calls\<close>

definition player_set_conn :: "('m, 'w) modules \<Rightarrow> int \<Rightarrow> addr \<Rightarrow> ('m, 'w) manager \<Rightarrow> u64 \<Rightarrow> resid_t \<Rightarrow> ('m, 'w) manager res" where
  "player_set_conn md now a s k conn =
     (if conn = INVALID_ID then agPM_SetOffline now s (ucast k)
      else res_bind (agPM_Get md now a s k) (\<lambda>(p, s). agPM_SetOnline s p conn))"

definition player_get_conn :: "int \<Rightarrow> ('m, 'w) manager \<Rightarrow> u64 \<Rightarrow> (resid_t \<times> ('m, 'w) manager) res" where
  "player_get_conn now s k =
     res_bind (agPM_GetOnline now s k) (\<lambda>(a, s). if a = 0 then Inr (INVALID_ID, s) else with_player s a (\<lambda>p. Inr (pl_conn p, s)))"

definition player_create :: "('m, 'w) modules \<Rightarrow> int \<Rightarrow> addr \<Rightarrow> addr \<Rightarrow> ('m, 'w) manager \<Rightarrow> u64 \<Rightarrow> byte list \<Rightarrow> int \<Rightarrow> (addr \<times> ('m, 'w) manager) res" where
  "player_create md now a b s k name head =
     res_bind (agPM_Get md now a s k) (\<lambda>(p, s). if p \<noteq> 0 then Inr (0, s) else agPM_Create md now b s k name head)"

definition player_is_not_exist :: "('m, 'w) manager \<Rightarrow> u64 \<Rightarrow> bool" where
  "player_is_not_exist s k \<longleftrightarrow> pm_not_exist s k \<noteq> 0"

text \<open>The query of \<open>agPM_GetIDByName\<close> is the argument \<open>query\<close>: 0 when there is no such name or the query fails.\<close>

definition agPM_GetIDByName :: "(byte list \<Rightarrow> u64) \<Rightarrow> ('m, 'w) manager \<Rightarrow> byte list \<Rightarrow> u64 res" where
  "agPM_GetIDByName query s name =
     (if pm_names s name \<noteq> 0 then with_player s (pm_names s name) (\<lambda>p. Inr (pl_id p)) else Inr (query name))"

definition agPM_ChangeNameRecord :: "('m, 'w) modules \<Rightarrow> int \<Rightarrow> ('m, 'w) manager \<Rightarrow> byte list \<Rightarrow> ('m, 'w) manager res" where
  "agPM_ChangeNameRecord md now s old_name =
     (let a = pm_names s old_name
      in if a = 0 then Inr s
         else
           let s = s\<lparr>pm_names := (pm_names s)(old_name := 0)\<rparr>
           in with_player s a (\<lambda>p.
                if pl_loading p then set_name a a s
                else
                  res_bind (player_get_module md now PLAYER_MODULE_PROPERTY p (pm_world s)) (\<lambda>(d, p, w).
                    let p = (case d of None \<Rightarrow> p | Some x \<Rightarrow> p\<lparr>pl_name := take 32 (md_name md x)\<rparr>)
                    in set_name a a (s\<lparr>pm_heap := (pm_heap s)(a \<mapsto> p), pm_world := w\<rparr>))))"

end
