(* ===== verification/PlayerOk.thy ===== *)
theory PlayerOk
  imports Player
begin

text \<open>
  What the maps and lists of \<^verbatim>\<open>src/world/player.c\<close> have to agree on, and that the operations of the manager keep it: a player is in
  memory at most once, is found by its number in exactly one of the two maps, is in the list of the active players, and is in the list of
  the zombies exactly while it has no client.
\<close>

section \<open>Invariant\<close>

definition active_ok :: "('m, 'w) manager \<Rightarrow> addr list \<Rightarrow> bool" where
  "active_ok s ys \<longleftrightarrow> dring (pm_links s) (pm_active s) ys"

definition zombie_table :: "('m, 'w) manager \<Rightarrow> u64 \<Rightarrow> addr" where
  "zombie_table s = (case pm_ztable s of None \<Rightarrow> (\<lambda>_. 0) | Some t \<Rightarrow> t)"

definition idle_since :: "('m, 'w) manager \<Rightarrow> addr \<Rightarrow> int" where
  "idle_since s a = pl_zombie_time (the (pm_heap s a))"

text \<open>The zombies \<open>zs\<close>, longest idle first; a player that is not among them has no links.\<close>

definition zombie_ok :: "('m, 'w) manager \<Rightarrow> addr list \<Rightarrow> bool" where
  "zombie_ok s zs \<longleftrightarrow>
     dring (pm_zlinks s) (pm_zombies s) zs
     \<and> set zs \<subseteq> dom (pm_heap s) \<and> (\<forall>a \<in> dom (pm_heap s) - set zs. detached (pm_zlinks s) a)
     \<and> (\<forall>k a. a \<noteq> 0 \<longrightarrow> zombie_table s k = a \<longleftrightarrow> a \<in> set zs \<and> map_option pl_id (pm_heap s a) = Some k)
     \<and> sorted (map (idle_since s) zs)"

definition online_at :: "('m, 'w) manager \<Rightarrow> addr \<Rightarrow> u64 \<Rightarrow> bool" where
  "online_at s a k \<longleftrightarrow> (\<exists>p. pm_heap s a = Some p \<and> pl_id p = k \<and> pl_conn p \<noteq> INVALID_ID)"

definition offline_at :: "('m, 'w) manager \<Rightarrow> addr \<Rightarrow> u64 \<Rightarrow> bool" where
  "offline_at s a k \<longleftrightarrow> (\<exists>p. pm_heap s a = Some p \<and> pl_id p = k \<and> pl_conn p = INVALID_ID)"

definition tables_ok :: "('m, 'w) manager \<Rightarrow> bool" where
  "tables_ok s \<longleftrightarrow>
     pm_heap s 0 = None
     \<and> (\<forall>k a. a \<noteq> 0 \<longrightarrow> pm_online s k = a \<longleftrightarrow> online_at s a k)
     \<and> (\<forall>k a. a \<noteq> 0 \<longrightarrow> pm_offline s k = a \<longleftrightarrow> offline_at s a k)
     \<and> (\<forall>k. pm_online s k = 0 \<or> pm_offline s k = 0)
     \<and> (\<forall>n a. a \<noteq> 0 \<longrightarrow> pm_names s n = a \<longrightarrow> map_option pl_name (pm_heap s a) = Some n)
     \<and> (\<forall>a p. pm_heap s a = Some p \<longrightarrow> length (pl_name p) < 32)"

definition idle :: "('m, 'w) manager \<Rightarrow> addr set" where
  "idle s = {a. \<exists>k. offline_at s a k}"

definition pm_ok :: "('m, 'w) manager \<Rightarrow> addr list \<Rightarrow> addr list \<Rightarrow> bool" where
  "pm_ok s ys zs \<longleftrightarrow> active_ok s ys \<and> set ys = dom (pm_heap s) \<and> zombie_ok s zs \<and> tables_ok s \<and> set zs = idle s"

text \<open>What the tables see of a player.\<close>

definition core :: "('m, 'w) manager \<Rightarrow> addr \<Rightarrow> (u64 \<times> resid_t \<times> byte list) option" where
  "core s a = map_option (\<lambda>p. (pl_id p, pl_conn p, pl_name p)) (pm_heap s a)"

lemma core_Some: "core s a = Some (k, c, n) \<longleftrightarrow> (\<exists>p. pm_heap s a = Some p \<and> pl_id p = k \<and> pl_conn p = c \<and> pl_name p = n)"
  by (auto simp: core_def)

lemma core_None: "core s a = None \<longleftrightarrow> pm_heap s a = None"
  by (simp add: core_def)

lemma core_dom: "core s' = core s \<Longrightarrow> dom (pm_heap s') = dom (pm_heap s)"
  unfolding dom_def core_None[symmetric] by simp

lemma at_core:
  "online_at s a k \<longleftrightarrow> (\<exists>c n. core s a = Some (k, c, n) \<and> c \<noteq> INVALID_ID)"
  "offline_at s a k \<longleftrightarrow> (\<exists>n. core s a = Some (k, INVALID_ID, n))"
  by (auto simp: online_at_def offline_at_def core_def)

lemma field_core:
  "map_option pl_id (pm_heap s a) = map_option fst (core s a)"
  "map_option pl_name (pm_heap s a) = map_option (\<lambda>x. snd (snd x)) (core s a)"
  by (simp_all add: core_def option.map_comp comp_def)

lemma core_idle: "core s' = core s \<Longrightarrow> idle s' = idle s"
  by (simp add: idle_def at_core)

lemma tables_core_iff:
  "tables_ok s \<longleftrightarrow>
     core s 0 = None
     \<and> (\<forall>k a. a \<noteq> 0 \<longrightarrow> pm_online s k = a \<longleftrightarrow> (\<exists>c n. core s a = Some (k, c, n) \<and> c \<noteq> INVALID_ID))
     \<and> (\<forall>k a. a \<noteq> 0 \<longrightarrow> pm_offline s k = a \<longleftrightarrow> (\<exists>n. core s a = Some (k, INVALID_ID, n)))
     \<and> (\<forall>k. pm_online s k = 0 \<or> pm_offline s k = 0)
     \<and> (\<forall>n a. a \<noteq> 0 \<longrightarrow> pm_names s n = a \<longrightarrow> map_option (\<lambda>x. snd (snd x)) (core s a) = Some n)
     \<and> (\<forall>a k c n. core s a = Some (k, c, n) \<longrightarrow> length n < 32)"
proof -
  have "(\<forall>a p. pm_heap s a = Some p \<longrightarrow> length (pl_name p) < 32) \<longleftrightarrow> (\<forall>a k c n. core s a = Some (k, c, n) \<longrightarrow> length n < 32)"
    unfolding core_Some by blast
  then show ?thesis unfolding tables_ok_def at_core field_core core_None by (simp only:)
qed

lemma tables_core:
  assumes "tables_ok s" and "core s' = core s" and "pm_online s' = pm_online s" and "pm_offline s' = pm_offline s" and "pm_names s' = pm_names s"
  shows "tables_ok s'"
proof -
  have "tables_ok s' \<longleftrightarrow> tables_ok s" unfolding tables_core_iff assms(2-5) by (rule refl)
  then show ?thesis using assms(1) by simp
qed

lemma pm_ok_live: "pm_ok s ys zs \<Longrightarrow> a \<in> set ys \<Longrightarrow> \<exists>p. pm_heap s a = Some p \<and> a \<noteq> 0"
  by (auto simp: pm_ok_def active_ok_def dring_def dom_def)

lemma online_get:
  assumes "pm_ok s ys zs" and "pm_online s k \<noteq> 0"
  shows "pm_online s k \<in> set ys" and "pm_online s k \<notin> set zs" and "online_at s (pm_online s k) k"
proof -
  have on: "online_at s (pm_online s k) k" using assms unfolding pm_ok_def tables_ok_def by blast
  then show "pm_online s k \<in> set ys" "pm_online s k \<notin> set zs" "online_at s (pm_online s k) k"
    using assms(1) by (auto simp: pm_ok_def online_at_def idle_def offline_at_def dom_def)
qed

lemma offline_get:
  assumes "pm_ok s ys zs" and "pm_offline s k \<noteq> 0"
  shows "pm_offline s k \<in> set ys" and "pm_offline s k \<in> set zs" and "offline_at s (pm_offline s k) k"
proof -
  have off: "offline_at s (pm_offline s k) k" using assms unfolding pm_ok_def tables_ok_def by blast
  then show "pm_offline s k \<in> set ys" "pm_offline s k \<in> set zs" "offline_at s (pm_offline s k) k"
    using assms(1) by (auto simp: pm_ok_def offline_at_def idle_def dom_def)
qed

section \<open>Moving in the lists\<close>

lemma dlinks_eqI: "dl_prev h = dl_prev h' \<Longrightarrow> dl_next h = dl_next h' \<Longrightarrow> h = (h' :: dlinks)"
  by (cases h; cases h') simp

lemma detached_remove: "detached h a \<Longrightarrow> a \<noteq> 0 \<Longrightarrow> dlist_remove h l a = Inr (l, h)"
  by (auto simp: detached_def dlist_remove_def intro!: dlinks_eqI)

lemma detached_init: "detached h a \<Longrightarrow> dlist_init h a = h"
  by (auto simp: detached_def intro!: dlinks_eqI)

lemma ring_move:
  assumes "dring h l xs" and "a \<in> set xs \<or> detached h a" and "a \<noteq> 0"
  shows "\<exists>l1 h1 l2 h2. dlist_remove h l a = Inr (l1, h1) \<and> dlist_init h1 a = h1 \<and> dlist_insert_tail h1 l1 a = Inr (l2, h2)
     \<and> dring h2 l2 (remove1 a xs @ [a]) \<and> (\<forall>y. y \<notin> set xs \<longrightarrow> y \<noteq> a \<longrightarrow> dl_next h2 y = dl_next h y \<and> dl_prev h2 y = dl_prev h y)"
proof -
  have d: "distinct xs" using assms(1) by (simp add: dring_def)
  obtain l1 h1 where 1: "dlist_remove h l a = Inr (l1, h1)" "dring h1 l1 (remove1 a xs)" "detached h1 a"
    "\<forall>y. y \<notin> set xs \<longrightarrow> dl_next h1 y = dl_next h y \<and> dl_prev h1 y = dl_prev h y"
  proof (cases "a \<in> set xs")
    case True
    then show thesis using dlist_remove_ring[OF assms(1) True] that by blast
  next
    case False
    then show thesis using detached_remove[OF _ assms(3), of h l] assms(1,2) that[of l h] by (simp add: remove1_idem)
  qed
  have a: "a \<notin> set (remove1 a xs)" using d by simp
  obtain l2 h2 where 2: "dlist_insert_tail h1 l1 a = Inr (l2, h2)" "dring h2 l2 (remove1 a xs @ [a])"
    "\<forall>y. y \<notin> set (remove1 a xs) \<longrightarrow> y \<noteq> a \<longrightarrow> dl_next h2 y = dl_next h1 y \<and> dl_prev h2 y = dl_prev h1 y"
    using dlist_insert_tail_ring[OF 1(2,3) assms(3) a] by blast
  have "\<forall>y. y \<notin> set xs \<longrightarrow> y \<noteq> a \<longrightarrow> dl_next h2 y = dl_next h y \<and> dl_prev h2 y = dl_prev h y"
    using 1(4) 2(3) notin_set_remove1 by metis
  then show ?thesis using 1(1) detached_init[OF 1(3)] 2(1,2) by metis
qed

definition zframe :: "('m, 'w) manager \<Rightarrow> ('m, 'w) manager \<Rightarrow> bool" where
  "zframe s s' \<longleftrightarrow> (\<forall>a. map_option pl_id (pm_heap s' a) = map_option pl_id (pm_heap s a)) \<and> pm_zombies s' = pm_zombies s
     \<and> pm_zlinks s' = pm_zlinks s \<and> pm_ztable s' = pm_ztable s \<and> idle_since s' = idle_since s"

lemma zombie_frame:
  assumes "zombie_ok s zs" and "zframe s s'"
  shows "zombie_ok s' zs"
proof -
  have "pm_heap s' a = None \<longleftrightarrow> pm_heap s a = None" for a using assms(2) unfolding zframe_def by (metis map_option_is_None)
  then have "dom (pm_heap s') = dom (pm_heap s)" by (auto simp: dom_def)
  then show ?thesis using assms unfolding zframe_def zombie_ok_def zombie_table_def by simp
qed

definition tframe :: "('m, 'w) manager \<Rightarrow> ('m, 'w) manager \<Rightarrow> bool" where
  "tframe s s' \<longleftrightarrow> core s' = core s \<and> pm_online s' = pm_online s \<and> pm_offline s' = pm_offline s \<and> pm_names s' = pm_names s
     \<and> pm_not_exist s' = pm_not_exist s \<and> pm_world s' = pm_world s"

lemma tframe_trans: "tframe s s' \<Longrightarrow> tframe s' s'' \<Longrightarrow> tframe s s''"
  by (simp add: tframe_def)

lemma tables_frame: "tables_ok s \<Longrightarrow> tframe s s' \<Longrightarrow> tables_ok s'"
  unfolding tframe_def using tables_core by blast

lemma update_active_ok:
  assumes "active_ok s ys" and "pm_heap s a = Some p" and "a \<noteq> 0" and "a \<in> set ys \<or> detached (pm_links s) a"
  shows "\<exists>s'. update_player_active_list now s a = Inr s' \<and> active_ok s' (remove1 a ys @ [a]) \<and> zframe s s' \<and> tframe s s'"
proof -
  have d: "dring (pm_links s) (pm_active s) ys" using assms(1) by (simp add: active_ok_def)
  obtain l1 h1 l2 h2 where m: "dlist_remove (pm_links s) (pm_active s) a = Inr (l1, h1)" "dlist_insert_tail h1 l1 a = Inr (l2, h2)"
    "dring h2 l2 (remove1 a ys @ [a])"
    using ring_move[OF d assms(4,3)] by blast
  let ?s = "s\<lparr>pm_active := l2, pm_links := h2, pm_heap := (pm_heap s)(a \<mapsto> p\<lparr>pl_last_active_time := now\<rparr>)\<rparr>"
  have r: "(if dl_next (pm_links s) a \<noteq> 0 then dlist_remove (pm_links s) (pm_active s) a else Inr (pm_active s, pm_links s)) = Inr (l1, h1)"
  proof (cases "a \<in> set ys")
    case True
    then show ?thesis using dring_links_nonnull[OF d True] m(1) by simp
  next
    case False
    then have "detached (pm_links s) a" using assms(4) by simp
    then show ?thesis using detached_remove[OF _ assms(3), of "pm_links s" "pm_active s"] m(1) by (simp add: detached_def)
  qed
  have "update_player_active_list now s a = Inr ?s"
    unfolding update_player_active_list_def with_player_def r using assms(2,3) m(2) by simp
  moreover have "active_ok ?s (remove1 a ys @ [a])" using m(3) by (simp add: active_ok_def)
  moreover have "core ?s = core s" "idle_since ?s = idle_since s" using assms(2) by (auto simp: core_def idle_since_def fun_eq_iff)
  moreover have "\<forall>b. map_option pl_id (pm_heap ?s b) = map_option pl_id (pm_heap s b)" using assms(2) by simp
  ultimately show ?thesis unfolding zframe_def tframe_def by fastforce
qed

text \<open>No other zombie has the number of the player at \<open>a\<close>.\<close>

definition only_zombie :: "('m, 'w) manager \<Rightarrow> addr list \<Rightarrow> addr \<Rightarrow> bool" where
  "only_zombie s zs a \<longleftrightarrow> (\<forall>b \<in> set zs. map_option pl_id (pm_heap s b) = map_option pl_id (pm_heap s a) \<longrightarrow> b = a)"

definition aframe :: "('m, 'w) manager \<Rightarrow> ('m, 'w) manager \<Rightarrow> bool" where
  "aframe s s' \<longleftrightarrow> pm_active s' = pm_active s \<and> pm_links s' = pm_links s"

lemma active_frame: "active_ok s ys \<Longrightarrow> aframe s s' \<Longrightarrow> active_ok s' ys"
  by (simp add: active_ok_def aframe_def)

lemma zombie_okD:
  assumes "zombie_ok s zs"
  shows "dring (pm_zlinks s) (pm_zombies s) zs" and "set zs \<subseteq> dom (pm_heap s)"
    and "\<And>a. a \<in> dom (pm_heap s) \<Longrightarrow> a \<notin> set zs \<Longrightarrow> detached (pm_zlinks s) a"
    and "\<And>k a. a \<noteq> 0 \<Longrightarrow> zombie_table s k = a \<longleftrightarrow> a \<in> set zs \<and> map_option pl_id (pm_heap s a) = Some k"
    and "sorted (map (idle_since s) zs)"
  using assms unfolding zombie_ok_def by blast+

lemma zombie_okI:
  assumes "dring (pm_zlinks s) (pm_zombies s) zs" and "set zs \<subseteq> dom (pm_heap s)"
    and "\<And>a. a \<in> dom (pm_heap s) \<Longrightarrow> a \<notin> set zs \<Longrightarrow> detached (pm_zlinks s) a"
    and "\<And>k a. a \<noteq> 0 \<Longrightarrow> zombie_table s k = a \<longleftrightarrow> a \<in> set zs \<and> map_option pl_id (pm_heap s a) = Some k"
    and "sorted (map (idle_since s) zs)"
  shows "zombie_ok s zs"
  using assms unfolding zombie_ok_def by blast

lemma sorted_move:
  assumes "sorted (map t xs)" and "\<forall>x \<in> set xs. t x \<le> (now :: int)" and "a \<notin> set (remove1 a xs)"
  shows "sorted (map (t(a := now)) (remove1 a xs @ [a]))"
proof -
  have "sorted (map t (remove1 a xs))" using sorted_map_remove1[OF assms(1)] .
  moreover have e: "map (t(a := now)) (remove1 a xs) = map t (remove1 a xs)" using assms(3) by (auto intro!: map_cong)
  moreover have "\<forall>x \<in> set (remove1 a xs). t x \<le> now" using assms(2) notin_set_remove1 by metis
  ultimately show ?thesis unfolding map_append e by (simp add: sorted_append)
qed

lemma zombie_add_ok:
  assumes ok: "zombie_ok s zs" and a: "pm_heap s a = Some p" "a \<noteq> 0" and only: "only_zombie s zs a" and t: "\<forall>b \<in> set zs. idle_since s b \<le> now"
  shows "\<exists>s'. try_add_player_to_zombie_list now s a = Inr s' \<and> zombie_ok s' (remove1 a zs @ [a]) \<and> aframe s s' \<and> tframe s s'
     \<and> idle_since s' = (idle_since s)(a := now)"
proof -
  note z = zombie_okD[OF ok]
  have d: "distinct zs" "0 \<notin> set zs" using z(1) by (simp_all add: dring_def)
  have "a \<in> set zs \<or> detached (pm_zlinks s) a" using z(3)[of a] a(1) by auto
  then obtain l1 h1 l2 h2 where m: "dlist_remove (pm_zlinks s) (pm_zombies s) a = Inr (l1, h1)" "dlist_init h1 a = h1" "dlist_insert_tail h1 l1 a = Inr (l2, h2)"
    "dring h2 l2 (remove1 a zs @ [a])" "\<forall>y. y \<notin> set zs \<longrightarrow> y \<noteq> a \<longrightarrow> dl_next h2 y = dl_next (pm_zlinks s) y \<and> dl_prev h2 y = dl_prev (pm_zlinks s) y"
    using ring_move[OF z(1) _ a(2)] by blast
  let ?s = "s\<lparr>pm_zombies := l2, pm_zlinks := h2, pm_heap := (pm_heap s)(a \<mapsto> p\<lparr>pl_zombie_time := now\<rparr>), pm_ztable := Some ((zombie_table s)(pl_id p := a))\<rparr>"
  have run: "try_add_player_to_zombie_list now s a = Inr ?s"
    using a m(1-3) by (simp add: try_add_player_to_zombie_list_def with_player_def zombie_table_def Let_def)
  have c: "core ?s = core s" "idle_since ?s = (idle_since s)(a := now)" using a(1) by (auto simp: core_def idle_since_def fun_eq_iff)
  have ids: "map_option pl_id (pm_heap ?s b) = map_option pl_id (pm_heap s b)" for b using a(1) by simp
  have set: "set (remove1 a zs @ [a]) = insert a (set zs)" using d(1) by auto
  have dom: "dom (pm_heap ?s) = dom (pm_heap s)" using a(1) by auto
  have "zombie_ok ?s (remove1 a zs @ [a])"
  proof (rule zombie_okI)
    show "dring (pm_zlinks ?s) (pm_zombies ?s) (remove1 a zs @ [a])" using m(4) by simp
    show "set (remove1 a zs @ [a]) \<subseteq> dom (pm_heap ?s)" unfolding set dom using z(2) a(1) by auto
    show "detached (pm_zlinks ?s) b" if "b \<in> dom (pm_heap ?s)" "b \<notin> set (remove1 a zs @ [a])" for b
      using z(3)[of b] that[unfolded set dom] m(5) by (auto simp: detached_def)
    show "zombie_table ?s k = b \<longleftrightarrow> b \<in> set (remove1 a zs @ [a]) \<and> map_option pl_id (pm_heap ?s b) = Some k" if "b \<noteq> 0" for k b
      unfolding set ids using z(4)[OF that, of k] only a that by (auto simp: zombie_table_def only_zombie_def)
    show "sorted (map (idle_since ?s) (remove1 a zs @ [a]))" unfolding c(2) using sorted_move[OF z(5) t] d(1) by simp
  qed
  then show ?thesis using run c by (auto simp: aframe_def tframe_def)
qed

lemma zombie_remove_ok:
  assumes ok: "zombie_ok s zs" and a: "pm_heap s a = Some p" "a \<noteq> 0" and only: "only_zombie s zs a"
  shows "\<exists>s'. try_remove_player_from_zombie_list s a = Inr s' \<and> zombie_ok s' (remove1 a zs) \<and> aframe s s' \<and> tframe s s'
     \<and> pm_heap s' = pm_heap s"
proof (cases "zs = []")
  case True
  then have "pm_zombies s = 0" using zombie_okD(1)[OF ok] by (simp add: dring_def)
  then show ?thesis using ok True by (auto simp: try_remove_player_from_zombie_list_def aframe_def tframe_def)
next
  case False
  note z = zombie_okD[OF ok]
  have d: "distinct zs" "pm_zombies s \<noteq> 0" using z(1) False dring_Nil_iff[OF z(1)] by (auto simp: dring_def)
  obtain l1 h1 where m: "dlist_remove (pm_zlinks s) (pm_zombies s) a = Inr (l1, h1)" "dring h1 l1 (remove1 a zs)" "detached h1 a"
    "\<forall>y. y \<notin> set zs \<longrightarrow> dl_next h1 y = dl_next (pm_zlinks s) y \<and> dl_prev h1 y = dl_prev (pm_zlinks s) y"
  proof (cases "a \<in> set zs")
    case True
    then show thesis using dlist_remove_ring[OF z(1) True] that by blast
  next
    case False
    then have "detached (pm_zlinks s) a" using z(3)[of a] a(1) by auto
    then show thesis using detached_remove[OF _ a(2), of "pm_zlinks s" "pm_zombies s"] z(1) that False by (simp add: remove1_idem)
  qed
  let ?s = "s\<lparr>pm_ztable := map_option (\<lambda>t. t(pl_id p := 0)) (pm_ztable s), pm_zombies := l1, pm_zlinks := h1\<rparr>"
  have run: "try_remove_player_from_zombie_list s a = Inr ?s"
    using a m(1) detached_init[OF m(3)] d(2) by (simp add: try_remove_player_from_zombie_list_def with_player_def)
  have set: "set (remove1 a zs) = set zs - {a}" using d(1) by simp
  have t: "zombie_table ?s = (zombie_table s)(pl_id p := 0)" by (auto simp: zombie_table_def split: option.splits)
  have "zombie_ok ?s (remove1 a zs)"
  proof (rule zombie_okI)
    show "dring (pm_zlinks ?s) (pm_zombies ?s) (remove1 a zs)" using m(2) by simp
    show "set (remove1 a zs) \<subseteq> dom (pm_heap ?s)" unfolding set using z(2) by auto
    show "detached (pm_zlinks ?s) b" if "b \<in> dom (pm_heap ?s)" "b \<notin> set (remove1 a zs)" for b
      using z(3)[of b] that[unfolded set] m(3,4) by (auto simp: detached_def)
    show "zombie_table ?s k = b \<longleftrightarrow> b \<in> set (remove1 a zs) \<and> map_option pl_id (pm_heap ?s b) = Some k" if "b \<noteq> 0" for k b
      unfolding set t using z(4)[OF that, of k] only a that by (auto simp: only_zombie_def)
    show "sorted (map (idle_since ?s) (remove1 a zs))" using sorted_map_remove1[OF z(5), of a] by (simp add: idle_since_def[abs_def])
  qed
  then show ?thesis using run by (auto simp: aframe_def tframe_def core_def)
qed

end
