(* ===== verification/PlayerRun.thy ===== *)
theory PlayerRun
  imports PlayerOk
begin

text \<open>
  The operations of the player manager keep its invariant and return; what they do to the players in memory.
\<close>

section \<open>Tables\<close>

lemma tables_okD:
  assumes "tables_ok s"
  shows "core s 0 = None"
    and "\<And>k a. a \<noteq> 0 \<Longrightarrow> pm_online s k = a \<longleftrightarrow> (\<exists>c n. core s a = Some (k, c, n) \<and> c \<noteq> INVALID_ID)"
    and "\<And>k a. a \<noteq> 0 \<Longrightarrow> pm_offline s k = a \<longleftrightarrow> (\<exists>n. core s a = Some (k, INVALID_ID, n))"
    and "\<And>k. pm_online s k = 0 \<or> pm_offline s k = 0"
    and "\<And>n a. a \<noteq> 0 \<Longrightarrow> pm_names s n = a \<Longrightarrow> map_option (\<lambda>x. snd (snd x)) (core s a) = Some n"
    and "\<And>a k c n. core s a = Some (k, c, n) \<Longrightarrow> length n < 32"
proof -
  note t = assms[unfolded tables_core_iff]
  note t2 = t[THEN conjunct2] note t3 = t2[THEN conjunct2] note t4 = t3[THEN conjunct2] note t5 = t4[THEN conjunct2]
  show "core s 0 = None" by (rule t[THEN conjunct1])
  show "pm_online s k = a \<longleftrightarrow> (\<exists>c n. core s a = Some (k, c, n) \<and> c \<noteq> INVALID_ID)" if "a \<noteq> 0" for k a
    by (rule t2[THEN conjunct1, rule_format, OF that])
  show "pm_offline s k = a \<longleftrightarrow> (\<exists>n. core s a = Some (k, INVALID_ID, n))" if "a \<noteq> 0" for k a
    by (rule t3[THEN conjunct1, rule_format, OF that])
  show "pm_online s k = 0 \<or> pm_offline s k = 0" for k by (rule t4[THEN conjunct1, rule_format])
  show "map_option (\<lambda>x. snd (snd x)) (core s a) = Some n" if "a \<noteq> 0" "pm_names s n = a" for n a
    by (rule t5[THEN conjunct1, rule_format, OF that])
  show "length n < 32" if "core s a = Some (k, c, n)" for a k c n by (rule t5[THEN conjunct2, rule_format, OF that])
qed

lemma tables_okI:
  assumes "core s 0 = None"
    and "\<And>k a. a \<noteq> 0 \<Longrightarrow> pm_online s k = a \<longleftrightarrow> (\<exists>c n. core s a = Some (k, c, n) \<and> c \<noteq> INVALID_ID)"
    and "\<And>k a. a \<noteq> 0 \<Longrightarrow> pm_offline s k = a \<longleftrightarrow> (\<exists>n. core s a = Some (k, INVALID_ID, n))"
    and "\<And>k. pm_online s k = 0 \<or> pm_offline s k = 0"
    and "\<And>n a. a \<noteq> 0 \<Longrightarrow> pm_names s n = a \<Longrightarrow> map_option (\<lambda>x. snd (snd x)) (core s a) = Some n"
    and "\<And>a k c n. core s a = Some (k, c, n) \<Longrightarrow> length n < 32"
  shows "tables_ok s"
  using assms unfolding tables_core_iff by blast

text \<open>A number belongs to one object only.\<close>

lemma unique_core:
  assumes "tables_ok s" and "core s a = Some (k, c, n)" and "core s b = Some (k, c', n')"
  shows "a = b"
proof -
  note t = tables_okD[OF assms(1)]
  have z: "a \<noteq> 0" "b \<noteq> 0" using t(1) assms(2,3) by (metis option.distinct(1))+
  have on: "c \<noteq> INVALID_ID \<Longrightarrow> pm_online s k = a" "c' \<noteq> INVALID_ID \<Longrightarrow> pm_online s k = b"
    using t(2)[OF z(1), of k] t(2)[OF z(2), of k] assms(2,3) by blast+
  have off: "c = INVALID_ID \<Longrightarrow> pm_offline s k = a" "c' = INVALID_ID \<Longrightarrow> pm_offline s k = b"
    using t(3)[OF z(1), of k] t(3)[OF z(2), of k] assms(2,3) by blast+
  show ?thesis using on off t(4)[of k] z by metis
qed

lemma core_someI: "pm_heap s a = Some p \<Longrightarrow> core s a = Some (pl_id p, pl_conn p, pl_name p)"
  by (simp add: core_def)

lemma only_zombieI:
  assumes "tables_ok s" and "pm_heap s a = Some p"
  shows "only_zombie s zs a"
  unfolding only_zombie_def
proof (intro ballI impI)
  fix b
  assume "map_option pl_id (pm_heap s b) = map_option pl_id (pm_heap s a)"
  then obtain q where q: "pm_heap s b = Some q" "pl_id q = pl_id p" using assms(2) by auto
  then have "core s b = Some (pl_id p, pl_conn q, pl_name q)" by (simp add: core_def)
  then show "b = a" using unique_core[OF assms(1) core_someI[OF assms(2)]] by metis
qed

lemma tables_put:
  assumes tab: "tables_ok s" and a: "a \<noteq> 0"
    and old: "core s a = None \<and> pm_online s k = 0 \<and> pm_offline s k = 0 \<or> (\<exists>c0. core s a = Some (k, c0, n))" and n: "length n < 32"
    and core: "core s' = (core s)(a := Some (k, c, n))"
    and on: "pm_online s' = (pm_online s)(k := if c = INVALID_ID then 0 else a)"
    and off: "pm_offline s' = (pm_offline s)(k := if c = INVALID_ID then a else 0)"
    and names: "pm_names s' = pm_names s \<or> pm_names s' = (pm_names s)(n := a)"
  shows "tables_ok s'"
proof -
  note t = tables_okD[OF tab]
  have other: "b = a \<or> k' \<noteq> k" if "core s b = Some (k', c', n')" for b k' c' n'
  proof -
    have "b \<noteq> 0" using that t(1) by (metis option.distinct(1))
    then have "pm_online s k' = b \<or> pm_offline s k' = b" using t(2)[of b k'] t(3)[of b k'] that by metis
    then show ?thesis using old unique_core[OF tab that] \<open>b \<noteq> 0\<close> by metis
  qed
  show ?thesis
  proof (rule tables_okI)
    show "core s' 0 = None" using t(1) a by (simp add: core)
    show "pm_online s' k' = b \<longleftrightarrow> (\<exists>c n. core s' b = Some (k', c, n) \<and> c \<noteq> INVALID_ID)" if "b \<noteq> 0" for k' b
    proof (cases "k' = k")
      case True
      then show ?thesis using other[of b] that by (auto simp: core on)
    next
      case False
      then show ?thesis using t(2)[OF that, of k'] old by (auto simp: core on)
    qed
    show "pm_offline s' k' = b \<longleftrightarrow> (\<exists>n. core s' b = Some (k', INVALID_ID, n))" if "b \<noteq> 0" for k' b
    proof (cases "k' = k")
      case True
      then show ?thesis using other[of b] that by (auto simp: core off)
    next
      case False
      then show ?thesis using t(3)[OF that, of k'] old by (auto simp: core off)
    qed
    show "pm_online s' k' = 0 \<or> pm_offline s' k' = 0" for k' using t(4)[of k'] by (simp add: on off)
    show "map_option (\<lambda>x. snd (snd x)) (core s' b) = Some m" if "b \<noteq> 0" "pm_names s' m = b" for m b
    proof (cases "pm_names s m = b")
      case True
      then show ?thesis using t(5)[OF that(1) True] old by (auto simp: core)
    next
      case False
      then have "m = n" "b = a" using names that by (metis fun_upd_apply)+
      then show ?thesis by (simp add: core)
    qed
    show "length m < 32" if "core s' b = Some (k', c', m)" for b k' c' m using that t(6)[of b] n by (auto simp: core split: if_splits)
  qed
qed

lemma tables_drop:
  assumes tab: "tables_ok s" and old: "core s a = Some (k, c, n)"
    and core: "core s' = (core s)(a := None)"
    and on: "pm_online s' = (if c = INVALID_ID then pm_online s else (pm_online s)(k := 0))"
    and off: "pm_offline s' = (if c = INVALID_ID then (pm_offline s)(k := 0) else pm_offline s)"
    and names: "pm_names s' = (pm_names s)(n := 0)"
  shows "tables_ok s'"
proof -
  note t = tables_okD[OF tab]
  have other: "b = a \<or> k' \<noteq> k" if "core s b = Some (k', c', n')" for b k' c' n'
    using unique_core[OF tab that] old by metis
  have a: "a \<noteq> 0" using old t(1) by (metis option.distinct(1))
  have k: "c = INVALID_ID \<Longrightarrow> pm_online s k = 0" "c \<noteq> INVALID_ID \<Longrightarrow> pm_offline s k = 0"
    using t(2)[OF a, of k] t(3)[OF a, of k] t(4)[of k] old a by auto
  show ?thesis
  proof (rule tables_okI)
    show "core s' 0 = None" using t(1) by (simp add: core)
    show "pm_online s' k' = b \<longleftrightarrow> (\<exists>c n. core s' b = Some (k', c, n) \<and> c \<noteq> INVALID_ID)" if "b \<noteq> 0" for k' b
      using t(2)[OF that, of k'] other[of b] that old k by (auto simp: core on)
    show "pm_offline s' k' = b \<longleftrightarrow> (\<exists>n. core s' b = Some (k', INVALID_ID, n))" if "b \<noteq> 0" for k' b
      using t(3)[OF that, of k'] other[of b] that old k by (auto simp: core off)
    show "pm_online s' k' = 0 \<or> pm_offline s' k' = 0" for k' using t(4)[of k'] by (auto simp: on off)
    show "map_option (\<lambda>x. snd (snd x)) (core s' b) = Some m" if "b \<noteq> 0" "pm_names s' m = b" for m b
    proof -
      have m: "m \<noteq> n" "pm_names s m = b" using that by (auto simp: names split: if_splits)
      then have "b \<noteq> a" using t(5)[OF a, of m] old by auto
      then show ?thesis using t(5)[OF that(1) m(2)] by (simp add: core)
    qed
    show "length m < 32" if "core s' b = Some (k', c', m)" for b k' c' m using that t(6)[of b] by (auto simp: core split: if_splits)
  qed
qed

section \<open>Lookups\<close>

definition clock_ok :: "int \<Rightarrow> ('m, 'w) manager \<Rightarrow> addr list \<Rightarrow> bool" where
  "clock_ok now s zs \<longleftrightarrow> (\<forall>a \<in> set zs. idle_since s a \<le> now)"

lemma pm_touch:
  assumes "pm_ok s ys zs" and "tframe s s'" and "active_ok s' ys'" and "set ys' = set ys" and "zombie_ok s' zs'" and "set zs' = set zs"
  shows "pm_ok s' ys' zs'"
proof -
  have c: "core s' = core s" using assms(2) by (simp add: tframe_def)
  show ?thesis
    using assms tables_frame[of s s'] core_dom[OF c] core_idle[OF c] unfolding pm_ok_def by metis
qed

lemma pm_okD:
  assumes "pm_ok s ys zs"
  shows "active_ok s ys" and "set ys = dom (pm_heap s)" and "zombie_ok s zs" and "tables_ok s" and "set zs = idle s" and "distinct ys" and "distinct zs"
proof -
  show a: "active_ok s ys" and "set ys = dom (pm_heap s)" and z: "zombie_ok s zs" and "tables_ok s" and "set zs = idle s"
    using assms unfolding pm_ok_def by blast+
  show "distinct ys" using a by (simp add: active_ok_def dring_def)
  show "distinct zs" using zombie_okD(1)[OF z] by (simp add: dring_def)
qed

lemma heap_frame: "tframe s s' \<Longrightarrow> pm_heap s a = Some p \<Longrightarrow> \<exists>p'. pm_heap s' a = Some p' \<and> pl_id p' = pl_id p \<and> pl_conn p' = pl_conn p \<and> pl_name p' = pl_name p"
  unfolding tframe_def using core_Some[of s' a "pl_id p" "pl_conn p" "pl_name p"] core_someI[of s a p] by metis

lemma to_end [simp]: "distinct xs \<Longrightarrow> a \<in> set xs \<Longrightarrow> set (remove1 a xs @ [a]) = set xs"
  by auto

lemma touch_online:
  assumes "pm_ok s ys zs" and "pm_online s k = a" and "a \<noteq> 0"
  shows "\<exists>s1 s'. try_remove_player_from_zombie_list s a = Inr s1 \<and> update_player_active_list now s1 a = Inr s'
     \<and> pm_ok s' (remove1 a ys @ [a]) zs \<and> tframe s s' \<and> idle_since s' = idle_since s"
proof -
  note d = pm_okD[OF assms(1)]
  have a: "a \<in> set ys" "a \<notin> set zs" using online_get[OF assms(1), of k] assms(2,3) by auto
  obtain p where p: "pm_heap s a = Some p" using a(1) d(2) by auto
  obtain s1 where 1: "try_remove_player_from_zombie_list s a = Inr s1" "zombie_ok s1 zs" "aframe s s1" "tframe s s1" "pm_heap s1 = pm_heap s"
    using zombie_remove_ok[OF d(3) p assms(3) only_zombieI[OF d(4) p]] remove1_idem[OF a(2)] by auto
  obtain s' where 2: "update_player_active_list now s1 a = Inr s'" "active_ok s' (remove1 a ys @ [a])" "zframe s1 s'" "tframe s1 s'"
    using update_active_ok[OF active_frame[OF d(1) 1(3)], of a p now] p 1(5) assms(3) a(1) by auto
  have "idle_since s' = idle_since s" using 2(3) 1(5) by (simp add: zframe_def idle_since_def[abs_def])
  then show ?thesis
    using 1(1) 2(1) pm_touch[OF assms(1) tframe_trans[OF 1(4) 2(4)] 2(2) _ zombie_frame[OF 1(2) 2(3)]] tframe_trans[OF 1(4) 2(4)] d(6) a(1) by auto
qed

lemma touch_offline:
  assumes "pm_ok s ys zs" and "pm_offline s k = a" and "a \<noteq> 0" and "clock_ok now s zs"
  shows "\<exists>s1 s'. try_add_player_to_zombie_list now s a = Inr s1 \<and> update_player_active_list now s1 a = Inr s'
     \<and> pm_ok s' (remove1 a ys @ [a]) (remove1 a zs @ [a]) \<and> tframe s s' \<and> idle_since s' = (idle_since s)(a := now)"
proof -
  note d = pm_okD[OF assms(1)]
  have a: "a \<in> set ys" "a \<in> set zs" using offline_get[OF assms(1), of k] assms(2,3) by auto
  obtain p where p: "pm_heap s a = Some p" using a(1) d(2) by auto
  obtain s1 where 1: "try_add_player_to_zombie_list now s a = Inr s1" "zombie_ok s1 (remove1 a zs @ [a])" "aframe s s1" "tframe s s1"
    "idle_since s1 = (idle_since s)(a := now)"
    using zombie_add_ok[OF d(3) p assms(3) only_zombieI[OF d(4) p] assms(4)[unfolded clock_ok_def]] by auto
  obtain p1 where p1: "pm_heap s1 a = Some p1" using heap_frame[OF 1(4) p] by blast
  obtain s' where 2: "update_player_active_list now s1 a = Inr s'" "active_ok s' (remove1 a ys @ [a])" "zframe s1 s'" "tframe s1 s'"
    using update_active_ok[OF active_frame[OF d(1) 1(3)] p1 assms(3), of now] a(1) by auto
  have "idle_since s' = (idle_since s)(a := now)" using 2(3) 1(5) by (simp add: zframe_def)
  then show ?thesis
    using 1(1) 2(1) pm_touch[OF assms(1) tframe_trans[OF 1(4) 2(4)] 2(2) _ zombie_frame[OF 1(2) 2(3)]] tframe_trans[OF 1(4) 2(4)] d(6,7) a by auto
qed

lemma GetOnline_ok:
  assumes "pm_ok s ys zs"
  shows "\<exists>s' ys'. agPM_GetOnline now s k = Inr (pm_online s k, s') \<and> pm_ok s' ys' zs \<and> tframe s s' \<and> idle_since s' = idle_since s
     \<and> (pm_online s k = 0 \<longrightarrow> s' = s)"
proof (cases "pm_online s k = 0")
  case True
  then show ?thesis
    using assms by (auto simp: agPM_GetOnline_def try_remove_player_from_zombie_list_def update_player_active_list_def tframe_def)
next
  case False
  then show ?thesis using touch_online[OF assms refl False, of now] by (auto simp: agPM_GetOnline_def)
qed

section \<open>A new player\<close>

lemma place_core: "core (place_player a p s) = (core s)(a \<mapsto> (pl_id p, pl_conn p, pl_name p))"
  by (auto simp: core_def place_player_def fun_eq_iff)

lemma ring_init: "a \<notin> set xs \<Longrightarrow> dring (dlist_init h a) l xs = dring h l xs"
  by (rule dring_cong) auto

lemma place_zombies:
  assumes "zombie_ok s zs" and "pm_heap s a = None"
  shows "zombie_ok (place_player a p s) zs" and "detached (pm_zlinks (place_player a p s)) a" and "idle_since (place_player a p s) = (idle_since s)(a := pl_zombie_time p)"
proof -
  note z = zombie_okD[OF assms(1)]
  let ?s = "place_player a p s"
  have a: "a \<notin> set zs" using z(2) assms(2) by auto
  show i: "idle_since ?s = (idle_since s)(a := pl_zombie_time p)" by (auto simp: idle_since_def place_player_def)
  show "zombie_ok ?s zs"
  proof (rule zombie_okI)
    show "dring (pm_zlinks ?s) (pm_zombies ?s) zs"
      using ring_init[OF a] z(1) by (simp add: place_player_def)
    show "set zs \<subseteq> dom (pm_heap ?s)" using z(2) by (auto simp: place_player_def)
    show "detached (pm_zlinks ?s) b" if "b \<in> dom (pm_heap ?s)" "b \<notin> set zs" for b
      using z(3)[of b] that by (auto simp: place_player_def detached_def)
    show "zombie_table ?s k = b \<longleftrightarrow> b \<in> set zs \<and> map_option pl_id (pm_heap ?s b) = Some k" if "b \<noteq> 0" for k b
      using z(4)[OF that, of k] a by (auto simp: place_player_def zombie_table_def)
    have "map (idle_since ?s) zs = map (idle_since s) zs" using a by (auto simp: i)
    then show "sorted (map (idle_since ?s) zs)" using z(5) by (simp only:)
  qed
qed (simp add: place_player_def detached_def)

lemma place_active:
  assumes "active_ok s ys" and "a \<notin> set ys"
  shows "active_ok (place_player a p s) ys" and "detached (pm_links (place_player a p s)) a"
  using ring_init[OF assms(2)] assms(1) by (simp_all add: active_ok_def place_player_def detached_def)

lemma idle_core: "idle s = {a. \<exists>k n. core s a = Some (k, INVALID_ID, n)}"
  by (simp add: idle_def at_core)

lemma no_zombie:
  assumes "pm_ok s ys zs" and "pm_offline s k = 0" and "b \<in> set zs"
  shows "map_option pl_id (pm_heap s b) \<noteq> Some k"
proof
  assume id: "map_option pl_id (pm_heap s b) = Some k"
  note d = pm_okD[OF assms(1)]
  obtain k' where off: "offline_at s b k'" using d(5) assms(3) by (auto simp: idle_def)
  then have "offline_at s b k" using id by (auto simp: offline_at_def)
  moreover have "b \<noteq> 0" using off[unfolded at_core(2)] tables_okD(1)[OF d(4)] by (metis option.distinct(1))
  ultimately have "pm_offline s k = b" using tables_okD(3)[OF d(4)] by (simp add: at_core(2))
  with assms(2) \<open>b \<noteq> 0\<close> show False by simp
qed

lemma enter_ok:
  assumes ok: "pm_ok s ys zs" and clock: "clock_ok now s zs" and a: "a \<noteq> 0" "pm_heap s a = None"
    and k: "pm_online s (pl_id p) = 0" "pm_offline s (pl_id p) = 0" and n: "length (pl_name p) < 32"
  shows "\<exists>s1 s'. enter_player now a (place_player a p s) = Inr s1 \<and> pm_not_exist s1 = pm_not_exist s
     \<and> update_player_active_list now (s1\<lparr>pm_not_exist := f\<rparr>) a = Inr s' \<and> pm_ok s' (ys @ [a]) (zs @ [a])
     \<and> core s' = (core s)(a \<mapsto> (pl_id p, INVALID_ID, pl_name p)) \<and> idle_since s' = (idle_since s)(a := now)
     \<and> pm_not_exist s' = f \<and> pm_world s' = pm_world s"
proof -
  note d = pm_okD[OF ok]
  let ?s0 = "place_player a p s"
  have za: "a \<notin> set ys" "a \<notin> set zs" using d(2) a(2) zombie_okD(2)[OF d(3)] by auto
  note z0 = place_zombies[OF d(3) a(2), of p] and a0 = place_active[OF d(1) za(1), of p]
  have h0: "pm_heap ?s0 a = Some p" by (simp add: place_player_def)
  have "only_zombie ?s0 zs a" using no_zombie[OF ok k(2)] za(2) by (auto simp: only_zombie_def place_player_def)
  moreover have "\<forall>b \<in> set zs. idle_since ?s0 b \<le> now" using clock za(2) by (auto simp: z0(3) clock_ok_def)
  ultimately obtain s1 where 1: "try_add_player_to_zombie_list now ?s0 a = Inr s1" "zombie_ok s1 (zs @ [a])" "aframe ?s0 s1" "tframe ?s0 s1"
    "idle_since s1 = (idle_since s)(a := now)"
    using zombie_add_ok[OF z0(1) h0 a(1)] remove1_idem[OF za(2)] z0(3) by auto
  obtain p1 where p1: "pm_heap s1 a = Some p1" "pl_id p1 = pl_id p" "pl_conn p1 = pl_conn p" "pl_name p1 = pl_name p"
    using heap_frame[OF 1(4) h0] by blast
  let ?s3 = "s1\<lparr>pm_heap := (pm_heap s1)(a \<mapsto> p1\<lparr>pl_conn := INVALID_ID\<rparr>), pm_offline := (pm_offline s1)(pl_id p := a), pm_names := (pm_names s1)(pl_name p := a)\<rparr>"
  let ?s4 = "?s3\<lparr>pm_not_exist := f\<rparr>"
  have enter: "enter_player now a ?s0 = Inr ?s3"
    using 1(1) p1 n by (simp add: enter_player_def with_player_def set_name_def)
  have f1: "pm_online s1 = pm_online s" "pm_offline s1 = pm_offline s" "pm_names s1 = pm_names s" "pm_not_exist s1 = pm_not_exist s" "pm_world s1 = pm_world s"
    "core s1 = (core s)(a \<mapsto> (pl_id p, pl_conn p, pl_name p))"
    using 1(4) by (simp_all add: tframe_def place_core) (simp_all add: place_player_def)
  have "zframe s1 ?s4" using p1 by (auto simp: zframe_def idle_since_def fun_eq_iff)
  then have z4: "zombie_ok ?s4 (zs @ [a])" "idle_since ?s4 = (idle_since s)(a := now)" using zombie_frame[OF 1(2)] 1(5) by (auto simp: zframe_def)
  have a4: "active_ok ?s4 ys" "detached (pm_links ?s4) a" using a0 1(3) by (simp_all add: active_ok_def aframe_def)
  obtain s' where 2: "update_player_active_list now ?s4 a = Inr s'" "active_ok s' (ys @ [a])" "zframe ?s4 s'" "tframe ?s4 s'"
    using update_active_ok[OF a4(1) _ a(1), of _ now] a4(2) remove1_idem[OF za(1)] by fastforce
  have c4: "core ?s4 = (core s)(a \<mapsto> (pl_id p, INVALID_ID, pl_name p))"
    using f1(6) p1 by (auto simp: core_def fun_eq_iff)
  have cs: "core s a = None" using a(2) by (simp add: core_def)
  have t4: "tables_ok ?s4"
    by (rule tables_put[OF d(4) a(1) _ n c4]) (use cs k f1 in auto)
  have c: "core s' = (core s)(a \<mapsto> (pl_id p, INVALID_ID, pl_name p))" using 2(4) c4 by (simp add: tframe_def)
  have "idle s' = insert a (idle s)" using cs by (auto simp: idle_core c)
  moreover have "dom (pm_heap s') = insert a (dom (pm_heap s))" unfolding dom_def core_None[symmetric] c by auto
  ultimately have "pm_ok s' (ys @ [a]) (zs @ [a])"
    using 2(2) zombie_frame[OF z4(1) 2(3)] tables_frame[OF t4 2(4)] d(2,5) by (simp add: pm_ok_def)
  then show ?thesis using enter f1(4,5) 2(1,3,4) c z4(2) by (auto simp: tframe_def zframe_def)
qed

section \<open>Releasing a player\<close>

lemma zombie_forget:
  assumes "zombie_ok s zs" and "a \<notin> set zs"
  shows "zombie_ok (s\<lparr>pm_heap := (pm_heap s)(a := None)\<rparr>) zs"
proof -
  note z = zombie_okD[OF assms(1)]
  let ?s = "s\<lparr>pm_heap := (pm_heap s)(a := None)\<rparr>"
  show ?thesis
  proof (rule zombie_okI)
    show "zombie_table ?s k = b \<longleftrightarrow> b \<in> set zs \<and> map_option pl_id (pm_heap ?s b) = Some k" if "b \<noteq> 0" for k b
      using z(4)[OF that, of k] assms(2) by (auto simp: zombie_table_def)
    have "map (idle_since ?s) zs = map (idle_since s) zs" using assms(2) by (auto simp: idle_since_def)
    then show "sorted (map (idle_since ?s) zs)" using z(5) by (simp only:)
  qed (use z assms(2) in auto)
qed

lemma Release_ok:
  assumes act: "active_ok s ys" and dom: "set ys = dom (pm_heap s)" and zom: "zombie_ok s zs" and tab: "tables_ok s"
    and p: "pm_heap s a = Some p"
  shows "\<exists>s'. agPM_Release md s a = Inr s' \<and> active_ok s' (remove1 a ys) \<and> zombie_ok s' (remove1 a zs) \<and> tables_ok s'
     \<and> pm_heap s' = (pm_heap s)(a := None) \<and> pm_world s' = player_release md p (pm_world s) \<and> pm_not_exist s' = pm_not_exist s"
proof -
  note c = core_someI[OF p]
  have a: "a \<noteq> 0" "a \<in> set ys" using tables_okD(1)[OF tab] c dom p by (metis option.distinct(1), auto)
  have n: "\<not> 32 \<le> length (pl_name p)" using tables_okD(6)[OF tab c] by simp
  have r: "dring (pm_links s) (pm_active s) ys" using act by (simp add: active_ok_def)
  obtain l h where 1: "dlist_remove (pm_links s) (pm_active s) a = Inr (l, h)" "dring h l (remove1 a ys)" using dlist_remove_ring[OF r a(2)] by blast
  define s2 where "s2 = (if pl_conn p = INVALID_ID then s\<lparr>pm_offline := (pm_offline s)(pl_id p := 0)\<rparr> else s\<lparr>pm_online := (pm_online s)(pl_id p := 0)\<rparr>)
     \<lparr>pm_names := (pm_names s)(pl_name p := 0), pm_world := player_release md p (pm_world s), pm_active := l, pm_links := h\<rparr>"
  have z2: "zombie_ok s2 zs" "only_zombie s2 zs a" "pm_heap s2 = pm_heap s" "core s2 = core s"
    using zombie_frame[OF zom, of s2] only_zombieI[OF tab p, of zs] by (auto simp: s2_def zframe_def idle_since_def only_zombie_def core_def fun_eq_iff)
  have p2: "pm_heap s2 a = Some p" using p by (simp add: z2(3))
  obtain s3 where 3: "try_remove_player_from_zombie_list s2 a = Inr s3" "zombie_ok s3 (remove1 a zs)" "aframe s2 s3" "tframe s2 s3" "pm_heap s3 = pm_heap s2"
    using zombie_remove_ok[OF z2(1) p2 a(1) z2(2)] by auto
  let ?s = "s3\<lparr>pm_heap := (pm_heap s3)(a := None)\<rparr>"
  have run: "agPM_Release md s a = Inr ?s"
    unfolding agPM_Release_def with_player_def set_name_def using p n 1(1) dring_links_nonnull[OF r a(2)] 3(1)
    by (auto simp: s2_def Let_def)
  have "a \<notin> set (remove1 a zs)" using zombie_okD(1)[OF zom] by (simp add: dring_def)
  then have z: "zombie_ok ?s (remove1 a zs)" using zombie_forget[OF 3(2)] by simp
  have "core ?s = (core s)(a := None)" using 3(5) z2(3) by (auto simp: core_def fun_eq_iff)
  moreover have "pm_online ?s = (if pl_conn p = INVALID_ID then pm_online s else (pm_online s)(pl_id p := 0))"
    "pm_offline ?s = (if pl_conn p = INVALID_ID then (pm_offline s)(pl_id p := 0) else pm_offline s)" "pm_names ?s = (pm_names s)(pl_name p := 0)"
    "pm_world ?s = player_release md p (pm_world s)" "pm_not_exist ?s = pm_not_exist s"
    using 3(4) by (simp_all add: tframe_def) (simp_all add: s2_def)
  ultimately have "tables_ok ?s" using tables_drop[OF tab c] by blast
  moreover have "active_ok ?s (remove1 a ys)" using 1(2) 3(3) by (simp add: active_ok_def aframe_def s2_def)
  ultimately show ?thesis using run z 3(5) z2(3) \<open>pm_world ?s = _\<close> \<open>pm_not_exist ?s = _\<close> by auto
qed

end
