(* ===== verification/PlayerLife.thy ===== *)
theory PlayerLife
  imports PlayerRun
begin

text \<open>
  The life of the players in memory: every sequence of operations of the manager keeps one object per player, filed where it belongs;
  players without a client leave memory after 15 minutes; a logout does not take the client away from a player whose number has more than 32 bits.
\<close>

section \<open>Clients come and go\<close>

lemma pm_build:
  assumes "pm_ok s ys zs" and "active_ok s' ys'" and "zombie_ok s' zs'" and "tables_ok s'"
    and "core s' = (core s)(a \<mapsto> (k, c, n))" and "set ys' = insert a (set ys)" and "set zs' = (if c = INVALID_ID then insert a (set zs) else set zs - {a})"
  shows "pm_ok s' ys' zs'"
proof -
  note d = pm_okD[OF assms(1)]
  have "dom (pm_heap s') = insert a (dom (pm_heap s))" unfolding dom_def core_None[symmetric] assms(5) by auto
  moreover have "idle s' = (if c = INVALID_ID then insert a (idle s) else idle s - {a})" by (auto simp: idle_core assms(5))
  ultimately show ?thesis using assms(2-4,6,7) d(2,5) by (simp add: pm_ok_def)
qed

lemma SetOnline_ok:
  assumes ok: "pm_ok s ys zs" and p: "pm_heap s a = Some p" and c: "conn \<noteq> INVALID_ID"
  shows "\<exists>s'. agPM_SetOnline s a conn = Inr s' \<and> pm_ok s' ys (remove1 a zs) \<and> core s' = (core s)(a \<mapsto> (pl_id p, conn, pl_name p))
     \<and> idle_since s' = idle_since s"
proof -
  note d = pm_okD[OF ok] and cp = core_someI[OF p]
  note t = tables_okD[OF d(4)]
  have a: "a \<noteq> 0" "a \<in> set ys" using t(1) cp p d(2) by (metis option.distinct(1), auto)
  define s1 where "s1 = (if pl_conn p = INVALID_ID then s\<lparr>pm_online := (pm_online s)(pl_id p := a), pm_offline := (pm_offline s)(pl_id p := 0)\<rparr> else s)
     \<lparr>pm_heap := (pm_heap s)(a \<mapsto> p\<lparr>pl_conn := conn\<rparr>)\<rparr>"
  have h1: "pm_heap s1 = (pm_heap s)(a \<mapsto> p\<lparr>pl_conn := conn\<rparr>)" by (simp add: s1_def)
  have c1: "core s1 = (core s)(a \<mapsto> (pl_id p, conn, pl_name p))" by (auto simp: core_def h1)
  have on: "pl_conn p \<noteq> INVALID_ID \<Longrightarrow> pm_online s (pl_id p) = a \<and> pm_offline s (pl_id p) = 0"
    using t(2)[OF a(1), of "pl_id p"] t(4)[of "pl_id p"] cp a(1) by auto
  have t1: "tables_ok s1"
    by (rule tables_put[OF d(4) a(1) _ t(6)[OF cp] c1]) (use cp c on in \<open>auto simp: s1_def\<close>)
  have fr: "zframe s s1" using p by (auto simp: zframe_def idle_since_def s1_def fun_eq_iff)
  have p1: "pm_heap s1 a = Some (p\<lparr>pl_conn := conn\<rparr>)" by (simp add: h1)
  obtain s' where 2: "try_remove_player_from_zombie_list s1 a = Inr s'" "zombie_ok s' (remove1 a zs)" "aframe s1 s'" "tframe s1 s'" "pm_heap s' = pm_heap s1"
    using zombie_remove_ok[OF zombie_frame[OF d(3) fr] p1 a(1) only_zombieI[OF t1 p1]] by auto
  have run: "agPM_SetOnline s a conn = Inr s'" using a(1) p 2(1) by (auto simp: agPM_SetOnline_def with_player_def s1_def Let_def)
  have act: "active_ok s' ys" using d(1) 2(3) by (simp add: active_ok_def aframe_def s1_def)
  have c': "core s' = (core s)(a \<mapsto> (pl_id p, conn, pl_name p))" using 2(4) c1 by (simp add: tframe_def)
  have "pm_ok s' ys (remove1 a zs)"
    by (rule pm_build[OF ok act 2(2) tables_frame[OF t1 2(4)] c']) (use a(2) c d(7) in auto)
  moreover have "idle_since s' = idle_since s" using fr 2(5) by (simp add: zframe_def idle_since_def[abs_def])
  ultimately show ?thesis using run c' by blast
qed

lemma SetOffline_ok:
  assumes ok: "pm_ok s ys zs" and clock: "clock_ok now s zs"
  shows "\<exists>s' ys' zs'. agPM_SetOffline now s k = Inr s' \<and> pm_ok s' ys' zs' \<and> clock_ok now s' zs'
     \<and> (pm_online s (ucast k) = 0 \<longrightarrow> s' = s)
     \<and> (pm_online s (ucast k) \<noteq> 0 \<longrightarrow> (\<exists>p. pm_heap s (pm_online s (ucast k)) = Some p
          \<and> core s' = (core s)(pm_online s (ucast k) \<mapsto> (pl_id p, INVALID_ID, pl_name p)) \<and> idle_since s' = (idle_since s)(pm_online s (ucast k) := now)))"
proof -
  define a where "a = pm_online s (ucast k)"
  obtain s1 ys1 where g: "agPM_GetOnline now s (ucast k) = Inr (a, s1)" "pm_ok s1 ys1 zs" "tframe s s1" "idle_since s1 = idle_since s" "a = 0 \<longrightarrow> s1 = s"
    using GetOnline_ok[OF ok, of now "ucast k", folded a_def] by blast
  show ?thesis
  proof (cases "a = 0")
    case True
    then show ?thesis using g ok clock unfolding a_def[symmetric] by (auto simp: agPM_SetOffline_def)
  next
    case a0: False
    note d = pm_okD[OF g(2)] and t = tables_okD[OF pm_okD(4)[OF g(2)]]
    have on: "pm_online s1 (ucast k) = a" using g(3) by (simp add: tframe_def a_def)
    obtain p where p: "pm_heap s1 a = Some p" "pl_id p = ucast k" "pl_conn p \<noteq> INVALID_ID"
      using online_get(3)[OF g(2), of "ucast k"] on a0 by (auto simp: online_at_def)
    have az: "a \<in> set ys1" "a \<notin> set zs" using online_get(1,2)[OF g(2), of "ucast k"] on a0 by auto
    note cp = core_someI[OF p(1)]
    let ?s2 = "s1\<lparr>pm_offline := (pm_offline s1)(pl_id p := a), pm_online := (pm_online s1)(pl_id p := 0), pm_heap := (pm_heap s1)(a \<mapsto> p\<lparr>pl_conn := INVALID_ID\<rparr>)\<rparr>"
    have c2: "core ?s2 = (core s1)(a \<mapsto> (pl_id p, INVALID_ID, pl_name p))" by (auto simp: core_def)
    have t2: "tables_ok ?s2" by (rule tables_put[OF d(4) a0 _ t(6)[OF cp] c2]) (use cp in auto)
    have fr: "zframe s1 ?s2" using p by (auto simp: zframe_def idle_since_def fun_eq_iff)
    have p2: "pm_heap ?s2 a = Some (p\<lparr>pl_conn := INVALID_ID\<rparr>)" by simp
    have i2: "idle_since ?s2 = idle_since s" using fr g(4) by (simp add: zframe_def)
    obtain s' where 3: "try_add_player_to_zombie_list now ?s2 a = Inr s'" "zombie_ok s' (zs @ [a])" "aframe ?s2 s'" "tframe ?s2 s'" "idle_since s' = (idle_since s)(a := now)"
      using zombie_add_ok[OF zombie_frame[OF d(3) fr] p2 a0 only_zombieI[OF t2 p2], of now] clock i2 remove1_idem[OF az(2)] by (auto simp: clock_ok_def)
    have run: "agPM_SetOffline now s k = Inr s'" using g(1) a0 p 3(1) by (simp add: agPM_SetOffline_def with_player_def)
    have act: "active_ok s' ys1" using d(1) 3(3) by (simp add: active_ok_def aframe_def)
    have c': "core s' = (core s1)(a \<mapsto> (pl_id p, INVALID_ID, pl_name p))" using 3(4) c2 by (simp add: tframe_def)
    have ok': "pm_ok s' ys1 (zs @ [a])"
      by (rule pm_build[OF g(2) act 3(2) tables_frame[OF t2 3(4)] c']) (use az in auto)
    have "clock_ok now s' (zs @ [a])" using clock by (auto simp: clock_ok_def 3(5))
    moreover have "core s1 = core s" using g(3) by (simp add: tframe_def)
    moreover obtain q where "pm_heap s a = Some q" "pl_id q = pl_id p" "pl_name q = pl_name p"
      using cp \<open>core s1 = core s\<close> by (auto simp: core_Some)
    ultimately show ?thesis using run ok' c' 3(5) a0 unfolding a_def[symmetric] by auto
  qed
qed

section \<open>Making and loading a player\<close>

text \<open>Names fit: the names the property module gives are terminated within 32 bytes.\<close>

definition names_fit :: "('m, 'w) modules \<Rightarrow> bool" where
  "names_fit md \<longleftrightarrow> (\<forall>d. length (md_name md d) < 32)"

lemma load_sample_ok:
  assumes "0 \<le> now" and "names_fit md"
  shows "\<exists>q w'. player_load_sample md now (blank_player k n) w = Inr (q, w') \<and> (\<forall>p. q = Some p \<longrightarrow> pl_id p = k \<and> length (pl_name p) < 32)"
proof (cases "md_load md 0 k w")
  case (Pair d w1)
  show ?thesis
  proof (cases d)
    case None
    then show ?thesis using Pair by (simp add: player_load_sample_def player_load_module_def PLAYER_MODULE_PROPERTY_def blank_player_def Let_def)
  next
    case (Some x)
    obtain d2 w2 where "md_update md 0 k x now w1 = (d2, w2)" by fastforce
    then show ?thesis
      using Pair Some assms
      by (simp add: player_load_sample_def player_load_module_def afterLoad_def player_get_module_def player_update_module_def
          PLAYER_MODULE_PROPERTY_def player_modules_count_def blank_player_def names_fit_def Let_def)
  qed
qed

lemma update_modules_ok:
  assumes "\<forall>m \<in> set ms. pl_data p m \<noteq> None \<and> pl_module_time p m \<le> now"
  shows "\<exists>p' w'. res_fold (player_update_module md now) ms (p, w) = Inr (p', w') \<and> pl_id p' = pl_id p \<and> pl_name p' = pl_name p"
  using assms
proof (induction ms arbitrary: p w)
  case (Cons m ms)
  obtain d where d: "pl_data p m = Some d" using Cons.prems by auto
  obtain p1 w1 where 1: "player_update_module md now m (p, w) = Inr (p1, w1)" "pl_id p1 = pl_id p" "pl_name p1 = pl_name p"
    "\<forall>i \<in> set ms. pl_data p1 i \<noteq> None \<and> pl_module_time p1 i \<le> now"
  proof (cases "pl_module_time p m = now")
    case True
    then show thesis using that[of p w] Cons.prems by (simp add: player_update_module_def)
  next
    case False
    obtain d2 w2 where "md_update md m (pl_id p) d now w = (d2, w2)" by fastforce
    then show thesis
      using that[of "p\<lparr>pl_module_time := (pl_module_time p)(m := now), pl_data := (pl_data p)(m \<mapsto> d2)\<rparr>" w2] Cons.prems False d
      by (simp add: player_update_module_def)
  qed
  then show ?case using Cons.IH[OF 1(4), of w1] by auto
qed auto

lemma create_modules_ok:
  assumes "create_modules md head ms p w = (Some p', w')"
  shows "pl_id p' = pl_id p \<and> pl_name p' = pl_name p \<and> pl_module_time p' = pl_module_time p \<and> (\<forall>m. m \<in> set ms \<or> pl_data p m \<noteq> None \<longrightarrow> pl_data p' m \<noteq> None)"
  using assms
proof (induction ms arbitrary: p w)
  case (Cons m ms)
  obtain d w1 where d: "md_new md m (pl_id p) w = (Some d, w1)" using Cons.prems by (auto split: prod.splits option.splits)
  have "create_modules md head ms (p\<lparr>pl_data := (pl_data p)(m \<mapsto> if m = PLAYER_MODULE_PROPERTY then md_set_head md head d else d)\<rparr>) w1 = (Some p', w')"
    using Cons.prems d by (simp add: Let_def)
  from Cons.IH[OF this] show ?case by simp
qed simp

lemma player_create_ok:
  assumes "0 \<le> now"
  shows "\<exists>q w'. player_create_modules md now head (blank_player k name) w = Inr (q, w') \<and> (\<forall>p. q = Some p \<longrightarrow> pl_id p = k \<and> pl_name p = take 32 name)"
proof (cases "(ucast k :: u32) > 0x1FFFFFFF")
  case True
  then show ?thesis by (simp add: player_create_modules_def blank_player_def)
next
  case False
  let ?p = "(blank_player k name)\<lparr>pl_loading := True\<rparr>"
  obtain q w1 where c: "create_modules md head [0..<player_modules_count] ?p w = (q, w1)" by fastforce
  show ?thesis
  proof (cases q)
    case None
    then show ?thesis using c False by (simp add: player_create_modules_def blank_player_def)
  next
    case (Some p1)
    note m = create_modules_ok[OF c[unfolded Some]]
    have "\<forall>m \<in> set [0..<player_modules_count]. pl_data (p1\<lparr>pl_update_time := now\<rparr>) m \<noteq> None \<and> pl_module_time (p1\<lparr>pl_update_time := now\<rparr>) m \<le> now"
      using m assms by (auto simp: blank_player_def)
    from update_modules_ok[OF this, of md w1] obtain p2 w2 where
      "player_update_modules md now p1 w1 = Inr (p2, w2)" "pl_id p2 = pl_id p1" "pl_name p2 = pl_name p1"
      by (auto simp: player_update_modules_def)
    then show ?thesis using c Some False m by (simp add: player_create_modules_def blank_player_def)
  qed
qed

text \<open>What a lookup does to the players in memory: nothing, or the player appears at the new address.\<close>

definition looked_up :: "addr \<Rightarrow> u64 \<Rightarrow> ('m, 'w) manager \<Rightarrow> addr \<Rightarrow> ('m, 'w) manager \<Rightarrow> bool" where
  "looked_up a k s b s' \<longleftrightarrow>
     (if k < 1 then b = 0 \<and> core s' = core s
      else if pm_online s k \<noteq> 0 then b = pm_online s k \<and> core s' = core s
      else if pm_offline s k \<noteq> 0 then b = pm_offline s k \<and> core s' = core s
      else b = 0 \<and> core s' = core s \<or> b = a \<and> a \<noteq> 0 \<and> (\<exists>n. core s' = (core s)(a \<mapsto> (k, INVALID_ID, n))))"

lemma pm_plain:
  assumes "pm_ok s ys zs" and "clock_ok now s zs"
  shows "pm_ok (s\<lparr>pm_not_exist := f, pm_world := w\<rparr>) ys zs" and "clock_ok now (s\<lparr>pm_not_exist := f, pm_world := w\<rparr>) zs"
    and "core (s\<lparr>pm_not_exist := f, pm_world := w\<rparr>) = core s"
proof -
  let ?s = "s\<lparr>pm_not_exist := f, pm_world := w\<rparr>"
  note d = pm_okD[OF assms(1)]
  show c: "core ?s = core s" by (simp add: core_def fun_eq_iff)
  have "zframe s ?s" by (simp add: zframe_def idle_since_def fun_eq_iff)
  then have "zombie_ok ?s zs" using zombie_frame[OF d(3)] by blast
  moreover have "tables_ok ?s" by (rule tables_core[OF d(4) c]) simp_all
  ultimately show "pm_ok ?s ys zs" using d(1,2,5) core_idle[OF c] by (simp add: pm_ok_def active_ok_def)
  show "clock_ok now ?s zs" using assms(2) by (simp add: clock_ok_def idle_since_def)
qed

lemma Get_ok:
  assumes ok: "pm_ok s ys zs" and clock: "clock_ok now s zs" and md: "0 \<le> now" "names_fit md" and a: "pm_heap s a = None"
  shows "\<exists>b s' ys' zs'. agPM_Get md now a s k = Inr (b, s') \<and> pm_ok s' ys' zs' \<and> clock_ok now s' zs' \<and> looked_up a k s b s'"
proof -
  consider "k < 1" | "\<not> k < 1" "pm_online s k \<noteq> 0" | "\<not> k < 1" "pm_online s k = 0" "pm_offline s k \<noteq> 0"
    | "\<not> k < 1" "pm_online s k = 0" "pm_offline s k = 0" by blast
  then show ?thesis
  proof cases
    case 2
    from touch_online[OF ok refl 2(2), of now] obtain s1 s' where
      t: "try_remove_player_from_zombie_list s (pm_online s k) = Inr s1" "update_player_active_list now s1 (pm_online s k) = Inr s'"
      "pm_ok s' (remove1 (pm_online s k) ys @ [pm_online s k]) zs" "tframe s s'" "idle_since s' = idle_since s" by blast
    have "clock_ok now s' zs" using clock by (simp add: clock_ok_def t(5))
    then show ?thesis using 2 t by (auto simp: agPM_Get_def looked_up_def tframe_def)
  next
    case 3
    from touch_offline[OF ok refl 3(3) clock] obtain s1 s' where
      t: "try_add_player_to_zombie_list now s (pm_offline s k) = Inr s1" "update_player_active_list now s1 (pm_offline s k) = Inr s'"
      "pm_ok s' (remove1 (pm_offline s k) ys @ [pm_offline s k]) (remove1 (pm_offline s k) zs @ [pm_offline s k])" "tframe s s'"
      "idle_since s' = (idle_since s)(pm_offline s k := now)" by blast
    have "clock_ok now s' (remove1 (pm_offline s k) zs @ [pm_offline s k])"
      using clock pm_okD(7)[OF ok] by (auto simp: clock_ok_def t(5))
    then show ?thesis using 3 t by (auto simp: agPM_Get_def looked_up_def tframe_def)
  next
    case 4
    show ?thesis
    proof (cases "pm_not_exist s k + 5 \<ge> now \<or> a = 0")
      case True
      have "pm_ok (s\<lparr>pm_not_exist := (pm_not_exist s)(k := 0)\<rparr>) ys zs" "clock_ok now (s\<lparr>pm_not_exist := (pm_not_exist s)(k := 0)\<rparr>) zs"
        "core (s\<lparr>pm_not_exist := (pm_not_exist s)(k := 0)\<rparr>) = core s"
        using pm_plain[OF ok clock, where f = "(pm_not_exist s)(k := 0)" and w = "pm_world s"] by simp_all
      then show ?thesis using 4 True ok clock by (auto simp: agPM_Get_def looked_up_def Let_def)
    next
      case False
      obtain q w where l: "player_load_sample md now (blank_player k []) (pm_world s) = Inr (q, w)" "\<forall>p. q = Some p \<longrightarrow> pl_id p = k \<and> length (pl_name p) < 32"
        using load_sample_ok[OF md, of k "[]" "pm_world s"] by blast
      show ?thesis
      proof (cases q)
        case None
        note pl = pm_plain[OF ok clock, where f = "(pm_not_exist s)(k := now)" and w = w]
        have "agPM_Get md now a s k = Inr (0, s\<lparr>pm_not_exist := (pm_not_exist s)(k := now), pm_world := w\<rparr>)"
          using 4 False l(1) None by (simp add: agPM_Get_def Let_def)
        then show ?thesis using pl 4 by (auto simp: looked_up_def)
      next
        case (Some p)
        let ?s = "s\<lparr>pm_not_exist := (pm_not_exist s)(k := 0), pm_world := w\<rparr>"
        note pl = pm_plain[OF ok clock, where f = "(pm_not_exist s)(k := 0)" and w = w]
        have p: "pl_id p = k" "length (pl_name p) < 32" using l(2) Some by auto
        obtain s1 s' where e: "enter_player now a (place_player a p ?s) = Inr s1" "pm_not_exist s1 = pm_not_exist ?s"
          "update_player_active_list now (s1\<lparr>pm_not_exist := pm_not_exist ?s\<rparr>) a = Inr s'" "pm_ok s' (ys @ [a]) (zs @ [a])"
          "core s' = (core ?s)(a \<mapsto> (k, INVALID_ID, pl_name p))" "idle_since s' = (idle_since ?s)(a := now)"
          using enter_ok[OF pl(1,2), of a p "pm_not_exist ?s"] a False p 4 by auto
        have same: "s1\<lparr>pm_not_exist := pm_not_exist ?s\<rparr> = s1" using e(2)[symmetric] by simp
        have "agPM_Get md now a s k = Inr (a, s')"
          using 4 False l(1) Some e(1) e(3)[unfolded same] by (simp add: agPM_Get_def Let_def)
        moreover have "clock_ok now s' (zs @ [a])" using pl(2) e(6) by (auto simp: clock_ok_def)
        ultimately show ?thesis using e(4,5) pl(3) 4 False by (auto simp: looked_up_def)
      qed
    qed
  qed (use ok clock in \<open>auto simp: agPM_Get_def looked_up_def\<close>)
qed

end
