(* ===== verification/PlayerMain.thy ===== *)
theory PlayerMain
  imports PlayerLife
begin

text \<open>
  Theorems on the player manager: \<open>player_found_once\<close>, \<open>idle_players_unloaded\<close>, \<open>logout_keeps_client\<close>.
\<close>

lemma Create_ok:
  assumes ok: "pm_ok s ys zs" and clock: "clock_ok now s zs" and now: "0 \<le> now" and a: "pm_heap s a = None"
    and none: "pm_online s k = 0" "pm_offline s k = 0" and n: "length name < 32"
  shows "\<exists>b s' ys' zs'. agPM_Create md now a s k name head = Inr (b, s') \<and> pm_ok s' ys' zs' \<and> clock_ok now s' zs'
     \<and> (b = 0 \<and> core s' = core s \<or> b = a \<and> core s' = (core s)(a \<mapsto> (k, INVALID_ID, name)))"
proof -
  obtain q w where c: "player_create_modules md now head (blank_player k name) (pm_world s) = Inr (q, w)"
    "\<forall>p. q = Some p \<longrightarrow> pl_id p = k \<and> pl_name p = take 32 name"
    using player_create_ok[OF now, of md head k name "pm_world s"] by blast
  note pl = pm_plain[OF ok clock, where f = "pm_not_exist s" and w = w]
  show ?thesis
  proof (cases "k < 1 \<or> a = 0")
    case True
    then show ?thesis using ok clock by (auto simp: agPM_Create_def)
  next
    case False
    show ?thesis
    proof (cases q)
      case None
      then show ?thesis using False c(1) pl by (auto simp: agPM_Create_def Let_def)
    next
      case (Some p)
      let ?s = "s\<lparr>pm_not_exist := pm_not_exist s, pm_world := w\<rparr>"
      have p: "pl_id p = k" "pl_name p = name" using c(2) Some n by auto
      obtain s1 s' where e: "enter_player now a (place_player a p ?s) = Inr s1" "pm_not_exist s1 = pm_not_exist ?s"
        "update_player_active_list now (s1\<lparr>pm_not_exist := (pm_not_exist s)(k := 0)\<rparr>) a = Inr s'" "pm_ok s' (ys @ [a]) (zs @ [a])"
        "core s' = (core ?s)(a \<mapsto> (k, INVALID_ID, name))" "idle_since s' = (idle_since ?s)(a := now)"
        using enter_ok[OF pl(1,2), of a p "(pm_not_exist s)(k := 0)"] a False p none n by auto
      have "agPM_Create md now a s k name head = Inr (a, s')"
        using False c(1) Some e(1,2,3) by (simp add: agPM_Create_def Let_def)
      moreover have "clock_ok now s' (zs @ [a])" using pl(2) e(6) by (auto simp: clock_ok_def)
      ultimately show ?thesis using e(4,5) pl(3) by auto
    qed
  qed
qed

lemma looked_up_live:
  assumes "pm_ok s ys zs" and "looked_up a k s b s'" and "b \<noteq> 0"
  shows "\<exists>p. pm_heap s' b = Some p \<and> pl_id p = k"
proof -
  have "\<exists>c n. core s' b = Some (k, c, n)"
    using assms online_get(3)[OF assms(1), of k] offline_get(3)[OF assms(1), of k] unfolding looked_up_def at_core by (auto split: if_splits)
  then show ?thesis by (auto simp: core_Some)
qed

lemma set_conn_ok:
  assumes ok: "pm_ok s ys zs" and clock: "clock_ok now s zs" and md: "0 \<le> now" "names_fit md" and a: "pm_heap s a = None"
  shows "\<exists>s' ys' zs'. player_set_conn md now a s k conn = Inr s' \<and> pm_ok s' ys' zs' \<and> clock_ok now s' zs'"
proof (cases "conn = INVALID_ID")
  case True
  then show ?thesis using SetOffline_ok[OF ok clock, of "ucast k"] by (auto simp: player_set_conn_def)
next
  case False
  obtain b s1 ys1 zs1 where g: "agPM_Get md now a s k = Inr (b, s1)" "pm_ok s1 ys1 zs1" "clock_ok now s1 zs1" "looked_up a k s b s1"
    using Get_ok[OF ok clock md a, of k] by blast
  show ?thesis
  proof (cases "b = 0")
    case True
    then show ?thesis using g False by (auto simp: player_set_conn_def agPM_SetOnline_def)
  next
    case b: False
    obtain p where p: "pm_heap s1 b = Some p" using looked_up_live[OF ok g(4) b] by blast
    obtain s' where s': "agPM_SetOnline s1 b conn = Inr s'" "pm_ok s' ys1 (remove1 b zs1)" "idle_since s' = idle_since s1"
      using SetOnline_ok[OF g(2) p False] by blast
    have "clock_ok now s' (remove1 b zs1)" using g(3) notin_set_remove1 by (force simp: clock_ok_def s'(3))
    then show ?thesis using g(1) s'(1,2) False by (auto simp: player_set_conn_def)
  qed
qed

lemma Release_pm_ok:
  assumes ok: "pm_ok s ys zs" and clock: "clock_ok now s zs" and p: "pm_heap s a = Some p"
  shows "\<exists>s'. agPM_Release md s a = Inr s' \<and> pm_ok s' (remove1 a ys) (remove1 a zs) \<and> clock_ok now s' (remove1 a zs)
     \<and> pm_heap s' = (pm_heap s)(a := None)"
proof -
  note d = pm_okD[OF ok]
  obtain s' where r: "agPM_Release md s a = Inr s'" "active_ok s' (remove1 a ys)" "zombie_ok s' (remove1 a zs)" "tables_ok s'" "pm_heap s' = (pm_heap s)(a := None)"
    using Release_ok[OF d(1-4) p] by blast
  have "idle s' = idle s - {a}" by (auto simp: idle_def offline_at_def r(5))
  then have "pm_ok s' (remove1 a ys) (remove1 a zs)" using r(2-5) d(2,5,6,7) by (auto simp: pm_ok_def)
  moreover have "clock_ok now s' (remove1 a zs)"
    unfolding clock_ok_def
  proof
    fix b
    assume "b \<in> set (remove1 a zs)"
    then have "b \<in> set zs" "b \<noteq> a" using d(7) by auto
    then show "idle_since s' b \<le> now" using clock by (simp add: clock_ok_def idle_since_def r(5))
  qed
  ultimately show ?thesis using r(1,5) by blast
qed

section \<open>Unloading the idle\<close>

lemma unload_one:
  assumes ok: "pm_ok s ys (z # zs)" and clock: "clock_ok now s (z # zs)"
  shows "\<exists>s1 s'. try_remove_player_from_zombie_list s z = Inr s1 \<and> agPM_Release md s1 z = Inr s' \<and> pm_ok s' (remove1 z ys) zs
     \<and> clock_ok now s' zs \<and> pm_heap s' = (pm_heap s)(z := None)"
proof -
  note d = pm_okD[OF ok]
  obtain p where p: "pm_heap s z = Some p" using zombie_okD(2)[OF d(3)] by auto
  have z: "z \<noteq> 0" "z \<notin> set zs" using zombie_okD(1)[OF d(3)] by (auto simp: dring_def)
  obtain s1 where 1: "try_remove_player_from_zombie_list s z = Inr s1" "zombie_ok s1 zs" "aframe s s1" "tframe s s1" "pm_heap s1 = pm_heap s"
    using zombie_remove_ok[OF d(3) p z(1) only_zombieI[OF d(4) p]] by auto
  have p1: "pm_heap s1 z = Some p" and dom: "set ys = dom (pm_heap s1)" using p 1(5) d(2) by simp_all
  obtain s' where r: "agPM_Release md s1 z = Inr s'" "active_ok s' (remove1 z ys)" "zombie_ok s' zs" "tables_ok s'" "pm_heap s' = (pm_heap s)(z := None)"
    using Release_ok[OF active_frame[OF d(1) 1(3)] dom 1(2) tables_frame[OF d(4) 1(4)] p1, of md] remove1_idem[OF z(2)] 1(5) by auto
  have "idle s' = idle s - {z}" by (auto simp: idle_def offline_at_def r(5))
  then have "pm_ok s' (remove1 z ys) zs" using r(2-5) d(2,5,6) z(2) by (auto simp: pm_ok_def)
  moreover have "clock_ok now s' zs"
    unfolding clock_ok_def
  proof
    fix b
    assume "b \<in> set zs"
    then show "idle_since s' b \<le> now" using clock z(2) by (auto simp: clock_ok_def idle_since_def r(5))
  qed
  ultimately show ?thesis using 1(1) r(1,5) by blast
qed

lemma unload_ok:
  assumes "pm_ok s ys zs" and "clock_ok now s zs" and "length zs \<le> fuel"
  shows "\<exists>s' ys' zs'. try_unload_player_from_zombie_list md now fuel s = Some (Inr s') \<and> pm_ok s' ys' zs' \<and> clock_ok now s' zs'
     \<and> pm_heap s' = (\<lambda>a. if a \<in> set zs \<and> now - idle_since s a > YQ_MAX_ZOMBIE_TIME then None else pm_heap s a)"
  using assms
proof (induction zs arbitrary: s ys fuel)
  case Nil
  have "pm_zombies s = 0" using zombie_okD(1)[OF pm_okD(3)[OF Nil.prems(1)]] by (simp add: dring_def)
  then show ?case using Nil.prems by (subst try_unload_player_from_zombie_list.simps) auto
next
  case (Cons z zs)
  note d = pm_okD[OF Cons.prems(1)]
  have z: "pm_zombies s = z" "z \<noteq> 0" "z \<notin> set zs" using zombie_okD(1)[OF d(3)] by (auto simp: dring_def)
  obtain p where p: "pm_heap s z = Some p" using zombie_okD(2)[OF d(3)] by auto
  have t: "pl_zombie_time p = idle_since s z" using p by (simp add: idle_since_def)
  show ?case
  proof (cases "now - idle_since s z \<le> YQ_MAX_ZOMBIE_TIME")
    case True
    have "\<forall>a \<in> set (z # zs). idle_since s z \<le> idle_since s a" using zombie_okD(5)[OF d(3)] by auto
    then have "pm_heap s = (\<lambda>a. if a \<in> set (z # zs) \<and> now - idle_since s a > YQ_MAX_ZOMBIE_TIME then None else pm_heap s a)"
      using True by (auto simp: fun_eq_iff)
    moreover have "try_unload_player_from_zombie_list md now fuel s = Some (Inr s)"
      using z p True t by (subst try_unload_player_from_zombie_list.simps) simp
    ultimately show ?thesis using Cons.prems(1,2) by blast
  next
    case False
    obtain f where f: "fuel = Suc f" "length zs \<le> f" using Cons.prems(3) by (cases fuel) auto
    obtain s1 s2 where u: "try_remove_player_from_zombie_list s z = Inr s1" "agPM_Release md s1 z = Inr s2" "pm_ok s2 (remove1 z ys) zs"
      "clock_ok now s2 zs" "pm_heap s2 = (pm_heap s)(z := None)"
      using unload_one[OF Cons.prems(1,2), of md] by blast
    have i: "idle_since s2 a = idle_since s a" if "a \<noteq> z" for a using that by (simp add: idle_since_def u(5))
    obtain s' ys' zs' where s': "try_unload_player_from_zombie_list md now f s2 = Some (Inr s')" "pm_ok s' ys' zs'" "clock_ok now s' zs'"
      "pm_heap s' = (\<lambda>a. if a \<in> set zs \<and> now - idle_since s2 a > YQ_MAX_ZOMBIE_TIME then None else pm_heap s2 a)"
      using Cons.IH[OF u(3,4) f(2)] by blast
    have "try_unload_player_from_zombie_list md now fuel s = Some (Inr s')"
      using z p False t u(1,2) s'(1) f(1) by (subst try_unload_player_from_zombie_list.simps) simp
    moreover have "pm_heap s' = (\<lambda>a. if a \<in> set (z # zs) \<and> now - idle_since s a > YQ_MAX_ZOMBIE_TIME then None else pm_heap s a)"
      unfolding s'(4) u(5) using i z(3) False by (auto simp: fun_eq_iff)
    ultimately show ?thesis using s'(2,3) by blast
  qed
qed

lemma unload_more: "try_unload_player_from_zombie_list md now f s = Some r \<Longrightarrow> try_unload_player_from_zombie_list md now (f + n) s = Some r"
proof (induction f arbitrary: s)
  case 0
  then show ?case by (subst try_unload_player_from_zombie_list.simps, subst (asm) try_unload_player_from_zombie_list.simps) (auto split: option.splits if_splits)
next
  case (Suc f)
  have bind: "run_bind x g = Some r \<Longrightarrow> (\<And>y. g y = Some r \<Longrightarrow> h y = Some r) \<Longrightarrow> run_bind x h = Some r" for x :: "('m, 'w) manager res option" and g h
    by (auto simp: run_bind_def split: option.splits sum.splits)
  show ?case using Suc.prems
    by (subst try_unload_player_from_zombie_list.simps, subst (asm) try_unload_player_from_zombie_list.simps)
      (auto simp: Let_def split: option.splits if_splits intro!: Suc.IH elim!: bind)
qed

text \<open>At the end every player is released.\<close>

lemma release_all_ok:
  assumes "pm_ok s ys zs" and "clock_ok now s zs" and "length ys \<le> fuel"
  shows "\<exists>s'. release_all md fuel s = Some (Inr s') \<and> pm_ok s' [] []"
  using assms
proof (induction ys arbitrary: s zs fuel)
  case Nil
  have "pm_active s = 0" "pm_heap s = (\<lambda>_. None)" using pm_okD(1,2)[OF Nil.prems(1)] by (auto simp: active_ok_def dring_def)
  moreover have "zs = []" using zombie_okD(2)[OF pm_okD(3)[OF Nil.prems(1)]] calculation(2) by auto
  ultimately show ?case using Nil.prems(1) by (subst release_all.simps) auto
next
  case (Cons y ys)
  obtain f where f: "fuel = Suc f" "length ys \<le> f" using Cons.prems(3) by (cases fuel) auto
  have y: "pm_active s = y" "y \<noteq> 0" using pm_okD(1)[OF Cons.prems(1)] by (auto simp: active_ok_def dring_def)
  obtain p where p: "pm_heap s y = Some p" using pm_ok_live[OF Cons.prems(1), of y] by auto
  obtain s1 where r: "agPM_Release md s y = Inr s1" "pm_ok s1 ys (remove1 y zs)" "clock_ok now s1 (remove1 y zs)"
    using Release_pm_ok[OF Cons.prems(1,2) p, of md] by auto
  show ?case using Cons.IH[OF r(2,3) f(2)] y r(1) f(1) by (subst release_all.simps) auto
qed

section \<open>Reachable states\<close>

text \<open>The states a manager gets into: lookups, clients that connect and leave, new players, players that are unloaded, in any order while time passes.
  An address that \<open>MALLOC\<close> returns is not in use.\<close>

inductive pm_run :: "('m, 'w) modules \<Rightarrow> int \<Rightarrow> ('m, 'w) manager \<Rightarrow> bool" for md where
  pm_start: "0 \<le> now \<Longrightarrow> pm_run md now (agPM_init w)"
| pm_later: "pm_run md now s \<Longrightarrow> now \<le> t \<Longrightarrow> pm_run md t s"
| pm_get: "pm_run md now s \<Longrightarrow> pm_heap s a = None \<Longrightarrow> agPM_Get md now a s k = Inr (b, s') \<Longrightarrow> pm_run md now s'"
| pm_getonline: "pm_run md now s \<Longrightarrow> agPM_GetOnline now s k = Inr (b, s') \<Longrightarrow> pm_run md now s'"
| pm_setconn: "pm_run md now s \<Longrightarrow> pm_heap s a = None \<Longrightarrow> player_set_conn md now a s k conn = Inr s' \<Longrightarrow> pm_run md now s'"
| pm_create: "pm_run md now s \<Longrightarrow> pm_heap s a = None \<Longrightarrow> pm_heap s c = None \<Longrightarrow> length name < 32 \<Longrightarrow>
    player_create md now a c s k name head = Inr (b, s') \<Longrightarrow> pm_run md now s'"
| pm_unload: "pm_run md now s \<Longrightarrow> pm_heap s a \<noteq> None \<Longrightarrow> agPM_Release md s a = Inr s' \<Longrightarrow> pm_run md now s'"
| pm_expire: "pm_run md now s \<Longrightarrow> try_unload_player_from_zombie_list md now fuel s = Some (Inr s') \<Longrightarrow> pm_run md now s'"

definition pm_good :: "int \<Rightarrow> ('m, 'w) manager \<Rightarrow> bool" where
  "pm_good now s \<longleftrightarrow> 0 \<le> now \<and> (\<exists>ys zs. pm_ok s ys zs \<and> clock_ok now s zs)"

lemma init_ok: "pm_ok (agPM_init w) [] []"
  by (auto simp: pm_ok_def active_ok_def zombie_ok_def zombie_table_def tables_ok_def online_at_def offline_at_def idle_def agPM_init_def dring_def detached_def)

lemma same_core_absent:
  assumes "pm_ok s' ys zs" and "tables_ok s" and "core s' = core s"
  shows "pm_online s' = pm_online s" and "pm_offline s' = pm_offline s"
proof -
  note t = tables_okD[OF assms(2)] and t' = tables_okD[OF pm_okD(4)[OF assms(1)]]
  show "pm_online s' = pm_online s"
  proof
    fix k show "pm_online s' k = pm_online s k" using t(2)[of "pm_online s k" k] t'(2)[of "pm_online s k" k] t(2)[of "pm_online s' k" k] t'(2)[of "pm_online s' k" k]
      unfolding assms(3) by metis
  qed
  show "pm_offline s' = pm_offline s"
  proof
    fix k show "pm_offline s' k = pm_offline s k" using t(3)[of "pm_offline s k" k] t'(3)[of "pm_offline s k" k] t(3)[of "pm_offline s' k" k] t'(3)[of "pm_offline s' k" k]
      unfolding assms(3) by metis
  qed
qed

lemma player_create_good:
  assumes "pm_good now s" and "names_fit md" and "pm_heap s a = None" and "pm_heap s c = None" and "length name < 32"
    and "player_create md now a c s k name head = Inr (b, s')"
  shows "pm_good now s'"
proof -
  obtain ys zs where s: "0 \<le> now" "pm_ok s ys zs" "clock_ok now s zs" using assms(1) by (auto simp: pm_good_def)
  obtain p s1 ys1 zs1 where g: "agPM_Get md now a s k = Inr (p, s1)" "pm_ok s1 ys1 zs1" "clock_ok now s1 zs1" "looked_up a k s p s1"
    using Get_ok[OF s(2,3,1) assms(2,3), of k] by blast
  show ?thesis
  proof (cases "p \<noteq> 0 \<or> k < 1")
    case True
    then have "s' = s1" using assms(6) g(1) by (auto simp: player_create_def agPM_Create_def split: if_splits)
    then show ?thesis using s(1) g by (auto simp: pm_good_def)
  next
    case False
    then have no: "pm_online s k = 0" "pm_offline s k = 0" "core s1 = core s" using g(4) assms(3) by (auto simp: looked_up_def split: if_splits)
    then have no1: "pm_online s1 k = 0" "pm_offline s1 k = 0" "pm_heap s1 c = None"
      using same_core_absent[OF g(2) pm_okD(4)[OF s(2)]] assms(4) core_None[of s1 c] core_None[of s c] by auto
    from Create_ok[OF g(2,3) s(1) no1(3,1,2) assms(5), of md head] show ?thesis
      using assms(6) g(1) False s(1) by (auto simp: player_create_def pm_good_def)
  qed
qed

lemma run_good:
  assumes "pm_run md now s" and fit: "names_fit md"
  shows "pm_good now s"
  using assms(1)
proof induction
  case (pm_start now w)
  moreover have "clock_ok now (agPM_init w) []" by (simp add: clock_ok_def)
  ultimately show ?case using init_ok[of w] unfolding pm_good_def by blast
next
  case (pm_later now s t)
  then show ?case by (force simp: pm_good_def clock_ok_def)
next
  case (pm_get now s a k b s')
  then obtain ys zs where s: "0 \<le> now" "pm_ok s ys zs" "clock_ok now s zs" by (auto simp: pm_good_def)
  from Get_ok[OF s(2,3,1) fit pm_get.hyps(2), of k] show ?case using pm_get.hyps(3) s(1) by (auto simp: pm_good_def)
next
  case (pm_getonline now s k b s')
  then obtain ys zs where s: "0 \<le> now" "pm_ok s ys zs" "clock_ok now s zs" by (auto simp: pm_good_def)
  from GetOnline_ok[OF s(2), of now k] show ?case using pm_getonline.hyps(2) s by (auto simp: pm_good_def clock_ok_def)
next
  case (pm_setconn now s a k conn s')
  then obtain ys zs where s: "0 \<le> now" "pm_ok s ys zs" "clock_ok now s zs" by (auto simp: pm_good_def)
  from set_conn_ok[OF s(2,3,1) fit pm_setconn.hyps(2), of k conn] show ?case using pm_setconn.hyps(3) s(1) by (auto simp: pm_good_def)
next
  case (pm_create now s a c name k head b s')
  then show ?case using player_create_good[OF _ fit] by blast
next
  case (pm_unload now s a s')
  then obtain ys zs p where s: "0 \<le> now" "pm_ok s ys zs" "clock_ok now s zs" "pm_heap s a = Some p" by (auto simp: pm_good_def)
  from Release_pm_ok[OF s(2-4), of md] show ?case using pm_unload.hyps(3) s(1) by (auto simp: pm_good_def)
next
  case (pm_expire now s fuel s')
  then obtain ys zs where s: "0 \<le> now" "pm_ok s ys zs" "clock_ok now s zs" by (auto simp: pm_good_def)
  obtain s2 ys' zs' where u: "try_unload_player_from_zombie_list md now (fuel + length zs) s = Some (Inr s2)" "pm_ok s2 ys' zs'" "clock_ok now s2 zs'"
    using unload_ok[OF s(2,3), of "fuel + length zs" md] by auto
  then have "s2 = s'" using unload_more[OF pm_expire.hyps(2), of "length zs"] by simp
  then show ?case using u(2,3) s(1) by (auto simp: pm_good_def)
qed

section \<open>Theorems\<close>

text \<open>C11: In every state the manager gets into, a player has at most one object; the map of the online players finds exactly those with a
  client, the map of the offline players and the table of the zombies exactly the others; and the next lookup, change of client or unloading
  returns, it does not hit one of the assertions of the lists.\<close>

theorem players_filed_once:
  assumes "pm_run md now s" and "names_fit md"
  shows "(\<forall>a b p q. pm_heap s a = Some p \<and> pm_heap s b = Some q \<and> pl_id p = pl_id q \<longrightarrow> a = b)
     \<and> (\<forall>k a. a \<noteq> 0 \<longrightarrow> (pm_online s k = a \<longleftrightarrow> (\<exists>p. pm_heap s a = Some p \<and> pl_id p = k \<and> pl_conn p \<noteq> INVALID_ID))
          \<and> (pm_offline s k = a \<longleftrightarrow> (\<exists>p. pm_heap s a = Some p \<and> pl_id p = k \<and> pl_conn p = INVALID_ID)))
     \<and> get_player_from_zombie_list s = pm_offline s
     \<and> (\<forall>a k conn. pm_heap s a = None \<longrightarrow> (\<exists>r. agPM_Get md now a s k = Inr r) \<and> (\<exists>r. player_set_conn md now a s k conn = Inr r))
     \<and> (\<forall>a. pm_heap s a \<noteq> None \<longrightarrow> (\<exists>s'. agPM_Release md s a = Inr s'))"
proof -
  obtain ys zs where s: "0 \<le> now" "pm_ok s ys zs" "clock_ok now s zs" using run_good[OF assms] by (auto simp: pm_good_def)
  note d = pm_okD[OF s(2)] and t = tables_okD[OF pm_okD(4)[OF s(2)]]
  have "a = b" if "pm_heap s a = Some p" "pm_heap s b = Some q" "pl_id p = pl_id q" for a b p q
    using unique_core[OF d(4) core_someI[OF that(1)]] core_someI[OF that(2)] that(3) by metis
  moreover have "(pm_online s k = a \<longleftrightarrow> (\<exists>p. pm_heap s a = Some p \<and> pl_id p = k \<and> pl_conn p \<noteq> INVALID_ID))
      \<and> (pm_offline s k = a \<longleftrightarrow> (\<exists>p. pm_heap s a = Some p \<and> pl_id p = k \<and> pl_conn p = INVALID_ID))" if "a \<noteq> 0" for k a
    using t(2,3)[OF that, of k] by (auto simp: core_Some)
  moreover have "get_player_from_zombie_list s k = pm_offline s k" for k
  proof -
    have "zombie_table s k = a \<longleftrightarrow> pm_offline s k = a" if "a \<noteq> 0" for a
      using zombie_okD(4)[OF d(3) that, of k] t(3)[OF that, of k] d(5) by (auto simp: idle_core core_Some)
    then have "zombie_table s k = pm_offline s k" by metis
    then show ?thesis by (simp add: get_player_from_zombie_list_def zombie_table_def split: option.splits)
  qed
  moreover have "\<exists>r. agPM_Get md now a s k = Inr r" "\<exists>r. player_set_conn md now a s k conn = Inr r" if "pm_heap s a = None" for a k conn
    using Get_ok[OF s(2,3,1) assms(2) that, of k] set_conn_ok[OF s(2,3,1) assms(2) that, of k conn] by blast+
  moreover have "\<exists>s'. agPM_Release md s a = Inr s'" if "pm_heap s a \<noteq> None" for a
    using Release_pm_ok[OF s(2,3), of a] that by blast
  ultimately show ?thesis by blast
qed

text \<open>A world with one player, number \<open>2 ^ 32 + 7\<close>, whose client is connection 3; the data of a module is its name.\<close>

definition md_example :: "(byte list, unit) modules" where
  "md_example =
     \<lparr>md_new = (\<lambda>m k w. (Some [65], w)), md_load = (\<lambda>m k w. (if k = 2 ^ 32 + 7 then Some [65] else None, w)), md_update = (\<lambda>m k d t w. (d, w)),
      md_save = (\<lambda>m k d w. w), md_release = (\<lambda>m k d w. w), md_name = take 31, md_set_head = (\<lambda>h d. d), md_flush = (\<lambda>w. w)\<rparr>"

definition pm_example :: "(byte list, unit) manager" where
  "pm_example = (case player_set_conn md_example 10 1 (agPM_init ()) (2 ^ 32 + 7) 3 of Inl _ \<Rightarrow> agPM_init () | Inr s \<Rightarrow> s)"

lemma example_fits: "names_fit md_example"
  by (auto simp: names_fit_def md_example_def)

lemma example_run: "pm_run md_example 10 pm_example"
proof -
  have i: "pm_run md_example 10 (agPM_init ())" by (rule pm_start) simp
  obtain s where c: "player_set_conn md_example 10 1 (agPM_init ()) (2 ^ 32 + 7) 3 = Inr s"
    using set_conn_ok[OF init_ok _ _ example_fits, of 10 "()" 1 "2 ^ 32 + 7" 3] by (auto simp: clock_ok_def agPM_init_def)
  then show ?thesis using pm_setconn[OF i _ c] by (simp add: pm_example_def agPM_init_def)
qed

lemmas pm_eval = pm_example_def player_set_conn_def agPM_Get_def agPM_init_def INVALID_ID_def player_load_sample_def player_load_module_def
  md_example_def afterLoad_def player_get_module_def player_update_module_def PLAYER_MODULE_PROPERTY_def player_modules_count_def
  blank_player_def enter_player_def place_player_def try_add_player_to_zombie_list_def with_player_def dlist_remove_def dlist_insert_tail_def
  set_name_def update_player_active_list_def agPM_SetOnline_def try_remove_player_from_zombie_list_def Let_def

lemma example_state:
  "pm_online pm_example (2 ^ 32 + 7) = 1" "pm_online pm_example 7 = 0" "pm_heap pm_example 2 = None" "pm_heap pm_example 3 = None"
  by (simp_all add: pm_eval)

theorem players_filed_once_witness:
  "pm_run md_example 10 pm_example \<and> names_fit md_example \<and> pm_online pm_example (2 ^ 32 + 7) = 1
     \<and> (\<exists>p. pm_heap pm_example 1 = Some p \<and> pl_id p = 2 ^ 32 + 7 \<and> pl_conn p \<noteq> INVALID_ID)"
  using players_filed_once[OF example_run example_fits] example_run example_fits example_state(1) by auto


lemma example_get: "\<exists>s'. agPM_Get md_example 10 2 pm_example (2 ^ 32 + 7) = Inr (1, s') \<and> pm_heap s' 3 = None"
proof -
  obtain ys zs where s: "pm_ok pm_example ys zs" "clock_ok 10 pm_example zs" using run_good[OF example_run example_fits] by (auto simp: pm_good_def)
  obtain b s' where g: "agPM_Get md_example 10 2 pm_example (2 ^ 32 + 7) = Inr (b, s')" "looked_up 2 (2 ^ 32 + 7) pm_example b s'"
    using Get_ok[OF s _ example_fits example_state(3), of "2 ^ 32 + 7"] by auto
  then have "b = 1" "core s' = core pm_example" using example_state(1) by (simp_all add: looked_up_def)
  then show ?thesis using g(1) example_state(4) core_None[of s' 3] core_None[of pm_example 3] by auto
qed


text \<open>C12: \<open>try_unload_player_from_zombie_list\<close>, which the world runs before every message, returns and takes exactly the players out of memory that
  have no client and that nobody has asked for in the last 15 minutes.\<close>

theorem idle_players_unloaded:
  assumes "pm_run md now s" and "names_fit md"
  shows "\<exists>n. \<forall>fuel \<ge> n. \<exists>s'. try_unload_player_from_zombie_list md now fuel s = Some (Inr s')
     \<and> pm_heap s' = (\<lambda>a. case pm_heap s a of None \<Rightarrow> None
          | Some p \<Rightarrow> if pl_conn p = INVALID_ID \<and> now - pl_zombie_time p > 15 * 60 then None else Some p)"
proof -
  obtain ys zs where s: "pm_ok s ys zs" "clock_ok now s zs" using run_good[OF assms] by (auto simp: pm_good_def)
  have idle: "a \<in> set zs \<longleftrightarrow> (\<exists>p. pm_heap s a = Some p \<and> pl_conn p = INVALID_ID)" for a
    unfolding pm_okD(5)[OF s(1)] by (auto simp: idle_def offline_at_def)
  have "(\<lambda>a. if a \<in> set zs \<and> now - idle_since s a > YQ_MAX_ZOMBIE_TIME then None else pm_heap s a) = (\<lambda>a. case pm_heap s a of None \<Rightarrow> None
          | Some p \<Rightarrow> if pl_conn p = INVALID_ID \<and> now - pl_zombie_time p > 15 * 60 then None else Some p)"
    by (rule ext) (auto simp: idle idle_since_def YQ_MAX_ZOMBIE_TIME_def split: option.splits)
  then show ?thesis using unload_ok[OF s, of _ md] by (intro exI[of _ "length zs"]) fastforce
qed

text \<open>A world that has loaded the player but where it has no client.\<close>

definition pm_idle_example :: "(byte list, unit) manager" where
  "pm_idle_example = (case agPM_Get md_example 10 1 (agPM_init ()) (2 ^ 32 + 7) of Inl _ \<Rightarrow> agPM_init () | Inr (_, s) \<Rightarrow> s)"

lemma idle_example: "pm_run md_example 10 pm_idle_example" "\<exists>p. pm_heap pm_idle_example 1 = Some p \<and> pl_conn p = INVALID_ID \<and> pl_zombie_time p = 10"
proof -
  have i: "pm_run md_example 10 (agPM_init ())" by (rule pm_start) simp
  obtain b s where g: "agPM_Get md_example 10 1 (agPM_init ()) (2 ^ 32 + 7) = Inr (b, s)"
    using Get_ok[OF init_ok _ _ example_fits, of 10 "()" 1 "2 ^ 32 + 7"] by (auto simp: clock_ok_def agPM_init_def)
  then show "pm_run md_example 10 pm_idle_example" using pm_get[OF i _ g] by (simp add: pm_idle_example_def agPM_init_def)
  show "\<exists>p. pm_heap pm_idle_example 1 = Some p \<and> pl_conn p = INVALID_ID \<and> pl_zombie_time p = 10"
    by (simp add: pm_idle_example_def pm_eval)
qed

theorem idle_players_unloaded_witness:
  "pm_heap pm_idle_example 1 \<noteq> None
     \<and> (\<exists>fuel s'. try_unload_player_from_zombie_list md_example 911 fuel pm_idle_example = Some (Inr s') \<and> pm_heap s' 1 = None)"
proof -
  have r: "pm_run md_example 911 pm_idle_example" by (rule pm_later[OF idle_example(1)]) simp
  obtain p where p: "pm_heap pm_idle_example 1 = Some p" "pl_conn p = INVALID_ID" "pl_zombie_time p = 10" using idle_example(2) by blast
  show ?thesis using idle_players_unloaded[OF r example_fits] p by fastforce
qed

text \<open>C37: Numbers of players carry the number of the server in their upper half. The logout passes the number through the \<open>unsigned int\<close> parameter of
  \<open>agPM_SetOffline\<close>: unless some other online player happens to have just the lower half as its number, nothing changes. The player stays online
  with the old connection, and no amount of time takes it out of memory.\<close>

theorem logout_keeps_client:
  assumes "pm_run md now s" and "names_fit md" and "pm_online s k = b" and "b \<noteq> 0" and "pm_online s (ucast (ucast k :: u32)) = 0"
  shows "player_set_conn md now a s k INVALID_ID = Inr s
     \<and> (\<exists>c s'. player_get_conn now s k = Inr (c, s') \<and> c \<noteq> INVALID_ID)
     \<and> (\<forall>t fuel s'. now \<le> t \<and> try_unload_player_from_zombie_list md t fuel s = Some (Inr s') \<longrightarrow> pm_heap s' b = pm_heap s b \<and> pm_heap s b \<noteq> None)"
proof -
  obtain ys zs where s: "0 \<le> now" "pm_ok s ys zs" "clock_ok now s zs" using run_good[OF assms(1,2)] by (auto simp: pm_good_def)
  have "player_set_conn md now a s k INVALID_ID = Inr s"
    using SetOffline_ok[OF s(2,3), of "ucast k"] assms(5) by (auto simp: player_set_conn_def)
  moreover have "\<exists>c s'. player_get_conn now s k = Inr (c, s') \<and> c \<noteq> INVALID_ID"
  proof -
    obtain s1 ys1 where g: "agPM_GetOnline now s k = Inr (b, s1)" "tframe s s1" using GetOnline_ok[OF s(2), of now k] assms(3) by blast
    obtain p where p: "pm_heap s b = Some p" "pl_conn p \<noteq> INVALID_ID" using online_get(3)[OF s(2), of k] assms(3,4) by (auto simp: online_at_def)
    then show ?thesis using heap_frame[OF g(2) p(1)] g(1) assms(4) by (auto simp: player_get_conn_def with_player_def)
  qed
  moreover have "pm_heap s' b = pm_heap s b \<and> pm_heap s b \<noteq> None" if "now \<le> t" "try_unload_player_from_zombie_list md t fuel s = Some (Inr s')" for t fuel s'
  proof -
    have b: "b \<notin> set zs" "b \<in> set ys" using online_get(1,2)[OF s(2), of k] assms(3,4) by auto
    have "clock_ok t s zs" using s(3) that(1) by (auto simp: clock_ok_def)
    then obtain s2 where u: "try_unload_player_from_zombie_list md t (fuel + length zs) s = Some (Inr s2)"
      "pm_heap s2 = (\<lambda>a. if a \<in> set zs \<and> t - idle_since s a > YQ_MAX_ZOMBIE_TIME then None else pm_heap s a)"
      using unload_ok[OF s(2), of t "fuel + length zs" md] by auto
    have "s2 = s'" using u(1) unload_more[OF that(2), of "length zs"] by simp
    then show ?thesis using u(2) b pm_okD(2)[OF s(2)] by auto
  qed
  ultimately show ?thesis by blast
qed

theorem logout_keeps_client_witness:
  "player_set_conn md_example 10 2 pm_example (2 ^ 32 + 7) INVALID_ID = Inr pm_example \<and> pm_online pm_example (2 ^ 32 + 7) = 1"
proof -
  have "(ucast (ucast (2 ^ 32 + 7 :: u64) :: u32) :: u64) = 7" by simp
  then show ?thesis using logout_keeps_client[OF example_run example_fits example_state(1), of 2] example_state(1,2) by simp
qed

end
