(* ===== verification/RequestQueue.thy ===== *)
theory RequestQueue
  imports DList
begin

text \<open>
  The queue of requests of a player, \<^verbatim>\<open>src/world/modules/request_queue.c\<close>: a doubly linked list with head and tail. A request that is being
  worked on stays at the head until it is done. The items of a queue are in a store of their own; \<open>a\<close> is the address \<open>malloc\<close> returns, \<open>now\<close> is
  \<open>agT_current()\<close>. The network object, the channel and the number of a remote call, which the module only carries, are left out.
\<close>

section \<open>State and operations\<close>

record request_item =
  ri_prev :: addr
  ri_next :: addr
  ri_context :: addr
  ri_busy :: bool
  ri_create_time :: int
  ri_playerid :: u64
  ri_cmd :: u32
  ri_flag :: u32
  ri_data :: "byte list"

record request_queue =
  rq_pid :: u64
  rq_head :: addr
  rq_tail :: addr
  rq_items :: "addr \<Rightarrow> request_item option"

definition request_queue_new :: "u64 \<Rightarrow> request_queue" where
  "request_queue_new pid = \<lparr>rq_pid = pid, rq_head = 0, rq_tail = 0, rq_items = (\<lambda>_. None)\<rparr>"

text \<open>Loading makes an empty queue too.\<close>

definition request_queue_load :: "u64 \<Rightarrow> request_queue" where
  "request_queue_load pid = \<lparr>rq_pid = pid, rq_head = 0, rq_tail = 0, rq_items = (\<lambda>_. None)\<rparr>"

fun request_queue_release :: "nat \<Rightarrow> addr \<Rightarrow> (addr \<Rightarrow> request_item option) \<Rightarrow> (addr \<Rightarrow> request_item option) res option" where
  "request_queue_release fuel p h =
     (if p = 0 then Some (Inr h)
      else case fuel of
        0 \<Rightarrow> None
      | Suc fuel \<Rightarrow> (case h p of None \<Rightarrow> Some (Inl UseAfterFree) | Some x \<Rightarrow> request_queue_release fuel (ri_next x) (h(p := None))))"

declare request_queue_release.simps [simp del]

definition queue_push :: "int \<Rightarrow> addr \<Rightarrow> u64 \<Rightarrow> u32 \<Rightarrow> u32 \<Rightarrow> byte list \<Rightarrow> request_queue \<Rightarrow> request_queue res" where
  "queue_push now a pid cmd flag data q =
     (if data = [] then Inl Assertion
      else
        let x = \<lparr>ri_prev = 0, ri_next = 0, ri_context = 0, ri_busy = False, ri_create_time = now, ri_playerid = pid, ri_cmd = cmd, ri_flag = flag, ri_data = data\<rparr>
        in if rq_head q = 0 then Inr (q\<lparr>rq_head := a, rq_tail := a, rq_items := (rq_items q)(a \<mapsto> x)\<rparr>)
           else
             case rq_items q (rq_tail q) of
               None \<Rightarrow> Inl UseAfterFree
             | Some t \<Rightarrow>
                 Inr (q\<lparr>rq_items := (rq_items q)(rq_tail q \<mapsto> t\<lparr>ri_next := a\<rparr>, a \<mapsto> x\<lparr>ri_prev := rq_tail q\<rparr>), rq_tail := a\<rparr>))"

definition queue_pop :: "request_queue \<Rightarrow> request_queue res" where
  "queue_pop q =
     (if rq_head q = 0 then Inr q
      else if rq_head q = rq_tail q then Inr (q\<lparr>rq_items := (rq_items q)(rq_head q := None), rq_head := 0, rq_tail := 0\<rparr>)
      else
        case rq_items q (rq_head q) of
          None \<Rightarrow> Inl UseAfterFree
        | Some x \<Rightarrow>
            if ri_next x = 0 then Inl NullDeref
            else
              case rq_items q (ri_next x) of
                None \<Rightarrow> Inl UseAfterFree
              | Some y \<Rightarrow> Inr (q\<lparr>rq_items := ((rq_items q)(ri_next x \<mapsto> y\<lparr>ri_prev := 0\<rparr>))(rq_head q := None), rq_head := ri_next x\<rparr>))"

definition queue_front :: "request_queue \<Rightarrow> addr" where
  "queue_front q = rq_head q"

section \<open>Queues of requests\<close>

text \<open>The chain from \<open>p\<close> on, where \<open>b\<close> is the item before it.\<close>

fun qchain :: "(addr \<Rightarrow> request_item option) \<Rightarrow> addr \<Rightarrow> addr \<Rightarrow> addr list \<Rightarrow> bool" where
  "qchain h b p [] \<longleftrightarrow> p = 0"
| "qchain h b p (x # xs) \<longleftrightarrow> p = x \<and> x \<noteq> 0 \<and> (case h x of None \<Rightarrow> False | Some i \<Rightarrow> ri_prev i = b \<and> qchain h x (ri_next i) xs)"

definition queue_ok :: "request_queue \<Rightarrow> addr list \<Rightarrow> bool" where
  "queue_ok q xs \<longleftrightarrow> qchain (rq_items q) 0 (rq_head q) xs \<and> distinct xs \<and> rq_tail q = (if xs = [] then 0 else last xs)"

text \<open>The requests in a queue: what is left of an item without its links.\<close>

type_synonym request = "u64 \<times> u32 \<times> u32 \<times> byte list \<times> bool"

definition request_of :: "request_item \<Rightarrow> request" where
  "request_of i = (ri_playerid i, ri_cmd i, ri_flag i, ri_data i, ri_busy i)"

definition requests :: "request_queue \<Rightarrow> addr list \<Rightarrow> request list" where
  "requests q xs = map (\<lambda>a. request_of (the (rq_items q a))) xs"

lemma qchain_cong: "(\<And>x. x \<in> set xs \<Longrightarrow> h' x = h x) \<Longrightarrow> qchain h' b p xs = qchain h b p xs"
  by (induction xs arbitrary: b p) (auto split: option.splits)

lemma qchain_live: "qchain h b p xs \<Longrightarrow> x \<in> set xs \<Longrightarrow> \<exists>i. h x = Some i \<and> x \<noteq> 0"
  by (induction xs arbitrary: b p) (auto split: option.splits)

lemma qchain_snoc:
  assumes "qchain h b p xs" and "distinct xs" and "xs \<noteq> []" and "h (last xs) = Some t" and "a \<notin> set xs" and "a \<noteq> 0" and "ri_prev x = last xs" and "ri_next x = 0"
  shows "qchain (h(last xs \<mapsto> t\<lparr>ri_next := a\<rparr>, a \<mapsto> x)) b p (xs @ [a])"
  using assms
proof (induction xs arbitrary: b p)
  case (Cons y ys)
  show ?case
  proof (cases "ys = []")
    case False
    obtain i where "h y = Some i" "ri_prev i = b" "qchain h y (ri_next i) ys" using Cons.prems(1) by (auto split: option.splits)
    then show ?thesis using Cons False by auto
  qed (use Cons.prems in auto)
qed simp

lemma push_ok:
  assumes "queue_ok q xs" and "a \<noteq> 0" and "rq_items q a = None" and "data \<noteq> []"
  shows "\<exists>q'. queue_push now a pid cmd flag data q = Inr q' \<and> queue_ok q' (xs @ [a]) \<and> requests q' (xs @ [a]) = requests q xs @ [(pid, cmd, flag, data, False)]"
proof -
  let ?x = "\<lparr>ri_prev = 0, ri_next = 0, ri_context = 0, ri_busy = False, ri_create_time = now, ri_playerid = pid, ri_cmd = cmd, ri_flag = flag, ri_data = data\<rparr>"
  have d: "qchain (rq_items q) 0 (rq_head q) xs" "distinct xs" "rq_tail q = (if xs = [] then 0 else last xs)" using assms(1) by (simp_all add: queue_ok_def)
  have a: "a \<notin> set xs" using qchain_live[OF d(1), of a] assms(3) by auto
  show ?thesis
  proof (cases "xs = []")
    case True
    then show ?thesis using d assms(2,4) by (auto simp: queue_push_def queue_ok_def requests_def request_of_def)
  next
    case False
    then have h: "rq_head q \<noteq> 0" "rq_tail q = last xs" using d by (cases xs; simp)+
    obtain t where t: "rq_items q (last xs) = Some t" using qchain_live[OF d(1)] False by force
    let ?q = "q\<lparr>rq_items := (rq_items q)(last xs \<mapsto> t\<lparr>ri_next := a\<rparr>, a \<mapsto> ?x\<lparr>ri_prev := last xs\<rparr>), rq_tail := a\<rparr>"
    have "qchain (rq_items ?q) 0 (rq_head q) (xs @ [a])" using qchain_snoc[OF d(1,2) False t a assms(2), of "?x\<lparr>ri_prev := last xs\<rparr>"] by simp
    then have "queue_ok ?q (xs @ [a])" using d(2) a by (simp add: queue_ok_def)
    moreover have "requests ?q (xs @ [a]) = requests q xs @ [(pid, cmd, flag, data, False)]"
      using t a by (auto simp: requests_def request_of_def)
    moreover have "queue_push now a pid cmd flag data q = Inr ?q" using h t assms(4) by (simp add: queue_push_def Let_def)
    ultimately show ?thesis by blast
  qed
qed

lemma pop_ok:
  assumes "queue_ok q (x # xs)"
  shows "\<exists>q'. queue_pop q = Inr q' \<and> queue_ok q' xs \<and> requests q' xs = requests q xs \<and> (\<forall>a. a \<notin> set (x # xs) \<longrightarrow> rq_items q' a = rq_items q a)"
proof -
  obtain i where i: "rq_head q = x" "x \<noteq> 0" "rq_items q x = Some i" "qchain (rq_items q) x (ri_next i) xs" "x \<notin> set xs" "distinct xs"
    "rq_tail q = last (x # xs)"
    using assms by (auto simp: queue_ok_def split: option.splits)
  show ?thesis
  proof (cases xs)
    case Nil
    then show ?thesis using i by (auto simp: queue_pop_def queue_ok_def requests_def)
  next
    case (Cons y ys)
    obtain j where j: "ri_next i = y" "y \<noteq> 0" "rq_items q y = Some j" "qchain (rq_items q) y (ri_next j) ys" using i(4) Cons by (auto split: option.splits)
    have n: "y \<noteq> x" "y \<notin> set ys" "x \<notin> set ys" "last (x # xs) \<noteq> x" using i(5,6) Cons by (auto dest: last_in_set split: if_splits)
    let ?h = "((rq_items q)(y \<mapsto> j\<lparr>ri_prev := 0\<rparr>))(x := None)"
    let ?q = "q\<lparr>rq_items := ?h, rq_head := y\<rparr>"
    have "qchain ?h y (ri_next j) ys" using j(4) n by (subst qchain_cong[where h = "rq_items q"]) auto
    then have "queue_ok ?q xs" using i(6,7) j(2) n Cons by (simp add: queue_ok_def)
    moreover have "requests ?q xs = requests q xs" using Cons j(3) n by (auto simp: requests_def request_of_def)
    moreover have "queue_pop q = Inr ?q" using i(1,2,3,7) j(1,2,3) n by (simp add: queue_pop_def)
    ultimately show ?thesis using Cons by auto
  qed
qed

lemma front_ok: "queue_ok q xs \<Longrightarrow> queue_front q = (case xs of [] \<Rightarrow> 0 | x # _ \<Rightarrow> x)"
  by (cases xs) (auto simp: queue_front_def queue_ok_def)

lemma new_ok: "queue_ok (request_queue_new pid) []"
  by (simp add: queue_ok_def request_queue_new_def)

lemma release_ok:
  assumes "qchain h b p xs" and "distinct xs" and "length xs \<le> fuel"
  shows "request_queue_release fuel p h = Some (Inr (\<lambda>a. if a \<in> set xs then None else h a))"
  using assms
proof (induction xs arbitrary: h b p fuel)
  case Nil
  then show ?case by (subst request_queue_release.simps) auto
next
  case (Cons x xs)
  obtain i where i: "h x = Some i" "p = x" "x \<noteq> 0" "qchain h x (ri_next i) xs" using Cons.prems(1) by (auto split: option.splits)
  obtain f where f: "fuel = Suc f" "length xs \<le> f" using Cons.prems(3) by (cases fuel) auto
  have x: "x \<notin> set xs" "distinct xs" using Cons.prems(2) by simp_all
  have "qchain (h(x := None)) x (ri_next i) xs" using i(4) x(1) by (subst qchain_cong[where h = h]) auto
  note IH = Cons.IH[OF this x(2) f(2)]
  have "(\<lambda>a. if a \<in> set xs then None else (h(x := None)) a) = (\<lambda>a. if a \<in> set (x # xs) then None else h a)" by (rule ext) simp
  then have "request_queue_release f (ri_next i) (h(x := None)) = Some (Inr (\<lambda>a. if a \<in> set (x # xs) then None else h a))" using IH by (simp only:)
  then show ?case unfolding i(2) f(1) using i(1,3) by (subst request_queue_release.simps) (simp only: nat.case option.case if_False)
qed

end
