(* ===== verification/Dispatch.thy ===== *)
theory Dispatch
  imports PlayerMain RequestQueue GwMsg Package
begin

text \<open>
  How a world works off the messages that the gateway sends it, \<^verbatim>\<open>src/world/dispatch.c\<close>: the requests of a player go through the queue of the player
  (\<^verbatim>\<open>src/world/modules/request_queue.c\<close>), logins and the creation of a player are worked on at once.

  The state is the player manager; the data of a module is the queue of requests or, for the other modules, of type \<open>'x\<close>. The record
  \<open>services\<close> holds what the dispatcher calls: the table of the modules, the addresses \<open>malloc\<close> returns, the checks of
  \<^verbatim>\<open>src/world/addicted.c\<close> and \<^verbatim>\<open>src/world/realtime.c\<close>, sending on a connection, the switch over the command with its handlers
  (\<open>sv_command\<close>) and what follows every command, \<open>agEvent_schedule\<close>, \<open>DATA_FLUSH_ALL\<close> and \<open>notification_clean\<close>, together (\<open>sv_finish\<close>).
  These see the whole state.
\<close>

section \<open>The queue of a player\<close>

type_synonym 'x mdata = "request_queue + 'x"
type_synonym ('x, 'w) world = "('x mdata, 'w) manager"

record ('x, 'w) services =
  sv_modules :: "('x mdata, 'w) modules"
  sv_malloc :: "('x, 'w) world \<Rightarrow> addr"
  sv_item :: "request_queue \<Rightarrow> addr"
  sv_can_login :: "int \<Rightarrow> u64 \<Rightarrow> ('x, 'w) world \<Rightarrow> (bool \<times> ('x, 'w) world) res"
  sv_login :: "int \<Rightarrow> u64 \<Rightarrow> ('x, 'w) world \<Rightarrow> ('x, 'w) world res"
  sv_online_add :: "u64 \<Rightarrow> ('x, 'w) world \<Rightarrow> ('x, 'w) world"
  sv_send :: "resid_t \<Rightarrow> byte list \<Rightarrow> 'w \<Rightarrow> 'w"
  sv_command :: "resid_t \<Rightarrow> u64 \<Rightarrow> u32 \<Rightarrow> u32 \<Rightarrow> amf_value option \<Rightarrow> byte list option \<Rightarrow> ('x, 'w) world \<Rightarrow> ('x, 'w) world res"
  sv_finish :: "('x, 'w) world \<Rightarrow> ('x, 'w) world res"

text \<open>\<open>player_get\<close> and \<open>player_get_module\<close> as the three operations on the queue begin: the queue of the player and where it is, nothing when
  there is no such player.\<close>

definition player_queue :: "('x, 'w) services \<Rightarrow> int \<Rightarrow> u64 \<Rightarrow> ('x, 'w) world \<Rightarrow> ((addr \<times> request_queue) option \<times> ('x, 'w) world) res" where
  "player_queue sv now k s =
     res_bind (agPM_Get (sv_modules sv) now (sv_malloc sv s) s k) (\<lambda>(b, s).
       if b = 0 then Inr (None, s)
       else with_player s b (\<lambda>p.
         res_bind (player_get_module (sv_modules sv) now PLAYER_MODULE_REQUEST_QUEUE p (pm_world s)) (\<lambda>(d, p, w).
           case d of
             None \<Rightarrow> Inl NullDeref
           | Some (Inr _) \<Rightarrow> Inl BadCast
           | Some (Inl q) \<Rightarrow> Inr (Some (b, q), s\<lparr>pm_heap := (pm_heap s)(b \<mapsto> p), pm_world := w\<rparr>))))"

definition store_queue :: "addr \<Rightarrow> request_queue \<Rightarrow> ('x, 'w) world \<Rightarrow> ('x, 'w) world" where
  "store_queue b q s =
     s\<lparr>pm_heap := (pm_heap s)(b := map_option (\<lambda>p. p\<lparr>pl_data := (pl_data p)(PLAYER_MODULE_REQUEST_QUEUE \<mapsto> Inl q)\<rparr>) (pm_heap s b))\<rparr>"

text \<open>A length that wrapped around (\<open>None\<close>) makes \<open>memcpy\<close> read past the message.\<close>

definition request_queue_push :: "('x, 'w) services \<Rightarrow> int \<Rightarrow> u64 \<Rightarrow> u32 \<Rightarrow> u32 \<Rightarrow> byte list option \<Rightarrow> ('x, 'w) world \<Rightarrow> ('x, 'w) world res" where
  "request_queue_push sv now k cmd flag body s =
     res_bind (player_queue sv now k s) (\<lambda>(r, s).
       case r of
         None \<Rightarrow> Inr s
       | Some (b, q) \<Rightarrow>
           (case body of
              None \<Rightarrow> Inl OutOfBounds
            | Some data \<Rightarrow> res_bind (queue_push now (sv_item sv q) k cmd flag data q) (\<lambda>q. Inr (store_queue b q s))))"

definition request_queue_pop :: "('x, 'w) services \<Rightarrow> int \<Rightarrow> u64 \<Rightarrow> ('x, 'w) world \<Rightarrow> ('x, 'w) world res" where
  "request_queue_pop sv now k s =
     res_bind (player_queue sv now k s) (\<lambda>(r, s).
       case r of None \<Rightarrow> Inr s | Some (b, q) \<Rightarrow> res_bind (queue_pop q) (\<lambda>q. Inr (store_queue b q s)))"

text \<open>The front of the queue: its address, with the item it points at.\<close>

definition request_queue_front :: "('x, 'w) services \<Rightarrow> int \<Rightarrow> u64 \<Rightarrow> ('x, 'w) world \<Rightarrow> ((addr \<times> request_item) option \<times> ('x, 'w) world) res" where
  "request_queue_front sv now k s =
     res_bind (player_queue sv now k s) (\<lambda>(r, s).
       case r of
         None \<Rightarrow> Inr (None, s)
       | Some (b, q) \<Rightarrow>
           if queue_front q = 0 then Inr (None, s)
           else (case rq_items q (queue_front q) of None \<Rightarrow> Inl UseAfterFree | Some x \<Rightarrow> Inr (Some (queue_front q, x), s)))"

section \<open>Requests\<close>

definition LOGOUT_ADMIN_KICK :: u32 where "LOGOUT_ADMIN_KICK = 3"

text \<open>\<open>Kick\<close> writes the lower half of the number and leaves \<open>serverid\<close> at zero.\<close>

definition kick_packet :: "u64 \<Rightarrow> u32 \<Rightarrow> byte list res" where
  "kick_packet pid reason =
     res_bind (encode_message (1024 - translate_header_size)
       [\<lambda>k. amf_encode_array k 3, \<lambda>k. amf_encode_integer k 0, \<lambda>k. amf_encode_integer k 0, \<lambda>k. amf_encode_integer k reason]) (\<lambda>msg.
     Inr (put_translate_header \<lparr>th_len = word_of_nat (translate_header_size + length msg), th_sn = 0, th_playerid = ucast pid, th_flag = 1, th_cmd = 4,
       th_serverid = 0\<rparr> @ msg))"

definition Kick :: "('x, 'w) services \<Rightarrow> resid_t \<Rightarrow> u64 \<Rightarrow> u32 \<Rightarrow> ('x, 'w) world \<Rightarrow> ('x, 'w) world res" where
  "Kick sv conn pid reason s = res_bind (kick_packet pid reason) (\<lambda>b. Inr (s\<lparr>pm_world := sv_send sv conn b (pm_world s)\<rparr>))"

text \<open>\<open>kickPlayer\<close>, with \<open>aL_logout\<close> as an argument.\<close>

definition kickPlayer :: "('x, 'w) services \<Rightarrow> (u64 \<Rightarrow> ('x, 'w) world \<Rightarrow> ('x, 'w) world res) \<Rightarrow> int \<Rightarrow> u64 \<Rightarrow> u32 \<Rightarrow> ('x, 'w) world \<Rightarrow> ('x, 'w) world res" where
  "kickPlayer sv logout now k reason s =
     res_bind (player_get_conn now s k) (\<lambda>(xconn, s). res_bind (Kick sv xconn k reason s) (logout k))"

text \<open>What \<open>process_request\<close> makes of the body: the decoded value, \<open>None\<close> when the player is to be kicked.\<close>

definition decode_request :: "u32 \<Rightarrow> byte list option \<Rightarrow> amf_value option option res" where
  "decode_request flag body =
     (if flag = 1 then
        (case body of
           None \<Rightarrow> Inl OutOfBounds
         | Some data \<Rightarrow>
             (case amf_read data of
                Inl f \<Rightarrow> Inl f
              | Inr (None, _) \<Rightarrow> Inr None
              | Inr (Some (v, read_len), _) \<Rightarrow>
                  if read_len \<noteq> length data then Inr None
                  else if amf_type_of (Some v) \<noteq> amf_array then Inr None
                  else Inr (Some (Some v))))
      else if flag = 2 then Inr (Some None)
      else Inr None)"

text \<open>\<open>process_request\<close>; the result is whether it returned 0.\<close>

definition process_request :: "('x, 'w) services \<Rightarrow> resid_t \<Rightarrow> u64 \<Rightarrow> u32 \<Rightarrow> u32 \<Rightarrow> byte list option \<Rightarrow> ('x, 'w) world \<Rightarrow> (bool \<times> ('x, 'w) world) res" where
  "process_request sv conn k command flag body s =
     res_bind (decode_request flag body) (\<lambda>r.
       case r of
         None \<Rightarrow> res_bind (Kick sv conn k LOGOUT_ADMIN_KICK s) (\<lambda>s. Inr (False, s))
       | Some v \<Rightarrow> res_bind (sv_command sv conn k command flag v body s) (\<lambda>s. res_bind (sv_finish sv s) (\<lambda>s. Inr (True, s))))"

datatype pnr = PNR_ERROR | PNR_MORE | PNR_BUSY | PNR_EMPTY

definition process_next_request :: "('x, 'w) services \<Rightarrow> int \<Rightarrow> u64 \<Rightarrow> ('x, 'w) world \<Rightarrow> (pnr \<times> ('x, 'w) world) res" where
  "process_next_request sv now k s =
     res_bind (agPM_GetOnline now s k) (\<lambda>(player, s).
       if player = 0 then Inr (PNR_EMPTY, s)
       else
         res_bind (request_queue_front sv now k s) (\<lambda>(front, s).
           case front of
             None \<Rightarrow> Inr (PNR_EMPTY, s)
           | Some (item, x) \<Rightarrow>
               if ri_busy x then Inr (PNR_BUSY, s)
               else
                 res_bind (player_get_conn now s (ri_playerid x)) (\<lambda>(conn, s).
                 res_bind (process_request sv conn (ri_playerid x) (ri_cmd x) (ri_flag x) (Some (ri_data x)) s) (\<lambda>(done, s).
                   if \<not> done then Inr (PNR_ERROR, s)
                   else
                     res_bind (request_queue_front sv now k s) (\<lambda>(front, s).
                       case front of
                         None \<Rightarrow> Inr (PNR_EMPTY, s)
                       | Some (tmp_item, y) \<Rightarrow>
                           if tmp_item \<noteq> item then Inr (PNR_EMPTY, s)
                           else if ri_busy y then Inr (PNR_BUSY, s)
                           else
                             res_bind (request_queue_pop sv now (ri_playerid x) s) (\<lambda>s.
                             res_bind (request_queue_front sv now (ri_playerid x) s) (\<lambda>(front, s).
                               Inr (if front = None then PNR_EMPTY else PNR_MORE, s))))))))"

text \<open>\<open>while(PNR_MORE == process_next_request(playerid));\<close>\<close>

fun next_requests :: "('x, 'w) services \<Rightarrow> int \<Rightarrow> nat \<Rightarrow> u64 \<Rightarrow> ('x, 'w) world \<Rightarrow> (pnr \<times> ('x, 'w) world) res option" where
  "next_requests sv now 0 k s = None"
| "next_requests sv now (Suc fuel) k s =
     (case process_next_request sv now k s of
        Inl f \<Rightarrow> Some (Inl f)
      | Inr (r, s) \<Rightarrow> if r = PNR_MORE then next_requests sv now fuel k s else Some (Inr (r, s)))"

section \<open>Messages\<close>

text \<open>The part of \<open>process_message\<close> for a message of a player: a client elsewhere is kicked, a player who may not play is turned away (\<open>False\<close>)
  unless it logs in or out.\<close>

definition enter_message :: "('x, 'w) services \<Rightarrow> int \<Rightarrow> resid_t \<Rightarrow> u64 \<Rightarrow> u32 \<Rightarrow> ('x, 'w) world \<Rightarrow> (bool \<times> ('x, 'w) world) res" where
  "enter_message sv now conn k command s =
     res_bind (agPM_GetOnline now s k) (\<lambda>(player, s).
     res_bind (if player \<noteq> 0 then
                 res_bind (player_get_conn now s k) (\<lambda>(xconn, s). if xconn \<noteq> conn then Kick sv xconn k 1 s else Inr s)
               else Inr s) (\<lambda>s.
     res_bind (sv_can_login sv now k s) (\<lambda>(can, s).
       if \<not> can \<and> command \<noteq> 1 \<and> command \<noteq> 3 then Inr (False, s)
       else
         res_bind (if can then
                     res_bind (agPM_Get (sv_modules sv) now (sv_malloc sv s) s k) (\<lambda>(b, s).
                       sv_login sv now k (if b \<noteq> 0 then sv_online_add sv k s else s))
                   else Inr s) (\<lambda>s.
         res_bind (player_set_conn (sv_modules sv) now (sv_malloc sv s) s k conn) (\<lambda>s. Inr (True, s))))))"

text \<open>Requests of a player are queued, except for logins and the creation of a player (commands 1 and 7).\<close>

definition queue_request :: "('x, 'w) services \<Rightarrow> int \<Rightarrow> nat \<Rightarrow> u64 \<Rightarrow> u32 \<Rightarrow> u32 \<Rightarrow> byte list option \<Rightarrow> ('x, 'w) world \<Rightarrow> (pnr \<times> ('x, 'w) world) res option" where
  "queue_request sv now fuel k command flag body s =
     run_bind (Some (request_queue_push sv now k command flag body s)) (next_requests sv now fuel k)"

definition dispatch_process_message :: "('x, 'w) services \<Rightarrow> int \<Rightarrow> nat \<Rightarrow> resid_t \<Rightarrow> byte list \<Rightarrow> ('x, 'w) world \<Rightarrow> (nat \<times> ('x, 'w) world) res option" where
  "dispatch_process_message sv now fuel conn data s =
     (if length data < translate_header_size then Some (Inr (0, s))
      else
        let h = get_translate_header data; package_len = unat (th_len h); flag = th_flag h; command = th_cmd h
        in if length data < package_len then Some (Inr (0, s))
           else
             run_bind (try_unload_player_from_zombie_list (sv_modules sv) now fuel s) (\<lambda>s.
               if th_serverid h = 0 \<and> th_playerid h \<noteq> 0 then Some (Inr (0, s))
               else
                 let k = NTOHL_PID_AND_SID (ucast (th_playerid h)) (th_serverid h);
                     body = (if package_len < translate_header_size then None else Some (take (package_len - translate_header_size) (drop translate_header_size data)))
                 in run_bind (if th_playerid h \<noteq> 0 then Some (enter_message sv now conn k command s) else Some (Inr (True, s))) (\<lambda>(goes_on, s).
                      if \<not> goes_on then Some (Inr (package_len, s))
                      else if k \<noteq> 0 \<and> command \<noteq> 1 \<and> command \<noteq> 7 then
                        run_bind (queue_request sv now fuel k command flag body s) (\<lambda>(_, s). Some (Inr (package_len, s)))
                      else
                        run_bind (Some (process_request sv conn k command flag body s)) (\<lambda>(done, s).
                          if done then Some (Inr (package_len, s))
                          else run_bind (Some (sv_finish sv s)) (\<lambda>s. Some (Inr (0, s)))))))"

end
