(* ===== verification/DispatchRun.thy ===== *)
theory DispatchRun
  imports Dispatch
begin

text \<open>
  The requests of a player are worked off in the order in which they arrived; one that cannot be decoded stays at the head of the queue and
  blocks the player.
\<close>

section \<open>States with a queue\<close>

definition world_ok :: "int \<Rightarrow> ('x, 'w) world \<Rightarrow> bool" where
  "world_ok now s \<longleftrightarrow> (\<exists>ys zs. pm_ok s ys zs \<and> clock_ok now s zs)"

text \<open>Player \<open>k\<close> is online, its object is at \<open>b\<close>, its queue is \<open>q\<close>.\<close>

definition queue_at :: "int \<Rightarrow> ('x, 'w) world \<Rightarrow> u64 \<Rightarrow> addr \<Rightarrow> request_queue \<Rightarrow> bool" where
  "queue_at now s k b q \<longleftrightarrow> pm_online s k = b \<and> b \<noteq> 0 \<and> 1 \<le> k
     \<and> (\<exists>p. pm_heap s b = Some p \<and> pl_data p PLAYER_MODULE_REQUEST_QUEUE = Some (Inl q) \<and> pl_module_time p PLAYER_MODULE_REQUEST_QUEUE \<le> now)"

text \<open>What \<open>request_queue_update\<close> does: nothing.\<close>

definition services_ok :: "('x, 'w) services \<Rightarrow> bool" where
  "services_ok sv \<longleftrightarrow> (\<forall>k d t w. md_update (sv_modules sv) PLAYER_MODULE_REQUEST_QUEUE k d t w = (d, w))"

definition stays :: "int \<Rightarrow> u64 \<Rightarrow> addr \<Rightarrow> request_queue \<Rightarrow> ('x, 'w) world \<Rightarrow> ('x, 'w) world \<Rightarrow> bool" where
  "stays now k b q s s' \<longleftrightarrow> world_ok now s' \<and> queue_at now s' k b q \<and> core s' = core s \<and> pm_world s' = pm_world s"

lemma staysD: "stays now k b q s s' \<Longrightarrow> world_ok now s' \<and> queue_at now s' k b q \<and> core s' = core s \<and> pm_world s' = pm_world s"
  by (simp add: stays_def)

lemma pm_edit:
  assumes "pm_ok s ys zs" and "clock_ok now s zs" and "pm_heap s b = Some p"
    and "pl_id p' = pl_id p" and "pl_conn p' = pl_conn p" and "pl_name p' = pl_name p" and "pl_zombie_time p' = pl_zombie_time p"
  shows "pm_ok (s\<lparr>pm_heap := (pm_heap s)(b \<mapsto> p')\<rparr>) ys zs" and "clock_ok now (s\<lparr>pm_heap := (pm_heap s)(b \<mapsto> p')\<rparr>) zs"
    and "core (s\<lparr>pm_heap := (pm_heap s)(b \<mapsto> p')\<rparr>) = core s"
proof -
  let ?s = "s\<lparr>pm_heap := (pm_heap s)(b \<mapsto> p')\<rparr>"
  note d = pm_okD[OF assms(1)]
  show c: "core ?s = core s" using assms(3-6) by (auto simp: core_def fun_eq_iff)
  have i: "idle_since ?s = idle_since s" using assms(3,7) by (auto simp: idle_since_def fun_eq_iff)
  have "zframe s ?s" using assms(3,4) i by (auto simp: zframe_def)
  then have z: "zombie_ok ?s zs" using zombie_frame[OF d(3)] by blast
  have a: "active_ok ?s ys" using d(1) by (simp add: active_ok_def)
  show "pm_ok ?s ys zs" by (rule pm_touch[OF assms(1) _ a refl z refl]) (simp add: tframe_def c)
  show "clock_ok now ?s zs" using assms(2) i by (simp add: clock_ok_def)
qed

lemma queue_at_frame:
  assumes "queue_at now s k b q" and "pm_online s' = pm_online s"
    and "\<And>p. pm_heap s b = Some p \<Longrightarrow> \<exists>p'. pm_heap s' b = Some p' \<and> pl_data p' = pl_data p \<and> pl_module_time p' = pl_module_time p"
  shows "queue_at now s' k b q"
  using assms unfolding queue_at_def by fastforce

lemma touch_data:
  assumes "try_remove_player_from_zombie_list s a = Inr s1" and "update_player_active_list now s1 a = Inr s'" and "pm_heap s b = Some p"
  shows "\<exists>p'. pm_heap s' b = Some p' \<and> pl_data p' = pl_data p \<and> pl_module_time p' = pl_module_time p"
proof -
  have "pm_heap s1 = pm_heap s"
    using assms(1) by (auto simp: try_remove_player_from_zombie_list_def with_player_def res_bind_Inr_iff split: if_splits option.splits prod.splits)
  then show ?thesis
    using assms(2,3) by (auto simp: update_player_active_list_def with_player_def res_bind_Inr_iff split: if_splits option.splits prod.splits)
qed

text \<open>Looking the player up, with or without its queue, changes nothing the queue depends on.\<close>

lemma get_stays:
  assumes "world_ok now s" and "queue_at now s k b q"
  shows "\<exists>s'. agPM_GetOnline now s k = Inr (b, s') \<and> agPM_Get md now a s k = Inr (b, s') \<and> stays now k b q s s'"
proof -
  obtain ys zs where s: "pm_ok s ys zs" "clock_ok now s zs" using assms(1) by (auto simp: world_ok_def)
  have b: "pm_online s k = b" "b \<noteq> 0" "\<not> k < 1" using assms(2) by (auto simp: queue_at_def)
  obtain s1 s' where t: "try_remove_player_from_zombie_list s b = Inr s1" "update_player_active_list now s1 b = Inr s'"
    "pm_ok s' (remove1 b ys @ [b]) zs" "tframe s s'" "idle_since s' = idle_since s"
    using touch_online[OF s(1) b(1,2), of now] by blast
  have "clock_ok now s' zs" using s(2) t(5) by (simp add: clock_ok_def)
  then have w: "world_ok now s'" using t(3) by (auto simp: world_ok_def)
  have q: "queue_at now s' k b q"
    by (rule queue_at_frame[OF assms(2)]) (use t(4) touch_data[OF t(1,2)] in \<open>auto simp: tframe_def\<close>)
  show ?thesis using b t(1,2,4) w q by (auto simp: agPM_GetOnline_def agPM_Get_def stays_def tframe_def)
qed

lemma player_queue_ok:
  assumes sv: "services_ok sv" and s: "world_ok now s" "queue_at now s k b q"
  shows "\<exists>s'. player_queue sv now k s = Inr (Some (b, q), s') \<and> stays now k b q s s'"
proof -
  obtain s1 where g: "agPM_Get (sv_modules sv) now (sv_malloc sv s) s k = Inr (b, s1)" "stays now k b q s s1" using get_stays[OF s] by blast
  note st = staysD[OF g(2)]
  obtain ys zs where ok: "pm_ok s1 ys zs" "clock_ok now s1 zs" using st by (auto simp: world_ok_def)
  obtain p where p: "pm_heap s1 b = Some p" "pl_data p PLAYER_MODULE_REQUEST_QUEUE = Some (Inl q)" "pl_module_time p PLAYER_MODULE_REQUEST_QUEUE \<le> now" "b \<noteq> 0"
    using st by (auto simp: queue_at_def)
  have m: "PLAYER_MODULE_REQUEST_QUEUE < player_modules_count" by (simp add: PLAYER_MODULE_REQUEST_QUEUE_def player_modules_count_def)
  have u: "md_update (sv_modules sv) PLAYER_MODULE_REQUEST_QUEUE k' d t w = (d, w)" for k' d t w using sv by (simp add: services_ok_def)
  obtain p' where p': "player_get_module (sv_modules sv) now PLAYER_MODULE_REQUEST_QUEUE p (pm_world s1) = Inr (Some (Inl q), p', pm_world s1)"
    "pl_id p' = pl_id p" "pl_conn p' = pl_conn p" "pl_name p' = pl_name p" "pl_zombie_time p' = pl_zombie_time p"
    "pl_data p' PLAYER_MODULE_REQUEST_QUEUE = Some (Inl q)" "pl_module_time p' PLAYER_MODULE_REQUEST_QUEUE \<le> now"
    using p(2,3) m u by (cases "pl_module_time p PLAYER_MODULE_REQUEST_QUEUE = now") (auto simp: player_get_module_def player_update_module_def)
  let ?s = "s1\<lparr>pm_heap := (pm_heap s1)(b \<mapsto> p')\<rparr>"
  note e = pm_edit[OF ok p(1) p'(2-5)]
  have same: "s1\<lparr>pm_heap := (pm_heap s1)(b \<mapsto> p'), pm_world := pm_world s1\<rparr> = ?s" by simp
  have "player_queue sv now k s = Inr (Some (b, q), ?s)"
    using g(1) p(1,4) p'(1) by (simp add: player_queue_def with_player_def)
  moreover have "stays now k b q s ?s"
    using e st p'(6,7) by (auto simp: stays_def world_ok_def queue_at_def)
  ultimately show ?thesis by blast
qed

lemma store_stays:
  assumes "world_ok now s" and "queue_at now s k b q"
  shows "stays now k b q' s (store_queue b q' s)"
proof -
  obtain ys zs where ok: "pm_ok s ys zs" "clock_ok now s zs" using assms(1) by (auto simp: world_ok_def)
  obtain p where p: "pm_heap s b = Some p" "pl_module_time p PLAYER_MODULE_REQUEST_QUEUE \<le> now" "b \<noteq> 0" using assms(2) by (auto simp: queue_at_def)
  let ?p = "p\<lparr>pl_data := (pl_data p)(PLAYER_MODULE_REQUEST_QUEUE \<mapsto> Inl q')\<rparr>"
  have s: "store_queue b q' s = s\<lparr>pm_heap := (pm_heap s)(b \<mapsto> ?p)\<rparr>" using p(1) by (simp add: store_queue_def)
  have "pl_id ?p = pl_id p" "pl_conn ?p = pl_conn p" "pl_name ?p = pl_name p" "pl_zombie_time ?p = pl_zombie_time p" by simp_all
  note e = pm_edit[OF ok p(1) this]
  show ?thesis unfolding s using e assms(2) p by (auto simp: stays_def world_ok_def queue_at_def)
qed

lemma stays_trans: "stays now k b q s s' \<Longrightarrow> stays now k b q' s' s'' \<Longrightarrow> stays now k b q' s s''"
  by (simp add: stays_def)

section \<open>The operations on the queue\<close>

lemma world_front:
  assumes "services_ok sv" and "world_ok now s" and "queue_at now s k b q" and "queue_ok q xs"
  shows "\<exists>s'. request_queue_front sv now k s = Inr (case xs of [] \<Rightarrow> None | x # _ \<Rightarrow> Some (x, the (rq_items q x)), s') \<and> stays now k b q s s'"
proof -
  obtain s' where p: "player_queue sv now k s = Inr (Some (b, q), s')" "stays now k b q s s'" using player_queue_ok[OF assms(1-3)] by blast
  show ?thesis
  proof (cases xs)
    case Nil
    then show ?thesis using p front_ok[OF assms(4)] by (auto simp: request_queue_front_def)
  next
    case (Cons x ys)
    then obtain i where "rq_items q x = Some i" "x \<noteq> 0" using qchain_live[of "rq_items q" 0 "rq_head q" xs x] assms(4) by (auto simp: queue_ok_def)
    then show ?thesis using p front_ok[OF assms(4)] Cons by (auto simp: request_queue_front_def)
  qed
qed

lemma world_push:
  assumes "services_ok sv" and "world_ok now s" and "queue_at now s k b q" and "queue_ok q xs" and "data \<noteq> []"
    and a: "sv_item sv q \<noteq> 0" "rq_items q (sv_item sv q) = None"
  shows "\<exists>s' q'. request_queue_push sv now k cmd flag (Some data) s = Inr s' \<and> stays now k b q' s s' \<and> queue_ok q' (xs @ [sv_item sv q])
     \<and> requests q' (xs @ [sv_item sv q]) = requests q xs @ [(k, cmd, flag, data, False)]"
proof -
  obtain s1 where p: "player_queue sv now k s = Inr (Some (b, q), s1)" "stays now k b q s s1" using player_queue_ok[OF assms(1-3)] by blast
  obtain q' where q': "queue_push now (sv_item sv q) k cmd flag data q = Inr q'" "queue_ok q' (xs @ [sv_item sv q])"
    "requests q' (xs @ [sv_item sv q]) = requests q xs @ [(k, cmd, flag, data, False)]"
    using push_ok[OF assms(4) a assms(5)] by blast
  have "stays now k b q' s1 (store_queue b q' s1)" using store_stays[of now s1 k b q] staysD[OF p(2)] by blast
  then show ?thesis using p q' stays_trans[OF p(2)] by (auto simp: request_queue_push_def)
qed

lemma world_pop:
  assumes "services_ok sv" and "world_ok now s" and "queue_at now s k b q" and "queue_ok q (x # xs)"
  shows "\<exists>s' q'. request_queue_pop sv now k s = Inr s' \<and> stays now k b q' s s' \<and> queue_ok q' xs \<and> requests q' xs = requests q xs"
proof -
  obtain s1 where p: "player_queue sv now k s = Inr (Some (b, q), s1)" "stays now k b q s s1" using player_queue_ok[OF assms(1-3)] by blast
  obtain q' where q': "queue_pop q = Inr q'" "queue_ok q' xs" "requests q' xs = requests q xs" using pop_ok[OF assms(4)] by blast
  have "stays now k b q' s1 (store_queue b q' s1)" using store_stays[of now s1 k b q] staysD[OF p(2)] by blast
  then show ?thesis using p q' stays_trans[OF p(2)] by (auto simp: request_queue_pop_def)
qed

section \<open>Kicking\<close>

definition kick_bytes :: "u64 \<Rightarrow> u32 \<Rightarrow> byte list" where
  "kick_bytes pid reason =
     (let msg = amf_wire (Some (AVarray 3 [Some (AVinteger 1 0), Some (AVinteger 1 0), Some (AVinteger 1 reason)]))
      in put_translate_header \<lparr>th_len = word_of_nat (translate_header_size + length msg), th_sn = 0, th_playerid = ucast pid, th_flag = 1, th_cmd = 4,
           th_serverid = 0\<rparr> @ msg)"

lemma kick_length: "length (amf_wire (Some (AVarray 3 [Some (AVinteger 1 0), Some (AVinteger 1 0), Some (AVinteger 1 reason)]))) \<le> 100"
proof -
  have "length (u29_bytes (len_word 3)) \<le> 4" by (rule u29_bytes_max[OF len_word_range]) simp
  then show ?thesis using wire_integer_max[of 0] wire_integer_max[of reason] by (simp add: numeral_3_eq_3)
qed

lemma kick_packet_ok: "kick_packet pid reason = Inr (kick_bytes pid reason)"
proof -
  have "encode_message (1024 - translate_header_size)
       ((\<lambda>k. amf_encode_array k (word_of_nat 3)) # [\<lambda>k. amf_encode_integer k 0, \<lambda>k. amf_encode_integer k 0, \<lambda>k. amf_encode_integer k reason])
     = Inr (amf_wire (Some (AVarray 3 [Some (AVinteger 1 0), Some (AVinteger 1 0), Some (AVinteger 1 reason)])))"
  proof (rule encode_array_message)
    show "list_all2 writes [\<lambda>k. amf_encode_integer k 0, \<lambda>k. amf_encode_integer k 0, \<lambda>k. amf_encode_integer k reason]
        (map amf_wire [Some (AVinteger 1 0), Some (AVinteger 1 0), Some (AVinteger 1 reason)])"
      using writes_integer[of 0] writes_integer[of reason] by (simp only: list.map list_all2_Cons list_all2_Nil simp_thms)
    show "length (amf_wire (Some (AVarray 3 [Some (AVinteger 1 0), Some (AVinteger 1 0), Some (AVinteger 1 reason)]))) \<le> 1024 - translate_header_size"
      using kick_length[of reason] by (simp only: translate_header_size_def)
  qed simp_all
  then show ?thesis by (simp add: kick_packet_def kick_bytes_def Let_def)
qed

section \<open>One request\<close>

text \<open>The handlers of the commands and what follows them return, keep the player online and do not touch its queue; \<open>seen\<close> observes which commands
  have been run.\<close>

definition well_behaved :: "('x, 'w) services \<Rightarrow> int \<Rightarrow> ('w \<Rightarrow> (u64 \<times> u32 \<times> u32 \<times> byte list option) list) \<Rightarrow> bool" where
  "well_behaved sv now seen \<longleftrightarrow>
     (\<forall>conn k cmd flag v body s b q. world_ok now s \<and> queue_at now s k b q \<longrightarrow>
        (\<exists>s1 s2. sv_command sv conn k cmd flag v body s = Inr s1 \<and> sv_finish sv s1 = Inr s2 \<and> world_ok now s2 \<and> queue_at now s2 k b q
           \<and> seen (pm_world s2) = seen (pm_world s) @ [(k, cmd, flag, body)]))"

lemma conn_core: "map_option pl_conn (pm_heap s b) = map_option (\<lambda>x. fst (snd x)) (core s b)"
  by (simp add: core_def option.map_comp comp_def)

lemma conn_stays:
  assumes "world_ok now s" and "queue_at now s k b q"
  shows "\<exists>c s'. player_get_conn now s k = Inr (c, s') \<and> stays now k b q s s' \<and> map_option pl_conn (pm_heap s b) = Some c"
proof -
  obtain s' where g: "agPM_GetOnline now s k = Inr (b, s')" "stays now k b q s s'" using get_stays[OF assms] by blast
  obtain p where p: "pm_heap s' b = Some p" "b \<noteq> 0" using staysD[OF g(2)] by (auto simp: queue_at_def)
  have "core s b = core s' b" using staysD[OF g(2)] by simp
  then have "map_option pl_conn (pm_heap s b) = Some (pl_conn p)" using p(1) by (auto simp: core_def)
  then show ?thesis using g p by (auto simp: player_get_conn_def with_player_def)
qed

lemma next_request_runs:
  assumes sv: "services_ok sv" and wb: "well_behaved sv now seen" and s: "world_ok now s" "queue_at now s k b q"
    and q: "queue_ok q (x # xs)" "requests q (x # xs) = (k, c, f, d, False) # rs" and dec: "decode_request f (Some d) = Inr (Some v)"
  shows "\<exists>s' q'. process_next_request sv now k s = Inr (if xs = [] then PNR_EMPTY else PNR_MORE, s') \<and> world_ok now s' \<and> queue_at now s' k b q'
     \<and> queue_ok q' xs \<and> requests q' xs = rs \<and> seen (pm_world s') = seen (pm_world s) @ [(k, c, f, Some d)]"
proof -
  let ?i = "the (rq_items q x)"
  have i: "ri_playerid ?i = k" "ri_cmd ?i = c" "ri_flag ?i = f" "ri_data ?i = d" "\<not> ri_busy ?i" and rs: "requests q xs = rs"
    using q(2) by (simp_all add: requests_def request_of_def)
  obtain s1 where 1: "agPM_GetOnline now s k = Inr (b, s1)" "stays now k b q s s1" using get_stays[OF s] by blast
  note t1 = staysD[OF 1(2)]
  have b0: "b \<noteq> 0" using s(2) by (simp add: queue_at_def)
  obtain s2 where 2: "request_queue_front sv now k s1 = Inr (Some (x, ?i), s2)" "stays now k b q s1 s2"
    using world_front[OF sv _ _ q(1), of now s1 k b] t1 by auto
  note t2 = staysD[OF 2(2)]
  obtain cn s3 where 3: "player_get_conn now s2 k = Inr (cn, s3)" "stays now k b q s2 s3" using conn_stays[of now s2 k b q] t2 by blast
  note t3 = staysD[OF 3(2)]
  obtain s4 s5 where 5: "sv_command sv cn k c f v (Some d) s3 = Inr s4" "sv_finish sv s4 = Inr s5" "world_ok now s5" "queue_at now s5 k b q"
    "seen (pm_world s5) = seen (pm_world s3) @ [(k, c, f, Some d)]"
    using wb t3 unfolding well_behaved_def by blast
  have req: "process_request sv cn k c f (Some d) s3 = Inr (True, s5)" using dec 5(1,2) by (simp add: process_request_def)
  obtain s6 where 6: "request_queue_front sv now k s5 = Inr (Some (x, ?i), s6)" "stays now k b q s5 s6"
    using world_front[OF sv 5(3,4) q(1)] by auto
  obtain s7 q' where 7: "request_queue_pop sv now k s6 = Inr s7" "stays now k b q' s6 s7" "queue_ok q' xs" "requests q' xs = requests q xs"
    using world_pop[OF sv _ _ q(1), of now s6 k b] staysD[OF 6(2)] by blast
  note t7 = staysD[OF 7(2)]
  obtain s8 where 8: "request_queue_front sv now k s7 = Inr (case xs of [] \<Rightarrow> None | x # _ \<Rightarrow> Some (x, the (rq_items q' x)), s8)" "stays now k b q' s7 s8"
    using world_front[OF sv _ _ 7(3), of now s7 k b] t7 by blast
  have "process_next_request sv now k s = Inr (if xs = [] then PNR_EMPTY else PNR_MORE, s8)"
    unfolding process_next_request_def 1(1) using b0 2(1) i 3(1) req 6(1) 7(1) 8(1) by (simp split: list.splits)
  moreover have "pm_world s8 = pm_world s5" "pm_world s3 = pm_world s" using staysD[OF 8(2)] t7 staysD[OF 6(2)] t3 t2 t1 by simp_all
  ultimately show ?thesis using staysD[OF 8(2)] 7(3,4) rs 5(5) by auto
qed

lemma next_request_fails:
  assumes sv: "services_ok sv" and s: "world_ok now s" "queue_at now s k b q"
    and q: "queue_ok q (x # xs)" "requests q (x # xs) = (k, c, f, d, False) # rs" and dec: "decode_request f (Some d) = Inr None"
  shows "\<exists>s' cn. process_next_request sv now k s = Inr (PNR_ERROR, s') \<and> world_ok now s' \<and> queue_at now s' k b q
     \<and> map_option pl_conn (pm_heap s b) = Some cn \<and> pm_world s' = sv_send sv cn (kick_bytes k LOGOUT_ADMIN_KICK) (pm_world s)"
proof -
  let ?i = "the (rq_items q x)"
  have i: "ri_playerid ?i = k" "ri_cmd ?i = c" "ri_flag ?i = f" "ri_data ?i = d" "\<not> ri_busy ?i"
    using q(2) by (simp_all add: requests_def request_of_def)
  obtain s1 where 1: "agPM_GetOnline now s k = Inr (b, s1)" "stays now k b q s s1" using get_stays[OF s] by blast
  note t1 = staysD[OF 1(2)]
  have b0: "b \<noteq> 0" using s(2) by (simp add: queue_at_def)
  obtain s2 where 2: "request_queue_front sv now k s1 = Inr (Some (x, ?i), s2)" "stays now k b q s1 s2"
    using world_front[OF sv _ _ q(1), of now s1 k b] t1 by auto
  note t2 = staysD[OF 2(2)]
  obtain cn s3 where 3: "player_get_conn now s2 k = Inr (cn, s3)" "stays now k b q s2 s3" "map_option pl_conn (pm_heap s2 b) = Some cn"
    using conn_stays[of now s2 k b q] t2 by blast
  note t3 = staysD[OF 3(2)]
  obtain ys zs where ok: "pm_ok s3 ys zs" "clock_ok now s3 zs" using t3 by (auto simp: world_ok_def)
  let ?w = "sv_send sv cn (kick_bytes k LOGOUT_ADMIN_KICK) (pm_world s3)"
  have "process_next_request sv now k s = Inr (PNR_ERROR, s3\<lparr>pm_world := ?w\<rparr>)"
    unfolding process_next_request_def 1(1) using b0 2(1) i 3(1) dec by (simp add: process_request_def Kick_def kick_packet_ok)
  moreover have "world_ok now (s3\<lparr>pm_world := ?w\<rparr>)"
    using pm_plain[OF ok, where f = "pm_not_exist s3" and w = ?w] by (auto simp: world_ok_def)
  moreover have "queue_at now (s3\<lparr>pm_world := ?w\<rparr>) k b q" using t3 by (simp add: queue_at_def)
  moreover have "core s2 b = core s b" using t1 t2 by simp
  then have "map_option pl_conn (pm_heap s b) = Some cn" using 3(3) by (simp only: conn_core)
  ultimately show ?thesis using t1 t2 t3 by auto
qed

section \<open>Theorems\<close>

lemma next_requests_run:
  assumes sv: "services_ok sv" and wb: "well_behaved sv now seen" and s: "world_ok now s" "queue_at now s k b q"
    and q: "queue_ok q xs" "requests q xs = map (\<lambda>(c, f, d). (k, c, f, d, False)) rs" "xs \<noteq> []"
    and dec: "\<forall>(c, f, d) \<in> set rs. \<exists>v. decode_request f (Some d) = Inr (Some v)" and fuel: "length xs \<le> fuel"
  shows "\<exists>s' q'. next_requests sv now fuel k s = Some (Inr (PNR_EMPTY, s')) \<and> world_ok now s' \<and> queue_at now s' k b q' \<and> queue_ok q' []
     \<and> seen (pm_world s') = seen (pm_world s) @ map (\<lambda>(c, f, d). (k, c, f, Some d)) rs"
  using s q dec fuel
proof (induction xs arbitrary: s q rs fuel)
  case (Cons x xs)
  obtain fl where fl: "fuel = Suc fl" "length xs \<le> fl" using Cons.prems(7) by (cases fuel) auto
  obtain c f d rs' where r: "rs = (c, f, d) # rs'" "requests q xs = map (\<lambda>(c, f, d). (k, c, f, d, False)) rs'"
    using Cons.prems(4) by (cases rs) (auto simp: requests_def)
  have h: "requests q (x # xs) = (k, c, f, d, False) # map (\<lambda>(c, f, d). (k, c, f, d, False)) rs'" using Cons.prems(4) r(1) by simp
  obtain v where v: "decode_request f (Some d) = Inr (Some v)" using Cons.prems(6) r(1) by auto
  obtain s1 q1 where n: "process_next_request sv now k s = Inr (if xs = [] then PNR_EMPTY else PNR_MORE, s1)" "world_ok now s1" "queue_at now s1 k b q1"
    "queue_ok q1 xs" "requests q1 xs = map (\<lambda>(c, f, d). (k, c, f, d, False)) rs'" "seen (pm_world s1) = seen (pm_world s) @ [(k, c, f, Some d)]"
    using next_request_runs[OF sv wb Cons.prems(1,2,3) h v] by blast
  show ?case
  proof (cases "xs = []")
    case True
    then have "rs' = []" using n(5) by (simp add: requests_def)
    then show ?thesis using n True fl r(1) by auto
  next
    case False
    have "\<forall>(c, f, d) \<in> set rs'. \<exists>v. decode_request f (Some d) = Inr (Some v)" using Cons.prems(6) r(1) by auto
    from Cons.IH[OF n(2-5) False this fl(2)] show ?thesis using n(1,6) False fl(1) r(1) by auto
  qed
qed simp


text \<open>A world with one player online; the rest of the world is the list of the commands that were run.\<close>

type_synonym command_log = "(u64 \<times> u32 \<times> u32 \<times> byte list option) list"

definition sv_example :: "(byte list, command_log) services" where
  "sv_example =
     \<lparr>sv_modules =
        \<lparr>md_new = (\<lambda>m k w. (Some (if m = 1 then Inl (request_queue_new k) else Inr [65]), w)),
         md_load = (\<lambda>m k w. (Some (if m = 1 then Inl (request_queue_load k) else Inr [65]), w)), md_update = (\<lambda>m k d t w. (d, w)),
         md_save = (\<lambda>m k d w. w), md_release = (\<lambda>m k d w. w), md_name = (\<lambda>d. case d of Inl _ \<Rightarrow> [] | Inr n \<Rightarrow> take 31 n), md_set_head = (\<lambda>h d. d),
         md_flush = (\<lambda>w. w)\<rparr>,
      sv_malloc = (\<lambda>_. 1), sv_item = (\<lambda>q. if rq_head q = 0 then 1 else 2), sv_can_login = (\<lambda>_ _ s. Inr (True, s)), sv_login = (\<lambda>_ _ s. Inr s),
      sv_online_add = (\<lambda>_ s. s), sv_send = (\<lambda>_ _ w. w),
      sv_command = (\<lambda>_ k cmd flag _ body s. Inr (s\<lparr>pm_world := pm_world s @ [(k, cmd, flag, body)]\<rparr>)), sv_finish = Inr\<rparr>"

definition world_start :: "(byte list, command_log) world" where
  "world_start = (case player_set_conn (sv_modules sv_example) 10 1 (agPM_init []) (2 ^ 32 + 7) 3 of Inl _ \<Rightarrow> agPM_init [] | Inr s \<Rightarrow> s)"

definition world_example :: "request_queue \<Rightarrow> (byte list, command_log) world" where
  "world_example q = store_queue 1 q world_start"

lemma sv_example_ok: "services_ok sv_example" "well_behaved sv_example now (\<lambda>w. w)"
proof -
  show "services_ok sv_example" by (simp add: services_ok_def sv_example_def)
  show "well_behaved sv_example now (\<lambda>w. w)"
    unfolding well_behaved_def
  proof (intro allI impI, elim conjE)
    fix conn k cmd flag v body b q and s :: "(byte list, command_log) world"
    assume s: "world_ok now s" "queue_at now s k b q"
    let ?w = "pm_world s @ [(k, cmd, flag, body)]"
    obtain ys zs where ok: "pm_ok s ys zs" "clock_ok now s zs" using s(1) by (auto simp: world_ok_def)
    have "world_ok now (s\<lparr>pm_world := ?w\<rparr>)" using pm_plain[OF ok, where f = "pm_not_exist s" and w = ?w] by (auto simp: world_ok_def)
    moreover have "queue_at now (s\<lparr>pm_world := ?w\<rparr>) k b q" using s(2) by (simp add: queue_at_def)
    ultimately show "\<exists>s1 s2. sv_command sv_example conn k cmd flag v body s = Inr s1 \<and> sv_finish sv_example s1 = Inr s2 \<and> world_ok now s2 \<and> queue_at now s2 k b q
       \<and> pm_world s2 = pm_world s @ [(k, cmd, flag, body)]" by (simp add: sv_example_def)
  qed
qed

lemma start_ok: "world_ok 10 world_start"
proof -
  have "names_fit (sv_modules sv_example)" by (auto simp: names_fit_def sv_example_def split: sum.splits)
  moreover have "clock_ok 10 (agPM_init [] :: (byte list, command_log) world) []" "pm_heap (agPM_init [] :: (byte list, command_log) world) 1 = None"
    by (simp_all add: clock_ok_def agPM_init_def)
  ultimately obtain s ys zs where "player_set_conn (sv_modules sv_example) 10 1 (agPM_init []) (2 ^ 32 + 7) 3 = Inr s" "pm_ok s ys zs" "clock_ok 10 s zs"
    using set_conn_ok[OF init_ok, of 10 "[]" "sv_modules sv_example" 1 "2 ^ 32 + 7" 3] by auto
  then show ?thesis unfolding world_ok_def world_start_def by (simp only: sum.case) blast
qed

lemma start_state: "pm_online world_start (2 ^ 32 + 7) = 1" "\<exists>p. pm_heap world_start 1 = Some p \<and> pl_module_time p 1 \<le> 10"
  by (simp_all add: world_start_def sv_example_def pm_eval)

lemma world_example_ok: "world_ok 10 (world_example q)" "queue_at 10 (world_example q) (2 ^ 32 + 7) 1 q"
proof -
  obtain ys zs where ok: "pm_ok world_start ys zs" "clock_ok 10 world_start zs" using start_ok by (auto simp: world_ok_def)
  obtain p where p: "pm_heap world_start 1 = Some p" "pl_module_time p 1 \<le> 10" using start_state(2) by blast
  let ?p = "p\<lparr>pl_data := (pl_data p)(PLAYER_MODULE_REQUEST_QUEUE \<mapsto> Inl q)\<rparr>"
  have e: "world_example q = world_start\<lparr>pm_heap := (pm_heap world_start)(1 \<mapsto> ?p)\<rparr>" using p(1) by (simp add: world_example_def store_queue_def)
  have "pl_id ?p = pl_id p" "pl_conn ?p = pl_conn p" "pl_name ?p = pl_name p" "pl_zombie_time ?p = pl_zombie_time p" by simp_all
  from pm_edit[OF ok p(1) this] show "world_ok 10 (world_example q)" unfolding e by (auto simp: world_ok_def)
  show "queue_at 10 (world_example q) (2 ^ 32 + 7) 1 q"
    unfolding e using start_state(1) p(2) by (simp add: queue_at_def PLAYER_MODULE_REQUEST_QUEUE_def)
qed


text \<open>C39: A request that cannot be decoded (an unknown flag, or a body that is not exactly one AMF array) stays at the head of the queue of its player. Every
  later message of the player is queued behind it and only makes the world send another kick: no command of the player is run any more.\<close>

theorem bad_request_blocks_player:
  assumes "services_ok sv" and "world_ok now s" and "queue_at now s k b q" and "queue_ok q (x # xs)" and "requests q (x # xs) = (k, c, f, d, False) # rs"
    and "decode_request f (Some d) = Inr None" and "sv_item sv q \<noteq> 0" and "rq_items q (sv_item sv q) = None" and "data \<noteq> []" and "0 < fuel"
  shows "\<exists>s' q' conn. queue_request sv now fuel k cmd flag (Some data) s = Some (Inr (PNR_ERROR, s')) \<and> world_ok now s' \<and> queue_at now s' k b q'
     \<and> queue_ok q' (x # xs @ [sv_item sv q]) \<and> requests q' (x # xs @ [sv_item sv q]) = (k, c, f, d, False) # rs @ [(k, cmd, flag, data, False)]
     \<and> map_option pl_conn (pm_heap s b) = Some conn \<and> pm_world s' = sv_send sv conn (kick_bytes k LOGOUT_ADMIN_KICK) (pm_world s)"
proof -
  obtain s1 q1 where p: "request_queue_push sv now k cmd flag (Some data) s = Inr s1" "stays now k b q1 s s1" "queue_ok q1 (x # xs @ [sv_item sv q])"
    "requests q1 (x # xs @ [sv_item sv q]) = (k, c, f, d, False) # rs @ [(k, cmd, flag, data, False)]"
    using world_push[OF assms(1-4,9,7,8), of cmd flag] assms(5) by auto
  note t = staysD[OF p(2)]
  obtain s' conn where n: "process_next_request sv now k s1 = Inr (PNR_ERROR, s')" "world_ok now s'" "queue_at now s' k b q1"
    "map_option pl_conn (pm_heap s1 b) = Some conn" "pm_world s' = sv_send sv conn (kick_bytes k LOGOUT_ADMIN_KICK) (pm_world s1)"
    using next_request_fails[OF assms(1) _ _ p(3,4) assms(6), of now s1 b] t by blast
  have "core s1 b = core s b" using t by simp
  then have "map_option pl_conn (pm_heap s b) = Some conn" using n(4) by (simp only: conn_core)
  moreover have "queue_request sv now fuel k cmd flag (Some data) s = Some (Inr (PNR_ERROR, s'))"
    using p(1) n(1) assms(10) by (cases fuel) (simp_all add: queue_request_def)
  ultimately show ?thesis using n(2,3,5) p(3,4) t by auto
qed

text \<open>A queue whose only request has the unknown flag 9.\<close>

definition bad_queue :: request_queue where
  "bad_queue = (case queue_push 10 1 (2 ^ 32 + 7) 20 9 [0] (request_queue_new (2 ^ 32 + 7)) of Inl _ \<Rightarrow> request_queue_new 0 | Inr q \<Rightarrow> q)"

lemma bad_queue_ok: "queue_ok bad_queue [1]" "requests bad_queue [1] = [(2 ^ 32 + 7, 20, 9, [0], False)]" "rq_items bad_queue 2 = None" "rq_head bad_queue = 1"
  by (simp_all add: bad_queue_def queue_push_def request_queue_new_def queue_ok_def requests_def request_of_def)

theorem bad_request_blocks_player_witness:
  "\<exists>s' q'. queue_request sv_example 10 5 (2 ^ 32 + 7) 20 2 (Some [9, 8]) (world_example bad_queue) = Some (Inr (PNR_ERROR, s'))
     \<and> queue_at 10 s' (2 ^ 32 + 7) 1 q' \<and> queue_ok q' [1, 2] \<and> pm_world s' = pm_world (world_example bad_queue)"
proof -
  have i: "sv_item sv_example bad_queue = 2" by (simp add: sv_example_def bad_queue_ok(4))
  have d: "decode_request 9 (Some [0]) = Inr None" by (simp add: decode_request_def)
  from bad_request_blocks_player[OF sv_example_ok(1) world_example_ok bad_queue_ok(1,2) d, of "[9, 8]" 5 20 2] show ?thesis
    by (auto simp: i bad_queue_ok(3)) (auto simp: sv_example_def)
qed

end
