(* ===== verification/WorldGate.thy ===== *)
theory WorldGate
  imports DispatchRun GwRelay
begin

text \<open>
  A world and its gateway together: what the gateway (\<^verbatim>\<open>src/gateway/world.c\<close>) does with the packet by which a world (\<^verbatim>\<open>src/world/dispatch.c\<close>)
  kicks a player.
\<close>

lemma kick_header:
  "get_translate_header (kick_bytes pid reason @ rest) =
     \<lparr>th_len = word_of_nat (length (kick_bytes pid reason)), th_sn = 0, th_playerid = ucast pid, th_flag = 1, th_cmd = 4, th_serverid = 0\<rparr>"
  "length (kick_bytes pid reason) \<le> 128" "translate_header_size \<le> length (kick_bytes pid reason)"
  using kick_length[of reason] by (simp_all add: kick_bytes_def Let_def translate_header_size_def del: amf_wire.simps)

lemma kick_playerid:
  "translate_playerid \<lparr>th_len = l, th_sn = 0, th_playerid = ucast pid, th_flag = 1, th_cmd = 4, th_serverid = 0\<rparr> = ucast (TRANSFORM_PLAYERID pid False)"
  by (rule bit_word_eqI) (auto simp: translate_playerid_def NTOHL_PID_AND_SID_def TRANSFORM_PLAYERID_def TRANSFORM_PLAYERID_TO_64_def bit_simps dest: bit_imp_le_length)

text \<open>C38: The kick of a world does not reach its client. \<open>Kick\<close> leaves the number of the server in the header at zero, so the gateway looks for a player
  whose number is the lower half alone. Unless there is one, the packet is taken off the stream and nothing else happens: no message to a client, no
  connection is closed.\<close>

theorem kick_is_lost:
  assumes "agMap_ip_get (client_hash (gw_clients g)) (ucast (TRANSFORM_PLAYERID pid False)) = None"
  shows "kick_packet pid reason = Inr (kick_bytes pid reason)
     \<and> world_process_message e decode respond i (kick_bytes pid reason @ rest) g = Some (Inr (length (kick_bytes pid reason), g))"
proof -
  let ?k = "kick_bytes pid reason"
  let ?h = "get_translate_header (?k @ rest)"
  have len: "unat (th_len ?h) = length ?k" using kick_header(2)[of pid reason] unat_size[of "length ?k"] by (simp add: kick_header(1))
  have pid: "translate_playerid ?h = ucast (TRANSFORM_PLAYERID pid False)" unfolding kick_header(1) by (rule kick_playerid)
  have cmd: "th_cmd ?h = 4" by (simp add: kick_header(1))
  have "client_get_by_playerid (nat (e_now e)) (gw_clients g) (ucast (TRANSFORM_PLAYERID pid False)) = Some (Inr (0, gw_clients g))"
    using assms by (simp add: client_get_by_playerid_def)
  then have "translate_to_client e (?k @ rest) g = Some (Inr g)"
    unfolding translate_to_client_def Let_def len pid using kick_header(3)[of pid reason] by simp
  then have "world_process_message e decode respond i (?k @ rest) g = Some (Inr (length ?k, g))"
    using kick_header(3)[of pid reason] unfolding world_process_message_def Let_def len pid cmd by (simp add: commands)
  then show ?thesis using kick_packet_ok by blast
qed

theorem kick_is_lost_witness:
  "agMap_ip_get (client_hash (gw_clients gateway_example)) 0x500000007 = Some 16
     \<and> world_process_message env_example (\<lambda>_. None) (\<lambda>_. []) 3 (kick_bytes 0x500000007 LOGOUT_ADMIN_KICK @ []) gateway_example
       = Some (Inr (length (kick_bytes 0x500000007 LOGOUT_ADMIN_KICK), gateway_example))"
proof -
  have "agMap_ip_get (client_hash (gw_clients gateway_example)) 7 \<noteq> Some a" for a
    using clients_ok_get[OF gateway_example_ok(1), of 7 a] gateway_example_ok(2) by (auto simp: client_one_def)
  then have "agMap_ip_get (client_hash (gw_clients gateway_example)) 7 = None" by (metis option.exhaust)
  moreover have "(ucast (TRANSFORM_PLAYERID 0x500000007 False) :: u64) = 7" by (simp add: TRANSFORM_PLAYERID_def)
  ultimately have n: "agMap_ip_get (client_hash (gw_clients gateway_example)) (ucast (TRANSFORM_PLAYERID 0x500000007 False)) = None" by simp
  show ?thesis using kick_is_lost[OF n, of LOGOUT_ADMIN_KICK env_example "\<lambda>_. None" "\<lambda>_. []" 3 "[]"] gateway_example_ok(6) by blast
qed

end
