(* ===== verification/Addicted.thy ===== *)
theory Addicted
  imports Timer
begin

text \<open>
  The limit of the playing time of minors, \<^verbatim>\<open>src/world/addicted.c\<close>, with the part of the login and the logout of \<^verbatim>\<open>src/world/logic/aL.c\<close> that
  uses it: a player who is watched is checked again and again by timers; it is told how long it has been playing and is sent away when its time is over;
  after a rest it may play again.

  The map \<open>players\<close> is a function from player numbers; \<open>Adult\<close> stands for the address of \<open>adultPlayer\<close>, \<open>Watched\<close> for a record of its own. The timer of a
  record is the time at which it will call \<open>checkPlayer\<close>, \<open>None\<close> for the null pointer; that the wheel calls it then is a theorem of \<open>Timer\<close>, and
  \<open>timer_at\<close> says which times the wheel takes (lemma \<open>timer_add_takes\<close>). \<open>now\<close> is \<open>agT_current()\<close> or, in a callback, the time of the timer; \<open>next\<close> is the second the wheel
  processes next. The configuration has unsigned 32-bit numbers. The row \<open>Property\<close> of a player is generated from
  \<^verbatim>\<open>src/code_generate/player.proto\<close>, with \<open>time_t\<close> for \<open>fixed32\<close> (\<open>login\<close>, \<open>logout\<close>) and \<open>unsigned int\<close> for \<open>uint32\<close> (\<open>played\<close>); \<open>played_times\<close> has its
  columns that the module uses. Where a function looks for a player, \<open>prop\<close> is the row of the
  player, \<open>None\<close> when it is not found.
\<close>

section \<open>State\<close>

record AddictedConfig =
  ad_enable :: bool
  kickTime :: u32
  notifyTime :: u32
  restTime :: u32

record played_times =
  pr_login :: int
  pr_logout :: int
  pr_played :: u32

record PlayerAddictedInfo =
  ai_timer :: "int option"
  ai_sended :: int

datatype watched = Adult | Watched PlayerAddictedInfo

type_synonym addicted = "u64 \<Rightarrow> watched option"

definition PLAYED :: "played_times \<Rightarrow> int \<Rightarrow> int" where
  "PLAYED p now = uint (pr_played p) + now - pr_login p"

text \<open>The conversion of a \<open>time_t\<close> to an \<open>int\<close>.\<close>

definition int_of_time :: "int \<Rightarrow> int" where
  "int_of_time x = sint (word_of_int x :: 32 word)"

text \<open>The time of the timer that \<open>timer_add\<close> makes, if there is memory.\<close>

definition timer_at :: "int \<Rightarrow> int \<Rightarrow> int option" where
  "timer_at next at = (if at < next \<or> at \<ge> next + int MAX_TIMER then None else Some at)"

section \<open>The check\<close>

text \<open>What a check does: the record is freed, the player is kicked, nothing (and the timer is not set again), or a notice of a type and the time played is
  sent or not and a new timer is set.\<close>

datatype check = Forgotten | Kicked | Nothing | Again "(int \<times> int) option" PlayerAddictedInfo

definition checkPlayer :: "AddictedConfig \<Rightarrow> int \<Rightarrow> int \<Rightarrow> played_times option \<Rightarrow> PlayerAddictedInfo \<Rightarrow> check res" where
  "checkPlayer cfg next now prop info =
     (case prop of
        None \<Rightarrow> Inr Forgotten
      | Some p \<Rightarrow>
          let played = PLAYED p now
          in if played \<ge> uint (kickTime cfg + 3) then Inr (if pr_login p > 0 then Kicked else Nothing)
             else if notifyTime cfg = 0 then Inl DivByZero
             else
               let type = (if played \<ge> uint (kickTime cfg) then 2 else if c_mod played (uint (notifyTime cfg)) = 0 then 1 else 0);
                   dosend = \<not> (type = 0 \<and> ai_sended info = 0 \<and> now - pr_login p < 60);
                   sended = ai_sended info + (if dosend then 1 else 0);
                   secKick = int_of_time (uint (kickTime cfg) - played + 5);
                   secNotify = int_of_time (uint (notifyTime cfg) - c_mod played (uint (notifyTime cfg)));
                   t = int_of_time (60 - (now - pr_login p));
                   secNotify = (if sended = 0 then (if t < secNotify then t else secNotify) else secNotify);
                   step = (if secKick > secNotify then secNotify else secKick);
                   step = (if step \<ge> int timer_max_sec then int timer_max_sec else step)
               in Inr (Again (if dosend then Some (type, int_of_time played) else None)
                        \<lparr>ai_timer = timer_at next (now + step), ai_sended = sended\<rparr>))"

text \<open>The first notice after a login.\<close>

definition addicted_notify :: "int \<Rightarrow> u64 \<Rightarrow> played_times \<Rightarrow> addicted \<Rightarrow> (int \<times> int) option \<times> addicted" where
  "addicted_notify now k p s =
     (case s k of
        Some (Watched info) \<Rightarrow>
          if ai_sended info > 0 then (None, s)
          else (Some (0, int_of_time (c_div (PLAYED p now) 3600)), s(k \<mapsto> Watched (info\<lparr>ai_sended := ai_sended info + 1\<rparr>)))
      | _ \<Rightarrow> (None, s))"

section \<open>Login and logout\<close>

definition addicted_login :: "AddictedConfig \<Rightarrow> int \<Rightarrow> int \<Rightarrow> u64 \<Rightarrow> addicted \<Rightarrow> addicted" where
  "addicted_login cfg next now k s =
     (if \<not> ad_enable cfg then s
      else
        case s k of
          None \<Rightarrow> s(k \<mapsto> Watched \<lparr>ai_timer = timer_at next (now + 5), ai_sended = 0\<rparr>)
        | Some _ \<Rightarrow> s)"

text \<open>The rest is computed as an \<open>unsigned int\<close>; the result has the row as it may have been changed.\<close>

definition addicted_can_login :: "AddictedConfig \<Rightarrow> int \<Rightarrow> u64 \<Rightarrow> played_times option \<Rightarrow> addicted \<Rightarrow> bool \<times> played_times option" where
  "addicted_can_login cfg now k prop s =
     (if \<not> ad_enable cfg then (True, prop)
      else if s k = Some Adult then (True, prop)
      else
        case prop of
          None \<Rightarrow> (True, None)
        | Some p \<Rightarrow>
            let rest = word_of_int (now - pr_logout p);
                p = (if pr_played p \<noteq> 0 \<and> rest \<ge> restTime cfg then p\<lparr>pr_played := 0\<rparr> else p)
            in (\<not> pr_played p \<ge> kickTime cfg, Some p))"

text \<open>\<open>prop\<close> is the row of the player if it is online.\<close>

definition addicted_logout :: "AddictedConfig \<Rightarrow> int \<Rightarrow> u64 \<Rightarrow> played_times option \<Rightarrow> addicted \<Rightarrow> played_times option \<times> addicted" where
  "addicted_logout cfg now k prop s =
     (if \<not> ad_enable cfg then (prop, s)
      else
        case s k of
          Some (Watched _) \<Rightarrow>
            (case prop of
               None \<Rightarrow> None
             | Some p \<Rightarrow> Some (if pr_login p > pr_logout p then p\<lparr>pr_played := pr_played p + word_of_int (now - pr_login p)\<rparr> else p),
             s(k := None))
        | _ \<Rightarrow> (prop, s))"

definition addicted_set_adult :: "u64 \<Rightarrow> addicted \<Rightarrow> addicted" where
  "addicted_set_adult k s = (if s k = Some Adult then s else s(k \<mapsto> Adult))"

definition addicted_set_minority :: "AddictedConfig \<Rightarrow> int \<Rightarrow> int \<Rightarrow> u64 \<Rightarrow> addicted \<Rightarrow> addicted" where
  "addicted_set_minority cfg next now k s =
     (case s k of Some (Watched _) \<Rightarrow> s | _ \<Rightarrow> addicted_login cfg next now k (s(k := None)))"

text \<open>\<open>force_young_player\<close>, filled by \<open>_parse_adult\<close> with the numbers in the table \<open>adult_player\<close>.\<close>

definition parse_adult :: "u64 list \<Rightarrow> u64 \<Rightarrow> bool" where
  "parse_adult rows = (\<lambda>k. k \<in> set rows)"

definition addicted_is_young_player :: "(u64 \<Rightarrow> bool) \<Rightarrow> u64 \<Rightarrow> bool" where
  "addicted_is_young_player force_young_player k = force_young_player k"

text \<open>The times of the login and the logout in the row.\<close>

definition update_login :: "int \<Rightarrow> played_times \<Rightarrow> played_times" where
  "update_login now p = p\<lparr>pr_login := now\<rparr>"

definition update_logout :: "int \<Rightarrow> played_times \<Rightarrow> played_times" where
  "update_logout now p = p\<lparr>pr_logout := now\<rparr>"

text \<open>The part of \<open>aL_login\<close> for the playing time. What it found of the age in the token is overwritten; when it does not end with
  \<open>RET_CHARACTER_STATUS_ADDICTED\<close> (the result \<open>False\<close>) it goes on to set the time of the login.\<close>

definition aL_login_played ::
  "AddictedConfig \<Rightarrow> (u64 \<Rightarrow> bool) \<Rightarrow> int \<Rightarrow> int \<Rightarrow> u64 \<Rightarrow> played_times \<Rightarrow> addicted \<Rightarrow> bool \<times> played_times \<times> addicted" where
  "aL_login_played cfg young next now k p s =
     (let isAdult = \<not> addicted_is_young_player young k
      in if isAdult then (True, update_login now p, addicted_set_adult k s)
         else
           let (can, prop) = addicted_can_login cfg now k (Some p) s; p = the prop
           in if \<not> can then (False, p, s)
              else
                let s = addicted_set_minority cfg next now k s;
                    (can, prop) = addicted_can_login cfg now k (Some p) s; p = the prop
                in if \<not> can then (False, p, s) else (True, update_login now p, s))"

text \<open>The part of \<open>aL_logout\<close> for a player who is online.\<close>

definition aL_logout_played :: "AddictedConfig \<Rightarrow> int \<Rightarrow> u64 \<Rightarrow> played_times \<Rightarrow> addicted \<Rightarrow> played_times \<times> addicted" where
  "aL_logout_played cfg now k p s =
     (let (prop, s) = addicted_logout cfg now k (Some p) s in (update_logout now (the prop), s))"

section \<open>The checks of one player\<close>

text \<open>The checks of a player who stays online, one after the other at the times of the timers, with the notices that are sent: how and when they end;
  \<open>None\<close> when they have not ended within the fuel.\<close>

fun checks :: "AddictedConfig \<Rightarrow> played_times \<Rightarrow> nat \<Rightarrow> int \<Rightarrow> PlayerAddictedInfo \<Rightarrow> ((int \<times> int) list \<times> check \<times> int) res option" where
  "checks cfg p 0 now info = None"
| "checks cfg p (Suc fuel) now info =
     (case checkPlayer cfg now now (Some p) info of
        Inl f \<Rightarrow> Some (Inl f)
      | Inr (Again n i) \<Rightarrow>
          (case ai_timer i of
             None \<Rightarrow> Some (Inr ((case n of None \<Rightarrow> [] | Some x \<Rightarrow> [x]), Again n i, now))
           | Some t \<Rightarrow>
               run_bind (checks cfg p fuel t i) (\<lambda>(ns, r, e). Some (Inr ((case n of None \<Rightarrow> [] | Some x \<Rightarrow> [x]) @ ns, r, e))))
      | Inr r \<Rightarrow> Some (Inr ([], r, now)))"

section \<open>The next check\<close>

lemma timer_add_takes:
  assumes "timer_add (Some a) m at cb data = Inr (r, m')" and "a \<noteq> 0"
  shows "r \<noteq> 0 \<longleftrightarrow> timer_at (int (tm_next m)) (int at) = Some (int at)"
  using assms by (auto simp: timer_add_def timer_at_def Let_def split: if_splits sum.splits)

lemma uint_of_time: "0 \<le> x \<Longrightarrow> x < 2 ^ 32 \<Longrightarrow> uint (word_of_int x :: u32) = x"
  by (simp add: unsigned_of_int take_bit_int_eq_self)

lemma int_of_time_id: "- (2 ^ 31) \<le> x \<Longrightarrow> x < 2 ^ 31 \<Longrightarrow> int_of_time x = x"
  by (simp add: int_of_time_def signed_of_int signed_take_bit_int_eq_self)

text \<open>A configuration whose hours fit into the integers of the check.\<close>

definition addicted_config_ok :: "AddictedConfig \<Rightarrow> bool" where
  "addicted_config_ok cfg \<longleftrightarrow> uint (kickTime cfg) + 5 < 2 ^ 31 \<and> 0 < uint (notifyTime cfg) \<and> uint (notifyTime cfg) < 2 ^ 31"

lemma kick_limit: "addicted_config_ok cfg \<Longrightarrow> uint (kickTime cfg + 3) = uint (kickTime cfg) + 3"
  by (simp add: addicted_config_ok_def uint_word_ariths)

text \<open>While the time is not over the next check comes within the hour, before or at the next notice and not later than five seconds after the limit; what is due now is announced.\<close>

lemma check_again:
  assumes "addicted_config_ok cfg" and "0 \<le> PLAYED p now" and "PLAYED p now < uint (kickTime cfg) + 3" and "pr_login p \<le> now"
    and "0 \<le> ai_sended info"
  obtains n i step where "checkPlayer cfg now now (Some p) info = Inr (Again n i)" and "ai_timer i = Some (now + step)"
    and "1 \<le> step" and "PLAYED p (now + step) \<le> uint (kickTime cfg) + 5" and "0 \<le> ai_sended i"
    and "step \<le> uint (notifyTime cfg) - PLAYED p now mod uint (notifyTime cfg)"
    and "PLAYED p now < uint (kickTime cfg) \<Longrightarrow> PLAYED p now mod uint (notifyTime cfg) = 0 \<Longrightarrow> n = Some (1, PLAYED p now)"
    and "uint (kickTime cfg) \<le> PLAYED p now \<Longrightarrow> n = Some (2, PLAYED p now)"
proof -
  let ?n = "PLAYED p now" and ?k = "uint (kickTime cfg)" and ?m = "uint (notifyTime cfg)"
  have cfg: "?k + 5 < 2 ^ 31" "0 < ?m" "?m < 2 ^ 31" "0 \<le> ?k"
    using assms(1) by (simp_all add: addicted_config_ok_def)
  have r: "c_mod ?n ?m = ?n mod ?m" "0 \<le> ?n mod ?m" "?n mod ?m < ?m" "notifyTime cfg \<noteq> 0"
    using cfg(2) assms(2) by (auto simp: c_mod_nonneg)
  have ids: "int_of_time (?k - ?n + 5) = ?k - ?n + 5" "int_of_time (?m - ?n mod ?m) = ?m - ?n mod ?m" "int_of_time ?n = ?n"
    using cfg r assms(2,3) by (simp_all add: int_of_time_id)
  define type :: int where "type = (if ?n \<ge> ?k then 2 else if ?n mod ?m = 0 then 1 else 0)"
  define dosend where "dosend \<longleftrightarrow> \<not> (type = 0 \<and> ai_sended info = 0 \<and> now - pr_login p < 60)"
  define sended where "sended = ai_sended info + (if dosend then 1 else 0)"
  have t: "1 \<le> int_of_time (60 - (now - pr_login p))" if "sended = 0"
  proof -
    have "now - pr_login p < 60" using that assms(5) by (auto simp: sended_def dosend_def split: if_splits)
    with assms(4) show ?thesis by (simp add: int_of_time_id)
  qed
  define sec where "sec = (if sended = 0 then min (int_of_time (60 - (now - pr_login p))) (?m - ?n mod ?m) else ?m - ?n mod ?m)"
  have sec: "1 \<le> sec" "sec \<le> ?m - ?n mod ?m"
    using t r(3) by (auto simp: sec_def)
  define step where "step = min (min sec (?k - ?n + 5)) (int timer_max_sec)"
  have step: "1 \<le> step" "step \<le> int timer_max_sec" "step \<le> sec" "step \<le> ?k - ?n + 5"
    using sec(1) assms(3) by (auto simp: step_def timer_max_sec_def MAX_TIMER_def)
  have tm: "timer_at now (now + step) = Some (now + step)"
    using step(1,2) by (auto simp: timer_at_def timer_max_sec_def MAX_TIMER_def)
  have eq: "checkPlayer cfg now now (Some p) info
      = Inr (Again (if dosend then Some (type, ?n) else None) \<lparr>ai_timer = Some (now + step), ai_sended = sended\<rparr>)"
  proof -
    have no: "\<not> uint (kickTime cfg + 3) \<le> ?n" using assms(3) by (simp add: kick_limit[OF assms(1)])
    have X: "(let secNotify = ?m - ?n mod ?m; t = int_of_time (60 - (now - pr_login p));
                secNotify = (if sended = 0 then (if t < secNotify then t else secNotify) else secNotify);
                step = (if ?k - ?n + 5 > secNotify then secNotify else ?k - ?n + 5)
            in if step \<ge> int timer_max_sec then int timer_max_sec else step) = step"
      by (simp add: step_def sec_def min_def Let_def)
    show ?thesis
      unfolding checkPlayer_def option.simps Let_def r(1) ids if_not_P[OF no] if_not_P[OF r(4)] type_def[symmetric] dosend_def[symmetric]
        sended_def[symmetric] X[unfolded Let_def] tm ..
  qed
  show thesis
  proof (rule that[OF eq])
    show "PLAYED p (now + step) \<le> ?k + 5" using step(4) by (simp add: PLAYED_def)
  qed (use step sec assms(5) in \<open>auto simp: type_def dosend_def sended_def\<close>)
qed

lemma next_multiple:
  fixes m :: int
  assumes "0 < m" and "n < x" and "x mod m = 0"
  shows "m - n mod m \<le> x - n"
proof -
  have x: "x = x div m * m" and n: "n = n div m * m + n mod m"
    using div_mult_mod_eq[of x m] assms(3) by simp_all
  have "n div m * m < x div m * m" using x n assms(1,2) pos_mod_sign[of m n] by linarith
  then have "n div m + 1 \<le> x div m" using assms(1) by simp
  then have "(n div m + 1) * m \<le> x div m * m" using assms(1) by (intro mult_right_mono) simp_all
  then have "n div m * m + m \<le> x div m * m" by (simp add: distrib_right)
  then show ?thesis using x n by linarith
qed

section \<open>Properties\<close>

text \<open>C16: A player who is watched and stays online is checked until it is kicked, between three and five seconds after its time is over, whatever the time between
  two notices is; and every multiple of that time it plays through before, up to the limit itself, is announced to it, the limit as such.\<close>

theorem watched_player_is_kicked:
  assumes "addicted_config_ok cfg" and "0 < pr_login p" and "pr_login p \<le> now" and "PLAYED p now \<le> uint (kickTime cfg) + 5"
    and "0 \<le> ai_sended info" and "uint (kickTime cfg) + 5 - PLAYED p now < int fuel"
  shows "\<exists>ns e. checks cfg p fuel now info = Some (Inr (ns, Kicked, e))
     \<and> uint (kickTime cfg) + 3 \<le> PLAYED p e \<and> PLAYED p e \<le> uint (kickTime cfg) + 5
     \<and> (\<forall>t \<ge> now. PLAYED p t mod uint (notifyTime cfg) = 0 \<and> PLAYED p t \<le> uint (kickTime cfg)
          \<longrightarrow> (if PLAYED p t < uint (kickTime cfg) then 1 else 2, PLAYED p t) \<in> set ns)"
  using assms(3-6)
proof (induction fuel arbitrary: now info)
  case 0
  then show ?case by simp
next
  case (Suc fuel)
  let ?k = "uint (kickTime cfg)" and ?m = "uint (notifyTime cfg)"
  have pos: "0 \<le> PLAYED p now" using Suc.prems(1) uint_ge_0[of "pr_played p"] unfolding PLAYED_def by linarith
  show ?case
  proof (cases "?k + 3 \<le> PLAYED p now")
    case True
    then have "checks cfg p (Suc fuel) now info = Some (Inr ([], Kicked, now))"
      using assms(2) by (simp add: checkPlayer_def kick_limit[OF assms(1)])
    moreover have "\<not> PLAYED p t \<le> ?k" if "t \<ge> now" for t using True that by (simp add: PLAYED_def)
    ultimately show ?thesis using True Suc.prems(2) by auto
  next
    case False
    then obtain n i step where c: "checkPlayer cfg now now (Some p) info = Inr (Again n i)" "ai_timer i = Some (now + step)"
      "1 \<le> step" "PLAYED p (now + step) \<le> ?k + 5" "0 \<le> ai_sended i" "step \<le> ?m - PLAYED p now mod ?m"
      "PLAYED p now < ?k \<Longrightarrow> PLAYED p now mod ?m = 0 \<Longrightarrow> n = Some (1, PLAYED p now)"
      "?k \<le> PLAYED p now \<Longrightarrow> n = Some (2, PLAYED p now)"
      using check_again[OF assms(1) pos _ Suc.prems(1,3)] by (metis not_le)
    have "uint (kickTime cfg) + 5 - PLAYED p (now + step) < int fuel" and "pr_login p \<le> now + step"
      using Suc.prems(1,4) c(3) by (simp_all add: PLAYED_def)
    from Suc.IH[OF this(2) c(4,5) this(1)] obtain ns e where e: "checks cfg p fuel (now + step) i = Some (Inr (ns, Kicked, e))"
      "?k + 3 \<le> PLAYED p e" "PLAYED p e \<le> ?k + 5"
      and ns: "\<And>t. t \<ge> now + step \<Longrightarrow> PLAYED p t mod ?m = 0 \<Longrightarrow> PLAYED p t \<le> ?k \<Longrightarrow>
         (if PLAYED p t < ?k then 1 else 2, PLAYED p t) \<in> set ns" by metis
    have "(if PLAYED p t < ?k then 1 else 2, PLAYED p t) \<in> set ((case n of None \<Rightarrow> [] | Some x \<Rightarrow> [x]) @ ns)"
      if "t \<ge> now" "PLAYED p t mod ?m = 0" "PLAYED p t \<le> ?k" for t
    proof (cases "t = now")
      case True
      with that c(7,8) show ?thesis by (cases "PLAYED p now < ?k") auto
    next
      case False
      then have "?m - PLAYED p now mod ?m \<le> PLAYED p t - PLAYED p now"
        using that(1,2) assms(1) by (intro next_multiple) (auto simp: addicted_config_ok_def PLAYED_def)
      with c(6) have "t \<ge> now + step" by (simp add: PLAYED_def)
      with ns that(2,3) show ?thesis by simp
    qed
    with e c(1,2) show ?thesis by simp
  qed
qed

definition addicted_example :: AddictedConfig where
  "addicted_example = \<lparr>ad_enable = True, kickTime = 3 * 3600, notifyTime = 3600, restTime = 5 * 3600\<rparr>"

theorem watched_player_is_kicked_witness:
  "\<exists>ns e. checks addicted_example \<lparr>pr_login = 5000, pr_logout = 0, pr_played = 0\<rparr> 20000 5005 \<lparr>ai_timer = None, ai_sended = 0\<rparr>
     = Some (Inr (ns, Kicked, e)) \<and> 15803 \<le> e \<and> e \<le> 15805 \<and> (1, 3600) \<in> set ns \<and> (1, 7200) \<in> set ns \<and> (2, 10800) \<in> set ns"
proof -
  let ?p = "\<lparr>pr_login = 5000, pr_logout = 0, pr_played = 0\<rparr>"
  obtain ns e where "checks addicted_example ?p 20000 5005 \<lparr>ai_timer = None, ai_sended = 0\<rparr> = Some (Inr (ns, Kicked, e))"
    "10803 \<le> PLAYED ?p e" "PLAYED ?p e \<le> 10805"
    and ns: "\<And>t. t \<ge> 5005 \<Longrightarrow> PLAYED ?p t mod 3600 = 0 \<Longrightarrow> PLAYED ?p t \<le> 10800
        \<Longrightarrow> (if PLAYED ?p t < 10800 then 1 else 2, PLAYED ?p t) \<in> set ns"
    using watched_player_is_kicked[of addicted_example ?p 5005 "\<lparr>ai_timer = None, ai_sended = 0\<rparr>" 20000]
    by (auto simp: addicted_config_ok_def addicted_example_def PLAYED_def)
  with ns[of 8600] ns[of 12200] ns[of 15800] show ?thesis by (auto simp: PLAYED_def)
qed

text \<open>A minor who has used up its time and logs out can log in again exactly when it has rested for the time of the configuration.\<close>

lemma kicked_player_must_rest:
  assumes "ad_enable cfg" and "s k = Some (Watched i)" and "young k" and "pr_logout p < pr_login p" and "pr_login p \<le> now"
    and "0 < kickTime cfg" and "uint (kickTime cfg) \<le> PLAYED p now" and "PLAYED p now < 2 ^ 32" and "now \<le> later" and "later < now + 2 ^ 32"
    and "aL_logout_played cfg now k p s = (p', s')"
  shows "fst (aL_login_played cfg young next later k p' s') \<longleftrightarrow> now + uint (restTime cfg) \<le> later"
proof -
  let ?q = "pr_played p + word_of_int (now - pr_login p) :: u32"
  have p': "p' = p\<lparr>pr_played := ?q, pr_logout := now\<rparr>" "s' = s(k := None)"
    using assms(1,2,4,11) by (auto simp: aL_logout_played_def update_logout_def addicted_logout_def)
  have "uint ?q = PLAYED p now"
  proof -
    have "?q = word_of_int (PLAYED p now)" by (simp add: PLAYED_def algebra_simps)
    moreover have "0 \<le> PLAYED p now" using assms(5) uint_ge_0[of "pr_played p"] unfolding PLAYED_def by linarith
    ultimately show ?thesis using assms(8) by (simp add: uint_of_time)
  qed
  then have q: "kickTime cfg \<le> ?q" "?q \<noteq> 0" using assms(6,7) by (auto simp: word_le_def word_less_def)
  have rest: "restTime cfg \<le> word_of_int (later - now) \<longleftrightarrow> now + uint (restTime cfg) \<le> later"
    using uint_of_time[of "later - now"] assms(9,10) unfolding word_le_def by auto
  have none: "\<not> kickTime cfg \<le> 0" using assms(6) by (simp add: not_le)
  show ?thesis
    using assms(1,3) q none rest
    by (auto simp: aL_login_played_def addicted_is_young_player_def addicted_can_login_def addicted_set_minority_def addicted_login_def update_login_def p' Let_def)
qed

text \<open>A login of a minor who is already playing, which a client may ask for at any time, sets the time of the login without adding up the time played since the
  last one: the time starts again from what it was at that login.\<close>

lemma login_again_forgets:
  assumes "ad_enable cfg" and "s k = Some (Watched i)" and "young k" and "pr_played p < kickTime cfg"
    and "aL_login_played cfg young next now k p s = (r, p', s')"
  shows "r \<and> s' = s \<and> PLAYED p' now \<le> uint (pr_played p)"
proof -
  have "\<not> kickTime cfg \<le> pr_played p" "0 < kickTime cfg" using assms(4) by (auto intro: le_less_trans word_zero_le)
  then show ?thesis
    using assms
    by (auto simp: aL_login_played_def addicted_is_young_player_def addicted_can_login_def addicted_set_minority_def update_login_def PLAYED_def Let_def not_le split: if_splits)
qed

text \<open>A player who is not in the table \<open>adult_player\<close> is not limited; those in the table are.\<close>

lemma unlisted_player_is_adult:
  assumes "k \<notin> set rows"
  shows "\<exists>p' s'. aL_login_played cfg (parse_adult rows) next now k p s = (True, p', s') \<and> s' k = Some Adult
     \<and> addicted_login cfg next now k s' = s' \<and> fst (addicted_can_login cfg now k prop s')"
  using assms by (auto simp: aL_login_played_def addicted_is_young_player_def parse_adult_def addicted_set_adult_def addicted_login_def addicted_can_login_def)

end
