(* ===== verification/DataRow.thy ===== *)
theory DataRow
  imports Registry
begin

text \<open>
  The rows of players and the database behind them. \<^verbatim>\<open>src/code_generate/code_generate.cpp\<close> emits for every table a
  structure and the same set of functions (\<open>DATA_X_new\<close>, \<open>DATA_X_update_f\<close>, \<open>DATA_X_delete\<close>, \<open>DATA_X_release\<close>,
  \<open>DATA_X_save\<close>, \<open>DATA_X_flush\<close>); here they are translated once, over the type \<open>'r\<close> of the columns. A change is made in memory
  and marked in the row, which joins a list of rows to be written; the flush at the end of every tick writes those that changed
  long enough ago, and those that are released.

  Of a table the functions use \<open>key\<close> (the required columns), \<open>ids\<close> (the numbers of the columns) and \<open>copy i r d\<close>,
  which is \<open>d\<close> with column \<open>i\<close> of \<open>r\<close>. The database is a map from keys to rows; \<open>acc\<close> says whether it accepts a statement.
  \<open>now\<close> is \<open>agT_current()\<close>. The list ends at the address \<open>VOID_ROW\<close> of a static row, so that 0 means that a row is not in the list.
\<close>

section \<open>State\<close>

record 'r data_row =
  update_next :: addr
  dirty :: u64
  dirty_time :: int
  last_change_time :: int
  data_flag :: nat
  row :: 'r

record ('k, 'r) data_table =
  dt_rows :: "addr \<Rightarrow> 'r data_row option"
  update_list :: addr
  dt_db :: "'k \<Rightarrow> 'r option"

definition VOID_ROW :: addr where "VOID_ROW = 1"
definition DATA_FLAG_DELETE :: nat where "DATA_FLAG_DELETE = 1"
definition DATA_FLAG_RELEASE :: nat where "DATA_FLAG_RELEASE = 2"

section \<open>Operations\<close>

definition add_to_update_list :: "addr \<Rightarrow> ('k, 'r) data_table \<Rightarrow> ('k, 'r) data_table res" where
  "add_to_update_list a t =
     (case dt_rows t a of
        None \<Rightarrow> Inl UseAfterFree
      | Some x \<Rightarrow>
          if update_next x = 0
          then Inr (t\<lparr>dt_rows := (dt_rows t)(a \<mapsto> x\<lparr>update_next := update_list t\<rparr>), update_list := a\<rparr>)
          else Inr t)"

text \<open>The insertion fails if the database has a row with the key.\<close>

definition DATA_new :: "bool \<Rightarrow> ('r \<Rightarrow> 'k) \<Rightarrow> addr \<Rightarrow> ('k, 'r) data_table \<Rightarrow> (int \<times> ('k, 'r) data_table) res" where
  "DATA_new acc key a t =
     (case dt_rows t a of
        None \<Rightarrow> Inl UseAfterFree
      | Some x \<Rightarrow>
          if acc \<and> dt_db t (key (row x)) = None
          then Inr (0, t\<lparr>dt_db := (dt_db t)(key (row x) \<mapsto> row x),
                 dt_rows := (dt_rows t)(a \<mapsto> x\<lparr>dirty := 0, dirty_time := 0, last_change_time := 0, data_flag := 0\<rparr>)\<rparr>)
          else Inr (-1, t))"

definition DATA_delete :: "bool \<Rightarrow> ('r \<Rightarrow> 'k) \<Rightarrow> addr \<Rightarrow> ('k, 'r) data_table \<Rightarrow> (int \<times> ('k, 'r) data_table) res" where
  "DATA_delete acc key a t =
     (case dt_rows t a of
        None \<Rightarrow> Inl UseAfterFree
      | Some x \<Rightarrow>
          if \<not> acc then Inr (-1, t)
          else
            res_bind (add_to_update_list a
              (t\<lparr>dt_db := (dt_db t)(key (row x) := None),
                 dt_rows := (dt_rows t)(a \<mapsto> x\<lparr>dirty := 0, dirty_time := 0, last_change_time := 0, data_flag := DATA_FLAG_DELETE\<rparr>)\<rparr>))
              (\<lambda>t. Inr (0, t)))"

definition DATA_release :: "addr \<Rightarrow> ('k, 'r) data_table \<Rightarrow> (int \<times> ('k, 'r) data_table) res" where
  "DATA_release a t =
     (case dt_rows t a of
        None \<Rightarrow> Inl UseAfterFree
      | Some x \<Rightarrow>
          res_bind (add_to_update_list a (t\<lparr>dt_rows := (dt_rows t)(a \<mapsto> x\<lparr>data_flag := DATA_FLAG_RELEASE\<rparr>)\<rparr>)) (\<lambda>t. Inr (0, t)))"

text \<open>\<open>put\<close> assigns the new value to column \<open>i\<close>; nothing happens if the column has that value already.\<close>

definition DATA_update :: "int \<Rightarrow> nat \<Rightarrow> ('r \<Rightarrow> 'r) \<Rightarrow> addr \<Rightarrow> ('k, 'r) data_table \<Rightarrow> (int \<times> ('k, 'r) data_table) res" where
  "DATA_update now i put a t =
     (case dt_rows t a of
        None \<Rightarrow> Inl UseAfterFree
      | Some x \<Rightarrow>
          if put (row x) = row x then Inr (0, t)
          else
            let x = x\<lparr>row := put (row x), dirty_time := (if dirty_time x = 0 then now else dirty_time x),
                      last_change_time := now, dirty := or (dirty x) (push_bit i 1)\<rparr>
            in res_bind (add_to_update_list a (t\<lparr>dt_rows := (dt_rows t)(a \<mapsto> x)\<rparr>)) (\<lambda>t. Inr (0, t)))"

text \<open>What the statement of a save assigns: the columns whose bit is set.\<close>

definition merge :: "nat list \<Rightarrow> (nat \<Rightarrow> 'r \<Rightarrow> 'r \<Rightarrow> 'r) \<Rightarrow> u64 \<Rightarrow> 'r \<Rightarrow> 'r \<Rightarrow> 'r" where
  "merge ids copy m r d = fold (\<lambda>i d. if bit m i then copy i r d else d) ids d"

definition DATA_save ::
  "bool \<Rightarrow> ('r \<Rightarrow> 'k) \<Rightarrow> nat list \<Rightarrow> (nat \<Rightarrow> 'r \<Rightarrow> 'r \<Rightarrow> 'r) \<Rightarrow> addr \<Rightarrow> ('k, 'r) data_table \<Rightarrow> (int \<times> ('k, 'r) data_table) res" where
  "DATA_save acc key ids copy a t =
     (case dt_rows t a of
        None \<Rightarrow> Inl UseAfterFree
      | Some x \<Rightarrow>
          if dirty x = 0 then Inr (0, t)
          else if \<not> acc then Inr (-1, t)
          else Inr (0, t\<lparr>dt_db := (dt_db t)(key (row x) := map_option (merge ids copy (dirty x) (row x)) (dt_db t (key (row x)))),
                 dt_rows := (dt_rows t)(a \<mapsto> x\<lparr>dirty := 0, dirty_time := 0, last_change_time := 0\<rparr>)\<rparr>))"

definition due :: "int \<Rightarrow> 'r data_row \<Rightarrow> bool" where
  "due now x \<longleftrightarrow> now - dirty_time x \<ge> 30 \<or> now - last_change_time x \<ge> 5"

definition free_row :: "addr \<Rightarrow> ('k, 'r) data_table \<Rightarrow> ('k, 'r) data_table" where
  "free_row a t = t\<lparr>dt_rows := (dt_rows t)(a := None)\<rparr>"

text \<open>The loop of the flush: \<open>nosaved\<close> is the list of the rows that stay. \<open>acc a\<close>: the database accepts the statement for row \<open>a\<close>.\<close>

fun flush_loop ::
  "(addr \<Rightarrow> bool) \<Rightarrow> ('r \<Rightarrow> 'k) \<Rightarrow> nat list \<Rightarrow> (nat \<Rightarrow> 'r \<Rightarrow> 'r \<Rightarrow> 'r) \<Rightarrow> int \<Rightarrow> nat \<Rightarrow> addr \<Rightarrow> ('k, 'r) data_table \<Rightarrow>
    (addr \<times> ('k, 'r) data_table) res option" where
  "flush_loop acc key ids copy now fuel nosaved t =
     (if update_list t = VOID_ROW then Some (Inr (nosaved, t))
      else case fuel of
        0 \<Rightarrow> None
      | Suc fuel \<Rightarrow>
          let a = update_list t
          in case dt_rows t a of
               None \<Rightarrow> Some (Inl UseAfterFree)
             | Some x \<Rightarrow>
                 let t = t\<lparr>update_list := update_next x, dt_rows := (dt_rows t)(a \<mapsto> x\<lparr>update_next := 0\<rparr>)\<rparr>
                 in if data_flag x = DATA_FLAG_RELEASE then
                      run_bind (Some (DATA_save (acc a) key ids copy a t)) (\<lambda>(_, t).
                        flush_loop acc key ids copy now fuel nosaved (free_row a t))
                    else if data_flag x = DATA_FLAG_DELETE then
                      flush_loop acc key ids copy now fuel nosaved (free_row a t)
                    else if due now x then
                      run_bind (Some (DATA_save (acc a) key ids copy a t)) (\<lambda>(_, t).
                        flush_loop acc key ids copy now fuel nosaved t)
                    else
                      flush_loop acc key ids copy now fuel a (t\<lparr>dt_rows := (dt_rows t)(a \<mapsto> x\<lparr>update_next := nosaved\<rparr>)\<rparr>))"

declare flush_loop.simps [simp del]

definition DATA_flush ::
  "(addr \<Rightarrow> bool) \<Rightarrow> ('r \<Rightarrow> 'k) \<Rightarrow> nat list \<Rightarrow> (nat \<Rightarrow> 'r \<Rightarrow> 'r \<Rightarrow> 'r) \<Rightarrow> int \<Rightarrow> nat \<Rightarrow> ('k, 'r) data_table \<Rightarrow>
    (int \<times> ('k, 'r) data_table) res option" where
  "DATA_flush acc key ids copy now fuel t =
     run_bind (flush_loop acc key ids copy now fuel VOID_ROW t) (\<lambda>(nosaved, t). Some (Inr (0, t\<lparr>update_list := nosaved\<rparr>)))"

end
