(* ===== verification/DataFlush.thy ===== *)
theory DataFlush
  imports DataRow
begin

text \<open>
  What the rows in memory and the database together stand for: one row for every key. Changes are visible at once,
  releasing and flushing do not change what is stored, and the database follows within bounded time.
\<close>

section \<open>Invariant\<close>

fun uchain :: "(addr \<Rightarrow> 'r data_row option) \<Rightarrow> addr \<Rightarrow> addr list \<Rightarrow> bool" where
  "uchain h p [] \<longleftrightarrow> p = VOID_ROW"
| "uchain h p (a # as) \<longleftrightarrow> p = a \<and> a \<noteq> VOID_ROW \<and> a \<noteq> 0 \<and> (case h a of None \<Rightarrow> False | Some x \<Rightarrow> uchain h (update_next x) as)"

definition stored :: "'r data_row \<Rightarrow> bool" where
  "stored x \<longleftrightarrow> data_flag x \<noteq> DATA_FLAG_DELETE"

text \<open>A row is in the list of changed rows, here with the addresses \<open>S\<close>, if it is dirty or flagged.\<close>

definition listed :: "addr set \<Rightarrow> addr \<Rightarrow> 'r data_row \<Rightarrow> bool" where
  "listed S a x \<longleftrightarrow> a \<noteq> 0 \<and> a \<noteq> VOID_ROW \<and> (update_next x \<noteq> 0 \<longleftrightarrow> a \<in> S) \<and> (dirty x \<noteq> 0 \<or> data_flag x \<noteq> 0 \<longrightarrow> a \<in> S)
     \<and> data_flag x \<in> {0, DATA_FLAG_DELETE, DATA_FLAG_RELEASE}"

text \<open>The database differs from the row at most in the columns that are marked.\<close>

definition backed :: "('r \<Rightarrow> 'k) \<Rightarrow> nat list \<Rightarrow> (nat \<Rightarrow> 'r \<Rightarrow> 'r \<Rightarrow> 'r) \<Rightarrow> ('k \<Rightarrow> 'r option) \<Rightarrow> 'r data_row \<Rightarrow> bool" where
  "backed key ids copy db x \<longleftrightarrow> (stored x \<longrightarrow> map_option (merge ids copy (dirty x) (row x)) (db (key (row x))) = Some (row x))"

definition one_each :: "('r \<Rightarrow> 'k) \<Rightarrow> (addr \<Rightarrow> 'r data_row option) \<Rightarrow> bool" where
  "one_each key h \<longleftrightarrow> (\<forall>a b x y. h a = Some x \<longrightarrow> h b = Some y \<longrightarrow> stored x \<longrightarrow> stored y \<longrightarrow> key (row x) = key (row y) \<longrightarrow> a = b)"

text \<open>While the flush runs there are two lists, of the rows to go and of the rows that stay.\<close>

definition rows_ok ::
  "('r \<Rightarrow> 'k) \<Rightarrow> nat list \<Rightarrow> (nat \<Rightarrow> 'r \<Rightarrow> 'r \<Rightarrow> 'r) \<Rightarrow> ('k, 'r) data_table \<Rightarrow> addr \<Rightarrow> addr list \<Rightarrow> addr list \<Rightarrow> bool" where
  "rows_ok key ids copy t p ls ns \<longleftrightarrow>
     uchain (dt_rows t) (update_list t) ls \<and> uchain (dt_rows t) p ns \<and> distinct (ls @ ns)
     \<and> (\<forall>a x. dt_rows t a = Some x \<longrightarrow> listed (set ls \<union> set ns) a x \<and> backed key ids copy (dt_db t) x)
     \<and> one_each key (dt_rows t)"

definition table_ok :: "('r \<Rightarrow> 'k) \<Rightarrow> nat list \<Rightarrow> (nat \<Rightarrow> 'r \<Rightarrow> 'r \<Rightarrow> 'r) \<Rightarrow> ('k, 'r) data_table \<Rightarrow> addr list \<Rightarrow> bool" where
  "table_ok key ids copy t ls \<longleftrightarrow> rows_ok key ids copy t VOID_ROW ls []"

text \<open>The row stored under a key: the one in memory, if there is one, or that of the database.\<close>

definition stored_row :: "('r \<Rightarrow> 'k) \<Rightarrow> ('k, 'r) data_table \<Rightarrow> 'k \<Rightarrow> 'r \<Rightarrow> bool" where
  "stored_row key t k r \<longleftrightarrow>
     (\<exists>a x. dt_rows t a = Some x \<and> stored x \<and> key (row x) = k \<and> row x = r)
     \<or> ((\<nexists>a x. dt_rows t a = Some x \<and> stored x \<and> key (row x) = k) \<and> dt_db t k = Some r)"

section \<open>Lemmas\<close>

lemma flags [simp]: "DATA_FLAG_DELETE \<noteq> 0" "DATA_FLAG_RELEASE \<noteq> 0" "DATA_FLAG_RELEASE \<noteq> DATA_FLAG_DELETE" "DATA_FLAG_DELETE \<noteq> DATA_FLAG_RELEASE" "VOID_ROW \<noteq> 0"
  by (simp_all add: DATA_FLAG_DELETE_def DATA_FLAG_RELEASE_def VOID_ROW_def)

lemma uchain_cong: "(\<And>a. a \<in> set as \<Longrightarrow> map_option update_next (h' a) = map_option update_next (h a)) \<Longrightarrow> uchain h' p as = uchain h p as"
proof (induction as arbitrary: p)
  case (Cons a as)
  have "map_option update_next (h' a) = map_option update_next (h a)" using Cons.prems by simp
  moreover have "uchain h' q as = uchain h q as" for q using Cons.IH Cons.prems by simp
  ultimately show ?case by (cases "h a"; cases "h' a"; simp)
qed simp

lemma uchain_live: "uchain h p as \<Longrightarrow> a \<in> set as \<Longrightarrow> h a \<noteq> None"
  by (induction as arbitrary: p) (auto split: option.splits)

lemma merge_0 [simp]: "merge ids copy 0 r d = d"
  by (induction ids arbitrary: d) (simp_all add: merge_def)

text \<open>A row with the same contents saved: the database has the row.\<close>

lemma rows_okD:
  assumes "rows_ok key ids copy t p ls ns"
  shows "uchain (dt_rows t) (update_list t) ls" and "uchain (dt_rows t) p ns" and "distinct (ls @ ns)"
    and "dt_rows t a = Some x \<Longrightarrow> listed (set ls \<union> set ns) a x" and "dt_rows t a = Some x \<Longrightarrow> backed key ids copy (dt_db t) x"
    and "one_each key (dt_rows t)"
  using assms unfolding rows_ok_def by blast+

lemma one_eachD: "one_each key h \<Longrightarrow> h a = Some x \<Longrightarrow> h b = Some y \<Longrightarrow> stored x \<Longrightarrow> stored y \<Longrightarrow> key (row x) = key (row y) \<Longrightarrow> a = b"
  unfolding one_each_def by blast

lemma one_each_less:
  assumes "one_each key h" and "\<And>a x. h' a = Some x \<Longrightarrow> \<exists>y. h a = Some y \<and> key (row y) = key (row x) \<and> (stored x \<longrightarrow> stored y)"
  shows "one_each key h'"
  using assms unfolding one_each_def by metis

text \<open>The first row leaves the list and is freed; \<open>db\<close> is the database afterwards.\<close>

lemma rows_free:
  assumes "rows_ok key ids copy t p (a # ls) ns" and "dt_rows t a = Some x"
    and "\<And>k. k \<noteq> key (row x) \<or> \<not> stored x \<Longrightarrow> db k = dt_db t k"
  shows "rows_ok key ids copy (t\<lparr>update_list := update_next x, dt_rows := (dt_rows t)(a := None), dt_db := db\<rparr>) p ls ns"
proof -
  note d = rows_okD[OF assms(1)]
  have a: "a \<notin> set ls" "a \<notin> set ns" "distinct (ls @ ns)" using d(3) by auto
  have c: "uchain ((dt_rows t)(a := None)) (update_next x) ls" "uchain ((dt_rows t)(a := None)) p ns"
    using d(1,2) a assms(2) by (subst uchain_cong[where h = "dt_rows t"]; auto)+
  have "listed (set ls \<union> set ns) b y \<and> backed key ids copy db y" if "dt_rows t b = Some y" "b \<noteq> a" for b y
  proof -
    have "stored y \<Longrightarrow> db (key (row y)) = dt_db t (key (row y))"
      using assms(3) one_eachD[OF d(6) assms(2) that(1)] that(2) by metis
    then show ?thesis using d(4,5)[OF that(1)] that(2) by (auto simp: listed_def backed_def)
  qed
  moreover have "one_each key ((dt_rows t)(a := None))" by (rule one_each_less[OF d(6)]) (auto split: if_splits)
  ultimately show ?thesis
    unfolding rows_ok_def using c a(3) by (auto split: if_splits)
qed

text \<open>The first row leaves the list with its columns written.\<close>

lemma rows_saved:
  assumes "rows_ok key ids copy t p (a # ls) ns" and "dt_rows t a = Some x" and "data_flag x = 0"
    and "\<And>k. k \<noteq> key (row x) \<Longrightarrow> db k = dt_db t k" and "db (key (row x)) = Some (row x)"
    and "row x' = row x" and "update_next x' = 0" and "dirty x' = 0" and "data_flag x' = 0"
  shows "rows_ok key ids copy (t\<lparr>update_list := update_next x, dt_rows := (dt_rows t)(a \<mapsto> x'), dt_db := db\<rparr>) p ls ns"
proof -
  note d = rows_okD[OF assms(1)]
  have a: "a \<notin> set ls" "a \<notin> set ns" "distinct (ls @ ns)" using d(3) by auto
  have c: "uchain ((dt_rows t)(a \<mapsto> x')) (update_next x) ls" "uchain ((dt_rows t)(a \<mapsto> x')) p ns"
    using d(1,2) a assms(2) by (subst uchain_cong[where h = "dt_rows t"]; auto)+
  have "listed (set ls \<union> set ns) b y \<and> backed key ids copy db y" if "dt_rows t b = Some y" "b \<noteq> a" for b y
  proof -
    have "stored y \<Longrightarrow> db (key (row y)) = dt_db t (key (row y))"
      using assms(3,4) one_eachD[OF d(6) assms(2) that(1)] that(2) by (metis stored_def flags(1))
    then show ?thesis using d(4,5)[OF that(1)] that(2) by (auto simp: listed_def backed_def)
  qed
  moreover have "listed (set ls \<union> set ns) a x' \<and> backed key ids copy db x'"
    using a d(4)[OF assms(2)] assms(5-9) by (simp add: listed_def backed_def)
  moreover have "one_each key ((dt_rows t)(a \<mapsto> x'))"
    by (rule one_each_less[OF d(6)]) (use assms(2,3,6,9) in \<open>auto simp: stored_def split: if_splits\<close>)
  ultimately show ?thesis
    unfolding rows_ok_def using c a(3) by (auto split: if_splits)
qed

text \<open>The first row moves to the list of those that stay.\<close>

lemma rows_kept:
  assumes "rows_ok key ids copy t p (a # ls) ns" and "dt_rows t a = Some x" and "p \<noteq> 0"
  shows "rows_ok key ids copy (t\<lparr>update_list := update_next x, dt_rows := (dt_rows t)(a \<mapsto> x\<lparr>update_next := p\<rparr>)\<rparr>) a ls (a # ns)"
proof -
  note d = rows_okD[OF assms(1)]
  let ?h = "(dt_rows t)(a \<mapsto> x\<lparr>update_next := p\<rparr>)"
  have a: "a \<notin> set ls" "a \<notin> set ns" "distinct (ls @ a # ns)" "a \<noteq> VOID_ROW" "a \<noteq> 0" using d(3) d(4)[OF assms(2)] by (auto simp: listed_def)
  have "uchain ?h (update_next x) ls" "uchain ?h p ns"
    using d(1,2) a assms(2) by (subst uchain_cong[where h = "dt_rows t"]; auto)+
  then have c: "uchain ?h (update_next x) ls" "uchain ?h a (a # ns)" using a by simp_all
  have "listed (set ls \<union> set (a # ns)) b y \<and> backed key ids copy (dt_db t) y" if "?h b = Some y" for b y
    using d(4,5)[of b "if b = a then x else y"] that assms(2,3) by (auto simp: listed_def backed_def stored_def split: if_splits)
  moreover have "one_each key ?h" by (rule one_each_less[OF d(6)]) (use assms(2) in \<open>auto simp: stored_def split: if_splits\<close>)
  ultimately show ?thesis unfolding rows_ok_def using c a(3) by simp
qed

section \<open>The flush\<close>

definition saved :: "'r data_row \<Rightarrow> 'r data_row" where
  "saved x = (if dirty x = 0 then x else x\<lparr>dirty := 0, dirty_time := 0, last_change_time := 0\<rparr>)"

lemma saved_simps [simp]: "row (saved x) = row x" "dirty (saved x) = 0" "update_next (saved x) = update_next x" "data_flag (saved x) = data_flag x"
  by (simp_all add: saved_def)

lemma table_upd_swap: "t\<lparr>dt_db := db, dt_rows := h\<rparr> = t\<lparr>dt_rows := h, dt_db := db\<rparr>"
  by simp

lemma save_ok:
  assumes "dt_rows t a = Some x" and "backed key ids copy (dt_db t) x" and "stored x"
  shows "DATA_save True key ids copy a t = Inr (0, t\<lparr>dt_rows := (dt_rows t)(a \<mapsto> saved x), dt_db := (dt_db t)(key (row x) \<mapsto> row x)\<rparr>)"
proof -
  have b: "map_option (merge ids copy (dirty x) (row x)) (dt_db t (key (row x))) = Some (row x)" using assms(2,3) by (simp add: backed_def)
  show ?thesis
  proof (cases "dirty x = 0")
    case True
    then have "dt_db t (key (row x)) = Some (row x)" using b by auto
    then have "(dt_db t)(key (row x) \<mapsto> row x) = dt_db t" "(dt_rows t)(a \<mapsto> x) = dt_rows t" using assms(1) by (simp_all add: fun_upd_idem)
    with True show ?thesis using assms(1) by (simp add: DATA_save_def saved_def)
  next
    case False
    then show ?thesis using assms(1) by (simp add: DATA_save_def saved_def table_upd_swap b del: map_option_eq_Some)
  qed
qed

text \<open>What becomes of a row in the list.\<close>

definition flushed :: "int \<Rightarrow> 'r data_row \<Rightarrow> 'r data_row option \<Rightarrow> bool" where
  "flushed now x y \<longleftrightarrow>
     (case y of
        None \<Rightarrow> data_flag x \<noteq> 0
      | Some x' \<Rightarrow> data_flag x = 0 \<and> data_flag x' = 0 \<and> row x' = row x
          \<and> (if due now x then dirty x' = 0 else dirty x' = dirty x \<and> dirty_time x' = dirty_time x \<and> last_change_time x' = last_change_time x))"

definition written :: "int \<Rightarrow> 'r data_row \<Rightarrow> bool" where
  "written now x \<longleftrightarrow> stored x \<and> (data_flag x \<noteq> 0 \<or> due now x)"

text \<open>One step of the loop: how the table and the rows that stay change for the first row.\<close>

definition flush_step :: "('r \<Rightarrow> 'k) \<Rightarrow> int \<Rightarrow> addr \<Rightarrow> 'r data_row \<Rightarrow> addr \<times> ('k, 'r) data_table \<Rightarrow> addr \<times> ('k, 'r) data_table" where
  "flush_step key now a x = (\<lambda>(p, t).
     let db = (if written now x then (dt_db t)(key (row x) \<mapsto> row x) else dt_db t)
     in if data_flag x \<noteq> 0 then (p, t\<lparr>update_list := update_next x, dt_rows := (dt_rows t)(a := None), dt_db := db\<rparr>)
        else if due now x then (p, t\<lparr>update_list := update_next x, dt_rows := (dt_rows t)(a \<mapsto> (saved x)\<lparr>update_next := 0\<rparr>), dt_db := db\<rparr>)
        else (a, t\<lparr>update_list := update_next x, dt_rows := (dt_rows t)(a \<mapsto> x\<lparr>update_next := p\<rparr>), dt_db := db\<rparr>))"

lemma flush_loop_step:
  assumes "rows_ok key ids copy t p (a # ls) ns" and "dt_rows t a = Some x"
  shows "flush_loop (\<lambda>_. True) key ids copy now (Suc fuel) p t = (case flush_step key now a x (p, t) of (p', t') \<Rightarrow> flush_loop (\<lambda>_. True) key ids copy now fuel p' t')"
proof -
  note d = rows_okD[OF assms(1)]
  have a: "update_list t = a" "a \<noteq> VOID_ROW" using d(1) by simp_all
  have f: "data_flag x = 0 \<or> data_flag x = DATA_FLAG_DELETE \<or> data_flag x = DATA_FLAG_RELEASE" using d(4)[OF assms(2)] by (auto simp: listed_def)
  let ?t = "t\<lparr>update_list := update_next x, dt_rows := (dt_rows t)(a \<mapsto> x\<lparr>update_next := 0\<rparr>)\<rparr>"
  have b: "backed key ids copy (dt_db ?t) (x\<lparr>update_next := 0\<rparr>)" using d(5)[OF assms(2)] by (simp add: backed_def stored_def)
  have s: "DATA_save True key ids copy a ?t = Inr (0, ?t\<lparr>dt_rows := (dt_rows ?t)(a \<mapsto> saved (x\<lparr>update_next := 0\<rparr>)), dt_db := (dt_db ?t)(key (row x) \<mapsto> row x)\<rparr>)"
    if "stored x"
    using save_ok[OF _ b] that by (simp add: stored_def)
  have sv: "saved (x\<lparr>update_next := 0\<rparr>) = (saved x)\<lparr>update_next := 0\<rparr>" by (simp add: saved_def)
  show ?thesis
    using a assms(2) f s sv
    by (subst flush_loop.simps) (auto simp: flush_step_def written_def stored_def free_row_def Let_def table_upd_swap)
qed

lemma flush_step_ok:
  assumes "rows_ok key ids copy t p (a # ls) ns" and "dt_rows t a = Some x" and "p \<noteq> 0" and "flush_step key now a x (p, t) = (p', t')"
  shows "\<exists>ns'. rows_ok key ids copy t' p' ls ns'" and "p' \<noteq> 0"
proof -
  note d = rows_okD[OF assms(1)]
  have a: "a \<noteq> 0" using d(4)[OF assms(2)] by (simp add: listed_def)
  have b: "due now x \<Longrightarrow> data_flag x = 0 \<Longrightarrow> written now x" by (simp add: written_def stored_def)
  show "\<exists>ns'. rows_ok key ids copy t' p' ls ns'"
    using assms(4) rows_free[OF assms(1,2), of "if written now x then (dt_db t)(key (row x) \<mapsto> row x) else dt_db t"]
      rows_saved[OF assms(1,2), of "(dt_db t)(key (row x) \<mapsto> row x)" "(saved x)\<lparr>update_next := 0\<rparr>"] rows_kept[OF assms(1,2,3)] b
    by (auto simp: flush_step_def written_def Let_def split: if_splits)
  show "p' \<noteq> 0" using assms(3,4) a by (auto simp: flush_step_def Let_def split: if_splits)
qed

lemma flush_loop_ok:
  assumes "rows_ok key ids copy t p ls ns" and "p \<noteq> 0" and "length ls \<le> fuel"
  shows "\<exists>q ms t'. flush_loop (\<lambda>_. True) key ids copy now fuel p t = Some (Inr (q, t')) \<and> rows_ok key ids copy t' q [] ms
    \<and> (\<forall>a. a \<notin> set ls \<longrightarrow> dt_rows t' a = dt_rows t a)
    \<and> (\<forall>a x. a \<in> set ls \<longrightarrow> dt_rows t a = Some x \<longrightarrow> flushed now x (dt_rows t' a) \<and> (written now x \<longrightarrow> dt_db t' (key (row x)) = Some (row x)))
    \<and> (\<forall>k. (\<forall>a \<in> set ls. \<forall>x. dt_rows t a = Some x \<longrightarrow> written now x \<longrightarrow> key (row x) \<noteq> k) \<longrightarrow> dt_db t' k = dt_db t k)"
  using assms
proof (induction ls arbitrary: t p ns fuel)
  case Nil
  then have "update_list t = VOID_ROW" by (simp add: rows_ok_def)
  then show ?case using Nil.prems(1) by (subst flush_loop.simps) auto
next
  case (Cons a ls)
  note d = rows_okD[OF Cons.prems(1)]
  obtain x where x: "dt_rows t a = Some x" using d(1) by (auto split: option.splits)
  obtain f where f: "fuel = Suc f" "length ls \<le> f" using Cons.prems(3) by (cases fuel) auto
  obtain p1 t1 where s: "flush_step key now a x (p, t) = (p1, t1)" by force
  obtain ns1 where ok1: "rows_ok key ids copy t1 p1 ls ns1" "p1 \<noteq> 0" using flush_step_ok[OF Cons.prems(1) x Cons.prems(2) s] by blast
  obtain q ms t' where IH: "flush_loop (\<lambda>_. True) key ids copy now f p1 t1 = Some (Inr (q, t'))" "rows_ok key ids copy t' q [] ms"
    "\<And>a. a \<notin> set ls \<Longrightarrow> dt_rows t' a = dt_rows t1 a"
    "\<And>a x. a \<in> set ls \<Longrightarrow> dt_rows t1 a = Some x \<Longrightarrow> flushed now x (dt_rows t' a)"
    "\<And>a x. a \<in> set ls \<Longrightarrow> dt_rows t1 a = Some x \<Longrightarrow> written now x \<Longrightarrow> dt_db t' (key (row x)) = Some (row x)"
    "\<And>k. (\<And>a x. a \<in> set ls \<Longrightarrow> dt_rows t1 a = Some x \<Longrightarrow> written now x \<Longrightarrow> key (row x) \<noteq> k) \<Longrightarrow> dt_db t' k = dt_db t1 k"
    using Cons.IH[OF ok1 f(2)] by metis
  have a: "a \<notin> set ls" using d(3) by simp
  have rows1: "dt_rows t1 b = dt_rows t b" if "b \<noteq> a" for b using s that by (auto simp: flush_step_def Let_def split: if_splits)
  have fl: "flushed now x (dt_rows t1 a)" using s by (auto simp: flush_step_def flushed_def Let_def split: if_splits)
  have db1: "dt_db t1 = (if written now x then (dt_db t)(key (row x) \<mapsto> row x) else dt_db t)"
    using s by (auto simp: flush_step_def Let_def split: if_splits)
  have other: "key (row y) \<noteq> key (row x)" if "written now x" "b \<in> set ls" "dt_rows t1 b = Some y" "written now y" for b y
  proof
    assume "key (row y) = key (row x)"
    moreover have "dt_rows t b = Some y" using that(2,3) rows1[of b] a by metis
    ultimately have "b = a" using one_eachD[OF d(6) _ x] that(1,4) by (simp add: written_def)
    with that(2) a show False by simp
  qed
  have w: "dt_db t' (key (row x)) = Some (row x)" if "written now x"
    using IH(6)[of "key (row x)"] other[OF that] db1 that by auto
  have run: "flush_loop (\<lambda>_. True) key ids copy now fuel p t = Some (Inr (q, t'))"
    using flush_loop_step[OF Cons.prems(1) x] s IH(1) f(1) by simp
  have "flushed now y (dt_rows t' b) \<and> (written now y \<longrightarrow> dt_db t' (key (row y)) = Some (row y))" if "b \<in> set (a # ls)" "dt_rows t b = Some y" for b y
  proof (cases "b = a")
    case True
    then show ?thesis using w fl x that(2) IH(3)[OF a] by simp
  next
    case False
    then show ?thesis using IH(4,5)[of b y] rows1[OF False] that by simp
  qed
  moreover have "dt_rows t' b = dt_rows t b" if "b \<notin> set (a # ls)" for b using IH(3)[of b] rows1[of b] that by simp
  moreover have "dt_db t' k = dt_db t k" if "\<forall>b \<in> set (a # ls). \<forall>y. dt_rows t b = Some y \<longrightarrow> written now y \<longrightarrow> key (row y) \<noteq> k" for k
    using IH(6)[of k] rows1 that db1 x a by (auto split: if_splits) metis+
  ultimately show ?case using run IH(2) by blast
qed

end
