(* ===== verification/DataOps.thy ===== *)
theory DataOps
  imports DataFlush
begin

text \<open>
  The operations on rows keep rows and database consistent: what each of them changes of the row stored under a key.
\<close>

section \<open>The flush\<close>

lemma stored_row_iff:
  assumes "table_ok key ids copy t ls" and "dt_rows t a = Some x" and "stored x"
  shows "stored_row key t (key (row x)) r \<longleftrightarrow> r = row x"
  using one_eachD[of key "dt_rows t"] rows_okD(6)[of key ids copy t VOID_ROW ls "[]"] assms
  unfolding stored_row_def table_ok_def by (metis option.inject)

text \<open>What a flush does to the rows in the list \<open>ls\<close> and to the database.\<close>

definition flush_effect :: "('r \<Rightarrow> 'k) \<Rightarrow> int \<Rightarrow> addr list \<Rightarrow> ('k, 'r) data_table \<Rightarrow> ('k, 'r) data_table \<Rightarrow> bool" where
  "flush_effect key now ls t t' \<longleftrightarrow>
     (\<forall>a. a \<notin> set ls \<longrightarrow> dt_rows t' a = dt_rows t a)
     \<and> (\<forall>a x. a \<in> set ls \<longrightarrow> dt_rows t a = Some x \<longrightarrow> flushed now x (dt_rows t' a) \<and> (written now x \<longrightarrow> dt_db t' (key (row x)) = Some (row x)))
     \<and> (\<forall>k. (\<forall>a \<in> set ls. \<forall>x. dt_rows t a = Some x \<longrightarrow> written now x \<longrightarrow> key (row x) \<noteq> k) \<longrightarrow> dt_db t' k = dt_db t k)"

lemma DATA_flush_ok:
  assumes "table_ok key ids copy t ls" and "length ls \<le> fuel"
  shows "\<exists>t' ms. DATA_flush (\<lambda>_. True) key ids copy now fuel t = Some (Inr (0, t')) \<and> table_ok key ids copy t' ms \<and> flush_effect key now ls t t'"
proof -
  obtain q ms t' where l: "flush_loop (\<lambda>_. True) key ids copy now fuel VOID_ROW t = Some (Inr (q, t'))" "rows_ok key ids copy t' q [] ms"
    "flush_effect key now ls t t'"
    using flush_loop_ok[OF assms(1)[unfolded table_ok_def] _ assms(2), of now] unfolding flush_effect_def by auto
  have "table_ok key ids copy (t'\<lparr>update_list := q\<rparr>) ms" "flush_effect key now ls t (t'\<lparr>update_list := q\<rparr>)"
    using l(2,3) by (simp_all add: table_ok_def rows_ok_def flush_effect_def)
  then show ?thesis using l(1) by (intro exI[of _ "t'\<lparr>update_list := q\<rparr>"] exI[of _ ms]) (simp add: DATA_flush_def)
qed

lemma flush_effectD:
  assumes "flush_effect key now ls t t'"
  shows "a \<notin> set ls \<Longrightarrow> dt_rows t' a = dt_rows t a" and "a \<in> set ls \<Longrightarrow> dt_rows t a = Some x \<Longrightarrow> flushed now x (dt_rows t' a)"
    and "a \<in> set ls \<Longrightarrow> dt_rows t a = Some x \<Longrightarrow> written now x \<Longrightarrow> dt_db t' (key (row x)) = Some (row x)"
    and "(\<And>a x. a \<in> set ls \<Longrightarrow> dt_rows t a = Some x \<Longrightarrow> written now x \<Longrightarrow> key (row x) \<noteq> k) \<Longrightarrow> dt_db t' k = dt_db t k"
  using assms unfolding flush_effect_def by blast+

text \<open>No row comes into memory.\<close>

lemma flush_old:
  assumes "table_ok key ids copy t ls" and "flush_effect key now ls t t'" and "dt_rows t' a = Some y"
  shows "\<exists>x. dt_rows t a = Some x \<and> row x = row y \<and> stored x \<and> stored y"
proof (cases "a \<in> set ls")
  case True
  obtain x where x: "dt_rows t a = Some x" using uchain_live[OF rows_okD(1)[OF assms(1)[unfolded table_ok_def]] True] by auto
  then show ?thesis using flush_effectD(2)[OF assms(2) True x] assms(3) by (simp add: flushed_def stored_def)
next
  case False
  then have "dt_rows t a = Some y" using flush_effectD(1)[OF assms(2)] assms(3) by simp
  then show ?thesis using False rows_okD(4)[OF assms(1)[unfolded table_ok_def], of a y] by (simp add: listed_def stored_def)
qed

text \<open>The database gets no keys and loses none.\<close>

lemma flush_db:
  assumes "table_ok key ids copy t ls" and "flush_effect key now ls t t'"
  shows "dt_db t' k = dt_db t k \<or> (\<exists>e r. dt_db t k = Some e \<and> dt_db t' k = Some r \<and> key r = k)"
proof (cases "\<exists>a \<in> set ls. \<exists>x. dt_rows t a = Some x \<and> written now x \<and> key (row x) = k")
  case True
  then obtain a x where x: "a \<in> set ls" "dt_rows t a = Some x" "written now x" "key (row x) = k" by blast
  have "dt_db t' k = Some (row x)" using flush_effectD(3)[OF assms(2) x(1,2,3)] x(4) by simp
  moreover have "\<exists>e. dt_db t k = Some e"
    using rows_okD(5)[OF assms(1)[unfolded table_ok_def] x(2)] x(3,4) by (auto simp: backed_def written_def)
  ultimately show ?thesis using x(4) by auto
qed (use flush_effectD(4)[OF assms(2), of k] in blast)

text \<open>Released rows are freed and in the database.\<close>

lemma flush_released:
  assumes "table_ok key ids copy t ls" and "flush_effect key now ls t t'" and "dt_rows t a = Some x" and "data_flag x = DATA_FLAG_RELEASE"
  shows "dt_rows t' a = None" and "dt_db t' (key (row x)) = Some (row x)"
proof -
  have a: "a \<in> set ls" using rows_okD(4)[OF assms(1)[unfolded table_ok_def] assms(3)] assms(4) by (simp add: listed_def)
  show "dt_rows t' a = None" using flush_effectD(2)[OF assms(2) a assms(3)] assms(4) by (auto simp: flushed_def split: option.splits)
  show "dt_db t' (key (row x)) = Some (row x)" using flush_effectD(3)[OF assms(2) a assms(3)] assms(4) by (simp add: written_def stored_def)
qed

text \<open>A flush is not visible: the same rows are stored afterwards.\<close>

lemma flush_stored:
  assumes "table_ok key ids copy t ls" and "table_ok key ids copy t' ms" and "flush_effect key now ls t t'"
  shows "stored_row key t' k r \<longleftrightarrow> stored_row key t k r"
proof (cases "\<exists>a x. dt_rows t a = Some x \<and> stored x \<and> key (row x) = k")
  case True
  then obtain a x where x: "dt_rows t a = Some x" "stored x" "key (row x) = k" by blast
  have "stored_row key t' k r \<longleftrightarrow> r = row x"
  proof (cases "dt_rows t' a")
    case None
    then have l: "a \<in> set ls" using flush_effectD(1)[OF assms(3), of a] x(1) by auto
    then have w: "dt_db t' k = Some (row x)"
      using flush_effectD(2,3)[OF assms(3) l x(1)] None x(2,3) by (simp add: flushed_def written_def)
    have "key (row y) \<noteq> k" if y: "dt_rows t' b = Some y" for b y
    proof
      assume k: "key (row y) = k"
      obtain z where z: "dt_rows t b = Some z" "row z = row y" "stored z" using flush_old[OF assms(1,3) y] by blast
      have "b = a" using one_eachD[OF rows_okD(6)[OF assms(1)[unfolded table_ok_def]] z(1) x(1) z(3) x(2)] k z(2) x(3) by simp
      with None y show False by simp
    qed
    with w show ?thesis by (auto simp: stored_row_def)
  next
    case (Some y)
    then have "row y = row x" "stored y" using flush_old[OF assms(1,3) Some] x(1) by auto
    then show ?thesis using stored_row_iff[OF assms(2) Some] x(3) by simp
  qed
  then show ?thesis using stored_row_iff[OF assms(1) x(1,2)] x(3) by simp
next
  case False
  then have "dt_db t' k = dt_db t k" using flush_effectD(4)[OF assms(3), of k] by (auto simp: written_def)
  moreover have "\<nexists>a x. dt_rows t' a = Some x \<and> stored x \<and> key (row x) = k" using flush_old[OF assms(1,3)] False by metis
  ultimately show ?thesis using False by (auto simp: stored_row_def)
qed

section \<open>Changes\<close>

text \<open>A row is changed and joins the list; \<open>db\<close> is the database afterwards.\<close>

lemma enlist_ok:
  assumes "table_ok key ids copy t ls" and "dt_rows t a = Some x" and "update_next x' = update_next x"
    and "data_flag x' \<in> {0, DATA_FLAG_DELETE, DATA_FLAG_RELEASE}" and "backed key ids copy db x'"
    and "one_each key ((dt_rows t)(a \<mapsto> x'))" and "\<And>b y. b \<noteq> a \<Longrightarrow> dt_rows t b = Some y \<Longrightarrow> stored y \<Longrightarrow> db (key (row y)) = dt_db t (key (row y))"
  shows "\<exists>t' n ls'. add_to_update_list a (t\<lparr>dt_db := db, dt_rows := (dt_rows t)(a \<mapsto> x')\<rparr>) = Inr t' \<and> table_ok key ids copy t' ls'
    \<and> dt_rows t' = (dt_rows t)(a \<mapsto> x'\<lparr>update_next := n\<rparr>) \<and> dt_db t' = db \<and> ls' = (if a \<in> set ls then ls else a # ls)"
proof -
  note d = rows_okD[OF assms(1)[unfolded table_ok_def]]
  let ?n = "if a \<in> set ls then update_next x else update_list t"
  let ?ls = "if a \<in> set ls then ls else a # ls"
  let ?h = "(dt_rows t)(a \<mapsto> x'\<lparr>update_next := ?n\<rparr>)"
  let ?t = "t\<lparr>dt_db := db, dt_rows := ?h, update_list := (if a \<in> set ls then update_list t else a)\<rparr>"
  have a: "a \<noteq> 0" "a \<noteq> VOID_ROW" "update_next x \<noteq> 0 \<longleftrightarrow> a \<in> set ls" using d(4)[OF assms(2)] by (simp_all add: listed_def)
  have n0: "?n \<noteq> 0" using a(3) d(1) by (cases ls) auto
  have same: "(dt_rows t)(a \<mapsto> x'\<lparr>update_next := update_next x\<rparr>) = (dt_rows t)(a \<mapsto> x')" using assms(3)[symmetric] by simp
  have run: "add_to_update_list a (t\<lparr>dt_db := db, dt_rows := (dt_rows t)(a \<mapsto> x')\<rparr>) = Inr ?t"
    using a(3) assms(3) same by (auto simp: add_to_update_list_def)
  have "uchain ?h (update_list t) ls"
    using d(1) assms(2) by (subst uchain_cong[where h = "dt_rows t"]) auto
  then have c: "uchain ?h (update_list ?t) ?ls" using a by auto
  have "listed (set ?ls \<union> set []) b y \<and> backed key ids copy db y" if "?h b = Some y" for b y
  proof (cases "b = a")
    case True
    then have y: "y = x'\<lparr>update_next := ?n\<rparr>" using that by simp
    have "backed key ids copy db y" using assms(5) by (simp add: y backed_def stored_def)
    then show ?thesis using a(1,2) n0 assms(4) True by (simp add: y listed_def)
  next
    case False
    then have b: "dt_rows t b = Some y" using that by simp
    have "backed key ids copy db y" using d(5)[OF b] assms(7)[OF False b] by (simp add: backed_def)
    then show ?thesis using d(4)[OF b] False by (auto simp: listed_def)
  qed
  moreover have "one_each key ?h" by (rule one_each_less[OF assms(6)]) (auto simp: stored_def split: if_splits)
  ultimately have "table_ok key ids copy ?t ?ls"
    unfolding table_ok_def rows_ok_def using c d(3) by simp
  with run show ?thesis by fastforce
qed

definition fresh_row :: "'r \<Rightarrow> 'r data_row" where
  "fresh_row r = \<lparr>update_next = 0, dirty = 0, dirty_time = 0, last_change_time = 0, data_flag = 0, row = r\<rparr>"

lemma fresh_simps [simp]: "row (fresh_row r) = r" "dirty (fresh_row r) = 0" "data_flag (fresh_row r) = 0" "update_next (fresh_row r) = 0" "stored (fresh_row r)"
  by (simp_all add: fresh_row_def stored_def)

lemma backedD: "backed key ids copy db x \<Longrightarrow> stored x \<Longrightarrow> \<exists>d. db (key (row x)) = Some d"
  by (auto simp: backed_def)

text \<open>A row that the database has comes into memory.\<close>

lemma table_fresh:
  assumes "table_ok key ids copy t ls" and "dt_rows t a = None" and "a \<noteq> 0" and "a \<noteq> VOID_ROW" and "db (key r) = Some r"
    and "\<And>b y. dt_rows t b = Some y \<Longrightarrow> stored y \<Longrightarrow> key (row y) \<noteq> key r" and "\<And>k. k \<noteq> key r \<Longrightarrow> db k = dt_db t k"
  shows "table_ok key ids copy (t\<lparr>dt_db := db, dt_rows := (dt_rows t)(a \<mapsto> fresh_row r)\<rparr>) ls"
proof -
  note d = rows_okD[OF assms(1)[unfolded table_ok_def]]
  have a: "a \<notin> set ls" using uchain_live[OF d(1), of a] assms(2) by auto
  have "uchain ((dt_rows t)(a \<mapsto> fresh_row r)) (update_list t) ls"
    using d(1) a by (subst uchain_cong[where h = "dt_rows t"]) auto
  moreover have "listed (set ls) b y \<and> backed key ids copy db y" if "((dt_rows t)(a \<mapsto> fresh_row r)) b = Some y" for b y
  proof (cases "b = a")
    case True
    then have "y = fresh_row r" using that by simp
    then show ?thesis using True a assms(3,4,5) by (simp add: listed_def backed_def)
  next
    case False
    then have b: "dt_rows t b = Some y" using that by simp
    then show ?thesis using d(4,5)[OF b] assms(6)[OF b] assms(7) by (simp add: listed_def backed_def)
  qed
  moreover have "one_each key ((dt_rows t)(a \<mapsto> fresh_row r))"
    using d(6) assms(6) unfolding one_each_def by (auto split: if_splits) metis+
  ultimately show ?thesis using d(2,3) unfolding table_ok_def rows_ok_def by simp
qed

lemma DATA_new_ok:
  assumes "table_ok key ids copy t ls" and "dt_rows t a = None" and "a \<noteq> 0" and "a \<noteq> VOID_ROW" and "dt_db t (key r) = None"
  shows "\<exists>t'. DATA_new True key a (t\<lparr>dt_rows := (dt_rows t)(a \<mapsto> fresh_row r)\<rparr>) = Inr (0, t') \<and> table_ok key ids copy t' ls
    \<and> dt_rows t' = (dt_rows t)(a \<mapsto> fresh_row r) \<and> dt_db t' = (dt_db t)(key r \<mapsto> r)"
proof -
  let ?t = "t\<lparr>dt_db := (dt_db t)(key r \<mapsto> r), dt_rows := (dt_rows t)(a \<mapsto> fresh_row r)\<rparr>"
  have "key (row y) \<noteq> key r" if "dt_rows t b = Some y" "stored y" for b y
    using backedD[OF rows_okD(5)[OF assms(1)[unfolded table_ok_def] that(1)] that(2)] assms(5) by auto
  then have "table_ok key ids copy ?t ls" using table_fresh[OF assms(1-4), of "(dt_db t)(key r \<mapsto> r)"] by simp
  moreover have "DATA_new True key a (t\<lparr>dt_rows := (dt_rows t)(a \<mapsto> fresh_row r)\<rparr>) = Inr (0, ?t)"
    using assms(5) by (simp add: DATA_new_def) (simp add: fresh_row_def)
  ultimately show ?thesis by fastforce
qed

lemma DATA_release_ok:
  assumes "table_ok key ids copy t ls" and "dt_rows t a = Some x" and "stored x"
  shows "\<exists>t' n ls'. DATA_release a t = Inr (0, t') \<and> table_ok key ids copy t' ls' \<and> dt_db t' = dt_db t \<and> ls' = (if a \<in> set ls then ls else a # ls)
    \<and> dt_rows t' = (dt_rows t)(a \<mapsto> x\<lparr>data_flag := DATA_FLAG_RELEASE, update_next := n\<rparr>)"
proof -
  note d = rows_okD[OF assms(1)[unfolded table_ok_def]]
  let ?x = "x\<lparr>data_flag := DATA_FLAG_RELEASE\<rparr>"
  have "backed key ids copy (dt_db t) ?x" using d(5)[OF assms(2)] assms(3) by (simp add: backed_def stored_def)
  moreover have "one_each key ((dt_rows t)(a \<mapsto> ?x))" by (rule one_each_less[OF d(6)]) (use assms(2,3) in \<open>auto split: if_splits\<close>)
  ultimately obtain t' n ls' where "add_to_update_list a (t\<lparr>dt_db := dt_db t, dt_rows := (dt_rows t)(a \<mapsto> ?x)\<rparr>) = Inr t'" "table_ok key ids copy t' ls'"
    "dt_rows t' = (dt_rows t)(a \<mapsto> ?x\<lparr>update_next := n\<rparr>)" "dt_db t' = dt_db t" "ls' = (if a \<in> set ls then ls else a # ls)"
    using enlist_ok[OF assms(1,2), of ?x "dt_db t"] by auto
  then show ?thesis using assms(2) by (fastforce simp: DATA_release_def)
qed

lemma DATA_delete_ok:
  assumes "table_ok key ids copy t ls" and "dt_rows t a = Some x" and "stored x"
  shows "\<exists>t' y ls'. DATA_delete True key a t = Inr (0, t') \<and> table_ok key ids copy t' ls' \<and> dt_db t' = (dt_db t)(key (row x) := None)
    \<and> dt_rows t' = (dt_rows t)(a \<mapsto> y) \<and> row y = row x \<and> \<not> stored y"
proof -
  note d = rows_okD[OF assms(1)[unfolded table_ok_def]]
  let ?x = "x\<lparr>dirty := 0, dirty_time := 0, last_change_time := 0, data_flag := DATA_FLAG_DELETE\<rparr>"
  let ?db = "(dt_db t)(key (row x) := None)"
  have "backed key ids copy ?db ?x" by (simp add: backed_def stored_def)
  moreover have "one_each key ((dt_rows t)(a \<mapsto> ?x))"
    by (rule one_each_less[OF d(6)]) (use assms(2,3) in \<open>auto split: if_splits\<close>)
  moreover have "?db (key (row y)) = dt_db t (key (row y))" if "b \<noteq> a" "dt_rows t b = Some y" "stored y" for b y
    using one_eachD[OF d(6) that(2) assms(2) that(3) assms(3)] that(1) by auto
  ultimately obtain t' n ls' where "add_to_update_list a (t\<lparr>dt_db := ?db, dt_rows := (dt_rows t)(a \<mapsto> ?x)\<rparr>) = Inr t'" "table_ok key ids copy t' ls'"
    "dt_rows t' = (dt_rows t)(a \<mapsto> ?x\<lparr>update_next := n\<rparr>)" "dt_db t' = ?db"
    using enlist_ok[OF assms(1,2), of ?x ?db] by auto
  then show ?thesis using assms(2)
    by (intro exI[of _ t'] exI[of _ "?x\<lparr>update_next := n\<rparr>"] exI[of _ ls']) (simp add: DATA_delete_def stored_def)
qed

section \<open>Columns\<close>

text \<open>What the code generator promises of the columns of a table: they are numbered below 64, the number of bits of
  \<open>dirty\<close>, copying one changes only that one, and a row is its columns.\<close>

locale columns =
  fixes field :: "nat \<Rightarrow> 'r \<Rightarrow> int" and ids :: "nat list" and copy :: "nat \<Rightarrow> 'r \<Rightarrow> 'r \<Rightarrow> 'r" and key :: "'r \<Rightarrow> 'k"
  assumes field_copy: "i \<in> set ids \<Longrightarrow> j \<in> set ids \<Longrightarrow> field i (copy j r d) = (if i = j then field i r else field i d)"
    and columns_ext: "(\<And>i. i \<in> set ids \<Longrightarrow> field i r = field i d) \<Longrightarrow> r = d"
    and column_bits: "i \<in> set ids \<Longrightarrow> i < 64"
begin

lemma field_merge:
  assumes "set is \<subseteq> set ids" and "i \<in> set ids"
  shows "field i (merge is copy m r d) = (if i \<in> set is \<and> bit m i then field i r else field i d)"
  using assms(1)
proof (induction "is" arbitrary: d)
  case (Cons j js)
  then show ?case using field_copy[OF assms(2), of j] by (auto simp: merge_def)
qed (simp add: merge_def)

lemma merge_iff: "merge ids copy m r d = r \<longleftrightarrow> (\<forall>i \<in> set ids. \<not> bit m i \<longrightarrow> field i d = field i r)"
proof
  assume e: "merge ids copy m r d = r"
  show "\<forall>i \<in> set ids. \<not> bit m i \<longrightarrow> field i d = field i r"
    using field_merge[of ids _ m r d] e by (metis order_refl)
next
  assume "\<forall>i \<in> set ids. \<not> bit m i \<longrightarrow> field i d = field i r"
  then show "merge ids copy m r d = r" by (intro columns_ext) (simp add: field_merge)
qed

lemma bit_marked: "i < 64 \<Longrightarrow> bit (or m (push_bit i 1) :: u64) j \<longleftrightarrow> bit m j \<or> j = i"
  by (auto simp: bit_or_iff bit_exp_iff simp flip: exp_eq_0_imp_not_bit)

lemma DATA_update_ok:
  assumes "table_ok key ids copy t ls" and "dt_rows t a = Some x" and "stored x" and "i \<in> set ids"
    and "\<And>j. j \<in> set ids \<Longrightarrow> j \<noteq> i \<Longrightarrow> field j (put (row x)) = field j (row x)" and "key (put (row x)) = key (row x)"
  shows "\<exists>t' y ls'. DATA_update now i put a t = Inr (0, t') \<and> table_ok key ids copy t' ls' \<and> dt_db t' = dt_db t
    \<and> dt_rows t' = (dt_rows t)(a \<mapsto> y) \<and> row y = put (row x) \<and> data_flag y = data_flag x
    \<and> (put (row x) \<noteq> row x \<longrightarrow> last_change_time y = now)"
proof (cases "put (row x) = row x")
  case True
  then show ?thesis using assms(1,2) by (intro exI[of _ t] exI[of _ x] exI[of _ ls]) (simp add: DATA_update_def fun_upd_idem)
next
  case False
  note d = rows_okD[OF assms(1)[unfolded table_ok_def]]
  let ?x = "x\<lparr>row := put (row x), dirty_time := (if dirty_time x = 0 then now else dirty_time x), last_change_time := now, dirty := or (dirty x) (push_bit i 1)\<rparr>"
  obtain db where db: "dt_db t (key (row x)) = Some db" "merge ids copy (dirty x) (row x) db = row x"
    using d(5)[OF assms(2)] assms(3) by (auto simp: backed_def)
  have "merge ids copy (or (dirty x) (push_bit i 1)) (put (row x)) db = put (row x)"
    using db(2) assms(5) unfolding merge_iff by (simp add: bit_marked[OF column_bits[OF assms(4)]] del: push_bit_of_1)
  then have "backed key ids copy (dt_db t) ?x" using db(1) assms(6) by (simp add: backed_def)
  moreover have "one_each key ((dt_rows t)(a \<mapsto> ?x))"
    by (rule one_each_less[OF d(6)]) (use assms(2,3,6) in \<open>auto split: if_splits\<close>)
  moreover have "data_flag x \<in> {0, DATA_FLAG_DELETE, DATA_FLAG_RELEASE}" using d(4)[OF assms(2)] by (simp add: listed_def)
  ultimately obtain t' n ls' where "add_to_update_list a (t\<lparr>dt_db := dt_db t, dt_rows := (dt_rows t)(a \<mapsto> ?x)\<rparr>) = Inr t'" "table_ok key ids copy t' ls'"
    "dt_rows t' = (dt_rows t)(a \<mapsto> ?x\<lparr>update_next := n\<rparr>)" "dt_db t' = dt_db t"
    using enlist_ok[OF assms(1,2), of ?x "dt_db t"] by auto
  then show ?thesis using assms(2) False
    by (intro exI[of _ t'] exI[of _ "?x\<lparr>update_next := n\<rparr>"] exI[of _ ls']) (simp add: DATA_update_def Let_def)
qed

end

section \<open>Properties\<close>

text \<open>C6: No change is lost and none is kept from the database for long. The flush returns and is not visible: for every key the same row is stored
  before and after. The database has afterwards, for every row, the columns as they are in memory, if the row is released, was not
  changed for five seconds or was first changed thirty seconds ago; released and deleted rows are freed, the others stay. (The database
  accepts the statements.)\<close>

theorem flush_writes_back:
  assumes "table_ok key ids copy t ls" and "length ls \<le> fuel"
  shows "\<exists>t' ms. DATA_flush (\<lambda>_. True) key ids copy now fuel t = Some (Inr (0, t')) \<and> table_ok key ids copy t' ms
    \<and> (\<forall>k r. stored_row key t' k r \<longleftrightarrow> stored_row key t k r)
    \<and> (\<forall>a x. dt_rows t a = Some x \<longrightarrow> (dt_rows t' a = None \<longleftrightarrow> data_flag x \<noteq> 0)
        \<and> (stored x \<longrightarrow> data_flag x = DATA_FLAG_RELEASE \<or> now - dirty_time x \<ge> 30 \<or> now - last_change_time x \<ge> 5 \<longrightarrow>
            dt_db t' (key (row x)) = Some (row x)))"
proof -
  obtain t' ms where f: "DATA_flush (\<lambda>_. True) key ids copy now fuel t = Some (Inr (0, t'))" "table_ok key ids copy t' ms"
    "flush_effect key now ls t t'"
    using DATA_flush_ok[OF assms, of now] by blast
  have "(dt_rows t' a = None \<longleftrightarrow> data_flag x \<noteq> 0)
      \<and> (stored x \<longrightarrow> data_flag x = DATA_FLAG_RELEASE \<or> now - dirty_time x \<ge> 30 \<or> now - last_change_time x \<ge> 5 \<longrightarrow>
          dt_db t' (key (row x)) = Some (row x))" if x: "dt_rows t a = Some x" for a x
  proof (cases "a \<in> set ls")
    case True
    show ?thesis using flush_effectD(2,3)[OF f(3) True x] by (auto simp: flushed_def written_def due_def split: option.splits)
  next
    case False
    have c: "dirty x = 0" "data_flag x = 0" using rows_okD(4)[OF assms(1)[unfolded table_ok_def] x] False by (auto simp: listed_def)
    have x': "dt_rows t' a = Some x" using flush_effectD(1)[OF f(3) False] x by simp
    have "backed key ids copy (dt_db t') x" using rows_okD(5)[OF f(2)[unfolded table_ok_def] x'] .
    then show ?thesis using c x' by (auto simp: backed_def)
  qed
  then show ?thesis using f(1,2) flush_stored[OF assms(1) f(2,3)] by blast
qed

text \<open>A table with one column and one row, changed from 3 to 7 at time 100.\<close>

definition one_row :: "(unit, int) data_table" where
  "one_row = \<lparr>dt_rows = [5 \<mapsto> \<lparr>update_next = VOID_ROW, dirty = 1, dirty_time = 100, last_change_time = 100, data_flag = 0, row = 7\<rparr>],
     update_list = 5, dt_db = [() \<mapsto> 3]\<rparr>"

theorem flush_writes_back_witness:
  "\<exists>t'. DATA_flush (\<lambda>_. True) (\<lambda>_. ()) [0] (\<lambda>i r d. r) 130 1 one_row = Some (Inr (0, t')) \<and> dt_db t' () = Some 7 \<and> dt_rows t' 5 \<noteq> None"
proof -
  have "table_ok (\<lambda>_. ()) [0] (\<lambda>i r d. r) one_row [5]"
    by (simp add: table_ok_def rows_ok_def one_row_def listed_def backed_def one_each_def merge_def VOID_ROW_def)
  moreover obtain x where "dt_rows one_row 5 = Some x" "row x = 7" "dirty_time x = 100" "data_flag x = 0" "stored x"
    by (simp add: one_row_def stored_def)
  ultimately show ?thesis using flush_writes_back[of "\<lambda>_. ()" "[0]" "\<lambda>i r d. r" one_row "[5]" 1 130] by fastforce
qed

text \<open>If the database refuses the statement for a released row, the row is freed all the same and its changes are lost.\<close>

lemma refused_row_lost:
  assumes "rows_ok key ids copy t p (a # ls) ns" and "dt_rows t a = Some x" and "data_flag x = DATA_FLAG_RELEASE" and "dirty x \<noteq> 0" and "\<not> acc a"
  shows "flush_loop acc key ids copy now (Suc fuel) p t =
    flush_loop acc key ids copy now fuel p (t\<lparr>update_list := update_next x, dt_rows := (dt_rows t)(a := None)\<rparr>)"
proof -
  have a: "update_list t = a" "a \<noteq> VOID_ROW" using rows_okD(1)[OF assms(1)] by simp_all
  then show ?thesis using assms(2-5) by (subst flush_loop.simps) (simp add: DATA_save_def free_row_def Let_def)
qed

end
