(* ===== verification/RowSet.thy ===== *)
theory RowSet
  imports DataOps
begin

text \<open>
  The rows of one player in a module (\<^verbatim>\<open>src/world/modules/reward_flag.c\<close>, \<^verbatim>\<open>daily.c\<close> and others): a hash map from the number of a
  row to the row and a ring list of all rows. The modules write the same steps out for loading, adding and releasing; they are stated
  here once, over the type \<open>'r\<close> of the rows. \<open>owner\<close> and \<open>num\<close> are the two required columns, the player and the number.
\<close>

section \<open>Operations\<close>

record 'r row_set =
  rs_map :: "(u64, addr) agmap option"
  rs_list :: addr
  rs_links :: dlinks
  rs_table :: "(u64 \<times> u64, 'r) data_table"

type_synonym 'r table = "(u64 \<times> u64, 'r) data_table"

definition row_key :: "('r \<Rightarrow> u64) \<Rightarrow> ('r \<Rightarrow> u64) \<Rightarrow> 'r \<Rightarrow> u64 \<times> u64" where
  "row_key owner num r = (owner r, num r)"

text \<open>\<open>DATA_X_load_by_pid\<close>: for every row of the answer a new row is put in front of the list; \<open>as\<close> are the addresses of \<open>malloc\<close>,
  \<open>parse\<close> is what becomes of the columns as text and back.\<close>

fun load_by_pid :: "('r \<Rightarrow> 'r) \<Rightarrow> addr list \<Rightarrow> 'r list \<Rightarrow> addr list \<Rightarrow> 'r table \<Rightarrow> addr list \<times> 'r table" where
  "load_by_pid parse (a # as) (r # rs) list t =
     load_by_pid parse as rs (a # list) (t\<lparr>dt_rows := (dt_rows t)(a \<mapsto> fresh_row (parse r))\<rparr>)"
| "load_by_pid parse _ _ list t = (list, t)"

text \<open>The loop over the loaded rows.\<close>

fun enter_rows :: "('r \<Rightarrow> u64) \<Rightarrow> addr list \<Rightarrow> 'r row_set \<Rightarrow> 'r row_set res option" where
  "enter_rows num [] S = Some (Inr S)"
| "enter_rows num (a # list) S =
     (case dt_rows (rs_table S) a of
        None \<Rightarrow> Some (Inl UseAfterFree)
      | Some x \<Rightarrow>
          (case dlist_insert_tail (dlist_init (rs_links S) a) (rs_list S) a of
             Inl f \<Rightarrow> Some (Inl f)
           | Inr (l, links) \<Rightarrow>
               run_bind (agMap_ip_set (rs_map S) (num (row x)) (Some a)) (\<lambda>(_, mp).
                 enter_rows num list (S\<lparr>rs_map := mp, rs_list := l, rs_links := links\<rparr>))))"

definition rows_new :: "dlinks \<Rightarrow> 'r table \<Rightarrow> 'r row_set res" where
  "rows_new links t = res_bind (agMap_new None) (\<lambda>m. Inr \<lparr>rs_map = Some m, rs_list = 0, rs_links = links, rs_table = t\<rparr>)"

text \<open>\<open>acc\<close>: the database answers the query, with the rows \<open>answer\<close>. A null pointer is returned otherwise.\<close>

definition rows_load :: "('r \<Rightarrow> u64) \<Rightarrow> ('r \<Rightarrow> 'r) \<Rightarrow> bool \<Rightarrow> 'r list \<Rightarrow> addr list \<Rightarrow> dlinks \<Rightarrow> 'r table \<Rightarrow> 'r row_set option res option" where
  "rows_load num parse acc answer as links t =
     (if \<not> acc then Some (Inr None)
      else
        case load_by_pid parse as answer [] t of
          (list, t) \<Rightarrow>
            run_bind (Some (rows_new links t)) (\<lambda>S.
            run_bind (enter_rows num list S) (\<lambda>S. Some (Inr (Some S)))))"

text \<open>A new row: \<open>DATA_X_new\<close>, then map and list. The null pointer is returned if the database refuses it.\<close>

definition rows_add :: "('r \<Rightarrow> u64) \<Rightarrow> ('r \<Rightarrow> u64) \<Rightarrow> bool \<Rightarrow> addr \<Rightarrow> 'r \<Rightarrow> 'r row_set \<Rightarrow> (addr \<times> 'r row_set) res option" where
  "rows_add owner num acc a r S =
     run_bind (Some (DATA_new acc (row_key owner num) a ((rs_table S)\<lparr>dt_rows := (dt_rows (rs_table S))(a \<mapsto> fresh_row r)\<rparr>))) (\<lambda>(ret, t).
       if ret \<noteq> 0 then Some (Inr (0, S\<lparr>rs_table := free_row a t\<rparr>))
       else
         run_bind (agMap_ip_set (rs_map S) (num r) (Some a)) (\<lambda>(_, mp).
           case dlist_insert_tail (dlist_init (rs_links S) a) (rs_list S) a of
             Inl f \<Rightarrow> Some (Inl f)
           | Inr (l, links) \<Rightarrow> Some (Inr (a, S\<lparr>rs_map := mp, rs_list := l, rs_links := links, rs_table := t\<rparr>))))"

text \<open>The loop of the release.\<close>

fun release_rows :: "nat \<Rightarrow> addr \<Rightarrow> dlinks \<Rightarrow> 'r table \<Rightarrow> (dlinks \<times> 'r table) res option" where
  "release_rows fuel l links t =
     (if l = 0 then Some (Inr (links, t))
      else case fuel of
        0 \<Rightarrow> None
      | Suc fuel \<Rightarrow>
          run_bind (Some (dlist_remove links l l)) (\<lambda>(l', links).
          run_bind (Some (DATA_release l t)) (\<lambda>(_, t).
            release_rows fuel l' links t)))"

declare release_rows.simps [simp del]

definition rows_release :: "nat \<Rightarrow> 'r row_set \<Rightarrow> (dlinks \<times> 'r table) res option" where
  "rows_release fuel S = release_rows fuel (rs_list S) (rs_links S) (rs_table S)"

section \<open>Invariant\<close>

definition rows_of :: "'r row_set \<Rightarrow> u64 \<Rightarrow> 'r option" where
  "rows_of S n = (case agMap_ip_get (rs_map S) n of None \<Rightarrow> None | Some a \<Rightarrow> map_option row (dt_rows (rs_table S) a))"

text \<open>The database has rows under their keys only.\<close>

definition db_ok :: "('r \<Rightarrow> 'k) \<Rightarrow> ('k, 'r) data_table \<Rightarrow> bool" where
  "db_ok key t \<longleftrightarrow> (\<forall>k d. dt_db t k = Some d \<longrightarrow> key d = k)"

text \<open>The set holds all rows of player \<open>pid\<close>, and only those.\<close>

definition set_ok ::
  "('r \<Rightarrow> u64) \<Rightarrow> ('r \<Rightarrow> u64) \<Rightarrow> nat list \<Rightarrow> (nat \<Rightarrow> 'r \<Rightarrow> 'r \<Rightarrow> 'r) \<Rightarrow> u64 \<Rightarrow> 'r row_set \<Rightarrow> addr list \<Rightarrow> addr list \<Rightarrow> bool" where
  "set_ok owner num ids copy pid S xs ls \<longleftrightarrow>
     table_ok (row_key owner num) ids copy (rs_table S) ls \<and> db_ok (row_key owner num) (rs_table S)
     \<and> reg_ok (rs_map S) (rs_links S) (rs_list S) (\<lambda>a. map_option (\<lambda>x. num (row x)) (dt_rows (rs_table S) a)) xs
     \<and> (\<forall>a \<in> set xs. \<exists>x. dt_rows (rs_table S) a = Some x \<and> data_flag x = 0 \<and> owner (row x) = pid)
     \<and> (\<forall>n d. dt_db (rs_table S) (pid, n) = Some d \<longrightarrow> (\<exists>a \<in> set xs. \<exists>x. dt_rows (rs_table S) a = Some x \<and> num (row x) = n))"

lemma set_okD:
  assumes "set_ok owner num ids copy pid S xs ls"
  shows "table_ok (row_key owner num) ids copy (rs_table S) ls" and "db_ok (row_key owner num) (rs_table S)"
    and "reg_ok (rs_map S) (rs_links S) (rs_list S) (\<lambda>a. map_option (\<lambda>x. num (row x)) (dt_rows (rs_table S) a)) xs"
    and "a \<in> set xs \<Longrightarrow> \<exists>x. dt_rows (rs_table S) a = Some x \<and> data_flag x = 0 \<and> owner (row x) = pid"
    and "dt_db (rs_table S) (pid, n) = Some d \<Longrightarrow> \<exists>a \<in> set xs. \<exists>x. dt_rows (rs_table S) a = Some x \<and> num (row x) = n"
  using assms unfolding set_ok_def by blast+

lemma rows_of_iff:
  assumes "set_ok owner num ids copy pid S xs ls"
  shows "rows_of S n = Some r \<longleftrightarrow> (\<exists>a \<in> set xs. \<exists>x. dt_rows (rs_table S) a = Some x \<and> row x = r \<and> num r = n)"
proof -
  note g = reg_okD(3)[OF set_okD(3)[OF assms], of n]
  have g': "agMap_ip_get (rs_map S) n = Some a \<longleftrightarrow> a \<in> set xs \<and> (\<exists>x. dt_rows (rs_table S) a = Some x \<and> num (row x) = n)" for a
    unfolding g by auto
  have "rows_of S n = Some r \<longleftrightarrow> (\<exists>a x. agMap_ip_get (rs_map S) n = Some a \<and> dt_rows (rs_table S) a = Some x \<and> row x = r)"
    by (auto simp: rows_of_def split: option.splits)
  then show ?thesis unfolding g' by (metis option.inject)
qed

text \<open>The numbers of rows are 32-bit columns, the keys of a map have 64 bits.\<close>

lemma row_number: "ucast (a :: u32) = (ucast b :: u64) \<longleftrightarrow> a = b"
proof
  assume "ucast a = (ucast b :: u64)"
  then have "uint (ucast a :: u64) = uint (ucast b :: u64)" by simp
  moreover have "uint (ucast c :: u64) = uint c" for c :: u32
    using uint_lt2p[of c] by (simp add: unsigned_ucast_eq take_bit_int_eq_self)
  ultimately show "a = b" by (simp add: word_uint_eq_iff)
qed simp

section \<open>Adding and changing rows\<close>

lemma set_add_ok:
  assumes "set_ok owner num ids copy pid S xs ls" and "length xs < REG_MAX" and "dt_rows (rs_table S) a = None" and "a \<noteq> 0" and "a \<noteq> VOID_ROW"
    and "owner r = pid" and "rows_of S (num r) = None"
  shows "\<exists>S'. rows_add owner num True a r S = Some (Inr (a, S')) \<and> set_ok owner num ids copy pid S' (xs @ [a]) ls
    \<and> rows_of S' = (rows_of S)(num r \<mapsto> r) \<and> agMap_ip_get (rs_map S') (num r) = Some a"
proof -
  note d = set_okD[OF assms(1)]
  have new: "num (row x) \<noteq> num r" if "b \<in> set xs" "dt_rows (rs_table S) b = Some x" for b x
    using rows_of_iff[OF assms(1), of "num r" "row x"] that assms(7) by auto
  have dbn: "dt_db (rs_table S) (row_key owner num r) = None"
    using d(5)[of "num r"] new assms(6) by (cases "dt_db (rs_table S) (pid, num r)") (auto simp: row_key_def)
  obtain t where t: "DATA_new True (row_key owner num) a ((rs_table S)\<lparr>dt_rows := (dt_rows (rs_table S))(a \<mapsto> fresh_row r)\<rparr>) = Inr (0, t)"
    "table_ok (row_key owner num) ids copy t ls" "dt_rows t = (dt_rows (rs_table S))(a \<mapsto> fresh_row r)"
    "dt_db t = (dt_db (rs_table S))(row_key owner num r \<mapsto> r)"
    using DATA_new_ok[OF d(1) assms(3,4,5) dbn] by auto
  have a: "a \<notin> set xs" using d(4)[of a] assms(3) by auto
  let ?key = "\<lambda>b. map_option (\<lambda>x. num (row x)) (dt_rows (rs_table S) b)"
  have reg: "reg_ok (rs_map S) (dlist_init (rs_links S) a) (rs_list S) ?key xs"
    by (rule reg_ok_cong[OF d(3)]) (use a in auto)
  have none: "agMap_ip_get (rs_map S) (num r) = None" using reg_get_None[OF d(3)] new by auto
  have det: "detached (dlist_init (rs_links S) a) a" by (simp add: detached_def)
  obtain mp l links where g: "agMap_ip_set (rs_map S) (num r) (Some a) = Some (Inr (None, mp))"
    "dlist_insert_tail (dlist_init (rs_links S) a) (rs_list S) a = Inr (l, links)" "reg_ok mp links l (?key(a := Some (num r))) (xs @ [a])"
    by (rule reg_add[OF reg assms(2) det assms(4) a none]) (rule that)
  let ?S = "S\<lparr>rs_map := mp, rs_list := l, rs_links := links, rs_table := t\<rparr>"
  have "(\<lambda>b. map_option (\<lambda>x. num (row x)) (dt_rows t b)) = ?key(a := Some (num r))" by (auto simp: t(3))
  moreover have "db_ok (row_key owner num) t" using d(2) by (auto simp: t(4) db_ok_def)
  moreover have "\<exists>b \<in> set (xs @ [a]). \<exists>x. dt_rows t b = Some x \<and> num (row x) = n" if "dt_db t (pid, n) = Some e" for n e
  proof (cases "n = num r")
    case False
    then have "dt_db (rs_table S) (pid, n) = Some e" using that assms(6) by (auto simp: t(4) row_key_def split: if_splits)
    from d(5)[OF this] a show ?thesis by (auto simp: t(3))
  qed (simp add: t(3))
  ultimately have ok: "set_ok owner num ids copy pid ?S (xs @ [a]) ls"
    using t(2) g(3) d(4) a assms(6) by (auto simp: set_ok_def t(3))
  have "rows_of ?S n = ((rows_of S)(num r \<mapsto> r)) n" for n
  proof (cases "n = num r")
    case True
    then show ?thesis using rows_of_iff[OF ok, of n r] by (auto simp: t(3))
  next
    case False
    have "rows_of ?S n = Some q \<longleftrightarrow> rows_of S n = Some q" for q
      unfolding rows_of_iff[OF ok] rows_of_iff[OF assms(1)] using False a by (auto simp: t(3))
    then show ?thesis using False by (metis fun_upd_other option.exhaust)
  qed
  then have "rows_of ?S = (rows_of S)(num r \<mapsto> r)" by blast
  moreover have "agMap_ip_get mp (num r) = Some a" using reg_okD(3)[OF g(3)] by simp
  ultimately show ?thesis using ok g(1,2) t(1) by (auto simp: rows_add_def)
qed

text \<open>A row is deleted, and its columns may be overwritten (by \<open>f\<close>) before it is freed.\<close>

lemma table_deleted:
  assumes "table_ok key ids copy t ls" and "dt_rows t a = Some x" and "\<not> stored x"
  shows "table_ok key ids copy (t\<lparr>dt_rows := (dt_rows t)(a \<mapsto> x\<lparr>row := r\<rparr>)\<rparr>) ls"
proof -
  note d = rows_okD[OF assms(1)[unfolded table_ok_def]]
  let ?h = "(dt_rows t)(a \<mapsto> x\<lparr>row := r\<rparr>)"
  have "uchain ?h (update_list t) ls" using d(1) assms(2) by (subst uchain_cong[where h = "dt_rows t"]) auto
  moreover have "listed (set ls) b y \<and> backed key ids copy (dt_db t) y" if "?h b = Some y" for b y
    using d(4,5)[of b "if b = a then x else y"] assms(2,3) that by (auto simp: listed_def backed_def stored_def split: if_splits)
  moreover have "one_each key ?h" using d(6) assms(3) unfolding one_each_def by (auto simp: stored_def)
  ultimately show ?thesis using d(2,3) unfolding table_ok_def rows_ok_def by simp
qed

lemma set_remove_ok:
  assumes "set_ok owner num ids copy pid S xs ls" and "length xs < REG_MAX" and "agMap_ip_get (rs_map S) n = Some a"
  obtains S' t' ls' where "DATA_delete True (row_key owner num) a (rs_table S) = Inr (0, t')"
    and "agMap_ip_set (rs_map S) n None = Some (Inr (Some a, rs_map S'))" and "dlist_remove (rs_links S) (rs_list S) a = Inr (rs_list S', rs_links S')"
    and "rs_table S' = t'\<lparr>dt_rows := (dt_rows t')(a := map_option (\<lambda>x. x\<lparr>row := f (row x)\<rparr>) (dt_rows t' a))\<rparr>"
    and "set_ok owner num ids copy pid S' (remove1 a xs) ls'" and "rows_of S' = (rows_of S)(n := None)"
proof -
  note d = set_okD[OF assms(1)]
  let ?key = "\<lambda>b. map_option (\<lambda>x. num (row x)) (dt_rows (rs_table S) b)"
  have a: "a \<in> set xs" "?key a = Some n" using reg_okD(3)[OF d(3)] assms(3) by simp_all
  obtain x where x: "dt_rows (rs_table S) a = Some x" "data_flag x = 0" "owner (row x) = pid" "num (row x) = n" using d(4)[OF a(1)] a(2) by auto
  obtain mp l links where g: "agMap_ip_set (rs_map S) n None = Some (Inr (Some a, mp))" "dlist_remove (rs_links S) (rs_list S) a = Inr (l, links)"
    "reg_ok mp links l (?key(a := None)) (remove1 a xs)"
    by (rule reg_del[OF d(3) assms(2) a]) (rule that)
  obtain t' y ls' where t: "DATA_delete True (row_key owner num) a (rs_table S) = Inr (0, t')" "table_ok (row_key owner num) ids copy t' ls'"
    "dt_db t' = (dt_db (rs_table S))(row_key owner num (row x) := None)" "dt_rows t' = (dt_rows (rs_table S))(a \<mapsto> y)" "\<not> stored y"
    using DATA_delete_ok[OF d(1) x(1)] x(2) by (auto simp: stored_def)
  let ?t = "t'\<lparr>dt_rows := (dt_rows t')(a \<mapsto> y\<lparr>row := f (row y)\<rparr>)\<rparr>"
  let ?S = "S\<lparr>rs_map := mp, rs_list := l, rs_links := links, rs_table := ?t\<rparr>"
  have tok: "table_ok (row_key owner num) ids copy ?t ls'" by (rule table_deleted[OF t(2) _ t(5)]) (simp add: t(4))
  have nd: "a \<notin> set (remove1 a xs)" "set (remove1 a xs) \<subseteq> set xs" using reg_okD(1)[OF d(3)] by (auto simp: dring_def dest: notin_set_remove1)
  have reg: "reg_ok mp links l (\<lambda>b. map_option (\<lambda>x. num (row x)) (dt_rows ?t b)) (remove1 a xs)"
    by (rule reg_ok_cong[OF g(3)]) (use nd t(4) in auto)
  have own: "\<exists>z. dt_rows ?t b = Some z \<and> data_flag z = 0 \<and> owner (row z) = pid" if "b \<in> set (remove1 a xs)" for b
    using d(4)[of b] nd that t(4) by auto
  have all: "\<exists>b \<in> set (remove1 a xs). \<exists>z. dt_rows ?t b = Some z \<and> num (row z) = m" if m: "dt_db ?t (pid, m) = Some e" for m e
  proof -
    have "m \<noteq> n" "dt_db (rs_table S) (pid, m) = Some e" using m x(3,4) by (auto simp: t(3) row_key_def split: if_splits)
    then obtain b z where b: "b \<in> set xs" "dt_rows (rs_table S) b = Some z" "num (row z) = m" using d(5)[of m e] by blast
    moreover have "b \<noteq> a" using b x(1,4) \<open>m \<noteq> n\<close> by auto
    ultimately show ?thesis using t(4) by (intro bexI[of _ b]) auto
  qed
  have "db_ok (row_key owner num) ?t" using d(2) by (auto simp: db_ok_def t(3) split: if_splits)
  then have ok: "set_ok owner num ids copy pid ?S (remove1 a xs) ls'" using tok reg own all unfolding set_ok_def by simp
  have iff: "agMap_ip_get mp m = Some b \<longleftrightarrow> m \<noteq> n \<and> agMap_ip_get (rs_map S) m = Some b" for m b
    using reg_okD(3)[OF g(3), of m b] reg_okD(3)[OF d(3), of m b] a nd assms(3) by (cases "b = a") auto
  have get: "agMap_ip_get mp m = (if m = n then None else agMap_ip_get (rs_map S) m)" for m
    using iff[of m] by (metis option.exhaust)
  have "rows_of ?S m = ((rows_of S)(n := None)) m" for m
  proof (cases "m = n")
    case False
    then have "agMap_ip_get (rs_map S) m \<noteq> Some a" using reg_okD(3)[OF d(3), of m a] a by auto
    then show ?thesis using False get[of m] t(4) by (auto simp: rows_of_def split: option.splits)
  qed (simp add: rows_of_def get)
  then have "rows_of ?S = (rows_of S)(n := None)" by blast
  with that[of t' ?S ls'] t(1,4) g(1,2) ok show thesis by simp
qed

locale owned_rows = columns field ids copy "row_key owner num"
  for field :: "nat \<Rightarrow> 'r \<Rightarrow> int" and ids and copy and owner :: "'r \<Rightarrow> u64" and num :: "'r \<Rightarrow> u64"
begin

lemma set_update_ok:
  assumes "set_ok owner num ids copy pid S xs ls" and "agMap_ip_get (rs_map S) n = Some a" and "rows_of S n = Some r" and "i \<in> set ids"
    and "\<And>j. j \<in> set ids \<Longrightarrow> j \<noteq> i \<Longrightarrow> field j (put r) = field j r" and "owner (put r) = owner r" and "num (put r) = num r"
  shows "\<exists>t' ls'. DATA_update now i put a (rs_table S) = Inr (0, t') \<and> set_ok owner num ids copy pid (S\<lparr>rs_table := t'\<rparr>) xs ls'
    \<and> rows_of (S\<lparr>rs_table := t'\<rparr>) = (rows_of S)(n \<mapsto> put r)"
proof -
  note d = set_okD[OF assms(1)]
  obtain x where x: "dt_rows (rs_table S) a = Some x" "row x = r" using assms(2,3) by (auto simp: rows_of_def)
  have a: "a \<in> set xs" "num r = n" using reg_okD(3)[OF d(3), of n a] assms(2) x by simp_all
  have f: "data_flag x = 0" "owner r = pid" "stored x" using d(4)[OF a(1)] x by (auto simp: stored_def)
  obtain t' y ls' where t: "DATA_update now i put a (rs_table S) = Inr (0, t')" "table_ok (row_key owner num) ids copy t' ls'"
    "dt_db t' = dt_db (rs_table S)" "dt_rows t' = (dt_rows (rs_table S))(a \<mapsto> y)" "row y = put r" "data_flag y = 0"
    using DATA_update_ok[OF d(1) x(1) f(3) assms(4), of put now] assms(5-7) x(2) f(1) by (auto simp: row_key_def)
  let ?S = "S\<lparr>rs_table := t'\<rparr>"
  have k: "(\<lambda>b. map_option (\<lambda>x. num (row x)) (dt_rows t' b)) = (\<lambda>b. map_option (\<lambda>x. num (row x)) (dt_rows (rs_table S) b))"
    using x assms(7) t(5) by (auto simp: t(4))
  have "\<exists>z. dt_rows t' b = Some z \<and> data_flag z = 0 \<and> owner (row z) = pid" if "b \<in> set xs" for b
    using d(4)[OF that] t(5,6) assms(6) f(2) by (auto simp: t(4))
  moreover have "\<exists>b \<in> set xs. \<exists>z. dt_rows t' b = Some z \<and> num (row z) = m" if m: "dt_db t' (pid, m) = Some e" for m e
  proof -
    obtain b where b: "b \<in> set xs" "map_option (\<lambda>x. num (row x)) (dt_rows (rs_table S) b) = Some m" using d(5)[of m e] m t(3) by auto
    have "map_option (\<lambda>x. num (row x)) (dt_rows t' b) = Some m" using fun_cong[OF k, of b] b(2) by simp
    with b(1) show ?thesis by auto
  qed
  ultimately have ok: "set_ok owner num ids copy pid ?S xs ls'"
    using t(2,3) d(2,3) unfolding set_ok_def by (simp add: k db_ok_def)
  have "rows_of ?S m = ((rows_of S)(n \<mapsto> put r)) m" for m
  proof (cases "m = n")
    case True
    then show ?thesis using assms(2) t(5) by (simp add: rows_of_def t(4))
  next
    case False
    then have "agMap_ip_get (rs_map S) m \<noteq> Some a" using reg_okD(3)[OF d(3), of m a] x a by auto
    then show ?thesis using False by (auto simp: rows_of_def t(4) split: option.splits)
  qed
  then have "rows_of ?S = (rows_of S)(n \<mapsto> put r)" by blast
  with t(1) ok show ?thesis by blast
qed

end

end
