(* ===== verification/RowTrip.thy ===== *)
theory RowTrip
  imports RowSet
begin

text \<open>
  The rows of a player survive that the player is released and loaded again: release, flush and load give the same rows.
\<close>

section \<open>Release\<close>

lemma release_rows_ok:
  assumes "table_ok key ids copy t ls" and "dring links l xs" and "\<forall>a \<in> set xs. \<exists>x. dt_rows t a = Some x \<and> stored x" and "length xs \<le> fuel"
  shows "\<exists>links' t' ls'. release_rows fuel l links t = Some (Inr (links', t')) \<and> table_ok key ids copy t' ls' \<and> dt_db t' = dt_db t
    \<and> (\<forall>b. b \<notin> set xs \<longrightarrow> dt_rows t' b = dt_rows t b) \<and> length ls' \<le> length ls + length xs
    \<and> (\<forall>a \<in> set xs. \<exists>x y. dt_rows t a = Some x \<and> dt_rows t' a = Some y \<and> row y = row x \<and> data_flag y = DATA_FLAG_RELEASE)"
  using assms
proof (induction xs arbitrary: t ls links l fuel)
  case Nil
  then have "l = 0" using dring_Nil_iff by blast
  then show ?case using Nil.prems(1) by (subst release_rows.simps) auto
next
  case (Cons a xs)
  obtain f where f: "fuel = Suc f" "length xs \<le> f" using Cons.prems(4) by (cases fuel) auto
  have l: "l = a" "a \<noteq> 0" "a \<notin> set xs" using dring_hd[OF Cons.prems(2)] Cons.prems(2) by (auto simp: dring_def)
  obtain x where x: "dt_rows t a = Some x" "stored x" using Cons.prems(3) by auto
  obtain l1 links1 where r: "dlist_remove links l a = Inr (l1, links1)" "dring links1 l1 xs"
    using dlist_remove_ring[OF Cons.prems(2), of a] by auto
  obtain t1 n ls1 where t1: "DATA_release a t = Inr (0, t1)" "table_ok key ids copy t1 ls1" "dt_db t1 = dt_db t" "ls1 = (if a \<in> set ls then ls else a # ls)"
    "dt_rows t1 = (dt_rows t)(a \<mapsto> x\<lparr>data_flag := DATA_FLAG_RELEASE, update_next := n\<rparr>)"
    using DATA_release_ok[OF Cons.prems(1) x] by blast
  have live: "\<forall>b \<in> set xs. \<exists>x. dt_rows t1 b = Some x \<and> stored x" using Cons.prems(3) l(3) by (auto simp: t1(5))
  obtain links' t' ls' where IH: "release_rows f l1 links1 t1 = Some (Inr (links', t'))" "table_ok key ids copy t' ls'" "dt_db t' = dt_db t1"
    "\<And>b. b \<notin> set xs \<Longrightarrow> dt_rows t' b = dt_rows t1 b" "length ls' \<le> length ls1 + length xs"
    "\<And>b. b \<in> set xs \<Longrightarrow> \<exists>x y. dt_rows t1 b = Some x \<and> dt_rows t' b = Some y \<and> row y = row x \<and> data_flag y = DATA_FLAG_RELEASE"
    using Cons.IH[OF t1(2) r(2) live f(2)] by blast
  have "release_rows fuel l links t = Some (Inr (links', t'))"
    using r(1) t1(1) IH(1) l f(1) by (subst release_rows.simps) simp
  moreover have "\<exists>x y. dt_rows t b = Some x \<and> dt_rows t' b = Some y \<and> row y = row x \<and> data_flag y = DATA_FLAG_RELEASE" if "b \<in> set (a # xs)" for b
  proof (cases "b = a")
    case True
    then show ?thesis using IH(4)[OF l(3)] x(1) by (simp add: t1(5))
  next
    case False
    then show ?thesis using IH(6)[of b] that by (simp add: t1(5))
  qed
  moreover have "length ls' \<le> length ls + length (a # xs)" using IH(5) t1(4) by (auto split: if_splits)
  moreover have "dt_rows t' b = dt_rows t b" if "b \<notin> set (a # xs)" for b using IH(4)[of b] that by (simp add: t1(5))
  ultimately show ?case using IH(2,3) t1(3) by auto
qed

section \<open>Load\<close>

lemma load_by_pid_ok:
  assumes "table_ok key ids copy t ls" and "distinct as" and "length as = length rs"
    and "\<forall>a \<in> set as. dt_rows t a = None \<and> a \<noteq> 0 \<and> a \<noteq> VOID_ROW" and "\<forall>r \<in> set rs. parse r = r \<and> dt_db t (key r) = Some r"
    and "distinct (map key rs)" and "\<forall>b y. dt_rows t b = Some y \<longrightarrow> stored y \<longrightarrow> key (row y) \<notin> key ` set rs"
  shows "\<exists>t'. load_by_pid parse as rs list t = (rev as @ list, t') \<and> table_ok key ids copy t' ls \<and> dt_db t' = dt_db t
    \<and> (\<forall>i < length rs. dt_rows t' (as ! i) = Some (fresh_row (rs ! i))) \<and> (\<forall>b. b \<notin> set as \<longrightarrow> dt_rows t' b = dt_rows t b)"
  using assms
proof (induction as arbitrary: rs t list)
  case (Cons a as)
  obtain r rs' where rs: "rs = r # rs'" using Cons.prems(3) by (cases rs) auto
  let ?t = "t\<lparr>dt_rows := (dt_rows t)(a \<mapsto> fresh_row r)\<rparr>"
  have t: "table_ok key ids copy ?t ls"
    using table_fresh[OF Cons.prems(1), of a "dt_db t" r] Cons.prems(4,5,7) rs by auto
  have "\<forall>b \<in> set as. dt_rows ?t b = None \<and> b \<noteq> 0 \<and> b \<noteq> VOID_ROW" using Cons.prems(2,4) by auto
  moreover have "\<forall>b y. dt_rows ?t b = Some y \<longrightarrow> stored y \<longrightarrow> key (row y) \<notin> key ` set rs'" using Cons.prems(6,7) rs by auto
  ultimately obtain t' where IH: "load_by_pid parse as rs' (a # list) ?t = (rev as @ a # list, t')" "table_ok key ids copy t' ls" "dt_db t' = dt_db t"
    "\<forall>i < length rs'. dt_rows t' (as ! i) = Some (fresh_row (rs' ! i))" "\<forall>b. b \<notin> set as \<longrightarrow> dt_rows t' b = dt_rows ?t b"
    using Cons.IH[OF t, of rs' "a # list"] Cons.prems(2,3,5,6) rs by auto
  have "\<forall>i < length rs. dt_rows t' ((a # as) ! i) = Some (fresh_row (rs ! i))"
    using IH(4,5) Cons.prems(2) by (auto simp: rs nth_Cons split: nat.splits)
  with IH Cons.prems(5) show ?case by (simp add: rs)
qed simp

lemma enter_rows_ok:
  assumes "reg_ok (rs_map S) (rs_links S) (rs_list S) (\<lambda>a. map_option (\<lambda>x. num (row x)) (dt_rows (rs_table S) a)) xs"
    and "length (xs @ list) \<le> REG_MAX" and "distinct (xs @ list)" and "\<forall>a \<in> set list. a \<noteq> 0 \<and> dt_rows (rs_table S) a \<noteq> None"
    and "\<forall>a \<in> set (xs @ list). \<forall>b \<in> set list. \<forall>x y. dt_rows (rs_table S) a = Some x \<longrightarrow> dt_rows (rs_table S) b = Some y \<longrightarrow> num (row x) = num (row y) \<longrightarrow> a = b"
  shows "\<exists>S'. enter_rows num list S = Some (Inr S') \<and> rs_table S' = rs_table S
    \<and> reg_ok (rs_map S') (rs_links S') (rs_list S') (\<lambda>a. map_option (\<lambda>x. num (row x)) (dt_rows (rs_table S) a)) (xs @ list)"
  using assms
proof (induction list arbitrary: S xs)
  case (Cons a list)
  obtain x where x: "dt_rows (rs_table S) a = Some x" using Cons.prems(4) by auto
  let ?key = "\<lambda>a. map_option (\<lambda>x. num (row x)) (dt_rows (rs_table S) a)"
  have a: "a \<notin> set xs" "a \<noteq> 0" using Cons.prems(3,4) by auto
  have reg: "reg_ok (rs_map S) (dlist_init (rs_links S) a) (rs_list S) ?key xs"
    by (rule reg_ok_cong[OF Cons.prems(1)]) (use a in auto)
  have "?key b \<noteq> Some (num (row x))" if b: "b \<in> set xs" for b
  proof
    assume "?key b = Some (num (row x))"
    then obtain y where "dt_rows (rs_table S) b = Some y" "num (row y) = num (row x)" by auto
    then have "b = a" using bspec[OF bspec[OF Cons.prems(5), of b], of a] b x by simp
    with a(1) b show False by simp
  qed
  then have none: "agMap_ip_get (rs_map S) (num (row x)) = None" using reg_get_None[OF Cons.prems(1)] by blast
  have det: "detached (dlist_init (rs_links S) a) a" by (simp add: detached_def)
  have len: "length xs < REG_MAX" using Cons.prems(2) by simp
  obtain mp l links where g: "agMap_ip_set (rs_map S) (num (row x)) (Some a) = Some (Inr (None, mp))"
    "dlist_insert_tail (dlist_init (rs_links S) a) (rs_list S) a = Inr (l, links)" "reg_ok mp links l (?key(a := Some (num (row x)))) (xs @ [a])"
    by (rule reg_add[OF reg len det a(2,1) none]) (rule that)
  let ?S = "S\<lparr>rs_map := mp, rs_list := l, rs_links := links\<rparr>"
  have "?key(a := Some (num (row x))) = ?key" using x by auto
  then have "reg_ok (rs_map ?S) (rs_links ?S) (rs_list ?S) (\<lambda>a. map_option (\<lambda>x. num (row x)) (dt_rows (rs_table ?S) a)) (xs @ [a])" using g(3) by simp
  moreover have "\<forall>b \<in> set ((xs @ [a]) @ list). \<forall>c \<in> set list. \<forall>x y. dt_rows (rs_table ?S) b = Some x \<longrightarrow> dt_rows (rs_table ?S) c = Some y \<longrightarrow> num (row x) = num (row y) \<longrightarrow> b = c"
    using Cons.prems(5) by simp
  moreover have "length ((xs @ [a]) @ list) \<le> REG_MAX" "distinct ((xs @ [a]) @ list)" "\<forall>b \<in> set list. b \<noteq> 0 \<and> dt_rows (rs_table ?S) b \<noteq> None"
    using Cons.prems(2,3,4) by simp_all
  ultimately obtain S' where "enter_rows num list ?S = Some (Inr S')" "rs_table S' = rs_table S"
    "reg_ok (rs_map S') (rs_links S') (rs_list S') ?key (xs @ a # list)"
    using Cons.IH[of ?S "xs @ [a]"] by auto
  then show ?case using g(1,2) x by simp
qed simp

section \<open>The way through the database\<close>

text \<open>A row of the player in the database, as of before the release, is one of those in memory.\<close>

lemma own_row:
  assumes "set_ok owner num ids copy pid S xs ls" and "dt_db (rs_table S) (pid, n) \<noteq> None"
  shows "\<exists>a x. a \<in> set xs \<and> dt_rows (rs_table S) a = Some x \<and> row_key owner num (row x) = (pid, n)"
proof -
  obtain a x where "a \<in> set xs" "dt_rows (rs_table S) a = Some x" "num (row x) = n" using set_okD(5)[OF assms(1), of n] assms(2) by auto
  then show ?thesis using set_okD(4)[OF assms(1), of a] by (auto simp: row_key_def)
qed

text \<open>After release and flush the database has exactly the rows of the player, and memory has none of them.\<close>

lemma released_flushed:
  assumes "set_ok owner num ids copy pid S xs ls" and "table_ok (row_key owner num) ids copy t ls'" and "dt_db t = dt_db (rs_table S)"
    and "\<And>a. a \<in> set xs \<Longrightarrow> \<exists>x y. dt_rows (rs_table S) a = Some x \<and> dt_rows t a = Some y \<and> row y = row x \<and> data_flag y = DATA_FLAG_RELEASE"
    and "table_ok (row_key owner num) ids copy t' ms" and "flush_effect (row_key owner num) now ls' t t'"
  shows "dt_db t' (pid, n) = rows_of S n" and "dt_rows t' b = Some y \<Longrightarrow> stored y \<Longrightarrow> owner (row y) \<noteq> pid"
proof -
  let ?K = "row_key owner num"
  note fd = flush_db[OF assms(2,6), of "(pid, n)" for n]
  have gone: "dt_rows t' a = None \<and> dt_db t' (?K (row x)) = Some (row x)" if x: "a \<in> set xs" "dt_rows (rs_table S) a = Some x" for a x
  proof -
    obtain z where z: "dt_rows t a = Some z" "row z = row x" "data_flag z = DATA_FLAG_RELEASE" using assms(4)[OF x(1)] x(2) by auto
    show ?thesis using flush_released[OF assms(2,6) z(1,3)] z(2) by simp
  qed
  show "dt_db t' (pid, n) = rows_of S n"
  proof (cases "dt_db t' (pid, n)")
    case None
    have "rows_of S n \<noteq> Some r" for r
    proof
      assume "rows_of S n = Some r"
      then obtain a x where a: "a \<in> set xs" "dt_rows (rs_table S) a = Some x" "num (row x) = n" using rows_of_iff[OF assms(1), of n] by auto
      have "?K (row x) = (pid, n)" using set_okD(4)[OF assms(1) a(1)] a(2,3) by (auto simp: row_key_def)
      then show False using gone[OF a(1,2)] None by simp
    qed
    then show ?thesis using None by (metis option.exhaust)
  next
    case (Some r)
    then have "dt_db (rs_table S) (pid, n) \<noteq> None" using fd[of n] assms(3) by (metis option.distinct(1))
    then obtain a x where a: "a \<in> set xs" "dt_rows (rs_table S) a = Some x" "?K (row x) = (pid, n)" using own_row[OF assms(1)] by blast
    then have "rows_of S n = Some (row x)" using rows_of_iff[OF assms(1), of n "row x"] by (auto simp: row_key_def)
    then show ?thesis using gone[OF a(1,2)] a(3) by simp
  qed
  show "owner (row y) \<noteq> pid" if y: "dt_rows t' b = Some y" "stored y"
  proof
    assume "owner (row y) = pid"
    then have k: "?K (row y) = (pid, num (row y))" by (simp add: row_key_def)
    obtain w where w: "dt_rows t b = Some w" "row w = row y" "stored w" using flush_old[OF assms(2,6) y(1)] by blast
    have "dt_db (rs_table S) (pid, num (row y)) \<noteq> None"
      using backedD[OF rows_okD(5)[OF assms(2)[unfolded table_ok_def] w(1)] w(3)] w(2) k assms(3) by auto
    then obtain a x where a: "a \<in> set xs" "dt_rows (rs_table S) a = Some x" "?K (row x) = ?K (row y)" using own_row[OF assms(1)] unfolding k by blast
    obtain z where z: "dt_rows t a = Some z" "row z = row x" "stored z" using assms(4)[OF a(1)] a(2) by (auto simp: stored_def)
    have "b = a" using one_eachD[OF rows_okD(6)[OF assms(2)[unfolded table_ok_def]] w(1) z(1) w(3) z(3)] w(2) z(2) a(3) by simp
    with gone[OF a(1,2)] y(1) show False by simp
  qed
qed

lemma release_flush:
  assumes "set_ok owner num ids copy pid S xs ls" and "length xs \<le> fuel" and "length ls + length xs \<le> fuel2"
  shows "\<exists>links t t' ms. rows_release fuel S = Some (Inr (links, t))
    \<and> DATA_flush (\<lambda>_. True) (row_key owner num) ids copy now fuel2 t = Some (Inr (0, t')) \<and> table_ok (row_key owner num) ids copy t' ms
    \<and> db_ok (row_key owner num) t' \<and> (\<forall>n. dt_db t' (pid, n) = rows_of S n) \<and> (\<forall>b y. dt_rows t' b = Some y \<longrightarrow> stored y \<longrightarrow> owner (row y) \<noteq> pid)"
proof -
  let ?K = "row_key owner num"
  note d = set_okD[OF assms(1)]
  have live: "\<forall>a \<in> set xs. \<exists>x. dt_rows (rs_table S) a = Some x \<and> stored x" using d(4) by (force simp: stored_def)
  obtain links t ls' where r: "release_rows fuel (rs_list S) (rs_links S) (rs_table S) = Some (Inr (links, t))" "table_ok ?K ids copy t ls'"
    "dt_db t = dt_db (rs_table S)" "length ls' \<le> length ls + length xs"
    "\<And>a. a \<in> set xs \<Longrightarrow> \<exists>x y. dt_rows (rs_table S) a = Some x \<and> dt_rows t a = Some y \<and> row y = row x \<and> data_flag y = DATA_FLAG_RELEASE"
    using release_rows_ok[OF d(1) reg_okD(1)[OF d(3)] live assms(2)] by blast
  have fuel2: "length ls' \<le> fuel2" using r(4) assms(3) by simp
  obtain t' ms where f: "DATA_flush (\<lambda>_. True) ?K ids copy now fuel2 t = Some (Inr (0, t'))" "table_ok ?K ids copy t' ms" "flush_effect ?K now ls' t t'"
    using DATA_flush_ok[OF r(2) fuel2, of now] by blast
  have "db_ok ?K t'" using flush_db[OF r(2) f(3)] d(2) r(3) unfolding db_ok_def by (metis option.inject)
  then show ?thesis using r(1) f(1,2) released_flushed[OF assms(1) r(2,3) r(5) f(2,3)] unfolding rows_release_def by blast
qed

lemma rows_load_ok:
  assumes "table_ok (row_key owner num) ids copy t ls" and "db_ok (row_key owner num) t"
    and "\<forall>b y. dt_rows t b = Some y \<longrightarrow> stored y \<longrightarrow> owner (row y) \<noteq> pid"
    and "\<forall>d. d \<in> set answer \<longleftrightarrow> (\<exists>n. dt_db t (pid, n) = Some d)" and "distinct answer" and "\<forall>d \<in> set answer. parse d = d"
    and "distinct as" and "length as = length answer" and "length as \<le> REG_MAX" and "\<forall>a \<in> set as. dt_rows t a = None \<and> a \<noteq> 0 \<and> a \<noteq> VOID_ROW"
  shows "\<exists>S. rows_load num parse True answer as links t = Some (Inr (Some S)) \<and> set_ok owner num ids copy pid S (rev as) ls
    \<and> (\<forall>n. rows_of S n = dt_db t (pid, n))"
proof -
  let ?K = "row_key owner num"
  have K: "?K d = (pid, num d)" "owner d = pid" "dt_db t (?K d) = Some d" if "d \<in> set answer" for d
    using assms(2,4) that unfolding db_ok_def row_key_def by auto
  then have inj: "inj_on ?K (set answer)" by (auto simp: inj_on_def) (metis option.inject)
  have dK: "distinct (map ?K answer)" using assms(5) inj by (simp add: distinct_map)
  have "\<forall>b y. dt_rows t b = Some y \<longrightarrow> stored y \<longrightarrow> ?K (row y) \<notin> ?K ` set answer" using assms(3) K(2) by (auto simp: row_key_def)
  then obtain t' where l: "load_by_pid parse as answer [] t = (rev as, t')" "table_ok ?K ids copy t' ls" "dt_db t' = dt_db t"
    "\<And>i. i < length answer \<Longrightarrow> dt_rows t' (as ! i) = Some (fresh_row (answer ! i))"
    using load_by_pid_ok[OF assms(1,7,8,10), of parse "[]"] assms(6) K(3) dK by auto
  obtain m :: "(u64, addr) agmap" where m: "agMap_new None = Inr m" "tight_map m" "elems m = {}" by (rule new_map) (rule that)
  let ?S = "\<lparr>rs_map = Some m, rs_list = 0, rs_links = links, rs_table = t'\<rparr>"
  have at: "\<exists>i < length answer. a = as ! i \<and> dt_rows t' a = Some (fresh_row (answer ! i))" if "a \<in> set as" for a
    using that l(4) assms(8) by (metis in_set_conv_nth)
  have uniq: "a = b" if ab: "a \<in> set as" "b \<in> set as" "dt_rows t' a = Some x" "dt_rows t' b = Some y" "num (row x) = num (row y)" for a b x y
  proof -
    obtain i j where i: "i < length answer" "a = as ! i" "row x = answer ! i" and j: "j < length answer" "b = as ! j" "row y = answer ! j"
      using at[OF ab(1)] at[OF ab(2)] ab(3,4) by auto
    then have "?K (answer ! i) = ?K (answer ! j)" using K(1) ab(5) by simp
    then have "i = j" using dK i(1) j(1) by (metis length_map nth_eq_iff_index_eq nth_map)
    with i(2) j(2) show ?thesis by simp
  qed
  obtain S where S: "enter_rows num (rev as) ?S = Some (Inr S)" "rs_table S = t'"
    "reg_ok (rs_map S) (rs_links S) (rs_list S) (\<lambda>a. map_option (\<lambda>x. num (row x)) (dt_rows t' a)) (rev as)"
    using enter_rows_ok[of ?S num "[]" "rev as"] reg_empty[OF m(2,3)] assms(7,9,10) at uniq by fastforce
  have run: "rows_load num parse True answer as links t = Some (Inr (Some S))"
    using l(1) m(1) S(1) by (simp add: rows_load_def rows_new_def)
  have mem: "\<exists>a \<in> set as. dt_rows t' a = Some (fresh_row d)" if "d \<in> set answer" for d
    using that l(4) assms(8) by (metis in_set_conv_nth)
  have ok: "set_ok owner num ids copy pid S (rev as) ls"
    unfolding set_ok_def S(2)
  proof (intro conjI ballI allI impI)
    show "\<exists>x. dt_rows t' a = Some x \<and> data_flag x = 0 \<and> owner (row x) = pid" if "a \<in> set (rev as)" for a
      using at[of a] that K(2) by auto
    show "\<exists>a \<in> set (rev as). \<exists>x. dt_rows t' a = Some x \<and> num (row x) = n" if "dt_db t' (pid, n) = Some d" for n d
      using mem[of d] K(1)[of d] that assms(2,4) l(3) by (force simp: db_ok_def)
  qed (use l(2,3) assms(2) S(3) in \<open>simp_all add: db_ok_def\<close>)
  have "rows_of S n = dt_db t (pid, n)" for n
  proof -
    have "rows_of S n = Some d \<longleftrightarrow> dt_db t (pid, n) = Some d" for d
    proof -
      have "rows_of S n = Some d \<longleftrightarrow> d \<in> set answer \<and> num d = n"
        unfolding rows_of_iff[OF ok] S(2) using at mem by fastforce
      also have "\<dots> \<longleftrightarrow> dt_db t (pid, n) = Some d" using assms(2,4) K(1,3)[of d] unfolding db_ok_def by (metis prod.inject)
      finally show ?thesis .
    qed
    then show ?thesis by (metis option.exhaust)
  qed
  with run ok show ?thesis by blast
qed

text \<open>The answer of the database to the query for a player: every row once, in any order; \<open>as\<close> are the addresses of the new rows.\<close>

definition answers :: "u64 \<Rightarrow> 'r table \<Rightarrow> 'r list \<Rightarrow> addr list \<Rightarrow> bool" where
  "answers pid t answer as \<longleftrightarrow>
     (\<forall>d. d \<in> set answer \<longleftrightarrow> (\<exists>n. dt_db t (pid, n) = Some d)) \<and> distinct answer
     \<and> distinct as \<and> length as = length answer \<and> length as \<le> REG_MAX \<and> (\<forall>a \<in> set as. dt_rows t a = None \<and> a \<noteq> 0 \<and> a \<noteq> VOID_ROW)"

lemma rows_survive:
  assumes "set_ok owner num ids copy pid S xs ls" and "length xs \<le> fuel" and "length ls + length xs \<le> fuel2" and "\<And>n r. rows_of S n = Some r \<Longrightarrow> parse r = r"
  shows "\<exists>links t t'. rows_release fuel S = Some (Inr (links, t))
    \<and> DATA_flush (\<lambda>_. True) (row_key owner num) ids copy now fuel2 t = Some (Inr (0, t')) \<and> (\<forall>n. dt_db t' (pid, n) = rows_of S n)
    \<and> (\<forall>b y. dt_rows t' b = Some y \<longrightarrow> stored y \<longrightarrow> owner (row y) \<noteq> pid)
    \<and> (\<forall>answer as. answers pid t' answer as \<longrightarrow>
        (\<exists>S' ls'. rows_load num parse True answer as links t' = Some (Inr (Some S')) \<and> set_ok owner num ids copy pid S' (rev as) ls' \<and> rows_of S' = rows_of S))"
proof -
  obtain links t t' ms where r: "rows_release fuel S = Some (Inr (links, t))"
    "DATA_flush (\<lambda>_. True) (row_key owner num) ids copy now fuel2 t = Some (Inr (0, t'))" "table_ok (row_key owner num) ids copy t' ms"
    "db_ok (row_key owner num) t'" "\<forall>n. dt_db t' (pid, n) = rows_of S n" "\<forall>b y. dt_rows t' b = Some y \<longrightarrow> stored y \<longrightarrow> owner (row y) \<noteq> pid"
    using release_flush[OF assms(1-3)] by blast
  have "\<exists>S' ls'. rows_load num parse True answer as links t' = Some (Inr (Some S')) \<and> set_ok owner num ids copy pid S' (rev as) ls' \<and> rows_of S' = rows_of S"
    if a: "answers pid t' answer as" for answer as
  proof -
    have "\<forall>d \<in> set answer. parse d = d" using a r(5) assms(4) unfolding answers_def by metis
    then have "\<exists>S'. rows_load num parse True answer as links t' = Some (Inr (Some S')) \<and> set_ok owner num ids copy pid S' (rev as) ms
        \<and> (\<forall>n. rows_of S' n = dt_db t' (pid, n))"
      using a unfolding answers_def by (intro rows_load_ok[OF r(3,4,6)]) blast+
    then show ?thesis using r(5) by (auto simp: fun_eq_iff)
  qed
  with r(1,2,5,6) show ?thesis by blast
qed

section \<open>The first rows\<close>

definition no_rows :: "('k, 'r) data_table" where
  "no_rows = \<lparr>dt_rows = (\<lambda>_. None), update_list = VOID_ROW, dt_db = (\<lambda>_. None)\<rparr>"

lemma no_rows_ok: "table_ok key ids copy no_rows []"
  by (simp add: table_ok_def rows_ok_def no_rows_def one_each_def)

lemma rows_new_ok: "\<exists>S. rows_new links no_rows = Inr S \<and> set_ok owner num ids copy pid S [] [] \<and> rows_of S = (\<lambda>_. None) \<and> rs_table S = no_rows"
proof -
  obtain m :: "(u64, addr) agmap" where m: "agMap_new None = Inr m" "tight_map m" "elems m = {}" "\<And>k. agMap_ip_get (Some m) k = None" by (rule new_map) (rule that)
  let ?S = "\<lparr>rs_map = Some m, rs_list = 0, rs_links = links, rs_table = no_rows\<rparr>"
  have "set_ok owner num ids copy pid ?S [] []"
    using no_rows_ok reg_empty[OF m(2,3)] by (simp add: set_ok_def db_ok_def) (simp add: no_rows_def)
  with m(1,4) show ?thesis by (auto simp: rows_new_def rows_of_def)
qed

end
