(* ===== verification/NotifyCount.thy ===== *)
theory NotifyCount
  imports Registry
begin

text \<open>
  The counters of \<^verbatim>\<open>src/world/notify.c\<close> that are reported to a backend service: at most 100 players have
  counters at a time, found by player id through a hash map from ids to slots of a table. A
  player whose counters were not touched for three seconds is reported and removed, and so is everybody
  when the table is full; the others move down in the table.

  A pointer into the table is the number of the slot. The protocol library builds the messages; what goes
  out is the list of reports (player, event, value). \<open>up\<close> says whether the service is configured
  (\<open>backend_get\<close>), \<open>now\<close> is \<open>agT_current()\<close>.
\<close>

section \<open>State and operations\<close>

definition NB_COUNT :: nat where "NB_COUNT = 100"
definition NB_DELAY :: int where "NB_DELAY = 3"
definition NB_PLAYER_MIN :: nat where "NB_PLAYER_MIN = 4"
definition NB_PLAYER_MAX :: nat where "NB_PLAYER_MAX = 24"

record nb_player =
  nb_pid :: u64
  nb_time :: int
  nb_value :: "u32 list"

definition zero_nb :: nb_player where
  "zero_nb = \<lparr>nb_pid = 0, nb_time = 0, nb_value = replicate (NB_PLAYER_MAX + 1) 0\<rparr>"

record nb_list =
  nb_map :: "(u64, nat) agmap option"
  nb_used :: nat
  nb_players :: "nb_player list"

type_synonym report = "u64 \<times> nat \<times> u32"

text \<open>Before the module is loaded the map is null and the table is zero.\<close>

definition nb_zero :: nb_list where
  "nb_zero = \<lparr>nb_map = None, nb_used = 0, nb_players = replicate NB_COUNT zero_nb\<rparr>"

definition nb_init :: "nb_list \<Rightarrow> nb_list res" where
  "nb_init nb =
     (case nb_map nb of
        Some _ \<Rightarrow> Inr nb
      | None \<Rightarrow>
          (case agMap_new None of
             Inl f \<Rightarrow> Inl f
           | Inr m \<Rightarrow> Inr (nb\<lparr>nb_map := Some m, nb_used := 0, nb_players := replicate NB_COUNT zero_nb\<rparr>)))"

definition nb_get :: "u64 \<Rightarrow> nb_list \<Rightarrow> (nat option \<times> nb_list) res option" where
  "nb_get pid nb =
     (case agMap_ip_get (nb_map nb) pid of
        Some i \<Rightarrow> Some (Inr (Some i, nb))
      | None \<Rightarrow>
          if nb_used nb < NB_COUNT then
            let i = nb_used nb;
                nb = nb\<lparr>nb_used := i + 1, nb_players := (nb_players nb)[i := (nb_players nb ! i)\<lparr>nb_pid := pid\<rparr>]\<rparr>
            in run_bind (agMap_ip_set (nb_map nb) pid (Some i)) (\<lambda>(_, mp). Some (Inr (Some i, nb\<lparr>nb_map := mp\<rparr>)))
          else Some (Inr (None, nb)))"

definition nb_reports :: "bool \<Rightarrow> nb_player \<Rightarrow> report list" where
  "nb_reports up p =
     (if up
      then map (\<lambda>i. (nb_pid p, i, nb_value p ! i)) (filter (\<lambda>i. nb_value p ! i > 0) [NB_PLAYER_MIN..<NB_PLAYER_MAX + 1])
      else [])"

text \<open>The loop of \<open>_nb_clean\<close> from slot \<open>i\<close>, with \<open>n\<close> slots to go.\<close>

fun nb_clean_loop :: "bool \<Rightarrow> bool \<Rightarrow> int \<Rightarrow> nat \<Rightarrow> nat \<Rightarrow> nb_list \<Rightarrow> (report list \<times> nb_list) res option" where
  "nb_clean_loop up force dead_line i 0 nb = Some (Inr ([], nb))"
| "nb_clean_loop up force dead_line i (Suc n) nb =
     (let p = nb_players nb ! i
      in if force \<or> nb_time p \<le> dead_line then
           run_bind (agMap_ip_set (nb_map nb) (nb_pid p) None) (\<lambda>(_, mp).
           run_bind (nb_clean_loop up force dead_line (i + 1) n
               (nb\<lparr>nb_map := mp, nb_players := (nb_players nb)[i := zero_nb]\<rparr>)) (\<lambda>(out, nb).
             Some (Inr (nb_reports up p @ out, nb))))
         else
           let j = nb_used nb; nb = nb\<lparr>nb_used := j + 1\<rparr>
           in if \<not> j \<le> i then Some (Inl Assertion)
              else
                run_bind (if j \<noteq> i then
                            run_bind (agMap_ip_set (nb_map nb) (nb_pid p) (Some j)) (\<lambda>(_, mp).
                              Some (Inr (nb\<lparr>nb_map := mp, nb_players := ((nb_players nb)[j := p])[i := zero_nb]\<rparr>)))
                          else Some (Inr nb)) (\<lambda>nb.
                  nb_clean_loop up force dead_line (i + 1) n nb))"

definition nb_clean :: "bool \<Rightarrow> bool \<Rightarrow> int \<Rightarrow> nb_list \<Rightarrow> (report list \<times> nb_list) res option" where
  "nb_clean up force now nb =
     nb_clean_loop up force (now - NB_DELAY) 0 (nb_used nb) (nb\<lparr>nb_used := 0\<rparr>)"

text \<open>The slot of a player, after a clean-up if the table is full.\<close>

definition nb_get_clean :: "bool \<Rightarrow> int \<Rightarrow> u64 \<Rightarrow> nb_list \<Rightarrow> (report list \<times> nat option \<times> nb_list) res option" where
  "nb_get_clean up now pid nb =
     run_bind (nb_get pid nb) (\<lambda>(p, nb).
       case p of
         Some i \<Rightarrow> Some (Inr ([], Some i, nb))
       | None \<Rightarrow>
           run_bind (nb_clean up True now nb) (\<lambda>(out, nb).
           run_bind (nb_get pid nb) (\<lambda>(p, nb). Some (Inr (out, p, nb)))))"

definition notification_backend :: "bool \<Rightarrow> int \<Rightarrow> u64 \<Rightarrow> nat \<Rightarrow> u32 \<Rightarrow> nb_list \<Rightarrow> (report list \<times> nb_list) res option" where
  "notification_backend up now pid type val nb =
     (if type < NB_PLAYER_MIN \<or> type > NB_PLAYER_MAX then Some (Inr ([], nb))
      else
        run_bind (nb_get_clean up now pid nb) (\<lambda>(out, p, nb).
          case p of
            None \<Rightarrow> Some (Inl NullDeref)
          | Some i \<Rightarrow>
              let q = nb_players nb ! i;
                  q = q\<lparr>nb_value := (nb_value q)[type := nb_value q ! type + val], nb_time := now\<rparr>
              in Some (Inr (out, nb\<lparr>nb_players := (nb_players nb)[i := q]\<rparr>))))"

definition notification_record_count :: "bool \<Rightarrow> int \<Rightarrow> u64 \<Rightarrow> nat \<Rightarrow> u32 \<Rightarrow> nb_list \<Rightarrow> (int \<times> report list \<times> nb_list) res option" where
  "notification_record_count up now pid event count nb =
     run_bind (notification_backend up now pid event count nb) (\<lambda>(out, nb). Some (Inr (0, out, nb)))"

section \<open>Invariant\<close>

text \<open>While the loop runs, the table consists of the players kept so far, a gap, and the players still to
  be looked at; the map leads to exactly these.\<close>

definition nb_slots :: "nb_player list \<Rightarrow> nat \<Rightarrow> nb_player list \<Rightarrow> (nat \<times> nb_player) set" where
  "nb_slots ks z rs = set (enumerate 0 ks) \<union> set (enumerate (length ks + z) rs)"

definition nb_rep :: "nb_list \<Rightarrow> nb_player list \<Rightarrow> nat \<Rightarrow> nb_player list \<Rightarrow> bool" where
  "nb_rep nb ks z rs \<longleftrightarrow>
     length ks + z + length rs \<le> NB_COUNT \<and> nb_used nb = length ks
     \<and> nb_players nb = ks @ replicate z zero_nb @ rs @ replicate (NB_COUNT - (length ks + z + length rs)) zero_nb
     \<and> (\<exists>m. nb_map nb = Some m \<and> tight_map m)
     \<and> distinct (map nb_pid (ks @ rs)) \<and> (\<forall>p \<in> set (ks @ rs). length (nb_value p) = NB_PLAYER_MAX + 1)
     \<and> (\<forall>k s. agMap_ip_get (nb_map nb) k = Some s \<longleftrightarrow> (\<exists>p. (s, p) \<in> nb_slots ks z rs \<and> nb_pid p = k))"

text \<open>Between two operations: the players in use are \<open>ps\<close>.\<close>

definition nb_ok :: "nb_list \<Rightarrow> nb_player list \<Rightarrow> bool" where
  "nb_ok nb ps \<longleftrightarrow> nb_rep nb ps 0 []"

text \<open>The count of an event that a list of players holds, and the count that has been reported.\<close>

definition held :: "nb_player list \<Rightarrow> u64 \<Rightarrow> nat \<Rightarrow> u32" where
  "held ps pid e = sum_list (map (\<lambda>p. if nb_pid p = pid then nb_value p ! e else 0) ps)"

definition reported :: "report list \<Rightarrow> u64 \<Rightarrow> nat \<Rightarrow> u32" where
  "reported out pid e = sum_list (map (\<lambda>(p, i, v). if p = pid \<and> i = e then v else 0) out)"

lemma reported_append [simp]: "reported (xs @ ys) pid e = reported xs pid e + reported ys pid e" "reported [] pid e = 0"
  by (simp_all add: reported_def)

lemma held_simps [simp]: "held (xs @ ys) pid e = held xs pid e + held ys pid e" "held [] pid e = 0"
  "held (p # xs) pid e = (if nb_pid p = pid then nb_value p ! e else 0) + held xs pid e"
  by (simp_all add: held_def)

lemma reported_reports:
  assumes "NB_PLAYER_MIN \<le> e" and "e \<le> NB_PLAYER_MAX"
  shows "reported (nb_reports True p) pid e = (if nb_pid p = pid then nb_value p ! e else 0)"
proof -
  have s: "sum_list (map (\<lambda>i. if i = e then nb_value p ! i else 0) (filter (\<lambda>i. nb_value p ! i > 0) is)) =
      (if e \<in> set is then nb_value p ! e else 0)" if "distinct is" for "is"
    using that by (induction "is") (auto simp: word_gt_0)
  have "reported (nb_reports True p) pid e = (if nb_pid p = pid then
      sum_list (map (\<lambda>i. if i = e then nb_value p ! i else 0) (filter (\<lambda>i. nb_value p ! i > 0) [NB_PLAYER_MIN..<NB_PLAYER_MAX + 1])) else 0)"
    by (simp add: reported_def nb_reports_def comp_def)
  then show ?thesis using s[of "[NB_PLAYER_MIN..<NB_PLAYER_MAX + 1]"] assms by simp
qed

lemma enumerate_snd: "(s, q) \<in> set (enumerate n xs) \<Longrightarrow> q \<in> set xs"
  by (metis enumerate_eq_zip set_zip_rightD)

lemma slots_snd: "(s, q) \<in> nb_slots ks z rs \<Longrightarrow> q \<in> set (ks @ rs)"
  by (auto simp: nb_slots_def dest: enumerate_snd)

lemma slots_split: "nb_slots [] 0 ps = nb_slots ps z []"
  by (simp add: nb_slots_def)

lemma slots_Cons: "nb_slots ks z (p # rs) = insert (length ks + z, p) (nb_slots ks (Suc z) rs)"
  by (auto simp: nb_slots_def)

lemma slots_snoc: "nb_slots (ks @ [p]) z rs = insert (length ks, p) (nb_slots ks (Suc z) rs)"
  by (auto simp: nb_slots_def enumerate_append_eq)

lemma nb_rep_room:
  assumes "nb_rep nb ks z rs"
  obtains m where "nb_map nb = Some m" and "tight_map m" and "map_room m"
proof -
  obtain m where m: "nb_map nb = Some m" "tight_map m" using assms(1) by (auto simp: nb_rep_def)
  have "dom (agMap_ip_get (Some m)) \<subseteq> nb_pid ` set (ks @ rs)"
    using assms m(1) by (auto simp: nb_rep_def dom_def dest: slots_snd)
  then have "card (dom (agMap_ip_get (Some m))) \<le> card (nb_pid ` set (ks @ rs))" by (intro card_mono) simp_all
  also have "\<dots> \<le> length (ks @ rs)" using card_image_le[of "set (ks @ rs)" nb_pid] card_length[of "ks @ rs"] by simp
  also have "\<dots> \<le> NB_COUNT" using assms by (simp add: nb_rep_def)
  finally have "item_count m \<le> NB_COUNT" using tight_count[OF m(2)] by simp
  then show thesis using that m by (simp add: map_room_def NB_COUNT_def)
qed

text \<open>Changing the entry of a player that is in no other slot.\<close>

lemma nb_set_entry:
  assumes "nb_rep nb ks z rs" and "\<And>s k. agMap_ip_get (nb_map nb) k = Some s \<longleftrightarrow> (\<exists>q. (s, q) \<in> insert (i, p) S \<and> nb_pid q = k)"
    and "\<forall>(s, q) \<in> S. nb_pid q \<noteq> nb_pid p"
  obtains m' old where "agMap_ip_set (nb_map nb) (nb_pid p) v = Some (Inr (old, Some m'))" and "tight_map m'"
    and "\<And>k s. agMap_ip_get (Some m') k = Some s \<longleftrightarrow> (\<exists>q. (s, q) \<in> (case v of None \<Rightarrow> S | Some j \<Rightarrow> insert (j, p) S) \<and> nb_pid q = k)"
proof -
  obtain m where m: "nb_map nb = Some m" "tight_map m" "map_room m" by (rule nb_rep_room[OF assms(1)])
  obtain m' where m': "agMap_ip_set (Some m) (nb_pid p) v = Some (Inr (agMap_ip_get (Some m) (nb_pid p), Some m'))" "tight_map m'"
    "\<And>k'. agMap_ip_get (Some m') k' = (if k' = nb_pid p then v else agMap_ip_get (Some m) k')"
    by (rule ip_set_ok[OF m(2,3), of "nb_pid p" v]) (rule that)
  have "agMap_ip_get (Some m') k = Some s \<longleftrightarrow> (\<exists>q. (s, q) \<in> (case v of None \<Rightarrow> S | Some j \<Rightarrow> insert (j, p) S) \<and> nb_pid q = k)" for k s
    using m'(3)[of k] assms(2)[of k s] assms(3) m(1)
    by (cases "k = nb_pid p"; cases v) auto
  with that m'(1,2) m(1) show thesis by simp
qed

lemma nb_rep_Cons:
  assumes "nb_rep nb ks z (p # rs)"
  shows "agMap_ip_get (nb_map nb) k = Some s \<longleftrightarrow> (\<exists>q. (s, q) \<in> insert (length ks + z, p) (nb_slots ks (Suc z) rs) \<and> nb_pid q = k)"
    and "(s, q) \<in> nb_slots ks (Suc z) rs \<Longrightarrow> nb_pid q \<noteq> nb_pid p"
proof -
  show "agMap_ip_get (nb_map nb) k = Some s \<longleftrightarrow> (\<exists>q. (s, q) \<in> insert (length ks + z, p) (nb_slots ks (Suc z) rs) \<and> nb_pid q = k)"
    using assms by (simp add: nb_rep_def slots_Cons)
  have "nb_pid p \<notin> nb_pid ` set (ks @ rs)" using assms by (auto simp: nb_rep_def)
  then show "nb_pid q \<noteq> nb_pid p" if "(s, q) \<in> nb_slots ks (Suc z) rs" using slots_snd[OF that] by (metis imageI)
qed

lemma nb_expire_step:
  assumes "nb_rep nb ks z (p # rs)"
  obtains mp old where "agMap_ip_set (nb_map nb) (nb_pid p) None = Some (Inr (old, mp))"
    and "nb_rep (nb\<lparr>nb_map := mp, nb_players := (nb_players nb)[length ks + z := zero_nb]\<rparr>) ks (Suc z) rs"
proof -
  have c: "\<forall>(s, q) \<in> nb_slots ks (Suc z) rs. nb_pid q \<noteq> nb_pid p" using nb_rep_Cons(2)[OF assms] by blast
  obtain m' old where m': "agMap_ip_set (nb_map nb) (nb_pid p) None = Some (Inr (old, Some m'))" "tight_map m'"
    "\<And>k s. agMap_ip_get (Some m') k = Some s \<longleftrightarrow> (\<exists>q. (s, q) \<in> nb_slots ks (Suc z) rs \<and> nb_pid q = k)"
    by (rule nb_set_entry[OF assms nb_rep_Cons(1)[OF assms] c, of None]) (rule that, simp_all)
  have "(nb_players nb)[length ks + z := zero_nb] =
      ks @ replicate (Suc z) zero_nb @ rs @ replicate (NB_COUNT - (length ks + Suc z + length rs)) zero_nb"
    using assms by (simp add: nb_rep_def list_update_append replicate_app_Cons_same)
  then have "nb_rep (nb\<lparr>nb_map := Some m', nb_players := (nb_players nb)[length ks + z := zero_nb]\<rparr>) ks (Suc z) rs"
    using assms m'(2,3) by (simp add: nb_rep_def)
  with that m'(1) show thesis by blast
qed

lemma nb_keep_step:
  assumes "nb_rep nb ks (Suc z) (p # rs)"
  obtains mp old where "agMap_ip_set (nb_map nb) (nb_pid p) (Some (length ks)) = Some (Inr (old, mp))"
    and "nb_rep (nb\<lparr>nb_used := Suc (length ks), nb_map := mp, nb_players := ((nb_players nb)[length ks := p])[length ks + Suc z := zero_nb]\<rparr>)
      (ks @ [p]) (Suc z) rs"
proof -
  have c: "\<forall>(s, q) \<in> nb_slots ks (Suc (Suc z)) rs. nb_pid q \<noteq> nb_pid p" using nb_rep_Cons(2)[OF assms] by blast
  obtain m' old where m': "agMap_ip_set (nb_map nb) (nb_pid p) (Some (length ks)) = Some (Inr (old, Some m'))" "tight_map m'"
    "\<And>k s. agMap_ip_get (Some m') k = Some s \<longleftrightarrow> (\<exists>q. (s, q) \<in> insert (length ks, p) (nb_slots ks (Suc (Suc z)) rs) \<and> nb_pid q = k)"
    by (rule nb_set_entry[OF assms nb_rep_Cons(1)[OF assms] c, of "Some (length ks)"]) (rule that, simp_all)
  have "((nb_players nb)[length ks := p])[length ks + Suc z := zero_nb] =
      (ks @ [p]) @ replicate (Suc z) zero_nb @ rs @ replicate (NB_COUNT - (length (ks @ [p]) + Suc z + length rs)) zero_nb"
    using assms by (simp add: nb_rep_def list_update_append replicate_app_Cons_same)
  then have "nb_rep (nb\<lparr>nb_used := Suc (length ks), nb_map := Some m', nb_players := ((nb_players nb)[length ks := p])[length ks + Suc z := zero_nb]\<rparr>)
      (ks @ [p]) (Suc z) rs"
    using assms m'(2,3) by (simp add: nb_rep_def slots_snoc)
  with that m'(1) show thesis by blast
qed

text \<open>The loop keeps the players that are not due, in order, and reports the others; nothing is lost.\<close>

lemma nb_clean_loop_ok:
  assumes "nb_rep nb ks z rs"
  shows "\<exists>out nb'. nb_clean_loop up force dl (length ks + z) (length rs) nb = Some (Inr (out, nb'))
    \<and> nb_rep nb' (ks @ filter (\<lambda>p. \<not> (force \<or> nb_time p \<le> dl)) rs) (z + length (filter (\<lambda>p. force \<or> nb_time p \<le> dl) rs)) []
    \<and> out = concat (map (nb_reports up) (filter (\<lambda>p. force \<or> nb_time p \<le> dl) rs))"
  using assms
proof (induction rs arbitrary: nb ks z)
  case (Cons p rs)
  have at: "nb_players nb ! (length ks + z) = p" "nb_used nb = length ks"
    using Cons.prems by (simp_all add: nb_rep_def nth_append)
  show ?case
  proof (cases "force \<or> nb_time p \<le> dl")
    case True
    obtain mp old where s: "agMap_ip_set (nb_map nb) (nb_pid p) None = Some (Inr (old, mp))"
      "nb_rep (nb\<lparr>nb_map := mp, nb_players := (nb_players nb)[length ks + z := zero_nb]\<rparr>) ks (Suc z) rs"
      by (rule nb_expire_step[OF Cons.prems])
    from Cons.IH[OF s(2)] True s(1) at show ?thesis by auto
  next
    case False
    show ?thesis
    proof (cases z)
      case 0
      have "nb_rep (nb\<lparr>nb_used := Suc (length ks)\<rparr>) (ks @ [p]) 0 rs"
        using Cons.prems 0 by (simp add: nb_rep_def slots_Cons slots_snoc)
      from Cons.IH[OF this] False at 0 show ?thesis by (auto simp: Let_def)
    next
      case (Suc y)
      obtain mp old where s: "agMap_ip_set (nb_map nb) (nb_pid p) (Some (length ks)) = Some (Inr (old, mp))"
        "nb_rep (nb\<lparr>nb_used := Suc (length ks), nb_map := mp, nb_players := ((nb_players nb)[length ks := p])[length ks + Suc y := zero_nb]\<rparr>)
          (ks @ [p]) (Suc y) rs"
        using nb_keep_step[of nb ks y p rs] Cons.prems Suc by blast
      from Cons.IH[OF s(2)] False at Suc s(1) show ?thesis by (auto simp: Let_def)
    qed
  qed
qed auto

lemma reported_concat:
  assumes "NB_PLAYER_MIN \<le> e" and "e \<le> NB_PLAYER_MAX"
  shows "reported (concat (map (nb_reports True) ps)) pid e = held ps pid e"
  by (induction ps) (simp_all add: reported_reports[OF assms])

lemma nb_gap: "nb_rep nb ks z [] \<Longrightarrow> nb_rep nb ks 0 []"
  by (simp add: nb_rep_def nb_slots_def add.commute diff_diff_left flip: replicate_add append_assoc)

lemma nb_clean_ok:
  assumes "nb_ok nb ps"
  shows "\<exists>nb'. nb_clean up force now nb =
      Some (Inr (concat (map (nb_reports up) (filter (\<lambda>p. force \<or> nb_time p \<le> now - NB_DELAY) ps)), nb'))
    \<and> nb_ok nb' (filter (\<lambda>p. \<not> (force \<or> nb_time p \<le> now - NB_DELAY)) ps)"
proof -
  have "nb_rep (nb\<lparr>nb_used := 0\<rparr>) [] 0 ps" "nb_used nb = length ps" using assms slots_split[of ps 0] by (simp_all add: nb_ok_def nb_rep_def)
  with nb_clean_loop_ok[OF this(1), of up force "now - NB_DELAY"] show ?thesis
    by (auto simp: nb_clean_def nb_ok_def dest: nb_gap)
qed

lemma nb_ok_find:
  assumes "nb_ok nb ps"
  shows "agMap_ip_get (nb_map nb) pid = Some i \<longleftrightarrow> i < length ps \<and> nb_pid (ps ! i) = pid"
  using assms by (auto simp: nb_ok_def nb_rep_def nb_slots_def in_set_enumerate_eq)

text \<open>Finding or adding the counters of a player.\<close>

lemma nb_get_ok:
  assumes "nb_ok nb ps" and "length ps < NB_COUNT \<or> pid \<in> nb_pid ` set ps"
  shows "\<exists>i nb' ps'. nb_get pid nb = Some (Inr (Some i, nb')) \<and> nb_ok nb' ps' \<and> i < length ps' \<and> nb_pid (ps' ! i) = pid
    \<and> (\<forall>pid' e. e \<le> NB_PLAYER_MAX \<longrightarrow> held ps' pid' e = held ps pid' e)"
proof (cases "agMap_ip_get (nb_map nb) pid")
  case (Some i)
  then show ?thesis using assms(1) nb_ok_find[OF assms(1), of pid i]
    by (intro exI[of _ i] exI[of _ nb] exI[of _ ps]) (simp add: nb_get_def)
next
  case None
  then have new: "pid \<notin> nb_pid ` set ps"
    using nb_ok_find[OF assms(1), of pid] by (metis imageE in_set_conv_nth option.distinct(1))
  then have room: "length ps < NB_COUNT" using assms(2) by simp
  have rep: "nb_rep nb ps 0 []" using assms(1) by (simp add: nb_ok_def)
  let ?p = "zero_nb\<lparr>nb_pid := pid\<rparr>"
  obtain m where m: "nb_map nb = Some m" "tight_map m" "map_room m" by (rule nb_rep_room[OF rep])
  obtain m' where m': "agMap_ip_set (Some m) pid (Some (length ps)) = Some (Inr (agMap_ip_get (Some m) pid, Some m'))" "tight_map m'"
    "\<And>k'. agMap_ip_get (Some m') k' = (if k' = pid then Some (length ps) else agMap_ip_get (Some m) k')"
    by (rule ip_set_ok[OF m(2,3), of pid "Some (length ps)"]) (rule that)
  have used: "nb_used nb = length ps" and pl: "nb_players nb = ps @ replicate (NB_COUNT - length ps) zero_nb"
    using rep by (simp_all add: nb_rep_def)
  have upd: "(nb_players nb)[length ps := ?p] = (ps @ [?p]) @ replicate (NB_COUNT - Suc (length ps)) zero_nb"
    "nb_players nb ! length ps = zero_nb"
    using room by (cases "NB_COUNT - length ps"; simp add: pl list_update_append nth_append; fail)+
  let ?nb = "nb\<lparr>nb_used := Suc (length ps), nb_players := (nb_players nb)[length ps := ?p], nb_map := Some m'\<rparr>"
  have "agMap_ip_get (Some m') k = Some s \<longleftrightarrow> (\<exists>q. (s, q) \<in> nb_slots (ps @ [?p]) 0 [] \<and> nb_pid q = k)" for k s
  proof -
    have s: "nb_slots (ps @ [?p]) 0 [] = insert (length ps, ?p) (nb_slots ps 0 [])" by (simp add: slots_snoc) (simp add: nb_slots_def)
    have "agMap_ip_get (Some m) k = Some s \<longleftrightarrow> (\<exists>q. (s, q) \<in> nb_slots ps 0 [] \<and> nb_pid q = k)"
      using rep m(1) by (simp add: nb_rep_def)
    moreover have "nb_pid q \<noteq> pid" if "(s, q) \<in> nb_slots ps 0 []" for q
      using slots_snd[OF that] new by auto
    ultimately show ?thesis using m'(3)[of k] unfolding s by (cases "k = pid") auto
  qed
  then have "nb_ok ?nb (ps @ [?p])"
    using rep room new m'(2) upd(1) by (simp add: nb_ok_def nb_rep_def zero_nb_def image_iff)
  moreover have "nb_get pid nb = Some (Inr (Some (length ps), ?nb))"
    using None room used m(1) m'(1) upd(2) by (simp add: nb_get_def Let_def)
  moreover have "held (ps @ [?p]) pid' e = held ps pid' e" if "e \<le> NB_PLAYER_MAX" for pid' e
    using that by (simp add: zero_nb_def del: replicate_Suc)
  ultimately show ?thesis
    by (intro exI[of _ "length ps"] exI[of _ ?nb] exI[of _ "ps @ [?p]"]) simp
qed

text \<open>Adding to one counter.\<close>

lemma held_add:
  assumes "i < length ps" and "distinct (map nb_pid ps)" and "e < length (nb_value (ps ! i))" and "q = ps ! i"
  shows "held (ps[i := q\<lparr>nb_value := (nb_value q)[e := nb_value q ! e + v], nb_time := t\<rparr>]) pid e' =
    held ps pid e' + (if pid = nb_pid q \<and> e' = e then v else 0)"
  using assms
proof (induction ps arbitrary: i)
  case (Cons p ps)
  then show ?case by (cases i; cases "e' = e") (auto simp: nth_list_update)
qed simp

lemma nb_ok_update:
  assumes "nb_ok nb ps" and "i < length ps" and "nb_pid q = nb_pid (ps ! i)" and "length (nb_value q) = NB_PLAYER_MAX + 1"
  shows "nb_ok (nb\<lparr>nb_players := (nb_players nb)[i := q]\<rparr>) (ps[i := q])"
proof -
  have "map nb_pid (ps[i := q]) = map nb_pid ps"
    using assms(2,3) by (metis list_update_id map_update)
  moreover have "(\<exists>p. (s, p) \<in> nb_slots (ps[i := q]) 0 [] \<and> nb_pid p = k) \<longleftrightarrow> (\<exists>p. (s, p) \<in> nb_slots ps 0 [] \<and> nb_pid p = k)" for s k
    using assms(2,3) by (auto simp: nb_slots_def in_set_enumerate_eq nth_list_update)
  moreover have "(nb_players nb)[i := q] = ps[i := q] @ replicate (NB_COUNT - length ps) zero_nb"
    using assms(1,2) by (simp add: nb_ok_def nb_rep_def list_update_append)
  moreover have "\<forall>p \<in> set (ps[i := q]). length (nb_value p) = NB_PLAYER_MAX + 1"
    using assms(1,4) set_update_subset_insert[of ps i q] by (auto simp: nb_ok_def nb_rep_def)
  ultimately show ?thesis using assms(1) unfolding nb_ok_def nb_rep_def by simp
qed

lemma held_split: "held (filter P qs) pid e + held (filter (\<lambda>p. \<not> P p) qs) pid e = held qs pid e"
  by (induction qs) (simp_all add: ac_simps)

lemma nb_get_clean_ok:
  assumes "nb_ok nb ps"
  shows "\<exists>out i nb' ps'. nb_get_clean True now pid nb = Some (Inr (out, Some i, nb')) \<and> nb_ok nb' ps' \<and> i < length ps'
    \<and> nb_pid (ps' ! i) = pid
    \<and> (\<forall>pid' e. NB_PLAYER_MIN \<le> e \<longrightarrow> e \<le> NB_PLAYER_MAX \<longrightarrow> reported out pid' e + held ps' pid' e = held ps pid' e)"
proof (cases "length ps < NB_COUNT \<or> pid \<in> nb_pid ` set ps")
  case True
  from nb_get_ok[OF assms this] obtain i nb' ps' where
    n: "nb_get pid nb = Some (Inr (Some i, nb'))" "nb_ok nb' ps'" "i < length ps'" "nb_pid (ps' ! i) = pid"
      "\<And>pid' e. e \<le> NB_PLAYER_MAX \<Longrightarrow> held ps' pid' e = held ps pid' e"
    by blast
  then show ?thesis
    by (intro exI[of _ "[]"] exI[of _ i] exI[of _ nb'] exI[of _ ps']) (simp add: nb_get_clean_def)
next
  case False
  have "agMap_ip_get (nb_map nb) pid \<noteq> Some i" for i
    using nb_ok_find[OF assms, of pid i] False by (metis imageI nth_mem)
  then have "agMap_ip_get (nb_map nb) pid = None" by (cases "agMap_ip_get (nb_map nb) pid") auto
  moreover have "\<not> nb_used nb < NB_COUNT" using assms False by (simp add: nb_ok_def nb_rep_def)
  ultimately have g: "nb_get pid nb = Some (Inr (None, nb))" by (simp add: nb_get_def)
  obtain nb1 where c: "nb_clean True True now nb = Some (Inr (concat (map (nb_reports True) ps), nb1))" "nb_ok nb1 []"
    using nb_clean_ok[OF assms, of True True now] by auto
  obtain i nb' ps' where
    n: "nb_get pid nb1 = Some (Inr (Some i, nb'))" "nb_ok nb' ps'" "i < length ps'" "nb_pid (ps' ! i) = pid"
      "\<And>pid' e. e \<le> NB_PLAYER_MAX \<Longrightarrow> held ps' pid' e = held [] pid' e"
    using nb_get_ok[OF c(2), of pid] unfolding NB_COUNT_def by auto
  then show ?thesis
    by (intro exI[of _ "concat (map (nb_reports True) ps)"] exI[of _ i] exI[of _ nb'] exI[of _ ps'])
      (simp add: nb_get_clean_def g c(1) reported_concat)
qed

section \<open>Properties\<close>


lemma nb_init_ok: "\<exists>nb. nb_init nb_zero = Inr nb \<and> nb_ok nb []"
proof -
  obtain m :: "(u64, nat) agmap" where m: "agMap_new None = Inr m" "tight_map m" "\<And>k. agMap_ip_get (Some m) k = None"
    by (rule new_map) (rule that)
  then show ?thesis
    by (auto simp: nb_init_def nb_zero_def nb_ok_def nb_rep_def nb_slots_def)
qed


end
