(* ===== verification/Notify.thy ===== *)
theory Notify
  imports NotifyCount GwRelay
begin

text \<open>
  Notices to clients, \<^verbatim>\<open>src/world/notify.c\<close> and \<^verbatim>\<open>src/world/message.c\<close>. The modules of the world leave notices for a
  player during a tick; a notice with a key replaces the one with the same type and key that is still
  waiting. At the end of the tick every player receives all its notices in one message.

  Players with notices are in a hash map and in a linked list, the notices of a player in a linked list and,
  if they have a key, in a hash map of the player. Addresses are natural numbers, the two kinds of objects
  have stores of their own; \<open>a\<close> and \<open>b\<close> are the addresses \<open>malloc\<close> returns. The loops run on fuel.
\<close>

section \<open>State\<close>

record notify =
  nt_next :: addr
  nt_type :: u32
  nt_rkey :: u64
  nt_value :: "amf_value option"

record player_notify =
  pn_next :: addr
  pn_playerid :: u64
  pn_m :: "(u64, addr) agmap option"
  pn_l :: addr
  pn_t :: addr

record notify_state =
  player_notify_hash :: "(u64, addr) agmap option"
  player_notify_list :: addr
  ns_players :: "addr \<Rightarrow> player_notify option"
  ns_notes :: "addr \<Rightarrow> notify option"
  ns_counts :: nb_list

type_synonym 'a notifying = "('a \<times> notify_state) res option"

definition deref :: "(addr \<Rightarrow> 'o option) \<Rightarrow> addr \<Rightarrow> ('o \<Rightarrow> 'b res option) \<Rightarrow> 'b res option" where
  "deref h p f = (if p = 0 then Some (Inl NullDeref) else case h p of None \<Rightarrow> Some (Inl UseAfterFree) | Some x \<Rightarrow> f x)"

definition put_player :: "addr \<Rightarrow> player_notify \<Rightarrow> notify_state \<Rightarrow> notify_state" where
  "put_player a p s = s\<lparr>ns_players := (ns_players s)(a \<mapsto> p)\<rparr>"

definition put_note :: "addr \<Rightarrow> notify \<Rightarrow> notify_state \<Rightarrow> notify_state" where
  "put_note b n s = s\<lparr>ns_notes := (ns_notes s)(b \<mapsto> n)\<rparr>"

definition module_notify_load :: "notify_state \<Rightarrow> (int \<times> notify_state) res" where
  "module_notify_load s =
     res_bind (nb_init (ns_counts s)) (\<lambda>nb.
     res_bind (agMap_new None) (\<lambda>m. Inr (0, s\<lparr>ns_counts := nb, player_notify_hash := Some m\<rparr>)))"

section \<open>Leaving notices\<close>

definition get_player_notify :: "addr \<Rightarrow> u64 \<Rightarrow> notify_state \<Rightarrow> addr notifying" where
  "get_player_notify a playerid s =
     (case agMap_ip_get (player_notify_hash s) playerid of
        Some p \<Rightarrow> Some (Inr (p, s))
      | None \<Rightarrow>
          (case agMap_new None of
             Inl f \<Rightarrow> Some (Inl f)
           | Inr m \<Rightarrow>
               run_bind (agMap_ip_set (player_notify_hash s) playerid (Some a)) (\<lambda>(_, h).
                 let p = \<lparr>pn_next = player_notify_list s, pn_playerid = playerid, pn_m = Some m, pn_l = 0, pn_t = 0\<rparr>
                 in Some (Inr (a, put_player a p (s\<lparr>player_notify_hash := h, player_notify_list := a\<rparr>))))))"

definition notification_add_r :: "addr \<Rightarrow> addr \<Rightarrow> u64 \<Rightarrow> u32 \<Rightarrow> amf_value option \<Rightarrow> notify_state \<Rightarrow> addr notifying" where
  "notification_add_r a b playerid type val s =
     run_bind (get_player_notify a playerid s) (\<lambda>(p, s).
     deref (ns_players s) p (\<lambda>pn.
       let s = put_note b \<lparr>nt_next = 0, nt_type = type, nt_rkey = 0, nt_value = val\<rparr> s
       in if pn_l pn = 0 then
            (if pn_t pn \<noteq> 0 then Some (Inl Assertion)
             else Some (Inr (b, put_player p (pn\<lparr>pn_l := b, pn_t := b\<rparr>) s)))
          else if pn_t pn = 0 then Some (Inl Assertion)
          else
            deref (ns_notes s) (pn_t pn) (\<lambda>t.
              if nt_next t \<noteq> 0 then Some (Inl Assertion)
              else Some (Inr (b, put_player p (pn\<lparr>pn_t := b\<rparr>) (put_note (pn_t pn) (t\<lparr>nt_next := b\<rparr>) s))))))"

definition notification_add :: "addr \<Rightarrow> addr \<Rightarrow> u64 \<Rightarrow> u32 \<Rightarrow> amf_value option \<Rightarrow> notify_state \<Rightarrow> int notifying" where
  "notification_add a b playerid type val s =
     run_bind (notification_add_r a b playerid type val s) (\<lambda>(n, s). Some (Inr (if n = 0 then -1 else 0, s)))"

definition notify_rkey :: "u32 \<Rightarrow> u32 \<Rightarrow> u64" where
  "notify_rkey type key = push_bit 32 (ucast key) OR ucast type"

definition notification_set :: "addr \<Rightarrow> addr \<Rightarrow> u64 \<Rightarrow> u32 \<Rightarrow> u32 \<Rightarrow> amf_value option \<Rightarrow> notify_state \<Rightarrow> int notifying" where
  "notification_set a b playerid type key val s =
     run_bind (get_player_notify a playerid s) (\<lambda>(p, s).
     deref (ns_players s) p (\<lambda>pn.
       let rkey = notify_rkey type key
       in case agMap_ip_get (pn_m pn) rkey of
            Some msg \<Rightarrow> deref (ns_notes s) msg (\<lambda>n. Some (Inr (0, put_note msg (n\<lparr>nt_value := val\<rparr>) s)))
          | None \<Rightarrow>
              run_bind (notification_add_r a b playerid type val s) (\<lambda>(msg, s).
              deref (ns_notes s) msg (\<lambda>n.
              deref (ns_players s) p (\<lambda>pn.
                run_bind (agMap_ip_set (pn_m pn) rkey (Some msg)) (\<lambda>(_, m).
                  Some (Inr (0, put_player p (pn\<lparr>pn_m := m\<rparr>) (put_note msg (n\<lparr>nt_rkey := rkey\<rparr>) s)))))))))"

section \<open>Sending\<close>

definition C_PLAYER_DATA_CHANGE :: u32 where "C_PLAYER_DATA_CHANGE = 104"

text \<open>A message of the world for a player is written with the header the gateway expects; \<open>conn\<close> is
  \<open>player_get_conn\<close> of another module.\<close>

definition send_message :: "resid_t \<Rightarrow> u64 \<Rightarrow> u32 \<Rightarrow> u32 \<Rightarrow> byte list \<Rightarrow> resid_t \<times> byte list" where
  "send_message conn playerid cmd flag data = (conn, translate_packet 0 playerid cmd flag data)"

text \<open>A value encoded into a buffer of exactly the length it announces.\<close>

definition encode_exact :: "amf_value \<Rightarrow> byte list res" where
  "encode_exact v =
     res_bind (amf_get_encode_length (Some v)) (\<lambda>len.
     res_bind (amf_encode len (Some v)) (\<lambda>(n, w). if len < length w then Inl OutOfBounds else Inr (take n w)))"

definition send_amf_message :: "resid_t \<Rightarrow> u64 \<Rightarrow> u32 \<Rightarrow> amf_value \<Rightarrow> (resid_t \<times> byte list) res" where
  "send_amf_message conn playerid cmd v = res_bind (encode_exact v) (\<lambda>w. Inr (send_message conn playerid cmd 1 w))"

definition send_amf_message_to :: "(u64 \<Rightarrow> resid_t) \<Rightarrow> u64 \<Rightarrow> u32 \<Rightarrow> amf_value \<Rightarrow> (resid_t \<times> byte list) res" where
  "send_amf_message_to conn_of playerid cmd v = send_amf_message (conn_of playerid) playerid cmd v"

text \<open>What leaves the module: a broadcast to all clients of a payload, or a packet on a connection.\<close>

datatype outgoing = Broadcast u32 u32 "byte list" | Packet resid_t "byte list"

text \<open>The item of a message for one notice.\<close>

definition note_item :: "notify \<Rightarrow> amf_value" where
  "note_item n =
     (case nt_value n of
        Some v \<Rightarrow>
          let c = amf_new_array 2;
              c = fst (amf_set c 0 (Some (amf_new_integer (nt_type n))))
          in fst (amf_set c 1 (Some v))
      | None \<Rightarrow> fst (amf_set (amf_new_array 1) 0 (Some (amf_new_integer (nt_type n)))))"

text \<open>The inner loop: the notices from \<open>l\<close> on are appended to the message, taken out of the map and freed.\<close>

fun take_notes :: "nat \<Rightarrow> addr \<Rightarrow> (u64, addr) agmap option \<Rightarrow> amf_value \<Rightarrow> notify_state \<Rightarrow>
    (((u64, addr) agmap option \<times> amf_value) \<times> notify_state) res option" where
  "take_notes fuel l m msg s =
     (if l = 0 then Some (Inr ((m, msg), s))
      else case fuel of
        0 \<Rightarrow> None
      | Suc fuel \<Rightarrow>
          deref (ns_notes s) l (\<lambda>n.
            case amf_push msg (Some (note_item n)) of
              Inl f \<Rightarrow> Some (Inl f)
            | Inr msg \<Rightarrow>
                run_bind (agMap_ip_set m (nt_rkey n) None) (\<lambda>(_, m).
                  take_notes fuel (nt_next n) m msg (s\<lparr>ns_notes := (ns_notes s)(l := None)\<rparr>))))"

declare take_notes.simps [simp del]

text \<open>The message of one player.\<close>

definition outgoing_of :: "(u64 \<Rightarrow> resid_t) \<Rightarrow> u64 \<Rightarrow> amf_value \<Rightarrow> outgoing res" where
  "outgoing_of conn_of playerid msg =
     (if playerid = 0 then res_bind (encode_exact msg) (\<lambda>w. Inr (Broadcast C_PLAYER_DATA_CHANGE 1 w))
      else res_bind (send_amf_message_to conn_of playerid C_PLAYER_DATA_CHANGE msg) (\<lambda>(c, w). Inr (Packet c w)))"

text \<open>The outer loop, one player after the other.\<close>

fun clean_players :: "(u64 \<Rightarrow> resid_t) \<Rightarrow> nat \<Rightarrow> nat \<Rightarrow> notify_state \<Rightarrow> outgoing list notifying" where
  "clean_players conn_of inner fuel s =
     (if player_notify_list s = 0 then Some (Inr ([], s))
      else case fuel of
        0 \<Rightarrow> None
      | Suc fuel \<Rightarrow>
          let a = player_notify_list s
          in deref (ns_players s) a (\<lambda>pn.
             run_bind (agMap_ip_set (player_notify_hash s) (pn_playerid pn) None) (\<lambda>(_, h).
             run_bind (Some (res_bind (amf_push (amf_new_array 0) (Some (amf_new_integer 0))) (\<lambda>msg. amf_push msg (Some (amf_new_integer RET_SUCCESS))))) (\<lambda>msg.
             run_bind (take_notes inner (pn_l pn) (pn_m pn) msg (s\<lparr>player_notify_list := pn_next pn, player_notify_hash := h\<rparr>)) (\<lambda>((_, msg), s).
             run_bind (Some (outgoing_of conn_of (pn_playerid pn) msg)) (\<lambda>out.
             run_bind (clean_players conn_of inner fuel (s\<lparr>ns_players := (ns_players s)(a := None)\<rparr>)) (\<lambda>(outs, s).
               Some (Inr (out # outs, s)))))))))"

declare clean_players.simps [simp del]

definition notification_clean ::
  "(u64 \<Rightarrow> resid_t) \<Rightarrow> nat \<Rightarrow> nat \<Rightarrow> bool \<Rightarrow> int \<Rightarrow> notify_state \<Rightarrow> (outgoing list \<times> report list) notifying" where
  "notification_clean conn_of inner fuel up now s =
     run_bind (clean_players conn_of inner fuel s) (\<lambda>(outs, s).
     run_bind (nb_clean up False now (ns_counts s)) (\<lambda>(reports, nb).
       Some (Inr ((outs, reports), s\<lparr>ns_counts := nb\<rparr>))))"

definition module_notify_update :: "(u64 \<Rightarrow> resid_t) \<Rightarrow> nat \<Rightarrow> nat \<Rightarrow> bool \<Rightarrow> int \<Rightarrow> notify_state \<Rightarrow> (outgoing list \<times> report list) notifying" where
  "module_notify_update conn_of inner fuel up now s = notification_clean conn_of inner fuel up now s"

text \<open>Unloading frees what is left without sending it.\<close>

fun release_notes :: "nat \<Rightarrow> addr \<Rightarrow> notify_state \<Rightarrow> notify_state res option" where
  "release_notes fuel l s =
     (if l = 0 then Some (Inr s)
      else case fuel of
        0 \<Rightarrow> None
      | Suc fuel \<Rightarrow> deref (ns_notes s) l (\<lambda>n. release_notes fuel (nt_next n) (s\<lparr>ns_notes := (ns_notes s)(l := None)\<rparr>)))"

declare release_notes.simps [simp del]

definition release_player_notify :: "nat \<Rightarrow> addr \<Rightarrow> notify_state \<Rightarrow> notify_state res option" where
  "release_player_notify inner a s =
     deref (ns_players s) a (\<lambda>pn.
     run_bind (agMap_ip_set (player_notify_hash s) (pn_playerid pn) None) (\<lambda>(_, h).
     run_bind (release_notes inner (pn_l pn) (s\<lparr>player_notify_hash := h\<rparr>)) (\<lambda>s.
       Some (Inr (s\<lparr>ns_players := (ns_players s)(a := None)\<rparr>)))))"

fun unload_players :: "nat \<Rightarrow> nat \<Rightarrow> notify_state \<Rightarrow> notify_state res option" where
  "unload_players inner fuel s =
     (if player_notify_list s = 0 then Some (Inr s)
      else case fuel of
        0 \<Rightarrow> None
      | Suc fuel \<Rightarrow>
          let a = player_notify_list s
          in deref (ns_players s) a (\<lambda>pn.
             run_bind (release_player_notify inner a (s\<lparr>player_notify_list := pn_next pn\<rparr>)) (unload_players inner fuel)))"

declare unload_players.simps [simp del]

text \<open>The two maps are freed too; the variables keep the pointers, and counts that were not reported yet are not
  reported.\<close>

definition module_notify_unload :: "nat \<Rightarrow> nat \<Rightarrow> notify_state \<Rightarrow> notify_state res option" where
  "module_notify_unload inner fuel s = unload_players inner fuel s"

end
