(* ===== verification/NotifyRefine.thy ===== *)
theory NotifyRefine
  imports Notify
begin

text \<open>
  What the linked lists and maps of \<^verbatim>\<open>src/world/notify.c\<close> stand for: a list of players, each with the list of its
  waiting notices. Leaving a notice is an insertion or a replacement in that list, the clean-up turns it into
  messages.
\<close>

section \<open>Invariant\<close>

fun lchain :: "('o \<Rightarrow> addr) \<Rightarrow> (addr \<Rightarrow> 'o option) \<Rightarrow> addr \<Rightarrow> addr list \<Rightarrow> bool" where
  "lchain nx h p [] \<longleftrightarrow> p = 0"
| "lchain nx h p (x # xs) \<longleftrightarrow> p = x \<and> x \<noteq> 0 \<and> (case h x of None \<Rightarrow> False | Some o' \<Rightarrow> lchain nx h (nx o') xs)"

definition notes_ok :: "(addr \<Rightarrow> notify option) \<Rightarrow> player_notify \<Rightarrow> addr list \<Rightarrow> bool" where
  "notes_ok h pn bs \<longleftrightarrow>
     lchain nt_next h (pn_l pn) bs \<and> distinct bs \<and> pn_t pn = (if bs = [] then 0 else last bs)
     \<and> (\<exists>m. pn_m pn = Some m \<and> tight_map m)
     \<and> (\<forall>k b. agMap_ip_get (pn_m pn) k = Some b \<longleftrightarrow> k \<noteq> 0 \<and> b \<in> set bs \<and> map_option nt_rkey (h b) = Some k)"

definition notify_ok :: "notify_state \<Rightarrow> (addr \<times> addr list) list \<Rightarrow> bool" where
  "notify_ok s ps \<longleftrightarrow>
     lchain pn_next (ns_players s) (player_notify_list s) (map fst ps)
     \<and> distinct (map fst ps) \<and> distinct (concat (map snd ps))
     \<and> (\<forall>(a, bs) \<in> set ps. \<exists>pn. ns_players s a = Some pn \<and> notes_ok (ns_notes s) pn bs)
     \<and> (\<exists>m. player_notify_hash s = Some m \<and> tight_map m)
     \<and> (\<forall>k a. agMap_ip_get (player_notify_hash s) k = Some a
           \<longleftrightarrow> a \<in> fst ` set ps \<and> map_option pn_playerid (ns_players s a) = Some k)"

text \<open>The abstract value: players with their notices, each with key, type and value.\<close>

type_synonym notice = "u64 \<times> u32 \<times> amf_value option"

definition note_view :: "(addr \<Rightarrow> notify option) \<Rightarrow> addr \<Rightarrow> notice" where
  "note_view h b = (case the (h b) of n \<Rightarrow> (nt_rkey n, nt_type n, nt_value n))"

definition notices :: "notify_state \<Rightarrow> (addr \<times> addr list) list \<Rightarrow> (u64 \<times> notice list) list" where
  "notices s ps = map (\<lambda>(a, bs). (pn_playerid (the (ns_players s a)), map (note_view (ns_notes s)) bs)) ps"

text \<open>Leaving a notice: one with the same key (other than 0) is replaced, otherwise it becomes the last one; a player
  without notices becomes the first one.\<close>

definition upsert :: "u64 \<Rightarrow> u32 \<Rightarrow> amf_value option \<Rightarrow> notice list \<Rightarrow> notice list" where
  "upsert k t v ns =
     (if k \<noteq> 0 \<and> k \<in> fst ` set ns then map (\<lambda>(k', t', v'). if k' = k then (k', t', v) else (k', t', v')) ns
      else ns @ [(k, t, v)])"

definition leave :: "u64 \<Rightarrow> u64 \<Rightarrow> u32 \<Rightarrow> amf_value option \<Rightarrow> (u64 \<times> notice list) list \<Rightarrow> (u64 \<times> notice list) list" where
  "leave pid k t v ps =
     (if pid \<in> fst ` set ps then map (\<lambda>(p, ns). if p = pid then (p, upsert k t v ns) else (p, ns)) ps
      else (pid, [(k, t, v)]) # ps)"

section \<open>Chains and maps\<close>

lemma lchain_cong: "(\<And>x. x \<in> set xs \<Longrightarrow> h' x = h x) \<Longrightarrow> lchain nx h' p xs = lchain nx h p xs"
  by (induction xs arbitrary: p) (auto split: option.splits)

lemma lchain_live: "lchain nx h p xs \<Longrightarrow> x \<in> set xs \<Longrightarrow> \<exists>y. h x = Some y \<and> x \<noteq> 0"
  by (induction xs arbitrary: p) (auto split: option.splits)


text \<open>Appending a last element: the old last one, if any, gets linked to it.\<close>

lemma lchain_snoc:
  assumes "lchain nx h p xs" and "distinct xs" and "xs \<noteq> []" and "h (last xs) = Some y" and "x \<notin> set xs" and "x \<noteq> 0"
    and "nx y' = x" and "nx z = 0"
  shows "lchain nx (h(last xs \<mapsto> y', x \<mapsto> z)) p (xs @ [x])"
  using assms
proof (induction xs arbitrary: p)
  case (Cons a xs)
  show ?case
  proof (cases "xs = []")
    case False
    obtain o' where "h a = Some o'" "lchain nx h (nx o') xs" using Cons.prems(1) by (auto split: option.splits)
    then show ?thesis using Cons False by auto
  qed (use Cons.prems in auto)
qed simp

lemma lchain_end:
  "lchain nx h p xs \<Longrightarrow> xs \<noteq> [] \<Longrightarrow> \<exists>y. h (last xs) = Some y \<and> nx y = 0"
  by (induction xs arbitrary: p) (auto split: option.splits)

lemma lchain_Nil_iff: "lchain nx h p xs \<Longrightarrow> p = 0 \<longleftrightarrow> xs = []"
  by (cases xs) auto

lemma tight_finite:
  assumes "tight_map m"
  shows "finite (dom (agMap_ip_get (Some m)))"
proof -
  have "map_ok (\<lambda>k. k) m" using assms by (simp add: tight_map_def)
  then have "dom (agMap_ip_get (Some m)) \<subseteq> fst ` set (entries m)"
    using map_get_iff[of "\<lambda>k. k" m] by (force simp: ip_is_map entries_def elems_def)
  then show ?thesis by (rule finite_subset) simp
qed

lemma room_of_dom:
  assumes "tight_map m" and "card (dom (agMap_ip_get (Some m))) < REG_MAX"
  shows "map_room m"
  using tight_count[OF assms(1)] assms(2) by (simp add: map_room_def REG_MAX_def)

lemma room_of_values:
  assumes "tight_map m" and "\<And>k b. agMap_ip_get (Some m) k = Some b \<Longrightarrow> b \<in> set bs \<and> f b = Some k" and "length bs < REG_MAX"
  shows "map_room m"
proof (rule room_of_dom[OF assms(1)])
  have "dom (agMap_ip_get (Some m)) \<subseteq> (\<lambda>b. the (f b)) ` set bs" using assms(2) by force
  then have "card (dom (agMap_ip_get (Some m))) \<le> card ((\<lambda>b. the (f b)) ` set bs)" by (rule card_mono[rotated]) simp
  also have "\<dots> \<le> length bs" using card_image_le card_length le_trans by blast
  finally show "card (dom (agMap_ip_get (Some m))) < REG_MAX" using assms(3) by simp
qed

section \<open>The notices of one player\<close>

lemma notes_ok_cong: "(\<And>b. b \<in> set bs \<Longrightarrow> h' b = h b) \<Longrightarrow> notes_ok h' pn bs = notes_ok h pn bs"
  by (simp add: notes_ok_def lchain_cong[of bs h' h] cong: conj_cong)

lemma notes_okD:
  assumes "notes_ok h pn bs"
  shows "lchain nt_next h (pn_l pn) bs" and "distinct bs" and "pn_t pn = (if bs = [] then 0 else last bs)"
    and "agMap_ip_get (pn_m pn) k = Some b \<longleftrightarrow> k \<noteq> 0 \<and> b \<in> set bs \<and> map_option nt_rkey (h b) = Some k"
  using assms by (simp_all add: notes_ok_def)

lemma notes_room:
  assumes "notes_ok h pn bs" and "length bs < REG_MAX"
  obtains m where "pn_m pn = Some m" and "tight_map m" and "map_room m"
proof -
  obtain m where m: "pn_m pn = Some m" "tight_map m" using assms(1) by (auto simp: notes_ok_def)
  have "map_room m"
    by (rule room_of_values[OF m(2) _ assms(2), where f = "\<lambda>b. map_option nt_rkey (h b)"])
      (use notes_okD(4)[OF assms(1)] m(1) in auto)
  with that m show thesis by blast
qed

text \<open>A new notice at the end.\<close>

lemma notes_append:
  assumes "notes_ok h pn bs" and "b \<notin> set bs" and "b \<noteq> 0" and "nt_next n = 0" and "nt_rkey n = 0"
  shows "if bs = [] then pn_l pn = 0 \<and> pn_t pn = 0 \<and> notes_ok (h(b \<mapsto> n)) (pn\<lparr>pn_l := b, pn_t := b\<rparr>) (bs @ [b])
    else pn_l pn \<noteq> 0 \<and> pn_t pn = last bs \<and> last bs \<noteq> 0 \<and> (\<exists>t. h (last bs) = Some t \<and> nt_next t = 0
      \<and> notes_ok (h(b \<mapsto> n, last bs \<mapsto> t\<lparr>nt_next := b\<rparr>)) (pn\<lparr>pn_t := b\<rparr>) (bs @ [b]))"
proof (cases "bs = []")
  case True
  then show ?thesis using assms by (auto simp: notes_ok_def)
next
  case False
  note c = notes_okD[OF assms(1)]
  obtain t where t: "h (last bs) = Some t" "nt_next t = 0" using lchain_end[OF c(1) False] by blast
  have ne: "last bs \<noteq> b" "last bs \<noteq> 0" using assms(2) False lchain_live[OF c(1), of "last bs"] by auto
  have l: "lchain nt_next (h(b \<mapsto> n, last bs \<mapsto> t\<lparr>nt_next := b\<rparr>)) (pn_l pn) (bs @ [b])"
    using lchain_snoc[OF c(1,2) False t(1) assms(2,3), of "t\<lparr>nt_next := b\<rparr>" n] assms(4) ne by (simp add: fun_upd_twist)
  have "(k \<noteq> 0 \<and> b' \<in> set (bs @ [b]) \<and> map_option nt_rkey ((h(b \<mapsto> n, last bs \<mapsto> t\<lparr>nt_next := b\<rparr>)) b') = Some k)
      = (k \<noteq> 0 \<and> b' \<in> set bs \<and> map_option nt_rkey (h b') = Some k)" for k b'
    using assms(2,5) t(1) ne by (cases "b' = b"; cases "b' = last bs") auto
  with l False t ne lchain_Nil_iff[OF c(1)] c(2,3) assms(1,2) show ?thesis by (simp add: notes_ok_def)
qed

text \<open>Giving the last notice a key that is not in use.\<close>

lemma notes_set_key:
  assumes "notes_ok h pn (bs @ [b])" and "h b = Some n" and "nt_rkey n = 0" and "k \<noteq> 0" and "agMap_ip_get (pn_m pn) k = None"
    and "length (bs @ [b]) < REG_MAX"
  obtains m where "agMap_ip_set (pn_m pn) k (Some b) = Some (Inr (None, Some m))"
    and "notes_ok (h(b \<mapsto> n\<lparr>nt_rkey := k\<rparr>)) (pn\<lparr>pn_m := Some m\<rparr>) (bs @ [b])"
proof -
  obtain m where m: "pn_m pn = Some m" "tight_map m" "map_room m" by (rule notes_room[OF assms(1,6)])
  obtain m' where m': "agMap_ip_set (Some m) k (Some b) = Some (Inr (agMap_ip_get (Some m) k, Some m'))" "tight_map m'"
    "\<And>k'. agMap_ip_get (Some m') k' = (if k' = k then Some b else agMap_ip_get (Some m) k')"
    by (rule ip_set_ok[OF m(2,3), of k "Some b"]) (rule that)
  note c = notes_okD[OF assms(1)]
  have "lchain nt_next (h(b \<mapsto> n\<lparr>nt_rkey := k\<rparr>)) p xs = lchain nt_next h p xs" for p xs
    using assms(2) by (induction xs arbitrary: p) (auto split: option.splits)
  moreover have "agMap_ip_get (Some m') k' = Some b' \<longleftrightarrow>
      k' \<noteq> 0 \<and> b' \<in> set (bs @ [b]) \<and> map_option nt_rkey ((h(b \<mapsto> n\<lparr>nt_rkey := k\<rparr>)) b') = Some k'" for k' b'
  proof -
    have "(agMap_ip_get (Some m) k' = Some b') = (k' \<noteq> 0 \<and> b' \<in> set (bs @ [b]) \<and> map_option nt_rkey (h b') = Some k')"
      using c(4)[of k' b'] m(1) by simp
    moreover have "\<not> (b' \<in> set (bs @ [b]) \<and> map_option nt_rkey (h b') = Some k)"
      using c(4)[of k b'] assms(4,5) by simp
    ultimately show ?thesis
      using m'(3)[of k'] assms(2,3,4) by (cases "b' = b"; cases "k' = k") auto
  qed
  ultimately have "notes_ok (h(b \<mapsto> n\<lparr>nt_rkey := k\<rparr>)) (pn\<lparr>pn_m := Some m'\<rparr>) (bs @ [b])"
    using c(1-3) m'(2) unfolding notes_ok_def by simp
  with that m'(1) m(1) assms(5) show thesis by simp
qed

text \<open>Replacing a value.\<close>

lemma notes_replace:
  assumes "notes_ok h pn bs" and "agMap_ip_get (pn_m pn) k = Some b"
  obtains n where "h b = Some n" and "b \<noteq> 0" and "b \<in> set bs" and "notes_ok (h(b \<mapsto> n\<lparr>nt_value := v\<rparr>)) pn bs"
    and "map (note_view (h(b \<mapsto> n\<lparr>nt_value := v\<rparr>))) bs = upsert k t v (map (note_view h) bs)"
proof -
  note c = notes_okD[OF assms(1)]
  have b: "k \<noteq> 0" "b \<in> set bs" "map_option nt_rkey (h b) = Some k" using c(4) assms(2) by blast+
  then obtain n where n: "h b = Some n" "nt_rkey n = k" by auto
  have "lchain nt_next (h(b \<mapsto> n\<lparr>nt_value := v\<rparr>)) p xs = lchain nt_next h p xs" for p xs
    using n(1) by (induction xs arbitrary: p) (auto split: option.splits)
  moreover have "map_option nt_rkey ((h(b \<mapsto> n\<lparr>nt_value := v\<rparr>)) x) = map_option nt_rkey (h x)" for x using n by simp
  ultimately have ok: "notes_ok (h(b \<mapsto> n\<lparr>nt_value := v\<rparr>)) pn bs" using assms(1) unfolding notes_ok_def by simp
  have other: "nt_rkey (the (h x)) \<noteq> k" if "x \<in> set bs" "x \<noteq> b" for x
    using c(4)[of k x] assms(2) that b(1) lchain_live[OF c(1) that(1)] by auto
  have "note_view (h(b \<mapsto> n\<lparr>nt_value := v\<rparr>)) x =
      (case note_view h x of (k', t', v') \<Rightarrow> if k' = k then (k', t', v) else (k', t', v'))" if "x \<in> set bs" for x
    using other[OF that] n by (cases "x = b") (simp_all add: note_view_def)
  moreover have "k \<in> fst ` set (map (note_view h) bs)" using b(2) n by (force simp: note_view_def)
  ultimately have "map (note_view (h(b \<mapsto> n\<lparr>nt_value := v\<rparr>))) bs = upsert k t v (map (note_view h) bs)"
    using b(1) by (simp add: upsert_def)
  moreover have "b \<noteq> 0" using lchain_live[OF c(1) b(2)] by blast
  ultimately show thesis using that n(1) b(2) ok by blast
qed

lemma notes_no_key:
  assumes "notes_ok h pn bs" and "agMap_ip_get (pn_m pn) k = None" and "k \<noteq> 0"
  shows "k \<notin> fst ` set (map (note_view h) bs)"
proof
  assume "k \<in> fst ` set (map (note_view h) bs)"
  then obtain b where "b \<in> set bs" "nt_rkey (the (h b)) = k" by (auto simp: note_view_def)
  then have "agMap_ip_get (pn_m pn) k = Some b"
    using notes_okD(4)[OF assms(1), of k b] lchain_live[OF notes_okD(1)[OF assms(1)], of b] assms(3) by auto
  with assms(2) show False by simp
qed

section \<open>All players\<close>

lemma notify_okD:
  assumes "notify_ok s ps"
  shows "lchain pn_next (ns_players s) (player_notify_list s) (map fst ps)" and "distinct (map fst ps)"
    and "distinct (concat (map snd ps))"
    and "(a, bs) \<in> set ps \<Longrightarrow> \<exists>pn. ns_players s a = Some pn \<and> notes_ok (ns_notes s) pn bs"
    and "agMap_ip_get (player_notify_hash s) k = Some a \<longleftrightarrow> a \<in> fst ` set ps \<and> map_option pn_playerid (ns_players s a) = Some k"
  using assms by (auto simp: notify_ok_def)

lemma notify_room:
  assumes "notify_ok s ps" and "length ps < REG_MAX"
  obtains m where "player_notify_hash s = Some m" and "tight_map m" and "map_room m"
proof -
  obtain m where m: "player_notify_hash s = Some m" "tight_map m" using assms(1) by (auto simp: notify_ok_def)
  have "map_room m"
    by (rule room_of_values[OF m(2), where bs = "map fst ps" and f = "\<lambda>a. map_option pn_playerid (ns_players s a)"])
      (use notify_okD(5)[OF assms(1)] m(1) assms(2) in auto)
  with that m show thesis by blast
qed

text \<open>A change to the notices of one player.\<close>

lemma notify_update:
  assumes "notify_ok s (us @ (p, bs) # vs)" and "ns_players s p = Some pn"
    and "pn_next pn' = pn_next pn" and "pn_playerid pn' = pn_playerid pn"
    and "\<And>c. c \<in> set (concat (map snd (us @ vs))) \<Longrightarrow> h' c = ns_notes s c \<and> c \<notin> set bs'"
    and "notes_ok h' pn' bs'" and "s' = s\<lparr>ns_players := (ns_players s)(p \<mapsto> pn'), ns_notes := h'\<rparr>"
  shows "notify_ok s' (us @ (p, bs') # vs)"
    and "notices s' (us @ (p, bs') # vs) = notices s us @ (pn_playerid pn, map (note_view h') bs') # notices s vs"
proof -
  note d = notify_okD[OF assms(1)]
  have p: "p \<notin> fst ` set (us @ vs)" using d(2) by auto
  have l: "lchain pn_next (ns_players s') x xs = lchain pn_next (ns_players s) x xs" for x xs
    using assms(2,3,7) by (induction xs arbitrary: x) (auto split: option.splits)
  have own: "notes_ok h' pn2 cs" if "(a, cs) \<in> set (us @ vs)" "notes_ok (ns_notes s) pn2 cs" for a cs pn2
    using that assms(5) notes_ok_cong[of cs h' "ns_notes s" pn2] by (fastforce simp: image_iff)
  have live: "\<exists>pn. ns_players s' a = Some pn \<and> notes_ok (ns_notes s') pn cs" if "(a, cs) \<in> set (us @ (p, bs') # vs)" for a cs
  proof (cases "(a, cs) = (p, bs')")
    case True
    then show ?thesis using assms(6,7) by simp
  next
    case False
    then have u: "(a, cs) \<in> set (us @ vs)" using that by auto
    then have "a \<noteq> p" using p by force
    moreover obtain q where "ns_players s a = Some q" "notes_ok (ns_notes s) q cs" using d(4)[of a cs] u by auto
    ultimately show ?thesis using own[OF u] assms(7) by auto
  qed
  have "map_option pn_playerid (ns_players s' a) = map_option pn_playerid (ns_players s a)" for a
    using assms(2,4,7) by simp
  moreover have "distinct (concat (map snd (us @ (p, bs') # vs)))"
    using d(3) assms(5) notes_okD(2)[OF assms(6)] by fastforce
  ultimately show "notify_ok s' (us @ (p, bs') # vs)"
    using assms(1,6,7) live unfolding notify_ok_def l by auto
  have v: "map (note_view h') cs = map (note_view (ns_notes s)) cs" if "(a, cs) \<in> set (us @ vs)" for a cs
    using that assms(5) by (fastforce simp: note_view_def)
  have "notices s' xs = notices s xs" if "set xs \<subseteq> set (us @ vs)" for xs
    unfolding notices_def
  proof (rule map_cong)
    fix x
    assume "x \<in> set xs"
    then obtain a cs where x: "x = (a, cs)" "(a, cs) \<in> set (us @ vs)" using \<open>set xs \<subseteq> _\<close> by (metis subsetD surj_pair)
    then have "a \<noteq> p" using p by force
    with v[OF x(2)] x(1) assms(7) show "(case x of (a, bs) \<Rightarrow> (pn_playerid (the (ns_players s' a)), map (note_view (ns_notes s')) bs)) =
        (case x of (a, bs) \<Rightarrow> (pn_playerid (the (ns_players s a)), map (note_view (ns_notes s)) bs))"
      by simp
  qed simp
  from this[of us] this[of vs] show "notices s' (us @ (p, bs') # vs) = notices s us @ (pn_playerid pn, map (note_view h') bs') # notices s vs"
    using assms(4,7) by (simp add: notices_def)
qed

text \<open>A player without notices is put in front.\<close>

lemma notify_new_player:
  assumes "notify_ok s ps" and "a \<noteq> 0" and "a \<notin> fst ` set ps" and "agMap_ip_get (player_notify_hash s) pid = None" and "length ps < REG_MAX"
  obtains s' where "get_player_notify a pid s = Some (Inr (a, s'))" and "notify_ok s' ((a, []) # ps)"
    and "notices s' ((a, []) # ps) = (pid, []) # notices s ps" and "ns_notes s' = ns_notes s" and "ns_counts s' = ns_counts s"
proof -
  note d = notify_okD[OF assms(1)]
  obtain m where m: "player_notify_hash s = Some m" "tight_map m" "map_room m" by (rule notify_room[OF assms(1,5)])
  obtain h where h: "agMap_ip_set (Some m) pid (Some a) = Some (Inr (agMap_ip_get (Some m) pid, Some h))" "tight_map h"
    "\<And>k'. agMap_ip_get (Some h) k' = (if k' = pid then Some a else agMap_ip_get (Some m) k')"
    by (rule ip_set_ok[OF m(2,3), of pid "Some a"]) (rule that)
  obtain e :: "(u64, addr) agmap" where e: "agMap_new None = Inr e" "tight_map e" "\<And>k. agMap_ip_get (Some e) k = None"
    by (rule new_map) (rule that)
  let ?p = "\<lparr>pn_next = player_notify_list s, pn_playerid = pid, pn_m = Some e, pn_l = 0, pn_t = 0\<rparr>"
  let ?s = "put_player a ?p (s\<lparr>player_notify_hash := Some h, player_notify_list := a\<rparr>)"
  have pl: "ns_players ?s x = (if x = a then Some ?p else ns_players s x)" for x by (simp add: put_player_def)
  have l: "lchain pn_next (ns_players ?s) x (map fst ps) = lchain pn_next (ns_players s) x (map fst ps)" for x
    using assms(3) by (intro lchain_cong) (auto simp: pl)
  have new: "notes_ok (ns_notes s) ?p []" using e(2,3) by (simp add: notes_ok_def)
  have old: "\<exists>q. ns_players ?s x = Some q \<and> notes_ok (ns_notes s) q cs" if "(x, cs) \<in> set ps" for x cs
    using d(4)[OF that] that assms(3) by (force simp: pl)
  have "agMap_ip_get (Some h) k = Some x \<longleftrightarrow> x \<in> fst ` set ((a, []) # ps) \<and> map_option pn_playerid (ns_players ?s x) = Some k" for k x
    using h(3)[of k] d(5)[of k x] d(5)[of pid x] assms(3,4) m(1) by (auto simp: pl split: if_splits)
  with l new old have "notify_ok ?s ((a, []) # ps)"
    using d(1-3) assms(2,3) h(2) unfolding notify_ok_def by (auto simp: put_player_def)
  moreover have "notices ?s ((a, []) # ps) = (pid, []) # notices s ps"
    using assms(3) by (force simp: notices_def put_player_def)
  moreover have "get_player_notify a pid s = Some (Inr (a, ?s))"
    using assms(4) m(1) h(1) e(1) by (simp add: get_player_notify_def)
  ultimately show thesis using that[of ?s] by (simp add: put_player_def)
qed

text \<open>The entry of a player, which is made if it is missing.\<close>

definition ensured :: "u64 \<Rightarrow> (u64 \<times> notice list) list \<Rightarrow> (u64 \<times> notice list) list" where
  "ensured pid ps = (if pid \<in> fst ` set ps then ps else (pid, []) # ps)"

lemma notices_pids: "notify_ok s ps \<Longrightarrow> pid \<in> fst ` set (notices s ps) \<longleftrightarrow> (\<exists>a \<in> fst ` set ps. map_option pn_playerid (ns_players s a) = Some pid)"
  using notify_okD(4) by (force simp: notices_def)

lemma get_player_ok:
  assumes "notify_ok s ps" and "a \<noteq> 0" and "a \<notin> fst ` set ps" and "length ps < REG_MAX"
  obtains p s' us bs vs pn where "get_player_notify a pid s = Some (Inr (p, s'))" and "notify_ok s' (us @ (p, bs) # vs)"
    and "ns_players s' p = Some pn" and "pn_playerid pn = pid" and "notes_ok (ns_notes s') pn bs"
    and "notices s' (us @ (p, bs) # vs) = ensured pid (notices s ps)" and "ns_notes s' = ns_notes s" and "ns_counts s' = ns_counts s"
    and "agMap_ip_get (player_notify_hash s') pid = Some p"
    and "set (us @ (p, bs) # vs) \<subseteq> insert (a, []) (set ps)"
proof (cases "agMap_ip_get (player_notify_hash s) pid")
  case None
  obtain s' where s': "get_player_notify a pid s = Some (Inr (a, s'))" "notify_ok s' ((a, []) # ps)"
    "notices s' ((a, []) # ps) = (pid, []) # notices s ps" "ns_notes s' = ns_notes s" "ns_counts s' = ns_counts s"
    by (rule notify_new_player[OF assms(1-3) None assms(4)])
  obtain pn where pn: "ns_players s' a = Some pn" "notes_ok (ns_notes s') pn []" using notify_okD(4)[OF s'(2), of a "[]"] by auto
  have "pn_playerid pn = pid" using s'(3) pn(1) by (simp add: notices_def)
  moreover have "pid \<notin> fst ` set (notices s ps)" using notices_pids[OF assms(1)] notify_okD(5)[OF assms(1), of pid] None by auto
  moreover have "agMap_ip_get (player_notify_hash s') pid = Some a" using notify_okD(5)[OF s'(2), of pid a] pn(1) calculation(1) by simp
  ultimately show thesis using that[of a s' "[]" "[]" ps pn] s' pn by (simp add: ensured_def subset_insertI)
next
  case (Some p)
  then have "p \<in> fst ` set ps" "map_option pn_playerid (ns_players s p) = Some pid" using notify_okD(5)[OF assms(1)] by blast+
  then obtain bs pn where bs: "(p, bs) \<in> set ps" "ns_players s p = Some pn" "pn_playerid pn = pid" by auto
  then obtain us vs where ps: "ps = us @ (p, bs) # vs" by (meson split_list)
  have "notes_ok (ns_notes s) pn bs" using notify_okD(4)[OF assms(1) bs(1)] bs(2) by auto
  moreover have "pid \<in> fst ` set (notices s ps)" using bs by (force simp: notices_def)
  ultimately show thesis using that[of p s us bs vs pn] Some assms(1) bs ps by (auto simp: get_player_notify_def ensured_def)
qed

lemma other_pids:
  assumes "notify_ok s (us @ (p, bs) # vs)" and "map_option pn_playerid (ns_players s p) = Some pid"
  shows "pid \<notin> fst ` set (notices s us @ notices s vs)"
proof
  assume "pid \<in> fst ` set (notices s us @ notices s vs)"
  then obtain q cs where q: "(q, cs) \<in> set (us @ vs)" "pn_playerid (the (ns_players s q)) = pid"
    by (fastforce simp: notices_def)
  then obtain qn where "ns_players s q = Some qn" using notify_okD(4)[OF assms(1), of q cs] by auto
  then have "agMap_ip_get (player_notify_hash s) pid = Some q" using q notify_okD(5)[OF assms(1), of pid q] by force
  moreover have "agMap_ip_get (player_notify_hash s) pid = Some p" using notify_okD(5)[OF assms(1), of pid p] assms(2) by simp
  moreover have "q \<noteq> p" using q(1) notify_okD(2)[OF assms(1)] by force
  ultimately show False by simp
qed

lemma leave_split:
  assumes "ensured pid P = X @ (pid, ns) # Y" and "pid \<notin> fst ` set (X @ Y)"
  shows "leave pid k t v P = X @ (pid, upsert k t v ns) # Y"
proof (cases "pid \<in> fst ` set P")
  case True
  have "map (\<lambda>(p, ns). if p = pid then (p, upsert k t v ns) else (p, ns)) Z = Z" if "pid \<notin> fst ` set Z" for Z
    using that by (induction Z) auto
  from this[of X] this[of Y] True assms show ?thesis by (simp add: ensured_def leave_def image_Un)
next
  case False
  then have "(pid, []) # P = X @ (pid, ns) # Y" using assms(1) by (simp add: ensured_def)
  then have "X = [] \<and> ns = [] \<and> Y = P" using assms(2) by (cases X) auto
  with False show ?thesis by (simp add: leave_def upsert_def)
qed

section \<open>Leaving a notice\<close>

text \<open>Appending for a player that is present.\<close>

lemma add_present:
  assumes "notify_ok s (us @ (p, bs) # vs)" and "ns_players s p = Some pn" and "agMap_ip_get (player_notify_hash s) pid = Some p"
    and "b \<noteq> 0" and "b \<notin> set (concat (map snd (us @ (p, bs) # vs)))"
  obtains s' pn' where "notification_add_r a b pid t v s = Some (Inr (b, s'))" and "notify_ok s' (us @ (p, bs @ [b]) # vs)"
    and "ns_players s' p = Some pn'" and "pn_m pn' = pn_m pn" and "pn_playerid pn' = pn_playerid pn" and "notes_ok (ns_notes s') pn' (bs @ [b])"
    and "\<exists>n. ns_notes s' b = Some n \<and> nt_rkey n = 0 \<and> nt_type n = t \<and> nt_value n = v"
    and "map (note_view (ns_notes s')) bs = map (note_view (ns_notes s)) bs"
    and "notices s' us = notices s us" and "notices s' vs = notices s vs" and "ns_counts s' = ns_counts s"
proof -
  let ?n = "\<lparr>nt_next = 0, nt_type = t, nt_rkey = 0, nt_value = v\<rparr>"
  have nk: "notes_ok (ns_notes s) pn bs" using notify_okD(4)[OF assms(1), of p bs] assms(2) by auto
  have p0: "p \<noteq> 0" using lchain_live[OF notify_okD(1)[OF assms(1)], of p] by auto
  have b: "b \<notin> set bs" using assms(5) by simp
  have g: "get_player_notify a pid s = Some (Inr (p, s))" using assms(3) by (simp add: get_player_notify_def)
  have free: "c \<noteq> b \<and> c \<notin> set bs" if "c \<in> set (concat (map snd (us @ vs)))" for c
    using that assms(5) notify_okD(3)[OF assms(1)] by auto
  define h' where "h' = (if bs = [] then (ns_notes s)(b \<mapsto> ?n)
      else (ns_notes s)(b \<mapsto> ?n, last bs \<mapsto> (the (ns_notes s (last bs)))\<lparr>nt_next := b\<rparr>))"
  define pn' where "pn' = (if bs = [] then pn\<lparr>pn_l := b, pn_t := b\<rparr> else pn\<lparr>pn_t := b\<rparr>)"
  let ?s = "s\<lparr>ns_players := (ns_players s)(p \<mapsto> pn'), ns_notes := h'\<rparr>"
  note ap = notes_append[OF nk b assms(4), of ?n]
  have ok: "notes_ok h' pn' (bs @ [b])" using ap by (auto simp: h'_def pn'_def split: if_splits)
  have keep: "h' c = ns_notes s c \<and> c \<notin> set (bs @ [b])" if "c \<in> set (concat (map snd (us @ vs)))" for c
    using free[OF that] by (auto simp: h'_def)
  have same: "pn_next pn' = pn_next pn" "pn_playerid pn' = pn_playerid pn" "pn_m pn' = pn_m pn" by (simp_all add: pn'_def)
  note up = notify_update[OF assms(1,2) same(1,2) keep ok refl]
  have "notification_add_r a b pid t v s = Some (Inr (b, ?s))"
    using ap p0 assms(2) b
    by (auto simp: notification_add_r_def g deref_def put_note_def put_player_def h'_def pn'_def Let_def fun_upd_twist split: if_splits)
  moreover have "map (note_view h') bs = map (note_view (ns_notes s)) bs"
    using b by (auto simp: h'_def note_view_def)
  moreover have "\<exists>n. h' b = Some n \<and> nt_rkey n = 0 \<and> nt_type n = t \<and> nt_value n = v"
    using b by (auto simp: h'_def)
  moreover have "notices ?s us = notices s us" "notices ?s vs = notices s vs"
    using up(2) by (simp_all add: notices_def)
  ultimately show thesis using that[of ?s pn'] up(1) ok same by simp
qed

lemma view_snoc:
  "ns_notes s b = Some n \<Longrightarrow> nt_rkey n = k \<Longrightarrow> nt_type n = t \<Longrightarrow> nt_value n = v \<Longrightarrow> note_view (ns_notes s) b = (k, t, v)"
  by (simp add: note_view_def)

lemma rkey_nonzero: "type \<noteq> 0 \<Longrightarrow> notify_rkey type key \<noteq> 0"
proof
  assume t: "type \<noteq> 0" and z: "notify_rkey type key = 0"
  have "bit type i = bit (notify_rkey type key) i" if "i < 32" for i
    using that by (simp add: notify_rkey_def bit_simps)
  then have "type = 0" using z by (intro bit_word_eqI) simp
  with t show False by simp
qed

text \<open>The two cases of a notice with a key: it replaces one, or it is appended and entered in the map.\<close>

lemma replace_present:
  assumes "notify_ok s (us @ (p, bs) # vs)" and "ns_players s p = Some pn" and "agMap_ip_get (pn_m pn) k = Some c"
  obtains n where "ns_notes s c = Some n" and "c \<noteq> 0" and "notify_ok (put_note c (n\<lparr>nt_value := v\<rparr>) s) (us @ (p, bs) # vs)"
    and "notices (put_note c (n\<lparr>nt_value := v\<rparr>) s) (us @ (p, bs) # vs) =
      notices s us @ (pn_playerid pn, upsert k t v (map (note_view (ns_notes s)) bs)) # notices s vs"
proof -
  have ok: "notes_ok (ns_notes s) pn bs" using notify_okD(4)[OF assms(1), of p bs] assms(2) by auto
  obtain n where n: "ns_notes s c = Some n" "c \<noteq> 0" "c \<in> set bs" "notes_ok ((ns_notes s)(c \<mapsto> n\<lparr>nt_value := v\<rparr>)) pn bs"
    "map (note_view ((ns_notes s)(c \<mapsto> n\<lparr>nt_value := v\<rparr>))) bs = upsert k t v (map (note_view (ns_notes s)) bs)"
    by (rule notes_replace[OF ok assms(3), of v t]) (rule that)
  let ?s = "put_note c (n\<lparr>nt_value := v\<rparr>) s"
  have s: "?s = s\<lparr>ns_players := (ns_players s)(p \<mapsto> pn), ns_notes := (ns_notes s)(c \<mapsto> n\<lparr>nt_value := v\<rparr>)\<rparr>"
    using assms(2) by (simp add: put_note_def fun_upd_idem)
  have keep: "((ns_notes s)(c \<mapsto> n\<lparr>nt_value := v\<rparr>)) x = ns_notes s x \<and> x \<notin> set bs" if "x \<in> set (concat (map snd (us @ vs)))" for x
    using that n(3) notify_okD(3)[OF assms(1)] by auto
  note up = notify_update[OF assms(1,2) refl refl keep n(4) s]
  with that n(1,2,5) show thesis by simp
qed

lemma append_present:
  assumes "notify_ok s (us @ (p, bs) # vs)" and "ns_players s p = Some pn" and "agMap_ip_get (player_notify_hash s) pid = Some p"
    and "b \<noteq> 0" and "b \<notin> set (concat (map snd (us @ (p, bs) # vs)))" and "agMap_ip_get (pn_m pn) k = None" and "k \<noteq> 0"
    and "length bs < REG_MAX - 1"
  obtains s1 n pn1 m where "notification_add_r a b pid t v s = Some (Inr (b, s1))" and "ns_notes s1 b = Some n" and "ns_players s1 p = Some pn1"
    and "agMap_ip_set (pn_m pn1) k (Some b) = Some (Inr (None, Some m))"
    and "notify_ok (put_player p (pn1\<lparr>pn_m := Some m\<rparr>) (put_note b (n\<lparr>nt_rkey := k\<rparr>) s1)) (us @ (p, bs @ [b]) # vs)"
    and "notices (put_player p (pn1\<lparr>pn_m := Some m\<rparr>) (put_note b (n\<lparr>nt_rkey := k\<rparr>) s1)) (us @ (p, bs @ [b]) # vs) =
      notices s us @ (pn_playerid pn, upsert k t v (map (note_view (ns_notes s)) bs)) # notices s vs"
    and "ns_counts s1 = ns_counts s"
proof -
  have ok: "notes_ok (ns_notes s) pn bs" using notify_okD(4)[OF assms(1), of p bs] assms(2) by auto
  obtain s1 pn1 where r: "notification_add_r a b pid t v s = Some (Inr (b, s1))" "notify_ok s1 (us @ (p, bs @ [b]) # vs)"
    "ns_players s1 p = Some pn1" "pn_m pn1 = pn_m pn" "pn_playerid pn1 = pn_playerid pn" "notes_ok (ns_notes s1) pn1 (bs @ [b])"
    "\<exists>n. ns_notes s1 b = Some n \<and> nt_rkey n = 0 \<and> nt_type n = t \<and> nt_value n = v"
    "map (note_view (ns_notes s1)) bs = map (note_view (ns_notes s)) bs"
    "notices s1 us = notices s us" "notices s1 vs = notices s vs" "ns_counts s1 = ns_counts s"
    by (rule add_present[OF assms(1-5), of a t v]) (rule that)
  obtain n where n: "ns_notes s1 b = Some n" "nt_rkey n = 0" "nt_type n = t" "nt_value n = v" using r(7) by blast
  have "agMap_ip_get (pn_m pn1) k = None" "length (bs @ [b]) < REG_MAX" using assms(6,8) r(4) by simp_all
  then obtain m where m: "agMap_ip_set (pn_m pn1) k (Some b) = Some (Inr (None, Some m))"
    "notes_ok ((ns_notes s1)(b \<mapsto> n\<lparr>nt_rkey := k\<rparr>)) (pn1\<lparr>pn_m := Some m\<rparr>) (bs @ [b])"
    using notes_set_key[OF r(6) n(1,2) assms(7)] by blast
  let ?s = "put_player p (pn1\<lparr>pn_m := Some m\<rparr>) (put_note b (n\<lparr>nt_rkey := k\<rparr>) s1)"
  have s: "?s = s1\<lparr>ns_players := (ns_players s1)(p \<mapsto> pn1\<lparr>pn_m := Some m\<rparr>), ns_notes := (ns_notes s1)(b \<mapsto> n\<lparr>nt_rkey := k\<rparr>)\<rparr>"
    by (simp add: put_note_def put_player_def)
  have keep: "((ns_notes s1)(b \<mapsto> n\<lparr>nt_rkey := k\<rparr>)) x = ns_notes s1 x \<and> x \<notin> set (bs @ [b])" if "x \<in> set (concat (map snd (us @ vs)))" for x
    using that notify_okD(3)[OF r(2)] by auto
  note up = notify_update[OF r(2,3) _ _ keep m(2) s]
  have "b \<notin> set bs" using assms(5) by simp
  then have "map (note_view ((ns_notes s1)(b \<mapsto> n\<lparr>nt_rkey := k\<rparr>))) bs = map (note_view (ns_notes s)) bs"
    using r(8) by (auto simp: note_view_def)
  then have "map (note_view ((ns_notes s1)(b \<mapsto> n\<lparr>nt_rkey := k\<rparr>))) (bs @ [b]) = upsert k t v (map (note_view (ns_notes s)) bs)"
    using notes_no_key[OF ok assms(6,7)] n(3,4) by (simp add: upsert_def note_view_def)
  then show thesis using that[OF r(1) n(1) r(3) m(1)] up r(5,9,10,11) by simp
qed

lemma entries_covered:
  "set X \<subseteq> insert (a, []) (set ps) \<Longrightarrow> set (concat (map snd X)) \<subseteq> set (concat (map snd ps))"
  by (induction X) auto

lemma entry_length: "(p, bs) \<in> insert (a, []) (set ps) \<Longrightarrow> length bs \<le> length (concat (map snd ps))"
  by (auto dest!: split_list)

lemma notification_set_ok:
  assumes "notify_ok s ps" and "a \<noteq> 0" and "a \<notin> fst ` set ps" and "b \<noteq> 0" and "b \<notin> set (concat (map snd ps))" and "type \<noteq> 0"
    and "length ps < REG_MAX" and "length (concat (map snd ps)) < REG_MAX - 1"
  shows "\<exists>s' ps'. notification_set a b pid type key v s = Some (Inr (0, s')) \<and> notify_ok s' ps'
    \<and> notices s' ps' = leave pid (notify_rkey type key) type v (notices s ps) \<and> ns_counts s' = ns_counts s"
proof -
  let ?k = "notify_rkey type key"
  obtain p s1 us bs vs pn where g: "get_player_notify a pid s = Some (Inr (p, s1))" "notify_ok s1 (us @ (p, bs) # vs)"
    "ns_players s1 p = Some pn" "pn_playerid pn = pid" "notes_ok (ns_notes s1) pn bs"
    "notices s1 (us @ (p, bs) # vs) = ensured pid (notices s ps)" "ns_notes s1 = ns_notes s" "ns_counts s1 = ns_counts s"
    "agMap_ip_get (player_notify_hash s1) pid = Some p" "set (us @ (p, bs) # vs) \<subseteq> insert (a, []) (set ps)"
    by (rule get_player_ok[OF assms(1-3,7), of pid]) (rule that)
  have p0: "p \<noteq> 0" using lchain_live[OF notify_okD(1)[OF g(2)], of p] by auto
  have lv: "leave pid ?k type v (notices s ps) = notices s1 us @ (pid, upsert ?k type v (map (note_view (ns_notes s1)) bs)) # notices s1 vs"
    by (rule leave_split) (use g(3,4,6) other_pids[OF g(2), of pid] in \<open>auto simp: notices_def\<close>)
  show ?thesis
  proof (cases "agMap_ip_get (pn_m pn) ?k")
    case (Some c)
    obtain n where n: "ns_notes s1 c = Some n" "c \<noteq> 0" "notify_ok (put_note c (n\<lparr>nt_value := v\<rparr>) s1) (us @ (p, bs) # vs)"
      "notices (put_note c (n\<lparr>nt_value := v\<rparr>) s1) (us @ (p, bs) # vs) =
        notices s1 us @ (pn_playerid pn, upsert ?k type v (map (note_view (ns_notes s1)) bs)) # notices s1 vs"
      by (rule replace_present[OF g(2,3) Some, of v type]) (rule that)
    have "notification_set a b pid type key v s = Some (Inr (0, put_note c (n\<lparr>nt_value := v\<rparr>) s1))"
      using g(1,3) p0 Some n(1,2) by (simp add: notification_set_def deref_def)
    with n(3,4) lv g(4,8) show ?thesis by (intro exI conjI) (assumption | simp add: put_note_def)+
  next
    case None
    have "b \<notin> set (concat (map snd (us @ (p, bs) # vs)))" using entries_covered[OF g(10)] assms(5) by blast
    moreover have "length bs < REG_MAX - 1" using entry_length[of p bs a ps] g(10) assms(8) by simp
    ultimately obtain s2 n pn2 m where r: "notification_add_r a b pid type v s1 = Some (Inr (b, s2))" "ns_notes s2 b = Some n" "ns_players s2 p = Some pn2"
      "agMap_ip_set (pn_m pn2) ?k (Some b) = Some (Inr (None, Some m))"
      "notify_ok (put_player p (pn2\<lparr>pn_m := Some m\<rparr>) (put_note b (n\<lparr>nt_rkey := ?k\<rparr>) s2)) (us @ (p, bs @ [b]) # vs)"
      "notices (put_player p (pn2\<lparr>pn_m := Some m\<rparr>) (put_note b (n\<lparr>nt_rkey := ?k\<rparr>) s2)) (us @ (p, bs @ [b]) # vs) =
        notices s1 us @ (pn_playerid pn, upsert ?k type v (map (note_view (ns_notes s1)) bs)) # notices s1 vs"
      "ns_counts s2 = ns_counts s1"
      using append_present[OF g(2,3,9) assms(4) _ None rkey_nonzero[OF assms(6)], of a type v] by blast
    have "notification_set a b pid type key v s =
        Some (Inr (0, put_player p (pn2\<lparr>pn_m := Some m\<rparr>) (put_note b (n\<lparr>nt_rkey := ?k\<rparr>) s2)))"
      using g(1,3) p0 None r(1-4) assms(4) by (simp add: notification_set_def deref_def)
    with r(5,6,7) lv g(4,8) show ?thesis by (intro exI conjI) (assumption | simp add: put_note_def put_player_def)+
  qed
qed

lemma notification_add_ok:
  assumes "notify_ok s ps" and "a \<noteq> 0" and "a \<notin> fst ` set ps" and "b \<noteq> 0" and "b \<notin> set (concat (map snd ps))" and "length ps < REG_MAX"
  shows "\<exists>s' ps'. notification_add a b pid type v s = Some (Inr (0, s')) \<and> notify_ok s' ps'
    \<and> notices s' ps' = leave pid 0 type v (notices s ps) \<and> ns_counts s' = ns_counts s"
proof -
  obtain p s1 us bs vs pn where g: "get_player_notify a pid s = Some (Inr (p, s1))" "notify_ok s1 (us @ (p, bs) # vs)"
    "ns_players s1 p = Some pn" "pn_playerid pn = pid" "notes_ok (ns_notes s1) pn bs"
    "notices s1 (us @ (p, bs) # vs) = ensured pid (notices s ps)" "ns_notes s1 = ns_notes s" "ns_counts s1 = ns_counts s"
    "agMap_ip_get (player_notify_hash s1) pid = Some p" "set (us @ (p, bs) # vs) \<subseteq> insert (a, []) (set ps)"
    by (rule get_player_ok[OF assms(1-3,6), of pid]) (rule that)
  have lv: "leave pid 0 type v (notices s ps) = notices s1 us @ (pid, upsert 0 type v (map (note_view (ns_notes s1)) bs)) # notices s1 vs"
    by (rule leave_split) (use g(3,4,6) other_pids[OF g(2), of pid] in \<open>auto simp: notices_def\<close>)
  have "b \<notin> set (concat (map snd (us @ (p, bs) # vs)))" using entries_covered[OF g(10)] assms(5) by blast
  then obtain s2 pn2 where r: "notification_add_r a b pid type v s1 = Some (Inr (b, s2))" "notify_ok s2 (us @ (p, bs @ [b]) # vs)"
    "ns_players s2 p = Some pn2" "pn_m pn2 = pn_m pn" "pn_playerid pn2 = pn_playerid pn" "notes_ok (ns_notes s2) pn2 (bs @ [b])"
    "\<exists>n. ns_notes s2 b = Some n \<and> nt_rkey n = 0 \<and> nt_type n = type \<and> nt_value n = v"
    "map (note_view (ns_notes s2)) bs = map (note_view (ns_notes s1)) bs"
    "notices s2 us = notices s1 us" "notices s2 vs = notices s1 vs" "ns_counts s2 = ns_counts s1"
    using add_present[OF g(2,3,9) assms(4), of a type v] by blast
  have "notification_add_r a b pid type v s = notification_add_r a b pid type v s1"
    using g(1,9) by (simp add: notification_add_r_def get_player_notify_def)
  moreover have "note_view (ns_notes s2) b = (0, type, v)" using r(7) by (auto simp: note_view_def)
  ultimately show ?thesis using r g(4,8) assms(4) lv
    by (intro exI[of _ s2] exI[of _ "us @ (p, bs @ [b]) # vs"]) (auto simp: notification_add_def notices_def upsert_def)
qed

end
