(* ===== verification/NotifySend.thy ===== *)
theory NotifySend
  imports NotifyRefine
begin

text \<open>
  The end of a tick: the waiting notices become messages, one for each player, which the client can read, and nothing
  is left.
\<close>

section \<open>Messages\<close>

definition notice_item :: "notice \<Rightarrow> amf_value" where
  "notice_item x =
     (case x of (k, t, v) \<Rightarrow>
        (case v of
           Some u \<Rightarrow> AVarray 2 [Some (AVinteger 1 t), Some u]
         | None \<Rightarrow> AVarray 1 [Some (AVinteger 1 t)]))"

text \<open>The sequence number 0, the result 0 and the notices.\<close>

definition notice_message :: "notice list \<Rightarrow> amf_value" where
  "notice_message ns = AVarray (2 + length ns) (Some (AVinteger 1 0) # Some (AVinteger 1 0) # map (\<lambda>x. Some (notice_item x)) ns)"

definition delivered :: "(u64 \<Rightarrow> resid_t) \<Rightarrow> u64 \<times> notice list \<Rightarrow> outgoing" where
  "delivered conn_of x =
     (case x of (pid, ns) \<Rightarrow>
        let w = amf_wire (Some (notice_message ns))
        in if pid = 0 then Broadcast C_PLAYER_DATA_CHANGE 1 w
           else Packet (conn_of pid) (translate_packet 0 pid C_PLAYER_DATA_CHANGE 1 w))"

lemma note_item_view: "h b = Some n \<Longrightarrow> note_item n = notice_item (note_view h b)"
  by (simp add: note_item_def notice_item_def note_view_def amf_new_array_def amf_new_integer_def numeral_2_eq_2 Let_def split: option.splits)

lemma wires_take: "amf_wires n (take n cs) = amf_wires n cs" and wfs_take: "amf_wfs n (take n cs) = amf_wfs n cs"
proof (induction n arbitrary: cs)
  case (Suc n)
  { case 1 show ?case using Suc.IH(1) by (cases cs) simp_all }
  { case 2 show ?case using Suc.IH(2) by (cases cs) simp_all }
qed simp_all

text \<open>Free slots behind the items of an array are not encoded.\<close>

lemma array_items:
  assumes "amf_array_ok msg" and "amf_items msg = its"
  shows "amf_wire (Some msg) = amf_wire (Some (AVarray (length its) its))" and "amf_wf (Some msg) = amf_wf (Some (AVarray (length its) its))"
proof -
  obtain n cs where m: "msg = AVarray n cs" "n \<le> length cs" "its = take n cs" using assms by (cases msg) auto
  then show "amf_wire (Some msg) = amf_wire (Some (AVarray (length its) its))" and "amf_wf (Some msg) = amf_wf (Some (AVarray (length its) its))"
    by (simp_all add: min_def wires_take wfs_take)
qed

lemma encode_exact_wire: "amf_wf (Some v) \<Longrightarrow> encode_exact v = Inr (amf_wire (Some v))"
  using amf_length_aux(1)[of "Some v"] amf_encode_wire_aux(1)[of "Some v" "length (amf_wire (Some v))"] amf_room_le_wire(1)[of "Some v"]
  by (simp add: encode_exact_def)

lemma outgoing_of_wire:
  assumes "amf_array_ok msg" and "amf_items msg = Some (AVinteger 1 0) # Some (AVinteger 1 0) # map (\<lambda>x. Some (notice_item x)) ns"
    and "amf_wf (Some (notice_message ns))"
  shows "outgoing_of conn_of pid msg = Inr (delivered conn_of (pid, ns))"
proof -
  have m: "amf_wire (Some msg) = amf_wire (Some (notice_message ns))" "amf_wf (Some msg)"
    using array_items[OF assms(1,2)] assms(3) by (simp_all add: notice_message_def)
  then have "encode_exact msg = Inr (amf_wire (Some (notice_message ns)))" using encode_exact_wire[of msg] by simp
  then show ?thesis
    by (simp add: outgoing_of_def delivered_def send_amf_message_to_def send_amf_message_def send_message_def Let_def)
qed

section \<open>The loops\<close>

lemma take_notes_ok:
  assumes "lchain nt_next (ns_notes s) l bs" and "distinct bs" and "tight_map m" and "card (dom (agMap_ip_get (Some m))) < REG_MAX"
    and "amf_array_ok msg" and "length bs \<le> fuel"
  shows "\<exists>m' msg'. take_notes fuel l (Some m) msg s =
      Some (Inr ((Some m', msg'), s\<lparr>ns_notes := (\<lambda>x. if x \<in> set bs then None else ns_notes s x)\<rparr>))
    \<and> amf_array_ok msg' \<and> amf_items msg' = amf_items msg @ map (\<lambda>b. Some (notice_item (note_view (ns_notes s) b))) bs"
  using assms
proof (induction bs arbitrary: s l m msg fuel)
  case Nil
  then show ?case by (subst take_notes.simps) (auto intro!: exI[of _ msg])
next
  case (Cons b bs)
  obtain n where n: "ns_notes s b = Some n" "l = b" "b \<noteq> 0" "lchain nt_next (ns_notes s) (nt_next n) bs"
    using Cons.prems(1) by (auto split: option.splits)
  obtain f where f: "fuel = Suc f" "length bs \<le> f" using Cons.prems(6) by (cases fuel) auto
  obtain msg1 where p: "amf_push msg (Some (note_item n)) = Inr msg1" "amf_array_ok msg1" "amf_items msg1 = amf_items msg @ [Some (note_item n)]"
    using amf_push_appends[OF Cons.prems(5), of "Some (note_item n)"] by blast
  obtain m1 where m1: "agMap_ip_set (Some m) (nt_rkey n) None = Some (Inr (agMap_ip_get (Some m) (nt_rkey n), Some m1))" "tight_map m1"
    "\<And>k'. agMap_ip_get (Some m1) k' = (if k' = nt_rkey n then None else agMap_ip_get (Some m) k')"
    by (rule ip_set_ok[OF Cons.prems(3) room_of_dom[OF Cons.prems(3,4)], of "nt_rkey n" None]) (rule that)
  have "card (dom (agMap_ip_get (Some m1))) \<le> card (dom (agMap_ip_get (Some m)))"
    by (rule card_mono[OF tight_finite[OF Cons.prems(3)]]) (auto simp: m1(3) split: if_splits)
  then have c: "card (dom (agMap_ip_get (Some m1))) < REG_MAX" using Cons.prems(4) by simp
  let ?s = "s\<lparr>ns_notes := (ns_notes s)(b := None)\<rparr>"
  have b: "b \<notin> set bs" "distinct bs" using Cons.prems(2) by simp_all
  have l: "lchain nt_next (ns_notes ?s) (nt_next n) bs" using n(4) b(1) by (subst lchain_cong[where h = "ns_notes s"]) auto
  have v: "map (\<lambda>x. Some (notice_item (note_view (ns_notes ?s) x))) bs = map (\<lambda>x. Some (notice_item (note_view (ns_notes s) x))) bs"
    using b(1) by (auto simp: note_view_def)
  obtain m2 msg2 where IH: "take_notes f (nt_next n) (Some m1) msg1 ?s =
      Some (Inr ((Some m2, msg2), ?s\<lparr>ns_notes := (\<lambda>x. if x \<in> set bs then None else ns_notes ?s x)\<rparr>))"
    "amf_array_ok msg2" "amf_items msg2 = amf_items msg1 @ map (\<lambda>b. Some (notice_item (note_view (ns_notes s) b))) bs"
    using Cons.IH[OF l b(2) m1(2) c p(2) f(2)] unfolding v by blast
  have "?s\<lparr>ns_notes := (\<lambda>x. if x \<in> set bs then None else ns_notes ?s x)\<rparr> = s\<lparr>ns_notes := (\<lambda>x. if x \<in> set (b # bs) then None else ns_notes s x)\<rparr>"
    by (simp add: fun_eq_iff)
  then have "take_notes fuel l (Some m) msg s =
      Some (Inr ((Some m2, msg2), s\<lparr>ns_notes := (\<lambda>x. if x \<in> set (b # bs) then None else ns_notes s x)\<rparr>))"
    using n p(1) m1(1) IH(1) by (subst take_notes.simps) (simp add: f(1) deref_def)
  with IH(2,3) p(3) note_item_view[of "ns_notes s" b n] n(1) show ?case by auto
qed

lemma card_keys:
  assumes "notes_ok h pn bs" and "pn_m pn = Some m"
  shows "card (dom (agMap_ip_get (Some m))) \<le> length bs"
proof -
  have "dom (agMap_ip_get (Some m)) \<subseteq> (\<lambda>b. the (map_option nt_rkey (h b))) ` set bs"
    using notes_okD(4)[OF assms(1)] assms(2) by force
  then have "card (dom (agMap_ip_get (Some m))) \<le> card ((\<lambda>b. the (map_option nt_rkey (h b))) ` set bs)" by (rule card_mono[rotated]) simp
  also have "\<dots> \<le> length bs" using card_image_le card_length le_trans by blast
  finally show ?thesis .
qed

text \<open>Without its first player.\<close>

lemma notify_drop_first:
  assumes "notify_ok s ((a, bs) # ps)" and "ns_players s a = Some pn" and "length ps < REG_MAX - 1"
  obtains h where "agMap_ip_set (player_notify_hash s) (pn_playerid pn) None = Some (Inr (Some a, Some h))"
    and "\<And>s'. s' = s\<lparr>player_notify_list := pn_next pn, player_notify_hash := Some h, ns_players := (ns_players s)(a := None),
          ns_notes := (\<lambda>x. if x \<in> set bs then None else ns_notes s x)\<rparr> \<Longrightarrow> notify_ok s' ps \<and> notices s' ps = notices s ps"
proof -
  note d = notify_okD[OF assms(1)]
  obtain m where m: "player_notify_hash s = Some m" "tight_map m" "map_room m"
  proof (rule notify_room[OF assms(1)])
    show "length ((a, bs) # ps) < REG_MAX" using assms(3) by simp
  qed
  obtain h where h: "agMap_ip_set (Some m) (pn_playerid pn) None = Some (Inr (agMap_ip_get (Some m) (pn_playerid pn), Some h))" "tight_map h"
    "\<And>k'. agMap_ip_get (Some h) k' = (if k' = pn_playerid pn then None else agMap_ip_get (Some m) k')"
    by (rule ip_set_ok[OF m(2,3), of "pn_playerid pn" None]) (rule that)
  have get: "agMap_ip_get (Some m) (pn_playerid pn) = Some a" using d(5)[of "pn_playerid pn" a] assms(2) m(1) by simp
  define s' where "s' = s\<lparr>player_notify_list := pn_next pn, player_notify_hash := Some h, ns_players := (ns_players s)(a := None),
          ns_notes := (\<lambda>x. if x \<in> set bs then None else ns_notes s x)\<rparr>"
  have a: "a \<notin> fst ` set ps" using d(2) by simp
  have l: "lchain pn_next (ns_players s') (player_notify_list s') (map fst ps)"
    using d(1) assms(2) a by (subst lchain_cong[where h = "ns_players s"]) (auto simp: s'_def image_iff)
  have out: "x \<notin> set bs" if "(q, cs) \<in> set ps" "x \<in> set cs" for q cs x
    using that d(3) by fastforce
  have own: "\<exists>pn. ns_players s' q = Some pn \<and> notes_ok (ns_notes s') pn cs" if "(q, cs) \<in> set ps" for q cs
  proof -
    have "q \<noteq> a" using that a by force
    moreover obtain qn where "ns_players s q = Some qn" "notes_ok (ns_notes s) qn cs" using d(4)[of q cs] \<open>(q, cs) \<in> set ps\<close> by auto
    ultimately show ?thesis using notes_ok_cong[of cs "ns_notes s'" "ns_notes s" qn] out[OF that] by (simp add: s'_def)
  qed
  have "agMap_ip_get (Some h) k = Some x \<longleftrightarrow> x \<in> fst ` set ps \<and> map_option pn_playerid (ns_players s' x) = Some k" for k x
  proof -
    have "(agMap_ip_get (Some m) k = Some x) = (x \<in> insert a (fst ` set ps) \<and> map_option pn_playerid (ns_players s x) = Some k)"
      using d(5)[of k x] m(1) by simp
    then show ?thesis using h(3)[of k] get assms(2) a by (cases "x = a") (auto simp: s'_def)
  qed
  then have ok: "notify_ok s' ps" using d(2,3) h(2) l own unfolding notify_ok_def by (auto simp: s'_def)
  have "notices s' ps = notices s ps"
    using out a by (force simp: notices_def s'_def note_view_def)
  with that[of h] h(1) get m(1) ok show thesis by (simp add: s'_def)
qed

lemma first_pushes:
  "\<exists>msg. res_bind (amf_push (amf_new_array 0) (Some (amf_new_integer 0))) (\<lambda>msg. amf_push msg (Some (amf_new_integer RET_SUCCESS))) = Inr msg
    \<and> amf_array_ok msg \<and> amf_items msg = [Some (AVinteger 1 0), Some (AVinteger 1 0)]"
proof -
  have "amf_array_ok (amf_new_array 0)" "amf_items (amf_new_array 0) = []" by (simp_all add: amf_new_array_def)
  then obtain m1 where m1: "amf_push (amf_new_array 0) (Some (amf_new_integer 0)) = Inr m1" "amf_array_ok m1" "amf_items m1 = [Some (amf_new_integer 0)]"
    using amf_push_appends[of "amf_new_array 0" "Some (amf_new_integer 0)"] by auto
  then obtain m2 where "amf_push m1 (Some (amf_new_integer RET_SUCCESS)) = Inr m2" "amf_array_ok m2"
    "amf_items m2 = [Some (amf_new_integer 0), Some (amf_new_integer RET_SUCCESS)]"
    using amf_push_appends[of m1 "Some (amf_new_integer RET_SUCCESS)"] by auto
  with m1(1) show ?thesis by (auto simp: amf_new_integer_def RET_SUCCESS_def)
qed

lemma clean_players_ok:
  assumes "notify_ok s ps" and "length ps < REG_MAX - 1" and "length ps \<le> fuel" and "\<forall>(a, bs) \<in> set ps. length bs < REG_MAX \<and> length bs \<le> inner"
    and "\<forall>(pid, ns) \<in> set (notices s ps). amf_wf (Some (notice_message ns))"
  shows "\<exists>s'. clean_players conn_of inner fuel s = Some (Inr (map (delivered conn_of) (notices s ps), s')) \<and> notify_ok s' [] \<and> ns_counts s' = ns_counts s"
  using assms
proof (induction ps arbitrary: s fuel)
  case Nil
  then show ?case by (subst clean_players.simps) (auto simp: notify_ok_def notices_def)
next
  case (Cons x ps)
  obtain a bs where x: "x = (a, bs)" by (cases x)
  note d = notify_okD[OF Cons.prems(1)[unfolded x]]
  obtain pn where pn: "ns_players s a = Some pn" "notes_ok (ns_notes s) pn bs" using d(4)[of a bs] by auto
  obtain f where f: "fuel = Suc f" "length ps \<le> f" using Cons.prems(3) by (cases fuel) auto
  have a: "player_notify_list s = a" "a \<noteq> 0" using d(1) by auto
  have bs: "length bs < REG_MAX" "length bs \<le> inner" and len: "length ps < REG_MAX - 1" using Cons.prems(2,4) x by auto
  obtain h where h: "agMap_ip_set (player_notify_hash s) (pn_playerid pn) None = Some (Inr (Some a, Some h))"
    "\<And>s'. s' = s\<lparr>player_notify_list := pn_next pn, player_notify_hash := Some h, ns_players := (ns_players s)(a := None),
          ns_notes := (\<lambda>x. if x \<in> set bs then None else ns_notes s x)\<rparr> \<Longrightarrow> notify_ok s' ps \<and> notices s' ps = notices s ps"
    by (rule notify_drop_first[OF Cons.prems(1)[unfolded x] pn(1) len]) (rule that)
  obtain msg where msg: "res_bind (amf_push (amf_new_array 0) (Some (amf_new_integer 0))) (\<lambda>msg. amf_push msg (Some (amf_new_integer RET_SUCCESS))) = Inr msg"
    "amf_array_ok msg" "amf_items msg = [Some (AVinteger 1 0), Some (AVinteger 1 0)]" using first_pushes by blast
  obtain m where m: "pn_m pn = Some m" "tight_map m" "map_room m" by (rule notes_room[OF pn(2) bs(1)])
  have card: "card (dom (agMap_ip_get (Some m))) < REG_MAX" using card_keys[OF pn(2) m(1)] bs(1) by simp
  let ?s1 = "s\<lparr>player_notify_list := pn_next pn, player_notify_hash := Some h\<rparr>"
  have s1: "ns_notes ?s1 = ns_notes s" by simp
  obtain m' msg' where t: "take_notes inner (pn_l pn) (Some m) msg ?s1 =
      Some (Inr ((Some m', msg'), ?s1\<lparr>ns_notes := (\<lambda>x. if x \<in> set bs then None else ns_notes s x)\<rparr>))"
    "amf_array_ok msg'" "amf_items msg' = amf_items msg @ map (\<lambda>b. Some (notice_item (note_view (ns_notes s) b))) bs"
    using take_notes_ok[of ?s1 "pn_l pn" bs m msg inner] notes_okD(1,2)[OF pn(2)] m(2) card msg(2) bs(2) unfolding s1 by blast
  have nx: "notices s (x # ps) = (pn_playerid pn, map (note_view (ns_notes s)) bs) # notices s ps" using x pn(1) by (simp add: notices_def)
  have out: "outgoing_of conn_of (pn_playerid pn) msg' = Inr (delivered conn_of (pn_playerid pn, map (note_view (ns_notes s)) bs))"
    by (rule outgoing_of_wire[OF t(2)]) (use t(3) msg(3) Cons.prems(5) nx in \<open>simp_all add: comp_def\<close>)
  let ?s2 = "?s1\<lparr>ns_notes := (\<lambda>x. if x \<in> set bs then None else ns_notes s x), ns_players := (ns_players s)(a := None)\<rparr>"
  have s2: "notify_ok ?s2 ps" "notices ?s2 ps = notices s ps" using h(2)[of ?s2] by simp_all
  obtain s' where s': "clean_players conn_of inner f ?s2 = Some (Inr (map (delivered conn_of) (notices s ps), s'))" "notify_ok s' []" "ns_counts s' = ns_counts s"
    using Cons.IH[OF s2(1) len f(2)] Cons.prems(4,5) s2(2) nx by auto
  have "clean_players conn_of inner fuel s = Some (Inr (map (delivered conn_of) (notices s (x # ps)), s'))"
    using a pn(1) h(1) msg(1) m(1) t(1) out s'(1) nx by (subst clean_players.simps) (simp add: f(1) deref_def)
  with s'(2,3) show ?case by blast
qed

section \<open>Properties\<close>

text \<open>C22: Leaving a notice refines the insertion in a list of notices for each player: with a key it replaces the value of
  the waiting notice with the same type and key, without one it becomes the player's last notice, and a player without notices
  gets a list of its own. Both calls succeed, keep the lists and maps consistent and leave the counters alone. (Addresses are fresh;
  fewer than \<open>REG_MAX\<close> players and notices.)\<close>

theorem notice_left:
  assumes "notify_ok s ps" and "a \<noteq> 0" and "a \<notin> fst ` set ps" and "b \<noteq> 0" and "b \<notin> set (concat (map snd ps))" and "type \<noteq> 0"
    and "length ps < REG_MAX" and "length (concat (map snd ps)) < REG_MAX - 1"
  shows "(\<exists>s' ps'. notification_set a b pid type key v s = Some (Inr (0, s')) \<and> notify_ok s' ps'
      \<and> notices s' ps' = leave pid (notify_rkey type key) type v (notices s ps) \<and> ns_counts s' = ns_counts s)
    \<and> (\<exists>s' ps'. notification_add a b pid type v s = Some (Inr (0, s')) \<and> notify_ok s' ps'
      \<and> notices s' ps' = leave pid 0 type v (notices s ps) \<and> ns_counts s' = ns_counts s)"
  using notification_set_ok[OF assms] notification_add_ok[OF assms(1-5,7)] by blast

definition no_notices :: notify_state where
  "no_notices = \<lparr>player_notify_hash = None, player_notify_list = 0, ns_players = (\<lambda>_. None), ns_notes = (\<lambda>_. None), ns_counts = nb_zero\<rparr>"

lemma loaded: "\<exists>s. module_notify_load no_notices = Inr (0, s) \<and> notify_ok s [] \<and> nb_ok (ns_counts s) []"
proof -
  obtain nb where nb: "nb_init nb_zero = Inr nb" "nb_ok nb []" using nb_init_ok by blast
  obtain m :: "(u64, addr) agmap" where m: "agMap_new None = Inr m" "tight_map m" "\<And>k. agMap_ip_get (Some m) k = None"
    by (rule new_map) (rule that)
  then show ?thesis using nb by (auto simp: module_notify_load_def no_notices_def notify_ok_def)
qed

theorem notice_left_witness:
  "\<exists>s s' ps'. module_notify_load no_notices = Inr (0, s) \<and> notification_set 16 32 7 2 5 None s = Some (Inr (0, s'))
    \<and> notices s' ps' = [(7, [(notify_rkey 2 5, 2, None)])]"
proof -
  obtain s where s: "module_notify_load no_notices = Inr (0, s)" "notify_ok s []" using loaded by blast
  have "notices s [] = []" by (simp add: notices_def)
  then show ?thesis using notice_left[OF s(2), of 16 32 2 7 5 None] s(1) by (auto simp: REG_MAX_def leave_def)
qed



end
