(* ===== verification/RewardFlag.thy ===== *)
theory RewardFlag
  imports RowTrip NotifySend
begin

text \<open>
  Flags for rewards a player has got, \<^verbatim>\<open>src/world/modules/reward_flag.c\<close>: a set of numbers, fifty to a row. Setting a flag leaves a notice
  for the client. Rows, map and list are those of \<open>RowSet\<close>, the notices those of \<open>Notify\<close>.
\<close>

section \<open>Table\<close>

record RewardFlag =
  rf_pid :: u64
  rf_id :: u32
  rf_value :: u64

definition rf_ids :: "nat list" where "rf_ids = [1, 2, 3]"

definition rf_copy :: "nat \<Rightarrow> RewardFlag \<Rightarrow> RewardFlag \<Rightarrow> RewardFlag" where
  "rf_copy i r d =
     (if i = 1 then d\<lparr>rf_pid := rf_pid r\<rparr> else if i = 2 then d\<lparr>rf_id := rf_id r\<rparr> else if i = 3 then d\<lparr>rf_value := rf_value r\<rparr> else d)"

definition rf_num :: "RewardFlag \<Rightarrow> u64" where "rf_num r = ucast (rf_id r)"

text \<open>\<open>atoll\<close> on the decimal digits of an unsigned 64-bit number.\<close>

definition atoll_u64 :: "u64 \<Rightarrow> u64" where
  "atoll_u64 v = (if uint v < 2 ^ 63 then v else 2 ^ 63 - 1)"

definition rf_parse :: "RewardFlag \<Rightarrow> RewardFlag" where
  "rf_parse r = r\<lparr>rf_value := atoll_u64 (rf_value r)\<rparr>"

section \<open>Operations\<close>

definition reward_flag_new :: "dlinks \<Rightarrow> RewardFlag table \<Rightarrow> RewardFlag row_set res" where
  "reward_flag_new links t = rows_new links t"

definition reward_flag_load :: "bool \<Rightarrow> RewardFlag list \<Rightarrow> addr list \<Rightarrow> dlinks \<Rightarrow> RewardFlag table \<Rightarrow> RewardFlag row_set option res option" where
  "reward_flag_load acc answer as links t = rows_load rf_num rf_parse acc answer as links t"

definition reward_flag_release :: "nat \<Rightarrow> RewardFlag row_set \<Rightarrow> (dlinks \<times> RewardFlag table) res option" where
  "reward_flag_release fuel S = rows_release fuel S"

definition NOTIFY_REWARDFLAG :: u32 where "NOTIFY_REWARDFLAG = 57"

definition flag_value :: "u64 \<Rightarrow> amf_value" where
  "flag_value v = (if v \<ge> ucast AMF_INTEGER_MAX then amf_new_double (double_of_int (uint v)) else amf_new_integer (ucast v))"

definition add_notify :: "addr \<Rightarrow> addr \<Rightarrow> RewardFlag \<Rightarrow> notify_state \<Rightarrow> int notifying" where
  "add_notify p b r ns =
     (let res = amf_new_array 3;
          res = fst (amf_set res 0 (Some (amf_new_integer (rf_id r))));
          res = fst (amf_set res 1 (Some (flag_value (rf_value r))))
      in notification_set p b (rf_pid r) NOTIFY_REWARDFLAG (rf_id r) (Some res) ns)"

definition flag_mask :: "u32 \<Rightarrow> u64" where
  "flag_mask fid = push_bit (unat (fid mod 50)) 1"

definition reward_flag_get :: "RewardFlag row_set \<Rightarrow> u32 \<Rightarrow> int res" where
  "reward_flag_get S fid =
     (let rid = fid div 50
      in case agMap_ip_get (rs_map S) (ucast rid) of
           None \<Rightarrow> Inr 0
         | Some a \<Rightarrow>
             (case dt_rows (rs_table S) a of
                None \<Rightarrow> Inl UseAfterFree
              | Some x \<Rightarrow> Inr (if and (rf_value (row x)) (flag_mask fid) > 0 then 1 else 0)))"

text \<open>\<open>a\<close> is the address of a new row, \<open>p\<close> and \<open>b\<close> are those of a new notice.\<close>

definition reward_flag_set ::
  "int \<Rightarrow> u64 \<Rightarrow> bool \<Rightarrow> addr \<Rightarrow> addr \<Rightarrow> addr \<Rightarrow> u32 \<Rightarrow> RewardFlag row_set \<Rightarrow> notify_state \<Rightarrow>
    (int \<times> RewardFlag row_set \<times> notify_state) res option" where
  "reward_flag_set now pid acc a p b fid S ns =
     (let rid = fid div 50; m = flag_mask fid
      in case agMap_ip_get (rs_map S) (ucast rid) of
           None \<Rightarrow>
             (let r = \<lparr>rf_pid = pid, rf_id = rid, rf_value = m\<rparr>
              in run_bind (rows_add rf_pid rf_num acc a r S) (\<lambda>(q, S).
                   if q = 0 then Some (Inr (-1, S, ns))
                   else run_bind (add_notify p b r ns) (\<lambda>(_, ns). Some (Inr (0, S, ns)))))
         | Some q \<Rightarrow>
             (case dt_rows (rs_table S) q of
                None \<Rightarrow> Some (Inl UseAfterFree)
              | Some x \<Rightarrow>
                  let v = rf_value (row x)
                  in if and v m \<noteq> 0 then Some (Inr (0, S, ns))
                     else
                       run_bind (Some (DATA_update now 3 (\<lambda>r. r\<lparr>rf_value := or v m\<rparr>) q (rs_table S))) (\<lambda>(_, t).
                       run_bind (add_notify p b ((row x)\<lparr>rf_value := or v m\<rparr>) ns) (\<lambda>(_, ns).
                         Some (Inr (0, S\<lparr>rs_table := t\<rparr>, ns))))))"

section \<open>Lemmas\<close>

definition rf_field :: "nat \<Rightarrow> RewardFlag \<Rightarrow> int" where
  "rf_field i r = (if i = 1 then uint (rf_pid r) else if i = 2 then uint (rf_id r) else uint (rf_value r))"

interpretation rf: owned_rows rf_field rf_ids rf_copy rf_pid rf_num
proof
  show "r = d" if "\<And>i. i \<in> set rf_ids \<Longrightarrow> rf_field i r = rf_field i d" for r d :: RewardFlag
    using that[of 1] that[of 2] that[of 3] by (cases r; cases d) (simp add: rf_ids_def rf_field_def word_uint_eq_iff)
qed (auto simp: rf_ids_def rf_copy_def rf_field_def)

text \<open>The set of flags.\<close>

definition flags :: "RewardFlag row_set \<Rightarrow> u32 set" where
  "flags S = {fid. \<exists>r. rows_of S (ucast (fid div 50)) = Some r \<and> bit (rf_value r) (unat (fid mod 50))}"

definition flags_ok :: "u64 \<Rightarrow> RewardFlag row_set \<Rightarrow> addr list \<Rightarrow> addr list \<Rightarrow> bool" where
  "flags_ok pid S xs ls \<longleftrightarrow> set_ok rf_pid rf_num rf_ids rf_copy pid S xs ls \<and> (\<forall>n r. rows_of S n = Some r \<longrightarrow> uint (rf_value r) < 2 ^ 50)"

lemma mod_50: "unat (fid mod 50 :: u32) < 50"
  by (simp add: unat_mod_distrib)

lemma mask_bit: "bit (flag_mask fid) j \<longleftrightarrow> j = unat (fid mod 50)"
  using mod_50[of fid] by (auto simp: flag_mask_def bit_exp_iff)

lemma mask_test: "and v (flag_mask fid) \<noteq> 0 \<longleftrightarrow> bit v (unat (fid mod 50))"
  using mod_50[of fid] by (auto simp: bit_eq_iff[of "and v (flag_mask fid)" 0] bit_and_iff mask_bit)

lemma get_flags:
  assumes "flags_ok pid S xs ls"
  shows "reward_flag_get S fid = Inr (if fid \<in> flags S then 1 else 0)"
proof (cases "agMap_ip_get (rs_map S) (ucast (fid div 50))")
  case None
  then show ?thesis by (simp add: reward_flag_get_def flags_def rows_of_def)
next
  case (Some a)
  have "a \<in> set xs" using reg_okD(3)[OF set_okD(3)[of rf_pid rf_num rf_ids rf_copy pid S xs ls]] Some assms by (auto simp: flags_ok_def)
  then obtain x where "dt_rows (rs_table S) a = Some x" using set_okD(4)[of rf_pid rf_num rf_ids rf_copy pid S xs ls a] assms by (auto simp: flags_ok_def)
  then show ?thesis using Some mask_test[of "rf_value (row x)" fid] by (auto simp: reward_flag_get_def flags_def rows_of_def word_gt_0)
qed

text \<open>Numbers in the same row at the same place are the same.\<close>

lemma same_flag: "fid div 50 = gid div 50 \<Longrightarrow> fid mod 50 = gid mod 50 \<Longrightarrow> fid = (gid :: u32)"
  by (metis div_mult_mod_eq)

lemma flags_update:
  assumes "rows_of S' = (rows_of S)(ucast (fid div 50) \<mapsto> r)"
    and "\<And>j. bit (rf_value r) j \<longleftrightarrow> j = unat (fid mod 50) \<or> (\<exists>q. rows_of S (ucast (fid div 50)) = Some q \<and> bit (rf_value q) j)"
  shows "flags S' = insert fid (flags S)"
proof (rule set_eqI)
  fix gid
  show "gid \<in> flags S' \<longleftrightarrow> gid \<in> insert fid (flags S)"
  proof (cases "gid div 50 = fid div 50")
    case True
    then have "unat (gid mod 50) = unat (fid mod 50) \<longleftrightarrow> gid = fid" using same_flag word_unat_eq_iff by blast
    moreover have "gid \<in> flags S' \<longleftrightarrow> bit (rf_value r) (unat (gid mod 50))" using True assms(1) by (simp add: flags_def)
    ultimately show ?thesis using True assms(2) by (simp add: flags_def)
  next
    case False
    then show ?thesis using assms(1) by (auto simp: flags_def row_number)
  qed
qed

lemma value_bits: "uint (v :: u64) < 2 ^ 50 \<longleftrightarrow> take_bit 50 v = v"
  by (simp add: word_uint_eq_iff unsigned_take_bit_eq take_bit_int_eq_self_iff)

lemma value_bound: "uint v < 2 ^ 50 \<Longrightarrow> uint (or v (flag_mask fid)) < 2 ^ 50" and mask_bound: "uint (flag_mask fid) < 2 ^ 50"
proof -
  have m: "take_bit 50 (flag_mask fid) = flag_mask fid"
    using mod_50[of fid] by (auto simp: bit_eq_iff[of _ "flag_mask fid"] bit_take_bit_iff mask_bit)
  then show "uint (flag_mask fid) < 2 ^ 50" by (simp only: value_bits)
  show "uint v < 2 ^ 50 \<Longrightarrow> uint (or v (flag_mask fid)) < 2 ^ 50" using m by (simp only: value_bits take_bit_or)
qed

text \<open>The notice for a row, as it is left by \<open>add_notify\<close>.\<close>

definition flag_notice :: "RewardFlag \<Rightarrow> amf_value" where
  "flag_notice r = AVarray 3 [Some (AVinteger 1 (rf_id r)), Some (flag_value (rf_value r)), None]"

lemma add_notify_ok:
  assumes "notify_ok ns ps" and "p \<noteq> 0" and "p \<notin> fst ` set ps" and "b \<noteq> 0" and "b \<notin> set (concat (map snd ps))"
    and "length ps < REG_MAX" and "length (concat (map snd ps)) < REG_MAX - 1"
  shows "\<exists>ns' ps'. add_notify p b r ns = Some (Inr (0, ns')) \<and> notify_ok ns' ps'
    \<and> notices ns' ps' = leave (rf_pid r) (notify_rkey NOTIFY_REWARDFLAG (rf_id r)) NOTIFY_REWARDFLAG (Some (flag_notice r)) (notices ns ps)"
proof -
  have n: "NOTIFY_REWARDFLAG \<noteq> 0" by (simp add: NOTIFY_REWARDFLAG_def)
  have "add_notify p b r ns = notification_set p b (rf_pid r) NOTIFY_REWARDFLAG (rf_id r) (Some (flag_notice r)) ns"
    by (simp add: add_notify_def flag_notice_def amf_new_array_def amf_new_integer_def eval_nat_numeral Let_def)
  then show ?thesis
    using notification_set_ok[OF assms(1-5) n assms(6,7), of "rf_pid r" "rf_id r" "Some (flag_notice r)"] by auto
qed

text \<open>The two cases of setting a flag that is not set: a new row or a new bit in a row.\<close>

definition room_for_notice :: "notify_state \<Rightarrow> (addr \<times> addr list) list \<Rightarrow> addr \<Rightarrow> addr \<Rightarrow> bool" where
  "room_for_notice ns ps p b \<longleftrightarrow> notify_ok ns ps \<and> p \<noteq> 0 \<and> p \<notin> fst ` set ps \<and> b \<noteq> 0 \<and> b \<notin> set (concat (map snd ps))
     \<and> length ps < REG_MAX \<and> length (concat (map snd ps)) < REG_MAX - 1"

definition flag_left :: "RewardFlag \<Rightarrow> (u64 \<times> notice list) list \<Rightarrow> (u64 \<times> notice list) list" where
  "flag_left r = leave (rf_pid r) (notify_rkey NOTIFY_REWARDFLAG (rf_id r)) NOTIFY_REWARDFLAG (Some (flag_notice r))"

lemma flag_noticed:
  "room_for_notice ns ps p b \<Longrightarrow> \<exists>ns' ps'. add_notify p b r ns = Some (Inr (0, ns')) \<and> notify_ok ns' ps' \<and> notices ns' ps' = flag_left r (notices ns ps)"
  unfolding room_for_notice_def flag_left_def using add_notify_ok by blast

lemma set_new_row:
  assumes "flags_ok pid S xs ls" and "length xs < REG_MAX" and "dt_rows (rs_table S) a = None" and "a \<noteq> 0" and "a \<noteq> VOID_ROW"
    and "rows_of S (ucast (fid div 50)) = None" and "agMap_ip_get (rs_map S) (ucast (fid div 50)) = None" and "room_for_notice ns ps p b"
  shows "\<exists>S' ns' ps' r. reward_flag_set now pid True a p b fid S ns = Some (Inr (0, S', ns')) \<and> flags_ok pid S' (xs @ [a]) ls
    \<and> flags S' = insert fid (flags S) \<and> notify_ok ns' ps' \<and> rows_of S' (ucast (fid div 50)) = Some r \<and> notices ns' ps' = flag_left r (notices ns ps)"
proof -
  let ?r = "\<lparr>rf_pid = pid, rf_id = fid div 50, rf_value = flag_mask fid\<rparr>"
  have num: "rf_num ?r = ucast (fid div 50)" by (simp add: rf_num_def)
  obtain S' where S': "rows_add rf_pid rf_num True a ?r S = Some (Inr (a, S'))" "set_ok rf_pid rf_num rf_ids rf_copy pid S' (xs @ [a]) ls"
    "rows_of S' = (rows_of S)(ucast (fid div 50) \<mapsto> ?r)"
    using set_add_ok[of rf_pid rf_num rf_ids rf_copy pid S xs ls a ?r] assms(1-6) unfolding num by (auto simp: flags_ok_def)
  obtain ns' ps' where n: "add_notify p b ?r ns = Some (Inr (0, ns'))" "notify_ok ns' ps'" "notices ns' ps' = flag_left ?r (notices ns ps)"
    using flag_noticed[OF assms(8)] by blast
  have "reward_flag_set now pid True a p b fid S ns = Some (Inr (0, S', ns'))"
    using assms(4,7) S'(1) n(1) by (simp add: reward_flag_set_def Let_def)
  moreover have "flags S' = insert fid (flags S)"
    by (rule flags_update[OF S'(3)]) (use assms(6) in \<open>simp add: mask_bit\<close>)
  moreover have "flags_ok pid S' (xs @ [a]) ls" using assms(1) S'(2,3) mask_bound by (auto simp: flags_ok_def)
  ultimately show ?thesis using n(2,3) S'(3) by fastforce
qed

lemma set_new_bit:
  assumes "flags_ok pid S xs ls" and "agMap_ip_get (rs_map S) (ucast (fid div 50)) = Some q" and "rows_of S (ucast (fid div 50)) = Some r"
    and "\<not> bit (rf_value r) (unat (fid mod 50))" and "room_for_notice ns ps p b"
  shows "\<exists>S' ls' ns' ps' r. reward_flag_set now pid True a p b fid S ns = Some (Inr (0, S', ns')) \<and> flags_ok pid S' xs ls'
    \<and> flags S' = insert fid (flags S) \<and> notify_ok ns' ps' \<and> rows_of S' (ucast (fid div 50)) = Some r \<and> notices ns' ps' = flag_left r (notices ns ps)"
proof -
  let ?put = "\<lambda>x. x\<lparr>rf_value := or (rf_value r) (flag_mask fid)\<rparr>"
  have ok: "set_ok rf_pid rf_num rf_ids rf_copy pid S xs ls" using assms(1) by (simp add: flags_ok_def)
  have three: "3 \<in> set rf_ids" by (simp add: rf_ids_def)
  have put: "rf_field j (?put r) = rf_field j r" if "j \<in> set rf_ids" "j \<noteq> 3" for j using that by (auto simp: rf_ids_def rf_field_def)
  obtain t ls' where t: "DATA_update now 3 ?put q (rs_table S) = Inr (0, t)" "set_ok rf_pid rf_num rf_ids rf_copy pid (S\<lparr>rs_table := t\<rparr>) xs ls'"
    "rows_of (S\<lparr>rs_table := t\<rparr>) = (rows_of S)(ucast (fid div 50) \<mapsto> ?put r)"
    using rf.set_update_ok[where put = ?put, OF ok assms(2,3) three put, of now] by (auto simp: rf_num_def)
  obtain ns' ps' where n: "add_notify p b (?put r) ns = Some (Inr (0, ns'))" "notify_ok ns' ps'" "notices ns' ps' = flag_left (?put r) (notices ns ps)"
    using flag_noticed[OF assms(5)] by blast
  obtain x where x: "dt_rows (rs_table S) q = Some x" "row x = r" using assms(2,3) by (auto simp: rows_of_def)
  have "reward_flag_set now pid True a p b fid S ns = Some (Inr (0, S\<lparr>rs_table := t\<rparr>, ns'))"
    using assms(2,4) x t(1) n(1) mask_test[of "rf_value r" fid] by (simp add: reward_flag_set_def Let_def)
  moreover have "flags (S\<lparr>rs_table := t\<rparr>) = insert fid (flags S)"
    by (rule flags_update[OF t(3)]) (use assms(3) in \<open>auto simp: bit_or_iff mask_bit\<close>)
  moreover have "flags_ok pid (S\<lparr>rs_table := t\<rparr>) xs ls'" using assms(1,3) t(2,3) value_bound by (auto simp: flags_ok_def)
  ultimately show ?thesis using n(2,3) t(3) by fastforce
qed

section \<open>Properties\<close>

text \<open>C24: The rows implement a set of numbers. Setting a flag adds exactly this one, for every number, whether its row exists or not, and always
  succeeds; asking for a flag says whether it is in the set. If the flag was not set, the player is left a notice with the row, otherwise nothing
  happens. Map, list, rows and database stay consistent.\<close>

theorem reward_flag_set_adds:
  assumes "flags_ok pid S xs ls" and "length xs < REG_MAX" and "dt_rows (rs_table S) a = None" and "a \<noteq> 0" and "a \<noteq> VOID_ROW" and "room_for_notice ns ps p b"
  shows "\<exists>S' ns' xs' ls' ps'. reward_flag_set now pid True a p b fid S ns = Some (Inr (0, S', ns')) \<and> flags_ok pid S' xs' ls' \<and> notify_ok ns' ps'
    \<and> (\<forall>gid. reward_flag_get S' gid = (if gid = fid then Inr 1 else reward_flag_get S gid))
    \<and> (if reward_flag_get S fid = Inr 1 then S' = S \<and> ns' = ns
       else \<exists>r. rows_of S' (ucast (fid div 50)) = Some r \<and> notices ns' ps' = flag_left r (notices ns ps))"
proof -
  note g = get_flags[OF assms(1)]
  have get: "reward_flag_get S' gid = (if gid = fid then Inr 1 else reward_flag_get S gid)" if "flags_ok pid S' xs' ls'" "flags S' = insert fid (flags S)" for S' xs' ls' gid
    unfolding g get_flags[OF that(1)] that(2) by simp
  show ?thesis
  proof (cases "agMap_ip_get (rs_map S) (ucast (fid div 50))")
    case None
    then have none: "rows_of S (ucast (fid div 50)) = None" by (simp add: rows_of_def)
    then have "fid \<notin> flags S" by (simp add: flags_def)
    then show ?thesis using set_new_row[OF assms(1-5) none None assms(6), of now] get g[of fid] by fastforce
  next
    case (Some q)
    then have "q \<in> set xs" using reg_okD(3)[OF set_okD(3)[of rf_pid rf_num rf_ids rf_copy pid S xs ls]] assms(1) by (auto simp: flags_ok_def)
    then obtain x where x: "dt_rows (rs_table S) q = Some x" using set_okD(4)[of rf_pid rf_num rf_ids rf_copy pid S xs ls q] assms(1) by (auto simp: flags_ok_def)
    then have r: "rows_of S (ucast (fid div 50)) = Some (row x)" using Some by (simp add: rows_of_def)
    show ?thesis
    proof (cases "fid \<in> flags S")
      case True
      then have "reward_flag_set now pid True a p b fid S ns = Some (Inr (0, S, ns))"
        using Some x r mask_test[of "rf_value (row x)" fid] by (simp add: reward_flag_set_def flags_def Let_def)
      moreover have "insert fid (flags S) = flags S" using True by auto
      ultimately show ?thesis using True g[of fid] get[OF assms(1)] assms(1,6) unfolding room_for_notice_def by auto
    next
      case False
      then have "\<not> bit (rf_value (row x)) (unat (fid mod 50))" using r by (simp add: flags_def)
      then show ?thesis using set_new_bit[OF assms(1) Some r _ assms(6), of now a] get g[of fid] False by fastforce
    qed
  qed
qed

text \<open>The room the first flag and notice need.\<close>

lemma first_room: "notify_ok ns [] \<Longrightarrow> room_for_notice ns [] 16 32"
  by (simp add: room_for_notice_def REG_MAX_def)

lemma first_flags: "\<exists>S. reward_flag_new links no_rows = Inr S \<and> flags_ok pid S [] [] \<and> rs_table S = no_rows"
  using rows_new_ok[of links rf_pid rf_num rf_ids rf_copy pid] by (auto simp: reward_flag_new_def flags_ok_def)

theorem reward_flag_set_adds_witness:
  "\<exists>S ns S' ns'. reward_flag_new undefined no_rows = Inr S \<and> module_notify_load no_notices = Inr (0, ns)
    \<and> reward_flag_set 1000 7 True 48 16 32 123 S ns = Some (Inr (0, S', ns')) \<and> reward_flag_get S' 123 = Inr 1"
proof -
  obtain S where S: "reward_flag_new undefined no_rows = Inr S" "flags_ok 7 S [] []" "rs_table S = no_rows" using first_flags by blast
  obtain ns where ns: "module_notify_load no_notices = Inr (0, ns)" "notify_ok ns []" using loaded by blast
  have "dt_rows (rs_table S) 48 = None" "(48 :: addr) \<noteq> VOID_ROW" using S(3) by (simp_all add: no_rows_def VOID_ROW_def)
  then show ?thesis
    using reward_flag_set_adds[OF S(2) _ _ _ _ first_room[OF ns(2)], of 48 1000 123] S(1) ns(1) by (auto simp: REG_MAX_def)
qed

lemma parse_flag: "uint (rf_value r) < 2 ^ 50 \<Longrightarrow> rf_parse r = r"
  by (simp add: rf_parse_def atoll_u64_def)

text \<open>C7: Flags are not forgotten. When the data of a player are released, the table is flushed and the player is loaded again, in whatever order the database
  returns the rows, every flag is as it was; in between the database holds exactly the player's rows. (The words are below \<open>2 ^ 50\<close>, so that they survive being
  written as text and read with \<open>atoll\<close>.)\<close>

theorem reward_flags_survive:
  assumes "flags_ok pid S xs ls" and "length xs \<le> fuel" and "length ls + length xs \<le> fuel2"
  shows "\<exists>links t t'. reward_flag_release fuel S = Some (Inr (links, t))
    \<and> DATA_flush (\<lambda>_. True) (row_key rf_pid rf_num) rf_ids rf_copy now fuel2 t = Some (Inr (0, t')) \<and> (\<forall>n. dt_db t' (pid, n) = rows_of S n)
    \<and> (\<forall>answer as. answers pid t' answer as \<longrightarrow>
        (\<exists>S' ls'. reward_flag_load True answer as links t' = Some (Inr (Some S')) \<and> flags_ok pid S' (rev as) ls'
          \<and> (\<forall>fid. reward_flag_get S' fid = reward_flag_get S fid)))"
proof -
  have ok: "set_ok rf_pid rf_num rf_ids rf_copy pid S xs ls" and b: "\<And>n r. rows_of S n = Some r \<Longrightarrow> uint (rf_value r) < 2 ^ 50"
    using assms(1) by (auto simp: flags_ok_def)
  have same: "flags_ok pid S' as ls' \<and> (\<forall>fid. reward_flag_get S' fid = reward_flag_get S fid)"
    if S': "set_ok rf_pid rf_num rf_ids rf_copy pid S' as ls'" "rows_of S' = rows_of S" for S' as ls'
  proof -
    have f: "flags_ok pid S' as ls'" using S' b by (simp add: flags_ok_def)
    moreover have "flags S' = flags S" using S'(2) by (simp add: flags_def)
    ultimately show ?thesis unfolding get_flags[OF f] get_flags[OF assms(1)] by simp
  qed
  obtain links t t' where r: "rows_release fuel S = Some (Inr (links, t))"
    "DATA_flush (\<lambda>_. True) (row_key rf_pid rf_num) rf_ids rf_copy now fuel2 t = Some (Inr (0, t'))" "\<forall>n. dt_db t' (pid, n) = rows_of S n"
    "\<forall>answer as. answers pid t' answer as \<longrightarrow> (\<exists>S' ls'. rows_load rf_num rf_parse True answer as links t' = Some (Inr (Some S'))
      \<and> set_ok rf_pid rf_num rf_ids rf_copy pid S' (rev as) ls' \<and> rows_of S' = rows_of S)"
    using rows_survive[where parse = rf_parse and now = now, OF ok assms(2,3)] parse_flag[OF b] by blast
  show ?thesis
    unfolding reward_flag_release_def reward_flag_load_def using r same by metis
qed

theorem reward_flags_survive_witness:
  "\<exists>S ns S' ns' links t t' r. reward_flag_new undefined no_rows = Inr S \<and> module_notify_load no_notices = Inr (0, ns)
    \<and> reward_flag_set 1000 7 True 48 16 32 123 S ns = Some (Inr (0, S', ns')) \<and> reward_flag_release 1 S' = Some (Inr (links, t))
    \<and> DATA_flush (\<lambda>_. True) (row_key rf_pid rf_num) rf_ids rf_copy 1000 1 t = Some (Inr (0, t')) \<and> dt_db t' (7, 2) = Some r"
proof -
  obtain S where S: "reward_flag_new undefined no_rows = Inr S" "flags_ok 7 S [] []" "rs_table S = no_rows" using first_flags by blast
  obtain ns where ns: "module_notify_load no_notices = Inr (0, ns)" "notify_ok ns []" using loaded by blast
  have fr: "dt_rows (rs_table S) 48 = None" "(48 :: addr) \<noteq> VOID_ROW" "(48 :: addr) \<noteq> 0" "length ([] :: addr list) < REG_MAX"
    using S(3) by (simp_all add: no_rows_def VOID_ROW_def REG_MAX_def)
  have none: "agMap_ip_get (rs_map S) (ucast (123 div 50 :: u32)) = None" "rows_of S (ucast (123 div 50 :: u32)) = None"
    using reg_get_None[OF set_okD(3)[of rf_pid rf_num rf_ids rf_copy 7 S "[]" "[]"]] S(2) by (auto simp: flags_ok_def rows_of_def)
  obtain S' ns' r where S': "reward_flag_set 1000 7 True 48 16 32 123 S ns = Some (Inr (0, S', ns'))" "flags_ok 7 S' [48] []"
    "rows_of S' (ucast (123 div 50 :: u32)) = Some r"
    using set_new_row[OF S(2) fr(4,1,3,2) none(2,1) first_room[OF ns(2)], of 1000] by auto
  then show ?thesis using reward_flags_survive[OF S'(2), of 1 1 1000] S(1) ns(1) by auto
qed

end
