(* ===== verification/Timeline.thy ===== *)
theory Timeline
  imports CPrelude
begin

text \<open>
  Days and weeks of the world, \<^verbatim>\<open>src/world/timeline.c\<close>: they are counted from the start of the week in which the system
  was started, which the database keeps. \<open>start\<close> is \<open>_startTime\<close>; times are integers.
\<close>

section \<open>Operations\<close>

definition DAY_SEC :: int where "DAY_SEC = 3600 * 24"
definition WEEK_SEC :: int where "WEEK_SEC = 3600 * 24 * 7"
definition time_base :: int where "time_base = 1295712000"

text \<open>Weeks start on Monday.\<close>

definition adjustTime :: "int \<Rightarrow> int" where
  "adjustTime now =
     (let start = time_base + 3600 * 24; sep = now - start
      in start + (sep - c_mod sep WEEK_SEC))"

text \<open>\<open>found\<close> is what the query for the stored time says: an error, no row, or a value (\<open>onQuery\<close>); \<open>stored\<close> says whether the
  database takes the new value. The result is the return code, the start time and the value written, if any.\<close>

definition module_timeline_load :: "int option option \<Rightarrow> bool \<Rightarrow> int \<Rightarrow> int \<times> int \<times> int option" where
  "module_timeline_load found stored now =
     (case found of
        None \<Rightarrow> (-1, 0, None)
      | Some v \<Rightarrow>
          let start = (case v of None \<Rightarrow> 0 | Some t \<Rightarrow> t)
          in if start = 0 then
               let start = adjustTime now
               in if stored then (0, adjustTime start, Some start) else (-1, start, Some start)
             else (0, adjustTime start, None))"

definition timeline_get :: "int \<Rightarrow> int \<Rightarrow> u32 \<Rightarrow> int" where
  "timeline_get start now loop =
     (let loop = (if loop = 0 then 1 else loop)
      in if now < start then 0 else c_div (now - start) (uint loop) + 1)"

definition timeline_get_sec :: "int \<Rightarrow> int \<Rightarrow> int" where
  "timeline_get_sec start now = timeline_get start now 1"

definition timeline_get_day :: "int \<Rightarrow> int \<Rightarrow> int" where
  "timeline_get_day start now = timeline_get start now (word_of_int DAY_SEC)"

definition timeline_get_week :: "int \<Rightarrow> int \<Rightarrow> int" where
  "timeline_get_week start now = timeline_get start now (word_of_int WEEK_SEC)"

text \<open>The opening time of the server, kept in memory once it is known. \<open>answer\<close>: an error of the query, no row, or a value.\<close>

definition get_open_server_time :: "int option option \<Rightarrow> int \<Rightarrow> int \<times> int" where
  "get_open_server_time answer t =
     (if t = 0 then let t = (case answer of None \<Rightarrow> 1 | Some None \<Rightarrow> t | Some (Some v) \<Rightarrow> v) in (t, t) else (t, t))"

section \<open>Properties\<close>

lemma adjust_floor:
  assumes "time_base + DAY_SEC \<le> now"
  shows "adjustTime now = time_base + DAY_SEC + (now - (time_base + DAY_SEC)) div WEEK_SEC * WEEK_SEC"
proof -
  have "adjustTime now = now - c_mod (now - (time_base + DAY_SEC)) WEEK_SEC" by (simp add: adjustTime_def Let_def DAY_SEC_def)
  moreover have "c_mod (now - (time_base + DAY_SEC)) WEEK_SEC = (now - (time_base + DAY_SEC)) mod WEEK_SEC"
    using assms by (simp add: c_mod_nonneg WEEK_SEC_def)
  ultimately show ?thesis using div_mult_mod_eq[of "now - (time_base + DAY_SEC)" WEEK_SEC] by linarith
qed

lemma day_eq: "timeline_get_day start now = (if now < start then 0 else (now - start) div DAY_SEC + 1)"
  by (simp add: timeline_get_day_def timeline_get_def c_div_nonneg DAY_SEC_def)

lemma week_eq: "timeline_get_week start now = (if now < start then 0 else (now - start) div WEEK_SEC + 1)"
  by (simp add: timeline_get_week_def timeline_get_def c_div_nonneg WEEK_SEC_def)

lemma sec_eq: "timeline_get_sec start now = (if now < start then 0 else now - start + 1)"
  by (simp add: timeline_get_sec_def timeline_get_def c_div_nonneg)

lemma day_mono: "now \<le> later \<Longrightarrow> timeline_get_day start now \<le> timeline_get_day start later"
proof -
  assume le: "now \<le> later"
  then have "(now - start) div DAY_SEC \<le> (later - start) div DAY_SEC" by (intro zdiv_mono1) (simp_all add: DAY_SEC_def)
  moreover have "now \<ge> start \<Longrightarrow> 0 \<le> (now - start) div DAY_SEC" "later \<ge> start \<Longrightarrow> 0 \<le> (later - start) div DAY_SEC"
    by (simp_all add: pos_imp_zdiv_nonneg_iff DAY_SEC_def)
  ultimately show ?thesis using le by (auto simp: day_eq)
qed

lemma adjust_idem: "time_base + DAY_SEC \<le> now \<Longrightarrow> adjustTime (adjustTime now) = adjustTime now"
  by (simp add: adjust_floor WEEK_SEC_def pos_imp_zdiv_nonneg_iff)

lemma timeline_facts:
  assumes "time_base + DAY_SEC \<le> now" and "module_timeline_load (Some None) True now = (0, start, Some v)" and "start \<le> t"
  shows "module_timeline_load (Some (Some v)) stored later = (0, start, None)" and "start \<le> now" and "now < start + WEEK_SEC"
    and "(start - (time_base + DAY_SEC)) mod WEEK_SEC = 0"
    and "timeline_get_day start t = (t - (time_base + DAY_SEC)) div DAY_SEC - (start - (time_base + DAY_SEC)) div DAY_SEC + 1"
    and "timeline_get_week start t = (t - (time_base + DAY_SEC)) div WEEK_SEC - (start - (time_base + DAY_SEC)) div WEEK_SEC + 1"
proof -
  let ?b = "time_base + DAY_SEC"
  have v: "start = adjustTime now" "v = adjustTime now" using assms(2) adjust_idem[OF assms(1)] by (auto simp: module_timeline_load_def Let_def)
  obtain k where k: "start = ?b + k * WEEK_SEC" "k = (now - ?b) div WEEK_SEC" "0 \<le> k"
    using adjust_floor[OF assms(1)] v(1) assms(1) by (simp add: pos_imp_zdiv_nonneg_iff WEEK_SEC_def)
  have pos: "start \<noteq> 0" using k(1,3) by (simp add: time_base_def DAY_SEC_def WEEK_SEC_def)
  show "module_timeline_load (Some (Some v)) stored later = (0, start, None)"
    using v adjust_idem[OF assms(1)] pos by (simp add: module_timeline_load_def)
  have m: "now - ?b = k * WEEK_SEC + (now - ?b) mod WEEK_SEC" "0 \<le> (now - ?b) mod WEEK_SEC" "(now - ?b) mod WEEK_SEC < WEEK_SEC"
    unfolding k(2) by (simp_all add: WEEK_SEC_def)
  show "start \<le> now" "now < start + WEEK_SEC" using k(1) m by linarith+
  show "(start - ?b) mod WEEK_SEC = 0" using k(1) by simp
  have w: "WEEK_SEC = 7 * DAY_SEC" "DAY_SEC > 0" by (simp_all add: WEEK_SEC_def DAY_SEC_def)
  have shift: "(t - start) div p = (t - ?b) div p - (start - ?b) div p" if "start - ?b = q * p" "p > 0" for p q
  proof -
    have e: "t - ?b = (t - start) + q * p" using that(1) by simp
    have "(t - ?b) div p = (t - start) div p + q" unfolding e using that(2) by simp
    then show ?thesis using that by simp
  qed
  have "start - ?b = k * 7 * DAY_SEC" "start - ?b = k * WEEK_SEC" using k(1) w(1) by simp_all
  from shift[OF this(1)] shift[OF this(2)]
  show "timeline_get_day start t = (t - ?b) div DAY_SEC - (start - ?b) div DAY_SEC + 1"
    and "timeline_get_week start t = (t - ?b) div WEEK_SEC - (start - ?b) div WEEK_SEC + 1"
    using assms(3) w by (simp_all add: day_eq week_eq)
qed

text \<open>Loading the timeline fixes the weeks for good: the start is the last Monday midnight, what is written to the database is read back as
  the same start at any later time, and from then on days and weeks are counted from one, changing exactly at midnight and on Monday midnight.\<close>

theorem timeline_stable:
  assumes "time_base + DAY_SEC \<le> now" and "module_timeline_load (Some None) True now = (0, start, Some v)" and "start \<le> t"
  shows "module_timeline_load (Some (Some v)) stored later = (0, start, None) \<and> start \<le> now \<and> now < start + WEEK_SEC
    \<and> (start - (time_base + DAY_SEC)) mod WEEK_SEC = 0
    \<and> timeline_get_day start t = (t - (time_base + DAY_SEC)) div DAY_SEC - (start - (time_base + DAY_SEC)) div DAY_SEC + 1
    \<and> timeline_get_week start t = (t - (time_base + DAY_SEC)) div WEEK_SEC - (start - (time_base + DAY_SEC)) div WEEK_SEC + 1"
  using timeline_facts[OF assms] by blast

theorem timeline_stable_witness:
  "module_timeline_load (Some None) True 1700000000 = (0, 1699804800, Some 1699804800)
    \<and> module_timeline_load (Some (Some 1699804800)) True 1800000000 = (0, 1699804800, None)"
proof -
  have "module_timeline_load (Some None) True 1700000000 = (0, 1699804800, Some 1699804800)" by code_simp
  moreover have "time_base + DAY_SEC \<le> 1700000000" by code_simp
  ultimately show ?thesis using timeline_stable[of 1700000000 1699804800 1699804800 1699804800 True 1800000000] by simp
qed

end
