(* ===== verification/Daily.thy ===== *)
theory Daily
  imports RowTrip Timeline
begin

text \<open>
  Values that start from zero every day, \<^verbatim>\<open>src/world/modules/daily.c\<close>: counters of a player, each with the time of its last change. A
  counter whose last change was on another day counts as zero and is reset when it is looked at. The day of the game starts at five in the morning, only the time a
  player has been online (counter 1) goes by the calendar day. \<open>start\<close> is the start time of the timeline, \<open>now\<close> is \<open>agT_current()\<close>,
  \<open>add_notify\<close> of this module does nothing.
\<close>

section \<open>Table\<close>

record DailyData =
  dd_pid :: u64
  dd_id :: u32
  dd_update_time :: int
  dd_value :: u32
  dd_total :: u32

definition dd_ids :: "nat list" where "dd_ids = [1, 2, 3, 4, 5]"

definition dd_copy :: "nat \<Rightarrow> DailyData \<Rightarrow> DailyData \<Rightarrow> DailyData" where
  "dd_copy i r d =
     (if i = 1 then d\<lparr>dd_pid := dd_pid r\<rparr> else if i = 2 then d\<lparr>dd_id := dd_id r\<rparr> else if i = 3 then d\<lparr>dd_update_time := dd_update_time r\<rparr>
      else if i = 4 then d\<lparr>dd_value := dd_value r\<rparr> else if i = 5 then d\<lparr>dd_total := dd_total r\<rparr> else d)"

definition dd_num :: "DailyData \<Rightarrow> u64" where "dd_num r = ucast (dd_id r)"

definition DAILY_ITEM_ONLINE :: u32 where "DAILY_ITEM_ONLINE = 1"

definition DAY :: "int \<Rightarrow> int \<Rightarrow> int" where
  "DAY start x = timeline_get_day start (x - 5 * 3600)"

text \<open>The day by which a counter goes.\<close>

definition day_of :: "int \<Rightarrow> u32 \<Rightarrow> int \<Rightarrow> int" where
  "day_of start i x = (if i = DAILY_ITEM_ONLINE then timeline_get_day start x else DAY start x)"

section \<open>Operations\<close>

type_synonym daily_rows = "DailyData row_set"

definition daily_new :: "dlinks \<Rightarrow> DailyData table \<Rightarrow> daily_rows res" where
  "daily_new links t = rows_new links t"

definition daily_load :: "bool \<Rightarrow> DailyData list \<Rightarrow> addr list \<Rightarrow> dlinks \<Rightarrow> DailyData table \<Rightarrow> daily_rows option res option" where
  "daily_load acc answer as links t = rows_load dd_num (\<lambda>r. r) acc answer as links t"

text \<open>The two updates of \<open>value\<close> and \<open>update_time\<close>, as they follow each other in every operation.\<close>

definition daily_write :: "int \<Rightarrow> u32 \<Rightarrow> addr \<Rightarrow> daily_rows \<Rightarrow> daily_rows res" where
  "daily_write now v a S =
     res_bind (DATA_update now 4 (\<lambda>r. r\<lparr>dd_value := v\<rparr>) a (rs_table S)) (\<lambda>(_, t).
     res_bind (DATA_update now 3 (\<lambda>r. r\<lparr>dd_update_time := now\<rparr>) a t) (\<lambda>(_, t). Inr (S\<lparr>rs_table := t\<rparr>)))"

definition daily_row :: "addr \<Rightarrow> daily_rows \<Rightarrow> DailyData res" where
  "daily_row a S =
     (if a = 0 then Inl NullDeref else case dt_rows (rs_table S) a of None \<Rightarrow> Inl UseAfterFree | Some x \<Rightarrow> Inr (row x))"

text \<open>Iteration assigns to the row directly.\<close>

definition daily_next :: "int \<Rightarrow> int \<Rightarrow> addr \<Rightarrow> daily_rows \<Rightarrow> (addr \<times> daily_rows) res" where
  "daily_next start now cur S =
     (let a = dlist_next (rs_links S) (rs_list S) cur
      in if a = 0 then Inr (0, S)
         else
           case dt_rows (rs_table S) a of
             None \<Rightarrow> Inl UseAfterFree
           | Some x \<Rightarrow>
               if day_of start (dd_id (row x)) now \<noteq> day_of start (dd_id (row x)) (dd_update_time (row x))
               then Inr (a, S\<lparr>rs_table := (rs_table S)\<lparr>dt_rows := (dt_rows (rs_table S))(a \<mapsto> x\<lparr>row := (row x)\<lparr>dd_update_time := now, dd_value := 0\<rparr>\<rparr>)\<rparr>\<rparr>)
               else Inr (a, S))"

definition daily_add :: "int \<Rightarrow> u64 \<Rightarrow> bool \<Rightarrow> addr \<Rightarrow> u32 \<Rightarrow> daily_rows \<Rightarrow> (addr \<times> daily_rows) res option" where
  "daily_add now pid acc a i S =
     (case agMap_ip_get (rs_map S) (ucast i) of
        Some q \<Rightarrow> Some (Inr (q, S))
      | None \<Rightarrow> rows_add dd_pid dd_num acc a \<lparr>dd_pid = pid, dd_id = i, dd_update_time = now, dd_value = 0, dd_total = 0\<rparr> S)"

definition daily_remove :: "bool \<Rightarrow> u32 \<Rightarrow> daily_rows \<Rightarrow> (int \<times> daily_rows) res option" where
  "daily_remove acc i S =
     (case agMap_ip_get (rs_map S) (ucast i) of
        None \<Rightarrow> Some (Inr (0, S))
      | Some q \<Rightarrow>
          run_bind (Some (daily_row q S)) (\<lambda>r.
          run_bind (Some (DATA_delete acc (row_key dd_pid dd_num) q (rs_table S))) (\<lambda>(ret, t).
            if ret \<noteq> 0 then Some (Inr (-1, S\<lparr>rs_table := t\<rparr>))
            else
              run_bind (agMap_ip_set (rs_map S) (dd_num r) None) (\<lambda>(_, mp).
              run_bind (Some (dlist_remove (rs_links S) (rs_list S) q)) (\<lambda>(l, links).
                let t = t\<lparr>dt_rows := (dt_rows t)(q := map_option (\<lambda>x. x\<lparr>row := (row x)\<lparr>dd_update_time := 0, dd_value := 0\<rparr>\<rparr>) (dt_rows t q))\<rparr>
                in Some (Inr (0, S\<lparr>rs_map := mp, rs_list := l, rs_links := links, rs_table := t\<rparr>)))))))"

definition daily_get :: "int \<Rightarrow> int \<Rightarrow> u32 \<Rightarrow> daily_rows \<Rightarrow> (addr \<times> daily_rows) res" where
  "daily_get start now i S =
     (case agMap_ip_get (rs_map S) (ucast i) of
        None \<Rightarrow> Inr (0, S)
      | Some q \<Rightarrow>
          res_bind (daily_row q S) (\<lambda>r.
            if day_of start i now \<noteq> day_of start i (dd_update_time r)
            then res_bind (daily_write now 0 q S) (\<lambda>S. Inr (q, S))
            else Inr (q, S)))"

definition daily_get_raw :: "u32 \<Rightarrow> daily_rows \<Rightarrow> addr" where
  "daily_get_raw i S = (case agMap_ip_get (rs_map S) (ucast i) of None \<Rightarrow> 0 | Some q \<Rightarrow> q)"

definition daily_next_raw :: "addr \<Rightarrow> daily_rows \<Rightarrow> addr" where
  "daily_next_raw cur S = dlist_next (rs_links S) (rs_list S) cur"

definition daily_set :: "int \<Rightarrow> addr \<Rightarrow> u32 \<Rightarrow> daily_rows \<Rightarrow> (int \<times> daily_rows) res" where
  "daily_set now a v S =
     res_bind (daily_row a S) (\<lambda>r.
       if v = dd_value r then Inr (0, S)
       else res_bind (daily_write now v a S) (\<lambda>S. Inr (0, S)))"

definition daily_get_value :: "int \<Rightarrow> int \<Rightarrow> u32 \<Rightarrow> daily_rows \<Rightarrow> (i32 \<times> daily_rows) res" where
  "daily_get_value start now i S =
     res_bind (daily_get start now i S) (\<lambda>(q, S).
       if q = 0 then Inr (0, S) else res_bind (daily_row q S) (\<lambda>r. Inr (dd_value r, S)))"

text \<open>The counter, made if it does not exist.\<close>

definition daily_ensure :: "int \<Rightarrow> int \<Rightarrow> u64 \<Rightarrow> bool \<Rightarrow> addr \<Rightarrow> u32 \<Rightarrow> daily_rows \<Rightarrow> (addr \<times> daily_rows) res option" where
  "daily_ensure start now pid acc a i S =
     run_bind (Some (daily_get start now i S)) (\<lambda>(q, S). if q = 0 then daily_add now pid acc a i S else Some (Inr (q, S)))"

definition daily_set_value :: "int \<Rightarrow> int \<Rightarrow> u64 \<Rightarrow> bool \<Rightarrow> addr \<Rightarrow> u32 \<Rightarrow> i32 \<Rightarrow> daily_rows \<Rightarrow> daily_rows res option" where
  "daily_set_value start now pid acc a i v S =
     run_bind (daily_ensure start now pid acc a i S) (\<lambda>(q, S).
       if q = 0 then Some (Inl NullDeref) else Some (daily_write now v q S))"

definition daily_add_value :: "int \<Rightarrow> int \<Rightarrow> u64 \<Rightarrow> bool \<Rightarrow> addr \<Rightarrow> u32 \<Rightarrow> i32 \<Rightarrow> daily_rows \<Rightarrow> daily_rows res option" where
  "daily_add_value start now pid acc a i v S =
     run_bind (daily_ensure start now pid acc a i S) (\<lambda>(q, S).
     run_bind (Some (daily_row q S)) (\<lambda>r. Some (daily_write now (dd_value r + v) q S)))"

section \<open>Time online\<close>

record CheckData =
  tick_time :: int
  daily_online_record_time :: int

text \<open>Without a heartbeat for five minutes the recording starts anew.\<close>

definition online_restart :: "int \<Rightarrow> CheckData \<Rightarrow> CheckData" where
  "online_restart now c =
     (if daily_online_record_time c = 0 \<or> now > tick_time c + 5 * 60 then c\<lparr>daily_online_record_time := now\<rparr> else c)"

definition today_sec :: "int \<Rightarrow> int \<Rightarrow> int" where
  "today_sec start now = c_mod (timeline_get_sec start now) (3600 * 24)"

text \<open>\<open>conn\<close>: the player has a connection.\<close>

definition daily_get_online_time :: "int \<Rightarrow> int \<Rightarrow> bool \<Rightarrow> daily_rows \<Rightarrow> CheckData \<Rightarrow> (u32 \<times> daily_rows \<times> CheckData) res" where
  "daily_get_online_time start now conn S c =
     res_bind (daily_get start now DAILY_ITEM_ONLINE S) (\<lambda>(q, S).
       if q = 0 then Inr (0, S, c)
       else
         res_bind (daily_row q S) (\<lambda>r.
           if \<not> conn then Inr (dd_value r, S, c)
           else
             let c = online_restart now c; d = now - daily_online_record_time c
             in if now > daily_online_record_time c then
                  if d > today_sec start now then Inr (word_of_int (today_sec start now), S, c)
                  else Inr (word_of_int (uint (dd_value r) + d), S, c)
                else Inr (dd_value r, S, c)))"

definition daily_update_online_time ::
  "int \<Rightarrow> int \<Rightarrow> u64 \<Rightarrow> bool \<Rightarrow> addr \<Rightarrow> bool \<Rightarrow> daily_rows \<Rightarrow> CheckData \<Rightarrow> (daily_rows \<times> CheckData) res option" where
  "daily_update_online_time start now pid acc a force S c =
     run_bind (daily_ensure start now pid acc a DAILY_ITEM_ONLINE S) (\<lambda>(q, S).
       let c = online_restart now c; d = now - daily_online_record_time c
       in if now > daily_online_record_time c \<and> (force \<or> now \<ge> daily_online_record_time c + 60 * 5) then
            run_bind (Some (daily_row q S)) (\<lambda>r.
            run_bind (Some (daily_set now q (word_of_int (if d > today_sec start now then today_sec start now else uint (dd_value r) + d)) S)) (\<lambda>(_, S).
              Some (Inr (S, c\<lparr>daily_online_record_time := now\<rparr>))))
          else Some (Inr (S, c)))"

definition daily_release :: "int \<Rightarrow> int \<Rightarrow> u64 \<Rightarrow> bool \<Rightarrow> addr \<Rightarrow> nat \<Rightarrow> daily_rows \<Rightarrow> CheckData \<Rightarrow> (CheckData \<times> dlinks \<times> DailyData table) res option" where
  "daily_release start now pid acc a fuel S c =
     run_bind (daily_update_online_time start now pid acc a True S c) (\<lambda>(S, c).
     run_bind (rows_release fuel S) (\<lambda>(links, t). Some (Inr (c, links, t))))"

section \<open>Counters\<close>

definition dd_field :: "nat \<Rightarrow> DailyData \<Rightarrow> int" where
  "dd_field i r =
     (if i = 1 then uint (dd_pid r) else if i = 2 then uint (dd_id r) else if i = 3 then dd_update_time r
      else if i = 4 then uint (dd_value r) else uint (dd_total r))"

interpretation dd: owned_rows dd_field dd_ids dd_copy dd_pid dd_num
proof
  show "r = d" if "\<And>i. i \<in> set dd_ids \<Longrightarrow> dd_field i r = dd_field i d" for r d :: DailyData
    using that[of 1] that[of 2] that[of 3] that[of 4] that[of 5] by (cases r; cases d) (simp add: dd_ids_def dd_field_def word_uint_eq_iff)
qed (auto simp: dd_ids_def dd_copy_def dd_field_def)

text \<open>What a counter shows at time \<open>t\<close>.\<close>

definition count_at :: "int \<Rightarrow> (u64 \<Rightarrow> DailyData option) \<Rightarrow> u32 \<Rightarrow> int \<Rightarrow> u32" where
  "count_at start R i t =
     (case R (ucast i) of None \<Rightarrow> 0 | Some r \<Rightarrow> if day_of start i t = day_of start i (dd_update_time r) then dd_value r else 0)"

definition daily_ok :: "u64 \<Rightarrow> int \<Rightarrow> daily_rows \<Rightarrow> addr list \<Rightarrow> addr list \<Rightarrow> bool" where
  "daily_ok pid now S xs ls \<longleftrightarrow> set_ok dd_pid dd_num dd_ids dd_copy pid S xs ls \<and> (\<forall>n r. rows_of S n = Some r \<longrightarrow> dd_update_time r \<le> now)"

lemma day_of_mono: "t \<le> u \<Longrightarrow> day_of start i t \<le> day_of start i u"
  by (simp add: day_of_def DAY_def day_mono)

lemma daily_write_ok:
  assumes "set_ok dd_pid dd_num dd_ids dd_copy pid S xs ls" and "agMap_ip_get (rs_map S) n = Some q" and "rows_of S n = Some r"
  shows "\<exists>S' ls'. daily_write now v q S = Inr S' \<and> set_ok dd_pid dd_num dd_ids dd_copy pid S' xs ls' \<and> rs_map S' = rs_map S
    \<and> rows_of S' = (rows_of S)(n \<mapsto> r\<lparr>dd_value := v, dd_update_time := now\<rparr>)"
proof -
  have ids: "4 \<in> set dd_ids" "3 \<in> set dd_ids" by (simp_all add: dd_ids_def)
  let ?v = "\<lambda>r. r\<lparr>dd_value := v\<rparr>" and ?u = "\<lambda>r. r\<lparr>dd_update_time := now\<rparr>"
  have v: "dd_field j (?v r) = dd_field j r" if "j \<in> set dd_ids" "j \<noteq> 4" for j and r :: DailyData using that by (auto simp: dd_ids_def dd_field_def)
  have u: "dd_field j (?u r) = dd_field j r" if "j \<in> set dd_ids" "j \<noteq> 3" for j and r :: DailyData using that by (auto simp: dd_ids_def dd_field_def)
  obtain t1 ls1 where t1: "DATA_update now 4 ?v q (rs_table S) = Inr (0, t1)" "set_ok dd_pid dd_num dd_ids dd_copy pid (S\<lparr>rs_table := t1\<rparr>) xs ls1"
    "rows_of (S\<lparr>rs_table := t1\<rparr>) = (rows_of S)(n \<mapsto> ?v r)"
    using dd.set_update_ok[where put = ?v, OF assms ids(1) v, of now] by (auto simp: dd_num_def)
  have s1: "agMap_ip_get (rs_map (S\<lparr>rs_table := t1\<rparr>)) n = Some q" "rows_of (S\<lparr>rs_table := t1\<rparr>) n = Some (?v r)" using assms(2) t1(3) by simp_all
  obtain t2 ls2 where t2: "DATA_update now 3 ?u q t1 = Inr (0, t2)" "set_ok dd_pid dd_num dd_ids dd_copy pid (S\<lparr>rs_table := t2\<rparr>) xs ls2"
    "rows_of (S\<lparr>rs_table := t2\<rparr>) = (rows_of S)(n \<mapsto> ?u (?v r))"
    using dd.set_update_ok[where put = ?u, OF t1(2) s1 ids(2) u, of now] t1(3) by (auto simp: dd_num_def)
  show ?thesis using t1(1) t2 by (intro exI[of _ "S\<lparr>rs_table := t2\<rparr>"] exI[of _ ls2]) (simp add: daily_write_def)
qed

lemma daily_row_of:
  assumes "set_ok dd_pid dd_num dd_ids dd_copy pid S xs ls" and "agMap_ip_get (rs_map S) n = Some q"
  shows "\<exists>r. rows_of S n = Some r \<and> daily_row q S = Inr r \<and> q \<noteq> 0 \<and> dd_num r = n"
proof -
  have q: "q \<in> set xs" using reg_okD(3)[OF set_okD(3)[OF assms(1)]] assms(2) by simp
  obtain x where x: "dt_rows (rs_table S) q = Some x" using set_okD(4)[OF assms(1) q] by blast
  have "dd_num (row x) = n" using reg_okD(3)[OF set_okD(3)[OF assms(1)], of n q] assms(2) x by simp
  moreover have "q \<noteq> 0" using reg_okD(1)[OF set_okD(3)[OF assms(1)]] q by (cases "q = 0") (auto simp: dring_def)
  ultimately show ?thesis using x assms(2) by (simp add: daily_row_def rows_of_def)
qed

text \<open>Looking at a counter resets it if it is of another day, and changes nothing that can be seen from now on.\<close>

lemma daily_get_ok:
  assumes "daily_ok pid now S xs ls"
  shows "\<exists>q S' ls'. daily_get start now i S = Inr (q, S') \<and> daily_ok pid now S' xs ls' \<and> rs_map S' = rs_map S
    \<and> (\<forall>j t. now \<le> t \<longrightarrow> count_at start (rows_of S') j t = count_at start (rows_of S) j t)
    \<and> (if agMap_ip_get (rs_map S) (ucast i) = None then q = 0 \<and> S' = S
       else agMap_ip_get (rs_map S) (ucast i) = Some q \<and> (\<exists>r. rows_of S' (ucast i) = Some r \<and> day_of start i (dd_update_time r) = day_of start i now
         \<and> dd_value r = count_at start (rows_of S) i now))"
proof (cases "agMap_ip_get (rs_map S) (ucast i)")
  case None
  then show ?thesis using assms by (simp add: daily_get_def) blast
next
  case (Some q)
  have ok: "set_ok dd_pid dd_num dd_ids dd_copy pid S xs ls" using assms by (simp add: daily_ok_def)
  obtain r where r: "rows_of S (ucast i) = Some r" "daily_row q S = Inr r" "q \<noteq> 0" using daily_row_of[OF ok Some] by blast
  have upd: "dd_update_time r \<le> now" using assms r(1) by (simp add: daily_ok_def)
  show ?thesis
  proof (cases "day_of start i now = day_of start i (dd_update_time r)")
    case True
    then show ?thesis using Some r assms by (auto simp: daily_get_def count_at_def)
  next
    case False
    obtain S' ls' where S': "daily_write now 0 q S = Inr S'" "set_ok dd_pid dd_num dd_ids dd_copy pid S' xs ls'" "rs_map S' = rs_map S"
      "rows_of S' = (rows_of S)(ucast i \<mapsto> r\<lparr>dd_value := 0, dd_update_time := now\<rparr>)"
      using daily_write_ok[OF ok Some r(1), of now 0] by blast
    have "daily_ok pid now S' xs ls'" using assms S'(2,4) by (auto simp: daily_ok_def)
    moreover have "count_at start (rows_of S') j t = count_at start (rows_of S) j t" if "now \<le> t" for j t
    proof (cases "j = i")
      case True
      have "day_of start i t \<noteq> day_of start i (dd_update_time r)"
        using False day_of_mono[OF upd, of start i] day_of_mono[OF that, of start i] by linarith
      then show ?thesis using True S'(4) r(1) by (simp add: count_at_def)
    qed (use S'(4) in \<open>simp add: count_at_def row_number\<close>)
    ultimately show ?thesis using Some r False S' by (auto simp: daily_get_def count_at_def)
  qed
qed

text \<open>The counter exists afterwards and shows the value of today.\<close>

lemma daily_ensure_ok:
  assumes "daily_ok pid now S xs ls" and "length xs < REG_MAX" and "dt_rows (rs_table S) a = None" and "a \<noteq> 0" and "a \<noteq> VOID_ROW"
  shows "\<exists>q S' xs' ls' r. daily_ensure start now pid True a i S = Some (Inr (q, S')) \<and> daily_ok pid now S' xs' ls'
    \<and> agMap_ip_get (rs_map S') (ucast i) = Some q \<and> (\<forall>j t. now \<le> t \<longrightarrow> count_at start (rows_of S') j t = count_at start (rows_of S) j t)
    \<and> rows_of S' (ucast i) = Some r \<and> day_of start i (dd_update_time r) = day_of start i now \<and> dd_value r = count_at start (rows_of S) i now"
proof (cases "agMap_ip_get (rs_map S) (ucast i)")
  case None
  have ok: "set_ok dd_pid dd_num dd_ids dd_copy pid S xs ls" using assms(1) by (simp add: daily_ok_def)
  let ?r = "\<lparr>dd_pid = pid, dd_id = i, dd_update_time = now, dd_value = 0, dd_total = 0\<rparr>"
  have n: "rows_of S (ucast i) = None" using None by (simp add: rows_of_def)
  obtain S' where S': "rows_add dd_pid dd_num True a ?r S = Some (Inr (a, S'))" "set_ok dd_pid dd_num dd_ids dd_copy pid S' (xs @ [a]) ls"
    "rows_of S' = (rows_of S)(ucast i \<mapsto> ?r)" "agMap_ip_get (rs_map S') (ucast i) = Some a"
    using set_add_ok[OF ok assms(2-5), of ?r] n by (auto simp: dd_num_def)
  have "daily_ensure start now pid True a i S = Some (Inr (a, S'))" using None S'(1) by (simp add: daily_ensure_def daily_get_def daily_add_def)
  moreover have "daily_ok pid now S' (xs @ [a]) ls" using assms(1) S'(2,3) by (auto simp: daily_ok_def)
  moreover have "count_at start (rows_of S') j t = count_at start (rows_of S) j t" for j t
    using S'(3) n by (cases "j = i") (simp_all add: count_at_def row_number)
  ultimately show ?thesis using S'(3,4) n by (fastforce simp: count_at_def)
next
  case (Some q)
  obtain S' ls' r where g: "daily_get start now i S = Inr (q, S')" "daily_ok pid now S' xs ls'" "rs_map S' = rs_map S"
    "\<forall>j t. now \<le> t \<longrightarrow> count_at start (rows_of S') j t = count_at start (rows_of S) j t" "rows_of S' (ucast i) = Some r"
    "day_of start i (dd_update_time r) = day_of start i now" "dd_value r = count_at start (rows_of S) i now"
    using daily_get_ok[OF assms(1), of start i] Some by auto
  have "q \<noteq> 0" using daily_row_of[of pid S xs ls "ucast i" q] assms(1) Some by (auto simp: daily_ok_def)
  then have "daily_ensure start now pid True a i S = Some (Inr (q, S'))" using g(1) by (simp add: daily_ensure_def)
  then show ?thesis using g(2-7) Some by metis
qed

text \<open>Writing a counter.\<close>

lemma daily_written:
  assumes "daily_ok pid now S xs ls" and "agMap_ip_get (rs_map S) (ucast i) = Some q" and "rows_of S (ucast i) = Some r"
  shows "\<exists>S' ls'. daily_write now v q S = Inr S' \<and> daily_ok pid now S' xs ls'
    \<and> (\<forall>j t. count_at start (rows_of S') j t = (if j = i then (if day_of start i t = day_of start i now then v else 0) else count_at start (rows_of S) j t))"
proof -
  obtain S' ls' where S': "daily_write now v q S = Inr S'" "set_ok dd_pid dd_num dd_ids dd_copy pid S' xs ls'"
    "rows_of S' = (rows_of S)(ucast i \<mapsto> r\<lparr>dd_value := v, dd_update_time := now\<rparr>)"
    using daily_write_ok[OF _ assms(2,3), of pid xs ls now v] assms(1) by (auto simp: daily_ok_def)
  have "daily_ok pid now S' xs ls'" using assms(1) S'(2,3) by (auto simp: daily_ok_def)
  moreover have "count_at start (rows_of S') j t = (if j = i then (if day_of start i t = day_of start i now then v else 0) else count_at start (rows_of S) j t)" for j t
    using S'(3) by (simp add: count_at_def row_number)
  ultimately show ?thesis using S'(1) by blast
qed

text \<open>Removing a counter: it shows 0 from then on.\<close>

lemma daily_remove_ok:
  assumes "daily_ok pid now S xs ls" and "length xs < REG_MAX"
  shows "\<exists>S' xs' ls'. daily_remove True i S = Some (Inr (0, S')) \<and> daily_ok pid now S' xs' ls' \<and> rows_of S' = (rows_of S)(ucast i := None)"
proof (cases "agMap_ip_get (rs_map S) (ucast i)")
  case None
  then have "rows_of S (ucast i) = None" by (simp add: rows_of_def)
  then show ?thesis using None assms(1) by (auto simp: daily_remove_def fun_upd_idem)
next
  case (Some q)
  have ok: "set_ok dd_pid dd_num dd_ids dd_copy pid S xs ls" using assms(1) by (simp add: daily_ok_def)
  obtain r where r: "rows_of S (ucast i) = Some r" "daily_row q S = Inr r" "q \<noteq> 0" "dd_num r = ucast i" using daily_row_of[OF ok Some] by blast
  obtain S' t' ls' where d: "DATA_delete True (row_key dd_pid dd_num) q (rs_table S) = Inr (0, t')"
    "agMap_ip_set (rs_map S) (ucast i) None = Some (Inr (Some q, rs_map S'))" "dlist_remove (rs_links S) (rs_list S) q = Inr (rs_list S', rs_links S')"
    "rs_table S' = t'\<lparr>dt_rows := (dt_rows t')(q := map_option (\<lambda>x. x\<lparr>row := (row x)\<lparr>dd_update_time := 0, dd_value := 0\<rparr>\<rparr>) (dt_rows t' q))\<rparr>"
    "set_ok dd_pid dd_num dd_ids dd_copy pid S' (remove1 q xs) ls'" "rows_of S' = (rows_of S)(ucast i := None)"
    by (rule set_remove_ok[OF ok assms(2) Some, of "\<lambda>x. x\<lparr>dd_update_time := 0, dd_value := 0\<rparr>"]) (rule that)
  have "S' = S\<lparr>rs_map := rs_map S', rs_list := rs_list S', rs_links := rs_links S', rs_table := rs_table S'\<rparr>" by simp
  then have "daily_remove True i S = Some (Inr (0, S'))"
    using Some r(2,4) d(1-4) by (simp add: daily_remove_def Let_def)
  moreover have "daily_ok pid now S' (remove1 q xs) ls'" using assms(1) d(5,6) by (auto simp: daily_ok_def)
  ultimately show ?thesis using d(6) by blast
qed

section \<open>Properties\<close>

text \<open>C25: The counters are per day. Reading a counter returns what was counted on the same day, or zero, and changes nothing that can be seen now or later. Setting or adding to a
  counter makes it show the new value, wrapping at 32 bits, until the day ends and zero afterwards, and leaves all other counters alone. None of them fails if the database
  accepts the row of a new counter, and rows, map, list and database stay consistent.\<close>

theorem daily_counters:
  assumes "daily_ok pid now S xs ls" and "length xs < REG_MAX" and "dt_rows (rs_table S) a = None" and "a \<noteq> 0" and "a \<noteq> VOID_ROW" and "now \<le> t"
  shows "(\<exists>S' ls'. daily_get_value start now i S = Inr (count_at start (rows_of S) i now, S') \<and> daily_ok pid now S' xs ls'
      \<and> count_at start (rows_of S') j t = count_at start (rows_of S) j t)
    \<and> (\<exists>S' xs' ls'. daily_add_value start now pid True a i v S = Some (Inr S') \<and> daily_ok pid now S' xs' ls'
      \<and> count_at start (rows_of S') j t =
          (if j = i then (if day_of start i t = day_of start i now then count_at start (rows_of S) i now + v else 0) else count_at start (rows_of S) j t))
    \<and> (\<exists>S' xs' ls'. daily_set_value start now pid True a i v S = Some (Inr S') \<and> daily_ok pid now S' xs' ls'
      \<and> count_at start (rows_of S') j t =
          (if j = i then (if day_of start i t = day_of start i now then v else 0) else count_at start (rows_of S) j t))"
proof (intro conjI)
  obtain q S1 xs1 ls1 r where e: "daily_ensure start now pid True a i S = Some (Inr (q, S1))" "daily_ok pid now S1 xs1 ls1"
    "agMap_ip_get (rs_map S1) (ucast i) = Some q" "\<forall>j t. now \<le> t \<longrightarrow> count_at start (rows_of S1) j t = count_at start (rows_of S) j t"
    "rows_of S1 (ucast i) = Some r" "dd_value r = count_at start (rows_of S) i now"
    using daily_ensure_ok[OF assms(1-5), of start i] by blast
  have q: "q \<noteq> 0" "daily_row q S1 = Inr r" using daily_row_of[OF _ e(3), of pid xs1 ls1] e(2,5) by (auto simp: daily_ok_def)
  have w: "\<exists>S' ls'. daily_write now w q S1 = Inr S' \<and> daily_ok pid now S' xs1 ls'
    \<and> count_at start (rows_of S') j t = (if j = i then (if day_of start i t = day_of start i now then w else 0) else count_at start (rows_of S) j t)" for w
    using daily_written[OF e(2,3,5), of w start] e(4) assms(6) by fastforce
  have runs: "daily_add_value start now pid True a i v S = Some (daily_write now (count_at start (rows_of S) i now + v) q S1)"
    "daily_set_value start now pid True a i v S = Some (daily_write now v q S1)"
    using e(1,6) q by (simp_all add: daily_add_value_def daily_set_value_def)
  show "\<exists>S' xs' ls'. daily_add_value start now pid True a i v S = Some (Inr S') \<and> daily_ok pid now S' xs' ls'
      \<and> count_at start (rows_of S') j t =
          (if j = i then (if day_of start i t = day_of start i now then count_at start (rows_of S) i now + v else 0) else count_at start (rows_of S) j t)"
    using w[of "count_at start (rows_of S) i now + v"] unfolding runs option.inject by blast
  show "\<exists>S' xs' ls'. daily_set_value start now pid True a i v S = Some (Inr S') \<and> daily_ok pid now S' xs' ls'
      \<and> count_at start (rows_of S') j t =
          (if j = i then (if day_of start i t = day_of start i now then v else 0) else count_at start (rows_of S) j t)"
    using w[of v] unfolding runs option.inject by blast
  obtain p S2 ls2 where g: "daily_get start now i S = Inr (p, S2)" "daily_ok pid now S2 xs ls2" "rs_map S2 = rs_map S"
    "count_at start (rows_of S2) j t = count_at start (rows_of S) j t"
    "if agMap_ip_get (rs_map S) (ucast i) = None then p = 0 \<and> S2 = S
       else agMap_ip_get (rs_map S) (ucast i) = Some p \<and> (\<exists>r. rows_of S2 (ucast i) = Some r \<and> day_of start i (dd_update_time r) = day_of start i now
         \<and> dd_value r = count_at start (rows_of S) i now)"
    using daily_get_ok[OF assms(1), of start i] assms(6) by blast
  have "daily_get_value start now i S = Inr (count_at start (rows_of S) i now, S2)"
  proof (cases "agMap_ip_get (rs_map S) (ucast i)")
    case None
    then show ?thesis using g(1,5) by (simp add: daily_get_value_def count_at_def rows_of_def)
  next
    case (Some k)
    then show ?thesis using g daily_row_of[of pid S2 xs ls2 "ucast i" k] by (auto simp: daily_get_value_def daily_ok_def)
  qed
  then show "\<exists>S' ls'. daily_get_value start now i S = Inr (count_at start (rows_of S) i now, S') \<and> daily_ok pid now S' xs ls'
      \<and> count_at start (rows_of S') j t = count_at start (rows_of S) j t" using g(2,4) by blast
qed

lemma first_counters: "\<exists>S. daily_new links no_rows = Inr S \<and> daily_ok pid now S [] [] \<and> rows_of S = (\<lambda>_. None) \<and> rs_table S = no_rows"
  using rows_new_ok[of links dd_pid dd_num dd_ids dd_copy pid] by (auto simp: daily_new_def daily_ok_def)

text \<open>Counter 9 is raised by 3 on a Tuesday at ten in the evening: it still shows 3 at four in the morning.\<close>

theorem daily_counters_witness:
  "\<exists>S S'. daily_new undefined no_rows = Inr S \<and> daily_add_value 1699804800 1699970400 7 True 48 9 3 S = Some (Inr S')
    \<and> count_at 1699804800 (rows_of S') 9 1699992000 = 3"
proof -
  obtain S where S: "daily_new undefined no_rows = Inr S" "daily_ok 7 1699970400 S [] []" "rows_of S = (\<lambda>_. None)" "rs_table S = no_rows"
    using first_counters by blast
  have fr: "length ([] :: addr list) < REG_MAX" "dt_rows (rs_table S) 48 = None" "(48 :: addr) \<noteq> 0" "(48 :: addr) \<noteq> VOID_ROW"
    using S(4) by (simp_all add: no_rows_def VOID_ROW_def REG_MAX_def)
  have day: "day_of 1699804800 9 1699992000 = day_of 1699804800 9 1699970400" by code_simp
  have "count_at 1699804800 (rows_of S) 9 1699970400 = 0" using S(3) by (simp add: count_at_def)
  then show ?thesis using daily_counters[OF S(2) fr, of 1699992000 1699804800 9 9 3] S(1) day by auto
qed

section \<open>Time online\<close>

lemma today_sec_eq: "start \<le> now \<Longrightarrow> today_sec start now = (now - start + 1) mod DAY_SEC"
  by (simp add: today_sec_def sec_eq c_mod_nonneg DAY_SEC_def)

text \<open>What is recorded: the time since the last record is added to the counter of the day, or, if that was longer ago than the day has seconds so far, the counter
  becomes that number of seconds.\<close>

lemma online_recorded:
  assumes "daily_ok pid now S xs ls" and "length xs < REG_MAX" and "dt_rows (rs_table S) a = None" and "a \<noteq> 0" and "a \<noteq> VOID_ROW"
    and "daily_online_record_time c \<noteq> 0" and "now \<le> tick_time c + 5 * 60" and "daily_online_record_time c < now"
  shows "\<exists>S' xs' ls'. daily_update_online_time start now pid True a True S c = Some (Inr (S', c\<lparr>daily_online_record_time := now\<rparr>)) \<and> daily_ok pid now S' xs' ls'
    \<and> count_at start (rows_of S') DAILY_ITEM_ONLINE now =
        word_of_int (if now - daily_online_record_time c > today_sec start now then today_sec start now
                     else uint (count_at start (rows_of S) DAILY_ITEM_ONLINE now) + (now - daily_online_record_time c))"
proof -
  let ?i = DAILY_ITEM_ONLINE
  obtain q S1 xs1 ls1 r where e: "daily_ensure start now pid True a ?i S = Some (Inr (q, S1))" "daily_ok pid now S1 xs1 ls1"
    "agMap_ip_get (rs_map S1) (ucast ?i) = Some q" "rows_of S1 (ucast ?i) = Some r" "day_of start ?i (dd_update_time r) = day_of start ?i now"
    "dd_value r = count_at start (rows_of S) ?i now"
    using daily_ensure_ok[OF assms(1-5), of start ?i] by blast
  have q: "daily_row q S1 = Inr r" using daily_row_of[OF _ e(3), of pid xs1 ls1] e(2,4) by (auto simp: daily_ok_def)
  let ?v = "word_of_int (if now - daily_online_record_time c > today_sec start now then today_sec start now
      else uint (dd_value r) + (now - daily_online_record_time c)) :: u32"
  obtain S' ls' where w: "daily_set now q ?v S1 = Inr (0, S')" "daily_ok pid now S' xs1 ls'" "count_at start (rows_of S') ?i now = ?v"
  proof (cases "?v = dd_value r")
    case True
    then have "daily_set now q ?v S1 = Inr (0, S1)" using q by (simp add: daily_set_def)
    moreover have "count_at start (rows_of S1) ?i now = ?v" using e(4,5) True by (simp add: count_at_def)
    ultimately show thesis using that e(2) by blast
  next
    case False
    obtain S2 ls2 where "daily_write now ?v q S1 = Inr S2" "daily_ok pid now S2 xs1 ls2" "count_at start (rows_of S2) ?i now = ?v"
      using daily_written[OF e(2,3,4), of ?v start] by fastforce
    with that[of S2 ls2] False q show thesis by (simp add: daily_set_def)
  qed
  have "online_restart now c = c" using assms(6,7) by (simp add: online_restart_def)
  then have "daily_update_online_time start now pid True a True S c = Some (Inr (S', c\<lparr>daily_online_record_time := now\<rparr>))"
    using e(1) q w(1) assms(8) by (simp add: daily_update_online_time_def Let_def)
  with w(2,3) e(6) show ?thesis by auto
qed

text \<open>In the last second of a day the number of its seconds is computed as 0: the record wipes out the time of the whole day.\<close>

lemma last_second_wipes:
  assumes "daily_ok pid now S xs ls" and "length xs < REG_MAX" and "dt_rows (rs_table S) a = None" and "a \<noteq> 0" and "a \<noteq> VOID_ROW"
    and "daily_online_record_time c \<noteq> 0" and "now \<le> tick_time c + 5 * 60" and "daily_online_record_time c < now"
    and "start \<le> now" and "(now - start) mod DAY_SEC = DAY_SEC - 1"
  shows "\<exists>S' c'. daily_update_online_time start now pid True a True S c = Some (Inr (S', c')) \<and> count_at start (rows_of S') DAILY_ITEM_ONLINE now = 0"
proof -
  have "(now - start + 1) mod DAY_SEC = ((now - start) mod DAY_SEC + 1) mod DAY_SEC" by (simp add: mod_simps)
  then have "today_sec start now = 0" using assms(9,10) by (simp add: today_sec_eq)
  then show ?thesis using online_recorded[OF assms(1-8), of start] assms(8) by auto
qed

text \<open>A counter reset by iteration is not marked as changed: database and memory differ although the row is clean, and the new time is not written
  with the next change in the same second.\<close>

lemma iteration_not_marked:
  assumes "daily_next start now cur S = Inr (a, S')" and "a \<noteq> 0" and "dt_rows (rs_table S) a = Some x"
  shows "\<exists>y. dt_rows (rs_table S') a = Some y \<and> dirty y = dirty x \<and> update_next y = update_next x
    \<and> (day_of start (dd_id (row x)) now \<noteq> day_of start (dd_id (row x)) (dd_update_time (row x)) \<longrightarrow> dd_value (row y) = 0 \<and> dd_update_time (row y) = now)"
  using assms by (auto simp: daily_next_def Let_def split: if_splits option.splits)

end
