(* ===== verification/WellRng.thy ===== *)
theory WellRng
  imports CPrelude
begin

text \<open>
  The random numbers that scripts draw, \<^verbatim>\<open>src/server/lib/lua_WELLRNG512a.c\<close>: a generator with sixteen words of
  state. Fights are replayed from a seed, so a generator must never degenerate: the theorems show
  that a step can be undone, and hence that a generator whose state is not all zero never
  gets there.
\<close>

section \<open>The generator\<close>

record WELLRNG512aGenerator =
  rng_state :: "u32 list"
  rng_index :: u32
  rng_count :: u32

text \<open>The values a step computes, from the state and the index at its start: the two words it stores.\<close>

definition well_b :: "u32 \<Rightarrow> u32 \<Rightarrow> u32" where
  "well_b a c = a XOR c XOR push_bit 16 a XOR push_bit 15 c"

definition well_d :: "u32 \<Rightarrow> u32" where
  "well_d a = a XOR (push_bit 5 a AND 0xDA442D24)"

definition WELLRNG512a :: "WELLRNG512aGenerator \<Rightarrow> (u32 \<times> WELLRNG512aGenerator) res" where
  "WELLRNG512a g =
     (if \<not> (rng_state g ! 0 \<noteq> 0 \<or> rng_state g ! 1 \<noteq> 0) then Inl Assertion
      else if \<not> unat (rng_index g) < length (rng_state g) then Inl OutOfBounds
      else
        let st = rng_state g; i = rng_index g;
            a = st ! unat i;
            c = st ! unat ((i + 13) AND 15);
            b = well_b a c;
            c = st ! unat ((i + 9) AND 15);
            c = c XOR drop_bit 11 c;
            st = st[unat i := b XOR c];
            a = b XOR c;
            d = well_d a;
            i = (i + 15) AND 15;
            a = st ! unat i;
            st = st[unat i := a XOR b XOR d XOR push_bit 2 a XOR push_bit 18 b XOR push_bit 28 c]
        in Inr (st ! unat i, \<lparr>rng_state = st, rng_index = i, rng_count = rng_count g + 1\<rparr>))"

text \<open>The loop of the seed from position \<open>i\<close>, with \<open>n\<close> words to go; \<open>x\<close> is the word before.\<close>

fun seed_words :: "u32 \<Rightarrow> u32 \<Rightarrow> nat \<Rightarrow> u32 list" where
  "seed_words x i 0 = []"
| "seed_words x i (Suc n) =
     (let y = (1812433253 * (x XOR drop_bit 30 x) + i) AND NOT 0 in y # seed_words y (i + 1) n)"

definition WELLRNG512a_seed :: "u32 \<Rightarrow> WELLRNG512aGenerator" where
  "WELLRNG512a_seed val =
     \<lparr>rng_state = (val AND NOT 0) # seed_words (val AND NOT 0) 1 15, rng_index = 0, rng_count = 0\<rparr>"

definition WELLRNG512a_seed16 :: "u32 list \<Rightarrow> WELLRNG512aGenerator" where
  "WELLRNG512a_seed16 values = \<lparr>rng_state = map (\<lambda>i. values ! i) [0..<16], rng_index = 0, rng_count = 0\<rparr>"

section \<open>Invariant and undoing a step\<close>

definition rng_ok :: "WELLRNG512aGenerator \<Rightarrow> bool" where
  "rng_ok g \<longleftrightarrow> length (rng_state g) = 16 \<and> rng_index g < 16"

lemma shift_xor_inj:
  fixes x y :: "'a::len word"
  assumes "x XOR push_bit n x = y XOR push_bit n y" and "0 < n"
  shows "x = y"
proof -
  have "(bit x k \<noteq> bit y k) = (n \<le> k \<and> k < LENGTH('a) \<and> bit x (k - n) \<noteq> bit y (k - n))" for k
    using assms(1) by (auto simp: bit_eq_iff bit_xor_iff bit_push_bit_iff dest: bit_imp_le_length)
  then have "bit x k = bit y k" for k
    using assms(2) by (induction k rule: less_induct) (metis diff_less not_gr_zero zero_le order_less_le_trans)
  then show ?thesis by (simp add: bit_eq_iff)
qed

lemma mask_15: "(i :: u32) AND 15 = i mod 16"
  using take_bit_eq_mask[of 4 i] take_bit_eq_mod[of 4 i] by (simp add: mask_eq_exp_minus_1)

text \<open>The four words a step uses are at different positions.\<close>

lemma well_positions:
  assumes "(i :: u32) < 16"
  shows "unat ((i + 13) AND 15) = (unat i + 13) mod 16" "unat ((i + 9) AND 15) = (unat i + 9) mod 16"
    "unat ((i + 15) AND 15) = (unat i + 15) mod 16" "unat i < 16"
proof -
  have i: "unat i < 16" using assms by (simp add: word_less_nat_alt)
  then have "unat (i + of_nat k) = unat i + k" if "k < 16" for k
    using that by (subst unat_word_ariths) (simp add: unat_of_nat)
  from this[of 13] this[of 9] this[of 15]
  show "unat ((i + 13) AND 15) = (unat i + 13) mod 16" "unat ((i + 9) AND 15) = (unat i + 9) mod 16"
    "unat ((i + 15) AND 15) = (unat i + 15) mod 16"
    by (simp_all add: mask_15 unat_mod)
qed (use assms in \<open>simp add: word_less_nat_alt\<close>)

text \<open>The words after a step, as a function of the words before it and the position.\<close>

definition well_words :: "u32 list \<Rightarrow> nat \<Rightarrow> u32 list" where
  "well_words st i =
     (let p = (i + 15) mod 16; c = st ! ((i + 9) mod 16); c = c XOR drop_bit 11 c;
          b = well_b (st ! i) (st ! ((i + 13) mod 16)); a = st ! p
      in (st[i := b XOR c])[p := a XOR b XOR well_d (b XOR c) XOR push_bit 2 a XOR push_bit 18 b XOR push_bit 28 c])"

lemma WELLRNG512a_eq:
  assumes "rng_ok g" and "rng_state g ! 0 \<noteq> 0 \<or> rng_state g ! 1 \<noteq> 0"
  shows "WELLRNG512a g =
    (let st = well_words (rng_state g) (unat (rng_index g))
     in Inr (st ! ((unat (rng_index g) + 15) mod 16), \<lparr>rng_state = st, rng_index = (rng_index g + 15) AND 15, rng_count = rng_count g + 1\<rparr>))"
proof -
  have i: "unat (rng_index g) < 16" "length (rng_state g) = 16" "rng_index g < 16"
    using assms(1) by (simp_all add: rng_ok_def word_less_nat_alt)
  have "unat (rng_index g) \<noteq> (unat (rng_index g) + 15) mod 16" using i(1) by presburger
  then show ?thesis
    using i assms(2) well_positions[OF i(3)] by (simp add: WELLRNG512a_def well_words_def Let_def)
qed

lemma xor_cancel: "(x :: u32) XOR y = x XOR z \<longleftrightarrow> y = z" "y XOR (x :: u32) = z XOR x \<longleftrightarrow> y = z"
  by (auto simp: bit_eq_iff bit_xor_iff)

lemma four_positions:
  "list_all (\<lambda>i. (i + 15) mod 16 \<noteq> i \<and> (i + 9) mod 16 \<noteq> i \<and> (i + 13) mod 16 \<noteq> i
     \<and> (i + 9) mod 16 \<noteq> (i + 15) mod 16 \<and> (i + 13) mod 16 \<noteq> (i + 15) mod 16) [0..<16 :: nat]"
  by code_simp

lemma length_well_words [simp]: "length (well_words st i) = length st"
  by (simp add: well_words_def Let_def)

lemma well_undo:
  assumes "length st = 16" and "length st' = 16" and "i < 16" and "well_words st i = well_words st' i"
  shows "st = st'"
proof -
  define p q r where "p = (i + 15) mod 16" and "q = (i + 9) mod 16" and "r = (i + 13) mod 16"
  have ne: "p \<noteq> i" "q \<noteq> i" "r \<noteq> i" "q \<noteq> p" "r \<noteq> p" "p < 16" "q < 16" "r < 16"
    using four_positions assms(3) unfolding p_def q_def r_def by (simp_all add: list_all_iff)
  have at: "well_words st i ! k = well_words st' i ! k" for k using assms(4) by simp
  have other: "st ! k = st' ! k" if "k \<noteq> i" "k \<noteq> p" "k < 16" for k
    using at[of k] that assms(1,2) by (simp add: well_words_def Let_def p_def[symmetric])
  have qr: "st ! q = st' ! q" "st ! r = st' ! r" using ne by (simp_all add: other)
  define c where "c = st ! q XOR drop_bit 11 (st ! q)"
  define b where "b x = well_b (x ! i) (x ! r)" for x
  have W: "well_words x i = (x[i := b x XOR c])[p := x ! p XOR b x XOR well_d (b x XOR c) XOR push_bit 2 (x ! p) XOR push_bit 18 (b x) XOR push_bit 28 c]"
    if "x ! q = st ! q" for x
    unfolding well_words_def Let_def p_def[symmetric] q_def[symmetric] r_def[symmetric] that b_def c_def ..
  note W = W[OF refl] W[OF qr(1)[symmetric]]
  have "b st XOR c = b st' XOR c"
    using at[of i] ne(1) assms(1-3) unfolding W by simp
  then have b: "b st = b st'" unfolding xor_cancel .
  then have "(st ! i XOR push_bit 16 (st ! i)) XOR (st ! r XOR push_bit 15 (st ! r)) = (st' ! i XOR push_bit 16 (st' ! i)) XOR (st ! r XOR push_bit 15 (st ! r))"
    unfolding b_def well_b_def qr[symmetric] by (simp only: xor.assoc xor.left_commute xor.commute)
  then have i: "st ! i = st' ! i" unfolding xor_cancel by (rule shift_xor_inj) simp
  let ?k = "b st' XOR well_d (b st' XOR c) XOR push_bit 18 (b st') XOR push_bit 28 c"
  have "(st ! p XOR push_bit 2 (st ! p)) XOR ?k = (st' ! p XOR push_bit 2 (st' ! p)) XOR ?k"
    using at[of p] ne(6) assms(1-3) unfolding W b by (simp add: xor.assoc xor.left_commute xor.commute)
  then have "st ! p = st' ! p" unfolding xor_cancel by (rule shift_xor_inj) simp
  with i other have "st ! k = st' ! k" if "k < 16" for k using that by metis
  with assms(1,2) show ?thesis by (intro nth_equalityI) simp_all
qed

lemma well_words_zero: "i < 16 \<Longrightarrow> well_words (replicate 16 0) i = replicate 16 0"
  by (rule nth_equalityI) (simp_all add: well_words_def Let_def well_b_def well_d_def nth_list_update)

section \<open>Properties\<close>

text \<open>Drawing \<open>n\<close> numbers.\<close>

fun draws :: "nat \<Rightarrow> WELLRNG512aGenerator \<Rightarrow> (u32 list \<times> WELLRNG512aGenerator) res" where
  "draws 0 g = Inr ([], g)"
| "draws (Suc n) g =
     (case WELLRNG512a g of
        Inl f \<Rightarrow> Inl f
      | Inr (x, g) \<Rightarrow> (case draws n g of Inl f \<Rightarrow> Inl f | Inr (xs, g) \<Rightarrow> Inr (x # xs, g)))"

definition live :: "WELLRNG512aGenerator \<Rightarrow> bool" where
  "live g \<longleftrightarrow> rng_ok g \<and> rng_state g \<noteq> replicate 16 0"

lemma step_live:
  assumes "live g"
  shows "WELLRNG512a g = Inl Assertion \<or> (\<exists>x g'. WELLRNG512a g = Inr (x, g') \<and> live g'
    \<and> unat (rng_index g') = (unat (rng_index g) + 15) mod 16 \<and> rng_count g' = rng_count g + 1)"
proof (cases "rng_state g ! 0 \<noteq> 0 \<or> rng_state g ! 1 \<noteq> 0")
  case True
  have ok: "rng_ok g" and nz: "rng_state g \<noteq> replicate 16 0" using assms by (simp_all add: live_def)
  then have i: "unat (rng_index g) < 16" "length (rng_state g) = 16" by (simp_all add: rng_ok_def word_less_nat_alt)
  have "well_words (rng_state g) (unat (rng_index g)) \<noteq> replicate 16 0"
    using well_undo[OF i(2) _ i(1), of "replicate 16 0"] nz well_words_zero[OF i(1)] by auto
  moreover have "(rng_index g + 15) AND 15 < 16" by (simp add: mask_15 word_mod_less_divisor)
  ultimately show ?thesis using WELLRNG512a_eq[OF ok True] i(2) well_positions(3)[of "rng_index g"] ok
    by (simp add: live_def rng_ok_def Let_def)
qed (simp add: WELLRNG512a_def)

lemma draws_live:
  assumes "live g"
  shows "case draws n g of
      Inl f \<Rightarrow> f = Assertion
    | Inr (xs, g') \<Rightarrow> length xs = n \<and> live g' \<and> unat (rng_index g') = (unat (rng_index g) + 15 * n) mod 16 \<and> rng_count g' = rng_count g + of_nat n"
  using assms
proof (induction n arbitrary: g)
  case 0
  then show ?case by (simp add: live_def rng_ok_def word_less_nat_alt)
next
  case (Suc n)
  from step_live[OF Suc.prems] show ?case
  proof (elim disjE exE conjE)
    fix x g'
    assume g': "WELLRNG512a g = Inr (x, g')" "live g'" "unat (rng_index g') = (unat (rng_index g) + 15) mod 16" "rng_count g' = rng_count g + 1"
    with Suc.IH[OF g'(2)] show ?thesis
      by (auto split: sum.splits simp: mod_simps algebra_simps)
  qed simp
qed

lemma seed_words_length [simp]: "length (seed_words x i n) = n"
  by (induction n arbitrary: x i) (simp_all add: Let_def)

lemma seed_words_first: "0 < n \<Longrightarrow> seed_words x i n ! 0 = 1812433253 * (x XOR drop_bit 30 x) + i"
  by (cases n) (simp_all add: Let_def)

lemma seed_first:
  shows "rng_state (WELLRNG512a_seed v) ! 0 \<noteq> 0 \<or> rng_state (WELLRNG512a_seed v) ! 1 \<noteq> 0"
    and "live (WELLRNG512a_seed v)"
proof -
  show *: "rng_state (WELLRNG512a_seed v) ! 0 \<noteq> 0 \<or> rng_state (WELLRNG512a_seed v) ! 1 \<noteq> 0"
    using seed_words_first[of 15 v 1] by (cases "v = 0") (simp_all add: WELLRNG512a_seed_def)
  show "live (WELLRNG512a_seed v)"
    using * by (auto simp: live_def rng_ok_def) (simp_all add: WELLRNG512a_seed_def)
qed

text \<open>Two generators whose words and index agree after a step agreed before it.\<close>

lemma step_undo:
  assumes "rng_ok g1" and "rng_ok g2" and "WELLRNG512a g1 = Inr (x1, h1)" and "WELLRNG512a g2 = Inr (x2, h2)"
    and "rng_state h1 = rng_state h2" and "rng_index h1 = rng_index h2"
  shows "rng_state g1 = rng_state g2 \<and> rng_index g1 = rng_index g2"
proof -
  have e: "rng_state g1 ! 0 \<noteq> 0 \<or> rng_state g1 ! 1 \<noteq> 0" "rng_state g2 ! 0 \<noteq> 0 \<or> rng_state g2 ! 1 \<noteq> 0"
    using assms(3,4) by (auto simp: WELLRNG512a_def split: if_splits)
  have lt: "unat (rng_index g1) < 16" "unat (rng_index g2) < 16" "rng_index g1 < 16" "rng_index g2 < 16"
    using assms(1,2) by (simp_all add: rng_ok_def word_less_nat_alt)
  have h: "rng_state h1 = well_words (rng_state g1) (unat (rng_index g1))" "rng_index h1 = (rng_index g1 + 15) AND 15"
    "rng_state h2 = well_words (rng_state g2) (unat (rng_index g2))" "rng_index h2 = (rng_index g2 + 15) AND 15"
    using assms(3,4) WELLRNG512a_eq[OF assms(1) e(1)] WELLRNG512a_eq[OF assms(2) e(2)] by (auto simp: Let_def)
  have "(unat (rng_index g1) + 15) mod 16 = (unat (rng_index g2) + 15) mod 16"
    using assms(6) h(2,4) well_positions(3)[OF lt(3)] well_positions(3)[OF lt(4)] by simp
  then have "((unat (rng_index g1) + 15) mod 16 + 1) mod 16 = ((unat (rng_index g2) + 15) mod 16 + 1) mod 16" by simp
  then have "unat (rng_index g1) = unat (rng_index g2)" using lt(1,2) by (simp add: mod_simps)
  then have i: "rng_index g1 = rng_index g2" by (simp only: word_unat_eq_iff)
  then show ?thesis
    using well_undo[OF _ _ lt(1), of "rng_state g1" "rng_state g2"] assms(1,2,5) h(1,3) by (simp add: rng_ok_def)
qed

text \<open>C35: The generator of a script, whatever its seed: the first number can always be drawn; however many are drawn, the
  sixteen words stay sixteen, the index stays below sixteen and moves down by one with every number, the count is the
  number of draws, and the words are never all zero, from where every number would be zero. The only failure
  is the assertion on the first two words.\<close>

theorem generator_never_degenerates:
  "(\<exists>x g. WELLRNG512a (WELLRNG512a_seed v) = Inr (x, g))
   \<and> (case draws n (WELLRNG512a_seed v) of
        Inl f \<Rightarrow> f = Assertion
      | Inr (xs, g) \<Rightarrow> length xs = n \<and> length (rng_state g) = 16 \<and> unat (rng_index g) = (15 * n) mod 16
          \<and> rng_count g = of_nat n \<and> (\<exists>w \<in> set (rng_state g). w \<noteq> 0))"
proof
  let ?g = "WELLRNG512a_seed v"
  have ok: "rng_ok ?g" using seed_first(2)[of v] by (simp add: live_def)
  show "\<exists>x g. WELLRNG512a ?g = Inr (x, g)"
    using WELLRNG512a_eq[OF ok seed_first(1)] by (simp add: Let_def)
  have "rng_index ?g = 0" "rng_count ?g = 0" by (simp_all add: WELLRNG512a_seed_def)
  with draws_live[OF seed_first(2), of n v] show "case draws n ?g of
        Inl f \<Rightarrow> f = Assertion
      | Inr (xs, g) \<Rightarrow> length xs = n \<and> length (rng_state g) = 16 \<and> unat (rng_index g) = (15 * n) mod 16
          \<and> rng_count g = of_nat n \<and> (\<exists>w \<in> set (rng_state g). w \<noteq> 0)"
    by (auto simp: live_def rng_ok_def split: sum.splits) (metis replicate_eqI)
qed

end
