(* ===== verification/CFloat.thy ===== *)
theory CFloat
  imports CPrelude
begin

text \<open>
  The floating point arithmetic the rules of the game use (\<open>float\<close> and \<open>double\<close> of C, binary32 and
  binary64 with round to nearest, ties to even), on finite numbers only: a number is a mantissa and a power of two.
  Overflow to infinity and the loss of precision near zero are out of reach for the sizes of the
  numbers here, which start as 32-bit integers.
\<close>

section \<open>Rounding\<close>

type_synonym dyadic = "int \<times> int"

text \<open>\<open>(m, e)\<close> stands for \<open>m * 2 ^ e\<close>. The number of bits of a natural number, for use with mantissas.\<close>

fun bit_len :: "nat \<Rightarrow> nat" where
  "bit_len n = (if n = 0 then 0 else Suc (bit_len (n div 2)))"

declare bit_len.simps [simp del]

text \<open>The nearest multiple of \<open>2 ^ k\<close>, divided by \<open>2 ^ k\<close>; ties go to the even one.\<close>

definition round_shift :: "nat \<Rightarrow> nat \<Rightarrow> nat" where
  "round_shift k n =
     (let q = n div 2 ^ k; r = n mod 2 ^ k
      in if 2 * r > 2 ^ k \<or> (2 * r = 2 ^ k \<and> odd q) then q + 1 else q)"

text \<open>The nearest number with a mantissa of \<open>p\<close> bits.\<close>

definition round_bits :: "nat \<Rightarrow> dyadic \<Rightarrow> dyadic" where
  "round_bits p x =
     (case x of (m, e) \<Rightarrow>
        let n = nat \<bar>m\<bar>; k = bit_len n - p in (sgn m * int (round_shift k n), e + int k))"

definition float_of_int :: "int \<Rightarrow> dyadic" where
  "float_of_int v = round_bits 24 (v, 0)"

definition float_mul :: "dyadic \<Rightarrow> dyadic \<Rightarrow> dyadic" where
  "float_mul x y = round_bits 24 (fst x * fst y, snd x + snd y)"

definition float_add :: "dyadic \<Rightarrow> dyadic \<Rightarrow> dyadic" where
  "float_add x y =
     (let e = min (snd x) (snd y)
      in round_bits 24 (fst x * 2 ^ nat (snd x - e) + fst y * 2 ^ nat (snd y - e), e))"

text \<open>\<open>(float) (v / 10000.0)\<close>: the quotient of two \<open>double\<close>s, rounded to a \<open>double\<close> and then to a
  \<open>float\<close>. The quotient is computed to more bits than are kept, the lowest one telling whether there
  was a rest, which is what rounding depends on.\<close>

definition ten_thousandths :: "int \<Rightarrow> dyadic" where
  "ten_thousandths v =
     (let n = nat \<bar>v\<bar> * 2 ^ 80; m = 2 * (n div 10000) + (if n mod 10000 = 0 then 0 else 1)
      in round_bits 24 (round_bits 53 (sgn v * int m, -81)))"

text \<open>Conversion to \<open>int\<close>: towards zero; undefined beyond its range.\<close>

definition int_of_float :: "dyadic \<Rightarrow> 32 word res" where
  "int_of_float x =
     (case x of (m, e) \<Rightarrow>
        let v = sgn m * (if 0 \<le> e then \<bar>m\<bar> * 2 ^ nat e else \<bar>m\<bar> div 2 ^ nat (- e))
        in if - (2 ^ 31) \<le> v \<and> v < 2 ^ 31 then Inr (word_of_int v) else Inl BadCast)"

section \<open>Exact cases\<close>

lemma bit_len_0 [simp]: "bit_len 0 = 0" and bit_len_pos: "0 < n \<Longrightarrow> bit_len n = 1 + bit_len (n div 2)"
  by (simp_all add: bit_len.simps[of n] bit_len.simps[of 0])

lemma bit_len_add: "2 ^ k \<le> n \<Longrightarrow> bit_len n = k + bit_len (n div 2 ^ k)"
proof (induction k arbitrary: n)
  case (Suc k)
  then have "2 ^ k \<le> n div 2" by simp
  from Suc.IH[OF this] Suc.prems show ?case
    by (subst bit_len_pos) (simp_all add: div_mult2_eq[symmetric] less_le_trans[of 0 "2 ^ Suc k"])
qed simp

lemma bit_len_16: "65536 \<le> n \<Longrightarrow> bit_len n = 16 + bit_len (n div 65536)"
  using bit_len_add[of 16 n] by simp

lemma bit_len_4: "n < 65536 \<Longrightarrow> 16 \<le> n \<Longrightarrow> bit_len n = 4 + bit_len (n div 16)"
  using bit_len_add[of 4 n] by simp

lemma bit_len_1: "n < 16 \<Longrightarrow> 0 < n \<Longrightarrow> bit_len n = 1 + bit_len (n div 2)"
  by (rule bit_len_pos)

lemmas bit_len_eval = bit_len_16 bit_len_4 bit_len_1

lemma bit_len_le: "n < 2 ^ p \<Longrightarrow> bit_len n \<le> p"
proof (induction p arbitrary: n)
  case (Suc p)
  then have "n div 2 < 2 ^ p" by auto
  from Suc.IH[OF this] show ?case by (subst bit_len.simps) simp
qed (simp add: bit_len.simps)

lemma round_bits_small: "\<bar>m\<bar> < 2 ^ p \<Longrightarrow> round_bits p (m, e) = (m, e)"
  using bit_len_le[of "nat \<bar>m\<bar>" p] by (auto simp: round_bits_def round_shift_def Let_def nat_less_iff abs_mult_sgn mult.commute)

lemma bit_len_shift: "0 < n \<Longrightarrow> bit_len (n * 2 ^ j) = bit_len n + j"
  by (induction j) (simp_all add: bit_len.simps[of "n * (2 * 2 ^ _)"])

lemma round_shift_exact: "2 ^ k dvd n \<Longrightarrow> round_shift k n = n div 2 ^ k"
  by (auto simp: round_shift_def Let_def)

text \<open>A ratio of 10000 is one.\<close>

lemma ten_thousandths_one: "ten_thousandths 10000 = (2 ^ 23, - 23)"
proof -
  have "nat \<bar>10000\<bar> * 2 ^ 80 = (12089258196146291747061760000 :: nat)" by simp
  then have "ten_thousandths 10000 = round_bits 24 (round_bits 53 (2417851639229258349412352, -81))"
    unfolding ten_thousandths_def Let_def by simp
  moreover have "bit_len 2417851639229258349412352 = 82" "bit_len 4503599627370496 = 53" by (simp_all add: bit_len_eval)
  ultimately show ?thesis by (simp add: round_bits_def round_shift_def)
qed

text \<open>Integers of up to 24 bits are not changed by a ratio of 10000; the next one is.\<close>

lemma ratio_one_exact:
  assumes "\<bar>v\<bar> < 2 ^ 24"
  shows "int_of_float (float_mul (float_of_int v) (ten_thousandths 10000)) = Inr (word_of_int v)"
proof (cases "v = 0")
  case False
  define k where "k = bit_len (nat \<bar>v\<bar>) - 1"
  have k: "k \<le> 23" using bit_len_le[of "nat \<bar>v\<bar>" 24] assms by (simp add: k_def nat_less_iff)
  have n: "nat \<bar>v * 2 ^ 23\<bar> = nat \<bar>v\<bar> * 2 ^ 23" by (simp add: abs_mult nat_mult_distrib)
  have d: "(2 ^ 23 :: nat) = 2 ^ k * 2 ^ (23 - k)" using k by (simp flip: power_add)
  then have "round_shift k (nat \<bar>v\<bar> * 2 ^ 23) = nat \<bar>v\<bar> * 2 ^ (23 - k)"
    unfolding d by (subst round_shift_exact) simp_all
  moreover have "bit_len (nat \<bar>v\<bar> * 2 ^ 23) - 24 = k"
    using bit_len_shift[of "nat \<bar>v\<bar>" 23] False by (simp add: k_def)
  ultimately have "round_bits 24 (v * 2 ^ 23, -23) = (v * 2 ^ (23 - k), int k - 23)"
    unfolding round_bits_def Let_def prod.case n by (simp add: sgn_mult sgn_mult_abs flip: mult.assoc)
  moreover have "float_of_int v = (v, 0)" using round_bits_small[of v 24 0] assms by (simp add: float_of_int_def)
  moreover have "nat (23 - int k) = 23 - k" using k by simp
  ultimately show ?thesis using k assms
    by (simp add: float_mul_def ten_thousandths_one int_of_float_def Let_def abs_mult sgn_mult sgn_mult_abs abs_less_iff del: of_int_mult flip: of_int_mult)
qed (simp add: float_of_int_def float_mul_def round_bits_def int_of_float_def round_shift_def ten_thousandths_one)

lemma ratio_one_rounds: "int_of_float (float_mul (float_of_int 16777217) (ten_thousandths 10000)) = Inr 16777216"
  by (simp add: float_of_int_def float_mul_def ten_thousandths_one round_bits_def round_shift_def bit_len_eval int_of_float_def Let_def)

end
