(* ===== verification/HeroCalc.thy ===== *)
theory HeroCalc
  imports CFloat
begin

text \<open>
  The properties of a hero, \<^verbatim>\<open>src/world/calc/calc.c\<close>: base values, levels, stages, stars, talents, equipment with its
  affixes and suits, buffs and fashion are added up in a linked list with one node per type of property.

  The tables of the configuration and the data of the player's other modules are arguments. A list of
  nodes is a list of pairs; nodes are changed in place or added in front, so who still holds an old head
  of the list sees the new values but not the new nodes. \<open>int\<close> arithmetic wraps around, as it does in the
  compiled code.
\<close>

section \<open>Tables and player data\<close>

type_synonym property = "i32 \<times> i32"

record HeroConfig =
  hc_id :: i32
  hc_weapon :: i32
  hc_propertys :: "property list"
  hc_ext_property :: "property list"
  hc_talent_id :: i32
  hc_fight_talent_id :: i32
  hc_work_talent_id :: i32

record WeaponConfig =
  wp_propertys :: "property list"
  wp_talent_id :: i32

record EvoConfig =
  evo_propertys :: "property list"
  evo_slot :: "property list"

record TalentSkillConfig =
  ts_point_limit :: i32
  ts_effect :: "(i32 \<times> i32 \<times> i32) list"

record EquipAffixConfig =
  af_type :: i32
  af_level_ratio :: i32
  af_quality :: i32
  af_suit_id :: i32

record EquipConfig =
  ec_propertys :: "property list"
  ec_levelup_propertys :: "property list"
  ec_quality :: i32
  ec_suit :: i32

record BuffConfig =
  bc_type :: i32
  bc_value :: i32
  bc_hero_id :: i32

record HeroSkillGroupConfig =
  sg_talent_type :: i32
  sg_talent_id :: i32

record configs =
  get_hero_config :: "i32 \<Rightarrow> HeroConfig option"
  get_weapon_config :: "i32 \<Rightarrow> WeaponConfig option"
  get_level_property_config :: "i32 \<Rightarrow> property list option"
  get_evo_config :: "i32 \<Rightarrow> i32 \<Rightarrow> EvoConfig option"
  get_star_config :: "i32 \<Rightarrow> i32 \<Rightarrow> property list option"
  get_talent_skill_config :: "i32 \<Rightarrow> i32 \<Rightarrow> TalentSkillConfig option"
  get_hero_skill_group_config :: "i32 \<Rightarrow> HeroSkillGroupConfig list"
  get_equip_config :: "i32 \<Rightarrow> EquipConfig option"
  get_equip_affix_config :: "i32 \<Rightarrow> EquipAffixConfig option"
  get_equip_suit_config :: "i32 \<Rightarrow> nat \<Rightarrow> nat \<Rightarrow> (property \<times> property) option"
  get_buff_config :: "i32 \<Rightarrow> BuffConfig option"
  get_fashion_by_item :: "i32 \<Rightarrow> i32 \<Rightarrow> property option"
  get_common_config :: "nat \<Rightarrow> (i32 \<times> i32) option"

record Hero =
  he_uuid :: u64
  he_gid :: i32
  he_level :: i32
  he_stage :: i32
  he_stage_slot :: i32
  he_star :: i32
  he_weapon_level :: i32
  he_weapon_stage :: i32
  he_weapon_stage_slot :: i32
  he_weapon_star :: i32

record Equip =
  eq_gid :: i32
  eq_level :: i32
  eq_affix :: "(i32 \<times> i32 \<times> i32) list"

record HeroItem =
  hi_status :: i32
  hi_uid :: u64
  hi_id :: i32

text \<open>What the calculation asks of the player: the data of a talent (a C string), the equipment at a
  position of a hero, the selected skill, the active buffs and the items of heroes.\<close>

record player_data =
  talent_get :: "i32 \<Rightarrow> u64 \<Rightarrow> byte list option"
  equip_get_by_hero :: "u64 \<Rightarrow> i32 \<Rightarrow> Equip option"
  hero_get_selected_skill :: "u64 \<Rightarrow> property option"
  player_buffs :: "(i32 \<times> i32) list"
  player_hero_items :: "HeroItem list"

definition TALENT_MAXIMUM_DATA_SIZE :: nat where "TALENT_MAXIMUM_DATA_SIZE = 45"
definition EQUIP_INTO_BATTLE_MAX :: nat where "EQUIP_INTO_BATTLE_MAX = 12"
definition EQUIP_PROPERTY_POOL_MAX :: nat where "EQUIP_PROPERTY_POOL_MAX = 6"
definition EVO_SLOT_COUNT :: nat where "EVO_SLOT_COUNT = 6"
definition SUIT_SLOT_COUNT :: nat where
  "SUIT_SLOT_COUNT = EQUIP_INTO_BATTLE_MAX + EQUIP_INTO_BATTLE_MAX * EQUIP_PROPERTY_POOL_MAX"

definition TalentType_Hero :: i32 where "TalentType_Hero = 1"
definition TalentType_Weapon :: i32 where "TalentType_Weapon = 2"
definition TalentType_Hero_fight :: i32 where "TalentType_Hero_fight = 4"
definition TalentType_Hero_work :: i32 where "TalentType_Hero_work = 5"

section \<open>Adding properties\<close>

text \<open>The search for the node of a type, and the addition to it.\<close>

fun property_found :: "property list \<Rightarrow> i32 \<Rightarrow> i32 \<Rightarrow> property list option" where
  "property_found [] type val = None"
| "property_found ((t, v) # ps) type val =
     (if t = type then Some ((t, v + val) # ps)
      else map_option (\<lambda>ps. (t, v) # ps) (property_found ps type val))"

definition hero_property_add :: "property list \<Rightarrow> i32 \<Rightarrow> i32 \<Rightarrow> property list" where
  "hero_property_add head type val =
     (if type = 0 \<or> val = 0 then head
      else (case property_found head type val of Some head \<Rightarrow> head | None \<Rightarrow> (type, val) # head))"

text \<open>The loops over an array of properties.\<close>

definition hero_property_adds :: "property list \<Rightarrow> property list \<Rightarrow> property list" where
  "hero_property_adds cs head = fold (\<lambda>(t, v) head. hero_property_add head t v) cs head"

definition hero_property_calc_base :: "configs \<Rightarrow> Hero \<Rightarrow> property list \<Rightarrow> property list" where
  "hero_property_calc_base c hero head =
     (case get_hero_config c (he_gid hero) of
        None \<Rightarrow> head
      | Some cfg \<Rightarrow>
          let head = hero_property_adds (hc_propertys cfg) head;
              head = hero_property_adds (hc_ext_property cfg) head
          in case get_weapon_config c (hc_weapon cfg) of
               None \<Rightarrow> head
             | Some wcfg \<Rightarrow> hero_property_adds (wp_propertys wcfg) head)"

definition calc_level :: "configs \<Rightarrow> i32 \<Rightarrow> i32 \<Rightarrow> property list \<Rightarrow> property list" where
  "calc_level c gid level head =
     (case get_level_property_config c gid of
        None \<Rightarrow> head
      | Some ps \<Rightarrow> fold (\<lambda>(t, v) head. hero_property_add head t (v * level)) ps head)"

definition hero_property_calc_level :: "configs \<Rightarrow> Hero \<Rightarrow> property list \<Rightarrow> property list" where
  "hero_property_calc_level c hero head =
     (case get_hero_config c (he_gid hero) of
        None \<Rightarrow> head
      | Some cfg \<Rightarrow>
          let head = calc_level c (he_gid hero) (he_level hero) head
          in calc_level c (hc_weapon cfg) (he_weapon_level hero) head)"

definition calc_stage :: "configs \<Rightarrow> i32 \<Rightarrow> i32 \<Rightarrow> i32 \<Rightarrow> property list \<Rightarrow> property list" where
  "calc_stage c gid stage slot head =
     fold (\<lambda>i head.
        case get_evo_config c gid (of_nat i) of
          None \<Rightarrow> head
        | Some cfg \<Rightarrow>
            let head = hero_property_adds (evo_propertys cfg) head
            in fold (\<lambda>j head.
                 if int i < sint stage \<or> slot AND push_bit j 1 \<noteq> 0
                 then hero_property_add head (fst (evo_slot cfg ! j)) (snd (evo_slot cfg ! j)) else head) [0..<EVO_SLOT_COUNT] head)
       [0..<nat (sint stage + 1)] head"

definition hero_property_calc_stage :: "configs \<Rightarrow> Hero \<Rightarrow> property list \<Rightarrow> property list" where
  "hero_property_calc_stage c hero head =
     (case get_hero_config c (he_gid hero) of
        None \<Rightarrow> head
      | Some cfg \<Rightarrow>
          let head = calc_stage c (he_gid hero) (he_stage hero) (he_stage_slot hero) head
          in calc_stage c (hc_weapon cfg) (he_weapon_stage hero) (he_weapon_stage_slot hero) head)"

definition calc_star :: "configs \<Rightarrow> i32 \<Rightarrow> i32 \<Rightarrow> property list \<Rightarrow> property list" where
  "calc_star c gid star head =
     fold (\<lambda>i head. case get_star_config c gid (of_nat i) of None \<Rightarrow> head | Some ps \<Rightarrow> hero_property_adds ps head)
       [1..<nat (sint star + 1)] head"

definition hero_property_calc_star :: "configs \<Rightarrow> Hero \<Rightarrow> property list \<Rightarrow> property list" where
  "hero_property_calc_star c hero head =
     (case get_hero_config c (he_gid hero) of
        None \<Rightarrow> head
      | Some cfg \<Rightarrow>
          let head = calc_star c (he_gid hero) (he_star hero) head
          in calc_star c (hc_weapon cfg) (he_weapon_star hero) head)"

text \<open>The digits of a talent are read by position, whatever the length of the string.\<close>

definition calc_talent :: "configs \<Rightarrow> byte list option \<Rightarrow> i32 \<Rightarrow> property list \<Rightarrow> property list res" where
  "calc_talent c talent talentid head =
     (case talent of
        None \<Rightarrow> Inr head
      | Some data \<Rightarrow>
          res_fold (\<lambda>i head.
            if \<not> i < length data then Inl OutOfBounds
            else
              let val = scast (data ! i) - 48 :: i32
              in if sint val > 0 then
                   (case get_talent_skill_config c talentid (of_nat i + 1) of
                      None \<Rightarrow> Inr head
                    | Some cfg \<Rightarrow>
                        let val = (if sint val > sint (ts_point_limit cfg) then ts_point_limit cfg else val)
                        in Inr (fold (\<lambda>(t, v, incr) head. hero_property_add head t (v + incr * (val - 1))) (ts_effect cfg) head))
                 else Inr head)
            [0..<TALENT_MAXIMUM_DATA_SIZE] head)"

definition hero_property_calc_talent :: "configs \<Rightarrow> player_data option \<Rightarrow> Hero \<Rightarrow> property list \<Rightarrow> property list res" where
  "hero_property_calc_talent c player hero head =
     (case get_hero_config c (he_gid hero) of
        None \<Rightarrow> Inr head
      | Some cfg \<Rightarrow>
          (case player of
             None \<Rightarrow> Inr head
           | Some pl \<Rightarrow>
               let tal = (\<lambda>type. talent_get pl type (he_uuid hero))
               in res_bind (calc_talent c (tal TalentType_Hero) (hc_talent_id cfg) head) (\<lambda>head.
                  res_bind (calc_talent c (tal TalentType_Hero_fight) (hc_fight_talent_id cfg) head) (\<lambda>head.
                  res_bind (calc_talent c (tal TalentType_Hero_work) (hc_work_talent_id cfg) head) (\<lambda>head.
                  res_bind (case get_weapon_config c (hc_weapon cfg) of
                              None \<Rightarrow> Inr head
                            | Some wcfg \<Rightarrow> calc_talent c (tal TalentType_Weapon) (wp_talent_id wcfg) head) (\<lambda>head.
                  res_bind (res_fold (\<lambda>g head.
                               if sg_talent_type g \<noteq> TalentType_Weapon
                               then calc_talent c (tal (sg_talent_type g)) (sg_talent_id g) head else Inr head)
                             (get_hero_skill_group_config c (hc_id cfg)) head) (\<lambda>head.
                    case hero_get_selected_skill pl (he_uuid hero) of
                      None \<Rightarrow> Inr head
                    | Some (t, v) \<Rightarrow> Inr (hero_property_add head t v))))))))"

section \<open>Equipment\<close>

definition calc_affix_value :: "configs \<Rightarrow> i32 \<Rightarrow> i32 \<Rightarrow> i32 \<Rightarrow> EquipAffixConfig option \<Rightarrow> i32 \<Rightarrow> i32 res" where
  "calc_affix_value c i val grow cfg level =
     (case (case cfg of Some a \<Rightarrow> Some a | None \<Rightarrow> get_equip_affix_config c i) of
        None \<Rightarrow> Inr 0
      | Some a \<Rightarrow>
          let f = ten_thousandths (sint (af_level_ratio a));
              x = float_add (float_mul (float_of_int (sint (val * (level - 1)))) f) (float_of_int (sint grow))
          in int_of_float (float_add (float_of_int (sint val)) x))"

definition scaled :: "i32 \<Rightarrow> dyadic \<Rightarrow> i32 res" where
  "scaled v rate = int_of_float (float_mul (float_of_int (sint v)) rate)"

definition calc_equip_property :: "configs \<Rightarrow> Equip option \<Rightarrow> property list \<Rightarrow> i32 \<Rightarrow> property list res" where
  "calc_equip_property c equip head ratio =
     (case equip of
        None \<Rightarrow> Inr head
      | Some e \<Rightarrow>
          (case get_equip_config c (eq_gid e) of
             None \<Rightarrow> Inr head
           | Some cfg \<Rightarrow>
               let rate = ten_thousandths (sint ratio)
               in res_bind (res_fold (\<lambda>(t, v) head. res_bind (scaled v rate) (\<lambda>v. Inr (hero_property_add head t v)))
                              (ec_propertys cfg) head) (\<lambda>head.
                  res_bind (res_fold (\<lambda>(t, v) head. res_bind (scaled (v * eq_level e) rate) (\<lambda>v. Inr (hero_property_add head t v)))
                              (ec_levelup_propertys cfg) head) (\<lambda>head.
                    res_fold (\<lambda>(pid, val, grow) head.
                      if sint pid > 0 then
                        (case get_equip_affix_config c pid of
                           None \<Rightarrow> Inr head
                         | Some a \<Rightarrow>
                             res_bind (calc_affix_value c pid val grow (Some a) (eq_level e)) (\<lambda>v.
                             res_bind (scaled v rate) (\<lambda>v. Inr (hero_property_add head (af_type a) v))))
                      else Inr head)
                    (eq_affix e) head))))"

definition calc_affix_grow_max_value :: "i32 \<Rightarrow> i32 \<Rightarrow> i32 \<Rightarrow> i32" where
  "calc_affix_grow_max_value property_max limit_per_level level = property_max + (level - 1) * limit_per_level"

text \<open>The position, not the type, of the equipment is tested.\<close>

definition IS_EQUIP_TYPE_1 :: "i32 \<Rightarrow> bool" where "IS_EQUIP_TYPE_1 type \<longleftrightarrow> type AND 0xfc0 \<noteq> 0"
definition IS_EQUIP_TYPE_2 :: "i32 \<Rightarrow> bool" where "IS_EQUIP_TYPE_2 type \<longleftrightarrow> type AND 0x03f \<noteq> 0"

text \<open>What is seen through the head \<open>old\<close> after nodes have been added in front.\<close>

definition seen_from :: "property list \<Rightarrow> property list \<Rightarrow> property list" where
  "seen_from old new = drop (length new - length old) new"

record suit_out =
  so_suit :: i32
  so_quality :: "nat list"

type_synonym suit_in = "i32 \<times> i32"

text \<open>The loops of \<open>calc_suit\<close>: the slot of a suit, and the count of its pieces by quality.\<close>

fun suit_count :: "suit_in \<Rightarrow> suit_out list \<Rightarrow> suit_out list" where
  "suit_count x [] = []"
| "suit_count (suit, quality) (r # rs) =
     (if so_suit r = suit \<or> so_suit r = 0
      then \<lparr>so_suit = suit, so_quality = map (\<lambda>k. so_quality r ! k + (if int k \<le> sint quality then 1 else 0)) [0..<10]\<rparr> # rs
      else r # suit_count (suit, quality) rs)"

definition calc_suit :: "suit_in list \<Rightarrow> suit_out list \<Rightarrow> suit_out list" where
  "calc_suit inp out = fold (\<lambda>x out. if fst x = 0 then out else suit_count x out) inp out"

text \<open>The additional equipment of a position: the groups of the common configuration 12 or 13.\<close>

definition addon_config :: "configs \<Rightarrow> nat \<Rightarrow> i32 \<times> i32" where
  "addon_config c i =
     (case (if IS_EQUIP_TYPE_1 (of_nat i) then get_common_config c 12 else None) of
        Some (para1, para2) \<Rightarrow> (para2, para1)
      | None \<Rightarrow>
          (case (if IS_EQUIP_TYPE_2 (of_nat i) then get_common_config c 13 else None) of
             Some (para1, para2) \<Rightarrow> (para2, para1)
           | None \<Rightarrow> (0, 0)))"

definition calc_addons :: "configs \<Rightarrow> player_data \<Rightarrow> Hero \<Rightarrow> nat \<Rightarrow> property list \<Rightarrow> property list res" where
  "calc_addons c pl hero i head =
     (let (addon_group_count, addon_property) = addon_config c i
      in if sint addon_property > 0 then
           res_fold (\<lambda>group head.
             case equip_get_by_hero pl (he_uuid hero) (push_bit 8 (of_nat group) OR of_nat i) of
               None \<Rightarrow> Inr head
             | Some e \<Rightarrow> res_bind (calc_equip_property c (Some e) head addon_property) (\<lambda>new. Inr (seen_from head new)))
             [1..<nat (sint addon_group_count + 1)] head
         else Inr head)"

text \<open>The suits a piece of equipment at position \<open>i\<close> and its affixes belong to.\<close>

definition note_suits :: "configs \<Rightarrow> Equip \<Rightarrow> nat \<Rightarrow> suit_in list \<Rightarrow> suit_in list" where
  "note_suits c e i inp =
     (let inp = (case get_equip_config c (eq_gid e) of None \<Rightarrow> inp | Some cfg \<Rightarrow> inp[i - 1 := (ec_suit cfg, ec_quality cfg)])
      in fold (\<lambda>j inp.
           let pid = fst (eq_affix e ! j)
           in if pid = 0 then inp
              else (case get_equip_affix_config c pid of
                      None \<Rightarrow> inp
                    | Some a \<Rightarrow> inp[i * EQUIP_PROPERTY_POOL_MAX + j := (af_suit_id a, af_quality a)]))
          [0..<EQUIP_PROPERTY_POOL_MAX] inp)"

definition calc_equips :: "configs \<Rightarrow> player_data \<Rightarrow> Hero \<Rightarrow> property list \<times> suit_in list \<Rightarrow> (property list \<times> suit_in list) res" where
  "calc_equips c pl hero st =
     res_fold (\<lambda>i (head, inp).
       case equip_get_by_hero pl (he_uuid hero) (of_nat i) of
         None \<Rightarrow> Inr (head, inp)
       | Some e \<Rightarrow>
           res_bind (calc_equip_property c (Some e) head 10000) (\<lambda>head.
           res_bind (calc_addons c pl hero i head) (\<lambda>head.
             Inr (head, note_suits c e i inp))))
       [1..<EQUIP_INTO_BATTLE_MAX + 1] st"

text \<open>The bonus of one suit: for every number of pieces the best quality counts. \<open>count_quality\<close> has ten entries.\<close>

definition suit_step :: "configs \<Rightarrow> i32 \<Rightarrow> nat \<Rightarrow> nat \<Rightarrow> nat list \<times> property list \<Rightarrow> (nat list \<times> property list) res" where
  "suit_step c suit j k st =
     (case st of (count_quality, head) \<Rightarrow>
        if \<not> k < length count_quality then Inl OutOfBounds
        else if count_quality ! k \<noteq> 0 then Inr st
        else
          (case get_equip_suit_config c suit j k of
             None \<Rightarrow> Inr st
           | Some ((t0, v0), (t1, v1)) \<Rightarrow>
               Inr (count_quality[k := j], hero_property_add (hero_property_add head t0 v0) t1 v1)))"

definition calc_suit_bonus :: "configs \<Rightarrow> suit_out \<Rightarrow> property list \<Rightarrow> property list res" where
  "calc_suit_bonus c r head =
     (if so_suit r = 0 then Inr head
      else
        res_bind (res_fold (\<lambda>j st. res_fold (suit_step c (so_suit r) j) (rev [2..<so_quality r ! j + 1]) st)
                   (rev [0..<10]) (replicate 10 0, head)) (\<lambda>(_, head). Inr head))"

section \<open>Buffs, fashion and the whole\<close>

definition calc_buff_property :: "configs \<Rightarrow> player_data option \<Rightarrow> Hero \<Rightarrow> property list \<Rightarrow> property list" where
  "calc_buff_property c player hero head =
     (case player of
        None \<Rightarrow> head
      | Some pl \<Rightarrow>
          fold (\<lambda>(buff_id, val) head.
            case get_buff_config c buff_id of
              None \<Rightarrow> head
            | Some cfg \<Rightarrow>
                if bc_hero_id cfg = 0 \<or> bc_hero_id cfg = he_gid hero
                then hero_property_add head (bc_type cfg) (bc_value cfg * val) else head)
            (player_buffs pl) head)"

definition calc_fashion_property :: "configs \<Rightarrow> player_data option \<Rightarrow> Hero \<Rightarrow> property list \<Rightarrow> property list" where
  "calc_fashion_property c player hero head =
     (case player of
        None \<Rightarrow> head
      | Some pl \<Rightarrow>
          fold (\<lambda>item head.
            if hi_status item = 1 \<and> hi_uid item = he_uuid hero then
              (case get_fashion_by_item c (he_gid hero) (hi_id item) of
                 None \<Rightarrow> head
               | Some (t, v) \<Rightarrow> hero_property_add head t v)
            else head)
            (player_hero_items pl) head)"

definition calc_hero_property :: "configs \<Rightarrow> player_data option \<Rightarrow> Hero \<Rightarrow> property list \<Rightarrow> property list res" where
  "calc_hero_property c player hero head =
     (case player of
        None \<Rightarrow> Inr head
      | Some pl \<Rightarrow>
          let head = hero_property_calc_base c hero head;
              head = hero_property_calc_level c hero head;
              head = hero_property_calc_stage c hero head;
              head = hero_property_calc_star c hero head
          in res_bind (hero_property_calc_talent c player hero head) (\<lambda>head.
             res_bind (calc_equips c pl hero (head, replicate SUIT_SLOT_COUNT (0, 0))) (\<lambda>(head, equip_suit_in).
               let equip_suit_out = calc_suit equip_suit_in (replicate SUIT_SLOT_COUNT \<lparr>so_suit = 0, so_quality = replicate 10 0\<rparr>)
               in res_bind (res_fold (calc_suit_bonus c) equip_suit_out head) (\<lambda>head.
                    Inr (calc_fashion_property c player hero (calc_buff_property c player hero head))))))"

end
