(* ===== verification/HeroSum.thy ===== *)
theory HeroSum
  imports HeroCalc
begin

text \<open>
  What the properties of a hero add up to. A list of property nodes stands for the function from types to
  values; every part of the calculation is shown to add the contributions of its tables, so that the order
  of the parts does not matter, and the loops over suits are compared with their intention: for each number of
  pieces the best quality that is complete gives its bonus.
\<close>

section \<open>Property lists as functions\<close>

definition prop_val :: "property list \<Rightarrow> i32 \<Rightarrow> i32" where
  "prop_val ps t = (case map_of ps t of None \<Rightarrow> 0 | Some v \<Rightarrow> v)"

definition props_ok :: "property list \<Rightarrow> bool" where
  "props_ok ps \<longleftrightarrow> distinct (map fst ps) \<and> 0 \<notin> fst ` set ps"

definition total :: "property list \<Rightarrow> i32 \<Rightarrow> i32" where
  "total cs t = sum_list (map (\<lambda>(t', v). if t' = t then v else 0) cs)"

lemma total_simps [simp]:
  "total [] t = 0" "total (x # cs) t = (if fst x = t then snd x else 0) + total cs t"
  "total (cs @ ds) t = total cs t + total ds t"
  by (simp_all add: total_def case_prod_beta)

lemma total_concat: "total (concat css) t = sum_list (map (\<lambda>cs. total cs t) css)"
  by (induction css) simp_all

lemma property_found_Some:
  assumes "property_found ps t v = Some qs"
  shows "map fst qs = map fst ps" and "map_of qs = (map_of ps)(t \<mapsto> prop_val ps t + v)"
proof -
  have "map fst qs = map fst ps \<and> map_of qs = (map_of ps)(t \<mapsto> prop_val ps t + v)"
    using assms
  proof (induction ps arbitrary: qs)
    case (Cons p ps)
    then show ?case
      by (cases p) (auto simp: prop_val_def split: if_splits option.splits intro!: ext)
  qed simp
  then show "map fst qs = map fst ps" and "map_of qs = (map_of ps)(t \<mapsto> prop_val ps t + v)" by simp_all
qed

lemma property_found_None: "property_found ps t v = None \<longleftrightarrow> t \<notin> fst ` set ps"
proof (induction ps)
  case (Cons p ps)
  then show ?case by (cases p) (simp split: if_splits)
qed simp

lemma hero_property_add_ok:
  assumes "props_ok ps"
  shows "props_ok (hero_property_add ps t v)"
    and "prop_val (hero_property_add ps t v) t' = prop_val ps t' + (if t = t' \<and> t \<noteq> 0 then v else 0)"
proof -
  have "props_ok (hero_property_add ps t v) \<and>
    prop_val (hero_property_add ps t v) t' = prop_val ps t' + (if t = t' \<and> t \<noteq> 0 then v else 0)"
  proof (cases "property_found ps t v")
    case None
    then have "t \<notin> fst ` set ps" "map_of ps t = None" by (simp_all add: property_found_None map_of_eq_None_iff)
    then show ?thesis using assms None by (auto simp: hero_property_add_def props_ok_def prop_val_def)
  next
    case (Some qs)
    note q = property_found_Some[OF Some]
    have "props_ok qs" using assms q(1) unfolding props_ok_def by (metis list.set_map)
    then show ?thesis using Some assms q(2) by (auto simp: hero_property_add_def prop_val_def)
  qed
  then show "props_ok (hero_property_add ps t v)"
    and "prop_val (hero_property_add ps t v) t' = prop_val ps t' + (if t = t' \<and> t \<noteq> 0 then v else 0)" by simp_all
qed

lemma adds_simps [simp]:
  "hero_property_adds [] h = h" "hero_property_adds ((t, v) # cs) h = hero_property_adds cs (hero_property_add h t v)"
  by (simp_all add: hero_property_adds_def)

lemma adds_append: "hero_property_adds (cs @ ds) h = hero_property_adds ds (hero_property_adds cs h)"
  by (simp add: hero_property_adds_def)

lemma adds_ok:
  assumes "props_ok h"
  shows "props_ok (hero_property_adds cs h)"
    and "t \<noteq> 0 \<Longrightarrow> prop_val (hero_property_adds cs h) t = prop_val h t + total cs t"
proof -
  have "props_ok (hero_property_adds cs h) \<and> (t \<noteq> 0 \<longrightarrow> prop_val (hero_property_adds cs h) t = prop_val h t + total cs t)"
    using assms
  proof (induction cs arbitrary: h)
    case (Cons p cs)
    then show ?case
      using hero_property_add_ok[OF Cons.prems, of "fst p" "snd p"] by (cases p) auto
  qed simp
  then show "props_ok (hero_property_adds cs h)"
    and "t \<noteq> 0 \<Longrightarrow> prop_val (hero_property_adds cs h) t = prop_val h t + total cs t" by simp_all
qed

text \<open>A loop each of whose rounds adds some contributions adds all of them.\<close>

lemma fold_adds:
  assumes "\<And>x h. x \<in> set xs \<Longrightarrow> f x h = hero_property_adds (g x) h"
  shows "fold f xs h = hero_property_adds (concat (map g xs)) h"
  using assms by (induction xs arbitrary: h) (simp_all add: adds_append)

lemma res_fold_adds:
  assumes "\<And>x h. x \<in> set xs \<Longrightarrow> f x h = Inr (hero_property_adds (g x) h)"
  shows "res_fold f xs h = Inr (hero_property_adds (concat (map g xs)) h)"
  using assms by (induction xs arbitrary: h) (simp_all add: adds_append)

section \<open>Contributions\<close>

definition base_contrib :: "configs \<Rightarrow> Hero \<Rightarrow> property list" where
  "base_contrib c hero =
     (case get_hero_config c (he_gid hero) of
        None \<Rightarrow> []
      | Some cfg \<Rightarrow> hc_propertys cfg @ hc_ext_property cfg
          @ (case get_weapon_config c (hc_weapon cfg) of None \<Rightarrow> [] | Some wcfg \<Rightarrow> wp_propertys wcfg))"

definition level_of :: "configs \<Rightarrow> i32 \<Rightarrow> i32 \<Rightarrow> property list" where
  "level_of c gid level =
     (case get_level_property_config c gid of None \<Rightarrow> [] | Some ps \<Rightarrow> map (\<lambda>(t, v). (t, v * level)) ps)"

text \<open>All stages below the current one with all their slots, and the current one with the slots that are filled.\<close>

definition stage_of :: "configs \<Rightarrow> i32 \<Rightarrow> i32 \<Rightarrow> i32 \<Rightarrow> property list" where
  "stage_of c gid stage slot =
     concat (map (\<lambda>i. case get_evo_config c gid (of_nat i) of
                        None \<Rightarrow> []
                      | Some cfg \<Rightarrow> evo_propertys cfg
                          @ map (\<lambda>j. evo_slot cfg ! j) (filter (\<lambda>j. int i < sint stage \<or> slot AND push_bit j 1 \<noteq> 0) [0..<EVO_SLOT_COUNT]))
       [0..<nat (sint stage + 1)])"

definition star_of :: "configs \<Rightarrow> i32 \<Rightarrow> i32 \<Rightarrow> property list" where
  "star_of c gid star =
     concat (map (\<lambda>i. case get_star_config c gid (of_nat i) of None \<Rightarrow> [] | Some ps \<Rightarrow> ps) [1..<nat (sint star + 1)])"

text \<open>Every talent point above zero, up to the limit of its skill.\<close>

definition talent_of :: "configs \<Rightarrow> byte list option \<Rightarrow> i32 \<Rightarrow> property list" where
  "talent_of c talent talentid =
     (case talent of
        None \<Rightarrow> []
      | Some data \<Rightarrow>
          concat (map (\<lambda>i.
            let val = sint (data ! i) - 48
            in if val > 0 then
                 (case get_talent_skill_config c talentid (of_nat i + 1) of
                    None \<Rightarrow> []
                  | Some cfg \<Rightarrow>
                      map (\<lambda>(t, v, incr). (t, v + incr * (word_of_int (min val (sint (ts_point_limit cfg))) - 1))) (ts_effect cfg))
               else []) [0..<TALENT_MAXIMUM_DATA_SIZE]))"

lemma calc_base_adds: "hero_property_calc_base c hero h = hero_property_adds (base_contrib c hero) h"
  by (simp add: hero_property_calc_base_def base_contrib_def adds_append Let_def split: option.splits)

lemma calc_level_adds: "calc_level c gid level h = hero_property_adds (level_of c gid level) h"
  by (simp add: calc_level_def level_of_def hero_property_adds_def fold_map comp_def case_prod_beta' split: option.splits)

lemma calc_stage_adds: "calc_stage c gid stage slot h = hero_property_adds (stage_of c gid stage slot) h"
proof -
  have slots: "fold (\<lambda>j h. if P j then hero_property_add h (fst (f j)) (snd (f j)) else h) js h =
      hero_property_adds (map f (filter P js)) h" for P f js h
    by (induction js arbitrary: h) (simp_all add: hero_property_adds_def case_prod_beta)
  show ?thesis
    unfolding calc_stage_def stage_of_def
    by (rule fold_adds) (simp add: adds_append slots Let_def split: option.splits)
qed

lemma calc_star_adds: "calc_star c gid star h = hero_property_adds (star_of c gid star) h"
  unfolding calc_star_def star_of_def by (rule fold_adds) (simp split: option.splits)

definition talent_fits :: "byte list option \<Rightarrow> bool" where
  "talent_fits talent \<longleftrightarrow> (case talent of None \<Rightarrow> True | Some data \<Rightarrow> TALENT_MAXIMUM_DATA_SIZE \<le> length data)"

lemma sint_digit: "sint (scast (b :: byte) - 48 :: i32) = sint b - 48"
proof -
  have "scast b - 48 = (word_of_int (sint b - 48) :: i32)" by simp
  moreover have "- 128 \<le> sint b" "sint b < 128" using sint_ge[of b] sint_lt[of b] by simp_all
  ultimately show ?thesis by (simp add: signed_of_int signed_take_bit_int_eq_self del: of_int_diff)
qed

lemma talent_point:
  "(if sint (l :: i32) < sint (b :: byte) - 48 then l else scast b - 48) = word_of_int (min (sint b - 48) (sint l))"
  by (simp add: min_def)

lemma calc_talent_adds:
  assumes "talent_fits talent"
  shows "calc_talent c talent talentid h = Inr (hero_property_adds (talent_of c talent talentid) h)"
proof (cases talent)
  case (Some data)
  have "fold (\<lambda>(t, v, incr) head. hero_property_add head t (v + incr * (val - 1))) es h =
      hero_property_adds (map (\<lambda>(t, v, incr). (t, v + incr * (val - 1))) es) h" for es val h
    by (induction es arbitrary: h) auto
  then show ?thesis
    unfolding calc_talent_def talent_of_def Some option.case
    using assms Some by (intro res_fold_adds) (simp add: talent_fits_def Let_def sint_digit talent_point del: of_int_diff split: option.splits)
qed (simp add: calc_talent_def talent_of_def)

definition hero_talents :: "configs \<Rightarrow> HeroConfig \<Rightarrow> (i32 \<times> i32) list" where
  "hero_talents c cfg =
     [(TalentType_Hero, hc_talent_id cfg), (TalentType_Hero_fight, hc_fight_talent_id cfg), (TalentType_Hero_work, hc_work_talent_id cfg)]
     @ (case get_weapon_config c (hc_weapon cfg) of None \<Rightarrow> [] | Some wcfg \<Rightarrow> [(TalentType_Weapon, wp_talent_id wcfg)])
     @ map (\<lambda>g. (sg_talent_type g, sg_talent_id g)) (filter (\<lambda>g. sg_talent_type g \<noteq> TalentType_Weapon) (get_hero_skill_group_config c (hc_id cfg)))"

definition talent_contrib :: "configs \<Rightarrow> player_data \<Rightarrow> Hero \<Rightarrow> property list" where
  "talent_contrib c pl hero =
     (case get_hero_config c (he_gid hero) of
        None \<Rightarrow> []
      | Some cfg \<Rightarrow>
          concat (map (\<lambda>(type, tid). talent_of c (talent_get pl type (he_uuid hero)) tid) (hero_talents c cfg))
          @ (case hero_get_selected_skill pl (he_uuid hero) of None \<Rightarrow> [] | Some p \<Rightarrow> [p]))"

lemma calc_talents_add:
  assumes "\<And>type. talent_fits (talent_get pl type (he_uuid hero))"
  shows "hero_property_calc_talent c (Some pl) hero h = Inr (hero_property_adds (talent_contrib c pl hero) h)"
proof -
  have groups: "res_fold (\<lambda>g h. if sg_talent_type g \<noteq> TalentType_Weapon
         then calc_talent c (talent_get pl (sg_talent_type g) (he_uuid hero)) (sg_talent_id g) h else Inr h) gs h =
      Inr (hero_property_adds (concat (map (\<lambda>g. talent_of c (talent_get pl (sg_talent_type g) (he_uuid hero)) (sg_talent_id g))
         (filter (\<lambda>g. sg_talent_type g \<noteq> TalentType_Weapon) gs))) h)" for gs h
    by (induction gs arbitrary: h) (simp_all add: calc_talent_adds[OF assms] adds_append)
  show ?thesis
    by (auto simp: hero_property_calc_talent_def talent_contrib_def hero_talents_def calc_talent_adds[OF assms] groups adds_append
        comp_def split: option.splits)
qed

section \<open>Equipment\<close>

text \<open>What a piece of equipment contributes; a fault where a number leaves the range of \<open>int\<close>.\<close>

definition equip_scaled :: "i32 \<Rightarrow> property \<Rightarrow> property res" where
  "equip_scaled ratio p = res_bind (scaled (snd p) (ten_thousandths (sint ratio))) (\<lambda>v. Inr (fst p, v))"

definition affix_value :: "configs \<Rightarrow> i32 \<Rightarrow> i32 \<times> i32 \<times> i32 \<Rightarrow> property res" where
  "affix_value c level x =
     (case x of (pid, val, grow) \<Rightarrow>
        if sint pid > 0 then
          (case get_equip_affix_config c pid of
             None \<Rightarrow> Inr (0, 0)
           | Some a \<Rightarrow> res_bind (calc_affix_value c pid val grow (Some a) level) (\<lambda>v. Inr (af_type a, v)))
        else Inr (0, 0))"

fun map_res :: "('a \<Rightarrow> 'b res) \<Rightarrow> 'a list \<Rightarrow> 'b list res" where
  "map_res f [] = Inr []"
| "map_res f (x # xs) = res_bind (f x) (\<lambda>y. res_bind (map_res f xs) (\<lambda>ys. Inr (y # ys)))"

definition equip_of :: "configs \<Rightarrow> i32 \<Rightarrow> Equip \<Rightarrow> property list res" where
  "equip_of c ratio e =
     (case get_equip_config c (eq_gid e) of
        None \<Rightarrow> Inr []
      | Some cfg \<Rightarrow>
          res_bind (map_res (equip_scaled ratio) (ec_propertys cfg)) (\<lambda>xs.
          res_bind (map_res (\<lambda>(t, v). equip_scaled ratio (t, v * eq_level e)) (ec_levelup_propertys cfg)) (\<lambda>ys.
          res_bind (map_res (\<lambda>x. res_bind (affix_value c (eq_level e) x) (equip_scaled ratio)) (eq_affix e)) (\<lambda>zs.
            Inr (xs @ ys @ zs)))))"

lemma map_res_adds:
  assumes "\<And>x h y. x \<in> set xs \<Longrightarrow> g x = Inr y \<Longrightarrow> f x h = Inr (hero_property_adds [y] h)" and "map_res g xs = Inr ys"
  shows "res_fold f xs h = Inr (hero_property_adds ys h)"
  using assms
proof (induction xs arbitrary: ys h)
  case (Cons x xs)
  then obtain y zs where y: "g x = Inr y" "map_res g xs = Inr zs" "ys = y # zs" by (auto simp: res_bind_Inr_iff)
  with Cons.prems(1)[of x y h] Cons.IH[of zs] Cons.prems(1) show ?case by (cases y) simp
qed simp

lemma hero_property_add_zero: "hero_property_add h 0 v = h"
  by (simp add: hero_property_add_def)

lemma scaled_zero [simp]: "scaled 0 rate = Inr 0"
  by (simp add: scaled_def float_of_int_def float_mul_def round_bits_def int_of_float_def round_shift_def Let_def split: prod.splits)

lemma calc_equip_adds:
  assumes "equip_of c ratio e = Inr cs"
  shows "calc_equip_property c (Some e) h ratio = Inr (hero_property_adds cs h)"
proof (cases "get_equip_config c (eq_gid e)")
  case (Some cfg)
  obtain xs ys zs where cs: "cs = xs @ ys @ zs" "map_res (equip_scaled ratio) (ec_propertys cfg) = Inr xs"
    "map_res (\<lambda>(t, v). equip_scaled ratio (t, v * eq_level e)) (ec_levelup_propertys cfg) = Inr ys"
    "map_res (\<lambda>x. res_bind (affix_value c (eq_level e) x) (equip_scaled ratio)) (eq_affix e) = Inr zs"
    using assms Some by (auto simp: equip_of_def res_bind_Inr_iff)
  let ?rate = "ten_thousandths (sint ratio)"
  have 1: "res_fold (\<lambda>(t, v) head. res_bind (scaled v ?rate) (\<lambda>v. Inr (hero_property_add head t v))) (ec_propertys cfg) h =
      Inr (hero_property_adds xs h)" for h
    by (rule map_res_adds[OF _ cs(2)]) (auto simp: equip_scaled_def res_bind_Inr_iff)
  have 2: "res_fold (\<lambda>(t, v) head. res_bind (scaled (v * eq_level e) ?rate) (\<lambda>v. Inr (hero_property_add head t v))) (ec_levelup_propertys cfg) h =
      Inr (hero_property_adds ys h)" for h
    by (rule map_res_adds[OF _ cs(3)]) (auto simp: equip_scaled_def res_bind_Inr_iff)
  have 3: "res_fold (\<lambda>(pid, val, grow) head.
        if sint pid > 0 then
          (case get_equip_affix_config c pid of
             None \<Rightarrow> Inr head
           | Some a \<Rightarrow>
               res_bind (calc_affix_value c pid val grow (Some a) (eq_level e)) (\<lambda>v.
               res_bind (scaled v ?rate) (\<lambda>v. Inr (hero_property_add head (af_type a) v))))
        else Inr head) (eq_affix e) h = Inr (hero_property_adds zs h)" for h
    by (rule map_res_adds[OF _ cs(4)])
      (auto simp: equip_scaled_def affix_value_def res_bind_Inr_iff hero_property_add_zero split: if_splits option.splits)
  show ?thesis using Some by (simp add: calc_equip_property_def Let_def 1 2 3 cs(1) adds_append)
qed (use assms in \<open>simp add: calc_equip_property_def equip_of_def\<close>)

end
