(* ===== verification/HeroSuit.thy ===== *)
theory HeroSuit
  imports HeroSum
begin

text \<open>
  The suits of \<^verbatim>\<open>src/world/calc/calc.c\<close>: pieces are counted by suit and quality, and for each number of pieces of a suit
  the best quality gives its bonus. The counting loop and the loop with its table \<open>count_quality\<close> are shown to
  compute exactly that, and the whole calculation to add everything up.
\<close>

section \<open>Counting pieces\<close>

text \<open>The number of pieces of a suit that have at least a quality, and the suits in the order in which they appear.\<close>

definition pieces :: "suit_in list \<Rightarrow> i32 \<Rightarrow> nat \<Rightarrow> nat" where
  "pieces inp s j = length (filter (\<lambda>(s', q). s' = s \<and> int j \<le> sint q) inp)"

definition suits_of :: "suit_in list \<Rightarrow> i32 list" where
  "suits_of inp = rev (remdups (rev (filter (\<lambda>s. s \<noteq> 0) (map fst inp))))"

definition counted :: "suit_in list \<Rightarrow> i32 \<Rightarrow> suit_out" where
  "counted inp s = \<lparr>so_suit = s, so_quality = map (pieces inp s) [0..<10]\<rparr>"

definition no_suit :: suit_out where
  "no_suit = \<lparr>so_suit = 0, so_quality = replicate 10 0\<rparr>"

lemma suit_count_hit:
  assumes "s \<in> set ss" and "distinct ss" and "0 \<notin> set ss"
  shows "suit_count (s, q) (map (counted inp) ss @ zs) = map (counted (inp @ [(s, q)])) ss @ zs"
  using assms
proof (induction ss)
  case (Cons a ss)
  have new: "counted (inp @ [(s, q)]) a = counted inp a" if "a \<noteq> s" for a
    using that by (simp add: counted_def pieces_def)
  show ?case
  proof (cases "a = s")
    case True
    then have "map (counted (inp @ [(s, q)])) ss = map (counted inp) ss" using Cons.prems(2) by (auto intro!: new)
    with True show ?thesis by (simp add: counted_def pieces_def)
  next
    case False
    then show ?thesis using Cons new[of a] by (simp add: counted_def)
  qed
qed simp

lemma suit_count_new:
  assumes "s \<notin> set ss" and "0 \<notin> set ss" and "s \<noteq> 0" and "s \<notin> fst ` set inp"
  shows "suit_count (s, q) (map (counted inp) ss @ no_suit # zs) = map (counted (inp @ [(s, q)])) (ss @ [s]) @ zs"
  using assms
proof (induction ss)
  case Nil
  have "filter (\<lambda>(s', q). s' = s \<and> int j \<le> sint q) inp = []" for j
    using assms(4) by (force simp: filter_empty_conv)
  then show ?case by (simp add: no_suit_def counted_def pieces_def)
next
  case (Cons a ss)
  then show ?case by (auto simp: counted_def pieces_def)
qed

lemma calc_suit_counts:
  assumes "length inp \<le> n"
  shows "calc_suit inp (replicate n no_suit) = map (counted inp) (suits_of inp) @ replicate (n - length (suits_of inp)) no_suit"
  using assms
proof (induction inp rule: rev_induct)
  case Nil
  then show ?case by (simp add: calc_suit_def suits_of_def)
next
  case (snoc x inp)
  obtain s q where x: "x = (s, q)" by (cases x)
  have len: "length (suits_of inp) \<le> length inp"
    using le_trans[OF length_remdups_leq[of "rev (filter (\<lambda>s. s \<noteq> 0) (map fst inp))"]] length_filter_le[of "\<lambda>s. s \<noteq> 0" "map fst inp"]
    by (simp add: suits_of_def)
  have d: "distinct (suits_of inp)" "0 \<notin> set (suits_of inp)" by (auto simp: suits_of_def)
  have IH: "calc_suit inp (replicate n no_suit) = map (counted inp) (suits_of inp) @ replicate (n - length (suits_of inp)) no_suit"
    using snoc by simp
  have step: "calc_suit (inp @ [x]) (replicate n no_suit) =
      (if s = 0 then calc_suit inp (replicate n no_suit) else suit_count (s, q) (calc_suit inp (replicate n no_suit)))"
    by (simp add: calc_suit_def x)
  consider "s = 0" | "s \<noteq> 0" "s \<in> set (suits_of inp)" | "s \<noteq> 0" "s \<notin> set (suits_of inp)" by blast
  then show ?case
  proof cases
    case 1
    then have "suits_of (inp @ [x]) = suits_of inp" by (simp add: suits_of_def x)
    moreover have "map (counted (inp @ [x])) (suits_of inp) = map (counted inp) (suits_of inp)"
      using d(2) 1 by (auto simp: counted_def pieces_def x)
    ultimately show ?thesis using step IH 1 by simp
  next
    case 2
    then have "suits_of (inp @ [x]) = suits_of inp" by (auto simp: suits_of_def x)
    then show ?thesis using step IH 2 suit_count_hit[OF 2(2) d] x by simp
  next
    case 3
    then have s: "suits_of (inp @ [x]) = suits_of inp @ [s]" "s \<notin> fst ` set inp" by (auto simp: suits_of_def x)
    have "n - length (suits_of inp) = Suc (n - Suc (length (suits_of inp)))" using len snoc.prems by simp
    then show ?thesis using step IH 3 s suit_count_new[OF 3(2) d(2) 3(1) s(2)] x by simp
  qed
qed

section \<open>Bonuses\<close>

definition best_quality :: "configs \<Rightarrow> i32 \<Rightarrow> (nat \<Rightarrow> nat) \<Rightarrow> nat list \<Rightarrow> nat \<Rightarrow> nat option" where
  "best_quality c s cnt js k = find (\<lambda>j. k \<le> cnt j \<and> get_equip_suit_config c s j k \<noteq> None) js"

definition bonus_of :: "configs \<Rightarrow> i32 \<Rightarrow> nat \<Rightarrow> nat \<Rightarrow> property list" where
  "bonus_of c s j k = (case get_equip_suit_config c s j k of None \<Rightarrow> [] | Some (p, q) \<Rightarrow> [p, q])"

text \<open>For two to nine pieces, the bonus of the best quality of which there are that many.\<close>

definition suit_bonus :: "configs \<Rightarrow> i32 \<Rightarrow> (nat \<Rightarrow> nat) \<Rightarrow> i32 \<Rightarrow> i32" where
  "suit_bonus c s cnt t =
     (\<Sum>k\<leftarrow>[2..<10]. case best_quality c s cnt (rev [0..<10]) k of None \<Rightarrow> 0 | Some j \<Rightarrow> total (bonus_of c s j k) t)"

text \<open>One round over the numbers of pieces.\<close>

lemma suit_round:
  assumes "distinct ks" and "\<forall>k \<in> set ks. k < 10" and "length cq = 10"
  shows "res_fold (suit_step c s j) ks (cq, h) =
    Inr (map (\<lambda>k. if k \<in> set ks \<and> cq ! k = 0 \<and> get_equip_suit_config c s j k \<noteq> None then j else cq ! k) [0..<10],
         hero_property_adds (concat (map (\<lambda>k. if cq ! k = 0 then bonus_of c s j k else []) ks)) h)"
  using assms
proof (induction ks arbitrary: cq h)
  case Nil
  then show ?case by (simp add: list_eq_iff_nth_eq)
next
  case (Cons k ks)
  define b where "b = (if cq ! k = 0 then bonus_of c s j k else [])"
  define cq1 where "cq1 = (if cq ! k = 0 \<and> get_equip_suit_config c s j k \<noteq> None then cq[k := j] else cq)"
  have step: "suit_step c s j k (cq, h) = Inr (cq1, hero_property_adds b h)"
    using Cons.prems by (auto simp: suit_step_def bonus_of_def b_def cq1_def split: option.splits)
  have same: "cq1 ! k' = cq ! k'" if "k' \<in> set ks" for k'
    using that Cons.prems(1) by (cases "k = k'") (auto simp: cq1_def)
  have cs: "map (\<lambda>k. if cq1 ! k = 0 then bonus_of c s j k else []) ks = map (\<lambda>k. if cq ! k = 0 then bonus_of c s j k else []) ks"
    by (simp add: same)
  have "(if i \<in> set ks \<and> cq1 ! i = 0 \<and> get_equip_suit_config c s j i \<noteq> None then j else cq1 ! i) =
      (if i \<in> set (k # ks) \<and> cq ! i = 0 \<and> get_equip_suit_config c s j i \<noteq> None then j else cq ! i)" if "i < 10" for i
    using that Cons.prems by (cases "i = k") (auto simp: cq1_def)
  then have "map (\<lambda>i. if i \<in> set ks \<and> cq1 ! i = 0 \<and> get_equip_suit_config c s j i \<noteq> None then j else cq1 ! i) [0..<10] =
      map (\<lambda>i. if i \<in> set (k # ks) \<and> cq ! i = 0 \<and> get_equip_suit_config c s j i \<noteq> None then j else cq ! i) [0..<10]"
    by (intro map_cong) simp_all
  moreover have "length cq1 = 10" using Cons.prems(3) by (simp add: cq1_def)
  ultimately show ?case using Cons.IH[of cq1 "hero_property_adds b h"] Cons.prems(1,2) unfolding cs
    by (simp only: res_fold.simps step res_bind_simps) (simp add: adds_append b_def)
qed

lemma sum_upto:
  assumes "n < 10"
  shows "(\<Sum>k\<leftarrow>rev [2..<n + 1]. f k) = (\<Sum>k\<leftarrow>[2..<10]. if k \<le> n then f k else (0 :: i32))"
proof -
  have "(\<Sum>k\<leftarrow>rev [2..<n + 1]. f k) = sum f {2..<n + 1}"
    by (subst sum_list_distinct_conv_sum_set) (simp_all only: set_rev set_upt distinct_rev distinct_upt)
  also have "\<dots> = sum (\<lambda>k. if k \<le> n then f k else 0) {2..<10}"
    using assms by (intro sum.mono_neutral_cong_left) auto
  also have "\<dots> = (\<Sum>k\<leftarrow>[2..<10]. if k \<le> n then f k else 0)"
    by (subst sum_list_distinct_conv_sum_set) (simp_all only: set_upt distinct_upt)
  finally show ?thesis .
qed

lemma suit_rounds:
  assumes "sorted_wrt (>) js" and "\<forall>j \<in> set js. cnt j < 10" and "length cq = 10"
  shows "\<exists>cq' cs. res_fold (\<lambda>j. res_fold (suit_step c s j) (rev [2..<cnt j + 1])) js (cq, h) = Inr (cq', hero_property_adds cs h)
    \<and> (\<forall>t. total cs t = (\<Sum>k\<leftarrow>[2..<10]. if cq ! k \<noteq> 0 then 0
         else case best_quality c s cnt js k of None \<Rightarrow> 0 | Some j \<Rightarrow> total (bonus_of c s j k) t))"
  using assms
proof (induction js arbitrary: cq h)
  case Nil
  then show ?case by (auto simp: best_quality_def intro!: exI[of _ "[]"])
next
  case (Cons j js)
  define cq1 where "cq1 = map (\<lambda>k. if k \<in> set (rev [2..<cnt j + 1]) \<and> cq ! k = 0 \<and> get_equip_suit_config c s j k \<noteq> None then j else cq ! k) [0..<10]"
  define cs1 where "cs1 = concat (map (\<lambda>k. if cq ! k = 0 then bonus_of c s j k else []) (rev [2..<cnt j + 1]))"
  have cnt: "cnt j < 10" using Cons.prems(2) by simp
  have r: "res_fold (suit_step c s j) (rev [2..<cnt j + 1]) (cq, h) = Inr (cq1, hero_property_adds cs1 h)"
    unfolding cq1_def cs1_def by (rule suit_round) (use cnt Cons.prems(3) in auto)
  obtain cq' cs2 where IH: "res_fold (\<lambda>j. res_fold (suit_step c s j) (rev [2..<cnt j + 1])) js (cq1, hero_property_adds cs1 h) =
      Inr (cq', hero_property_adds cs2 (hero_property_adds cs1 h))"
    "\<And>t. total cs2 t = (\<Sum>k\<leftarrow>[2..<10]. if cq1 ! k \<noteq> 0 then 0
         else case best_quality c s cnt js k of None \<Rightarrow> 0 | Some j \<Rightarrow> total (bonus_of c s j k) t)"
    using Cons.IH[of cq1 "hero_property_adds cs1 h"] Cons.prems by (auto simp: cq1_def)
  have "total cs1 t = (\<Sum>k\<leftarrow>[2..<10]. if k \<le> cnt j then if cq ! k = 0 then total (bonus_of c s j k) t else 0 else 0)" for t
    unfolding sum_upto[OF cnt, symmetric] cs1_def total_concat by (simp add: comp_def if_distrib[of "\<lambda>x. total x t"] cong: if_cong)
  moreover have "(if k \<le> cnt j then if cq ! k = 0 then total (bonus_of c s j k) t else 0 else 0)
      + (if cq1 ! k \<noteq> 0 then 0 else case best_quality c s cnt js k of None \<Rightarrow> 0 | Some j \<Rightarrow> total (bonus_of c s j k) t)
      = (if cq ! k \<noteq> 0 then 0 else case best_quality c s cnt (j # js) k of None \<Rightarrow> 0 | Some j \<Rightarrow> total (bonus_of c s j k) t)"
    if k: "k \<in> set [2..<10]" for k t
  proof -
    have "cq1 ! k = (if k \<le> cnt j \<and> cq ! k = 0 \<and> get_equip_suit_config c s j k \<noteq> None then j else cq ! k)"
    proof -
      have "k < length [0..<10]" "[0..<10] ! k = k" "k \<in> set (rev [2..<cnt j + 1]) \<longleftrightarrow> k \<le> cnt j"
        using k by (simp_all only: set_rev set_upt length_upt) auto
      then show ?thesis unfolding cq1_def by (simp only: nth_map)
    qed
    moreover have "js = []" if "j = 0" using Cons.prems(1) that by (cases js) auto
    ultimately show ?thesis by (auto simp: best_quality_def bonus_of_def split: option.splits)
  qed
  ultimately have "total (cs1 @ cs2) t = (\<Sum>k\<leftarrow>[2..<10]. if cq ! k \<noteq> 0 then 0
         else case best_quality c s cnt (j # js) k of None \<Rightarrow> 0 | Some j \<Rightarrow> total (bonus_of c s j k) t)" for t
    by (simp only: total_simps IH(2) sum_list_addf[symmetric] cong: map_cong)
  with r IH(1) show ?case by (intro exI[of _ cq'] exI[of _ "cs1 @ cs2"]) (simp add: adds_append)
qed

lemma calc_suit_bonus_adds:
  assumes "\<forall>j<10. so_quality r ! j < 10" and "so_suit r \<noteq> 0"
  shows "\<exists>cs. calc_suit_bonus c r h = Inr (hero_property_adds cs h) \<and> (\<forall>t. total cs t = suit_bonus c (so_suit r) (\<lambda>j. so_quality r ! j) t)"
proof -
  have js: "sorted_wrt (>) (rev [0..<10 :: nat])" "\<forall>j \<in> set (rev [0..<10]). so_quality r ! j < 10" "length (replicate 10 (0 :: nat)) = 10"
    using assms(1) by (simp_all add: sorted_wrt_rev)
  have z: "replicate 10 (0 :: nat) ! k = 0" if "k \<in> set [2..<10]" for k using that by (simp only: set_upt atLeastLessThan_iff nth_replicate)
  obtain cq cs where r: "res_fold (\<lambda>j. res_fold (suit_step c (so_suit r) j) (rev [2..<so_quality r ! j + 1])) (rev [0..<10]) (replicate 10 0, h) =
      Inr (cq, hero_property_adds cs h)"
    "\<And>t. total cs t = (\<Sum>k\<leftarrow>[2..<10]. if replicate 10 (0 :: nat) ! k \<noteq> 0 then 0
         else case best_quality c (so_suit r) (\<lambda>j. so_quality r ! j) (rev [0..<10]) k of None \<Rightarrow> 0 | Some j \<Rightarrow> total (bonus_of c (so_suit r) j k) t)"
    using suit_rounds[OF js, of c "so_suit r" h] by blast
  have "total cs t = suit_bonus c (so_suit r) (\<lambda>j. so_quality r ! j) t" for t
    unfolding r(2) suit_bonus_def by (intro arg_cong[where f = sum_list] map_cong refl) (simp only: z not_True_eq_False if_False simp_thms)
  then show ?thesis using assms(2)
    by (intro exI[of _ cs]) (simp only: calc_suit_bonus_def if_False r(1) res_bind_simps prod.case simp_thms)
qed

section \<open>All together\<close>

text \<open>The suits noted for the equipment a hero wears.\<close>

definition suits_noted :: "configs \<Rightarrow> player_data \<Rightarrow> Hero \<Rightarrow> suit_in list" where
  "suits_noted c pl hero =
     fold (\<lambda>i inp. case equip_get_by_hero pl (he_uuid hero) (of_nat i) of None \<Rightarrow> inp | Some e \<Rightarrow> note_suits c e i inp)
       [1..<EQUIP_INTO_BATTLE_MAX + 1] (replicate SUIT_SLOT_COUNT (0, 0))"

definition equip_contrib :: "configs \<Rightarrow> player_data \<Rightarrow> Hero \<Rightarrow> property list" where
  "equip_contrib c pl hero =
     concat (map (\<lambda>i. case equip_get_by_hero pl (he_uuid hero) (of_nat i) of
                        None \<Rightarrow> []
                      | Some e \<Rightarrow> (case equip_of c 10000 e of Inl _ \<Rightarrow> [] | Inr cs \<Rightarrow> cs)) [1..<EQUIP_INTO_BATTLE_MAX + 1])"

definition growth_contrib :: "configs \<Rightarrow> player_data \<Rightarrow> Hero \<Rightarrow> property list" where
  "growth_contrib c pl hero =
     base_contrib c hero
     @ (case get_hero_config c (he_gid hero) of
          None \<Rightarrow> []
        | Some cfg \<Rightarrow>
            level_of c (he_gid hero) (he_level hero) @ level_of c (hc_weapon cfg) (he_weapon_level hero)
            @ stage_of c (he_gid hero) (he_stage hero) (he_stage_slot hero)
            @ stage_of c (hc_weapon cfg) (he_weapon_stage hero) (he_weapon_stage_slot hero)
            @ star_of c (he_gid hero) (he_star hero) @ star_of c (hc_weapon cfg) (he_weapon_star hero))
     @ talent_contrib c pl hero @ equip_contrib c pl hero"

definition buff_contrib :: "configs \<Rightarrow> player_data \<Rightarrow> Hero \<Rightarrow> property list" where
  "buff_contrib c pl hero =
     concat (map (\<lambda>(b, v). case get_buff_config c b of
                             None \<Rightarrow> []
                           | Some cfg \<Rightarrow> if bc_hero_id cfg = 0 \<or> bc_hero_id cfg = he_gid hero then [(bc_type cfg, bc_value cfg * v)] else [])
              (player_buffs pl))"

definition fashion_contrib :: "configs \<Rightarrow> player_data \<Rightarrow> Hero \<Rightarrow> property list" where
  "fashion_contrib c pl hero =
     concat (map (\<lambda>x. if hi_status x = 1 \<and> hi_uid x = he_uuid hero
                       then (case get_fashion_by_item c (he_gid hero) (hi_id x) of None \<Rightarrow> [] | Some p \<Rightarrow> [p]) else [])
              (player_hero_items pl))"

definition hero_contrib :: "configs \<Rightarrow> player_data \<Rightarrow> Hero \<Rightarrow> property list" where
  "hero_contrib c pl hero = growth_contrib c pl hero @ buff_contrib c pl hero @ fashion_contrib c pl hero"

text \<open>When the calculation runs into no fault: the talents have all their digits, the numbers of the equipment stay
  in range, and no suit has ten pieces. Additional equipment is left out.\<close>

definition hero_plain :: "configs \<Rightarrow> player_data \<Rightarrow> Hero \<Rightarrow> bool" where
  "hero_plain c pl hero \<longleftrightarrow>
     (\<forall>type. talent_fits (talent_get pl type (he_uuid hero)))
     \<and> (\<forall>i e. equip_get_by_hero pl (he_uuid hero) (of_nat i) = Some e \<longrightarrow> ok (equip_of c 10000 e))
     \<and> (\<forall>i. sint (snd (addon_config c i)) \<le> 0)
     \<and> (\<forall>s. s \<noteq> 0 \<longrightarrow> pieces (suits_noted c pl hero) s 0 < 10)"

lemma calc_equips_adds:
  assumes "hero_plain c pl hero"
  shows "calc_equips c pl hero (h, replicate SUIT_SLOT_COUNT (0, 0)) = Inr (hero_property_adds (equip_contrib c pl hero) h, suits_noted c pl hero)"
proof -
  let ?eq = "\<lambda>i. equip_get_by_hero pl (he_uuid hero) (of_nat i)"
  have add: "calc_addons c pl hero i h = Inr h" for i h
    using assms by (simp add: calc_addons_def hero_plain_def case_prod_beta not_less[symmetric] leD)
  have "res_fold (\<lambda>i (head, inp).
       case ?eq i of
         None \<Rightarrow> Inr (head, inp)
       | Some e \<Rightarrow>
           res_bind (calc_equip_property c (Some e) head 10000) (\<lambda>head.
           res_bind (calc_addons c pl hero i head) (\<lambda>head.
             Inr (head, note_suits c e i inp)))) is (h, inp) =
    Inr (hero_property_adds (concat (map (\<lambda>i. case ?eq i of None \<Rightarrow> [] | Some e \<Rightarrow> (case equip_of c 10000 e of Inl _ \<Rightarrow> [] | Inr cs \<Rightarrow> cs)) is)) h,
      fold (\<lambda>i inp. case ?eq i of None \<Rightarrow> inp | Some e \<Rightarrow> note_suits c e i inp) is inp)" for "is" h inp
  proof (induction "is" arbitrary: h inp)
    case (Cons i "is")
    show ?case
    proof (cases "?eq i")
      case (Some e)
      then obtain cs where "equip_of c 10000 e = Inr cs" using assms unfolding hero_plain_def ok_iff by blast
      then show ?thesis using Some Cons calc_equip_adds by (simp add: add adds_append)
    qed (simp add: Cons)
  qed simp
  then show ?thesis unfolding calc_equips_def equip_contrib_def suits_noted_def .
qed

lemma pieces_mono: "i \<le> j \<Longrightarrow> pieces inp s j \<le> pieces inp s i"
  by (induction inp) (auto simp: pieces_def)

lemma suit_bonus_cong:
  assumes "\<And>j. j < 10 \<Longrightarrow> cnt j = cnt' j"
  shows "suit_bonus c s cnt t = suit_bonus c s cnt' t"
proof -
  have "best_quality c s cnt (rev [0..<10]) k = best_quality c s cnt' (rev [0..<10]) k" for k
    unfolding best_quality_def by (rule find_cong) (simp_all add: assms del: upt_rec_numeral)
  then show ?thesis by (simp add: suit_bonus_def)
qed

lemma suits_bonus:
  assumes "\<forall>s \<in> set ss. s \<noteq> 0 \<and> pieces inp s 0 < 10"
  shows "\<exists>cs. res_fold (calc_suit_bonus c) (map (counted inp) ss @ replicate m no_suit) h = Inr (hero_property_adds cs h)
    \<and> (\<forall>t. total cs t = (\<Sum>s\<leftarrow>ss. suit_bonus c s (pieces inp s) t))"
  using assms
proof (induction ss arbitrary: h)
  case Nil
  have "res_fold (calc_suit_bonus c) (replicate m no_suit) h = Inr h"
    by (induction m) (simp_all add: calc_suit_bonus_def no_suit_def)
  then show ?case by (intro exI[of _ "[]"]) simp
next
  case (Cons s ss)
  have q: "so_quality (counted inp s) ! j = pieces inp s j" if "j < 10" for j
    using that nth_map_upt[of j 10 0 "pieces inp s"] by (simp add: counted_def del: upt_rec_numeral)
  have "so_quality (counted inp s) ! j < 10" if "j < 10" for j
    using q[OF that] pieces_mono[of 0 j inp s] Cons.prems by simp
  then obtain cs1 where 1: "calc_suit_bonus c (counted inp s) h = Inr (hero_property_adds cs1 h)"
    "\<And>t. total cs1 t = suit_bonus c s (\<lambda>j. so_quality (counted inp s) ! j) t"
    using calc_suit_bonus_adds[of "counted inp s" c h] Cons.prems by (auto simp: counted_def)
  obtain cs2 where 2: "res_fold (calc_suit_bonus c) (map (counted inp) ss @ replicate m no_suit) (hero_property_adds cs1 h) =
      Inr (hero_property_adds cs2 (hero_property_adds cs1 h))" "\<And>t. total cs2 t = (\<Sum>s\<leftarrow>ss. suit_bonus c s (pieces inp s) t)"
    using Cons.IH[of "hero_property_adds cs1 h"] Cons.prems by auto
  show ?case
    using 1 2 suit_bonus_cong[of "\<lambda>j. so_quality (counted inp s) ! j" "pieces inp s" c s, OF q] by (intro exI[of _ "cs1 @ cs2"]) (simp add: adds_append)
qed

lemma suits_noted_length: "length (suits_noted c pl hero) = SUIT_SLOT_COUNT"
proof -
  have f: "length (fold g xs inp) = length inp" if "\<And>x inp. length (g x inp) = length inp" for g and xs :: "nat list" and inp :: "suit_in list"
    using that by (induction xs arbitrary: inp) simp_all
  have n: "length (note_suits c e i inp) = length inp" for e i inp
    unfolding note_suits_def Let_def by (subst f) (simp_all split: option.splits)
  show ?thesis unfolding suits_noted_def by (subst f) (simp_all add: n split: option.splits)
qed

lemma calc_buff_adds: "calc_buff_property c (Some pl) hero h = hero_property_adds (buff_contrib c pl hero) h"
  unfolding calc_buff_property_def buff_contrib_def option.case by (rule fold_adds) (auto split: option.splits)

lemma calc_fashion_adds: "calc_fashion_property c (Some pl) hero h = hero_property_adds (fashion_contrib c pl hero) h"
  unfolding calc_fashion_property_def fashion_contrib_def option.case by (rule fold_adds) (auto split: option.splits)

lemma calc_growth_adds:
  assumes "hero_plain c pl hero"
  shows "res_bind (hero_property_calc_talent c (Some pl) hero (hero_property_calc_star c hero (hero_property_calc_stage c hero
        (hero_property_calc_level c hero (hero_property_calc_base c hero h))))) (\<lambda>h. calc_equips c pl hero (h, replicate SUIT_SLOT_COUNT (0, 0))) =
      Inr (hero_property_adds (growth_contrib c pl hero) h, suits_noted c pl hero)"
proof -
  have "talent_fits (talent_get pl type (he_uuid hero))" for type using assms by (simp add: hero_plain_def)
  then show ?thesis
    by (simp add: growth_contrib_def calc_talents_add calc_equips_adds[OF assms] calc_base_adds calc_level_adds calc_stage_adds calc_star_adds
        hero_property_calc_level_def hero_property_calc_stage_def hero_property_calc_star_def adds_append Let_def split: option.splits)
qed


section \<open>Where the code does less\<close>

text \<open>Ten pieces of a suit overrun the table of the qualities, which has ten entries.\<close>

lemma suit_step_result:
  "suit_step c s j k (cq, h) = Inl OutOfBounds \<or> (\<exists>cq' h'. suit_step c s j k (cq, h) = Inr (cq', h') \<and> length cq' = length cq)"
  by (auto simp: suit_step_def split: option.splits)

lemma suit_round_result:
  assumes "length cq = 10"
  shows "case res_fold (suit_step c s j) ks (cq, h) of Inl f \<Rightarrow> f = OutOfBounds | Inr (cq', _) \<Rightarrow> length cq' = 10"
  using assms
proof (induction ks arbitrary: cq h)
  case (Cons k ks)
  then show ?case using suit_step_result[of c s j k cq h] by auto
qed simp

lemma suit_of_ten_overruns:
  assumes "so_suit r \<noteq> 0" and "10 \<le> so_quality r ! 0"
  shows "calc_suit_bonus c r h = Inl OutOfBounds"
proof -
  let ?ks = "\<lambda>j. rev [2..<so_quality r ! j + 1]"
  have ks: "?ks j = so_quality r ! j # rev [2..<so_quality r ! j]" if "10 \<le> so_quality r ! j" for j
    using that by simp
  have hit: "res_fold (suit_step c (so_suit r) 0) (?ks 0) (cq, h) = Inl OutOfBounds" if "length cq = 10" for cq h
    using that assms(2) unfolding ks[OF assms(2)] by (simp add: suit_step_def)
  have "res_fold (\<lambda>j. res_fold (suit_step c (so_suit r) j) (?ks j)) (js @ [0]) (cq, h) = Inl OutOfBounds" if "length cq = 10" for js cq h
    using that
  proof (induction js arbitrary: cq h)
    case (Cons j js)
    from suit_round_result[OF Cons.prems, of c "so_suit r" j "?ks j" h] Cons.IH show ?case
      by (auto split: sum.splits prod.splits simp: res_bind_def)
  qed (simp only: append_Nil res_fold.simps hit res_bind_simps)
  moreover have "rev [0..<10] = rev [Suc 0..<10] @ [0]" by (simp add: upt_conv_Cons[of 0])
  ultimately show ?thesis using assms(1) by (simp only: calc_suit_bonus_def if_False res_bind_simps length_replicate)
qed

text \<open>Additional equipment adds to types that are in the list already; the nodes of new types are lost, since the new
  head of the list is dropped.\<close>

lemma add_types: "\<exists>xs. map fst (hero_property_add h t v) = xs @ map fst h"
  by (cases "property_found h t v") (auto simp: hero_property_add_def dest: property_found_Some(1))

lemma fold_types:
  assumes "\<And>x h h'. f x h = Inr h' \<Longrightarrow> \<exists>xs. map fst h' = xs @ map fst h" and "res_fold f xs h = Inr h'"
  shows "\<exists>xs. map fst h' = xs @ map fst h"
  using assms(2)
proof (induction xs arbitrary: h)
  case (Cons x xs)
  then show ?case using assms(1) by (fastforce simp: res_bind_Inr_iff)
qed simp

lemma equip_types:
  assumes "calc_equip_property c (Some e) h ratio = Inr h'"
  shows "\<exists>xs. map fst h' = xs @ map fst h"
proof (cases "get_equip_config c (eq_gid e)")
  case (Some cfg)
  then obtain h1 h2 where r:
    "res_fold (\<lambda>(t, v) head. res_bind (scaled v (ten_thousandths (sint ratio))) (\<lambda>v. Inr (hero_property_add head t v))) (ec_propertys cfg) h = Inr h1"
    "res_fold (\<lambda>(t, v) head. res_bind (scaled (v * eq_level e) (ten_thousandths (sint ratio))) (\<lambda>v. Inr (hero_property_add head t v))) (ec_levelup_propertys cfg) h1 = Inr h2"
    "res_fold (\<lambda>(pid, val, grow) head.
        if sint pid > 0 then
          (case get_equip_affix_config c pid of
             None \<Rightarrow> Inr head
           | Some a \<Rightarrow>
               res_bind (calc_affix_value c pid val grow (Some a) (eq_level e)) (\<lambda>v.
               res_bind (scaled v (ten_thousandths (sint ratio))) (\<lambda>v. Inr (hero_property_add head (af_type a) v))))
        else Inr head) (eq_affix e) h2 = Inr h'"
    using assms by (auto simp: calc_equip_property_def res_bind_Inr_iff Let_def)
  have "\<exists>xs. map fst h1 = xs @ map fst h" by (rule fold_types[OF _ r(1)]) (auto simp: res_bind_Inr_iff intro: add_types)
  moreover have "\<exists>xs. map fst h2 = xs @ map fst h1" by (rule fold_types[OF _ r(2)]) (auto simp: res_bind_Inr_iff intro: add_types)
  moreover have "\<exists>xs. map fst h' = xs @ map fst h2"
    by (rule fold_types[OF _ r(3)]) (auto simp: res_bind_Inr_iff intro: add_types split: if_splits option.splits)
  ultimately show ?thesis by (metis append.assoc)
qed (use assms in \<open>simp add: calc_equip_property_def\<close>)

lemma addon_types_lost:
  assumes "calc_addons c pl hero i h = Inr h'"
  shows "map fst h' = map fst h"
proof -
  have seen: "map fst (seen_from h new) = map fst h" if "calc_equip_property c (Some e) h r = Inr new" for h e r new
  proof -
    obtain xs where xs: "map fst new = xs @ map fst h" using equip_types[OF \<open>_ = Inr new\<close>] by blast
    then have "length new = length xs + length h" by (metis length_append length_map)
    with xs show ?thesis by (simp add: seen_from_def flip: drop_map)
  qed
  have "map fst h' = map fst h" if "res_fold (\<lambda>group head.
             case equip_get_by_hero pl (he_uuid hero) (push_bit 8 (of_nat group) OR of_nat i) of
               None \<Rightarrow> Inr head
             | Some e \<Rightarrow> res_bind (calc_equip_property c (Some e) head r) (\<lambda>new. Inr (seen_from head new))) gs h = Inr h'" for gs r h
    using that
  proof (induction gs arbitrary: h)
    case (Cons g gs)
    then show ?case using seen by (auto simp: res_bind_Inr_iff split: option.splits)
  qed simp
  with assms show ?thesis unfolding calc_addons_def by (auto split: if_splits prod.splits)
qed

section \<open>Example\<close>

text \<open>A hero with one base property who wears two pieces of a suit.\<close>

definition cfg_example :: configs where
  "cfg_example =
     \<lparr>get_hero_config = (\<lambda>g. if g = 11 then Some \<lparr>hc_id = 11, hc_weapon = 21, hc_propertys = [(7, 50)], hc_ext_property = [],
          hc_talent_id = 0, hc_fight_talent_id = 0, hc_work_talent_id = 0\<rparr> else None),
      get_weapon_config = (\<lambda>_. None), get_level_property_config = (\<lambda>_. None), get_evo_config = (\<lambda>_ _. None),
      get_star_config = (\<lambda>_ _. None), get_talent_skill_config = (\<lambda>_ _. None), get_hero_skill_group_config = (\<lambda>_. []),
      get_equip_config = (\<lambda>_. Some \<lparr>ec_propertys = [(7, 100)], ec_levelup_propertys = [], ec_quality = 3, ec_suit = 9\<rparr>),
      get_equip_affix_config = (\<lambda>_. None),
      get_equip_suit_config = (\<lambda>s j k. if s = 9 \<and> j = 3 \<and> k = 2 then Some ((7, 5), (8, 6)) else None),
      get_buff_config = (\<lambda>_. None), get_fashion_by_item = (\<lambda>_ _. None), get_common_config = (\<lambda>_. None)\<rparr>"

definition equip_one :: Equip where
  "equip_one = \<lparr>eq_gid = 31, eq_level = 1, eq_affix = [(0, 0, 0), (0, 0, 0), (0, 0, 0), (0, 0, 0), (0, 0, 0), (0, 0, 0)]\<rparr>"

definition player_example :: player_data where
  "player_example =
     \<lparr>talent_get = (\<lambda>_ _. None),
      equip_get_by_hero = (\<lambda>u p. if p = 1 \<or> p = 2 then Some equip_one else None),
      hero_get_selected_skill = (\<lambda>_. None), player_buffs = [], player_hero_items = []\<rparr>"

definition hero_example :: Hero where
  "hero_example = \<lparr>he_uuid = 1, he_gid = 11, he_level = 1, he_stage = 0, he_stage_slot = 0, he_star = 0,
     he_weapon_level = 0, he_weapon_stage = 0, he_weapon_stage_slot = 0, he_weapon_star = 0\<rparr>"

lemma positions: "[1..<EQUIP_INTO_BATTLE_MAX + 1] = [1, 2, 3, 4, 5, 6, 7, 8, 9, 10, 11, 12]"
  by (simp add: EQUIP_INTO_BATTLE_MAX_def upt_conv_Cons)

lemma worn_example: "equip_get_by_hero player_example u p = (if p = 1 \<or> p = 2 then Some equip_one else None)"
  by (simp add: player_example_def)

lemma suits_example: "suits_noted cfg_example player_example hero_example = (9, 3) # (9, 3) # replicate 82 (0, 0)"
proof -
  have "note_suits cfg_example equip_one i inp = inp[i - 1 := (9, 3)]" for i inp
    by (simp add: note_suits_def cfg_example_def equip_one_def EQUIP_PROPERTY_POOL_MAX_def upt_conv_Cons)
  moreover have "replicate SUIT_SLOT_COUNT (0, 0) = (0, 0) # (0, 0) # replicate 82 (0 :: i32, 0 :: i32)"
    by (simp add: SUIT_SLOT_COUNT_def EQUIP_INTO_BATTLE_MAX_def EQUIP_PROPERTY_POOL_MAX_def flip: replicate_Suc)
  ultimately show ?thesis
    unfolding suits_noted_def positions by (simp add: worn_example)
qed

lemma equip_example:
  "equip_of cfg_example 10000 equip_one = Inr [(7, 100), (0, 0), (0, 0), (0, 0), (0, 0), (0, 0), (0, 0)]"
proof -
  have "scaled 100 (ten_thousandths 10000) = Inr 100" using ratio_one_exact[of 100] by (simp add: scaled_def)
  then show ?thesis
    by (simp add: equip_of_def cfg_example_def equip_scaled_def affix_value_def equip_one_def)
qed

lemma plain_example: "hero_plain cfg_example player_example hero_example"
proof -
  have "pieces (suits_noted cfg_example player_example hero_example) s 0 < 10" if "s \<noteq> 0" for s
    using that by (simp add: suits_example pieces_def)
  moreover have "ok (equip_of cfg_example 10000 e)" if "equip_get_by_hero player_example (he_uuid hero_example) (of_nat i) = Some e" for i e
    using that equip_example by (auto simp: worn_example split: if_splits)
  moreover have "sint (snd (addon_config cfg_example i)) \<le> 0" for i
    by (simp add: addon_config_def cfg_example_def)
  ultimately show ?thesis by (simp add: hero_plain_def talent_fits_def player_example_def)
qed


end
