(* ===== verification/Growth.thy ===== *)
theory Growth
  imports CPrelude
begin

text \<open>
  Items that grow with time and levels by experience, \<^verbatim>\<open>src/world/calc/calc.c\<close>. An item may gain an amount at the start of
  every period up to a limit; the gain is computed when the item is looked at, from the time of the last
  change. \<open>int\<close> values are 32-bit words read as signed, times (\<open>time_t\<close>) are integers; division truncates
  towards zero.
\<close>

section \<open>Growing items\<close>

record ItemGrowInfo =
  gi_begin_time :: int
  gi_end_time :: int
  gi_period :: i32
  gi_amount :: i32
  gi_limit :: i32
  gi_is_reset :: i32

text \<open>The results: the count, what is stored through \<open>modified\<close> and \<open>over_flow\<close>, and the list of the growth phases, from
  which those that are over are removed.\<close>

record grown =
  gr_count :: i32
  gr_modified :: bool
  gr_over_flow :: "i32 option"
  gr_phases :: "ItemGrowInfo list option"

definition calc_item_grow_count ::
  "int \<Rightarrow> int \<Rightarrow> ItemGrowInfo list option \<Rightarrow> i32 \<Rightarrow> int \<Rightarrow> grown res" where
  "calc_item_grow_count now create cfg count update_time =
     (case cfg of
        None \<Rightarrow> Inr \<lparr>gr_count = count, gr_modified = False, gr_over_flow = None, gr_phases = None\<rparr>
      | Some phases \<Rightarrow>
          let phases = dropWhile (\<lambda>g. \<not> gi_end_time g > now) phases;
              same = (\<lambda>count modified. \<lparr>gr_count = count, gr_modified = modified, gr_over_flow = None, gr_phases = Some phases\<rparr>)
          in case phases of
               [] \<Rightarrow> Inr (same count False)
             | g # _ \<Rightarrow>
                 if gi_begin_time g > now then Inr (same count False)
                 else
                   let start_time = sint (word_of_int update_time :: i32);
                       begin_time = gi_begin_time g;
                       period = sint (gi_period g)
                   in if period = 0 then Inl DivByZero
                      else
                        let begin_time = (if create > begin_time then begin_time + c_div (create - begin_time) period * period else begin_time);
                            reset = sint (gi_is_reset g);
                            modified = (reset \<noteq> 0
                              \<and> (word_of_int (c_div (now - (begin_time - reset)) reset) :: i32) \<noteq> word_of_int (c_div (start_time - (begin_time - reset)) reset));
                            count = (if modified then 0 else count)
                        in if c_div (update_time - gi_begin_time g) period \<ge> c_div (now - gi_begin_time g) period then Inr (same count modified)
                           else
                             let old_count = count;
                                 start_time = (if begin_time \<ge> start_time then sint (word_of_int (begin_time - 1) :: i32) else start_time);
                                 p1 = word_of_int (c_div (now - (begin_time - period)) period);
                                 p2 = word_of_int (c_div (start_time - (begin_time - period)) period);
                                 count = count + (p1 - p2) * gi_amount g
                             in if sint count > sint (gi_limit g) then
                                  let new_count = (if sint old_count > sint (gi_limit g) then old_count else gi_limit g)
                                  in Inr ((same new_count True)\<lparr>gr_over_flow := Some (count - new_count)\<rparr>)
                                else Inr (same count True))"

section \<open>Levels\<close>

text \<open>\<open>consume level\<close> is the experience the table asks for a level, \<open>None\<close> where it has no entry.\<close>

partial_function (option) level_loop :: "(i32 \<Rightarrow> i32 option) \<Rightarrow> i32 \<Rightarrow> i32 \<Rightarrow> i32 option" where
  "level_loop consume exp i =
     (case consume i of
        None \<Rightarrow> Some (i - 1)
      | Some v \<Rightarrow> if sint v > sint exp then Some (i - 1) else level_loop consume exp (i + 1))"

definition calc_level_by_exp :: "(i32 \<Rightarrow> i32 option) \<Rightarrow> i32 \<Rightarrow> i32 option" where
  "calc_level_by_exp consume exp =
     (case consume 1 of None \<Rightarrow> Some 0 | Some _ \<Rightarrow> level_loop consume exp 1)"

section \<open>Properties of growth\<close>

lemma small_int: "- (2 ^ 31) \<le> x \<Longrightarrow> x < 2 ^ 31 \<Longrightarrow> sint (word_of_int x :: i32) = x"
  by (simp add: signed_of_int signed_take_bit_int_eq_self)

text \<open>The periods that start after \<open>u\<close> and up to \<open>now\<close>.\<close>

definition periods :: "ItemGrowInfo \<Rightarrow> int \<Rightarrow> int \<Rightarrow> int" where
  "periods g u now = (now - gi_begin_time g) div sint (gi_period g) - (u - gi_begin_time g) div sint (gi_period g)"

text \<open>A phase in which an item grows steadily, seen at times from \<open>u\<close> to \<open>now\<close>, after the player was created.\<close>

definition steady :: "ItemGrowInfo \<Rightarrow> int \<Rightarrow> int \<Rightarrow> int \<Rightarrow> bool" where
  "steady g create u now \<longleftrightarrow>
     0 \<le> gi_begin_time g \<and> now < gi_end_time g \<and> now < 2 ^ 31 - 1 \<and> 0 < sint (gi_period g)
     \<and> gi_is_reset g = 0 \<and> 0 \<le> sint (gi_amount g) \<and> max create (gi_begin_time g) < u \<and> u \<le> now"

text \<open>The count after a gain, within a limit that the item may exceed for other reasons.\<close>

definition within_limit :: "int \<Rightarrow> int \<Rightarrow> int \<Rightarrow> int" where
  "within_limit limit c gain = (if c + gain > limit then max c limit else c + gain)"

definition spilt :: "grown \<Rightarrow> int" where
  "spilt r = (case gr_over_flow r of None \<Rightarrow> 0 | Some v \<Rightarrow> sint v)"

lemma periods_shift:
  assumes "0 < p"
  shows "(t - (b + k * p) + p) div p = (t - b) div p - k + (1 :: int)"
proof -
  have "t - (b + k * p) + p = (t - b) + (1 - k) * p" by (simp add: algebra_simps)
  then have "(t - (b + k * p) + p) div p = (t - b) div p + (1 - k)"
    using assms div_mult_self1[of p "t - b" "1 - k"] by (simp only: less_imp_neq[THEN not_sym] not_False_eq_True simp_thms)
  then show ?thesis by simp
qed

lemma div_mult_le: "0 < p \<Longrightarrow> x div p * p \<le> (x :: int)"
  by (simp add: minus_mod_eq_div_mult[symmetric])

lemma div_bounds: "0 < p \<Longrightarrow> 0 \<le> x \<Longrightarrow> 0 \<le> x div p \<and> x div p \<le> (x :: int)"
  using zdiv_mono2[of x 1 p] by (simp add: pos_imp_zdiv_nonneg_iff)

lemma grow_count:
  assumes "steady g create u now" and "0 \<le> sint count" and "sint count + periods g u now * sint (gi_amount g) < 2 ^ 31"
  shows "\<exists>r. calc_item_grow_count now create (Some (g # gs)) count u = Inr r \<and> gr_phases r = Some (g # gs)
    \<and> gr_modified r = (periods g u now \<noteq> 0)
    \<and> sint (gr_count r) = within_limit (sint (gi_limit g)) (sint count) (periods g u now * sint (gi_amount g))
    \<and> spilt r = sint count + periods g u now * sint (gi_amount g) - sint (gr_count r)"
proof -
  let ?p = "sint (gi_period g)" and ?b = "gi_begin_time g" and ?n = "periods g u now"
  have st: "0 \<le> ?b" "now < gi_end_time g" "now < 2 ^ 31 - 1" "0 < ?p" "sint (gi_is_reset g) = 0" "0 \<le> sint (gi_amount g)"
    "create < u" "?b < u" "u \<le> now" using assms(1) by (auto simp: steady_def)
  define k where "k = (if create > ?b then (create - ?b) div ?p else 0)"
  define b where "b = ?b + k * ?p"
  have b: "b = (if create > ?b then ?b + c_div (create - ?b) ?p * ?p else ?b)"
    using st by (simp add: b_def k_def c_div_nonneg)
  have k: "0 \<le> k * ?p" "k * ?p \<le> max 0 (create - ?b)"
    using st(4) div_mult_le[OF st(4), of "create - ?b"] by (auto simp: k_def pos_imp_zdiv_nonneg_iff)
  then have bu: "b < u" "0 \<le> b" using st by (auto simp: b_def)
  have q: "(t - b + ?p) div ?p = (t - ?b) div ?p - k + 1" for t unfolding b_def by (rule periods_shift[OF st(4)])
  have n0: "0 \<le> ?n" using zdiv_mono1[of "u - ?b" "now - ?b" ?p] st by (simp add: periods_def)
  let ?c = "count + word_of_int ?n * gi_amount g"
  have "?c = word_of_int (sint count + ?n * sint (gi_amount g))" by simp
  moreover have gain: "0 \<le> ?n * sint (gi_amount g)" using n0 st(6) by simp
  ultimately have c: "sint ?c = sint count + ?n * sint (gi_amount g)"
    using small_int[of "sint count + ?n * sint (gi_amount g)"] assms(2,3) by (simp del: of_int_add of_int_mult)
  have u: "sint (word_of_int u :: i32) = u" using st by (intro small_int) auto
  have cd: "c_div (t - (b - ?p)) ?p = (t - ?b) div ?p - k + 1" if "b \<le> t" for t
    using q[of t] that st(4) by (simp add: c_div_nonneg algebra_simps)
  have pq: "(word_of_int (c_div (now - (b - ?p)) ?p) - word_of_int (c_div (u - (b - ?p)) ?p) :: i32) = word_of_int ?n"
    using bu st(9) by (simp add: cd periods_def flip: of_int_diff)
  have same: "c_div (u - ?b) ?p \<ge> c_div (now - ?b) ?p \<longleftrightarrow> ?n = 0"
    using n0 st by (simp add: c_div_nonneg periods_def)
  have eq: "calc_item_grow_count now create (Some (g # gs)) count u =
      (if ?n = 0 then Inr \<lparr>gr_count = count, gr_modified = False, gr_over_flow = None, gr_phases = Some (g # gs)\<rparr>
       else if sint ?c > sint (gi_limit g) then
         let new = (if sint count > sint (gi_limit g) then count else gi_limit g)
         in Inr \<lparr>gr_count = new, gr_modified = True, gr_over_flow = Some (?c - new), gr_phases = Some (g # gs)\<rparr>
       else Inr \<lparr>gr_count = ?c, gr_modified = True, gr_over_flow = None, gr_phases = Some (g # gs)\<rparr>)"
    unfolding calc_item_grow_count_def option.case Let_def u using st bu by (simp add: b[symmetric] same pq)
  have d: "sint (?c - x) = sint ?c - sint x" if "sint x \<le> sint ?c" "sint count \<le> sint x" for x
  proof -
    have "?c - x = word_of_int (sint ?c - sint x)" by simp
    then show ?thesis using small_int[of "sint ?c - sint x"] that c assms(2,3) by (simp del: of_int_diff)
  qed
  show ?thesis
    unfolding eq Let_def using c d gain d[of count] by (auto simp: within_limit_def spilt_def)
qed

lemma within_limit_add:
  "0 \<le> x \<Longrightarrow> 0 \<le> y \<Longrightarrow> within_limit l (within_limit l c x) y = within_limit l c (x + y)"
  by (auto simp: within_limit_def)


definition phase_example :: ItemGrowInfo where
  "phase_example = \<lparr>gi_begin_time = 1000, gi_end_time = 100000, gi_period = 60, gi_amount = 2, gi_limit = 9, gi_is_reset = 0\<rparr>"


text \<open>An item that was last changed shortly before the phase begins misses the first gain: the time before the begin is
  rounded towards zero and so counts as in the first period.\<close>

lemma first_gain_missed:
  "calc_item_grow_count 1010 0 (Some [phase_example]) 3 990 =
     Inr \<lparr>gr_count = 3, gr_modified = False, gr_over_flow = None, gr_phases = Some [phase_example]\<rparr>"
  "calc_item_grow_count 1010 0 (Some [phase_example]) 3 900 =
     Inr \<lparr>gr_count = 5, gr_modified = True, gr_over_flow = None, gr_phases = Some [phase_example]\<rparr>"
  by (simp_all add: calc_item_grow_count_def phase_example_def c_div_def)

section \<open>Properties of levels\<close>

text \<open>A table of \<open>n\<close> levels.\<close>

definition level_table :: "(i32 \<Rightarrow> i32 option) \<Rightarrow> nat \<Rightarrow> bool" where
  "level_table consume n \<longleftrightarrow> n < 2 ^ 31 - 1 \<and> (\<forall>i. 1 \<le> i \<and> i \<le> n \<longrightarrow> consume (of_nat i) \<noteq> None) \<and> consume (of_nat (Suc n)) = None"

lemma level_loop_stops:
  assumes "level_table consume n" and "i \<le> n"
  shows "\<exists>l. level_loop consume exp (of_nat (Suc i)) = Some (of_nat l) \<and> i \<le> l \<and> l \<le> n
    \<and> (\<forall>j. i < j \<and> j \<le> l \<longrightarrow> sint (the (consume (of_nat j))) \<le> sint exp)
    \<and> (l < n \<longrightarrow> sint (the (consume (of_nat (Suc l)))) > sint exp)"
  using assms(2)
proof (induction "n - i" arbitrary: i)
  case 0
  then show ?case using assms(1) by (subst level_loop.simps) (auto simp: level_table_def intro!: exI[of _ n])
next
  case (Suc m)
  then have i: "Suc i \<le> n" "m = n - Suc i" by simp_all
  obtain v where v: "consume (of_nat (Suc i)) = Some v" using assms(1) i(1) by (fastforce simp: level_table_def)
  show ?case
  proof (cases "sint v > sint exp")
    case True
    then show ?thesis using v i(1) by (subst level_loop.simps) (auto intro!: exI[of _ i])
  next
    case False
    then have "level_loop consume exp (of_nat (Suc i)) = level_loop consume exp (of_nat (Suc (Suc i)))"
      using v by (subst level_loop.simps) (simp add: ac_simps)
    moreover obtain l where l: "level_loop consume exp (of_nat (Suc (Suc i))) = Some (of_nat l)" "Suc i \<le> l" "l \<le> n"
      "\<forall>j. Suc i < j \<and> j \<le> l \<longrightarrow> sint (the (consume (of_nat j))) \<le> sint exp" "l < n \<longrightarrow> sint (the (consume (of_nat (Suc l)))) > sint exp"
      using Suc.hyps(1)[OF i(2) i(1)] by blast
    moreover have "sint (the (consume (of_nat j))) \<le> sint exp" if "i < j" "j \<le> l" for j
      using l(4) that v False by (cases "j = Suc i") auto
    ultimately show ?thesis by (intro exI[of _ l]) auto
  qed
qed

text \<open>The search for a level returns for every table and experience: the highest level such that the experience is enough
  for it and for all levels below; the next one is missing or too expensive.\<close>

theorem level_by_exp:
  assumes "level_table consume n"
  shows "\<exists>l. calc_level_by_exp consume exp = Some (of_nat l) \<and> l \<le> n
    \<and> (\<forall>j. 1 \<le> j \<and> j \<le> l \<longrightarrow> sint (the (consume (of_nat j))) \<le> sint exp)
    \<and> (l < n \<longrightarrow> sint (the (consume (of_nat (Suc l)))) > sint exp)"
proof (cases n)
  case 0
  then have "calc_level_by_exp consume exp = Some 0" using assms by (simp add: level_table_def calc_level_by_exp_def)
  with 0 show ?thesis by (intro exI[of _ 0]) simp
next
  case (Suc m)
  then have "consume 1 \<noteq> None" using assms unfolding level_table_def by (metis le_add1 le_refl of_nat_1 plus_1_eq_Suc)
  then have "calc_level_by_exp consume exp = level_loop consume exp (of_nat (Suc 0))" by (auto simp: calc_level_by_exp_def)
  with level_loop_stops[OF assms, of 0 exp] show ?thesis by (auto simp: Suc_le_eq)
qed

theorem level_by_exp_witness:
  "\<exists>l. calc_level_by_exp (\<lambda>i. if i = 1 then Some 0 else if i = 2 then Some 100 else if i = 3 then Some 300 else None) 150 = Some (of_nat l)
    \<and> l \<le> 3 \<and> \<not> 3 \<le> l"
proof -
  let ?t = "\<lambda>i :: i32. if i = 1 then Some 0 else if i = 2 then Some 100 else if i = 3 then Some (300 :: i32) else None"
  have "level_table ?t 3"
    by (auto simp: level_table_def le_Suc_eq numeral_3_eq_3)
  with level_by_exp[of ?t 3 150] show ?thesis by force
qed


end
